(* ===== verification/Prelude.thy ===== *)
theory Prelude
  imports Main "HOL-Library.Word" "HOL-Library.Multiset"
begin

section \<open>Shared types, C arithmetic and list lemmas\<close>

text \<open>
  The types and helpers every component uses: the machine integers of the
  source at their width, C's truncating division, C strings inside byte
  strings, the vector idioms of the code (a forward loop that erases, the
  swap with the last element followed by \<open>pop_back\<close>), and the collections of
  facts the component theories add to.
\<close>

unbundle bit_operations_syntax

named_theorems frame_simps \<open>fields an operation does not write\<close>
named_theorems inv_intros \<open>an operation keeps a component's invariant\<close>

subsection \<open>Machine integers\<close>

type_synonym u8 = "8 word"
type_synonym u16 = "16 word"
type_synonym u32 = "32 word"
type_synonym u64 = "64 word"
type_synonym s16 = "16 word"
type_synonym s32 = "32 word"

lemma byte_less: "unat (a :: u8) < 256"
  using unsigned_less [of a] by simp

text \<open>A \<open>char\<close> of a buffer read as an \<open>unsigned char\<close>, and back.\<close>

definition byte_of :: "char \<Rightarrow> u8" where
  "byte_of c = word_of_nat (of_char c)"

definition char_of_byte :: "u8 \<Rightarrow> char" where
  "char_of_byte w = char_of (unat w)"

lemma byte_of_char_of_byte [simp]: "byte_of (char_of_byte w) = w"
proof -
  have "unat w mod 256 = unat w" using byte_less [of w] by simp
  then show ?thesis by (simp add: byte_of_def char_of_byte_def of_char_of)
qed

lemma char_of_byte_byte_of [simp]: "char_of_byte (byte_of c) = c"
proof -
  have "unat (word_of_nat (of_char c) :: u8) = (of_char c :: nat)"
    using nat_of_char_less_256 [of c] by (simp add: unsigned_of_nat take_bit_nat_eq_self)
  then show ?thesis by (simp add: byte_of_def char_of_byte_def)
qed

text \<open>A 16-bit integer in memory, the low byte first.\<close>

definition u16_le :: "string \<Rightarrow> u16" where
  "u16_le s = ucast (byte_of (s ! 0)) + 256 * ucast (byte_of (s ! 1))"

definition le_u16 :: "u16 \<Rightarrow> string" where
  "le_u16 w = [char_of_byte (ucast w), char_of_byte (ucast (drop_bit 8 w))]"

lemma u16_le_le_u16 [simp]: "u16_le (le_u16 w @ s) = w"
proof -
  have "ucast (ucast w :: u8) + 256 * ucast (ucast (drop_bit 8 w) :: u8) = w"
  proof -
    have "ucast (ucast w :: u8) = take_bit 8 w"
      by (rule bit_word_eqI) (auto simp: bit_unsigned_iff bit_take_bit_iff)
    moreover have "ucast (ucast (drop_bit 8 w) :: u8) = drop_bit 8 w"
      by (rule bit_word_eqI) (auto simp: bit_unsigned_iff bit_drop_bit_eq dest: bit_imp_le_length)
    moreover have "256 * drop_bit 8 w = push_bit 8 (drop_bit 8 w)"
      by (simp add: push_bit_eq_mult)
    ultimately show ?thesis using bits_ident [of 8 w] by (simp only: add.commute)
  qed
  then show ?thesis by (simp add: u16_le_def le_u16_def)
qed

lemma u16_le_le_u16_alone [simp]: "u16_le (le_u16 w) = w"
  using u16_le_le_u16 [of w "[]"] by simp

lemma length_le_u16 [simp]: "length (le_u16 w) = 2"
  by (simp add: le_u16_def)

text \<open>
  C and C++ round the quotient of two integers towards zero; \<open>div\<close> on \<open>int\<close>
  rounds towards minus infinity.
\<close>

definition c_div :: "int \<Rightarrow> int \<Rightarrow> int" where
  "c_div a b = sgn a * sgn b * (\<bar>a\<bar> div \<bar>b\<bar>)"

lemma c_div_nonneg: "0 \<le> a \<Longrightarrow> 0 < b \<Longrightarrow> c_div a b = a div b"
  by (cases "a = 0") (simp_all add: c_div_def sgn_if)

lemma c_div_neg: "a < 0 \<Longrightarrow> 0 < b \<Longrightarrow> c_div a b = - ((- a) div b)"
  by (simp add: c_div_def sgn_if)

lemma c_div_minus: "c_div (- a) b = - c_div a b"
  by (simp add: c_div_def sgn_minus)

subsection \<open>C strings in byte strings\<close>

text \<open>
  A frame or a buffer is a byte string (\<open>string\<close>, whose \<open>char\<close>s are the 256
  bytes). Where the source goes through \<open>c_str()\<close> or a \<open>char *\<close>, the bytes
  from the first NUL on are lost.
\<close>

definition cstr :: "string \<Rightarrow> string" where
  "cstr s = takeWhile (\<lambda>c. c \<noteq> CHR 0x00) s"

lemma cstr_idem [simp]: "cstr (cstr s) = cstr s"
  by (auto simp: cstr_def takeWhile_eq_all_conv dest: set_takeWhileD)

lemma cstr_no_nul: "CHR 0x00 \<notin> set s \<Longrightarrow> cstr s = s"
  by (auto simp: cstr_def takeWhile_eq_all_conv)

lemma cstr_Nil [simp]: "cstr [] = []"
  by (simp add: cstr_def)

text \<open>Text up to the first separator.\<close>

lemma takeWhile_upto: "x \<notin> set l \<Longrightarrow> takeWhile (\<lambda>y. y \<noteq> x) (l @ x # r) = l"
  by (induction l) auto

subsection \<open>Erasing in a forward loop\<close>

text \<open>
  The idiom \<open>for (it = v.begin(); it != v.end(); it++) if (P(*it)) it = v.erase(it)-1;\<close>
  visits every element once and drops those with \<open>P\<close>. The loop is written with
  an index, as the iterator moves; \<open>erase_loop_filter\<close> says what it computes.
\<close>

definition erase_at :: "nat \<Rightarrow> 'a list \<Rightarrow> 'a list" where
  "erase_at i xs = take i xs @ drop (Suc i) xs"

lemma length_erase_at: "i < length xs \<Longrightarrow> length (erase_at i xs) = length xs - 1"
  by (simp add: erase_at_def)

function erase_loop :: "('a \<Rightarrow> bool) \<Rightarrow> nat \<Rightarrow> 'a list \<Rightarrow> 'a list" where
  "erase_loop P i xs =
     (if i < length xs
      then if P (xs ! i) then erase_loop P i (erase_at i xs) else erase_loop P (Suc i) xs
      else xs)"
  by pat_completeness auto
termination
  by (relation "measure (\<lambda>(P, i, xs). length xs - i)") (auto simp: length_erase_at)

declare erase_loop.simps [simp del]

lemma erase_loop_filter_gen:
  "erase_loop P i xs = take i xs @ filter (\<lambda>x. \<not> P x) (drop i xs)"
proof (induction P i xs rule: erase_loop.induct)
  case (1 P i xs)
  show ?case
  proof (cases "i < length xs")
    case True
    then have d: "drop i xs = xs ! i # drop (Suc i) xs"
      by (simp add: Cons_nth_drop_Suc)
    show ?thesis
    proof (cases "P (xs ! i)")
      case P: True
      have "erase_loop P i (erase_at i xs) =
          take i (erase_at i xs) @ filter (\<lambda>x. \<not> P x) (drop i (erase_at i xs))"
        using "1.IH"(1) [OF True P] .
      with True P d show ?thesis
        by (simp add: erase_loop.simps [of P i xs] erase_at_def)
    next
      case P: False
      have "erase_loop P (Suc i) xs =
          take (Suc i) xs @ filter (\<lambda>x. \<not> P x) (drop (Suc i) xs)"
        using "1.IH"(2) [OF True P] .
      with True P d show ?thesis
        by (simp add: erase_loop.simps [of P i xs] take_Suc_conv_app_nth)
    qed
  next
    case False
    then show ?thesis by (simp add: erase_loop.simps [of P i xs])
  qed
qed

lemma erase_loop_filter: "erase_loop P 0 xs = filter (\<lambda>x. \<not> P x) xs"
  by (simp add: erase_loop_filter_gen)

subsection \<open>Swap with the last element and pop\<close>

text \<open>
  \<open>v[i] = v[v.size()-1]; v.pop_back();\<close> removes the element at index \<open>i\<close> in
  constant time.
\<close>

definition swap_remove :: "nat \<Rightarrow> 'a list \<Rightarrow> 'a list" where
  "swap_remove i xs = butlast (xs[i := last xs])"

lemma length_swap_remove [simp]: "length (swap_remove i xs) = length xs - 1"
  by (simp add: swap_remove_def)

lemma swap_remove_last: "i = length xs - 1 \<Longrightarrow> xs \<noteq> [] \<Longrightarrow> swap_remove i xs = butlast xs"
  by (simp add: swap_remove_def last_conv_nth)

lemma mset_swap_remove:
  assumes "i < length xs"
  shows "mset xs = add_mset (xs ! i) (mset (swap_remove i xs))"
proof -
  from assms have ne: "xs \<noteq> []" by auto
  then obtain ys y where xs: "xs = ys @ [y]" by (metis rev_exhaust)
  show ?thesis
  proof (cases "i = length ys")
    case True
    then show ?thesis by (simp add: swap_remove_def xs)
  next
    case False
    with assms xs have i: "i < length ys" by simp
    then have "mset (ys[i := y]) = add_mset y (mset ys - {#ys ! i#})"
      by (simp add: mset_update)
    moreover have "ys ! i \<in># mset ys" using i by simp
    ultimately show ?thesis
      using i by (simp add: swap_remove_def xs list_update_append nth_append)
  qed
qed

lemma nth_swap_remove:
  assumes "i < length xs" and "j < length xs - 1"
  shows "swap_remove i xs ! j = (if j = i then last xs else xs ! j)"
  using assms by (simp add: swap_remove_def nth_butlast nth_list_update)

lemma distinct_swap_remove:
  assumes "distinct xs" and "i < length xs"
  shows "distinct (swap_remove i xs)" and "set (swap_remove i xs) = set xs - {xs ! i}"
proof -
  let ?m = "mset (swap_remove i xs)"
  have m: "mset xs = add_mset (xs ! i) ?m" using assms(2) by (rule mset_swap_remove)
  then have "distinct (xs ! i # swap_remove i xs)"
    using assms(1) by (metis mset.simps(2) mset_eq_imp_distinct_iff)
  moreover have "set xs = insert (xs ! i) (set (swap_remove i xs))"
    using m by (metis mset.simps(2) mset_eq_setD list.simps(15))
  ultimately show "distinct (swap_remove i xs)"
    and "set (swap_remove i xs) = set xs - {xs ! i}" by auto
qed

subsection \<open>Signed integers of a width\<close>

text \<open>
  A \<open>short\<close> or an \<open>int\<close> as a HOL integer; a conversion to \<open>w\<close> bits keeps the low
  bits and reads them signed.
\<close>

definition wrap_signed :: "nat \<Rightarrow> int \<Rightarrow> int" where
  "wrap_signed w i = (i + 2 ^ (w - 1)) mod 2 ^ w - 2 ^ (w - 1)"

abbreviation to_short :: "int \<Rightarrow> int" where
  "to_short \<equiv> wrap_signed 16"

abbreviation to_int32 :: "int \<Rightarrow> int" where
  "to_int32 \<equiv> wrap_signed 32"

lemma wrap_signed_id: "- (2 ^ (w - 1)) \<le> i \<Longrightarrow> i < 2 ^ (w - 1) \<Longrightarrow> 0 < w \<Longrightarrow> wrap_signed w i = i"
proof -
  assume i: "- (2 ^ (w - 1)) \<le> i" "i < 2 ^ (w - 1)" "0 < w"
  then have "(2 :: int) ^ w = 2 * 2 ^ (w - 1)" by (cases w) simp_all
  with i have "(i + 2 ^ (w - 1)) mod 2 ^ w = i + 2 ^ (w - 1)" by simp
  then show ?thesis by (simp add: wrap_signed_def)
qed

lemma wrap_signed_bounds:
  "0 < w \<Longrightarrow> - (2 ^ (w - 1)) \<le> wrap_signed w i \<and> wrap_signed w i < 2 ^ (w - 1)"
proof -
  assume "0 < w"
  then have "(2 :: int) ^ w = 2 * 2 ^ (w - 1)" by (cases w) simp_all
  moreover have "0 \<le> (i + 2 ^ (w - 1)) mod 2 ^ w" "(i + 2 ^ (w - 1)) mod 2 ^ w < 2 ^ w" by simp_all
  ultimately show ?thesis unfolding wrap_signed_def by linarith
qed

lemma to_short_id: "- 32768 \<le> i \<Longrightarrow> i < 32768 \<Longrightarrow> to_short i = i"
  using wrap_signed_id [of 16 i] by simp

lemma to_short_bounds: "- 32768 \<le> to_short i" "to_short i < 32768"
  using wrap_signed_bounds [of 16 i] by simp_all

subsection \<open>Sums as results\<close>

text \<open>
  How a step of the program ends when it does not return: a string built from a
  null pointer (\<open>std::logic_error\<close>, which nothing catches), a failed assertion, a
  null or dangling pointer dereferenced, \<open>std::out_of_range\<close>, an iterator used after
  its vector moved, a buffer written past its end, an exception of a library that nothing
  catches.
\<close>

datatype crash = NullString | AssertFailed | NullPointer | UseAfterFree | OutOfRange | StaleIterator | BufferOverflow | MissingReturn | DivisionByZero | UncaughtException

text \<open>Sequencing of fallible steps: the first error ends the computation.\<close>

definition bind_r :: "'e + 'a \<Rightarrow> ('a \<Rightarrow> 'e + 'b) \<Rightarrow> 'e + 'b" where
  "bind_r r f = (case r of Inl e \<Rightarrow> Inl e | Inr a \<Rightarrow> f a)"

lemma bind_r_simps [simp]: "bind_r (Inl e) f = Inl e" "bind_r (Inr a) f = f a"
  by (simp_all add: bind_r_def)

lemma bind_r_eq_Inr: "bind_r r f = Inr b \<longleftrightarrow> (\<exists>a. r = Inr a \<and> f a = Inr b)"
  by (cases r) auto

definition is_ok :: "'e + 'a \<Rightarrow> bool" where
  "is_ok r = (case r of Inl _ \<Rightarrow> False | Inr _ \<Rightarrow> True)"

lemma is_ok_ex: "is_ok r \<longleftrightarrow> (\<exists>a. r = Inr a)"
  by (cases r) (simp_all add: is_ok_def)

lemma is_ok_simps [simp]: "is_ok (Inl e) = False" "is_ok (Inr a) = True"
  by (simp_all add: is_ok_def)

end
