(* ===== verification/Net_Message.thy ===== *)
theory Net_Message
  imports Prelude
begin

section \<open>NetMessage: a byte buffer with shared storage\<close>

text \<open>
  Models \<open>gateway_server/sdk/net_message.h\<close> and \<open>net_message.cc\<close>. A message
  keeps up to 128 bytes in an array of its own; beyond that its bytes live in a
  vector behind a \<open>shared_ptr\<close>, which copies of the message share until one of
  them is written. The sharing is the point, so the memory is explicit:
  \<open>objs\<close> are the message objects (an object is an index), \<open>heap\<close> the vectors
  (an address is an index, vectors are never moved), and \<open>use_count\<close> counts the
  objects that point to a vector. Memory the constructors leave uninitialised is an
  argument (\<open>raw\<close>, \<open>raw_size\<close>). Positions are offsets from \<open>begin()\<close>.
  Assertions are enabled: a failing one is the error \<open>AssertFailed\<close>; reading
  past the end of the caller's buffer is \<open>ReadPastEnd\<close>.
\<close>

definition kDynamicThreshold :: nat where
  "kDynamicThreshold = 128"

record net_message =
  static_size :: nat
  static_data :: string
  dynamic_data :: "nat option"

record mem =
  objs :: "net_message list"
  heap :: "string list"

datatype nm_error = AssertFailed | ReadPastEnd

definition blit :: "nat \<Rightarrow> 'a list \<Rightarrow> 'a list \<Rightarrow> 'a list" where
  "blit k xs arr = take k arr @ xs @ drop (k + length xs) arr"

definition is_dynamic :: "net_message \<Rightarrow> bool" where
  "is_dynamic m = (dynamic_data m \<noteq> None)"

definition use_count :: "mem \<Rightarrow> nat \<Rightarrow> nat" where
  "use_count s a = length (filter (\<lambda>m. dynamic_data m = Some a) (objs s))"

definition obj_bytes :: "string list \<Rightarrow> net_message \<Rightarrow> string" where
  "obj_bytes h m =
     (case dynamic_data m of Some a \<Rightarrow> h ! a | None \<Rightarrow> take (static_size m) (static_data m))"

definition nm_bytes :: "mem \<Rightarrow> nat \<Rightarrow> string" where
  "nm_bytes s i = obj_bytes (heap s) (objs s ! i)"

definition nm_size :: "mem \<Rightarrow> nat \<Rightarrow> nat" where
  "nm_size s i = (let m = objs s ! i in
     case dynamic_data m of Some a \<Rightarrow> length (heap s ! a) | None \<Rightarrow> static_size m)"

definition nm_empty :: "mem \<Rightarrow> nat \<Rightarrow> bool" where
  "nm_empty s i = (nm_size s i = 0)"

subsection \<open>Operations\<close>

text \<open>The vector is created with the bytes of the array (\<open>SetDynamic\<close>).\<close>

definition SetDynamic :: "mem \<Rightarrow> nat \<Rightarrow> mem" where
  "SetDynamic s i = (let m = objs s ! i in
     if is_dynamic m then s
     else s\<lparr>heap := heap s @ [take (static_size m) (static_data m)],
            objs := (objs s)[i := m\<lparr>dynamic_data := Some (length (heap s))\<rparr>]\<rparr>)"

text \<open>\<open>vector::reserve\<close> changes no byte, so the dynamic branch is the identity.\<close>

definition Reserve :: "mem \<Rightarrow> nat \<Rightarrow> nat \<Rightarrow> mem" where
  "Reserve s i n =
     (if is_dynamic (objs s ! i) then s
      else if n < kDynamicThreshold then s
      else SetDynamic s i)"

definition NetMessage_new :: "string \<Rightarrow> mem \<Rightarrow> mem" where
  "NetMessage_new raw s =
     s\<lparr>objs := objs s @ [\<lparr>static_size = 0, static_data = raw, dynamic_data = None\<rparr>]\<rparr>"

definition NetMessage_reserved :: "string \<Rightarrow> mem \<Rightarrow> nat \<Rightarrow> mem" where
  "NetMessage_reserved raw s n = Reserve (NetMessage_new raw s) (length (objs s)) n"

text \<open>\<open>*this = other\<close>; the vector is shared, not copied.\<close>

definition Assign :: "mem \<Rightarrow> nat \<Rightarrow> nat \<Rightarrow> mem" where
  "Assign s i j =
     (if i = j then s
      else let m = objs s ! i; other = objs s ! j in
        if is_dynamic other then s\<lparr>objs := (objs s)[i := m\<lparr>dynamic_data := dynamic_data other\<rparr>]\<rparr>
        else s\<lparr>objs := (objs s)[i := m\<lparr>dynamic_data := None,
               static_size := static_size other,
               static_data := blit 0 (take (static_size other) (static_data other)) (static_data m)\<rparr>]\<rparr>)"

definition NetMessage_copy :: "string \<Rightarrow> nat \<Rightarrow> mem \<Rightarrow> nat \<Rightarrow> mem" where
  "NetMessage_copy raw raw_size s j =
     Assign (s\<lparr>objs := objs s @ [\<lparr>static_size = raw_size, static_data = raw, dynamic_data = None\<rparr>]\<rparr>)
       (length (objs s)) j"

definition clear :: "mem \<Rightarrow> nat \<Rightarrow> mem" where
  "clear s i = s\<lparr>objs := (objs s)[i := (objs s ! i)\<lparr>dynamic_data := None, static_size := 0\<rparr>]\<rparr>"

definition Swap :: "mem \<Rightarrow> nat \<Rightarrow> nat \<Rightarrow> mem" where
  "Swap s i j = (let m = objs s ! i; other = objs s ! j;
       mine = take (static_size m) (static_data m);
       theirs = take (static_size other) (static_data other) in
     if is_dynamic m then
       if is_dynamic other then
         s\<lparr>objs := (objs s)[i := m\<lparr>dynamic_data := dynamic_data other\<rparr>,
                           j := other\<lparr>dynamic_data := dynamic_data m\<rparr>]\<rparr>
       else
         s\<lparr>objs := (objs s)[i := m\<lparr>dynamic_data := dynamic_data other,
                               static_data := blit 0 theirs (static_data m),
                               static_size := static_size other\<rparr>,
                           j := other\<lparr>dynamic_data := dynamic_data m,
                               static_size := static_size m\<rparr>]\<rparr>
     else
       if is_dynamic other then
         s\<lparr>objs := (objs s)[i := m\<lparr>dynamic_data := dynamic_data other,
                               static_size := static_size other\<rparr>,
                           j := other\<lparr>dynamic_data := dynamic_data m,
                               static_data := blit 0 mine (static_data other),
                               static_size := static_size m\<rparr>]\<rparr>
       else
         s\<lparr>objs := (objs s)[i := m\<lparr>static_data := blit 0 theirs (static_data m),
                               static_size := static_size other\<rparr>,
                           j := other\<lparr>static_data := blit 0 mine (static_data other),
                               static_size := static_size m\<rparr>]\<rparr>)"

text \<open>
  \<open>Write\<close> appends. A vector another object holds is copied first (copy on
  write). The result \<open>n\<close> of the source is the length of the data.
\<close>

definition vec_append :: "mem \<Rightarrow> nat \<Rightarrow> string \<Rightarrow> mem" where
  "vec_append s i data = (let a = the (dynamic_data (objs s ! i)) in
     if use_count s a = 1 then s\<lparr>heap := (heap s)[a := heap s ! a @ data]\<rparr>
     else s\<lparr>heap := heap s @ [heap s ! a @ data],
            objs := (objs s)[i := (objs s ! i)\<lparr>dynamic_data := Some (length (heap s))\<rparr>]\<rparr>)"

definition Write :: "mem \<Rightarrow> nat \<Rightarrow> string \<Rightarrow> mem" where
  "Write s i data = (let m = objs s ! i in
     if \<not> is_dynamic m then
       if static_size m + length data \<le> kDynamicThreshold then
         s\<lparr>objs := (objs s)[i := m\<lparr>static_data := blit (static_size m) data (static_data m),
                                   static_size := static_size m + length data\<rparr>]\<rparr>
       else vec_append (SetDynamic s i) i data
     else vec_append s i data)"

text \<open>
  \<open>insert\<close> at offset \<open>p\<close>. The assertion compares the position with the
  array of the object, so it accepts a position inside the message only while the
  message is static. The overlapping \<open>std::copy\<close> of bytes is a \<open>memmove\<close>.
\<close>

definition insert_at :: "mem \<Rightarrow> nat \<Rightarrow> nat \<Rightarrow> string \<Rightarrow> nm_error + mem" where
  "insert_at s i p data = (let m = objs s ! i in
     if \<not> (p = nm_size s i \<or> \<not> is_dynamic m \<and> p < static_size m) then Inl AssertFailed
     else if p \<ge> nm_size s i then Inr (Write s i data)
     else if length data + static_size m \<le> kDynamicThreshold then
       Inr (s\<lparr>objs := (objs s)[i := m\<lparr>
              static_data := blit p (data @ drop p (take (static_size m) (static_data m))) (static_data m),
              static_size := static_size m + length data\<rparr>]\<rparr>)
     else let s' = SetDynamic s i; a = the (dynamic_data (objs s' ! i)); v = heap s' ! a in
       Inr (s'\<lparr>heap := (heap s')[a := take p v @ data @ drop p v]\<rparr>))"

definition getBytes :: "mem \<Rightarrow> nat \<Rightarrow> int \<Rightarrow> nm_error + string" where
  "getBytes s i len =
     (if len < 0 then Inl AssertFailed
      else Inr (take (min (nat len) (nm_size s i)) (nm_bytes s i)))"

text \<open>
  Writing through \<open>begin()\<close> puts bytes into the array or, for a dynamic
  message, into the vector, with no copy on write. \<open>setBytes\<close>, the filters and
  \<open>ContainerDevice\<close> all write this way.
\<close>

definition overwrite :: "mem \<Rightarrow> nat \<Rightarrow> nat \<Rightarrow> string \<Rightarrow> mem" where
  "overwrite s i p data = (let m = objs s ! i in
     case dynamic_data m of
       Some a \<Rightarrow> s\<lparr>heap := (heap s)[a := blit p data (heap s ! a)]\<rparr>
     | None \<Rightarrow> s\<lparr>objs := (objs s)[i := m\<lparr>static_data := blit p data (static_data m)\<rparr>]\<rparr>)"

definition setBytes :: "mem \<Rightarrow> nat \<Rightarrow> int \<Rightarrow> string \<Rightarrow> nm_error + mem" where
  "setBytes s i len buff =
     (if len < 0 then Inl AssertFailed
      else let n = min (min (nat len) (nm_size s i)) kDynamicThreshold
        in if length buff < n then Inl ReadPastEnd
           else Inr (overwrite s i 0 (take n buff)))"

subsection \<open>Well-formed memory\<close>

definition nm_ok :: "nat \<Rightarrow> net_message \<Rightarrow> bool" where
  "nm_ok h m = (length (static_data m) = kDynamicThreshold \<and>
     (case dynamic_data m of None \<Rightarrow> static_size m \<le> kDynamicThreshold | Some a \<Rightarrow> a < h))"

definition mem_ok :: "mem \<Rightarrow> bool" where
  "mem_ok s = (\<forall>m \<in> set (objs s). nm_ok (length (heap s)) m)"

text \<open>The abstract view: the bytes of every object.\<close>

definition values_of :: "mem \<Rightarrow> string list" where
  "values_of s = map (nm_bytes s) [0..<length (objs s)]"


subsection \<open>Lemmas\<close>

lemma length_blit [simp]: "k + length xs \<le> length arr \<Longrightarrow> length (blit k xs arr) = length arr"
  by (simp add: blit_def)

lemma take_blit: "k + length xs \<le> length arr \<Longrightarrow> take (k + length xs) (blit k xs arr) = take k arr @ xs"
  by (simp add: blit_def)

lemma take_blit_inner:
  assumes "p + length d \<le> n" "n \<le> length arr"
  shows "take n (blit p d arr) = blit p d (take n arr)"
proof (cases "p = n")
  case True
  then show ?thesis using assms by (simp add: blit_def)
next
  case False
  then have "p < n" "length d \<le> n - p" using assms(1) by simp_all
  then show ?thesis using assms(2) by (simp add: blit_def drop_take min_def)
qed

lemma blit_0: "length xs \<le> length arr \<Longrightarrow> take (length xs) (blit 0 xs arr) = xs"
  using take_blit [of 0 xs arr] by simp

lemma take_blit_0_take:
  "n \<le> length ys \<Longrightarrow> n \<le> length arr \<Longrightarrow> take n (blit 0 (take n ys) arr) = take n ys"
  using blit_0 [of "take n ys" arr] by simp

lemma mem_ok_nth: "mem_ok s \<Longrightarrow> i < length (objs s) \<Longrightarrow> nm_ok (length (heap s)) (objs s ! i)"
  by (simp add: mem_ok_def)

lemma nm_ok_static: "nm_ok h m \<Longrightarrow> dynamic_data m = None \<Longrightarrow>
    length (static_data m) = kDynamicThreshold \<and> static_size m \<le> kDynamicThreshold"
  by (simp add: nm_ok_def)

lemma nm_ok_dynamic: "nm_ok h m \<Longrightarrow> dynamic_data m = Some a \<Longrightarrow> a < h"
  by (simp add: nm_ok_def)

lemma nm_ok_mono: "nm_ok h m \<Longrightarrow> h \<le> h' \<Longrightarrow> nm_ok h' m"
  by (auto simp: nm_ok_def split: option.splits)

lemma mem_okI:
  "(\<And>j. j < length (objs s) \<Longrightarrow> nm_ok (length (heap s)) (objs s ! j)) \<Longrightarrow> mem_ok s"
  by (auto simp: mem_ok_def in_set_conv_nth)

lemma obj_bytes_simps [simp]:
  "dynamic_data m = Some a \<Longrightarrow> obj_bytes h m = h ! a"
  "dynamic_data m = None \<Longrightarrow> obj_bytes h m = take (static_size m) (static_data m)"
  by (simp_all add: obj_bytes_def)

lemma obj_bytes_heap:
  "nm_ok (length h) m \<Longrightarrow> obj_bytes (h @ h') m = obj_bytes h m"
  by (auto simp: obj_bytes_def nm_ok_def nth_append split: option.splits)

lemma nm_size_bytes: "mem_ok s \<Longrightarrow> i < length (objs s) \<Longrightarrow> nm_size s i = length (nm_bytes s i)"
  by (drule (1) mem_ok_nth)
    (auto simp: nm_size_def nm_bytes_def obj_bytes_def nm_ok_def Let_def split: option.splits)

lemma use_count_one:
  assumes "use_count s a = 1" "i < length (objs s)" "j < length (objs s)"
    and "dynamic_data (objs s ! i) = Some a" "dynamic_data (objs s ! j) = Some a"
  shows "i = j"
proof -
  let ?S = "{k. k < length (objs s) \<and> dynamic_data (objs s ! k) = Some a}"
  have "card ?S = 1" using assms(1) by (simp add: use_count_def length_filter_conv_card)
  then obtain k where k: "?S = {k}" by (auto simp: card_1_singleton_iff)
  have "i \<in> ?S" "j \<in> ?S" using assms by simp_all
  then have "i = k" "j = k" unfolding k by simp_all
  then show ?thesis by simp
qed

text \<open>Updating one object to an object that is well-formed keeps the memory so.\<close>

lemma mem_ok_updI:
  assumes "mem_ok s" "objs s' = (objs s)[i := m]" "length (heap s) \<le> length (heap s')"
    and "nm_ok (length (heap s')) m"
  shows "mem_ok s'"
proof -
  have "set ((objs s)[i := m]) \<subseteq> insert m (set (objs s))" by (rule set_update_subset_insert)
  then show ?thesis using assms by (auto simp: mem_ok_def intro: nm_ok_mono)
qed

lemma mem_ok_upd_objs:
  "mem_ok s \<Longrightarrow> nm_ok (length (heap s)) m \<Longrightarrow> mem_ok (s\<lparr>objs := (objs s)[i := m]\<rparr>)"
  by (erule mem_ok_updI) simp_all

lemma mem_ok_upd_heap:
  "mem_ok s \<Longrightarrow> length (heap s) \<le> length h \<Longrightarrow> mem_ok (s\<lparr>heap := h\<rparr>)"
  by (auto simp: mem_ok_def intro: nm_ok_mono)

lemma mem_ok_SetDynamic [inv_intros]:
  assumes "mem_ok s" "i < length (objs s)"
  shows "mem_ok (SetDynamic s i)"
proof (cases "is_dynamic (objs s ! i)")
  case True
  then show ?thesis using assms by (simp add: SetDynamic_def)
next
  case False
  show ?thesis
    by (rule mem_ok_updI [where s = s and i = i and
        m = "(objs s ! i)\<lparr>dynamic_data := Some (length (heap s))\<rparr>"])
      (use False assms(1) mem_ok_nth [OF assms] in
        \<open>simp_all add: SetDynamic_def Let_def nm_ok_def\<close>)
qed

lemma length_objs_SetDynamic [frame_simps]: "length (objs (SetDynamic s i)) = length (objs s)"
  by (simp add: SetDynamic_def Let_def)

lemma SetDynamic_dynamic: "i < length (objs s) \<Longrightarrow> is_dynamic (objs (SetDynamic s i) ! i)"
  by (simp add: SetDynamic_def Let_def is_dynamic_def)

lemma bytes_SetDynamic:
  assumes "mem_ok s" "i < length (objs s)" "j < length (objs s)"
  shows "nm_bytes (SetDynamic s i) j = nm_bytes s j"
proof -
  have "\<And>b. dynamic_data (objs s ! j) = Some b \<Longrightarrow> b < length (heap s)"
    using mem_ok_nth [OF assms(1,3)] by (simp add: nm_ok_def)
  then show ?thesis using assms
    by (cases "j = i"; cases "dynamic_data (objs s ! j)")
      (auto simp: SetDynamic_def nm_bytes_def Let_def is_dynamic_def nth_list_update nth_append)
qed

lemma dynamic_addr:
  assumes "mem_ok s" "i < length (objs s)" "is_dynamic (objs s ! i)"
  obtains a where "dynamic_data (objs s ! i) = Some a" "a < length (heap s)"
  using assms mem_ok_nth [of s i] by (auto simp: is_dynamic_def dest: nm_ok_dynamic)

lemma mem_ok_vec_append [inv_intros]:
  assumes "mem_ok s" "i < length (objs s)"
  shows "mem_ok (vec_append s i d)"
proof (cases "use_count s (the (dynamic_data (objs s ! i))) = 1")
  case True
  then show ?thesis using assms(1) by (simp add: vec_append_def Let_def mem_ok_upd_heap)
next
  case False
  show ?thesis
    by (rule mem_ok_updI [where s = s and i = i and
        m = "(objs s ! i)\<lparr>dynamic_data := Some (length (heap s))\<rparr>"])
      (use False assms(1) mem_ok_nth [OF assms] in
        \<open>simp_all add: vec_append_def Let_def nm_ok_def\<close>)
qed

lemma bytes_vec_append:
  assumes ok: "mem_ok s" "i < length (objs s)" "is_dynamic (objs s ! i)" and j: "j < length (objs s)"
  shows "nm_bytes (vec_append s i d) j = (if j = i then nm_bytes s i @ d else nm_bytes s j)"
proof -
  obtain a where a: "dynamic_data (objs s ! i) = Some a" "a < length (heap s)"
    using ok by (rule dynamic_addr)
  have "j \<noteq> i \<Longrightarrow> dynamic_data (objs s ! j) = Some a \<Longrightarrow> use_count s a \<noteq> 1"
    using use_count_one [of s a j i] a ok j by auto
  moreover have "\<And>b. dynamic_data (objs s ! j) = Some b \<Longrightarrow> b < length (heap s)"
    using mem_ok_nth [OF ok(1) j] by (simp add: nm_ok_def)
  ultimately show ?thesis using a ok(2) j
    by (cases "use_count s a = 1"; cases "j = i"; cases "dynamic_data (objs s ! j)")
      (auto simp: vec_append_def nm_bytes_def nth_list_update nth_append)
qed

lemma mem_ok_Write [inv_intros]:
  assumes "mem_ok s" "i < length (objs s)"
  shows "mem_ok (Write s i d)"
proof -
  have "mem_ok (vec_append (SetDynamic s i) i d)"
    using assms by (simp add: inv_intros frame_simps)
  moreover have "static_size (objs s ! i) + length d \<le> kDynamicThreshold \<Longrightarrow>
      \<not> is_dynamic (objs s ! i) \<Longrightarrow> mem_ok (s\<lparr>objs := (objs s)[i := (objs s ! i)\<lparr>
        static_data := blit (static_size (objs s ! i)) d (static_data (objs s ! i)),
        static_size := static_size (objs s ! i) + length d\<rparr>]\<rparr>)"
    using assms mem_ok_nth [OF assms] by (intro mem_ok_upd_objs) (auto simp: nm_ok_def is_dynamic_def)
  ultimately show ?thesis using assms by (simp add: Write_def Let_def inv_intros)
qed

lemma length_objs_Write [frame_simps]: "length (objs (Write s i d)) = length (objs s)"
  by (simp add: Write_def vec_append_def SetDynamic_def Let_def)

lemma bytes_Write:
  assumes ok: "mem_ok s" "i < length (objs s)" and j: "j < length (objs s)"
  shows "nm_bytes (Write s i d) j = (if j = i then nm_bytes s i @ d else nm_bytes s j)"
proof (cases "is_dynamic (objs s ! i)")
  case True
  then show ?thesis using bytes_vec_append [OF ok True j] by (simp add: Write_def)
next
  case False
  show ?thesis
  proof (cases "static_size (objs s ! i) + length d \<le> kDynamicThreshold")
    case fits: True
    then show ?thesis using False ok j mem_ok_nth [OF ok]
      by (auto simp: Write_def nm_bytes_def Let_def is_dynamic_def nth_list_update take_blit
          split: option.splits dest!: nm_ok_static)
  next
    case spill: False
    have "nm_bytes (vec_append (SetDynamic s i) i d) j =
        (if j = i then nm_bytes s i @ d else nm_bytes s j)"
      using ok j by (subst bytes_vec_append)
        (simp_all add: inv_intros frame_simps SetDynamic_dynamic bytes_SetDynamic)
    then show ?thesis using False spill by (simp add: Write_def Let_def)
  qed
qed

subsection \<open>The other operations on the bytes of every object\<close>

lemma nm_bytes_append_obj:
  "j < length (objs s) \<Longrightarrow> nm_bytes (s\<lparr>objs := objs s @ [m]\<rparr>) j = nm_bytes s j"
  by (simp add: nm_bytes_def nth_append)

lemma mem_ok_append_obj:
  "mem_ok s \<Longrightarrow> nm_ok (length (heap s)) m \<Longrightarrow> mem_ok (s\<lparr>objs := objs s @ [m]\<rparr>)"
  by (auto simp: mem_ok_def)

lemma mem_ok_new [inv_intros]:
  "mem_ok s \<Longrightarrow> length raw = kDynamicThreshold \<Longrightarrow> mem_ok (NetMessage_new raw s)"
  unfolding NetMessage_new_def by (rule mem_ok_append_obj) (simp_all add: nm_ok_def)

lemma length_objs_new [frame_simps]: "length (objs (NetMessage_new raw s)) = Suc (length (objs s))"
  by (simp add: NetMessage_new_def)

lemma bytes_new:
  "j \<le> length (objs s) \<Longrightarrow>
     nm_bytes (NetMessage_new raw s) j = (if j = length (objs s) then [] else nm_bytes s j)"
  by (auto simp: NetMessage_new_def nm_bytes_def nth_append)

lemma mem_ok_Reserve [inv_intros]: "mem_ok s \<Longrightarrow> i < length (objs s) \<Longrightarrow> mem_ok (Reserve s i n)"
  by (simp add: Reserve_def inv_intros)

lemma length_objs_Reserve [frame_simps]: "length (objs (Reserve s i n)) = length (objs s)"
  by (simp add: Reserve_def frame_simps)

lemma bytes_Reserve:
  "mem_ok s \<Longrightarrow> i < length (objs s) \<Longrightarrow> j < length (objs s) \<Longrightarrow>
     nm_bytes (Reserve s i n) j = nm_bytes s j"
  by (simp add: Reserve_def bytes_SetDynamic)

lemma mem_ok_clear [inv_intros]: "mem_ok s \<Longrightarrow> i < length (objs s) \<Longrightarrow> mem_ok (clear s i)"
  unfolding clear_def
  by (rule mem_ok_upd_objs) (auto simp: nm_ok_def dest: mem_ok_nth)

lemma length_objs_clear [frame_simps]: "length (objs (clear s i)) = length (objs s)"
  by (simp add: clear_def)

lemma bytes_clear:
  "i < length (objs s) \<Longrightarrow> nm_bytes (clear s i) j = (if j = i then [] else nm_bytes s j)"
  by (auto simp: clear_def nm_bytes_def)

text \<open>
  Assignment and the copy constructor need little of the target: its array, not
  its size, which the copy constructor leaves uninitialised.
\<close>

lemma Assign_facts:
  assumes ok: "mem_ok (s\<lparr>objs := (objs s)[i := z]\<rparr>)" and len: "i < length (objs s)" "j < length (objs s)" "i \<noteq> j"
    and arr: "length (static_data (objs s ! i)) = kDynamicThreshold"
  shows "mem_ok (Assign s i j)"
    and "k < length (objs s) \<Longrightarrow> nm_bytes (Assign s i j) k = nm_bytes s (if k = i then j else k)"
proof -
  have other: "nm_ok (length (heap s)) (objs s ! j)"
    using mem_ok_nth [OF ok, of j] len by simp
  show "mem_ok (Assign s i j)"
    by (rule mem_ok_updI [OF ok, where i = i and m = "objs (Assign s i j) ! i"])
      (use other len arr in \<open>auto simp: Assign_def Let_def nm_ok_def is_dynamic_def split: option.splits\<close>)
  show "nm_bytes (Assign s i j) k = nm_bytes s (if k = i then j else k)" if "k < length (objs s)"
    using other len arr that
    by (cases "dynamic_data (objs s ! j)")
      (auto simp: Assign_def Let_def nm_bytes_def nm_ok_def is_dynamic_def take_blit_0_take)
qed

lemma mem_ok_Assign [inv_intros]:
  assumes "mem_ok s" "i < length (objs s)" "j < length (objs s)"
  shows "mem_ok (Assign s i j)"
  using Assign_facts(1) [of s i "objs s ! i" j] assms mem_ok_nth [OF assms(1,2)]
  by (cases "i = j") (simp_all add: Assign_def nm_ok_def)

lemma length_objs_Assign [frame_simps]: "length (objs (Assign s i j)) = length (objs s)"
  by (simp add: Assign_def Let_def)

lemma bytes_Assign:
  assumes "mem_ok s" "i < length (objs s)" "j < length (objs s)" "k < length (objs s)"
  shows "nm_bytes (Assign s i j) k = nm_bytes s (if k = i then j else k)"
  using Assign_facts(2) [of s i "objs s ! i" j k] assms mem_ok_nth [OF assms(1,2)]
  by (cases "i = j") (simp_all add: Assign_def nm_ok_def)

lemma copy_facts:
  assumes ok: "mem_ok s" and j: "j < length (objs s)" and raw: "length raw = kDynamicThreshold"
  shows "mem_ok (NetMessage_copy raw n s j)"
    and "length (objs (NetMessage_copy raw n s j)) = Suc (length (objs s))"
    and "k \<le> length (objs s) \<Longrightarrow> nm_bytes (NetMessage_copy raw n s j) k =
          nm_bytes s (if k = length (objs s) then j else k)"
proof -
  let ?m = "\<lparr>static_size = n, static_data = raw, dynamic_data = None\<rparr>"
  let ?s = "s\<lparr>objs := objs s @ [?m]\<rparr>"
  let ?z = "?m\<lparr>static_size := 0\<rparr>"
  have eq: "?s\<lparr>objs := (objs ?s)[length (objs s) := ?z]\<rparr> = s\<lparr>objs := objs s @ [?z]\<rparr>" by simp
  have z: "mem_ok (?s\<lparr>objs := (objs ?s)[length (objs s) := ?z]\<rparr>)"
    unfolding eq using ok raw by (intro mem_ok_append_obj) (simp_all add: nm_ok_def)
  note A = Assign_facts [OF z, of j]
  show "mem_ok (NetMessage_copy raw n s j)"
    unfolding NetMessage_copy_def by (rule A(1)) (use j raw in simp_all)
  show "length (objs (NetMessage_copy raw n s j)) = Suc (length (objs s))"
    by (simp add: NetMessage_copy_def frame_simps)
  show "nm_bytes (NetMessage_copy raw n s j) k = nm_bytes s (if k = length (objs s) then j else k)"
    if "k \<le> length (objs s)"
    using A(2) [of k] that j raw by (auto simp: NetMessage_copy_def nm_bytes_append_obj)
qed

lemma mem_ok_Swap [inv_intros]:
  assumes "mem_ok s" "i < length (objs s)" "j < length (objs s)"
  shows "mem_ok (Swap s i j)"
proof (rule mem_okI)
  fix k assume k: "k < length (objs (Swap s i j))"
  then show "nm_ok (length (heap (Swap s i j))) (objs (Swap s i j) ! k)"
    using mem_ok_nth [OF assms(1,2)] mem_ok_nth [OF assms(1,3)] mem_ok_nth [OF assms(1), of k] assms(2-)
    by (cases "dynamic_data (objs s ! i)"; cases "dynamic_data (objs s ! j)"; cases "k = j"; cases "k = i")
      (simp_all add: Swap_def Let_def nm_ok_def is_dynamic_def)
qed

lemma length_objs_Swap [frame_simps]: "length (objs (Swap s i j)) = length (objs s)"
  by (simp add: Swap_def Let_def)

lemma bytes_Swap:
  assumes "mem_ok s" "i < length (objs s)" "j < length (objs s)" "k < length (objs s)"
  shows "nm_bytes (Swap s i j) k = nm_bytes s (if k = i then j else if k = j then i else k)"
  using mem_ok_nth [OF assms(1,2)] mem_ok_nth [OF assms(1,3)] assms(2-)
  by (cases "dynamic_data (objs s ! i)"; cases "dynamic_data (objs s ! j)"; cases "k = j"; cases "k = i")
    (simp_all add: Swap_def Let_def nm_ok_def nm_bytes_def is_dynamic_def nth_list_update take_blit_0_take)

text \<open>\<open>insert\<close>: where it succeeds, it inserts, and touches no other object.\<close>

lemma insert_at_static:
  assumes ok: "mem_ok s" "i < length (objs s)" and p: "p < nm_size s i"
    and m: "\<not> is_dynamic (objs s ! i)" and j: "j < length (objs s)"
  obtains s' where "insert_at s i p d = Inr s'" "mem_ok s'" "length (objs s') = length (objs s)"
    and "nm_bytes s' j = (if j = i then take p (nm_bytes s i) @ d @ drop p (nm_bytes s i) else nm_bytes s j)"
proof -
  let ?m = "objs s ! i"
  have st: "dynamic_data ?m = None" using m by (simp add: is_dynamic_def)
  then have size: "nm_size s i = static_size ?m" "p < static_size ?m"
    using p by (simp_all add: nm_size_def)
  have len: "length (static_data ?m) = kDynamicThreshold" "static_size ?m \<le> kDynamicThreshold"
    using nm_ok_static [OF mem_ok_nth [OF ok] st] by simp_all
  show ?thesis
  proof (cases "length d + static_size ?m \<le> kDynamicThreshold")
    case True
    let ?arr = "blit p (d @ drop p (take (static_size ?m) (static_data ?m))) (static_data ?m)"
    let ?m' = "?m\<lparr>static_data := ?arr, static_size := static_size ?m + length d\<rparr>"
    have arr: "length ?arr = kDynamicThreshold" using True size len by simp
    have "take (static_size ?m + length d) ?arr =
        take p (static_data ?m) @ d @ drop p (take (static_size ?m) (static_data ?m))"
      using True size len
        take_blit [of p "d @ drop p (take (static_size ?m) (static_data ?m))" "static_data ?m"]
      by (simp add: add.commute)
    then have "nm_bytes (s\<lparr>objs := (objs s)[i := ?m']\<rparr>) j =
        (if j = i then take p (nm_bytes s i) @ d @ drop p (nm_bytes s i) else nm_bytes s j)"
      using ok size st by (simp add: nm_bytes_def min_def)
    moreover have "mem_ok (s\<lparr>objs := (objs s)[i := ?m']\<rparr>)"
      using ok True arr st by (intro mem_ok_upd_objs) (simp_all add: nm_ok_def)
    moreover have "insert_at s i p d = Inr (s\<lparr>objs := (objs s)[i := ?m']\<rparr>)"
      using True size st by (simp add: insert_at_def Let_def is_dynamic_def)
    ultimately show ?thesis by (intro that) simp_all
  next
    case False
    let ?v = "take (static_size ?m) (static_data ?m)"
    let ?s' = "SetDynamic s i"
    have S: "?s' = s\<lparr>heap := heap s @ [?v], objs := (objs s)[i := ?m\<lparr>dynamic_data := Some (length (heap s))\<rparr>]\<rparr>"
      using st by (simp add: SetDynamic_def is_dynamic_def Let_def)
    let ?t = "?s'\<lparr>heap := heap s @ [take p ?v @ d @ drop p ?v]\<rparr>"
    have "insert_at s i p d = Inr ?t"
      using False size st ok by (simp add: insert_at_def Let_def is_dynamic_def S)
    moreover have "mem_ok ?t"
      using mem_ok_SetDynamic [OF ok] by (intro mem_ok_upd_heap) (simp_all add: S)
    moreover have "\<And>b. dynamic_data (objs s ! j) = Some b \<Longrightarrow> b < length (heap s)"
      using mem_ok_nth [OF ok(1) j] by (simp add: nm_ok_def)
    then have "nm_bytes ?t j =
        (if j = i then take p (nm_bytes s i) @ d @ drop p (nm_bytes s i) else nm_bytes s j)"
      using ok st by (cases "dynamic_data (objs s ! j)") (auto simp: S nm_bytes_def nth_append)
    ultimately show ?thesis by (intro that) (simp_all add: S)
  qed
qed

lemma insert_at_end:
  "p = nm_size s i \<Longrightarrow> insert_at s i p d = Inr (Write s i d)"
  by (simp add: insert_at_def Let_def)

lemma insert_at_fails:
  "insert_at s i p d = Inl e \<longleftrightarrow>
     e = AssertFailed \<and> p \<noteq> nm_size s i \<and> (is_dynamic (objs s ! i) \<or> nm_size s i < p)"
  by (cases e) (auto simp: insert_at_def Let_def nm_size_def is_dynamic_def split: option.splits)

lemma insert_at_facts:
  assumes ok: "mem_ok s" "i < length (objs s)" and ins: "insert_at s i p d = Inr s'"
    and j: "j < length (objs s)"
  shows "p \<le> nm_size s i \<and> mem_ok s' \<and> length (objs s') = length (objs s) \<and>
    nm_bytes s' j =
      (if j = i then take p (nm_bytes s i) @ d @ drop p (nm_bytes s i) else nm_bytes s j)"
proof -
  have "p = nm_size s i \<or> p < nm_size s i \<and> \<not> is_dynamic (objs s ! i)"
    using ins insert_at_fails [of s i p d AssertFailed] by fastforce
  then consider (at_end) "p = nm_size s i"
    | (inside) "p < nm_size s i" "\<not> is_dynamic (objs s ! i)" by blast
  then show ?thesis
  proof cases
    case at_end
    then have "s' = Write s i d" using ins by (simp add: insert_at_end)
    then show ?thesis using at_end ok j nm_size_bytes [OF ok]
      by (simp add: inv_intros frame_simps bytes_Write)
  next
    case inside
    obtain t where "insert_at s i p d = Inr t" "mem_ok t" "length (objs t) = length (objs s)"
      "nm_bytes t j = (if j = i then take p (nm_bytes s i) @ d @ drop p (nm_bytes s i) else nm_bytes s j)"
      using insert_at_static [OF ok inside j] .
    then show ?thesis using ins inside by simp
  qed
qed

text \<open>Writing in place reaches every object that shares the vector.\<close>

lemma bytes_overwrite:
  assumes ok: "mem_ok s" "i < length (objs s)" and p: "p + length d \<le> nm_size s i"
    and j: "j < length (objs s)"
  shows "nm_bytes (overwrite s i p d) j =
    (if j = i \<or> is_dynamic (objs s ! i) \<and> dynamic_data (objs s ! j) = dynamic_data (objs s ! i)
     then blit p d (nm_bytes s i) else nm_bytes s j)"
proof (cases "dynamic_data (objs s ! i)")
  case None
  have "take (static_size (objs s ! i)) (blit p d (static_data (objs s ! i))) =
      blit p d (take (static_size (objs s ! i)) (static_data (objs s ! i)))"
    using p None nm_ok_static [OF mem_ok_nth [OF ok] None]
    by (intro take_blit_inner) (simp_all add: nm_size_def)
  then show ?thesis using None ok p
    by (auto simp: overwrite_def nm_bytes_def is_dynamic_def Let_def)
next
  case (Some a)
  have "\<And>b. dynamic_data (objs s ! j) = Some b \<Longrightarrow> b < length (heap s)"
    using mem_ok_nth [OF ok(1) j] by (simp add: nm_ok_def)
  then show ?thesis using Some
    by (cases "dynamic_data (objs s ! j)") (auto simp: overwrite_def nm_bytes_def is_dynamic_def nth_list_update)
qed

lemma length_objs_overwrite [frame_simps]: "length (objs (overwrite s i p d)) = length (objs s)"
  by (simp add: overwrite_def Let_def split: option.splits)

lemma mem_ok_overwrite [inv_intros]:
  assumes "mem_ok s" "i < length (objs s)" "p + length d \<le> nm_size s i"
  shows "mem_ok (overwrite s i p d)"
proof (cases "dynamic_data (objs s ! i)")
  case None
  then show ?thesis using assms mem_ok_nth [OF assms(1,2)]
    by (auto simp: overwrite_def Let_def nm_size_def nm_ok_def intro!: mem_ok_upd_objs)
next
  case (Some a)
  then show ?thesis using assms(1) by (simp add: overwrite_def mem_ok_upd_heap)
qed

subsection \<open>Refinement: messages are values\<close>

text \<open>
  The operations a client calls on message objects, as commands. A client that
  only appends, inserts, assigns, copies, clears and swaps cannot see the sharing:
  the run over the memory computes what the run over plain byte strings does.
\<close>

datatype nm_cmd =
    New string
  | New_reserved string nat
  | Copy_of string nat nat
  | Write_to nat string
  | Insert_into nat nat string
  | Assign_to nat nat
  | Clear nat
  | Swap_with nat nat
  | Reserve_in nat nat

fun nm_exec :: "mem \<Rightarrow> nm_cmd \<Rightarrow> nm_error + mem" where
  "nm_exec s (New raw) = Inr (NetMessage_new raw s)"
| "nm_exec s (New_reserved raw n) = Inr (NetMessage_reserved raw s n)"
| "nm_exec s (Copy_of raw n j) = Inr (NetMessage_copy raw n s j)"
| "nm_exec s (Write_to i d) = Inr (Write s i d)"
| "nm_exec s (Insert_into i p d) = insert_at s i p d"
| "nm_exec s (Assign_to i j) = Inr (Assign s i j)"
| "nm_exec s (Clear i) = Inr (clear s i)"
| "nm_exec s (Swap_with i j) = Inr (Swap s i j)"
| "nm_exec s (Reserve_in i n) = Inr (Reserve s i n)"

fun nm_run :: "mem \<Rightarrow> nm_cmd list \<Rightarrow> nm_error + mem" where
  "nm_run s [] = Inr s"
| "nm_run s (c # cs) = bind_r (nm_exec s c) (\<lambda>s'. nm_run s' cs)"

text \<open>The same commands on byte strings.\<close>

fun val_exec :: "string list \<Rightarrow> nm_cmd \<Rightarrow> string list" where
  "val_exec v (New raw) = v @ [[]]"
| "val_exec v (New_reserved raw n) = v @ [[]]"
| "val_exec v (Copy_of raw n j) = v @ [v ! j]"
| "val_exec v (Write_to i d) = v[i := v ! i @ d]"
| "val_exec v (Insert_into i p d) = v[i := take p (v ! i) @ d @ drop p (v ! i)]"
| "val_exec v (Assign_to i j) = v[i := v ! j]"
| "val_exec v (Clear i) = v[i := []]"
| "val_exec v (Swap_with i j) = v[i := v ! j, j := v ! i]"
| "val_exec v (Reserve_in i n) = v"

text \<open>The objects a command names exist; a new object's array has 128 bytes.\<close>

fun cmd_ok :: "nat \<Rightarrow> nm_cmd \<Rightarrow> bool" where
  "cmd_ok n (New raw) = (length raw = kDynamicThreshold)"
| "cmd_ok n (New_reserved raw _) = (length raw = kDynamicThreshold)"
| "cmd_ok n (Copy_of raw _ j) = (length raw = kDynamicThreshold \<and> j < n)"
| "cmd_ok n (Write_to i d) = (i < n)"
| "cmd_ok n (Insert_into i p d) = (i < n)"
| "cmd_ok n (Assign_to i j) = (i < n \<and> j < n)"
| "cmd_ok n (Clear i) = (i < n)"
| "cmd_ok n (Swap_with i j) = (i < n \<and> j < n)"
| "cmd_ok n (Reserve_in i _) = (i < n)"

fun creates :: "nm_cmd \<Rightarrow> bool" where
  "creates (New raw) = True"
| "creates (New_reserved raw n) = True"
| "creates (Copy_of raw n j) = True"
| "creates c = False"

fun cmds_ok :: "nat \<Rightarrow> nm_cmd list \<Rightarrow> bool" where
  "cmds_ok n [] = True"
| "cmds_ok n (c # cs) = (cmd_ok n c \<and> cmds_ok (if creates c then Suc n else n) cs)"

lemma length_values_of [simp]: "length (values_of s) = length (objs s)"
  by (simp add: values_of_def)

lemma nth_values_of [simp]: "i < length (objs s) \<Longrightarrow> values_of s ! i = nm_bytes s i"
  by (simp add: values_of_def)

lemma values_of_eqI:
  "length v = length (objs s) \<Longrightarrow> (\<And>j. j < length (objs s) \<Longrightarrow> nm_bytes s j = v ! j) \<Longrightarrow> values_of s = v"
  by (rule nth_equalityI) simp_all

lemmas op_facts = inv_intros frame_simps bytes_Write bytes_new bytes_clear bytes_Assign bytes_Swap bytes_Reserve

lemma nm_exec_refines:
  assumes "mem_ok s" "cmd_ok (length (objs s)) c" "nm_exec s c = Inr s'"
  shows "mem_ok s' \<and> values_of s' = val_exec (values_of s) c \<and>
    length (objs s') = (if creates c then Suc (length (objs s)) else length (objs s))"
proof (cases c)
  case (Copy_of raw n j)
  then show ?thesis using assms copy_facts [where s = s and j = j and raw = raw and n = n]
    by (auto intro!: values_of_eqI simp: nth_append)
next
  case (Insert_into i p d)
  with assms have i: "i < length (objs s)" and ins: "insert_at s i p d = Inr s'" by simp_all
  show ?thesis using Insert_into insert_at_facts [OF assms(1) i ins] i
    by (auto intro!: values_of_eqI simp: nth_list_update)
next
  case (New_reserved raw n)
  then show ?thesis using assms
    by (auto intro!: values_of_eqI simp: NetMessage_reserved_def op_facts nth_append)
qed (use assms in \<open>auto intro!: values_of_eqI simp: op_facts nth_append nth_list_update\<close>)

text \<open>
  C1. Refinement: any program of constructions, writes, insertions, assignments,
  copies, clears and swaps over message objects that does not trip the assertion of
  \<open>insert\<close> leaves in every object exactly the bytes that the same program over
  independent byte strings leaves, whatever vectors the objects share on the way; and
  the memory stays well-formed.
\<close>

theorem messages_are_values:
  assumes "mem_ok s" and "cmds_ok (length (objs s)) cs" and "nm_run s cs = Inr s'"
  shows "mem_ok s' \<and> values_of s' = foldl val_exec (values_of s) cs"
  using assms
proof (induction cs arbitrary: s)
  case Nil
  then show ?case by simp
next
  case (Cons c cs)
  then obtain t where t: "nm_exec s c = Inr t" "nm_run t cs = Inr s'"
    by (auto simp: bind_r_eq_Inr)
  with Cons.prems have "mem_ok t" "values_of t = val_exec (values_of s) c"
    "cmds_ok (length (objs t)) cs"
    using nm_exec_refines [of s c t] by simp_all
  with Cons.IH [of t] t(2) show ?case by simp
qed

theorem messages_are_values_witness:
  "\<exists>s'. nm_run \<lparr>objs = [], heap = []\<rparr>
      [New (replicate 128 CHR 0x00), Write_to 0 (replicate 130 CHR ''a''),
       Copy_of (replicate 128 CHR 0x00) 7 0, Write_to 1 ''b''] = Inr s' \<and>
    values_of s' = [replicate 130 CHR ''a'', replicate 130 CHR ''a'' @ ''b'']"
proof -
  let ?s = "\<lparr>objs = [], heap = []\<rparr> :: mem"
  let ?cs = "[New (replicate 128 CHR 0x00), Write_to 0 (replicate 130 CHR ''a''),
       Copy_of (replicate 128 CHR 0x00) 7 0, Write_to 1 ''b'']"
  obtain s' where r: "nm_run ?s ?cs = Inr s'" by simp
  have "mem_ok ?s" "cmds_ok (length (objs ?s)) ?cs"
    by (simp_all add: mem_ok_def kDynamicThreshold_def)
  from messages_are_values [OF this r] r show ?thesis
    by (simp add: values_of_def)
qed

text \<open>
  Error behaviour of \<open>insert\<close>: it trips its assertion exactly when the
  position is past the end, or lies inside a message whose bytes are in a vector; an
  insertion in the middle works for a static message only.
\<close>

theorem insert_fails_iff:
  "insert_at s i p d = Inl e \<longleftrightarrow>
     e = AssertFailed \<and> p \<noteq> nm_size s i \<and> (is_dynamic (objs s ! i) \<or> nm_size s i < p)"
  by (rule insert_at_fails)

text \<open>
  \<open>setBytes\<close> writes in place, without the copy on write of \<open>Write\<close>: it
  replaces the same bytes in the message and in every message that shares its vector,
  and in no other.
\<close>

theorem setBytes_reaches_aliases:
  assumes "mem_ok s" "i < length (objs s)" "j < length (objs s)" "setBytes s i len buff = Inr s'"
  defines "n \<equiv> min (min (nat len) (nm_size s i)) kDynamicThreshold"
  shows "nm_bytes s' j =
    (if j = i \<or> is_dynamic (objs s ! i) \<and> dynamic_data (objs s ! j) = dynamic_data (objs s ! i)
     then take n buff @ drop n (nm_bytes s i) else nm_bytes s j)"
proof -
  have s': "s' = overwrite s i 0 (take n buff)" and len: "n \<le> length buff"
    using assms(4) by (auto simp: setBytes_def Let_def n_def split: if_splits)
  have "0 + length (take n buff) \<le> nm_size s i" by (simp add: n_def)
  from bytes_overwrite [OF assms(1,2) this assms(3)] len show ?thesis
    by (simp add: s' blit_def min_def)
qed

theorem setBytes_reaches_aliases_witness:
  "\<exists>s'. setBytes \<lparr>objs = [\<lparr>static_size = 0, static_data = replicate 128 CHR 0x00, dynamic_data = Some 0\<rparr>,
         \<lparr>static_size = 0, static_data = replicate 128 CHR 0x00, dynamic_data = Some 0\<rparr>],
       heap = [''abc'']\<rparr> 0 1 ''z'' = Inr s' \<and> nm_bytes s' 1 = ''zbc''"
proof -
  let ?m = "\<lparr>static_size = 0, static_data = replicate 128 CHR 0x00, dynamic_data = Some 0\<rparr> :: net_message"
  let ?s = "\<lparr>objs = [?m, ?m], heap = [''abc'']\<rparr>"
  have ok: "mem_ok ?s" "0 < length (objs ?s)" "1 < length (objs ?s)"
    by (simp_all add: mem_ok_def nm_ok_def kDynamicThreshold_def)
  obtain s' where r: "setBytes ?s 0 1 ''z'' = Inr s'"
    by (simp add: setBytes_def Let_def nm_size_def kDynamicThreshold_def)
  from setBytes_reaches_aliases [OF ok r] r show ?thesis
    by (simp add: is_dynamic_def nm_size_def kDynamicThreshold_def nm_bytes_def)
qed

end
