(* ===== verification/Container_Device.thy ===== *)
theory Container_Device
  imports Net_Message
begin

section \<open>ContainerDevice: a stream over a byte container\<close>

text \<open>
  Models \<open>gateway_server/sdk/container_device.h\<close>, the seekable device that reads
  and writes a container at a position. The template parameter is the four things
  the code asks of the container: its size, copying a range out of it, copying over a
  range of it, and inserting at its end. They are arguments of the operations; the locale
  \<open>seq_container\<close> states what they owe, and \<open>NetMessage\<close> provides it.
\<close>

record 'c device =
  dev_container :: 'c
  dev_pos :: int

datatype seekdir = Seek_beg | Seek_cur | Seek_end | Seek_other

datatype seek_failure = BadDirection | BadOffset

definition ContainerDevice :: "'c \<Rightarrow> 'c device" where
  "ContainerDevice c = \<lparr>dev_container = c, dev_pos = 0\<rparr>"

text \<open>\<open>read\<close> returns the number of bytes (or -1 at the end) and the bytes.\<close>

definition cd_read ::
  "('c \<Rightarrow> nat) \<Rightarrow> ('c \<Rightarrow> nat \<Rightarrow> nat \<Rightarrow> 'b list) \<Rightarrow> 'c device \<Rightarrow> nat \<Rightarrow> int \<times> 'b list \<times> 'c device" where
  "cd_read size_of get d n =
     (let amt = int (size_of (dev_container d)) - dev_pos d; result = min (int n) amt in
      if result \<noteq> 0
      then (result, get (dev_container d) (nat (dev_pos d)) (nat result), d\<lparr>dev_pos := dev_pos d + result\<rparr>)
      else (-1, [], d))"

definition cd_write ::
  "('c \<Rightarrow> nat) \<Rightarrow> ('c \<Rightarrow> nat \<Rightarrow> 'b list \<Rightarrow> 'c) \<Rightarrow> ('c \<Rightarrow> 'b list \<Rightarrow> 'c) \<Rightarrow>
     'c device \<Rightarrow> 'b list \<Rightarrow> int \<times> 'c device" where
  "cd_write size_of put app d s =
     (let n = int (length s);
          (result, d1) =
            (if dev_pos d \<noteq> int (size_of (dev_container d))
             then let amt = int (size_of (dev_container d)) - dev_pos d; r = min n amt in
               (r, d\<lparr>dev_container := put (dev_container d) (nat (dev_pos d)) (take (nat r) s), dev_pos := dev_pos d + r\<rparr>)
             else (0, d));
          d2 =
            (if result < n
             then let c = app (dev_container d1) (drop (nat result) s) in
               d1\<lparr>dev_container := c, dev_pos := int (size_of c)\<rparr>
             else d1)
      in (n, d2))"

definition cd_seek ::
  "('c \<Rightarrow> nat) \<Rightarrow> 'c device \<Rightarrow> int \<Rightarrow> seekdir \<Rightarrow> seek_failure + int \<times> 'c device" where
  "cd_seek size_of d off way =
     (let size = int (size_of (dev_container d)) in
      bind_r (case way of
                Seek_beg \<Rightarrow> Inr off
              | Seek_cur \<Rightarrow> Inr (dev_pos d + off)
              | Seek_end \<Rightarrow> Inr (size + off - 1)
              | Seek_other \<Rightarrow> Inl BadDirection)
        (\<lambda>next. if next < 0 \<or> size \<le> next then Inl BadOffset
                else Inr (next, d\<lparr>dev_pos := next\<rparr>)))"

subsection \<open>What the device needs of its container\<close>

locale seq_container =
  fixes inv :: "'c \<Rightarrow> bool"
    and bytes :: "'c \<Rightarrow> 'b list"
    and size_of :: "'c \<Rightarrow> nat"
    and get :: "'c \<Rightarrow> nat \<Rightarrow> nat \<Rightarrow> 'b list"
    and put :: "'c \<Rightarrow> nat \<Rightarrow> 'b list \<Rightarrow> 'c"
    and app :: "'c \<Rightarrow> 'b list \<Rightarrow> 'c"
  assumes size_law: "inv c \<Longrightarrow> size_of c = length (bytes c)"
    and get_law: "inv c \<Longrightarrow> p + n \<le> length (bytes c) \<Longrightarrow> get c p n = take n (drop p (bytes c))"
    and put_law: "inv c \<Longrightarrow> p + length s \<le> length (bytes c) \<Longrightarrow> bytes (put c p s) = blit p s (bytes c)"
    and app_law: "inv c \<Longrightarrow> bytes (app c s) = bytes c @ s"
    and inv_put: "inv c \<Longrightarrow> p + length s \<le> length (bytes c) \<Longrightarrow> inv (put c p s)"
    and inv_app: "inv c \<Longrightarrow> inv (app c s)"
begin

definition dev_ok :: "'c device \<Rightarrow> bool" where
  "dev_ok d = (inv (dev_container d) \<and> 0 \<le> dev_pos d \<and> dev_pos d \<le> int (length (bytes (dev_container d))))"

lemma open_ok: "inv c \<Longrightarrow> dev_ok (ContainerDevice c)"
  by (simp add: dev_ok_def ContainerDevice_def)

lemma write_inside:
  assumes "dev_ok d" "nat (dev_pos d) + length s \<le> length (bytes (dev_container d))"
  shows "cd_write size_of put app d s =
    (int (length s), if s = [] \<and> dev_pos d = int (length (bytes (dev_container d))) then d
       else d\<lparr>dev_container := put (dev_container d) (nat (dev_pos d)) s, dev_pos := dev_pos d + int (length s)\<rparr>)"
  using assms by (auto simp: cd_write_def dev_ok_def size_law Let_def min_def)

lemma write_facts:
  assumes ok: "dev_ok d" and w: "cd_write size_of put app d s = (r, d')"
  shows "r = int (length s)" and "dev_ok d'"
    and "dev_pos d' = dev_pos d + int (length s)"
    and "bytes (dev_container d') =
      take (nat (dev_pos d)) (bytes (dev_container d)) @ s @ drop (nat (dev_pos d) + length s) (bytes (dev_container d))"
proof -
  let ?c = "dev_container d" let ?p = "nat (dev_pos d)"
  let ?k = "length (bytes ?c) - ?p"
  have inv: "inv ?c" and p: "?p \<le> length (bytes ?c)" "int ?p = dev_pos d" "0 \<le> dev_pos d"
    using ok by (auto simp: dev_ok_def)
  have "r = int (length s) \<and> dev_ok d' \<and> dev_pos d' = dev_pos d + int (length s) \<and>
    bytes (dev_container d') = take ?p (bytes ?c) @ s @ drop (?p + length s) (bytes ?c)"
  proof (cases "?p + length s \<le> length (bytes ?c)")
    case True
    then show ?thesis using w write_inside [OF ok True] inv p
      by (auto simp: dev_ok_def put_law inv_put blit_def split: if_splits)
  next
    case False
    define c1 where "c1 = (if ?k = 0 then ?c else put ?c ?p (take ?k s))"
    have k: "?p + length (take ?k s) \<le> length (bytes ?c)" using False p by simp
    have c1: "inv c1" "bytes c1 = take ?p (bytes ?c) @ take ?k s"
      using inv p False put_law [OF inv k] inv_put [OF inv k] by (auto simp: c1_def blit_def)
    obtain q where q: "dev_pos d = int q" using p(3) by (metis nonneg_int_cases)
    have "d' = d\<lparr>dev_container := app c1 (drop ?k s), dev_pos := int (size_of (app c1 (drop ?k s)))\<rparr> \<and>
        r = int (length s)"
    proof (cases "?k = 0")
      case True
      then show ?thesis using w False p inv
        by (simp add: cd_write_def Let_def size_law c1_def q)
    next
      case k0: False
      then have "min (int (length s)) (int (length (bytes ?c)) - int q) = int ?k"
        "int ?k < int (length s)" "nat (int (length (bytes ?c)) - int q) = length (bytes ?c) - q"
        using False p by (simp_all add: q of_nat_diff)
      then show ?thesis using w False k0 p inv
        by (auto simp: cd_write_def Let_def size_law c1_def q)
    qed
    then show ?thesis
      using c1 inv_app [OF c1(1)] app_law [OF c1(1)] p False by (simp add: dev_ok_def size_law)
  qed
  then show "r = int (length s)" and "dev_ok d'"
    and "dev_pos d' = dev_pos d + int (length s)"
    and "bytes (dev_container d') =
      take (nat (dev_pos d)) (bytes (dev_container d)) @ s @ drop (nat (dev_pos d) + length s) (bytes (dev_container d))"
    by simp_all
qed

lemma read_facts:
  assumes ok: "dev_ok d" and r: "cd_read size_of get d n = (k, out, d')"
  shows "dev_ok d'" and "dev_container d' = dev_container d"
    and "out = take n (drop (nat (dev_pos d)) (bytes (dev_container d)))"
    and "dev_pos d' = dev_pos d + int (length out)"
    and "k = (if out = [] then -1 else int (length out))"
  using ok r by (auto simp: cd_read_def dev_ok_def Let_def size_law get_law min_def
      nat_diff_distrib nat_add_distrib split: if_splits)

lemma seek_facts:
  assumes ok: "dev_ok d" and "cd_seek size_of d off way = Inr (p, d')"
  shows "dev_ok d'" and "dev_container d' = dev_container d" and "dev_pos d' = p"
    and "0 \<le> p" and "p < int (length (bytes (dev_container d)))"
  using assms by (auto simp: cd_seek_def dev_ok_def Let_def size_law bind_r_eq_Inr split: if_splits)

lemma seek_back:
  "dev_ok d \<Longrightarrow> bytes (dev_container d) \<noteq> [] \<Longrightarrow>
     cd_seek size_of d 0 Seek_beg = Inr (0, d\<lparr>dev_pos := 0\<rparr>)"
  by (simp add: cd_seek_def dev_ok_def Let_def size_law)

text \<open>Writing pieces one after the other writes their concatenation.\<close>

lemma write_pieces:
  fixes pieces :: "'b list list"
  assumes "dev_ok d" "dev_pos d = int (length (bytes (dev_container d)))"
  defines "e \<equiv> foldl (\<lambda>d s. snd (cd_write size_of put app d s)) d pieces"
  shows "dev_ok e \<and> bytes (dev_container e) = bytes (dev_container d) @ concat pieces \<and>
    dev_pos e = int (length (bytes (dev_container e)))"
  using assms(1,2) unfolding e_def
proof (induction pieces arbitrary: d)
  case Nil
  then show ?case by simp
next
  case (Cons s pieces)
  obtain r d' where w: "cd_write size_of put app d s = (r, d')" by fastforce
  note f = write_facts [OF Cons.prems(1) w]
  show ?case using Cons.IH [of d'] f Cons.prems w by simp
qed

end

subsection \<open>NetMessage as the container\<close>

definition nm_get :: "nat \<Rightarrow> mem \<Rightarrow> nat \<Rightarrow> nat \<Rightarrow> string" where
  "nm_get i s p n = take n (drop p (nm_bytes s i))"

definition nm_insert_end :: "nat \<Rightarrow> mem \<Rightarrow> string \<Rightarrow> mem" where
  "nm_insert_end i s d = (case insert_at s i (nm_size s i) d of Inr s' \<Rightarrow> s' | Inl _ \<Rightarrow> s)"

definition nm_valid :: "nat \<Rightarrow> mem \<Rightarrow> bool" where
  "nm_valid i s = (mem_ok s \<and> i < length (objs s))"

lemma nm_insert_end_Write: "nm_insert_end i s d = Write s i d"
  by (simp add: nm_insert_end_def insert_at_end)

interpretation nm: seq_container "nm_valid i" "\<lambda>s. nm_bytes s i" "\<lambda>s. nm_size s i"
    "nm_get i" "\<lambda>s. overwrite s i" "nm_insert_end i" for i
proof (unfold_locales, goal_cases)
  case (1 s) then show ?case by (simp add: nm_valid_def nm_size_bytes)
next
  case (2 s p n) then show ?case by (simp add: nm_get_def)
next
  case (3 s p d) then show ?case
    using bytes_overwrite [of s i p d i] by (simp add: nm_valid_def nm_size_bytes)
next
  case (4 s d) then show ?case by (simp add: nm_valid_def nm_insert_end_Write bytes_Write)
next
  case (5 s p d) then show ?case
    by (simp add: nm_valid_def nm_size_bytes inv_intros frame_simps)
next
  case (6 s d) then show ?case
    by (simp add: nm_valid_def nm_insert_end_Write inv_intros frame_simps)
qed

text \<open>
  C9. Round trip of the stream over a message: bytes written in pieces through a
  device opened on an empty message, then read back from the start in one read, are
  the concatenation of the pieces, and they are the message's content, in its array or
  in a vector alike.
\<close>

theorem stream_round_trip:
  assumes "mem_ok s" "i < length (objs s)" "nm_bytes s i = []" "concat pieces \<noteq> []"
  defines "d \<equiv> foldl (\<lambda>d p. snd (cd_write (\<lambda>s. nm_size s i) (\<lambda>s. overwrite s i) (nm_insert_end i) d p))
      (ContainerDevice s) pieces"
  shows "nm_bytes (dev_container d) i = concat pieces \<and>
    (\<exists>d1 d2. cd_seek (\<lambda>s. nm_size s i) d 0 Seek_beg = Inr (0, d1) \<and>
      cd_read (\<lambda>s. nm_size s i) (nm_get i) d1 (length (concat pieces)) =
        (int (length (concat pieces)), concat pieces, d2))"
proof -
  have ok: "nm.dev_ok i (ContainerDevice s)"
    using assms(1,2) by (intro nm.open_ok) (simp add: nm_valid_def)
  have "nm.dev_ok i d \<and> nm_bytes (dev_container d) i = nm_bytes s i @ concat pieces \<and>
      dev_pos d = int (length (nm_bytes (dev_container d) i))"
    using nm.write_pieces [OF ok, of pieces] assms(3) by (simp add: d_def ContainerDevice_def)
  then have d: "nm.dev_ok i d" "nm_bytes (dev_container d) i = concat pieces"
    using assms(3) by simp_all
  have seek: "cd_seek (\<lambda>s. nm_size s i) d 0 Seek_beg = Inr (0, d\<lparr>dev_pos := 0\<rparr>)"
    using nm.seek_back [OF d(1)] d(2) assms(4) by simp
  obtain k out d2 where r: "cd_read (\<lambda>s. nm_size s i) (nm_get i) (d\<lparr>dev_pos := 0\<rparr>) (length (concat pieces)) = (k, out, d2)"
    by (metis prod_cases3)
  note f = nm.read_facts [OF nm.seek_facts(1) [OF d(1) seek] r]
  have out: "out = concat pieces" using f(3) d(2) by simp
  with f(5) assms(4) have "k = int (length (concat pieces))" by simp
  with seek r out d show ?thesis by auto
qed

theorem stream_round_trip_witness:
  "nm_bytes (dev_container (foldl (\<lambda>d p. snd (cd_write (\<lambda>s. nm_size s 0) (\<lambda>s. overwrite s 0) (nm_insert_end 0) d p))
      (ContainerDevice \<lparr>objs = [\<lparr>static_size = 0, static_data = replicate 128 CHR 0x00, dynamic_data = None\<rparr>], heap = []\<rparr>)
      [''ab'', ''c''])) 0 = ''abc''"
proof -
  let ?s = "\<lparr>objs = [\<lparr>static_size = 0, static_data = replicate 128 CHR 0x00, dynamic_data = None\<rparr>], heap = []\<rparr> :: mem"
  have "mem_ok ?s" "0 < length (objs ?s)" "nm_bytes ?s 0 = []" "concat [''ab'', ''c''] \<noteq> []"
    by (simp_all add: mem_ok_def nm_ok_def kDynamicThreshold_def nm_bytes_def)
  from stream_round_trip [OF this] show ?thesis by simp
qed

text \<open>
  Functional behaviour of a device write at any position of a message: it returns
  the number of bytes given, replaces the bytes at the position, extends the message
  where the data runs past its end, and moves the position behind the data.
\<close>

theorem device_write_at:
  assumes "mem_ok s" "i < length (objs s)" "p \<le> nm_size s i"
    and "cd_write (\<lambda>s. nm_size s i) (\<lambda>s. overwrite s i) (nm_insert_end i)
      \<lparr>dev_container = s, dev_pos = int p\<rparr> data = (r, d)"
  shows "r = int (length data) \<and> dev_pos d = int (p + length data) \<and> mem_ok (dev_container d) \<and>
    nm_bytes (dev_container d) i = take p (nm_bytes s i) @ data @ drop (p + length data) (nm_bytes s i)"
proof -
  have "nm.dev_ok i \<lparr>dev_container = s, dev_pos = int p\<rparr>"
    using assms(1-3) by (simp add: nm.dev_ok_def nm_valid_def nm_size_bytes)
  note f = nm.write_facts [OF this assms(4)]
  from f(2) have "mem_ok (dev_container d)" by (simp add: nm.dev_ok_def nm_valid_def)
  with f show ?thesis by simp
qed

theorem device_write_at_witness:
  "\<exists>d. cd_write (\<lambda>s. nm_size s 0) (\<lambda>s. overwrite s 0) (nm_insert_end 0)
      \<lparr>dev_container = \<lparr>objs = [\<lparr>static_size = 0, static_data = replicate 128 CHR 0x00, dynamic_data = Some 0\<rparr>],
        heap = [''abc'']\<rparr>, dev_pos = 2\<rparr> ''xy'' = (2, d) \<and> nm_bytes (dev_container d) 0 = ''abxy''"
proof -
  let ?s = "\<lparr>objs = [\<lparr>static_size = 0, static_data = replicate 128 CHR 0x00, dynamic_data = Some 0\<rparr>], heap = [''abc'']\<rparr> :: mem"
  have ok: "mem_ok ?s" "0 < length (objs ?s)" "2 \<le> nm_size ?s 0"
    by (simp_all add: mem_ok_def nm_ok_def kDynamicThreshold_def nm_size_def)
  obtain r d where w: "cd_write (\<lambda>s. nm_size s 0) (\<lambda>s. overwrite s 0) (nm_insert_end 0)
      \<lparr>dev_container = ?s, dev_pos = int 2\<rparr> ''xy'' = (r, d)" by fastforce
  from device_write_at [OF ok w] w show ?thesis
    by (auto simp: nm_bytes_def)
qed

end
