(* ===== verification/Cipher.thy ===== *)
theory Cipher
  imports Prelude
begin

section \<open>AESSBox and TeaAlgorithm: the substitution cipher\<close>

text \<open>
  Models \<open>gateway_server/sdk/AESSBox.h\<close>, \<open>AESSBox.cpp\<close> and
  \<open>TeaAlgorithm.cpp\<close>. Bytes are \<open>u8\<close> and the code's \<open>DBYTE\<close> is
  \<open>u16\<close>. A box is the list of its 256 bytes. The base box comes from
  polynomial arithmetic over GF(2) modulo \<open>m(x)\<close>; the box of a session is the
  base box after 64 swaps whose indices are 128 random bytes.
\<close>

subsection \<open>Bits, squares and products\<close>

definition seekat7 :: "u8 \<Rightarrow> int" where
  "seekat7 temp = (if temp AND 0x80 \<noteq> 0 then 1 else 0)"

definition seekat6 :: "u8 \<Rightarrow> int" where
  "seekat6 temp = (if temp AND 0x40 \<noteq> 0 then 1 else 0)"

definition seekat5 :: "u8 \<Rightarrow> int" where
  "seekat5 temp = (if temp AND 0x20 \<noteq> 0 then 1 else 0)"

definition seekat4 :: "u8 \<Rightarrow> int" where
  "seekat4 temp = (if temp AND 0x10 \<noteq> 0 then 1 else 0)"

definition seekat3 :: "u8 \<Rightarrow> int" where
  "seekat3 temp = (if temp AND 0x08 \<noteq> 0 then 1 else 0)"

definition seekat2 :: "u8 \<Rightarrow> int" where
  "seekat2 temp = (if temp AND 0x04 \<noteq> 0 then 1 else 0)"

definition seekat1 :: "u8 \<Rightarrow> int" where
  "seekat1 temp = (if temp AND 0x02 \<noteq> 0 then 1 else 0)"

definition seekat0 :: "u8 \<Rightarrow> int" where
  "seekat0 temp = (if temp AND 0x01 \<noteq> 0 then 1 else 0)"

definition mul :: "u8 \<Rightarrow> u16" where
  "mul temp =
     (if seekat7 temp \<noteq> 0 then 0x4000 else 0)
     + (if seekat6 temp \<noteq> 0 then 0x1000 else 0)
     + (if seekat5 temp \<noteq> 0 then 0x0400 else 0)
     + (if seekat4 temp \<noteq> 0 then 0x0100 else 0)
     + (if seekat3 temp \<noteq> 0 then 0x0040 else 0)
     + (if seekat2 temp \<noteq> 0 then 0x0010 else 0)
     + (if seekat1 temp \<noteq> 0 then 0x0004 else 0)
     + (if seekat0 temp \<noteq> 0 then 0x0001 else 0)"

definition multwo :: "u8 \<Rightarrow> u8 \<Rightarrow> u16" where
  "multwo temp1 temp2 =
     (if seekat7 temp1 * seekat7 temp2 \<noteq> 0 then 0x4000 else 0)
     + (if (seekat7 temp1 * seekat6 temp2)
         XOR (seekat6 temp1 * seekat7 temp2) \<noteq> 0 then 0x2000 else 0)
     + (if (seekat7 temp1 * seekat5 temp2) XOR (seekat6 temp1 * seekat6 temp2)
         XOR (seekat5 temp1 * seekat7 temp2) \<noteq> 0 then 0x1000 else 0)
     + (if (seekat7 temp1 * seekat4 temp2) XOR (seekat6 temp1 * seekat5 temp2)
         XOR (seekat5 temp1 * seekat6 temp2)
         XOR (seekat4 temp1 * seekat7 temp2) \<noteq> 0 then 0x0800 else 0)
     + (if (seekat7 temp1 * seekat3 temp2) XOR (seekat6 temp1 * seekat4 temp2)
         XOR (seekat5 temp1 * seekat5 temp2) XOR (seekat4 temp1 * seekat6 temp2)
         XOR (seekat3 temp1 * seekat7 temp2) \<noteq> 0 then 0x0400 else 0)
     + (if (seekat7 temp1 * seekat2 temp2) XOR (seekat6 temp1 * seekat3 temp2)
         XOR (seekat5 temp1 * seekat4 temp2) XOR (seekat4 temp1 * seekat5 temp2)
         XOR (seekat3 temp1 * seekat6 temp2)
         XOR (seekat2 temp1 * seekat7 temp2) \<noteq> 0 then 0x0200 else 0)
     + (if (seekat7 temp1 * seekat1 temp2) XOR (seekat6 temp1 * seekat2 temp2)
         XOR (seekat5 temp1 * seekat3 temp2) XOR (seekat4 temp1 * seekat4 temp2)
         XOR (seekat3 temp1 * seekat5 temp2) XOR (seekat2 temp1 * seekat6 temp2)
         XOR (seekat1 temp1 * seekat7 temp2) \<noteq> 0 then 0x0100 else 0)
     + (if (seekat7 temp1 * seekat0 temp2) XOR (seekat6 temp1 * seekat1 temp2)
         XOR (seekat5 temp1 * seekat2 temp2) XOR (seekat4 temp1 * seekat3 temp2)
         XOR (seekat3 temp1 * seekat4 temp2) XOR (seekat2 temp1 * seekat5 temp2)
         XOR (seekat1 temp1 * seekat6 temp2)
         XOR (seekat0 temp1 * seekat7 temp2) \<noteq> 0 then 0x0080 else 0)
     + (if (seekat6 temp1 * seekat0 temp2) XOR (seekat5 temp1 * seekat1 temp2)
         XOR (seekat4 temp1 * seekat2 temp2) XOR (seekat3 temp1 * seekat3 temp2)
         XOR (seekat2 temp1 * seekat4 temp2) XOR (seekat1 temp1 * seekat5 temp2)
         XOR (seekat0 temp1 * seekat6 temp2) \<noteq> 0 then 0x0040 else 0)
     + (if (seekat5 temp1 * seekat0 temp2) XOR (seekat4 temp1 * seekat1 temp2)
         XOR (seekat3 temp1 * seekat2 temp2) XOR (seekat2 temp1 * seekat3 temp2)
         XOR (seekat1 temp1 * seekat4 temp2)
         XOR (seekat0 temp1 * seekat5 temp2) \<noteq> 0 then 0x0020 else 0)
     + (if (seekat4 temp1 * seekat0 temp2) XOR (seekat3 temp1 * seekat1 temp2)
         XOR (seekat2 temp1 * seekat2 temp2) XOR (seekat1 temp1 * seekat3 temp2)
         XOR (seekat0 temp1 * seekat4 temp2) \<noteq> 0 then 0x0010 else 0)
     + (if (seekat3 temp1 * seekat0 temp2) XOR (seekat2 temp1 * seekat1 temp2)
         XOR (seekat1 temp1 * seekat2 temp2)
         XOR (seekat0 temp1 * seekat3 temp2) \<noteq> 0 then 0x0008 else 0)
     + (if (seekat2 temp1 * seekat0 temp2) XOR (seekat1 temp1 * seekat1 temp2)
         XOR (seekat0 temp1 * seekat2 temp2) \<noteq> 0 then 0x0004 else 0)
     + (if (seekat1 temp1 * seekat0 temp2)
         XOR (seekat0 temp1 * seekat1 temp2) \<noteq> 0 then 0x0002 else 0)
     + (if seekat0 temp1 * seekat0 temp2 \<noteq> 0 then 0x0001 else 0)"

definition matrix :: "u8 \<Rightarrow> u8" where
  "matrix temp =
     (if (seekat0 temp * 1) XOR (seekat1 temp * 0) XOR (seekat2 temp * 0) XOR (seekat3 temp * 0)
         XOR (seekat4 temp * 1) XOR (seekat5 temp * 1) XOR (seekat6 temp * 1) XOR (seekat7 temp * 1)
         XOR 1 \<noteq> 0 then 1 else 0)
     + (if (seekat0 temp * 1) XOR (seekat1 temp * 1) XOR (seekat2 temp * 0) XOR (seekat3 temp * 0)
         XOR (seekat4 temp * 0) XOR (seekat5 temp * 1) XOR (seekat6 temp * 1) XOR (seekat7 temp * 1)
         XOR 1 \<noteq> 0 then 2 else 0)
     + (if (seekat0 temp * 1) XOR (seekat1 temp * 1) XOR (seekat2 temp * 1) XOR (seekat3 temp * 0)
         XOR (seekat4 temp * 0) XOR (seekat5 temp * 0) XOR (seekat6 temp * 1) XOR (seekat7 temp * 1)
         XOR 0 \<noteq> 0 then 4 else 0)
     + (if (seekat0 temp * 1) XOR (seekat1 temp * 1) XOR (seekat2 temp * 1) XOR (seekat3 temp * 1)
         XOR (seekat4 temp * 0) XOR (seekat5 temp * 0) XOR (seekat6 temp * 0) XOR (seekat7 temp * 1)
         XOR 0 \<noteq> 0 then 8 else 0)
     + (if (seekat0 temp * 1) XOR (seekat1 temp * 1) XOR (seekat2 temp * 1) XOR (seekat3 temp * 1)
         XOR (seekat4 temp * 1) XOR (seekat5 temp * 0) XOR (seekat6 temp * 0) XOR (seekat7 temp * 0)
         XOR 0 \<noteq> 0 then 16 else 0)
     + (if (seekat0 temp * 0) XOR (seekat1 temp * 1) XOR (seekat2 temp * 1) XOR (seekat3 temp * 1)
         XOR (seekat4 temp * 1) XOR (seekat5 temp * 1) XOR (seekat6 temp * 0) XOR (seekat7 temp * 0)
         XOR 1 \<noteq> 0 then 32 else 0)
     + (if (seekat0 temp * 0) XOR (seekat1 temp * 0) XOR (seekat2 temp * 1) XOR (seekat3 temp * 1)
         XOR (seekat4 temp * 1) XOR (seekat5 temp * 1) XOR (seekat6 temp * 1) XOR (seekat7 temp * 0)
         XOR 1 \<noteq> 0 then 64 else 0)
     + (if (seekat0 temp * 0) XOR (seekat1 temp * 0) XOR (seekat2 temp * 0) XOR (seekat3 temp * 1)
         XOR (seekat4 temp * 1) XOR (seekat5 temp * 1) XOR (seekat6 temp * 1) XOR (seekat7 temp * 1)
         XOR 0 \<noteq> 0 then 128 else 0)"

text \<open>The loop of \<open>length\<close>: the number of significant bits.\<close>

function sig_bits :: "u16 \<Rightarrow> nat" where
  "sig_bits temp = (if temp = 0 then 0 else Suc (sig_bits (drop_bit 1 temp)))"
  by pat_completeness auto
termination
proof (relation "measure unat", goal_cases)
  case (2 temp)
  then have "0 < unat temp" by (simp add: unat_gt_0)
  moreover have "unat (drop_bit 1 temp) = unat temp div 2"
    by (subst unat_drop_bit_eq) (simp only: drop_bit_eq_div power_one_right)
  ultimately show ?case by simp
qed simp

declare sig_bits.simps [simp del]

text \<open>
  The reduction modulo \<open>m(x)\<close>. With an \<open>mx\<close> whose top bit is not bit 8
  the loop may not end, so the function is partial.
\<close>

partial_function (option) mod_mx :: "u16 \<Rightarrow> u16 \<Rightarrow> u8 option" where
  [code]: "mod_mx temp mx =
     (if 256 \<le> temp
      then mod_mx (temp XOR push_bit (sig_bits temp - 9) mx) mx
      else Some (ucast temp))"

fun box_rounds :: "u16 \<Rightarrow> nat \<Rightarrow> u8 \<Rightarrow> u8 \<Rightarrow> u8 option" where
  "box_rounds mx 0 value myout = Some myout"
| "box_rounds mx (Suc n) value myout =
     (case mod_mx (mul value) mx of None \<Rightarrow> None
      | Some value' \<Rightarrow>
         (case mod_mx (multwo myout value') mx of None \<Rightarrow> None
          | Some myout' \<Rightarrow> box_rounds mx n value' myout'))"

text \<open>\<open>marked\<close> is never written, so the loop runs over all 256 bytes.\<close>

definition box_entry :: "u16 \<Rightarrow> u8 \<Rightarrow> u8 option" where
  "box_entry mx valuecount = map_option matrix (box_rounds mx 7 valuecount 1)"

definition generateBox :: "u16 \<Rightarrow> u8 list option" where
  "generateBox mx = those (map (\<lambda>v. box_entry mx (word_of_nat v)) [0..<256])"

text \<open>
  The box of a session: 64 swaps of the base box, at the indices two consecutive
  random bytes give.
\<close>

definition EXCHANGETIMES :: nat where
  "EXCHANGETIMES = 64"

definition swap_at :: "'a list \<Rightarrow> nat \<Rightarrow> nat \<Rightarrow> 'a list" where
  "swap_at xs i j = xs[i := xs ! j, j := xs ! i]"

definition formNewBoxes :: "u8 list \<Rightarrow> u8 list \<Rightarrow> u8 list" where
  "formNewBoxes global_aesbox pRandoms =
     foldl (\<lambda>pBox j. swap_at pBox (unat (pRandoms ! (2 * j))) (unat (pRandoms ! (2 * j + 1))))
       global_aesbox [0..<EXCHANGETIMES]"

subsection \<open>TeaAlgorithm\<close>

text \<open>
  Both directions replace \<open>length\<close> bytes in place by the box entry they index; a
  length past the end of the message is an access outside it (\<open>None\<close>).
\<close>

function subst_loop :: "u8 list \<Rightarrow> nat \<Rightarrow> nat \<Rightarrow> u8 list \<Rightarrow> u8 list option" where
  "subst_loop box len index msg =
     (if index < len then
        if index < length msg
        then subst_loop box len (Suc index) (msg[index := box ! unat (msg ! index)])
        else None
      else Some msg)"
  by pat_completeness auto
termination
  by (relation "measure (\<lambda>(box, len, index, msg). len - index)") auto

declare subst_loop.simps [simp del]

definition encrypt :: "u8 list \<Rightarrow> nat \<Rightarrow> u8 list \<Rightarrow> u8 list option" where
  "encrypt msg len box = subst_loop box len 0 msg"

definition decrypt :: "u8 list \<Rightarrow> nat \<Rightarrow> u8 list \<Rightarrow> (bool \<times> u8 list) option" where
  "decrypt msg len box = map_option (Pair True) (subst_loop box len 0 msg)"

subsection \<open>Parity of coefficients\<close>

text \<open>
  \<open>coef a i\<close> is the coefficient of \<open>x^i\<close>; \<open>conv a b n\<close> is the sum
  whose parity is the coefficient of \<open>x^n\<close> of the product.
\<close>

definition coef :: "u8 \<Rightarrow> nat \<Rightarrow> int" where
  "coef a i = of_bool (bit a i)"

definition bin :: "int \<Rightarrow> bool" where "bin x = (x = 0 \<or> x = 1)"

lemma bin_intros [simp]: "bin 0" "bin 1" "bin (coef a i)" "bin (x mod 2)" 
  "bin x \<Longrightarrow> bin y \<Longrightarrow> bin (x * y)" "bin x \<Longrightarrow> bin y \<Longrightarrow> bin (x XOR y)"
  by (auto simp: bin_def coef_def)

lemma bin_odd: "bin x \<Longrightarrow> (x \<noteq> 0) = (\<not> even x)"
  by (auto simp: bin_def)

lemma seekat_coef:
  "seekat0 a = coef a 0" "seekat1 a = coef a 1" "seekat2 a = coef a 2" "seekat3 a = coef a 3"
  "seekat4 a = coef a 4" "seekat5 a = coef a 5" "seekat6 a = coef a 6" "seekat7 a = coef a 7"
  by (simp_all add: seekat0_def seekat1_def seekat2_def seekat3_def seekat4_def seekat5_def
        seekat6_def seekat7_def coef_def bit_iff_and_push_bit_not_eq_0)

lemma coef_out [simp]: "8 \<le> n \<Longrightarrow> coef a n = 0"
  by (auto simp: coef_def dest: bit_imp_le_length)

definition conv :: "u8 \<Rightarrow> u8 \<Rightarrow> nat \<Rightarrow> int" where
  "conv a b n = (\<Sum>i\<le>n. coef a (n - i) * coef b i)"

lemma conv_simps:
  "map (conv a b) [0..<15] = [
   coef a 0 * coef b 0,
   coef a 1 * coef b 0 + coef a 0 * coef b 1,
   coef a 2 * coef b 0 + (coef a 1 * coef b 1 + coef a 0 * coef b 2),
   coef a 3 * coef b 0 + (coef a 2 * coef b 1 + (coef a 1 * coef b 2 + coef a 0 * coef b 3)),
   coef a 4 * coef b 0 + (coef a 3 * coef b 1 + (coef a 2 * coef b 2 + (coef a 1 * coef b 3
       + coef a 0 * coef b 4))),
   coef a 5 * coef b 0 + (coef a 4 * coef b 1 + (coef a 3 * coef b 2 + (coef a 2 * coef b 3
       + (coef a 1 * coef b 4 + coef a 0 * coef b 5)))),
   coef a 6 * coef b 0 + (coef a 5 * coef b 1 + (coef a 4 * coef b 2 + (coef a 3 * coef b 3
       + (coef a 2 * coef b 4 + (coef a 1 * coef b 5 + coef a 0 * coef b 6))))),
   coef a 7 * coef b 0 + (coef a 6 * coef b 1 + (coef a 5 * coef b 2 + (coef a 4 * coef b 3
       + (coef a 3 * coef b 4 + (coef a 2 * coef b 5 + (coef a 1 * coef b 6
       + coef a 0 * coef b 7)))))),
   coef a 7 * coef b 1 + (coef a 6 * coef b 2 + (coef a 5 * coef b 3 + (coef a 4 * coef b 4
       + (coef a 3 * coef b 5 + (coef a 2 * coef b 6 + coef a 1 * coef b 7))))),
   coef a 7 * coef b 2 + (coef a 6 * coef b 3 + (coef a 5 * coef b 4 + (coef a 4 * coef b 5
       + (coef a 3 * coef b 6 + coef a 2 * coef b 7)))),
   coef a 7 * coef b 3 + (coef a 6 * coef b 4 + (coef a 5 * coef b 5 + (coef a 4 * coef b 6
       + coef a 3 * coef b 7))),
   coef a 7 * coef b 4 + (coef a 6 * coef b 5 + (coef a 5 * coef b 6 + coef a 4 * coef b 7)),
   coef a 7 * coef b 5 + (coef a 6 * coef b 6 + coef a 5 * coef b 7),
   coef a 7 * coef b 6 + coef a 6 * coef b 7,
   coef a 7 * coef b 7]"
  by (simp add: conv_def upt_rec eval_nat_numeral)


lemma if_of_bool: "(if c then x else (0::'a::len word)) = x * of_bool c" by simp

lemma horner15:
  "horner_sum of_bool 2 [c0, c1, c2, c3, c4, c5, c6, c7, c8, c9, c10, c11, c12, c13, c14] =
     (if c14 then 0x4000 else 0) + (if c13 then 0x2000 else 0) + (if c12 then 0x1000 else 0)
     + (if c11 then 0x0800 else 0) + (if c10 then 0x0400 else 0) + (if c9 then 0x0200 else 0)
     + (if c8 then 0x0100 else 0) + (if c7 then 0x0080 else 0) + (if c6 then 0x0040 else 0)
     + (if c5 then 0x0020 else 0) + (if c4 then 0x0010 else 0) + (if c3 then 0x0008 else 0)
     + (if c2 then 0x0004 else 0) + (if c1 then 0x0002 else 0) + (if c0 then 0x0001 else (0::u16))"
  unfolding if_of_bool by (simp only: horner_sum_simps distrib_left mult.assoc [symmetric]) simp

lemma multwo_horner:
  "multwo a b = horner_sum of_bool 2 (map odd (map (conv a b) [0..<15]))"
  by (simp only: multwo_def bin_odd bin_intros seekat_coef even_xor_iff even_add conv_simps
    list.map horner15)

lemma bit_multwo: "bit (multwo a b) n = (n < 15 \<and> odd (conv a b n))"
  by (auto simp: multwo_horner bit_horner_sum_bit_word_iff simp del: list.map upt_rec_numeral)

lemma upto15: "[0..<15] = [0, 1, 2, 3, 4, 5, 6, 7, 8, 9, 10, 11, 12, 13, 14::nat]" by code_simp

lemma conv_self:
  "map odd (map (conv a a) [0..<15]) = map (\<lambda>n. even n \<and> odd (coef a (n div 2))) [0..<15]"
proof -
  have "map odd (map (conv a a) [0..<15]) = [odd (coef a 0), False, odd (coef a 1), False, odd (coef a 2), False,
      odd (coef a 3), False, odd (coef a 4), False, odd (coef a 5), False, odd (coef a 6), False, odd (coef a 7)]"
    unfolding conv_simps by (auto simp: mult.commute)
  then show ?thesis unfolding upto15 by simp
qed

lemma conv_self_even: "n < 15 \<Longrightarrow> even (conv a a n) = (odd n \<or> \<not> bit a (n div 2))"
  using arg_cong [OF conv_self [of a], of "\<lambda>xs. xs ! n"]
  by (auto simp: coef_def simp del: upt_rec_numeral)

lemma multwo_self: "multwo a a = mul a"
proof -
  have "multwo a a = horner_sum of_bool 2 [odd (coef a 0), False, odd (coef a 1), False, odd (coef a 2), False,
      odd (coef a 3), False, odd (coef a 4), False, odd (coef a 5), False, odd (coef a 6), False, odd (coef a 7)]"
    unfolding multwo_horner conv_self unfolding upto15 by simp
  also have "\<dots> = mul a"
    unfolding horner15 mul_def seekat_coef by (simp only: bin_odd bin_intros) simp
  finally show ?thesis .
qed

subsection \<open>The ring of bytes modulo x^8 + x\<close>

text \<open>
  \<open>0x0102\<close>, the modulus the server uses, is \<open>x^8 + x\<close>. The product of
  bytes modulo it is commutative and associative, and cubing the square map is the
  identity, so the power 254 the box is built from is the square.
\<close>

fun ring_mul :: "'a::comm_ring_1 list \<Rightarrow> 'a list \<Rightarrow> 'a list" where
  "ring_mul [a0, a1, a2, a3, a4, a5, a6, a7] [b0, b1, b2, b3, b4, b5, b6, b7] =
    [a0 * b0,
     a1 * b0 + a0 * b1 + a7 * b1 + a6 * b2 + a5 * b3 + a4 * b4 + a3 * b5 + a2 * b6 + a1 * b7,
     a2 * b0 + a1 * b1 + a0 * b2 + a7 * b2 + a6 * b3 + a5 * b4 + a4 * b5 + a3 * b6 + a2 * b7,
     a3 * b0 + a2 * b1 + a1 * b2 + a0 * b3 + a7 * b3 + a6 * b4 + a5 * b5 + a4 * b6 + a3 * b7,
     a4 * b0 + a3 * b1 + a2 * b2 + a1 * b3 + a0 * b4 + a7 * b4 + a6 * b5 + a5 * b6 + a4 * b7,
     a5 * b0 + a4 * b1 + a3 * b2 + a2 * b3 + a1 * b4 + a0 * b5 + a7 * b5 + a6 * b6 + a5 * b7,
     a6 * b0 + a5 * b1 + a4 * b2 + a3 * b3 + a2 * b4 + a1 * b5 + a0 * b6 + a7 * b6 + a6 * b7,
     a7 * b0 + a6 * b1 + a5 * b2 + a4 * b3 + a3 * b4 + a2 * b5 + a1 * b6 + a0 * b7 + a7 * b7]"
| "ring_mul _ _ = []"

lemma ring_mul_assoc:
  "ring_mul (ring_mul [a0, a1, a2, a3, a4, a5, a6, a7] [b0, b1, b2, b3, b4, b5, b6, b7]) [c0, c1, c2, c3, c4, c5, c6, c7] =
   ring_mul [a0, a1, a2, a3, a4, a5, a6, a7] (ring_mul [b0, b1, b2, b3, b4, b5, b6, b7] [c0, c1, c2, c3, c4, c5, c6, c7])"
  by (simp add: algebra_simps)

lemma ring_mul_comm:
  "ring_mul [a0, a1, a2, a3, a4, a5, a6, a7] [b0, b1, b2, b3, b4, b5, b6, b7] =
   ring_mul [b0, b1, b2, b3, b4, b5, b6, b7] [a0, a1, a2, a3, a4, a5, a6, a7]"
  by (simp add: algebra_simps)

definition coefs :: "u8 \<Rightarrow> 1 word list" where
  "coefs a = map (\<lambda>i. of_int (coef a i)) [0, 1, 2, 3, 4, 5, 6, 7]"

lemma two_is_zero: "(2 :: 1 word) = 0" by code_simp

lemma of_int_parity: "(of_int x :: 1 word) = of_bool (odd x)"
proof (cases "even x")
  case True
  then obtain y where "x = 2 * y" ..
  then show ?thesis by (simp add: two_is_zero)
next
  case False
  then obtain y where "x = 2 * y + 1" by (elim oddE)
  then show ?thesis by (simp add: two_is_zero)
qed

lemma bytes_eqI: "(\<And>k. k < 8 \<Longrightarrow> bit a k = bit b k) \<Longrightarrow> a = (b::u8)"
  by (rule bit_word_eqI) simp

lemma less8: "k < 8 \<longleftrightarrow> k \<in> {0, 1, 2, 3, 4, 5, 6, 7::nat}" by auto

lemma coefs_inj: "coefs a = coefs b \<Longrightarrow> a = b"
  by (rule bytes_eqI) (auto simp: coefs_def less8 coef_def of_int_parity)

definition red :: "u16 \<Rightarrow> u8" where
  "red t = ucast (t XOR push_bit 1 (drop_bit 8 t))"

lemma bit_red: "k < 8 \<Longrightarrow> bit (red t) k = (bit t k \<noteq> (0 < k \<and> bit t (k + 7)))"
  unfolding red_def bit_unsigned_iff bit_xor_iff bit_push_bit_iff bit_drop_bit_eq
  by (auto simp: add.commute)

definition gmul :: "u8 \<Rightarrow> u8 \<Rightarrow> u8" where "gmul a b = red (multwo a b)"

lemma coef_gmul:
  "k < 8 \<Longrightarrow> of_int (coef (gmul a b) k) =
    (of_int (conv a b k + (if 0 < k then conv a b (k + 7) else 0)) :: 1 word)"
  by (auto simp: gmul_def coef_def bit_red bit_multwo of_int_parity)

lemma conv_nth:
  "n < 15 \<Longrightarrow> conv a b n = map (conv a b) [0..<15] ! n"
  by (simp del: upt_rec_numeral)

lemma coefs_gmul: "coefs (gmul a b) = ring_mul (coefs a) (coefs b)"
  by (simp add: coefs_def coef_gmul conv_nth conv_simps ac_simps)

lemma coefs_8: "coefs a = [of_int (coef a 0), of_int (coef a 1), of_int (coef a 2), of_int (coef a 3),
    of_int (coef a 4), of_int (coef a 5), of_int (coef a 6), of_int (coef a 7)]"
  by (simp add: coefs_def)

lemma gmul_assoc: "gmul (gmul a b) c = gmul a (gmul b c)"
  by (rule coefs_inj) (simp only: coefs_gmul ring_mul_assoc coefs_8 [of a] coefs_8 [of b] coefs_8 [of c])

lemma gmul_commute: "gmul a b = gmul b a"
  by (rule coefs_inj) (simp only: coefs_gmul coefs_8 [of a] coefs_8 [of b] ring_mul_comm)

lemma gmul_left_commute: "gmul a (gmul b c) = gmul b (gmul a c)"
  by (metis gmul_assoc gmul_commute)

definition sq :: "u8 \<Rightarrow> u8" where "sq a = gmul a a"

lemma red_mul: "red (mul a) = sq a"
  by (simp add: sq_def gmul_def multwo_self)

lemma bit_sq: "k < 8 \<Longrightarrow> bit (sq a) k = bit a ([0, 4, 1, 5, 2, 6, 3, 7] ! k)"
  by (auto simp: less8 sq_def gmul_def bit_red bit_multwo conv_self_even coef_def)

lemma sq_sq_sq: "sq (sq (sq a)) = a"
  by (rule bytes_eqI) (auto simp: less8 bit_sq)

lemma gmul_1: "gmul 1 a = a"
  by (rule coefs_inj)
    (simp add: coefs_gmul, simp add: coefs_def coef_def bit_1_iff)

lemma power_254:
  "gmul (gmul (gmul (gmul (gmul (gmul (sq a) (sq (sq a))) a) (sq a)) (sq (sq a))) a) (sq a) = sq a"
proof -
  have sq: "gmul (sq x) (sq x) = sq (sq x)" "gmul x x = sq x" for x by (simp_all add: sq_def)
  note ac = gmul_assoc gmul_commute gmul_left_commute
  define p where "p = gmul (gmul (sq a) (sq (sq a))) a"
  have "gmul p a = gmul (gmul (sq a) (gmul a a)) (sq (sq a))"
    unfolding p_def by (simp only: ac)
  also have "\<dots> = a" by (simp only: sq sq_sq_sq)
  finally have pa: "gmul p a = a" .
  have ps: "gmul p (sq a) = sq a"
    using pa by (metis gmul_assoc sq(2))
  have "gmul (gmul (gmul (gmul (gmul (gmul (sq a) (sq (sq a))) a) (sq a)) (sq (sq a))) a) (sq a) =
      gmul p (gmul p (sq a))"
    unfolding p_def by (simp only: ac)
  then show ?thesis by (simp only: ps)
qed

subsection \<open>The reduction loop\<close>

lemma bit_half: "bit (drop_bit 1 (t::u16)) n = bit t (Suc n)"
  by (simp only: bit_drop_bit_eq o_apply plus_1_eq_Suc)

lemma sig_bits_above: "sig_bits t \<le> n \<Longrightarrow> \<not> bit t n"
proof (induction t arbitrary: n rule: sig_bits.induct)
  case (1 t)
  show ?case
  proof (cases "t = 0")
    case False
    with "1.prems" have "Suc (sig_bits (drop_bit 1 t)) \<le> n" by (simp add: sig_bits.simps [of t])
    then obtain m where m: "n = Suc m" "sig_bits (drop_bit 1 t) \<le> m" by (cases n) auto
    with "1.IH" [OF False] show ?thesis by (simp flip: bit_half)
  qed simp
qed

lemma sig_bits_top: "t \<noteq> 0 \<Longrightarrow> 0 < sig_bits t \<and> bit t (sig_bits t - 1)"
proof (induction t rule: sig_bits.induct)
  case (1 t)
  show ?case
  proof (cases "drop_bit 1 t = 0")
    case True
    have "bit t 0"
    proof (rule ccontr)
      assume z: "\<not> bit t 0"
      have "\<not> bit t n" for n using z bit_half [of t] True by (cases n) simp_all
      then have "t = 0" by (intro bit_word_eqI) simp
      with "1.prems" show False by simp
    qed
    then show ?thesis using True "1.prems" by (simp add: sig_bits.simps [of t] sig_bits.simps [of 0] del: bit_0)
  next
    case False
    then have "bit (drop_bit 1 t) (sig_bits (drop_bit 1 t) - 1)" "0 < sig_bits (drop_bit 1 t)"
      using "1.IH" [OF "1.prems"] by simp_all
    then show ?thesis using "1.prems"
      by (cases "sig_bits (drop_bit 1 t)")
        (simp_all only: bit_half sig_bits.simps [of t] if_False diff_Suc_1 zero_less_Suc simp_thms)
  qed
qed

lemma sig_bits_le: "(\<And>n. m \<le> n \<Longrightarrow> \<not> bit t n) \<Longrightarrow> sig_bits t \<le> m"
proof (rule ccontr)
  assume b: "\<And>n. m \<le> n \<Longrightarrow> \<not> bit t n" and n: "\<not> sig_bits t \<le> m"
  show False
  proof (cases "t = 0")
    case True
    with n show False by (simp add: sig_bits.simps [of 0])
  next
    case False
    have "m \<le> sig_bits t - 1" using n by simp
    with sig_bits_top [OF False] b show False by blast
  qed
qed

lemma sig_bits_16: "sig_bits t \<le> 16"
  by (rule sig_bits_le) (auto dest: bit_imp_le_length)

lemma less_256_sig: "sig_bits t \<le> 8 \<Longrightarrow> t < 256"
proof -
  assume "sig_bits t \<le> 8"
  then have "\<not> bit t n" if "8 \<le> n" for n using that sig_bits_above [of t n] by simp
  then have "take_bit 8 t = t"
    by (intro bit_word_eqI) (metis bit_take_bit_iff not_less)
  then have "unat t = take_bit 8 (unat t)" by (metis unsigned_take_bit_eq)
  also have "\<dots> < 2 ^ 8" by (rule take_bit_nat_less_exp)
  finally show ?thesis by (simp add: word_less_nat_alt)
qed

lemma mx_bits:
  assumes "256 \<le> mx" "mx < (512::u16)"
  shows "bit mx 8" and "8 < n \<Longrightarrow> \<not> bit mx n"
proof -
  have u: "256 \<le> unat mx" "unat mx < 512" using assms by (simp_all add: word_le_nat_alt word_less_nat_alt)
  then have "unat mx div 256 = 1" by simp
  then have "bit (unat mx) 8" by (simp add: bit_iff_odd)
  then show "bit mx 8" by (simp add: bit_unsigned_iff)
  assume "8 < n"
  then have "(2::nat) ^ 9 \<le> 2 ^ n" by (intro power_increasing) simp_all
  then have "unat mx div 2 ^ n = 0" using u by (simp add: div_eq_0_iff)
  then have "\<not> bit (unat mx) n" by (simp add: bit_iff_odd)
  then show "\<not> bit mx n" by (metis bit_imp_le_length bit_unsigned_iff possible_bit_nat)
qed

lemma sig_bits_step:
  assumes "256 \<le> mx" "mx < 512" "256 \<le> t"
  shows "sig_bits (t XOR push_bit (sig_bits t - 9) mx) < sig_bits t"
proof -
  let ?L = "sig_bits t"
  have L: "9 \<le> ?L" "?L \<le> 16" using less_256_sig [of t] assms(3) sig_bits_16 [of t] by fastforce+
  have "t \<noteq> 0" using assms(3) by auto
  then have top: "bit t (?L - 1)" using sig_bits_top by blast
  have "\<not> bit (t XOR push_bit (?L - 9) mx) n" if "?L - 1 \<le> n" for n
  proof (cases "n = ?L - 1")
    case True
    have "bit (push_bit (?L - 9) mx) n"
      using L mx_bits(1) [OF assms(1,2)] by (auto simp: bit_push_bit_iff True possible_bit_def)
    with top True show ?thesis by (simp add: bit_xor_iff)
  next
    case False
    with that L have "?L \<le> n" "8 < n - (?L - 9)" by simp_all
    with sig_bits_above [of t n] mx_bits(2) [OF assms(1,2)] show ?thesis
      by (auto simp: bit_xor_iff bit_push_bit_iff)
  qed
  then have "sig_bits (t XOR push_bit (?L - 9) mx) \<le> ?L - 1" by (rule sig_bits_le)
  with L show ?thesis by simp
qed

lemma mod_mx_division:
  assumes mx: "256 \<le> mx" "mx < 512"
  shows "\<exists>r ks. mod_mx t mx = Some r \<and> set ks \<subseteq> {0..<sig_bits t - 8} \<and>
    t = foldr (\<lambda>k x. x XOR push_bit k mx) ks (ucast r)"
proof (induction "sig_bits t" arbitrary: t rule: less_induct)
  case less
  show ?case
  proof (cases "256 \<le> t")
    case False
    then have "unat t < 2 ^ 8" by (simp add: word_less_nat_alt not_le)
    then have "ucast (ucast t :: u8) = t"
      by (intro word_unat_eq_iff [THEN iffD2]) (simp add: unsigned_ucast_eq unsigned_take_bit_eq take_bit_nat_eq_self)
    then show ?thesis using False
      by (intro exI [of _ "ucast t :: u8"] exI [of _ "[]"]) (simp add: mod_mx.simps [of t])
  next
    case True
    let ?k = "sig_bits t - 9" let ?t = "t XOR push_bit ?k mx"
    have L: "9 \<le> sig_bits t" using less_256_sig [of t] True by fastforce
    have s: "sig_bits ?t < sig_bits t" using sig_bits_step [OF mx True] .
    from less [OF this] obtain r ks where r: "mod_mx ?t mx = Some r"
      "set ks \<subseteq> {0..<sig_bits ?t - 8}" "?t = foldr (\<lambda>k x. x XOR push_bit k mx) ks (ucast r)"
      by blast
    have "t = ?t XOR push_bit ?k mx" by (simp add: xor.assoc)
    then have "t = foldr (\<lambda>k x. x XOR push_bit k mx) (?k # ks) (ucast r)" by (simp flip: r(3))
    moreover have "set (?k # ks) \<subseteq> {0..<sig_bits t - 8}" using L r(2) s by auto
    moreover have "mod_mx t mx = Some r" using True r(1) by (simp add: mod_mx.simps [of t])
    ultimately show ?thesis by blast
  qed
qed

subsection \<open>The base box\<close>

lemma red_xor: "red (x XOR y) = red x XOR red y"
  by (rule bytes_eqI) (auto simp: bit_red bit_xor_iff)

lemma red_ucast: "red (ucast r) = r"
  by (rule bytes_eqI) (auto simp: bit_red bit_unsigned_iff dest: bit_imp_le_length)

lemma red_shift: "k < 7 \<Longrightarrow> red (push_bit k 0x102) = 0"
proof -
  assume "k < 7"
  then have "k \<in> {0, 1, 2, 3, 4, 5, 6}" by auto
  moreover have "\<forall>k \<in> {0, 1, 2, 3, 4, 5, 6}. red (push_bit k 0x102) = 0"
    unfolding red_def by simp
  ultimately show ?thesis by blast
qed

lemma mod_102:
  assumes "\<not> bit t 15"
  shows "mod_mx t 0x102 = Some (red t)"
proof -
  obtain r ks where r: "mod_mx t 0x102 = Some r" "set ks \<subseteq> {0..<sig_bits t - 8}"
    "t = foldr (\<lambda>k x. x XOR push_bit k 0x102) ks (ucast r)"
    using mod_mx_division [of "0x102" t] by auto
  have "sig_bits t \<le> 15"
  proof (rule sig_bits_le)
    fix n assume "(15::nat) \<le> n"
    then show "\<not> bit t n" using assms
      by (cases "n = 15") (auto dest: bit_imp_le_length)
  qed
  with r(2) have "set ks \<subseteq> {0..<7}" by auto
  then have "red (foldr (\<lambda>k x. x XOR push_bit k 0x102) ks (ucast r)) = r"
    by (induction ks) (simp_all add: red_ucast red_xor red_shift)
  with r show ?thesis by simp
qed

lemma mod_mul: "mod_mx (mul a) 0x102 = Some (sq a)"
proof -
  have "\<not> bit (mul a) 15" by (simp add: bit_multwo flip: multwo_self)
  from mod_102 [OF this] show ?thesis by (simp add: red_mul)
qed

lemma mod_multwo: "mod_mx (multwo a b) 0x102 = Some (gmul a b)"
proof -
  have "\<not> bit (multwo a b) 15" by (simp add: bit_multwo)
  from mod_102 [OF this] show ?thesis by (simp add: gmul_def)
qed

lemma box_entry_square: "box_entry 0x102 a = Some (matrix (sq a))"
  using power_254 [of a]
  by (simp add: box_entry_def eval_nat_numeral mod_mul mod_multwo gmul_1 sq_sq_sq)

lemma matrix_horner:
  "matrix a = horner_sum of_bool 2 (map (\<lambda>k.
     odd (coef a k + coef a ((k + 4) mod 8) + coef a ((k + 5) mod 8) + coef a ((k + 6) mod 8) + coef a ((k + 7) mod 8))
       \<noteq> (k \<in> {0, 1, 5, 6})) [0, 1, 2, 3, 4, 5, 6, 7])"
proof -
  have *: "horner_sum of_bool 2 [c0, c1, c2, c3, c4, c5, c6, c7] =
     (if c0 then 1 else 0) + (if c1 then 2 else 0) + (if c2 then 4 else 0) + (if c3 then 8 else 0)
     + (if c4 then 16 else 0) + (if c5 then 32 else 0) + (if c6 then 64 else 0)
     + (if c7 then 128 else (0::u8))" for c0 c1 c2 c3 c4 c5 c6 c7
    unfolding if_of_bool by (simp only: horner_sum_simps distrib_left mult.assoc [symmetric]) simp
  show ?thesis
    unfolding list.map * matrix_def seekat_coef
    by (intro arg_cong2 [of _ _ _ _ plus] if_cong refl)
     (simp_all only: bin_odd bin_intros mult_1_right mult_zero_right, auto simp: even_xor_iff)
qed

lemma bit_horner8:
  "k < 8 \<Longrightarrow> bit (horner_sum of_bool 2 (map f [0, 1, 2, 3, 4, 5, 6, 7]) :: u8) k = f k"
  unfolding bit_horner_sum_bit_word_iff less8 by auto

lemma even_of_bool: "even (of_bool p :: int) = (\<not> p)" by simp

lemma bit_matrix:
  "k < 8 \<Longrightarrow> bit (matrix a) k =
    (odd (coef a k + coef a ((k + 4) mod 8) + coef a ((k + 5) mod 8) + coef a ((k + 6) mod 8) + coef a ((k + 7) mod 8))
       \<noteq> (k \<in> {0, 1, 5, 6}))"
  unfolding matrix_horner by (rule bit_horner8)

lemma bit_matrix_bits:
  assumes "k < 8"
  shows "bit (matrix a) k = (bit a k \<noteq> (bit a ((k + 4) mod 8) \<noteq> (bit a ((k + 5) mod 8) \<noteq>
    (bit a ((k + 6) mod 8) \<noteq> (bit a ((k + 7) mod 8) \<noteq> (k \<in> {0, 1, 5, 6}))))))"
  unfolding bit_matrix [OF assms] coef_def
  by (simp only: even_add even_of_bool) argo

lemma matrix_affine: "matrix (a XOR b) = matrix a XOR matrix b XOR 0x63"
proof (rule bytes_eqI)
  fix k :: nat assume k: "k < 8"
  have m: "bit (0x63 :: u8) k = (k \<in> {0, 1, 5, 6})"
    using k by (auto simp: less8)
  show "bit (matrix (a XOR b)) k = bit (matrix a XOR matrix b XOR 0x63) k"
    unfolding bit_xor_iff bit_matrix_bits [OF k] m by argo
qed

text \<open>The bits of a byte from those of its image: the map is one to one.\<close>

lemma matrix_bits:
  "bit (matrix a) 0 = (bit a 0 \<noteq> (bit a 4 \<noteq> (bit a 5 \<noteq> (bit a 6 \<noteq> (bit a 7 \<noteq> True)))))"
  "bit (matrix a) 1 = (bit a 1 \<noteq> (bit a 5 \<noteq> (bit a 6 \<noteq> (bit a 7 \<noteq> (bit a 0 \<noteq> True)))))"
  "bit (matrix a) 2 = (bit a 2 \<noteq> (bit a 6 \<noteq> (bit a 7 \<noteq> (bit a 0 \<noteq> (bit a 1 \<noteq> False)))))"
  "bit (matrix a) 3 = (bit a 3 \<noteq> (bit a 7 \<noteq> (bit a 0 \<noteq> (bit a 1 \<noteq> (bit a 2 \<noteq> False)))))"
  "bit (matrix a) 4 = (bit a 4 \<noteq> (bit a 0 \<noteq> (bit a 1 \<noteq> (bit a 2 \<noteq> (bit a 3 \<noteq> False)))))"
  "bit (matrix a) 5 = (bit a 5 \<noteq> (bit a 1 \<noteq> (bit a 2 \<noteq> (bit a 3 \<noteq> (bit a 4 \<noteq> True)))))"
  "bit (matrix a) 6 = (bit a 6 \<noteq> (bit a 2 \<noteq> (bit a 3 \<noteq> (bit a 4 \<noteq> (bit a 5 \<noteq> True)))))"
  "bit (matrix a) 7 = (bit a 7 \<noteq> (bit a 3 \<noteq> (bit a 4 \<noteq> (bit a 5 \<noteq> (bit a 6 \<noteq> False)))))"
  by (subst bit_matrix_bits, simp, simp del: bit_0)+

lemma matrix_inverse_bits:
  "bit a 0 = (bit (matrix a) 2 \<noteq> (bit (matrix a) 5 \<noteq> (bit (matrix a) 7 \<noteq> True)))"
  "bit a 1 = (bit (matrix a) 3 \<noteq> (bit (matrix a) 6 \<noteq> (bit (matrix a) 0 \<noteq> False)))"
  "bit a 2 = (bit (matrix a) 4 \<noteq> (bit (matrix a) 7 \<noteq> (bit (matrix a) 1 \<noteq> True)))"
  "bit a 3 = (bit (matrix a) 5 \<noteq> (bit (matrix a) 0 \<noteq> (bit (matrix a) 2 \<noteq> False)))"
  "bit a 4 = (bit (matrix a) 6 \<noteq> (bit (matrix a) 1 \<noteq> (bit (matrix a) 3 \<noteq> False)))"
  "bit a 5 = (bit (matrix a) 7 \<noteq> (bit (matrix a) 2 \<noteq> (bit (matrix a) 4 \<noteq> False)))"
  "bit a 6 = (bit (matrix a) 0 \<noteq> (bit (matrix a) 3 \<noteq> (bit (matrix a) 5 \<noteq> False)))"
  "bit a 7 = (bit (matrix a) 1 \<noteq> (bit (matrix a) 4 \<noteq> (bit (matrix a) 6 \<noteq> False)))"
  unfolding matrix_bits by argo+

lemma matrix_inj: "matrix a = matrix b \<Longrightarrow> a = b"
  by (rule bytes_eqI) (auto simp only: less8 matrix_inverse_bits [of a] matrix_inverse_bits [of b])

lemma sq_inj: "sq a = sq b \<Longrightarrow> a = b"
  by (metis sq_sq_sq)

lemma sq_xor: "sq (a XOR b) = sq a XOR sq b"
  by (rule bytes_eqI) (simp add: bit_sq bit_xor_iff)

definition base_box :: "u8 list" where
  "base_box = map (\<lambda>v. matrix (sq (word_of_nat v))) [0..<256]"

lemma generateBox_102: "generateBox 0x102 = Some base_box"
proof -
  have "those (map (\<lambda>v. Some (f v)) xs) = Some (map f xs)" for f :: "nat \<Rightarrow> u8" and xs
    by (induction xs) simp_all
  then show ?thesis by (simp add: generateBox_def box_entry_square base_box_def)
qed

lemma base_box_nth: "base_box ! unat (a :: u8) = matrix (sq a)"
proof -
  have "unat a < 256" by (rule byte_less)
  then show ?thesis by (simp add: base_box_def)
qed

lemma length_base_box [simp]: "length base_box = 256"
  by (simp add: base_box_def)

lemma distinct_base_box: "distinct base_box"
proof -
  have "inj_on (\<lambda>v. matrix (sq (word_of_nat v))) (set [0..<256])"
  proof (rule inj_onI)
    fix x y assume xy: "x \<in> set [0..<256]" "y \<in> set [0..<256]"
      and e: "matrix (sq (word_of_nat x)) = matrix (sq (word_of_nat y))"
    from e have "(word_of_nat x :: u8) = word_of_nat y" by (blast dest: matrix_inj sq_inj)
    then have "unat (word_of_nat x :: u8) = unat (word_of_nat y :: u8)" by simp
    with xy show "x = y" by (simp add: unsigned_of_nat take_bit_nat_eq_self)
  qed
  then show ?thesis unfolding base_box_def by (simp add: distinct_map)
qed

subsection \<open>The session box\<close>

lemma mset_swap_at: "i < length xs \<Longrightarrow> j < length xs \<Longrightarrow> mset (swap_at xs i j) = mset xs"
  unfolding swap_at_def by (rule mset_swap)

lemma length_swap_at [simp]: "length (swap_at xs i j) = length xs"
  by (simp add: swap_at_def)

lemma formNewBoxes_mset:
  assumes "length box = 256"
  shows "mset (formNewBoxes box rs) = mset box"
proof -
  have "length (foldl (\<lambda>b j. swap_at b (unat (rs ! (2 * j))) (unat (rs ! (2 * j + 1)))) box js) = 256 \<and>
    mset (foldl (\<lambda>b j. swap_at b (unat (rs ! (2 * j))) (unat (rs ! (2 * j + 1)))) box js) = mset box" for js
    using assms
  proof (induction js arbitrary: box)
    case (Cons j js)
    have "unat (rs ! (2 * j)) < 256" "unat (rs ! (2 * j + 1)) < 256" by (rule byte_less)+
    with Cons show ?case by (simp add: mset_swap_at)
  qed simp
  then show ?thesis by (simp add: formNewBoxes_def)
qed

lemma subst_loop_map:
  "index \<le> len \<Longrightarrow> len \<le> length msg \<Longrightarrow> subst_loop box len index msg =
     Some (take index msg @ map (\<lambda>b. box ! unat b) (take (len - index) (drop index msg)) @ drop len msg)"
proof (induction box len index msg rule: subst_loop.induct)
  case (1 box len index msg)
  show ?case
  proof (cases "index < len")
    case True
    then have i: "index < length msg" using "1.prems" by simp
    let ?m = "msg[index := box ! unat (msg ! index)]"
    have "subst_loop box len (Suc index) ?m = Some (take (Suc index) ?m @
        map (\<lambda>b. box ! unat b) (take (len - Suc index) (drop (Suc index) ?m)) @ drop len ?m)"
      using True i "1.prems" by (intro "1.IH") simp_all
    moreover have "take (Suc index) ?m = take index msg @ [box ! unat (msg ! index)]"
      using i by (simp add: take_Suc_conv_app_nth)
    moreover have "take (len - index) (drop index msg) = msg ! index # take (len - Suc index) (drop (Suc index) msg)"
      using True i by (simp add: Cons_nth_drop_Suc [symmetric] Suc_diff_Suc take_Suc_Cons flip: Suc_diff_Suc)
    ultimately show ?thesis using True i by (simp add: subst_loop.simps [of box len index msg])
  next
    case False
    then have "index = len" using "1.prems" by simp
    then show ?thesis by (subst subst_loop.simps) simp
  qed
qed

lemma subst_loop_out:
  "index \<le> length msg \<Longrightarrow> length msg < len \<Longrightarrow> subst_loop box len index msg = None"
proof (induction box len index msg rule: subst_loop.induct)
  case (1 box len index msg)
  then show ?case
    by (subst subst_loop.simps) simp
qed

subsection \<open>Properties\<close>

text \<open>The bitwise product as shifts and XOR.\<close>

definition shift_xor_product :: "u8 \<Rightarrow> u8 \<Rightarrow> u16" where
  "shift_xor_product a b =
     foldr (\<lambda>i acc. (if bit b i then push_bit i (ucast a) else 0) XOR acc) [0, 1, 2, 3, 4, 5, 6, 7] 0"

lemma bit_foldr_xor:
  "bit (foldr (\<lambda>i acc. f i XOR acc) xs (0 :: 'a::len word)) n = odd (\<Sum>i\<leftarrow>xs. of_bool (bit (f i) n) :: int)"
  by (induction xs) (auto simp: bit_xor_iff)

text \<open>
  C35. Equivalence: the 15 unrolled conditions of \<open>multwo\<close> compute the product of
  the two bytes as polynomials over GF(2), that is the XOR of the shifts of the first
  by the set bits of the second; and \<open>mul\<close>, which only spreads the bits of its
  argument, is the product of a byte with itself.
\<close>

theorem multwo_is_product:
  "multwo a b = shift_xor_product a b \<and> mul a = shift_xor_product a a"
proof -
  have "multwo a b = shift_xor_product a b" for a b
  proof (rule bit_word_eqI)
    fix n assume "n < LENGTH(16)"
    then have n: "n < 16" by simp
    have c: "of_bool (bit (if bit b i then push_bit i (ucast a) else 0 :: u16) n)
        = (if i \<le> n then coef a (n - i) * coef b i else 0)" if "i < 8" for i
      using n that by (auto simp: coef_def bit_simps dest: bit_imp_le_length)
    have "bit (shift_xor_product a b) n = odd (\<Sum>i\<leftarrow>[0, 1, 2, 3, 4, 5, 6, 7].
        if i \<le> n then coef a (n - i) * coef b i else 0)"
      unfolding shift_xor_product_def bit_foldr_xor by (simp add: c [of 0, simplified] c)
    also have "(\<Sum>i\<leftarrow>[0, 1, 2, 3, 4, 5, 6, 7]. if i \<le> n then coef a (n - i) * coef b i else 0)
        = (\<Sum>i\<in>{0..7}. if i \<le> n then coef a (n - i) * coef b i else 0)"
      by (simp add: eval_nat_numeral atLeast0_atMost_Suc_eq_insert_0)
    also have "\<dots> = conv a b n"
    proof -
      have "conv a b n = (\<Sum>i\<in>{..n} \<inter> {0..7}. coef a (n - i) * coef b i)"
        unfolding conv_def by (rule sum.mono_neutral_right) auto
      also have "\<dots> = (\<Sum>i\<in>{0..7} \<inter> {..n}. coef a (n - i) * coef b i)"
        by (simp only: Int_commute)
      also have "\<dots> = (\<Sum>i\<in>{0..7}. if i \<le> n then coef a (n - i) * coef b i else 0)"
        by (simp only: sum.inter_restrict finite_atLeastAtMost atMost_iff)
      finally show ?thesis by simp
    qed
    finally have s: "bit (shift_xor_product a b) n = odd (conv a b n)" .
    have "conv a b n = 0" if "n \<ge> 15"
      unfolding conv_def
    proof (rule sum.neutral, rule ballI)
      fix i assume "i \<in> {..n}"
      with that have "8 \<le> i \<or> 8 \<le> n - i" by auto
      then show "coef a (n - i) * coef b i = 0" by auto
    qed
    then show "bit (multwo a b) n = bit (shift_xor_product a b) n"
      unfolding s bit_multwo by (cases "n < 15") auto
  qed
  then show ?thesis by (metis multwo_self)
qed

text \<open>
  C37. Termination and correctness of \<open>mod\<close>: for a modulus of degree 8 the
  reduction loop returns, and its byte is the remainder: the argument is the XOR of that
  byte and of shifts of the modulus.
\<close>

theorem mod_mx_remainder:
  assumes "256 \<le> mx" "mx < 512"
  shows "\<exists>r ks. mod_mx t mx = Some r \<and> set ks \<subseteq> {0..<sig_bits t - 8} \<and>
    t = foldr (\<lambda>k x. x XOR push_bit k mx) ks (ucast r)"
  by (rule mod_mx_division [OF assms])

theorem mod_mx_remainder_witness:
  "\<exists>r ks. mod_mx 0x4001 0x11b = Some r \<and> (0x4001 :: u16) = foldr (\<lambda>k x. x XOR push_bit k 0x11b) ks (ucast r)"
proof -
  have "(256 :: u16) \<le> 0x11b" "0x11b < (512 :: u16)" by simp_all
  from mod_mx_remainder [OF this, where t = "0x4001"] show ?thesis by blast
qed

text \<open>
  C6. The base box of the server (modulus \<open>0x0102\<close>, the default of
  \<open>GenerateOriginalBoxe\<close>): the generator returns, and the box is a permutation of
  the 256 bytes, so it can be inverted.
\<close>

theorem base_box_is_permutation:
  "\<exists>box. generateBox 0x0102 = Some box \<and> length box = 256 \<and> distinct box"
  using generateBox_102 distinct_base_box by simp

text \<open>
  The base box is affine over GF(2): the entry of \<open>a XOR b\<close> is the XOR of
  the entries of \<open>a\<close>, \<open>b\<close> and 0, because with \<open>0x0102\<close> the
  power 254 is the square. The box is not the one of AES, which is not affine.
\<close>

theorem base_box_is_affine:
  "\<exists>box. generateBox 0x0102 = Some box \<and>
     (\<forall>a b :: u8. box ! unat (a XOR b) = box ! unat a XOR box ! unat b XOR box ! unat (0 :: u8))"
proof -
  have z: "base_box ! unat (0 :: u8) = 0x63"
  proof -
    have "sq 0 = 0" using sq_xor [of 0 0] by simp
    moreover have "matrix 0 = 0x63" using matrix_affine [of 0 0] by simp
    ultimately show ?thesis by (simp only: base_box_nth)
  qed
  have "base_box ! unat (a XOR b) = base_box ! unat a XOR base_box ! unat b XOR base_box ! unat (0 :: u8)" for a b :: u8
    unfolding z by (simp only: base_box_nth sq_xor matrix_affine)
  then show ?thesis using generateBox_102 by blast
qed

text \<open>
  C3. The box of every session is a permutation of the 256 bytes, whatever the
  random bytes: hence a table inverts it, and \<open>decrypt\<close> with that table restores
  what \<open>encrypt\<close> made of the first \<open>len\<close> bytes of a message, and leaves the
  rest alone. (Both functions of the code substitute; the box of the peer is the inverse
  one.)
\<close>

theorem session_cipher_round_trip:
  assumes "generateBox 0x0102 = Some box" and "len \<le> length msg"
  shows "\<exists>inv cipher. length inv = 256 \<and>
    encrypt msg len (formNewBoxes box pRandoms) = Some cipher \<and>
    drop len cipher = drop len msg \<and> decrypt cipher len inv = Some (True, msg)"
proof -
  let ?b = "formNewBoxes box pRandoms"
  have box: "box = base_box" using assms(1) generateBox_102 by simp
  have m: "mset ?b = mset base_box" unfolding box by (rule formNewBoxes_mset) simp
  then have len: "length ?b = 256" using mset_eq_length by fastforce
  have d: "distinct ?b" using m distinct_base_box mset_eq_imp_distinct_iff by blast
  define f where "f = (\<lambda>a :: u8. ?b ! unat a)"
  have "inj f"
  proof (rule injI)
    fix x y assume "f x = f y"
    then have "unat x = unat y"
      using d len byte_less [of x] byte_less [of y] by (simp add: f_def nth_eq_iff_index_eq)
    then show "x = y" by (rule word_unat_eq_iff [THEN iffD2])
  qed
  define g where "g = map (\<lambda>n. inv f (word_of_nat n)) [0..<256]"
  have g: "g ! unat (f a) = a" for a
    using \<open>inj f\<close> byte_less [of "f a"] by (simp add: g_def)
  let ?c = "map f (take len msg) @ drop len msg"
  have e: "encrypt msg len ?b = Some ?c"
    using subst_loop_map [of 0 len msg] assms(2) by (simp add: encrypt_def f_def)
  have "subst_loop g len 0 ?c = Some (map (\<lambda>b. g ! unat b) (map f (take len msg)) @ drop len msg)"
    using subst_loop_map [of 0 len ?c g] assms(2) by (simp add: min_def)
  then have "decrypt ?c len g = Some (True, msg)"
    by (simp add: decrypt_def g comp_def)
  moreover have "drop len ?c = drop len msg" using assms(2) by (simp add: min_def)
  moreover have "length g = 256" by (simp add: g_def)
  ultimately show ?thesis using e by blast
qed

theorem session_cipher_round_trip_witness:
  "\<exists>box inv cipher. generateBox 0x0102 = Some box \<and>
    encrypt [1, 2, 3] 2 (formNewBoxes box (replicate 128 7)) = Some cipher \<and>
    decrypt cipher 2 inv = Some (True, [1, 2, 3])"
proof -
  have "generateBox 0x0102 = Some base_box" by (rule generateBox_102)
  moreover have "2 \<le> length [1, 2, 3 :: u8]" by simp
  ultimately show ?thesis
    using session_cipher_round_trip [where pRandoms = "replicate 128 7"] by blast
qed

text \<open>
  Bounds of the substitution: a length past the end of the message makes the
  loop access memory outside it, in both directions.
\<close>

theorem substitution_out_of_bounds:
  assumes "length msg < len"
  shows "encrypt msg len box = None \<and> decrypt msg len box = None"
  using subst_loop_out [of 0 msg len box] assms by (simp add: encrypt_def decrypt_def)

theorem substitution_out_of_bounds_witness:
  "encrypt [1] 4294967295 (replicate 256 0) = None"
proof -
  have "length [1 :: u8] < 4294967295" by simp
  from substitution_out_of_bounds [OF this] show ?thesis by blast
qed

end
