(* ===== verification/Random_Util.thy ===== *)
theory Random_Util
  imports Prelude
begin

section \<open>RandomUtil: a table of random numbers\<close>

text \<open>
  Models \<open>module/RandomUtil.cpp\<close>. The table of a million 32-bit numbers is
  filled once at start (by boost's generator, so its content is an argument); the
  operations walk over it with static indices, which are the state here.
\<close>

definition RandomNum :: nat where
  "RandomNum = 1000000"

record random_util =
  next_random :: nat
  box_index :: nat
  box_restart :: nat
  in_box_index :: nat

definition random_start :: random_util where
  "random_start = \<lparr>next_random = 0, box_index = 0, box_restart = 0, in_box_index = 0\<rparr>"

definition GetARandom :: "u32 list \<Rightarrow> random_util \<Rightarrow> u32 \<times> random_util" where
  "GetARandom global_randomarray s =
     (let i = (if next_random s \<ge> RandomNum then 0 else next_random s)
      in (global_randomarray ! i, s\<lparr>next_random := i + 1\<rparr>))"

definition bindex :: "nat list" where
  "bindex = [1, 1562, 61, 49180, 395, 504, 200580, 247, 9, 7553, 65465, 24, 36595, 21554, 225, 23,
     54, 256, 5, 61, 265145, 6, 215, 156112, 265419]"

text \<open>\<open>getBoxofRandoms\<close> returns a pointer: here the index of the number it points at.\<close>

definition getBoxofRandoms :: "random_util \<Rightarrow> nat \<times> random_util" where
  "getBoxofRandoms s =
     (let i = box_index s + 256 div 4 in
      if i \<ge> RandomNum - 256
      then let i' = bindex ! box_restart s;
               j = box_restart s + 1;
               j' = (if j \<ge> 25 then 0 else j)
           in (i', s\<lparr>box_index := i', box_restart := j'\<rparr>)
      else (i, s\<lparr>box_index := i\<rparr>))"

definition getRandomInBox :: "u8 list \<Rightarrow> random_util \<Rightarrow> u8 \<times> random_util" where
  "getRandomInBox box s =
     (let i = (if in_box_index s \<ge> 256 then 0 else in_box_index s)
      in (box ! i, s\<lparr>in_box_index := i + 1\<rparr>))"

definition IsThisPercentHappen :: "u32 list \<Rightarrow> random_util \<Rightarrow> int \<Rightarrow> bool \<times> random_util" where
  "IsThisPercentHappen global_randomarray s percent =
     (let (random, s') = GetARandom global_randomarray s;
          num = int (unat (random mod 1000)) + 1
      in (num \<le> percent, s'))"

text \<open>The bytes of the table, least significant first, as a \<open>char *\<close> reads them.\<close>

definition bytes_of_u32 :: "u32 \<Rightarrow> u8 list" where
  "bytes_of_u32 w = map (\<lambda>k. ucast (drop_bit (8 * k) w)) [0, 1, 2, 3]"

definition random_bytes :: "u32 list \<Rightarrow> nat \<Rightarrow> nat \<Rightarrow> u8 list" where
  "random_bytes global_randomarray i n = take n (concat (map bytes_of_u32 (drop i global_randomarray)))"

lemma length_concat_u32: "length (concat (map bytes_of_u32 ws)) = 4 * length ws"
  by (induction ws) (simp_all add: bytes_of_u32_def)

lemma length_random_bytes:
  "4 * i + n \<le> 4 * length ws \<Longrightarrow> length (random_bytes ws i n) = n"
  by (simp add: random_bytes_def length_concat_u32)

text \<open>The static indices stay inside their tables.\<close>

definition random_ok :: "random_util \<Rightarrow> bool" where
  "random_ok s = (next_random s \<le> RandomNum \<and> box_index s < RandomNum - 256 \<and> box_restart s < 25
     \<and> in_box_index s \<le> 256)"

lemma random_ok_start [inv_intros]: "random_ok random_start"
  by (simp add: random_ok_def random_start_def RandomNum_def)

lemma bindex_small: "j < 25 \<Longrightarrow> bindex ! j < RandomNum - 256"
proof -
  assume "j < 25"
  then have "bindex ! j \<in> set bindex" by (intro nth_mem) (simp add: bindex_def)
  moreover have "\<forall>x \<in> set bindex. x < RandomNum - 256" by (simp add: bindex_def RandomNum_def)
  ultimately show ?thesis by blast
qed

lemma random_ok_GetARandom [inv_intros]: "random_ok s \<Longrightarrow> random_ok (snd (GetARandom ws s))"
  by (auto simp: random_ok_def GetARandom_def Let_def RandomNum_def)

lemma random_ok_getRandomInBox [inv_intros]: "random_ok s \<Longrightarrow> random_ok (snd (getRandomInBox b s))"
  by (auto simp: random_ok_def getRandomInBox_def Let_def RandomNum_def)

lemma random_ok_getBoxofRandoms [inv_intros]:
  assumes "random_ok s"
  shows "random_ok (snd (getBoxofRandoms s)) \<and> fst (getBoxofRandoms s) < RandomNum - 256"
  using assms bindex_small [of "box_restart s"]
  by (auto simp: random_ok_def getBoxofRandoms_def Let_def)

datatype random_call = Call_GetARandom | Call_getBoxofRandoms | Call_getRandomInBox "u8 list" | Call_percent int

fun random_step :: "u32 list \<Rightarrow> random_util \<Rightarrow> random_call \<Rightarrow> random_util" where
  "random_step ws s Call_GetARandom = snd (GetARandom ws s)"
| "random_step ws s Call_getBoxofRandoms = snd (getBoxofRandoms s)"
| "random_step ws s (Call_getRandomInBox b) = snd (getRandomInBox b s)"
| "random_step ws s (Call_percent p) = snd (IsThisPercentHappen ws s p)"

lemma random_ok_step: "random_ok s \<Longrightarrow> random_ok (random_step ws s c)"
  by (cases c) (auto simp: inv_intros IsThisPercentHappen_def split_beta Let_def)

lemma random_ok_run: "random_ok s \<Longrightarrow> random_ok (foldl (random_step ws) s cs)"
  by (induction cs arbitrary: s) (simp_all add: random_ok_step)

text \<open>
  Bounds of the random table: after any sequence of calls, the 256 bytes a
  session box may read through the pointer that \<open>getBoxofRandoms\<close> returns lie
  inside the table.
\<close>

theorem box_of_randoms_in_table:
  assumes "length ws = RandomNum" and "n \<le> 1024"
  shows "length (random_bytes ws (fst (getBoxofRandoms (foldl (random_step ws) random_start cs))) n) = n"
proof -
  have "random_ok (foldl (random_step ws) random_start cs)"
    by (intro random_ok_run random_ok_start)
  from random_ok_getBoxofRandoms [OF this] show ?thesis
    using assms by (intro length_random_bytes) (simp add: RandomNum_def)
qed

theorem box_of_randoms_in_table_witness:
  "length (random_bytes (replicate RandomNum 7) (fst (getBoxofRandoms random_start)) 128) = 128"
  using box_of_randoms_in_table [of "replicate RandomNum 7" 128 "[]"] by simp

end
