(* ===== verification/Message_Filter.thy ===== *)
theory Message_Filter
  imports Container_Device Cipher Random_Util
begin

section \<open>MyFilter: framing and encryption of a session's messages\<close>

text \<open>
  Models \<open>gateway_server/sdk/my_filter.h\<close>. A frame is a 16-bit length (least
  significant byte first) and the message, whose first two bytes are its identifier and
  whose other bytes are substituted through the box of the session. The message with
  identifier 1000 goes out in clear, with the 128 random bytes the peer makes the box
  from. Messages are the objects of \<open>Net_Message\<close>: the filter encrypts them in
  place. The memory, the random table's indices and the filter are the state; \<open>raw\<close>
  is what the array of a new message object holds.
\<close>

record my_filter =
  header_read :: bool
  header :: u16
  pBox :: "u8 list"

record filter_state =
  fs_mem :: mem
  fs_rand :: random_util
  fs_filter :: my_filter

datatype filter_error = BadAccess

definition MyFilter :: "u8 list \<Rightarrow> u16 \<Rightarrow> my_filter" where
  "MyFilter box0 header0 = \<lparr>header_read = False, header = header0, pBox = box0\<rparr>"

definition kHeaderSize :: nat where
  "kHeaderSize = 2"

definition ServerChallengeResponse_ID :: u16 where
  "ServerChallengeResponse_ID = 1000"

text \<open>\<open>accumulate\<close> with an \<open>int\<close> start; the sizes are far below its bound.\<close>

definition BytesWannaWrite :: "mem \<Rightarrow> nat list \<Rightarrow> nat" where
  "BytesWannaWrite s messages = foldl (\<lambda>sum i. sum + kHeaderSize + nm_size s i) 0 messages"

text \<open>
  \<open>*((unsigned short * )message.begin())\<close>: the array of a static message always
  has two bytes to read; a vector of fewer does not.
\<close>

definition message_id :: "mem \<Rightarrow> nat \<Rightarrow> u16 option" where
  "message_id s i = (case dynamic_data (objs s ! i) of
       None \<Rightarrow> Some (u16_le (static_data (objs s ! i)))
     | Some a \<Rightarrow> if length (heap s ! a) < 2 then None else Some (u16_le (heap s ! a)))"

text \<open>The length argument is \<open>(unsigned int)size - 2\<close>, which wraps.\<close>

definition payload_length :: "nat \<Rightarrow> nat" where
  "payload_length n = unat (word_of_nat n - 2 :: u32)"

definition encrypt_message :: "mem \<Rightarrow> nat \<Rightarrow> u8 list \<Rightarrow> filter_error + mem" where
  "encrypt_message s i box =
     (case encrypt (map byte_of (drop 2 (nm_bytes s i))) (payload_length (nm_size s i)) box of
        None \<Rightarrow> Inl BadAccess
      | Some out \<Rightarrow> Inr (overwrite s i 2 (map char_of_byte out)))"

text \<open>
  One turn of the loop of \<open>Write\<close> for a message that is not too large: the new
  state, the bytes appended to the buffer, and the count added to the result.
\<close>

definition write_challenge ::
  "u32 list \<Rightarrow> u8 list \<Rightarrow> filter_state \<Rightarrow> nat \<Rightarrow> filter_state \<times> string \<times> nat" where
  "write_challenge table global_aesbox st i =
     (let s = fs_mem st;
          headerlength = nm_size s i;
          head = word_of_nat headerlength + word_of_nat (2 * EXCHANGETIMES) :: u16;
          clear_text = take headerlength (nm_bytes s i);
          (p, rand) = getBoxofRandoms (fs_rand st);
          pRandoms = random_bytes table p (2 * EXCHANGETIMES);
          box = formNewBoxes global_aesbox pRandoms;
          s' = Write (clear s i) i (map char_of_byte pRandoms)
      in (st\<lparr>fs_mem := s', fs_rand := rand, fs_filter := (fs_filter st)\<lparr>pBox := box\<rparr>\<rparr>,
          le_u16 head @ clear_text @ nm_bytes s' i, nm_size s' i + kHeaderSize))"

definition write_message ::
  "u32 list \<Rightarrow> u8 list \<Rightarrow> filter_state \<Rightarrow> nat \<Rightarrow> filter_error + filter_state \<times> string \<times> nat" where
  "write_message table global_aesbox st i =
     (case message_id (fs_mem st) i of None \<Rightarrow> Inl BadAccess | Some ID \<Rightarrow>
        if ID \<noteq> ServerChallengeResponse_ID then
          bind_r (encrypt_message (fs_mem st) i (pBox (fs_filter st)))
            (\<lambda>s'. Inr (st\<lparr>fs_mem := s'\<rparr>,
                      le_u16 (word_of_nat (nm_size (fs_mem st) i)) @ nm_bytes s' i,
                      nm_size s' i + kHeaderSize))
        else Inr (write_challenge table global_aesbox st i))"

text \<open>
  \<open>Write\<close>: the bytes appended to the buffer, the value returned, and what is left
  of the message vector (a message that is too large ends the loop early).
\<close>

fun write_loop ::
  "u32 list \<Rightarrow> u8 list \<Rightarrow> filter_state \<Rightarrow> nat list \<Rightarrow> nat list \<Rightarrow> string \<Rightarrow> nat \<Rightarrow>
     filter_error + filter_state \<times> string \<times> nat \<times> nat list" where
  "write_loop table ga st all [] buffer result = Inr (st, buffer, result, [])"
| "write_loop table ga st all (i # is) buffer result =
     (if message_id (fs_mem st) i = None then Inl BadAccess
      else if nm_size (fs_mem st) i > 65535 then Inr (st, buffer, 0, all)
      else bind_r (write_message table ga st i)
             (\<lambda>(st', bytes, n). write_loop table ga st' all is (buffer @ bytes) (result + n)))"

definition FilterWrite ::
  "u32 list \<Rightarrow> u8 list \<Rightarrow> filter_state \<Rightarrow> nat list \<Rightarrow> string \<Rightarrow>
     filter_error + filter_state \<times> string \<times> nat \<times> nat list" where
  "FilterWrite table ga st messages buffer = write_loop table ga st messages messages buffer 0"

definition BytesWannaRead :: "my_filter \<Rightarrow> nat" where
  "BytesWannaRead f = (if \<not> header_read f then kHeaderSize else unat (header f))"

text \<open>
  The branch that decrypts ends without a \<open>return\<close>; the value only decides
  whether the caller prints a line, so it is not part of the result here.
\<close>

definition decryptMessage :: "mem \<Rightarrow> nat \<Rightarrow> u8 list \<Rightarrow> filter_error + mem" where
  "decryptMessage s i box =
     (case message_id s i of None \<Rightarrow> Inl BadAccess | Some ID \<Rightarrow>
        if ServerChallengeResponse_ID \<le> ID \<and> 3 < nm_size s i \<and> nm_size s i < 65535 then
          (case decrypt (map byte_of (drop 2 (nm_bytes s i))) (nm_size s i - 2) box of
             None \<Rightarrow> Inl BadAccess
           | Some (r, out) \<Rightarrow> Inr (overwrite s i 2 (map char_of_byte out)))
        else Inr s)"

definition FilterRead ::
  "string \<Rightarrow> filter_state \<Rightarrow> nat list \<Rightarrow> string \<Rightarrow> filter_error + filter_state \<times> nat list \<times> nat" where
  "FilterRead raw st messages buffer =
     (let f = fs_filter st in
      if \<not> header_read f then
        if length buffer < 2 then Inl BadAccess
        else Inr (st\<lparr>fs_filter := f\<lparr>header := u16_le buffer, header_read := True\<rparr>\<rparr>, messages, kHeaderSize)
      else
        let i = length (objs (fs_mem st));
            s = Write (Reserve (NetMessage_new raw (fs_mem st)) i (unat (header f))) i buffer
        in bind_r (decryptMessage s i (pBox f))
             (\<lambda>s'. Inr (st\<lparr>fs_mem := s', fs_filter := f\<lparr>header_read := False\<rparr>\<rparr>,
                       messages @ [i], unat (header f))))"

text \<open>
  What a session does with a stream: it reads as many bytes as the filter wants and
  hands them over, and stops for good when the filter wants none.
\<close>

function feed ::
  "string \<Rightarrow> filter_state \<Rightarrow> nat list \<Rightarrow> string \<Rightarrow> filter_error + filter_state \<times> nat list \<times> string" where
  "feed raw st messages stream =
     (let n = BytesWannaRead (fs_filter st) in
      if n = 0 \<or> length stream < n then Inr (st, messages, stream)
      else bind_r (FilterRead raw st messages (take n stream))
             (\<lambda>(st', messages', _). feed raw st' messages' (drop n stream)))"
  by pat_completeness auto
termination
  by (relation "measure (\<lambda>(raw, st, messages, stream). length stream)") auto

declare feed.simps [simp del]

subsection \<open>Lemmas\<close>

definition sub_char :: "u8 list \<Rightarrow> char \<Rightarrow> char" where
  "sub_char box c = char_of_byte (box ! unat (byte_of c))"

text \<open>The message as it leaves the filter, and its frame.\<close>

definition sealed :: "u8 list \<Rightarrow> string \<Rightarrow> string" where
  "sealed box m = take 2 m @ map (sub_char box) (drop 2 m)"

definition frame :: "u8 list \<Rightarrow> string \<Rightarrow> string" where
  "frame box m = le_u16 (word_of_nat (length m)) @ sealed box m"

lemma length_sealed [simp]: "length (sealed box m) = length m"
  by (simp add: sealed_def)

lemma payload_length: "2 \<le> n \<Longrightarrow> n \<le> 65535 \<Longrightarrow> payload_length n = n - 2"
proof -
  assume n: "2 \<le> n" "n \<le> 65535"
  then have "word_of_nat n - 2 = (word_of_nat (n - 2) :: u32)" by (simp add: of_nat_diff)
  moreover have "unat (word_of_nat (n - 2) :: u32) = n - 2"
    using n by (simp add: unsigned_of_nat take_bit_nat_eq_self del: of_nat_diff)
  ultimately show ?thesis unfolding payload_length_def by (simp only:)
qed

lemma payload_length_short: "n < 2 \<Longrightarrow> 4294967294 \<le> payload_length n"
proof -
  assume "n < 2"
  then have "n = 0 \<or> n = 1" by auto
  then show ?thesis by (auto simp: payload_length_def unsigned_minus_1_eq_mask mask_eq_exp_minus_1)
qed

lemma message_id_bytes:
  assumes "mem_ok s" "i < length (objs s)" "2 \<le> nm_size s i"
  shows "message_id s i = Some (u16_le (nm_bytes s i))"
proof (cases "dynamic_data (objs s ! i)")
  case None
  have "u16_le (take (static_size (objs s ! i)) (static_data (objs s ! i))) = u16_le (static_data (objs s ! i))"
    using assms(3) None by (simp add: u16_le_def nm_size_def)
  then show ?thesis using None by (simp add: message_id_def nm_bytes_def)
next
  case (Some a)
  then show ?thesis using assms(3) by (simp add: message_id_def nm_bytes_def nm_size_def)
qed

lemma subst_loop_chars:
  "n = length m \<Longrightarrow> subst_loop box n 0 (map byte_of m) = Some (map (\<lambda>c. box ! unat (byte_of c)) m)"
  using subst_loop_map [of 0 n "map byte_of m" box] by (simp add: comp_def)

lemma encrypt_message_ok:
  assumes "mem_ok s" "i < length (objs s)" "2 \<le> nm_size s i" "nm_size s i \<le> 65535"
  shows "encrypt_message s i box = Inr (overwrite s i 2 (map (sub_char box) (drop 2 (nm_bytes s i))))"
proof -
  have "length (nm_bytes s i) = nm_size s i" using assms by (simp add: nm_size_bytes)
  then have "encrypt (map byte_of (drop 2 (nm_bytes s i))) (payload_length (nm_size s i)) box
      = Some (map (\<lambda>c. box ! unat (byte_of c)) (drop 2 (nm_bytes s i)))"
    using assms payload_length [of "nm_size s i"] unfolding encrypt_def
    by (intro subst_loop_chars) simp
  then show ?thesis by (simp add: encrypt_message_def sub_char_def [abs_def] comp_def)
qed

lemma dynamic_overwrite [frame_simps]:
  "dynamic_data (objs (overwrite s i p d) ! j) = dynamic_data (objs s ! j)"
  by (cases "i < length (objs s)"; cases "j = i")
    (auto simp: overwrite_def Let_def list_update_beyond not_less split: option.splits)

text \<open>Two objects share a vector.\<close>

definition shares :: "mem \<Rightarrow> nat \<Rightarrow> nat \<Rightarrow> bool" where
  "shares s i j = (is_dynamic (objs s ! i) \<and> dynamic_data (objs s ! j) = dynamic_data (objs s ! i))"

lemma shares_overwrite [frame_simps]: "shares (overwrite s i p d) j k = shares s j k"
  by (simp add: shares_def is_dynamic_def frame_simps)

lemma bytes_sealed:
  assumes "mem_ok s" "i < length (objs s)" "j < length (objs s)" "2 \<le> nm_size s i"
  shows "nm_bytes (overwrite s i 2 (map (sub_char box) (drop 2 (nm_bytes s i)))) j =
    (if j = i \<or> shares s i j then sealed box (nm_bytes s i) else nm_bytes s j)"
proof -
  have l: "length (nm_bytes s i) = nm_size s i" using assms by (simp add: nm_size_bytes)
  then have "2 + length (map (sub_char box) (drop 2 (nm_bytes s i))) \<le> nm_size s i"
    using assms(4) by simp
  from bytes_overwrite [OF assms(1,2) this assms(3)] show ?thesis
    using assms(4) l by (simp add: shares_def sealed_def blit_def)
qed

lemma mem_ok_sealed:
  assumes "mem_ok s" "i < length (objs s)" "2 \<le> nm_size s i"
  shows "mem_ok (overwrite s i 2 (map (sub_char box) (drop 2 (nm_bytes s i))))"
  using assms by (intro mem_ok_overwrite) (simp_all add: nm_size_bytes)

text \<open>An ordinary message: what \<open>Write\<close> makes of it.\<close>

definition ordinary :: "mem \<Rightarrow> nat \<Rightarrow> bool" where
  "ordinary s i = (i < length (objs s) \<and> 2 \<le> nm_size s i \<and> nm_size s i \<le> 65535 \<and>
     u16_le (nm_bytes s i) \<noteq> ServerChallengeResponse_ID)"

lemma write_ordinary:
  assumes "mem_ok (fs_mem st)" "ordinary (fs_mem st) i"
  shows "write_message table ga st i =
    Inr (st\<lparr>fs_mem := overwrite (fs_mem st) i 2 (map (sub_char (pBox (fs_filter st))) (drop 2 (nm_bytes (fs_mem st) i)))\<rparr>,
         frame (pBox (fs_filter st)) (nm_bytes (fs_mem st) i), length (nm_bytes (fs_mem st) i) + 2)"
proof -
  let ?s = "fs_mem st" let ?b = "pBox (fs_filter st)"
  let ?s' = "overwrite ?s i 2 (map (sub_char ?b) (drop 2 (nm_bytes ?s i)))"
  have o: "i < length (objs ?s)" "2 \<le> nm_size ?s i" "nm_size ?s i \<le> 65535"
    "u16_le (nm_bytes ?s i) \<noteq> ServerChallengeResponse_ID"
    using assms(2) by (simp_all add: ordinary_def)
  have id: "message_id ?s i = Some (u16_le (nm_bytes ?s i))"
    using message_id_bytes [OF assms(1) o(1,2)] .
  have b: "nm_bytes ?s' i = sealed ?b (nm_bytes ?s i)"
    using bytes_sealed [OF assms(1) o(1) o(1) o(2)] by simp
  have n: "nm_size ?s' i = length (nm_bytes ?s i)"
    using mem_ok_sealed [OF assms(1) o(1,2)] o(1) b by (simp add: nm_size_bytes frame_simps)
  show ?thesis
    using o id encrypt_message_ok [OF assms(1) o(1-3)] b n assms(1)
    by (simp add: write_message_def frame_def kHeaderSize_def nm_size_bytes)
qed

subsection \<open>A list of messages\<close>

definition unshared :: "mem \<Rightarrow> nat list \<Rightarrow> bool" where
  "unshared s is = (distinct is \<and> (\<forall>i \<in> set is. \<forall>j \<in> set is. i \<noteq> j \<longrightarrow> \<not> shares s i j))"

lemma write_loop_frames:
  assumes "mem_ok (fs_mem st)" "\<forall>i \<in> set is. ordinary (fs_mem st) i" "unshared (fs_mem st) is"
  defines "out \<equiv> concat (map (\<lambda>i. frame (pBox (fs_filter st)) (nm_bytes (fs_mem st) i)) is)"
  shows "\<exists>s'. write_loop table ga st all is buf r =
    Inr (st\<lparr>fs_mem := s'\<rparr>, buf @ out, r + length out, [])"
  using assms(1-3) unfolding out_def
proof (induction "is" arbitrary: st buf r)
  case Nil
  show ?case by (auto intro: exI [of _ "fs_mem st"])
next
  case (Cons i "is")
  let ?s = "fs_mem st" let ?b = "pBox (fs_filter st)"
  define s1 where "s1 = overwrite ?s i 2 (map (sub_char ?b) (drop 2 (nm_bytes ?s i)))"
  define st1 where "st1 = st\<lparr>fs_mem := s1\<rparr>"
  have o: "i < length (objs ?s)" "2 \<le> nm_size ?s i" "nm_size ?s i \<le> 65535" "ordinary ?s i"
    using Cons.prems by (simp_all add: ordinary_def)
  have ok1: "mem_ok s1" unfolding s1_def using Cons.prems(1) o(1,2) by (rule mem_ok_sealed)
  have len1: "length (objs s1) = length (objs ?s)" by (simp add: s1_def frame_simps)
  have same: "nm_bytes s1 j = nm_bytes ?s j" if "j \<in> set is" for j
  proof -
    have j: "j < length (objs ?s)" "j \<noteq> i" "\<not> shares ?s i j"
      using that Cons.prems by (auto simp: ordinary_def unshared_def)
    from bytes_sealed [OF Cons.prems(1) o(1) j(1) o(2), of ?b] j(2,3) show ?thesis
      by (simp add: s1_def)
  qed
  have "ordinary s1 j" if "j \<in> set is" for j
  proof -
    have j: "ordinary ?s j" using that Cons.prems by simp
    then have "nm_size s1 j = nm_size ?s j"
      using same [OF that] nm_size_bytes [OF ok1, of j] nm_size_bytes [OF Cons.prems(1), of j] len1
      by (simp add: ordinary_def)
    with j same [OF that] len1 show ?thesis by (simp add: ordinary_def)
  qed
  then have ord: "\<forall>j \<in> set is. ordinary s1 j" by blast
  have un: "unshared s1 is" using Cons.prems(3) by (simp add: unshared_def s1_def frame_simps)
  have fs: "fs_mem st1 = s1" "fs_filter st1 = fs_filter st" by (simp_all add: st1_def)
  let ?buf = "buf @ frame ?b (nm_bytes ?s i)" let ?r = "r + (length (nm_bytes ?s i) + 2)"
  obtain s' where s': "write_loop table ga st1 all is ?buf ?r =
    Inr (st1\<lparr>fs_mem := s'\<rparr>, ?buf @ concat (map (\<lambda>i. frame ?b (nm_bytes s1 i)) is),
      ?r + length (concat (map (\<lambda>i. frame ?b (nm_bytes s1 i)) is)), [])"
    using Cons.IH [of st1 ?buf ?r, unfolded fs, OF ok1 ord un] by blast
  have maps: "map (\<lambda>i. frame ?b (nm_bytes s1 i)) is = map (\<lambda>i. frame ?b (nm_bytes ?s i)) is"
    using same by simp
  have "message_id ?s i = Some (u16_le (nm_bytes ?s i))"
    using message_id_bytes [OF Cons.prems(1) o(1,2)] .
  moreover have "write_message table ga st i =
      Inr (st1, frame ?b (nm_bytes ?s i), length (nm_bytes ?s i) + 2)"
    using write_ordinary [OF Cons.prems(1) o(4), of table ga] by (simp add: st1_def s1_def)
  ultimately have "write_loop table ga st all (i # is) buf r =
      write_loop table ga st1 all is (buf @ frame ?b (nm_bytes ?s i)) (r + (length (nm_bytes ?s i) + 2))"
    using o(3) by simp
  then show ?case unfolding s' maps
    by (intro exI [of _ s']) (simp add: st1_def frame_def)
qed

subsection \<open>The receiving side\<close>

lemma Reserve_new:
  fixes s
  defines "i \<equiv> length (objs s)"
  assumes "mem_ok s" "length raw = kDynamicThreshold"
  shows "mem_ok (Reserve (NetMessage_new raw s) i h)"
    and "length (objs (Reserve (NetMessage_new raw s) i h)) = Suc i"
    and "j \<le> i \<Longrightarrow> nm_bytes (Reserve (NetMessage_new raw s) i h) j = (if j = i then [] else nm_bytes s j)"
  using assms by (simp_all add: inv_intros frame_simps bytes_Reserve bytes_new)

lemma addr_Write:
  "i < length (objs s) \<Longrightarrow> dynamic_data (objs (Write s i d) ! i) = Some a \<Longrightarrow>
     dynamic_data (objs s ! i) = Some a \<or> length (heap s) \<le> a"
  by (cases "is_dynamic (objs s ! i)")
    (auto simp: Write_def vec_append_def SetDynamic_def Let_def is_dynamic_def split: if_splits)

lemma addr_Reserve:
  "i < length (objs s) \<Longrightarrow> dynamic_data (objs (Reserve s i n) ! i) = Some a \<Longrightarrow>
     dynamic_data (objs s ! i) = Some a \<or> length (heap s) \<le> a"
  by (auto simp: Reserve_def SetDynamic_def Let_def is_dynamic_def split: if_splits)

lemma heap_Reserve: "length (heap s) \<le> length (heap (Reserve s i n))"
  by (simp add: Reserve_def SetDynamic_def Let_def)

lemma dynamic_Write_other: "j \<noteq> i \<Longrightarrow> dynamic_data (objs (Write s i d) ! j) = dynamic_data (objs s ! j)"
  by (simp add: Write_def vec_append_def SetDynamic_def Let_def)

lemma dynamic_Reserve_other: "j \<noteq> i \<Longrightarrow> dynamic_data (objs (Reserve s i n) ! j) = dynamic_data (objs s ! j)"
  by (simp add: Reserve_def SetDynamic_def Let_def)

lemma new_addr:
  fixes raw h d
  assumes "mem_ok s"
  defines "t \<equiv> Write (Reserve (NetMessage_new raw s) (length (objs s)) h) (length (objs s)) d"
  shows "dynamic_data (objs t ! length (objs s)) = Some a \<Longrightarrow> length (heap s) \<le> a"
    and "j < length (objs s) \<Longrightarrow> dynamic_data (objs t ! j) = dynamic_data (objs s ! j)"
proof -
  let ?i = "length (objs s)" let ?n = "NetMessage_new raw s"
  have n: "?i < length (objs ?n)" "dynamic_data (objs ?n ! ?i) = None" "heap ?n = heap s"
    by (simp_all add: NetMessage_new_def)
  assume a: "dynamic_data (objs t ! ?i) = Some a"
  have "?i < length (objs (Reserve ?n ?i h))" using n(1) by (simp add: frame_simps)
  from addr_Write [OF this a [unfolded t_def]] show "length (heap s) \<le> a"
    using addr_Reserve [OF n(1), of h a] n(2,3) heap_Reserve [of ?n ?i h] by auto
next
  assume "j < length (objs s)"
  then show "dynamic_data (objs t ! j) = dynamic_data (objs s ! j)"
    by (simp add: t_def dynamic_Write_other dynamic_Reserve_other) (simp add: NetMessage_new_def nth_append)
qed

lemma new_not_shared:
  fixes raw h d
  assumes "mem_ok s" "j < length (objs s)"
  defines "t \<equiv> Write (Reserve (NetMessage_new raw s) (length (objs s)) h) (length (objs s)) d"
  shows "\<not> shares t (length (objs s)) j"
proof
  assume "shares t (length (objs s)) j"
  then obtain a where a: "dynamic_data (objs t ! length (objs s)) = Some a" "dynamic_data (objs t ! j) = Some a"
    by (auto simp: shares_def is_dynamic_def)
  have "length (heap s) \<le> a" using new_addr(1) [OF assms(1)] a(1) by (simp add: t_def)
  moreover have "a < length (heap s)"
    using new_addr(2) [OF assms(1,2)] a(2) mem_ok_nth [OF assms(1,2)] by (auto simp: t_def dest: nm_ok_dynamic)
  ultimately show False by simp
qed

text \<open>The message is one the receiving filter takes to be encrypted.\<close>

definition sealable :: "string \<Rightarrow> bool" where
  "sealable m = (ServerChallengeResponse_ID \<le> u16_le m \<and> 3 < length m \<and> length m < 65535)"

definition inverse_boxes :: "u8 list \<Rightarrow> u8 list \<Rightarrow> bool" where
  "inverse_boxes box ibox = (\<forall>c :: u8. ibox ! unat (box ! unat c) = c)"

lemma sealed_inverse: "inverse_boxes box ibox \<Longrightarrow> sealed ibox (sealed box m) = m"
proof -
  assume "inverse_boxes box ibox"
  then have "sub_char ibox (sub_char box c) = c" for c
    by (simp add: sub_char_def inverse_boxes_def)
  moreover have "take 2 (sealed box m) = take 2 m" "drop 2 (sealed box m) = map (sub_char box) (drop 2 m)"
    by (cases "2 \<le> length m"; simp add: sealed_def)+
  ultimately show ?thesis by (simp add: sealed_def [of ibox] comp_def)
qed

lemma u16_le_sealed: "2 \<le> length m \<Longrightarrow> u16_le (sealed box m) = u16_le m"
  by (simp add: u16_le_def sealed_def nth_append)

lemma read_sealed:
  assumes ok: "mem_ok (fs_mem r)" and raw: "length raw = kDynamicThreshold"
    and hr: "header_read (fs_filter r)" and m: "sealable m" and inv: "inverse_boxes box (pBox (fs_filter r))"
  shows "\<exists>s'. FilterRead raw r ms (sealed box m) =
      Inr (r\<lparr>fs_mem := s', fs_filter := (fs_filter r)\<lparr>header_read := False\<rparr>\<rparr>,
           ms @ [length (objs (fs_mem r))], unat (header (fs_filter r))) \<and>
    mem_ok s' \<and> length (objs s') = Suc (length (objs (fs_mem r))) \<and>
    (\<forall>j \<le> length (objs (fs_mem r)). nm_bytes s' j = (if j = length (objs (fs_mem r)) then m else nm_bytes (fs_mem r) j))"
proof -
  let ?s = "fs_mem r" let ?i = "length (objs ?s)" let ?b = "pBox (fs_filter r)"
  let ?h = "unat (header (fs_filter r))"
  define t where "t = Write (Reserve (NetMessage_new raw ?s) ?i ?h) ?i (sealed box m)"
  have t: "mem_ok t" "length (objs t) = Suc ?i"
    "\<And>j. j \<le> ?i \<Longrightarrow> nm_bytes t j = (if j = ?i then sealed box m else nm_bytes ?s j)"
    using Reserve_new [OF ok raw, where h = ?h] by (simp_all add: t_def inv_intros frame_simps bytes_Write)
  have i: "?i < length (objs t)" using t(2) by simp
  have n: "nm_size t ?i = length m" using t by (simp add: nm_size_bytes)
  have m': "2 \<le> length m" "3 < length m" "length m < 65535" "ServerChallengeResponse_ID \<le> u16_le m"
    using m by (simp_all add: sealable_def)
  have id: "message_id t ?i = Some (u16_le m)"
    using message_id_bytes [OF t(1) i] n m' t(3) by (simp add: u16_le_sealed)
  define s' where "s' = overwrite t ?i 2 (map (sub_char ?b) (drop 2 (nm_bytes t ?i)))"
  have "decrypt (map byte_of (drop 2 (nm_bytes t ?i))) (nm_size t ?i - 2) ?b =
      Some (True, map (\<lambda>c. ?b ! unat (byte_of c)) (drop 2 (nm_bytes t ?i)))"
    unfolding decrypt_def using n t(3) by (subst subst_loop_chars) simp_all
  then have d: "decryptMessage t ?i ?b = Inr s'"
    using id m' n by (simp add: decryptMessage_def s'_def sub_char_def [abs_def] comp_def)
  have bytes: "nm_bytes s' j = (if j = ?i then m else nm_bytes ?s j)" if j: "j \<le> ?i" for j
  proof -
    have "nm_bytes s' j = (if j = ?i \<or> shares t ?i j then sealed ?b (nm_bytes t ?i) else nm_bytes t j)"
      unfolding s'_def using t n m' j by (intro bytes_sealed) simp_all
    moreover have "j \<noteq> ?i \<Longrightarrow> \<not> shares t ?i j"
      using new_not_shared [OF ok, of j] j by (simp add: t_def)
    ultimately show ?thesis using t(3) j sealed_inverse [OF inv] by simp
  qed
  have "mem_ok s'" unfolding s'_def using t(1) i n m' by (intro mem_ok_sealed) simp_all
  moreover have "length (objs s') = Suc ?i" by (simp add: s'_def frame_simps t(2))
  ultimately show ?thesis using d hr bytes
    by (intro exI [of _ s']) (simp add: FilterRead_def Let_def t_def [symmetric])
qed

lemma feed_frame:
  assumes ok: "mem_ok (fs_mem r)" and raw: "length raw = kDynamicThreshold"
    and hr: "\<not> header_read (fs_filter r)" and m: "sealable m" and inv: "inverse_boxes box (pBox (fs_filter r))"
  shows "\<exists>r'. feed raw r ms (frame box m @ rest) = feed raw r' (ms @ [length (objs (fs_mem r))]) rest \<and>
    mem_ok (fs_mem r') \<and> length (objs (fs_mem r')) = Suc (length (objs (fs_mem r))) \<and>
    \<not> header_read (fs_filter r') \<and> pBox (fs_filter r') = pBox (fs_filter r) \<and>
    (\<forall>j \<le> length (objs (fs_mem r)). nm_bytes (fs_mem r') j =
       (if j = length (objs (fs_mem r)) then m else nm_bytes (fs_mem r) j))"
proof -
  let ?n = "word_of_nat (length m) :: u16"
  have m': "length m < 65535" "m \<noteq> []" using m by (auto simp: sealable_def)
  then have n: "unat ?n = length m" by (simp add: unsigned_of_nat take_bit_nat_eq_self)
  define r1 where "r1 = r\<lparr>fs_filter := (fs_filter r)\<lparr>header := ?n, header_read := True\<rparr>\<rparr>"
  have r1: "fs_mem r1 = fs_mem r" "header_read (fs_filter r1)" "pBox (fs_filter r1) = pBox (fs_filter r)"
    "header (fs_filter r1) = ?n" by (simp_all add: r1_def)
  have "feed raw r ms (frame box m @ rest) = feed raw r1 ms (sealed box m @ rest)"
    using hr by (subst feed.simps)
      (simp add: BytesWannaRead_def kHeaderSize_def frame_def FilterRead_def r1_def Let_def)
  moreover obtain s' where s': "FilterRead raw r1 ms (sealed box m) =
      Inr (r1\<lparr>fs_mem := s', fs_filter := (fs_filter r1)\<lparr>header_read := False\<rparr>\<rparr>,
           ms @ [length (objs (fs_mem r))], unat ?n)" "mem_ok s'" "length (objs s') = Suc (length (objs (fs_mem r)))"
    "\<forall>j \<le> length (objs (fs_mem r)). nm_bytes s' j = (if j = length (objs (fs_mem r)) then m else nm_bytes (fs_mem r) j)"
    using read_sealed [of r1 raw m box ms] r1 ok raw m inv by auto
  moreover have "feed raw r1 ms (sealed box m @ rest) =
      feed raw (r1\<lparr>fs_mem := s', fs_filter := (fs_filter r1)\<lparr>header_read := False\<rparr>\<rparr>)
        (ms @ [length (objs (fs_mem r))]) rest"
    using r1 n m' s'(1) by (subst feed.simps) (simp add: BytesWannaRead_def Let_def)
  ultimately show ?thesis using r1
    by (intro exI [of _ "r1\<lparr>fs_mem := s', fs_filter := (fs_filter r1)\<lparr>header_read := False\<rparr>\<rparr>"]) simp
qed

lemma feed_frames:
  assumes "mem_ok (fs_mem r)" "length raw = kDynamicThreshold" "\<not> header_read (fs_filter r)"
    and "\<forall>m \<in> set msgs. sealable m" "inverse_boxes box (pBox (fs_filter r))"
    and "\<forall>i \<in> set ms. i < length (objs (fs_mem r))"
  shows "\<exists>r' ms'. feed raw r ms (concat (map (frame box) msgs)) = Inr (r', ms @ ms', []) \<and>
    map (nm_bytes (fs_mem r')) (ms @ ms') = map (nm_bytes (fs_mem r)) ms @ msgs"
  using assms
proof (induction msgs arbitrary: r ms)
  case Nil
  then show ?case
    by (intro exI [of _ r] exI [of _ "[]"]) (simp add: feed.simps BytesWannaRead_def kHeaderSize_def)
next
  case (Cons m msgs)
  let ?i = "length (objs (fs_mem r))"
  obtain r1 where r1: "feed raw r ms (frame box m @ concat (map (frame box) msgs)) =
      feed raw r1 (ms @ [?i]) (concat (map (frame box) msgs))"
    "mem_ok (fs_mem r1)" "length (objs (fs_mem r1)) = Suc ?i" "\<not> header_read (fs_filter r1)"
    "pBox (fs_filter r1) = pBox (fs_filter r)"
    "\<forall>j \<le> ?i. nm_bytes (fs_mem r1) j = (if j = ?i then m else nm_bytes (fs_mem r) j)"
    using feed_frame [of r raw m box ms "concat (map (frame box) msgs)"] Cons.prems by auto
  have "\<forall>i \<in> set (ms @ [?i]). i < length (objs (fs_mem r1))"
    using Cons.prems(6) r1(3) by auto
  then obtain r' ms' where r': "feed raw r1 (ms @ [?i]) (concat (map (frame box) msgs)) =
      Inr (r', (ms @ [?i]) @ ms', [])"
    "map (nm_bytes (fs_mem r')) ((ms @ [?i]) @ ms') = map (nm_bytes (fs_mem r1)) (ms @ [?i]) @ msgs"
    using Cons.IH [of r1 "ms @ [?i]"] Cons.prems r1 by auto
  have "map (nm_bytes (fs_mem r1)) ms = map (nm_bytes (fs_mem r)) ms"
    using Cons.prems(6) r1(6) by (auto simp: less_imp_le)
  with r1 r' show ?case
    by (intro exI [of _ r'] exI [of _ "?i # ms'"]) simp
qed

subsection \<open>Properties\<close>

text \<open>
  C2. Round trip of the wire format: messages written by one filter (each of 4 to 65534
  bytes with an identifier above 1000, which is the challenge that goes out in clear, no
  two sharing a vector) are recovered, in order and byte for byte, by a session whose
  filter holds the inverse box; the value \<open>Write\<close> returns is the number of bytes it
  wrote, and it leaves no message unsent.
\<close>

theorem filter_round_trip:
  assumes "mem_ok (fs_mem st)" "unshared (fs_mem st) is"
    and "\<forall>i \<in> set is. ordinary (fs_mem st) i \<and> sealable (nm_bytes (fs_mem st) i)"
    and "mem_ok (fs_mem r)" "\<not> header_read (fs_filter r)" "length raw = kDynamicThreshold"
    and "inverse_boxes (pBox (fs_filter st)) (pBox (fs_filter r))"
  shows "\<exists>st' wire r' ms. FilterWrite table ga st is [] = Inr (st', wire, length wire, []) \<and>
    feed raw r [] wire = Inr (r', ms, []) \<and>
    map (nm_bytes (fs_mem r')) ms = map (nm_bytes (fs_mem st)) is"
proof -
  let ?msgs = "map (nm_bytes (fs_mem st)) is" let ?b = "pBox (fs_filter st)"
  have "\<forall>i \<in> set is. ordinary (fs_mem st) i" using assms(3) by blast
  from write_loop_frames [OF assms(1) this assms(2), of table ga "is" "[]" 0]
  obtain s' where w: "FilterWrite table ga st is [] =
      Inr (st\<lparr>fs_mem := s'\<rparr>, concat (map (frame ?b) ?msgs), length (concat (map (frame ?b) ?msgs)), [])"
    unfolding FilterWrite_def by (auto simp: comp_def)
  have "\<forall>m \<in> set ?msgs. sealable m" using assms(3) by auto
  from feed_frames [OF assms(4,6,5) this assms(7), of "[]"]
  obtain r' ms where "feed raw r [] (concat (map (frame ?b) ?msgs)) = Inr (r', ms, [])"
    "map (nm_bytes (fs_mem r')) ms = ?msgs" by auto
  with w show ?thesis by blast
qed

text \<open>A box that is its own inverse, for the examples.\<close>

definition xor_box :: "u8 list" where
  "xor_box = map (\<lambda>n. word_of_nat n XOR 0x55) [0..<256]"

lemma xor_box_nth: "xor_box ! unat (a :: u8) = a XOR 0x55"
  using byte_less [of a] by (simp add: xor_box_def)

lemma xor_box_inverse: "inverse_boxes xor_box xor_box"
  by (simp add: inverse_boxes_def xor_box_nth xor.assoc)

definition one_message :: "string \<Rightarrow> filter_state" where
  "one_message m = \<lparr>fs_mem = \<lparr>objs = [\<lparr>static_size = 0, static_data = replicate 128 CHR 0x00, dynamic_data = Some 0\<rparr>],
       heap = [m]\<rparr>, fs_rand = random_start, fs_filter = MyFilter xor_box 0\<rparr>"

definition no_message :: filter_state where
  "no_message = \<lparr>fs_mem = \<lparr>objs = [], heap = []\<rparr>, fs_rand = random_start, fs_filter = MyFilter xor_box 0\<rparr>"

lemma one_message_ok:
  "mem_ok (fs_mem (one_message m))" "nm_bytes (fs_mem (one_message m)) 0 = m"
  "length (objs (fs_mem (one_message m))) = 1" "nm_size (fs_mem (one_message m)) 0 = length m"
  "unshared (fs_mem (one_message m)) [0]"
  by (simp_all add: one_message_def mem_ok_def nm_ok_def kDynamicThreshold_def nm_bytes_def nm_size_def
      unshared_def)

lemma no_message_ok: "mem_ok (fs_mem no_message)" "\<not> header_read (fs_filter no_message)"
  by (simp_all add: no_message_def mem_ok_def MyFilter_def)

theorem filter_round_trip_witness:
  "\<exists>st' wire r' ms. FilterWrite [] [] (one_message [CHR 0xF2, CHR 0x03, CHR ''h'', CHR ''i'']) [0] [] =
      Inr (st', wire, length wire, []) \<and>
    feed (replicate 128 CHR 0x00) no_message [] wire = Inr (r', ms, []) \<and>
    map (nm_bytes (fs_mem r')) ms = [[CHR 0xF2, CHR 0x03, CHR ''h'', CHR ''i'']]"
proof -
  let ?m = "[CHR 0xF2, CHR 0x03, CHR ''h'', CHR ''i'']"
  let ?s = "one_message ?m"
  have m: "u16_le ?m = 1010" by (simp add: u16_le_def byte_of_def)
  have "\<forall>i \<in> set [0]. ordinary (fs_mem ?s) i \<and> sealable (nm_bytes (fs_mem ?s) i)"
    using one_message_ok [of ?m] m
    by (simp add: ordinary_def sealable_def ServerChallengeResponse_ID_def)
  moreover have "length (replicate 128 CHR 0x00) = kDynamicThreshold" by (simp add: kDynamicThreshold_def)
  moreover have "inverse_boxes (pBox (fs_filter ?s)) (pBox (fs_filter no_message))"
    by (simp add: one_message_def no_message_def MyFilter_def xor_box_inverse)
  ultimately show ?thesis
    using filter_round_trip [OF one_message_ok(1) one_message_ok(5) _ no_message_ok, of ?m "replicate 128 CHR 0x00" "[]" "[]"]
    by (simp add: one_message_ok)
qed

text \<open>
  Encryption is in place: when two messages share a vector (a message sent to
  two sessions), the second session's filter encrypts what the first one's has already
  encrypted, and its peer receives the message sealed by both boxes.
\<close>

theorem shared_message_sealed_twice:
  assumes "mem_ok (fs_mem st)" "ordinary (fs_mem st) i" "j < length (objs (fs_mem st))"
    and "shares (fs_mem st) i j"
  shows "\<exists>st1 st3. FilterWrite table ga st [i] [] =
      Inr (st1, frame (pBox (fs_filter st)) (nm_bytes (fs_mem st) i), nm_size (fs_mem st) i + 2, []) \<and>
    FilterWrite table ga (st2\<lparr>fs_mem := fs_mem st1\<rparr>) [j] [] =
      Inr (st3, frame (pBox (fs_filter st2)) (sealed (pBox (fs_filter st)) (nm_bytes (fs_mem st) i)),
           nm_size (fs_mem st) i + 2, [])"
proof -
  let ?s = "fs_mem st" let ?b = "pBox (fs_filter st)"
  let ?s1 = "overwrite ?s i 2 (map (sub_char ?b) (drop 2 (nm_bytes ?s i)))"
  have o: "i < length (objs ?s)" "2 \<le> nm_size ?s i" "nm_size ?s i \<le> 65535"
    "u16_le (nm_bytes ?s i) \<noteq> ServerChallengeResponse_ID"
    using assms(2) by (simp_all add: ordinary_def)
  have n: "nm_size ?s i = length (nm_bytes ?s i)" using assms(1) o(1) by (rule nm_size_bytes)
  have id: "message_id ?s i = Some (u16_le (nm_bytes ?s i))" using message_id_bytes [OF assms(1) o(1,2)] .
  then have 1: "FilterWrite table ga st [i] [] = Inr (st\<lparr>fs_mem := ?s1\<rparr>, frame ?b (nm_bytes ?s i), nm_size ?s i + 2, [])"
    using write_ordinary [OF assms(1,2), of table ga] o(3) n by (simp add: FilterWrite_def)
  have ok1: "mem_ok ?s1" by (rule mem_ok_sealed [OF assms(1) o(1,2)])
  have b1: "nm_bytes ?s1 j = sealed ?b (nm_bytes ?s i)"
    using bytes_sealed [OF assms(1) o(1) assms(3) o(2)] assms(4) by simp
  have j1: "j < length (objs ?s1)" using assms(3) by (simp add: frame_simps)
  have n1: "nm_size ?s1 j = nm_size ?s i" using nm_size_bytes [OF ok1 j1] b1 n by simp
  have ord: "ordinary ?s1 j" using j1 n1 o b1 n by (simp add: ordinary_def u16_le_sealed)
  have id1: "message_id ?s1 j = Some (u16_le (nm_bytes ?s1 j))"
    using message_id_bytes [OF ok1 j1] n1 o(2) by simp
  then have "\<exists>st3. FilterWrite table ga (st2\<lparr>fs_mem := ?s1\<rparr>) [j] [] =
      Inr (st3, frame (pBox (fs_filter st2)) (nm_bytes ?s1 j), nm_size ?s i + 2, [])"
    using write_ordinary [of "st2\<lparr>fs_mem := ?s1\<rparr>" j table ga] ok1 ord n1 o(3) b1 n
    by (simp add: FilterWrite_def)
  with 1 b1 show ?thesis by - (rule exI [of _ "st\<lparr>fs_mem := ?s1\<rparr>"], simp)
qed

theorem shared_message_sealed_twice_witness:
  "\<exists>s st1 st3.
    FilterWrite [] [] (no_message\<lparr>fs_mem := s\<rparr>) [0] [] =
      Inr (st1, frame xor_box [CHR 0xF2, CHR 0x03, CHR ''h'', CHR ''i''], 6, []) \<and>
    FilterWrite [] [] (no_message\<lparr>fs_mem := fs_mem st1\<rparr>) [1] [] =
      Inr (st3, le_u16 4 @ [CHR 0xF2, CHR 0x03, CHR ''h'', CHR ''i''], 6, [])"
proof -
  let ?m = "[CHR 0xF2, CHR 0x03, CHR ''h'', CHR ''i'']"
  let ?s = "\<lparr>objs = replicate 2 \<lparr>static_size = 0, static_data = replicate 128 CHR 0x00, dynamic_data = Some 0\<rparr>,
        heap = [?m]\<rparr>"
  let ?st = "no_message\<lparr>fs_mem := ?s\<rparr>"
  have m: "u16_le ?m = 1010" by (simp add: u16_le_def byte_of_def)
  have ok: "mem_ok (fs_mem ?st)" "1 < length (objs (fs_mem ?st))" "shares (fs_mem ?st) 0 1"
    "nm_bytes (fs_mem ?st) 0 = ?m" "nm_size (fs_mem ?st) 0 = 4"
    by (simp_all add: mem_ok_def nm_ok_def kDynamicThreshold_def shares_def is_dynamic_def numeral_2_eq_2 nm_bytes_def nm_size_def)
  have ord: "ordinary (fs_mem ?st) 0"
    using m by (simp add: ordinary_def nm_size_def nm_bytes_def ServerChallengeResponse_ID_def)
  have p: "pBox (fs_filter ?st) = xor_box" "pBox (fs_filter no_message) = xor_box"
    by (simp_all add: no_message_def MyFilter_def)
  have f: "frame xor_box (sealed xor_box ?m) = le_u16 4 @ ?m"
    by (simp add: frame_def sealed_inverse [OF xor_box_inverse] del: le_u16_def)
  from shared_message_sealed_twice [OF ok(1) ord ok(2,3), of "[]" "[]" no_message, unfolded ok(4,5) p f]
  obtain st1 st3 where "FilterWrite [] [] ?st [0] [] = Inr (st1, frame xor_box ?m, 4 + 2, []) \<and>
    FilterWrite [] [] (no_message\<lparr>fs_mem := fs_mem st1\<rparr>) [1] [] = Inr (st3, le_u16 4 @ ?m, 4 + 2, [])"
    by blast
  then show ?thesis
    by (intro exI [of _ ?s] exI [of _ st1] exI [of _ st3]) simp
qed

text \<open>
  The clear challenge: for a message of \<open>n\<close> bytes with identifier 1000 the
  filter writes \<open>n + 130\<close> bytes, with \<open>n + 128\<close> modulo 65536 in the length
  field, and installs the box the 128 trailing bytes determine; but it returns 130, not the
  number of bytes written.
\<close>

theorem challenge_message:
  assumes "mem_ok (fs_mem st)" "i < length (objs (fs_mem st))" "2 \<le> nm_size (fs_mem st) i"
    and "nm_size (fs_mem st) i \<le> 65535" "u16_le (nm_bytes (fs_mem st) i) = 1000"
    and "length table = RandomNum" "random_ok (fs_rand st)"
  shows "\<exists>st' key. length key = 128 \<and> FilterWrite table ga st [i] [] =
      Inr (st', le_u16 (word_of_nat (nm_size (fs_mem st) i + 128)) @ nm_bytes (fs_mem st) i @ map char_of_byte key, 130, []) \<and>
    pBox (fs_filter st') = formNewBoxes ga key"
proof -
  let ?s = "fs_mem st" let ?p = "fst (getBoxofRandoms (fs_rand st))"
  let ?key = "random_bytes table ?p 128"
  let ?s' = "Write (clear ?s i) i (map char_of_byte ?key)"
  have id: "message_id ?s i = Some 1000" using message_id_bytes [OF assms(1-3)] assms(5) by simp
  have key: "length ?key = 128"
    using random_ok_getBoxofRandoms [OF assms(7)] assms(6)
    by (intro length_random_bytes) (simp add: RandomNum_def)
  have i': "i < length (objs (clear ?s i))" "mem_ok (clear ?s i)"
    using assms(1,2) by (simp_all add: inv_intros frame_simps)
  have b: "nm_bytes ?s' i = map char_of_byte ?key"
    using i' assms(1,2) by (simp add: bytes_Write bytes_clear)
  have "mem_ok ?s'" "i < length (objs ?s')" using i' by (simp_all add: inv_intros frame_simps)
  then have n: "nm_size ?s' i = 128" using b key by (simp add: nm_size_bytes)
  have l: "take (nm_size ?s i) (nm_bytes ?s i) = nm_bytes ?s i" using assms(1,2) by (simp add: nm_size_bytes)
  have "write_challenge table ga st i =
      (st\<lparr>fs_mem := ?s', fs_rand := snd (getBoxofRandoms (fs_rand st)),
          fs_filter := (fs_filter st)\<lparr>pBox := formNewBoxes ga ?key\<rparr>\<rparr>,
       le_u16 (word_of_nat (nm_size ?s i + 128)) @ nm_bytes ?s i @ map char_of_byte ?key, 130)"
    using b n l by (simp add: write_challenge_def Let_def split_beta EXCHANGETIMES_def kHeaderSize_def)
  then show ?thesis
    using id assms(4) key
    by (intro exI [of _ "st\<lparr>fs_mem := ?s', fs_rand := snd (getBoxofRandoms (fs_rand st)),
          fs_filter := (fs_filter st)\<lparr>pBox := formNewBoxes ga ?key\<rparr>\<rparr>"] exI [of _ ?key])
      (simp add: FilterWrite_def write_message_def ServerChallengeResponse_ID_def)
qed

theorem challenge_message_witness:
  "\<exists>st' key. length key = 128 \<and>
    FilterWrite (replicate RandomNum 7) base_box (one_message [CHR 0xE8, CHR 0x03, CHR ''!'']) [0] [] =
      Inr (st', le_u16 131 @ [CHR 0xE8, CHR 0x03, CHR ''!''] @ map char_of_byte key, 130, [])"
proof -
  let ?m = "[CHR 0xE8, CHR 0x03, CHR ''!'']"
  let ?s = "one_message ?m"
  have "0 < length (objs (fs_mem ?s))" "2 \<le> nm_size (fs_mem ?s) 0" "nm_size (fs_mem ?s) 0 \<le> 65535"
    "length (replicate RandomNum (7::u32)) = RandomNum"
    by (simp_all add: one_message_ok)
  moreover have "u16_le (nm_bytes (fs_mem ?s) 0) = 1000"
    by (simp add: one_message_ok u16_le_def byte_of_def)
  moreover have "random_ok (fs_rand ?s)" by (simp add: one_message_def random_ok_start)
  ultimately show ?thesis
    using challenge_message [OF one_message_ok(1), of 0 ?m "replicate RandomNum 7" base_box]
    by (auto simp: one_message_ok)
qed

text \<open>
  Which messages are decrypted: \<open>Write\<close> encrypts the payload of every message
  but the challenge, but \<open>Read\<close> decrypts only identifiers from 1000 up and sizes
  from 4 to 65534; a smaller message or identifier arrives still sealed, whatever the
  boxes.
\<close>

theorem unsealable_message_stays_sealed:
  assumes "mem_ok (fs_mem r)" "length raw = kDynamicThreshold" "\<not> header_read (fs_filter r)"
    and "2 \<le> length m" "length m \<le> 65535" "\<not> sealable m"
  shows "\<exists>r'. feed raw r [] (frame box m) = Inr (r', [length (objs (fs_mem r))], []) \<and>
    nm_bytes (fs_mem r') (length (objs (fs_mem r))) = sealed box m"
proof -
  let ?n = "word_of_nat (length m) :: u16" let ?s = "fs_mem r" let ?i = "length (objs ?s)"
  have n: "unat ?n = length m" using assms(5) by (simp add: unsigned_of_nat take_bit_nat_eq_self)
  define r1 where "r1 = r\<lparr>fs_filter := (fs_filter r)\<lparr>header := ?n, header_read := True\<rparr>\<rparr>"
  define t where "t = Write (Reserve (NetMessage_new raw ?s) ?i (length m)) ?i (sealed box m)"
  define r2 where "r2 = r1\<lparr>fs_mem := t, fs_filter := (fs_filter r1)\<lparr>header_read := False\<rparr>\<rparr>"
  have ne: "m \<noteq> []" using assms(4) by auto
  have t: "mem_ok t" "?i < length (objs t)" "nm_bytes t ?i = sealed box m"
    using Reserve_new [OF assms(1,2), where h = "length m"] by (simp_all add: t_def inv_intros frame_simps bytes_Write)
  then have sz: "nm_size t ?i = length m" by (simp add: nm_size_bytes)
  have "message_id t ?i = Some (u16_le m)"
    using message_id_bytes [OF t(1,2)] sz assms(4) t(3) by (simp add: u16_le_sealed)
  then have "decryptMessage t ?i (pBox (fs_filter r1)) = Inr t"
    using assms(6) sz by (auto simp: decryptMessage_def sealable_def)
  then have "FilterRead raw r1 [] (sealed box m) = Inr (r2, [?i], length m)"
    using n by (simp add: FilterRead_def Let_def r1_def r2_def flip: t_def)
  then have "feed raw r1 [] (sealed box m) = feed raw r2 [?i] []"
    using n ne by (subst feed.simps) (simp add: BytesWannaRead_def Let_def r1_def)
  moreover have "feed raw r [] (frame box m) = feed raw r1 [] (sealed box m)"
    using assms(3) by (subst feed.simps)
      (simp add: BytesWannaRead_def kHeaderSize_def frame_def FilterRead_def r1_def Let_def)
  moreover have "feed raw r2 [?i] [] = Inr (r2, [?i], [])"
    by (subst feed.simps) (simp add: BytesWannaRead_def kHeaderSize_def r2_def)
  ultimately show ?thesis using t(3) by (intro exI [of _ r2]) (simp add: r2_def)
qed

theorem unsealable_message_stays_sealed_witness:
  "\<exists>r'. feed (replicate 128 CHR 0x00) no_message [] (frame xor_box [CHR 0xF2, CHR 0x03, CHR ''x'']) =
      Inr (r', [0], []) \<and> nm_bytes (fs_mem r') 0 = [CHR 0xF2, CHR 0x03, CHR ''-'']"
proof -
  let ?m = "[CHR 0xF2, CHR 0x03, CHR ''x'']"
  have "length (replicate 128 CHR 0x00) = kDynamicThreshold" "2 \<le> length ?m" "length ?m \<le> 65535"
    "\<not> sealable ?m" by (simp_all add: kDynamicThreshold_def sealable_def)
  note w = unsealable_message_stays_sealed [OF no_message_ok(1) this(1) no_message_ok(2) this(2-4), of xor_box]
  have "sub_char xor_box CHR ''x'' = CHR ''-''"
    by (simp only: sub_char_def xor_box_nth, code_simp)
  then have "sealed xor_box ?m = [CHR 0xF2, CHR 0x03, CHR ''-'']" by (simp add: sealed_def)
  moreover have "length (objs (fs_mem no_message)) = 0" by (simp add: no_message_def)
  ultimately show ?thesis using w by metis
qed

text \<open>
  A frame of length zero ends the reading of a session: the filter then wants no
  bytes, and whatever else arrives stays unread.
\<close>

theorem zero_length_frame_stops_reading:
  assumes "\<not> header_read (fs_filter r)"
  shows "\<exists>r'. feed raw r ms (le_u16 0 @ rest) = Inr (r', ms, rest) \<and> fs_mem r' = fs_mem r \<and>
    (\<forall>more. feed raw r' ms more = Inr (r', ms, more))"
  using assms
  by (intro exI [of _ "r\<lparr>fs_filter := (fs_filter r)\<lparr>header := 0, header_read := True\<rparr>\<rparr>"])
    (simp add: feed.simps [of raw] BytesWannaRead_def kHeaderSize_def FilterRead_def Let_def)

theorem zero_length_frame_stops_reading_witness:
  "\<exists>r'. feed [] no_message [] (le_u16 0 @ ''rest'') = Inr (r', [], ''rest'')"
  using zero_length_frame_stops_reading [OF no_message_ok(2)] by blast

end
