(* ===== verification/Tcp_Session.thy ===== *)
theory Tcp_Session
  imports Message_Filter
begin

section \<open>TCPSession: asynchronous reads, writes and closing\<close>

text \<open>
  Models \<open>gateway_server/sdk/tcp_session.h\<close> and \<open>tcp_session.cc\<close>. A
  handler of the class is a function from the session to the new session and the
  actions it takes: the asynchronous operations it starts, what it posts to the
  threads, what it does to the socket and to the queue of its thread. The filter is
  a parameter, the four functions of \<open>NetMessageFilterInterface\<close>. The
  environment (completions, timers, calls through the queue) is the step relation at
  the end, over the session and what is outstanding.
\<close>

text \<open>\<open>NetMessageFilterInterface\<close>: the four operations over filter states and messages.\<close>

record ('f, 'm) filter_ops =
  wants_write :: "'f \<Rightarrow> 'm list \<Rightarrow> nat"
  filter_write :: "'f \<Rightarrow> 'm list \<Rightarrow> string \<Rightarrow> filter_error + 'f \<times> string \<times> 'm list"
  wants_read :: "'f \<Rightarrow> nat"
  filter_read :: "'f \<Rightarrow> 'm list \<Rightarrow> string \<Rightarrow> filter_error + 'f \<times> 'm list \<times> nat"

record ('f, 'm) session =
  sid :: u32
  sfilter :: 'f
  messages_received :: "'m list"
  messages_to_be_sent :: "'m list"
  buffer_to_be_sent :: string
  buffer_sending :: string
  num_handlers :: int
  closed :: bool
  activeClosed :: bool
  waitingRead :: bool
  receive_delay :: "nat option"
  lastReceiveDataTime :: int

datatype 'm action =
    Async_read nat
  | Async_read_some nat
  | Async_write string
  | Post_delivery
  | Start_receive_timer
  | Cancel_receive_timer
  | Pack_messages "'m list"
  | Post_OnSessionClose u32
  | Shutdown_socket
  | Close_socket
  | Queue_add u32
  | Queue_remove u32

datatype session_error = SessionAssert | FilterFailed filter_error

definition kInvalidTCPSessionID :: u32 where
  "kInvalidTCPSessionID = 0"

definition SIZE_MAX :: nat where
  "SIZE_MAX = 2 ^ 64 - 1"

definition TCPSession :: "'f \<Rightarrow> ('f, 'm) session" where
  "TCPSession f = \<lparr>sid = kInvalidTCPSessionID, sfilter = f, messages_received = [], messages_to_be_sent = [],
     buffer_to_be_sent = [], buffer_sending = [], num_handlers = 0, closed = False, activeClosed = False,
     waitingRead = False, receive_delay = None, lastReceiveDataTime = 2\<rparr>"

subsection \<open>The handlers\<close>

text \<open>
  The end of \<open>Init\<close> and of \<open>HandleRead\<close>: the next read, of exactly the
  bytes the filter wants, of some bytes, or none. \<open>cap\<close> is the capacity of the
  receive buffer.
\<close>

definition start_read ::
  "('f, 'm) filter_ops \<Rightarrow> nat \<Rightarrow> ('f, 'm) session \<Rightarrow> ('f, 'm) session \<times> 'm action list" where
  "start_read F cap s =
     (let n = wants_read F (sfilter s) in
      if n = 0 then (s, [])
      else (s\<lparr>num_handlers := num_handlers s + 1, waitingRead := True\<rparr>,
            [if n = SIZE_MAX then Async_read_some cap else Async_read n]))"

definition PostMessageList ::
  "('f, 'm) filter_ops \<Rightarrow> ('f, 'm) session \<Rightarrow> 'm list \<Rightarrow> session_error + ('f, 'm) session \<times> 'm action list" where
  "PostMessageList F s messageList =
     (if closed s then Inr (s, [])
      else if messages_to_be_sent s \<noteq> [] then Inl SessionAssert
      else let s1 = s\<lparr>messages_to_be_sent := messageList\<rparr> in
        if wants_write F (sfilter s) messageList = 0 then Inr (s1, [])
        else case filter_write F (sfilter s) messageList (buffer_to_be_sent s) of
          Inl e \<Rightarrow> Inl (FilterFailed e)
        | Inr (f, buffer, _) \<Rightarrow>
            let s2 = s1\<lparr>sfilter := f, buffer_to_be_sent := buffer, messages_to_be_sent := []\<rparr> in
            if buffer_sending s = []
            then Inr (s2\<lparr>buffer_sending := buffer, buffer_to_be_sent := [], num_handlers := num_handlers s + 1\<rparr>,
                      [Async_write buffer])
            else Inr (s2, []))"

text \<open>\<open>added\<close>: what \<open>session_queue().Add\<close> returned.\<close>

definition Init ::
  "('f, 'm) filter_ops \<Rightarrow> nat \<Rightarrow> bool \<Rightarrow> ('f, 'm) session \<Rightarrow> u32 \<Rightarrow>
     session_error + ('f, 'm) session \<times> 'm action list" where
  "Init F cap added s i =
     (if sid s \<noteq> kInvalidTCPSessionID then Inl SessionAssert
      else if \<not> added then Inl SessionAssert
      else let (s', acts) = start_read F cap (s\<lparr>sid := i\<rparr>) in Inr (s', Queue_add i # acts))"

definition PackMessageList :: "('f, 'm) session \<Rightarrow> ('f, 'm) session \<times> 'm action list" where
  "PackMessageList s =
     (if messages_received s = [] then (s, [])
      else (s\<lparr>messages_received := []\<rparr>, [Pack_messages (messages_received s)]))"

text \<open>On the main thread the messages go straight to the handler, if it still exists.\<close>

definition SendMessageListDirectly :: "bool \<Rightarrow> ('f, 'm) session \<Rightarrow> ('f, 'm) session \<times> 'm action list" where
  "SendMessageListDirectly has_handler s =
     (if \<not> has_handler then (s, [])
      else (s\<lparr>messages_received := []\<rparr>, [Pack_messages (messages_received s)]))"

definition HandleReceiveTimer ::
  "bool \<Rightarrow> bool \<Rightarrow> ('f, 'm) session \<Rightarrow> bool \<Rightarrow> ('f, 'm) session \<times> 'm action list" where
  "HandleReceiveTimer main_thread has_handler s err =
     (if err then (s, [])
      else if main_thread then SendMessageListDirectly has_handler s
      else PackMessageList s)"

definition HandleClose :: "('f, 'm) session \<Rightarrow> ('f, 'm) session \<times> 'm action list" where
  "HandleClose s =
     (if num_handlers s > 0 \<or> activeClosed s then (s, [])
      else let (s', pack) = PackMessageList s in
        (s', [Post_OnSessionClose (sid s), Shutdown_socket, Cancel_receive_timer] @ pack @
             [Close_socket, Queue_remove (sid s)]))"

definition HandleRead ::
  "('f, 'm) filter_ops \<Rightarrow> nat \<Rightarrow> int \<Rightarrow> ('f, 'm) session \<Rightarrow> bool \<Rightarrow> string \<Rightarrow>
     session_error + ('f, 'm) session \<times> 'm action list" where
  "HandleRead F cap GlobalTime s err bytes =
     (let s1 = s\<lparr>lastReceiveDataTime := GlobalTime, num_handlers := num_handlers s - 1, waitingRead := True\<rparr> in
      if num_handlers s1 < 0 then Inl SessionAssert
      else if err \<or> closed s then Inr (HandleClose (s1\<lparr>closed := True\<rparr>))
      else case filter_read F (sfilter s) (messages_received s) bytes of
        Inl e \<Rightarrow> Inl (FilterFailed e)
      | Inr (f, ms, bytes_read) \<Rightarrow>
          if bytes_read \<noteq> length bytes then Inl SessionAssert
          else let s2 = s1\<lparr>sfilter := f, messages_received := ms\<rparr>;
                   wanna_post = (messages_received s = [] \<and> ms \<noteq> []);
                   post = (if wanna_post
                           then if receive_delay s = None then [Post_delivery] else [Start_receive_timer]
                           else []);
                   (s3, acts) = start_read F cap s2
               in Inr (s3, post @ acts))"

definition HandleWrite ::
  "('f, 'm) filter_ops \<Rightarrow> ('f, 'm) session \<Rightarrow> bool \<Rightarrow> session_error + ('f, 'm) session \<times> 'm action list" where
  "HandleWrite F s err =
     (let s1 = s\<lparr>num_handlers := num_handlers s - 1\<rparr> in
      if num_handlers s1 < 0 then Inl SessionAssert
      else if err then Inr (HandleClose (s1\<lparr>closed := True\<rparr>))
      else let s2 = s1\<lparr>buffer_sending := []\<rparr> in
        if buffer_to_be_sent s = [] \<and> wants_write F (sfilter s) (messages_to_be_sent s) = 0
        then Inr (if closed s then HandleClose s2 else (s2, []))
        else
          bind_r (if buffer_to_be_sent s = []
                  then case filter_write F (sfilter s) (messages_to_be_sent s) [] of
                         Inl e \<Rightarrow> Inl (FilterFailed e)
                       | Inr (f, buffer, rest) \<Rightarrow>
                           Inr (s2\<lparr>sfilter := f, buffer_to_be_sent := buffer, messages_to_be_sent := rest\<rparr>)
                  else Inr s2)
            (\<lambda>s3. Inr (s3\<lparr>buffer_sending := buffer_to_be_sent s3, buffer_to_be_sent := [],
                          num_handlers := num_handlers s3 + 1\<rparr>, [Async_write (buffer_to_be_sent s3)])))"

definition Close :: "('f, 'm) session \<Rightarrow> ('f, 'm) session \<times> 'm action list" where
  "Close s = (if closed s then (s, []) else HandleClose (s\<lparr>closed := True\<rparr>))"

definition getNotActiveTime :: "int \<Rightarrow> ('f, 'm) session \<Rightarrow> int" where
  "getNotActiveTime GlobalTime s = GlobalTime - lastReceiveDataTime s"

definition activeClose :: "('f, 'm) session \<Rightarrow> ('f, 'm) session \<times> 'm action list" where
  "activeClose s =
     (let (s', pack) = PackMessageList (s\<lparr>activeClosed := True\<rparr>) in
      (s', [Post_OnSessionClose (sid s), Shutdown_socket, Cancel_receive_timer] @ pack @
           [Close_socket, Queue_remove (sid s)]))"

definition closeSocketBeforeInit :: "('f, 'm) session \<Rightarrow> ('f, 'm) session \<times> 'm action list" where
  "closeSocketBeforeInit s = (s, [Close_socket])"

subsection \<open>What the session needs of its filter\<close>

locale message_filter =
  fixes F :: "('f, 'm) filter_ops"
    and good :: "'f \<Rightarrow> 'm list \<Rightarrow> bool"
    and same :: "'f \<Rightarrow> 'f \<Rightarrow> bool"
  assumes wants_nothing: "wants_write F f ms = 0 \<longleftrightarrow> ms = []"
    and write_appends: "good f ms \<Longrightarrow> ms \<noteq> [] \<Longrightarrow> filter_write F f ms buf = Inr (f', buf', rest) \<Longrightarrow>
          (\<exists>out. out \<noteq> [] \<and> buf' = buf @ out) \<and> rest = [] \<and> wants_read F f' = wants_read F f"
    and write_anywhere: "filter_write F f ms buf = bind_r (filter_write F f ms []) (\<lambda>(f', out, rest). Inr (f', buf @ out, rest))"
    and read_counts: "length bytes = wants_read F f \<Longrightarrow> filter_read F f ms bytes = Inr (f', ms', n) \<Longrightarrow>
          n = length bytes"
    and read_anywhere: "filter_read F f ms bytes = bind_r (filter_read F f [] bytes) (\<lambda>(f', new, n). Inr (f', ms @ new, n))"
    and wants_exactly: "wants_read F f < SIZE_MAX"
    and same_wants: "same f f' \<Longrightarrow> wants_read F f' = wants_read F f"

subsection \<open>The session and its environment\<close>

text \<open>
  \<open>reads\<close> are the sizes of the outstanding reads, \<open>writes\<close> the outstanding
  writes, \<open>deliveries\<close> the posted delivery tasks, \<open>timer\<close> the armed receive
  timer, \<open>close_posts\<close> how often \<open>OnSessionClose\<close> was posted, \<open>queued\<close>
  whether the thread's queue holds the session. \<open>delivered\<close>, \<open>sent\<close>,
  \<open>received\<close> and \<open>framed\<close> record history: the messages handed on, the
  bytes of completed writes, the messages that the filter makes of each read, with none
  before them, and the bytes it makes, on an empty buffer, of the message lists that were
  posted. \<open>broken\<close> is set by a write
  that fails.
\<close>

record ('f, 'm) world =
  ses :: "('f, 'm) session"
  reads :: "nat list"
  writes :: "string list"
  deliveries :: nat
  timer :: bool
  close_posts :: nat
  queued :: bool
  broken :: bool
  delivered :: "'m list"
  received :: "'m list"
  sent :: string
  framed :: string

fun act :: "('f, 'm) world \<Rightarrow> 'm action \<Rightarrow> ('f, 'm) world" where
  "act w (Async_read n) = w\<lparr>reads := reads w @ [n]\<rparr>"
| "act w (Async_read_some n) = w\<lparr>reads := reads w @ [n]\<rparr>"
| "act w (Async_write b) = w\<lparr>writes := writes w @ [b]\<rparr>"
| "act w Post_delivery = w\<lparr>deliveries := Suc (deliveries w)\<rparr>"
| "act w Start_receive_timer = w\<lparr>timer := True\<rparr>"
| "act w Cancel_receive_timer = w\<lparr>timer := False\<rparr>"
| "act w (Pack_messages ms) = w\<lparr>delivered := delivered w @ ms\<rparr>"
| "act w (Post_OnSessionClose i) = w\<lparr>close_posts := Suc (close_posts w)\<rparr>"
| "act w Shutdown_socket = w"
| "act w Close_socket = w"
| "act w (Queue_add i) = w\<lparr>queued := True\<rparr>"
| "act w (Queue_remove i) = w\<lparr>queued := False\<rparr>"

definition acts :: "('f, 'm) world \<Rightarrow> ('f, 'm) session \<times> 'm action list \<Rightarrow> ('f, 'm) world" where
  "acts w r = foldl act (w\<lparr>ses := fst r\<rparr>) (snd r)"

definition world_start :: "'f \<Rightarrow> ('f, 'm) world" where
  "world_start f = \<lparr>ses = TCPSession f, reads = [], writes = [], deliveries = 0, timer = False, close_posts = 0,
     queued = False, broken = False, delivered = [], received = [], sent = [], framed = []\<rparr>"

text \<open>
  The events of one session's thread: the initialisation by the manager, message
  lists posted through the queue, completions of reads and writes, delivery tasks, the
  receive timer, a change of the receive delay, the two ways of closing, and whatever
  the application does to the state it shares with the filter (\<open>same\<close> bounds it). A read
  that succeeds brings exactly the bytes asked for. \<open>good\<close> says which message
  lists the application posts.
\<close>

datatype ('f, 'm) event =
    E_init u32
  | E_post "'m list"
  | E_read bool string
  | E_write bool
  | E_deliver
  | E_timer bool
  | E_delay "nat option"
  | E_close
  | E_active_close
  | E_app 'f

fun enabled ::
  "('f \<Rightarrow> 'm list \<Rightarrow> bool) \<Rightarrow> ('f \<Rightarrow> 'f \<Rightarrow> bool) \<Rightarrow> ('f, 'm) world \<Rightarrow> ('f, 'm) event \<Rightarrow> bool" where
  "enabled good same w (E_init i) = (sid (ses w) = kInvalidTCPSessionID \<and> i \<noteq> kInvalidTCPSessionID)"
| "enabled good same w (E_post ms) = (queued w \<and> good (sfilter (ses w)) ms)"
| "enabled good same w (E_read err bytes) = (reads w \<noteq> [] \<and> (\<not> err \<longrightarrow> length bytes = hd (reads w)))"
| "enabled good same w (E_write err) = (writes w \<noteq> [])"
| "enabled good same w E_deliver = (0 < deliveries w)"
| "enabled good same w (E_timer err) = (err \<or> timer w)"
| "enabled good same w (E_delay d) = queued w"
| "enabled good same w E_close = queued w"
| "enabled good same w E_active_close = queued w"
| "enabled good same w (E_app f) = same (sfilter (ses w)) f"

text \<open>
  The session runs on a worker thread (\<open>thread_.id()\<close> is not the main thread),
  so that delivery is \<open>PackMessageList\<close>. Its queue refuses a session that it holds; other
  sessions have other identifiers. A write error marks the world as broken:
  what was in flight is lost.
\<close>

definition frames_of :: "('f, 'm) filter_ops \<Rightarrow> ('f, 'm) session \<Rightarrow> 'm list \<Rightarrow> string" where
  "frames_of F s ms =
     (if closed s \<or> ms = [] then []
      else case filter_write F (sfilter s) ms [] of Inl _ \<Rightarrow> [] | Inr (_, out, _) \<Rightarrow> out)"

definition messages_of :: "('f, 'm) filter_ops \<Rightarrow> ('f, 'm) session \<Rightarrow> bool \<Rightarrow> string \<Rightarrow> 'm list" where
  "messages_of F s err bytes =
     (if err \<or> closed s then []
      else case filter_read F (sfilter s) [] bytes of Inl _ \<Rightarrow> [] | Inr (_, new, _) \<Rightarrow> new)"

fun run_event ::
  "('f, 'm) filter_ops \<Rightarrow> nat \<Rightarrow> int \<Rightarrow> ('f, 'm) world \<Rightarrow> ('f, 'm) event \<Rightarrow> session_error + ('f, 'm) world" where
  "run_event F cap now w (E_init i) = bind_r (Init F cap (\<not> queued w) (ses w) i) (\<lambda>r. Inr (acts w r))"
| "run_event F cap now w (E_post ms) =
     bind_r (PostMessageList F (ses w) ms)
       (\<lambda>r. Inr ((acts w r)\<lparr>framed := framed w @ frames_of F (ses w) ms\<rparr>))"
| "run_event F cap now w (E_read err bytes) =
     bind_r (HandleRead F cap now (ses w) err bytes)
       (\<lambda>r. Inr ((acts (w\<lparr>reads := tl (reads w)\<rparr>) r)\<lparr>received := received w @ messages_of F (ses w) err bytes\<rparr>))"
| "run_event F cap now w (E_write err) =
     bind_r (HandleWrite F (ses w) err)
       (\<lambda>r. Inr (acts (w\<lparr>writes := tl (writes w), broken := broken w \<or> err,
                         sent := (if err then sent w else sent w @ hd (writes w))\<rparr>) r))"
| "run_event F cap now w E_deliver = Inr (acts (w\<lparr>deliveries := deliveries w - 1\<rparr>) (PackMessageList (ses w)))"
| "run_event F cap now w (E_timer err) =
     Inr (acts (if err then w else w\<lparr>timer := False\<rparr>) (HandleReceiveTimer False True (ses w) err))"
| "run_event F cap now w (E_delay d) = Inr (w\<lparr>ses := (ses w)\<lparr>receive_delay := d\<rparr>\<rparr>)"
| "run_event F cap now w E_close = Inr (acts w (Close (ses w)))"
| "run_event F cap now w E_active_close = Inr (acts w (activeClose (ses w)))"
| "run_event F cap now w (E_app f) = Inr (w\<lparr>ses := (ses w)\<lparr>sfilter := f\<rparr>\<rparr>)"

inductive session_run ::
  "('f, 'm) filter_ops \<Rightarrow> ('f \<Rightarrow> 'm list \<Rightarrow> bool) \<Rightarrow> ('f \<Rightarrow> 'f \<Rightarrow> bool) \<Rightarrow> nat \<Rightarrow> 'f \<Rightarrow>
     ('f, 'm) world \<Rightarrow> bool"
  for F good same cap f0 where
  init: "session_run F good same cap f0 (world_start f0)"
| step: "session_run F good same cap f0 w \<Longrightarrow> enabled good same w e \<Longrightarrow> run_event F cap now w e = Inr w' \<Longrightarrow>
    session_run F good same cap f0 w'"

text \<open>
  The invariant, in four parts: what is outstanding, the received messages, the
  closing, and the bytes.
\<close>

definition inv_count :: "('f, 'm) filter_ops \<Rightarrow> ('f, 'm) world \<Rightarrow> bool" where
  "inv_count F w =
     (num_handlers (ses w) = int (length (reads w) + length (writes w)) \<and>
      (reads w = [] \<or> reads w = [wants_read F (sfilter (ses w))]) \<and>
      length (writes w) \<le> 1 \<and> messages_to_be_sent (ses w) = [])"

definition inv_messages :: "('f, 'm) world \<Rightarrow> bool" where
  "inv_messages w =
     ((messages_received (ses w) \<noteq> [] \<longrightarrow> 0 < deliveries w \<or> timer w) \<and>
      received w = delivered w @ messages_received (ses w))"

definition inv_close :: "('f, 'm) world \<Rightarrow> bool" where
  "inv_close w =
     ((close_posts w = 0 \<or> close_posts w = 1 \<and> \<not> queued w) \<and>
      (close_posts w = 1 \<longrightarrow> activeClosed (ses w) \<or> reads w = [] \<and> writes w = []) \<and>
      (activeClosed (ses w) \<longrightarrow> close_posts w = 1) \<and>
      (sid (ses w) = kInvalidTCPSessionID \<longrightarrow> \<not> queued w \<and> reads w = [] \<and> writes w = [] \<and> close_posts w = 0))"

definition inv_bytes :: "('f, 'm) world \<Rightarrow> bool" where
  "inv_bytes w =
     ((broken w \<longrightarrow> closed (ses w) \<and> writes w = []) \<and>
      (\<not> broken w \<longrightarrow>
         (writes w = [] \<longrightarrow> buffer_sending (ses w) = [] \<and> buffer_to_be_sent (ses w) = []) \<and>
         (writes w \<noteq> [] \<longrightarrow> buffer_sending (ses w) \<noteq> [] \<and> writes w = [buffer_sending (ses w)]) \<and>
         framed w = sent w @ buffer_sending (ses w) @ buffer_to_be_sent (ses w)))"

definition session_inv :: "('f, 'm) filter_ops \<Rightarrow> ('f, 'm) world \<Rightarrow> bool" where
  "session_inv F w = (inv_count F w \<and> inv_messages w \<and> inv_close w \<and> inv_bytes w)"

lemmas inv_defs = session_inv_def inv_count_def inv_messages_def inv_close_def inv_bytes_def

lemma inv_start: "session_inv F (world_start f)"
  by (simp add: inv_defs world_start_def TCPSession_def kInvalidTCPSessionID_def)

text \<open>\<open>HandleClose\<close> as one update of the world.\<close>

definition closed_world :: "('f, 'm) world \<Rightarrow> ('f, 'm) session \<Rightarrow> ('f, 'm) world" where
  "closed_world w s =
     w\<lparr>ses := s\<lparr>messages_received := []\<rparr>, delivered := delivered w @ messages_received s,
       timer := False, close_posts := Suc (close_posts w), queued := False\<rparr>"

lemma acts_HandleClose:
  "acts w (HandleClose s) =
     (if num_handlers s > 0 \<or> activeClosed s then w\<lparr>ses := s\<rparr> else closed_world w s)"
  by (cases w; cases s) (simp add: acts_def HandleClose_def PackMessageList_def closed_world_def)

lemma acts_activeClose:
  "acts w (activeClose s) = closed_world w (s\<lparr>activeClosed := True\<rparr>)"
  by (cases w; cases s) (simp add: acts_def activeClose_def PackMessageList_def closed_world_def)

lemma acts_Pack:
  "acts w (PackMessageList s) =
     w\<lparr>ses := s\<lparr>messages_received := []\<rparr>, delivered := delivered w @ messages_received s\<rparr>"
  by (cases w; cases s) (simp add: acts_def PackMessageList_def)

lemma acts_none [simp]: "acts w (s, []) = w\<lparr>ses := s\<rparr>"
  by (simp add: acts_def)

text \<open>Closing keeps the invariant, once nothing is outstanding or by \<open>activeClose\<close>.\<close>

lemma inv_closed_world:
  assumes "session_inv F (w\<lparr>ses := s\<rparr>)" "close_posts w = 0" "reads w = [] \<and> writes w = [] \<or> activeClosed s'"
    and "s' = s \<or> s' = s\<lparr>activeClosed := True\<rparr>" "sid s \<noteq> kInvalidTCPSessionID"
  shows "session_inv F (closed_world w s')"
  using assms by (elim disjE) (simp_all add: inv_defs closed_world_def)

text \<open>Every event keeps the invariant.\<close>

lemma inv_event_deliver:
  "session_inv F w \<Longrightarrow> run_event F cap now w E_deliver = Inr w' \<Longrightarrow> session_inv F w'"
  by (simp add: acts_Pack, elim subst, simp add: inv_defs)

lemma inv_event_timer:
  "session_inv F w \<Longrightarrow> run_event F cap now w (E_timer err) = Inr w' \<Longrightarrow> session_inv F w'"
  by (cases err; simp add: HandleReceiveTimer_def acts_Pack; elim subst; simp add: inv_defs)

lemma inv_event_delay:
  "session_inv F w \<Longrightarrow> run_event F cap now w (E_delay d) = Inr w' \<Longrightarrow> session_inv F w'"
  by (simp, elim subst, simp add: inv_defs)

lemma queued_facts:
  "session_inv F w \<Longrightarrow> queued w \<Longrightarrow> close_posts w = 0 \<and> sid (ses w) \<noteq> kInvalidTCPSessionID \<and> \<not> activeClosed (ses w)"
  by (auto simp: inv_close_def session_inv_def)

lemma no_handlers_facts:
  "session_inv F w \<Longrightarrow> num_handlers (ses w) \<le> 0 \<Longrightarrow> reads w = [] \<and> writes w = []"
  by (auto simp: inv_count_def session_inv_def)

lemma ses_self [simp]: "w\<lparr>ses := ses w\<rparr> = (w :: ('f, 'm) world)"
  by simp

lemma inv_event_active_close:
  assumes "session_inv F w" "queued w" "run_event F cap now w E_active_close = Inr w'"
  shows "session_inv F w'"
proof -
  let ?s = "(ses w)\<lparr>activeClosed := True\<rparr>"
  have w': "w' = closed_world w ?s" using assms(3) by (simp add: acts_activeClose)
  show ?thesis
    unfolding w' using queued_facts [OF assms(1,2)] assms(1)
    by (intro inv_closed_world [where s = "ses w"]) simp_all
qed

lemma inv_event_close:
  assumes "session_inv F w" "queued w" "run_event F cap now w E_close = Inr w'"
  shows "session_inv F w'"
proof -
  let ?s = "(ses w)\<lparr>closed := True\<rparr>"
  have s: "session_inv F (w\<lparr>ses := ?s\<rparr>)" using assms(1) by (simp add: inv_defs)
  consider (idem) "w' = w" | (wait) "w' = w\<lparr>ses := ?s\<rparr>"
    | (now) "w' = closed_world w ?s" "num_handlers (ses w) \<le> 0"
    using assms(3) by (fastforce simp: Close_def acts_HandleClose split: if_splits)
  then show ?thesis
  proof cases
    case now
    then show ?thesis
      using queued_facts [OF assms(1,2)] no_handlers_facts [OF assms(1)] inv_closed_world [OF s, of ?s]
      by simp
  qed (use assms(1) s in simp_all)
qed

context message_filter
begin

lemma inv_event_init:
  assumes "session_inv F w" "enabled good same w (E_init i)" "run_event F cap now w (E_init i) = Inr w'"
  shows "session_inv F w'"
proof -
  have e: "sid (ses w) = kInvalidTCPSessionID" "i \<noteq> kInvalidTCPSessionID" using assms(2) by simp_all
  then have r: "reads w = []" "writes w = []" "close_posts w = 0" "num_handlers (ses w) = 0" "\<not> queued w"
    using assms(1) by (simp_all add: inv_defs)
  let ?n = "wants_read F (sfilter (ses w))"
  have "w' = (if ?n = 0 then w\<lparr>ses := (ses w)\<lparr>sid := i\<rparr>, queued := True\<rparr>
      else w\<lparr>ses := (ses w)\<lparr>sid := i, num_handlers := 1, waitingRead := True\<rparr>, queued := True, reads := [?n]\<rparr>)"
    using assms(3) e r wants_exactly [of "sfilter (ses w)"]
    by (cases w) (auto simp: Init_def start_read_def acts_def Let_def split: if_splits)
  then show ?thesis using assms(1) e(2) r by (simp add: inv_defs)
qed

lemma inv_event_post:
  assumes "session_inv F w" "enabled good same w (E_post ms)" "run_event F cap now w (E_post ms) = Inr w'"
  shows "session_inv F w'"
proof (cases "closed (ses w) \<or> ms = []")
  case True
  have t: "messages_to_be_sent (ses w) = []" using assms(1) by (simp add: inv_defs)
  have "(ses w)\<lparr>messages_to_be_sent := []\<rparr> = ses w" using t by (cases "ses w") simp
  then have "PostMessageList F (ses w) ms = Inr (ses w, [])"
    using True t by (auto simp: PostMessageList_def Let_def wants_nothing)
  moreover have "frames_of F (ses w) ms = []" using True by (simp add: frames_of_def)
  ultimately have "w' = w" using assms(3) by simp
  then show ?thesis using assms(1) by simp
next
  case False
  let ?s = "ses w"
  have t: "messages_to_be_sent ?s = []" "\<not> broken w" using assms(1) False by (auto simp: session_inv_def inv_count_def inv_bytes_def)
  then obtain f' buf' rest where wr: "filter_write F (sfilter ?s) ms (buffer_to_be_sent ?s) = Inr (f', buf', rest)"
    using assms(3) False by (auto simp: PostMessageList_def Let_def wants_nothing split: sum.splits)
  then obtain out where out: "out \<noteq> []" "buf' = buffer_to_be_sent ?s @ out"
      "wants_read F f' = wants_read F (sfilter ?s)"
    using assms(2) False write_appends [of "sfilter ?s" ms "buffer_to_be_sent ?s" f' buf' rest] by auto
  have fr: "frames_of F ?s ms = out"
    using wr out(2) False write_anywhere [of "sfilter ?s" ms "buffer_to_be_sent ?s"]
    by (auto simp: frames_of_def bind_r_eq_Inr)
  show ?thesis
  proof (cases "buffer_sending ?s = []")
    case idle: True
    then have n: "writes w = []" "buffer_to_be_sent ?s = []" using assms(1) t(2) by (auto simp: session_inv_def inv_bytes_def)
    moreover have "w' = w\<lparr>ses := ?s\<lparr>sfilter := f', messages_to_be_sent := [], buffer_sending := out,
        buffer_to_be_sent := [], num_handlers := num_handlers ?s + 1\<rparr>,
        writes := [out], framed := framed w @ out\<rparr>"
      using assms(3) False wr t(1) idle out n fr
      by (cases w) (simp add: PostMessageList_def Let_def wants_nothing acts_def)
    moreover have "close_posts w = 0 \<and> sid ?s \<noteq> kInvalidTCPSessionID" using queued_facts [OF assms(1)] assms(2) by simp
    ultimately show ?thesis using assms(1) out idle t(2) by (simp add: inv_defs)
  next
    case busy: False
    then have "w' = w\<lparr>ses := ?s\<lparr>sfilter := f', messages_to_be_sent := [], buffer_to_be_sent := buf'\<rparr>,
        framed := framed w @ out\<rparr>"
      using assms(3) False wr t(1) out fr
      by (cases w; cases "ses w") (simp add: PostMessageList_def Let_def wants_nothing)
    moreover have "writes w = [buffer_sending ?s]" using assms(1) t(2) busy by (auto simp: session_inv_def inv_bytes_def)
    ultimately show ?thesis using assms(1) out busy t(2) by (simp add: inv_defs)
  qed
qed

lemma inv_event_write:
  assumes "session_inv F w" "enabled good same w (E_write err)" "run_event F cap now w (E_write err) = Inr w'"
  shows "session_inv F w'"
proof -
  let ?s = "ses w"
  have wr: "writes w \<noteq> []" using assms(2) by simp
  then have b: "\<not> broken w" "writes w = [buffer_sending ?s]" "buffer_sending ?s \<noteq> []"
    using assms(1) by (auto simp: session_inv_def inv_bytes_def)
  have n: "num_handlers ?s = int (length (reads w)) + 1" "messages_to_be_sent ?s = []"
    using assms(1) b(2) by (simp_all add: session_inv_def inv_count_def)
  have c: "close_posts w = 1 \<longrightarrow> activeClosed ?s" "sid ?s \<noteq> kInvalidTCPSessionID" "close_posts w = 0 \<or> close_posts w = 1"
    using assms(1) b(2) by (auto simp: session_inv_def inv_close_def)
  let ?s1 = "?s\<lparr>num_handlers := int (length (reads w)), closed := True\<rparr>"
  let ?w1 = "w\<lparr>writes := [], broken := True\<rparr>"
  let ?s2 = "?s\<lparr>num_handlers := int (length (reads w)), buffer_sending := []\<rparr>"
  let ?w2 = "w\<lparr>writes := [], sent := sent w @ buffer_sending ?s\<rparr>"
  have i1: "session_inv F (?w1\<lparr>ses := ?s1\<rparr>)" using assms(1) n c by (auto simp: inv_defs)
  have i2: "buffer_to_be_sent ?s = [] \<Longrightarrow> session_inv F (?w2\<lparr>ses := ?s2\<rparr>)"
    using assms(1) n b c by (simp add: inv_defs)
  show ?thesis
  proof (cases err)
    case True
    then have "w' = acts ?w1 (HandleClose ?s1)"
      using assms(3) n b by (cases w) (simp add: HandleWrite_def Let_def)
    then have "w' = (if reads w \<noteq> [] \<or> activeClosed ?s then ?w1\<lparr>ses := ?s1\<rparr> else closed_world ?w1 ?s1)"
      by (simp add: acts_HandleClose)
    then show ?thesis
      using i1 c inv_closed_world [OF i1, of ?s1] by (auto split: if_splits)
  next
    case ok: False
    show ?thesis
    proof (cases "buffer_to_be_sent ?s = []")
      case True
      then have "w' = (if closed ?s then acts ?w2 (HandleClose ?s2) else ?w2\<lparr>ses := ?s2\<rparr>)"
        using assms(3) ok n b by (cases "closed ?s"; cases w) (simp_all add: HandleWrite_def Let_def wants_nothing)
      then have "w' = (if closed ?s \<and> reads w = [] \<and> \<not> activeClosed ?s then closed_world ?w2 ?s2 else ?w2\<lparr>ses := ?s2\<rparr>)"
        by (auto simp: acts_HandleClose)
      then show ?thesis
        using i2 [OF True] c inv_closed_world [OF i2 [OF True], of ?s2] by (auto split: if_splits)
    next
      case False
      then have "w' = ?w2\<lparr>ses := ?s\<lparr>buffer_sending := buffer_to_be_sent ?s, buffer_to_be_sent := []\<rparr>,
          writes := [buffer_to_be_sent ?s]\<rparr>"
        using assms(3) ok n b by (cases w; cases "ses w") (simp add: HandleWrite_def Let_def acts_def)
      then show ?thesis using assms(1) b n c False by (simp add: inv_defs)
    qed
  qed
qed

lemma act_received: "received (act w a) = received w"
  by (cases a) simp_all

lemma foldl_received: "received (foldl act w as) = received w"
  by (induction as arbitrary: w) (simp_all add: act_received)

lemma acts_received: "received (acts w r) = received w"
  by (simp add: acts_def foldl_received)

lemma same_received: "received w = m \<Longrightarrow> w\<lparr>received := m\<rparr> = w"
  by (cases w) simp

lemma inv_event_read:
  assumes "session_inv F w" "enabled good same w (E_read err bytes)" "run_event F cap now w (E_read err bytes) = Inr w'"
  shows "session_inv F w'"
proof -
  let ?s = "ses w" let ?f = "sfilter ?s"
  have r: "reads w = [wants_read F ?f]" using assms(1,2) by (auto simp: session_inv_def inv_count_def)
  have n: "num_handlers ?s = 1 + int (length (writes w))"
    using assms(1) r by (simp add: session_inv_def inv_count_def)
  have c: "close_posts w = 1 \<longrightarrow> activeClosed ?s" "sid ?s \<noteq> kInvalidTCPSessionID" "close_posts w = 0 \<or> close_posts w = 1"
    using assms(1) r by (auto simp: session_inv_def inv_close_def)
  let ?s1 = "?s\<lparr>lastReceiveDataTime := now, num_handlers := int (length (writes w)), waitingRead := True\<rparr>"
  let ?w1 = "w\<lparr>reads := []\<rparr>"
  show ?thesis
  proof (cases "err \<or> closed ?s")
    case True
    let ?s2 = "?s1\<lparr>closed := True\<rparr>"
    have i: "session_inv F (?w1\<lparr>ses := ?s2\<rparr>)" using assms(1) n c by (auto simp: inv_defs)
    have "w' = acts ?w1 (HandleClose ?s2)"
      using assms(3) True n r by (auto simp: HandleRead_def Let_def messages_of_def same_received acts_received)
    then have "w' = (if writes w \<noteq> [] \<or> activeClosed ?s then ?w1\<lparr>ses := ?s2\<rparr> else closed_world ?w1 ?s2)"
      by (simp add: acts_HandleClose)
    then show ?thesis using i c inv_closed_world [OF i, of ?s2] by (auto split: if_splits)
  next
    case False
    then have len: "length bytes = wants_read F ?f" using assms(2) r by simp
    obtain f' ms' k where rd: "filter_read F ?f (messages_received ?s) bytes = Inr (f', ms', k)"
      using assms(3) False n by (cases "filter_read F ?f (messages_received ?s) bytes") (auto simp: HandleRead_def Let_def)
    have kn: "k = length bytes" by (rule read_counts [OF len rd])
    obtain new where new: "filter_read F ?f [] bytes = Inr (f', new, k)" "ms' = messages_received ?s @ new"
      using rd read_anywhere [of ?f "messages_received ?s" bytes] by (cases "filter_read F ?f [] bytes") auto
    then have k: "k = length bytes" "ms' = messages_received ?s @ new" "messages_of F ?s err bytes = new"
      using kn False by (simp_all add: messages_of_def)
    let ?m = "wants_read F f'"
    let ?post = "messages_received ?s = [] \<and> new \<noteq> []"
    define s' where "s' = ?s1\<lparr>sfilter := f', messages_received := ms',
        num_handlers := int (length (writes w)) + (if ?m = 0 then 0 else 1)\<rparr>"
    define w2 where "w2 = w\<lparr>ses := s', reads := (if ?m = 0 then [] else [?m]), received := received w @ new,
        deliveries := (if ?post \<and> receive_delay ?s = None then Suc (deliveries w) else deliveries w),
        timer := (if ?post \<and> receive_delay ?s \<noteq> None then True else timer w)\<rparr>"
    have "HandleRead F cap now ?s err bytes = Inr (s', (if ?post
        then if receive_delay ?s = None then [Post_delivery] else [Start_receive_timer] else []) @
        (if ?m = 0 then [] else [Async_read ?m]))"
      using False n rd k wants_exactly [of f']
      by (cases "?m = 0") (simp_all add: HandleRead_def start_read_def Let_def s'_def)
    then have "w' = w2"
      using assms(3) False r k
      by (cases w) (auto simp: acts_def w2_def s'_def)
    moreover have "inv_count F w2" using assms(1) by (simp add: inv_count_def session_inv_def w2_def s'_def)
    moreover have "inv_messages w2"
      using assms(1) k by (cases "receive_delay ?s") (auto simp: inv_messages_def session_inv_def w2_def s'_def)
    moreover have "inv_close w2" using assms(1) c r by (simp add: inv_close_def session_inv_def w2_def s'_def)
    moreover have "inv_bytes w2" using assms(1) by (simp add: inv_bytes_def session_inv_def w2_def s'_def)
    ultimately show ?thesis by (simp add: session_inv_def)
  qed
qed

lemma inv_event:
  assumes "session_inv F w" "enabled good same w e" "run_event F cap now w e = Inr w'"
  shows "session_inv F w'"
proof (cases e)
  case (E_init i) then show ?thesis using inv_event_init [of w i] assms by blast
next
  case (E_post ms) then show ?thesis using inv_event_post [of w ms] assms by blast
next
  case (E_read err b) then show ?thesis using inv_event_read [of w err b] assms by blast
next
  case (E_write err) then show ?thesis using inv_event_write [of w err] assms by blast
next
  case E_deliver then show ?thesis using inv_event_deliver assms by blast
next
  case (E_timer err) then show ?thesis using inv_event_timer assms by blast
next
  case (E_delay d) then show ?thesis using inv_event_delay assms by blast
next
  case E_close then show ?thesis using inv_event_close [of F w] assms by simp
next
  case E_active_close then show ?thesis using inv_event_active_close [of F w] assms by simp
next
  case (E_app f)
  then have w': "w' = w\<lparr>ses := (ses w)\<lparr>sfilter := f\<rparr>\<rparr>" "wants_read F f = wants_read F (sfilter (ses w))"
    using assms same_wants [of "sfilter (ses w)" f] by simp_all
  show ?thesis using assms(1) unfolding w'(1) by (simp add: inv_defs w'(2))
qed

lemma session_run_inv: "session_run F good same cap f0 w \<Longrightarrow> session_inv F w"
  by (induction rule: session_run.induct) (auto intro: inv_start inv_event)

text \<open>No assertion of the class fails.\<close>

lemma no_assert:
  assumes "session_inv F w" "enabled good same w e"
  shows "run_event F cap now w e \<noteq> Inl SessionAssert"
proof -
  have i: "messages_to_be_sent (ses w) = []" "num_handlers (ses w) = int (length (reads w) + length (writes w))"
    "reads w = [] \<or> reads w = [wants_read F (sfilter (ses w))]"
    using assms(1) by (simp_all add: session_inv_def inv_count_def)
  show ?thesis
  proof (cases e)
    case (E_init j)
    then show ?thesis using assms by (auto simp: Init_def session_inv_def inv_close_def split: prod.splits)
  next
    case (E_post ms)
    then show ?thesis using i by (auto simp: PostMessageList_def Let_def bind_r_def split: sum.splits if_splits)
  next
    case (E_write err)
    then have "1 \<le> num_handlers (ses w)" using assms(2) i by (cases "writes w") auto
    then show ?thesis using E_write by (auto simp: HandleWrite_def Let_def bind_r_def split: sum.splits if_splits)
  next
    case (E_read err bytes)
    then have r: "reads w = [wants_read F (sfilter (ses w))]" using assms(2) i by auto
    show ?thesis
    proof (cases "err \<or> closed (ses w)")
      case True
      then show ?thesis using E_read i r by (auto simp: HandleRead_def Let_def)
    next
      case False
      then have "length bytes = wants_read F (sfilter (ses w))" using assms(2) E_read r by simp
      note rc = read_counts [OF this]
      show ?thesis
      proof (cases "filter_read F (sfilter (ses w)) (messages_received (ses w)) bytes")
        case (Inl x)
        then show ?thesis using E_read False i r by (simp add: HandleRead_def Let_def)
      next
        case (Inr y)
        then obtain f' ms' n where y: "y = (f', ms', n)" by (cases y) auto
        then have "n = length bytes" using rc Inr by blast
        then show ?thesis using E_read False i r Inr y
          by (simp add: HandleRead_def Let_def split: prod.splits)
      qed
    qed
  qed simp_all
qed

lemma outstanding_counts:
  "session_run F good same cap f0 w \<Longrightarrow> num_handlers (ses w) = int (length (reads w) + length (writes w)) \<and>
     length (reads w) \<le> 1 \<and> length (writes w) \<le> 1"
  by (drule session_run_inv) (auto simp: session_inv_def inv_count_def)

end


subsection \<open>MyFilter is such a filter\<close>

definition my_filter_ops :: "u32 list \<Rightarrow> u8 list \<Rightarrow> string \<Rightarrow> (filter_state, nat) filter_ops" where
  "my_filter_ops table ga raw =
     \<lparr>wants_write = (\<lambda>f ms. BytesWannaWrite (fs_mem f) ms),
      filter_write = (\<lambda>f ms buf. bind_r (FilterWrite table ga f ms buf) (\<lambda>(f', buf', n, rest). Inr (f', buf', rest))),
      wants_read = (\<lambda>f. BytesWannaRead (fs_filter f)),
      filter_read = (\<lambda>f ms bytes. FilterRead raw f ms bytes)\<rparr>"

text \<open>What the application posts: messages that exist and are not too large.\<close>

definition sendable :: "filter_state \<Rightarrow> nat list \<Rightarrow> bool" where
  "sendable f ms = (mem_ok (fs_mem f) \<and>
     (\<forall>i \<in> set ms. i < length (objs (fs_mem f)) \<and> nm_size (fs_mem f) i \<le> 65535))"

text \<open>The application changes the messages in memory, not the session's filter.\<close>

definition same_filter :: "filter_state \<Rightarrow> filter_state \<Rightarrow> bool" where
  "same_filter f f' = (fs_filter f' = fs_filter f)"

lemma BytesWannaWrite_0: "BytesWannaWrite s ms = 0 \<longleftrightarrow> ms = []"
proof -
  have "n + length ms \<le> foldl (\<lambda>sum i. sum + kHeaderSize + nm_size s i) n ms" for n
  proof (induction ms arbitrary: n)
    case (Cons i ms)
    from Cons.IH [of "n + kHeaderSize + nm_size s i"] show ?case by (simp add: kHeaderSize_def)
  qed simp
  from this [of 0] show ?thesis by (auto simp: BytesWannaWrite_def)
qed

lemma encrypt_message_sizes:
  assumes "mem_ok s" "i < length (objs s)" "nm_size s i \<le> 65535" "encrypt_message s i box = Inr s'"
  shows "mem_ok s' \<and> length (objs s') = length (objs s) \<and> (\<forall>j < length (objs s). nm_size s' j = nm_size s j)"
proof -
  have "2 \<le> nm_size s i"
  proof (rule ccontr)
    assume n: "\<not> 2 \<le> nm_size s i"
    then have "length (map byte_of (drop 2 (nm_bytes s i))) < payload_length (nm_size s i)"
      using payload_length_short [of "nm_size s i"] assms(1,2) by (simp add: nm_size_bytes)
    then show False using assms(4) subst_loop_out [of 0] by (simp add: encrypt_message_def encrypt_def)
  qed
  then have s': "s' = overwrite s i 2 (map (sub_char box) (drop 2 (nm_bytes s i)))"
    using assms encrypt_message_ok by simp
  have ok: "mem_ok s'" unfolding s' by (rule mem_ok_sealed [OF assms(1,2) \<open>2 \<le> nm_size s i\<close>])
  have len: "length (objs s') = length (objs s)" by (simp add: s' frame_simps)
  have "nm_size s' j = nm_size s j" if "j < length (objs s)" for j
  proof -
    have "nm_bytes s' j = (if j = i \<or> shares s i j then sealed box (nm_bytes s i) else nm_bytes s j)"
      unfolding s' by (rule bytes_sealed [OF assms(1,2) that \<open>2 \<le> nm_size s i\<close>])
    moreover have "shares s i j \<Longrightarrow> nm_bytes s j = nm_bytes s i"
      by (auto simp: shares_def is_dynamic_def nm_bytes_def)
    ultimately have "length (nm_bytes s' j) = length (nm_bytes s j)" by auto
    then show ?thesis using ok len assms(1) that by (simp add: nm_size_bytes)
  qed
  with ok len show ?thesis by blast
qed

lemma write_message_keeps:
  assumes "sendable st (i # is)" "write_message table ga st i = Inr (st', bytes, n)"
  shows "sendable st' is \<and> bytes \<noteq> [] \<and> header (fs_filter st') = header (fs_filter st) \<and>
    header_read (fs_filter st') = header_read (fs_filter st)"
proof -
  let ?s = "fs_mem st"
  have g: "mem_ok ?s" "i < length (objs ?s)" "nm_size ?s i \<le> 65535"
    "\<forall>j \<in> set is. j < length (objs ?s) \<and> nm_size ?s j \<le> 65535"
    using assms(1) by (simp_all add: sendable_def)
  obtain ID where ID: "message_id ?s i = Some ID"
    using assms(2) by (cases "message_id ?s i") (simp_all add: write_message_def)
  show ?thesis
  proof (cases "ID = ServerChallengeResponse_ID")
    case False
    then obtain s' where s': "encrypt_message ?s i (pBox (fs_filter st)) = Inr s'" "st' = st\<lparr>fs_mem := s'\<rparr>"
      "bytes = le_u16 (word_of_nat (nm_size ?s i)) @ nm_bytes s' i"
      using assms(2) ID by (auto simp: write_message_def bind_r_eq_Inr)
    then show ?thesis using encrypt_message_sizes [OF g(1-3) s'(1)] g(4)
      by (auto simp: sendable_def le_u16_def)
  next
    case True
    define d where "d = map char_of_byte (random_bytes table (fst (getBoxofRandoms (fs_rand st))) (2 * EXCHANGETIMES))"
    define s' where "s' = Write (clear ?s i) i d"
    have c: "mem_ok (clear ?s i)" "length (objs (clear ?s i)) = length (objs ?s)"
      using g by (simp_all add: inv_intros frame_simps)
    have ok: "mem_ok s'" "length (objs s') = length (objs ?s)"
      using c g by (simp_all add: s'_def inv_intros frame_simps)
    have "nm_size s' j \<le> 65535" if "j \<in> set is" for j
    proof -
      have "nm_bytes s' j = (if j = i then d else nm_bytes ?s j)"
        using c g that by (simp add: s'_def bytes_Write bytes_clear)
      moreover have "length d \<le> 128" by (simp add: d_def random_bytes_def EXCHANGETIMES_def)
      ultimately show ?thesis using ok g that by (auto simp: nm_size_bytes)
    qed
    moreover have "fs_mem st' = s'" "bytes \<noteq> []" "header (fs_filter st') = header (fs_filter st)"
      "header_read (fs_filter st') = header_read (fs_filter st)"
      using assms(2) ID True
      by (auto simp: write_message_def write_challenge_def Let_def split_beta s'_def d_def le_u16_def)
    ultimately show ?thesis using ok g by (simp add: sendable_def)
  qed
qed

lemma write_loop_keeps:
  assumes "sendable st is" "write_loop table ga st all is buf r = Inr (st', buf', r', rest)"
  shows "(\<exists>out. (is \<noteq> [] \<longrightarrow> out \<noteq> []) \<and> buf' = buf @ out) \<and> rest = [] \<and>
    header (fs_filter st') = header (fs_filter st) \<and> header_read (fs_filter st') = header_read (fs_filter st)"
  using assms
proof (induction "is" arbitrary: st buf r)
  case Nil
  then show ?case by simp
next
  case (Cons i "is")
  then obtain st1 bytes n where w: "write_message table ga st i = Inr (st1, bytes, n)"
    "write_loop table ga st1 all is (buf @ bytes) (r + n) = Inr (st', buf', r', rest)"
    by (auto simp: bind_r_eq_Inr sendable_def split: if_splits)
  note k = write_message_keeps [OF Cons.prems(1) w(1)]
  from Cons.IH [OF _ w(2)] k show ?case by (metis append_assoc append_is_Nil_conv)
qed

lemma write_loop_buffer:
  "write_loop table ga st all is buf r =
     bind_r (write_loop table ga st all is [] r) (\<lambda>(st', out, r', rest). Inr (st', buf @ out, r', rest))"
proof (induction "is" arbitrary: st buf r)
  case (Cons i "is")
  show ?case
  proof (cases "message_id (fs_mem st) i = None \<or> 65535 < nm_size (fs_mem st) i")
    case False
    show ?thesis
    proof (cases "write_message table ga st i")
      case (Inr x)
      obtain st1 bytes n where x: "x = (st1, bytes, n)" by (cases x) auto
      show ?thesis using False Inr x Cons.IH [of st1 "buf @ bytes" "r + n"] Cons.IH [of st1 bytes "r + n"]
        by (cases "write_loop table ga st1 all is [] (r + n)") auto
    qed (use False in auto)
  qed auto
qed simp

interpretation mine: message_filter "my_filter_ops table ga raw" sendable same_filter for table ga raw
proof (unfold_locales, goal_cases)
  case (1 f ms) then show ?case by (simp add: my_filter_ops_def BytesWannaWrite_0)
next
  case (2 f ms buf f' buf' rest)
  then show ?case
    by (auto simp: my_filter_ops_def bind_r_eq_Inr FilterWrite_def BytesWannaRead_def dest!: write_loop_keeps)
next
  case (3 f ms buf)
  show ?case
    using write_loop_buffer [of table ga f ms ms buf 0]
    by (cases "write_loop table ga f ms ms [] 0") (auto simp: my_filter_ops_def FilterWrite_def)
next
  case (4 bytes f ms f' ms' n)
  then show ?case
    by (auto simp: my_filter_ops_def FilterRead_def BytesWannaRead_def Let_def bind_r_eq_Inr kHeaderSize_def split: if_splits)
next
  case (5 f ms bytes)
  show ?case
  proof -
    let ?i = "length (objs (fs_mem f))"
    let ?s = "Write (Reserve (NetMessage_new raw (fs_mem f)) ?i (unat (header (fs_filter f)))) ?i bytes"
    show ?thesis
      by (cases "decryptMessage ?s ?i (pBox (fs_filter f))")
        (simp_all add: my_filter_ops_def FilterRead_def Let_def)
  qed
next
  case (6 f)
  have "unat h < 65536" for h :: u16 using unsigned_less [of h] by simp
  from this [of "header (fs_filter f)"] show ?case
    by (auto simp: my_filter_ops_def BytesWannaRead_def kHeaderSize_def SIZE_MAX_def)
next
  case (7 f f') then show ?case by (simp add: my_filter_ops_def same_filter_def BytesWannaRead_def)
qed

subsection \<open>Properties\<close>

text \<open>
  C4. Outstanding operations: at every moment of a session over \<open>MyFilter\<close>
  (whose application posts no message above 65535 bytes), \<open>num_handlers_\<close> is the
  number of reads and writes the session has outstanding, at most one of each, and no
  assertion of \<open>TCPSession\<close> fails in the next event.
\<close>

theorem session_handlers_counted:
  assumes "session_run (my_filter_ops table ga raw) sendable same_filter cap f0 w"
    and "enabled sendable same_filter w e"
  shows "num_handlers (ses w) = int (length (reads w) + length (writes w)) \<and>
    length (reads w) \<le> 1 \<and> length (writes w) \<le> 1 \<and>
    run_event (my_filter_ops table ga raw) cap now w e \<noteq> Inl SessionAssert"
  using mine.outstanding_counts [OF assms(1)] mine.no_assert [OF mine.session_run_inv [OF assms(1)] assms(2)]
  by blast

text \<open>A session that has just been initialised.\<close>

definition first_world :: "(filter_state, nat) world" where
  "first_world = acts (world_start no_message)
     ((TCPSession no_message)\<lparr>sid := 7, num_handlers := 1, waitingRead := True\<rparr>, [Queue_add 7, Async_read 2])"

lemma first_world_run:
  "session_run (my_filter_ops table ga raw) sendable same_filter cap no_message first_world"
proof -
  have "run_event (my_filter_ops table ga raw) cap 0 (world_start no_message) (E_init 7) = Inr first_world"
    by (simp add: first_world_def Init_def start_read_def world_start_def TCPSession_def my_filter_ops_def
        BytesWannaRead_def no_message_def MyFilter_def kHeaderSize_def kInvalidTCPSessionID_def SIZE_MAX_def)
  then show ?thesis
    by (rule session_run.step [OF session_run.init, rotated]) (simp add: world_start_def TCPSession_def kInvalidTCPSessionID_def)
qed

lemma first_world_simps [simp]:
  "reads first_world = [2]" "writes first_world = []" "queued first_world" "close_posts first_world = 0"
  "closed (ses first_world) = False" "num_handlers (ses first_world) = 1" "broken first_world = False"
  "activeClosed (ses first_world) = False" "sid (ses first_world) = 7" "messages_received (ses first_world) = []"
  by (simp_all add: first_world_def acts_def world_start_def TCPSession_def)

theorem session_handlers_counted_witness:
  "num_handlers (ses first_world) = 1 \<and>
    run_event (my_filter_ops [] [] []) 16 0 first_world (E_read True []) \<noteq> Inl SessionAssert"
  using session_handlers_counted [OF first_world_run [of "[]" "[]" "[]" 16], of "E_read True []" 0] by simp

text \<open>
  C5. Order of the outgoing bytes: what completed writes have put on the wire is a
  prefix of the bytes the filter has produced, in the order the messages were posted;
  and while no write has failed, once no write is outstanding all of them have been
  sent.
\<close>

theorem session_sends_in_order:
  assumes "session_run (my_filter_ops table ga raw) sendable same_filter cap f0 w" and "\<not> broken w"
  shows "\<exists>pending. framed w = sent w @ pending \<and> (writes w = [] \<longrightarrow> pending = [])"
  using mine.session_run_inv [OF assms(1)] assms(2)
  by (intro exI [of _ "buffer_sending (ses w) @ buffer_to_be_sent (ses w)"])
    (simp add: session_inv_def inv_bytes_def)

text \<open>A message of two bytes is posted twice, and the first of its two writes completes.\<close>

definition short_message :: filter_state where
  "short_message = one_message [CHR 0x05, CHR 0x00]"

lemma short_frame: "le_u16 2 = [CHR 0x02, CHR 0x00]"
  by code_simp

lemma short_message_sends:
  "filter_write (my_filter_ops table ga raw) short_message [0] buf =
     Inr (short_message, buf @ [CHR 0x02, CHR 0x00, CHR 0x05, CHR 0x00], [])"
  "wants_write (my_filter_ops table ga raw) short_message [0] \<noteq> 0"
  "wants_write (my_filter_ops table ga raw) short_message [] = 0"
  "wants_read (my_filter_ops table ga raw) short_message = 2"
  "sendable short_message [0]"
proof -
  let ?m = "[CHR 0x05, CHR 0x00]"
  have st: "short_message\<lparr>fs_mem := overwrite (fs_mem short_message) 0 2 []\<rparr> = short_message"
    by (simp add: short_message_def one_message_def overwrite_def blit_def)
  have ok: "mem_ok (fs_mem short_message)" "ordinary (fs_mem short_message) 0" "nm_bytes (fs_mem short_message) 0 = ?m"
    "nm_size (fs_mem short_message) 0 = 2" "length (objs (fs_mem short_message)) = 1"
    using one_message_ok [of ?m]
    by (simp_all add: short_message_def ordinary_def u16_le_def byte_of_def ServerChallengeResponse_ID_def)
  have w: "write_message table ga short_message 0 = Inr (short_message, [CHR 0x02, CHR 0x00, CHR 0x05, CHR 0x00], 4)"
    using write_ordinary [OF ok(1,2), of table ga] st ok(3)
    by (simp add: frame_def sealed_def short_frame)
  have id: "message_id (fs_mem short_message) 0 = Some (u16_le ?m)"
    using message_id_bytes [OF ok(1), of 0] ok by simp
  show "filter_write (my_filter_ops table ga raw) short_message [0] buf =
     Inr (short_message, buf @ [CHR 0x02, CHR 0x00, CHR 0x05, CHR 0x00], [])"
    by (simp add: my_filter_ops_def FilterWrite_def id w ok(4))
  show "wants_write (my_filter_ops table ga raw) short_message [0] \<noteq> 0"
    "wants_write (my_filter_ops table ga raw) short_message [] = 0"
    by (simp_all add: my_filter_ops_def BytesWannaWrite_def kHeaderSize_def)
  show "wants_read (my_filter_ops table ga raw) short_message = 2"
    by (simp add: my_filter_ops_def short_message_def one_message_def BytesWannaRead_def MyFilter_def kHeaderSize_def)
  show "sendable short_message [0]" using ok by (simp add: sendable_def)
qed

definition posted_world :: "string \<Rightarrow> string \<Rightarrow> string \<Rightarrow> (filter_state, nat) world" where
  "posted_world done sending waiting =
     (world_start short_message)\<lparr>ses := (TCPSession short_message)\<lparr>sid := 7, waitingRead := True,
         num_handlers := (if sending = [] then 1 else 2), buffer_sending := sending, buffer_to_be_sent := waiting\<rparr>,
       reads := [2], queued := True, writes := (if sending = [] then [] else [sending]),
       sent := done, framed := done @ sending @ waiting\<rparr>"

lemma posted_world_steps:
  defines "F \<equiv> my_filter_ops [] [] []" and "b \<equiv> [CHR 0x02, CHR 0x00, CHR 0x05, CHR 0x00]"
  shows "run_event F 16 0 (world_start short_message) (E_init 7) = Inr (posted_world [] [] [])"
    and "run_event F 16 0 (posted_world [] [] []) (E_post [0]) = Inr (posted_world [] b [])"
    and "run_event F 16 0 (posted_world [] b []) (E_post [0]) = Inr (posted_world [] b b)"
    and "run_event F 16 0 (posted_world [] b b) (E_write False) = Inr (posted_world b b [])"
  unfolding F_def b_def
  by (simp_all add: short_message_sends Init_def PostMessageList_def HandleWrite_def start_read_def frames_of_def acts_def posted_world_def
      world_start_def TCPSession_def kInvalidTCPSessionID_def SIZE_MAX_def Let_def)

lemma posted_world_run:
  defines "b \<equiv> [CHR 0x02, CHR 0x00, CHR 0x05, CHR 0x00]"
  shows "session_run (my_filter_ops [] [] []) sendable same_filter 16 short_message (posted_world b b [])"
  unfolding b_def
  apply (rule session_run.step [OF _ _ posted_world_steps(4)])
   apply (rule session_run.step [OF _ _ posted_world_steps(3)])
    apply (rule session_run.step [OF _ _ posted_world_steps(2)])
     apply (rule session_run.step [OF session_run.init _ posted_world_steps(1)])
  by (simp_all add: short_message_sends posted_world_def world_start_def TCPSession_def kInvalidTCPSessionID_def)

theorem session_sends_in_order_witness:
  "let b = [CHR 0x02, CHR 0x00, CHR 0x05, CHR 0x00]; w = posted_world b b []
   in sent w = b \<and> writes w = [b] \<and> (\<exists>pending. framed w = sent w @ pending \<and> pending = b)"
proof -
  let ?b = "[CHR 0x02, CHR 0x00, CHR 0x05, CHR 0x00]" let ?w = "posted_world ?b ?b []"
  have f: "sent ?w = ?b" "framed ?w = ?b @ ?b" "\<not> broken ?w" "writes ?w = [?b]"
    by (simp_all add: posted_world_def world_start_def)
  obtain pending where p: "framed ?w = sent ?w @ pending"
    using session_sends_in_order [OF posted_world_run f(3)] by blast
  then have "pending = ?b" unfolding f by (rule same_append_eq [THEN iffD1, symmetric])
  with p f show ?thesis unfolding Let_def by blast
qed

text \<open>
  C11. Delivery of received messages: every message the filter has produced has been
  handed on exactly once and in order, or waits in the session; and while one waits, a
  delivery task is posted or the receive timer is armed.
\<close>

theorem session_delivers_in_order:
  assumes "session_run (my_filter_ops table ga raw) sendable same_filter cap f0 w"
  shows "received w = delivered w @ messages_received (ses w) \<and>
    (messages_received (ses w) \<noteq> [] \<longrightarrow> 0 < deliveries w \<or> timer w)"
  using mine.session_run_inv [OF assms] by (simp add: session_inv_def inv_messages_def)

text \<open>A frame arrives in two reads, its length and its message.\<close>

definition blank_array :: string where
  "blank_array = replicate 128 CHR 0x00"

definition header_state :: filter_state where
  "header_state = short_message\<lparr>fs_filter := (fs_filter short_message)\<lparr>header := 2, header_read := True\<rparr>\<rparr>"

definition read_mem :: mem where
  "read_mem = Write (Reserve (NetMessage_new blank_array (fs_mem short_message)) 1 2) 1 [CHR 0x05, CHR 0x00]"

definition message_state :: filter_state where
  "message_state = header_state\<lparr>fs_mem := read_mem, fs_filter := (fs_filter header_state)\<lparr>header_read := False\<rparr>\<rparr>"

lemma frame_reads:
  "filter_read (my_filter_ops [] [] blank_array) short_message ms [CHR 0x02, CHR 0x00] = Inr (header_state, ms, 2)"
  "filter_read (my_filter_ops [] [] blank_array) header_state ms [CHR 0x05, CHR 0x00] = Inr (message_state, ms @ [1], 2)"
  "wants_read (my_filter_ops [] [] blank_array) header_state = 2"
  "wants_read (my_filter_ops [] [] blank_array) message_state = 2"
proof -
  have f: "fs_filter short_message = MyFilter xor_box 0" "length (objs (fs_mem short_message)) = 1"
    by (simp_all add: short_message_def one_message_def)
  have "message_id read_mem 1 = Some 5" unfolding read_mem_def blank_array_def short_message_def by code_simp
  then have d: "decryptMessage read_mem 1 box = Inr read_mem" for box
    by (simp add: decryptMessage_def ServerChallengeResponse_ID_def)
  have "u16_le [CHR 0x02, CHR 0x00] = 2" by code_simp
  then show "filter_read (my_filter_ops [] [] blank_array) short_message ms [CHR 0x02, CHR 0x00] = Inr (header_state, ms, 2)"
    by (simp add: my_filter_ops_def FilterRead_def Let_def f MyFilter_def header_state_def kHeaderSize_def)
  show "filter_read (my_filter_ops [] [] blank_array) header_state ms [CHR 0x05, CHR 0x00] = Inr (message_state, ms @ [1], 2)"
    using d by (simp add: my_filter_ops_def FilterRead_def Let_def f header_state_def message_state_def read_mem_def)
  show "wants_read (my_filter_ops [] [] blank_array) header_state = 2"
    "wants_read (my_filter_ops [] [] blank_array) message_state = 2"
    by (simp_all add: my_filter_ops_def BytesWannaRead_def header_state_def message_state_def kHeaderSize_def)
qed

definition reading_world :: "filter_state \<Rightarrow> nat list \<Rightarrow> (filter_state, nat) world" where
  "reading_world f ms =
     (world_start short_message)\<lparr>ses := (TCPSession short_message)\<lparr>sid := 7, waitingRead := True, num_handlers := 1,
         sfilter := f, messages_received := ms\<rparr>,
       reads := [2], queued := True, received := ms, deliveries := length ms\<rparr>"

lemma reading_world_run: "session_run (my_filter_ops [] [] blank_array) sendable same_filter 16 short_message (reading_world message_state [1])"
proof -
  let ?F = "my_filter_ops [] [] blank_array"
  note defs = Init_def HandleRead_def messages_of_def start_read_def acts_def reading_world_def world_start_def TCPSession_def
    kInvalidTCPSessionID_def SIZE_MAX_def Let_def short_message_sends frame_reads
  have s: "run_event ?F 16 2 (world_start short_message) (E_init 7) = Inr (reading_world short_message [])"
    "run_event ?F 16 2 (reading_world short_message []) (E_read False [CHR 0x02, CHR 0x00]) = Inr (reading_world header_state [])"
    "run_event ?F 16 2 (reading_world header_state []) (E_read False [CHR 0x05, CHR 0x00]) = Inr (reading_world message_state [1])"
    by (simp_all add: defs)
  have "session_run ?F sendable same_filter 16 short_message (reading_world short_message [])"
    by (rule session_run.step [OF session_run.init _ s(1)]) (simp add: world_start_def TCPSession_def kInvalidTCPSessionID_def)
  then have "session_run ?F sendable same_filter 16 short_message (reading_world header_state [])"
    by (rule session_run.step [OF _ _ s(2)]) (simp add: reading_world_def)
  then show ?thesis by (rule session_run.step [OF _ _ s(3)]) (simp add: reading_world_def)
qed

theorem session_delivers_in_order_witness:
  "let w = reading_world message_state [1]
   in received w = [1] \<and> received w = delivered w @ messages_received (ses w) \<and> (0 < deliveries w \<or> timer w)"
proof -
  let ?w = "reading_world message_state [1]"
  have "received ?w = [1]" "messages_received (ses ?w) \<noteq> []" by (simp_all add: reading_world_def)
  with session_delivers_in_order [OF reading_world_run] show ?thesis unfolding Let_def by blast
qed

text \<open>
  Closing: \<open>OnSessionClose\<close> is posted at most once in the life of a session,
  whichever of \<open>Close\<close>, \<open>activeClose\<close> and the error paths are taken; after it
  the session is no longer in its thread's queue, and, unless the server closed it
  actively, has nothing outstanding.
\<close>

theorem session_closes_once:
  assumes "session_run (my_filter_ops table ga raw) sendable same_filter cap f0 w"
  shows "close_posts w \<le> 1 \<and>
    (close_posts w = 1 \<longrightarrow> \<not> queued w \<and> (activeClosed (ses w) \<or> reads w = [] \<and> writes w = []))"
  using mine.session_run_inv [OF assms] by (auto simp: session_inv_def inv_close_def)

theorem session_closes_once_witness:
  "close_posts first_world \<le> 1"
  using session_closes_once [OF first_world_run [of "[]" "[]" "[]" 16]] by blast

text \<open>
  \<open>Close\<close> does not close a session that is waiting for input: with a read
  outstanding (which a session over \<open>MyFilter\<close> has until a zero-length frame
  arrives) it only marks the session, and takes no action; the socket stays open until
  the peer sends or closes.
\<close>

theorem close_waits_for_the_peer:
  assumes "session_run (my_filter_ops table ga raw) sendable same_filter cap f0 w" and "reads w \<noteq> []"
  shows "snd (Close (ses w)) = [] \<and> run_event (my_filter_ops table ga raw) cap now w E_close
    = Inr (w\<lparr>ses := (ses w)\<lparr>closed := True\<rparr>\<rparr>)"
proof -
  have "0 < num_handlers (ses w)"
    using mine.session_run_inv [OF assms(1)] assms(2)
    by (cases "reads w") (simp_all add: session_inv_def inv_count_def)
  moreover have "closed s \<Longrightarrow> s\<lparr>closed := True\<rparr> = s" for s :: "(filter_state, nat) session" by (cases s) simp
  ultimately show ?thesis by (auto simp: Close_def HandleClose_def)
qed

theorem close_waits_for_the_peer_witness:
  "snd (Close (ses first_world)) = []"
proof -
  have "reads first_world \<noteq> []" by simp
  from close_waits_for_the_peer [OF first_world_run [of "[]" "[]" "[]" 16] this] show ?thesis by blast
qed

end
