(* ===== verification/Id_Generator.thy ===== *)
theory Id_Generator
  imports Prelude
begin

section \<open>IDGenerator: session identifiers\<close>

text \<open>
  Models \<open>gateway_server/sdk/id_generator.h\<close>. Returned identifiers wait in a
  pool and are handed out again, oldest first, once more than \<open>threshold\<close> of
  them are pooled; before that the generator counts up from \<open>min\<close>. The counter is
  a machine word: after the largest value \<open>++next_\<close> wraps to 0. The locale
  \<open>id_source\<close> is what the session manager relies on.
\<close>

record 't idgen =
  id_min :: 't
  id_max :: 't
  id_next :: 't
  id_threshold :: nat
  id_pool :: "'t list"

definition IDGenerator :: "'a::len word \<Rightarrow> 'a word \<Rightarrow> nat \<Rightarrow> 'a word idgen" where
  "IDGenerator min_id max_id threshold =
     \<lparr>id_min = min_id, id_max = max_id, id_next = min_id, id_threshold = threshold, id_pool = []\<rparr>"

definition id_Get :: "'a::len word idgen \<Rightarrow> 'a word option \<times> 'a word idgen" where
  "id_Get g =
     (if length (id_pool g) > id_threshold g
      then (Some (hd (id_pool g)), g\<lparr>id_pool := tl (id_pool g)\<rparr>)
      else if id_next g \<le> id_max g
      then (Some (id_next g), g\<lparr>id_next := id_next g + 1\<rparr>)
      else (None, g))"

definition id_Put :: "'a::len word idgen \<Rightarrow> 'a word \<Rightarrow> 'a word idgen" where
  "id_Put g x = g\<lparr>id_pool := id_pool g @ [x]\<rparr>"

subsection \<open>What a user of identifiers relies on\<close>

text \<open>
  \<open>inv k g out\<close>: the generator \<open>g\<close> with the identifiers \<open>out\<close> in
  use is good for \<open>k\<close> more fresh identifiers.
\<close>

locale id_source =
  fixes get :: "'g \<Rightarrow> 'i option \<times> 'g"
    and put :: "'g \<Rightarrow> 'i \<Rightarrow> 'g"
    and inv :: "nat \<Rightarrow> 'g \<Rightarrow> 'i set \<Rightarrow> bool"
    and bad :: "'i"
  assumes get_fresh: "inv (Suc k) g out \<Longrightarrow> get g = (Some x, g') \<Longrightarrow> x \<notin> out \<and> x \<noteq> bad"
    and get_inv: "inv (Suc k) g out \<Longrightarrow> get g = (Some x, g') \<Longrightarrow> inv k g' (insert x out)"
    and put_inv: "inv k g out \<Longrightarrow> x \<in> out \<Longrightarrow> inv k (put g x) (out - {x})"
begin

lemma get_put_cancels:
  assumes "inv (Suc k) g out" "get g = (Some x, g')"
  shows "inv k (put g' x) out"
proof -
  have "inv k (put g' x) (insert x out - {x})"
    using get_inv [OF assms] by (rule put_inv) simp
  then show ?thesis using get_fresh [OF assms] by simp
qed

end

definition id_inv :: "nat \<Rightarrow> 'a::len word idgen \<Rightarrow> 'a word set \<Rightarrow> bool" where
  "id_inv k g out =
     (unat (id_next g) + k < 2 ^ LENGTH('a) \<and> 0 < id_min g \<and> id_min g \<le> id_next g \<and>
      distinct (id_pool g) \<and> set (id_pool g) \<inter> out = {} \<and>
      (\<forall>x \<in> set (id_pool g) \<union> out. id_min g \<le> x \<and> x < id_next g))"

lemma unat_next_Suc:
  fixes w :: "'a::len word"
  assumes "unat w + Suc k < 2 ^ LENGTH('a)"
  shows "unat (w + 1) = Suc (unat w)" and "w < w + 1"
proof -
  show u: "unat (w + 1) = Suc (unat w)"
    using assms by (simp add: unat_word_ariths)
  show "w < w + 1" by (simp add: word_less_nat_alt u)
qed

lemma id_inv_Get:
  assumes "id_inv (Suc k) g out" "id_Get g = (Some x, g')"
  shows "x \<notin> out \<and> 0 < x \<and> id_inv k g' (insert x out)"
proof (cases "length (id_pool g) > id_threshold g")
  case True
  then obtain y ys where p: "id_pool g = y # ys" by (cases "id_pool g") auto
  then have "x = y" "g' = g\<lparr>id_pool := ys\<rparr>" using assms(2) True by (simp_all add: id_Get_def)
  then show ?thesis using assms(1) p
    by (auto simp: id_inv_def dest: order_less_le_trans)
next
  case False
  then have x: "x = id_next g" "g' = g\<lparr>id_next := id_next g + 1\<rparr>"
    using assms(2) by (auto simp: id_Get_def split: if_splits)
  have inv: "unat (id_next g) + Suc k < 2 ^ LENGTH('a)" "0 < id_min g" "id_min g \<le> id_next g"
    "\<forall>x \<in> set (id_pool g) \<union> out. id_min g \<le> x \<and> x < id_next g"
    using assms(1) by (simp_all add: id_inv_def)
  note n = unat_next_Suc [OF inv(1)]
  have out: "\<And>y. y \<in> set (id_pool g) \<union> out \<Longrightarrow> y < id_next g" using inv(4) by blast
  then have "x \<notin> set (id_pool g) \<union> out" using x by blast
  moreover have "0 < x" using inv x by simp
  moreover have "\<forall>y \<in> set (id_pool g) \<union> insert x out. id_min g \<le> y \<and> y < id_next g + 1"
    using inv(3,4) n(2) x(1) by (blast intro: less_trans)
  moreover have "id_min g \<le> id_next g + 1" "unat (id_next g + 1) + k < 2 ^ LENGTH('a)"
    using inv n by (auto simp: less_imp_le intro: order_trans)
  moreover have "distinct (id_pool g)" "set (id_pool g) \<inter> out = {}"
    using assms(1) by (simp_all add: id_inv_def)
  ultimately show ?thesis using inv(2) x(2) by (simp add: id_inv_def)
qed

lemma id_inv_Put:
  "id_inv k g out \<Longrightarrow> x \<in> out \<Longrightarrow> id_inv k (id_Put g x) (out - {x})"
  by (auto simp: id_inv_def id_Put_def)

interpretation ids: id_source id_Get id_Put id_inv 0
  by unfold_locales (auto dest: id_inv_Get intro: id_inv_Put)

lemma id_inv_start:
  "0 < a \<Longrightarrow> unat a + k < 2 ^ LENGTH('a) \<Longrightarrow> id_inv k (IDGenerator (a::'a::len word) b t) {}"
  by (simp add: id_inv_def IDGenerator_def)

text \<open>Histories: which identifiers are in use after a sequence of calls.\<close>

inductive id_run :: "'a::len word idgen \<Rightarrow> nat \<Rightarrow> 'a word idgen \<Rightarrow> 'a word set \<Rightarrow> bool" for g0 where
  start: "id_run g0 0 g0 {}"
| got: "id_run g0 n g out \<Longrightarrow> id_Get g = (Some x, g') \<Longrightarrow> id_run g0 (Suc n) g' (insert x out)"
| none: "id_run g0 n g out \<Longrightarrow> id_Get g = (None, g') \<Longrightarrow> id_run g0 n g' out"
| returned: "id_run g0 n g out \<Longrightarrow> x \<in> out \<Longrightarrow> id_run g0 n (id_Put g x) (out - {x})"

lemma id_run_inv:
  assumes "id_run (IDGenerator a b t) n g out" "0 < a" "unat a + (n + k) < 2 ^ LENGTH('a)"
  shows "id_inv k (g::'a::len word idgen) out"
  using assms
proof (induction arbitrary: k rule: id_run.induct)
  case start
  then show ?case by (simp add: id_inv_start)
next
  case (got n g out x g')
  have "id_inv (Suc k) g out" using got.prems by (intro got.IH) simp_all
  from ids.get_inv [OF this got.hyps(2)] show ?case .
next
  case (none n g out g')
  then show ?case by (auto simp: id_Get_def split: if_splits)
next
  case (returned n g out x)
  then show ?case using ids.put_inv by blast
qed

text \<open>
  C19. Uniqueness of session identifiers: a generator that counts from \<open>a > 0\<close>,
  whose users return only identifiers they hold, never hands out an identifier that is
  still in use, nor 0 (the invalid session), as long as fewer than \<open>2^w - a\<close> calls
  have returned one.
\<close>

theorem ids_unique:
  assumes "id_run (IDGenerator a b t) n g out" and "0 < (a::'a::len word)"
    and "unat a + Suc n < 2 ^ LENGTH('a)" and "id_Get g = (Some x, g')"
  shows "x \<notin> out \<and> x \<noteq> 0"
proof -
  have "id_inv 1 g out" using assms(1-3) by (intro id_run_inv) simp_all
  then show ?thesis using ids.get_fresh [of 0 g out x g'] assms(4) by simp
qed

theorem ids_unique_witness:
  "\<exists>g. id_run (IDGenerator 1 (-1) 4096 :: 32 word idgen) 1 g {1} \<and>
    fst (id_Get g) = Some 2 \<and> (2::32 word) \<notin> {1} \<and> (2::32 word) \<noteq> 0"
proof -
  let ?g0 = "IDGenerator 1 (-1) 4096 :: 32 word idgen"
  have g1: "id_Get ?g0 = (Some 1, ?g0\<lparr>id_next := 2\<rparr>)"
    by (simp add: id_Get_def IDGenerator_def)
  have r: "id_run ?g0 (Suc 0) (?g0\<lparr>id_next := 2\<rparr>) (insert 1 {})"
    by (rule id_run.got [OF id_run.start g1])
  have g2: "id_Get (?g0\<lparr>id_next := 2\<rparr>) = (Some 2, ?g0\<lparr>id_next := 3\<rparr>)"
    by (simp add: id_Get_def IDGenerator_def)
  have "(2::32 word) \<notin> insert 1 {} \<and> (2::32 word) \<noteq> 0"
    by (rule ids_unique [OF r _ _ g2]) simp_all
  then show ?thesis using r g2 by auto
qed

text \<open>
  Wrap-around: the session manager's generator counts to the largest 32-bit
  value, which its bound \<open>next_ <= max_\<close> never excludes; after handing that value
  out it hands out 0, the identifier that marks an invalid session.
\<close>

theorem ids_wrap_to_invalid:
  assumes "id_max g = (-1::32 word)" "id_next g = -1" "length (id_pool g) \<le> id_threshold g"
  shows "id_Get g = (Some (-1), g\<lparr>id_next := 0\<rparr>) \<and>
    id_Get (g\<lparr>id_next := 0\<rparr>) = (Some 0, g\<lparr>id_next := 1\<rparr>)"
  using assms by (simp add: id_Get_def)

theorem ids_wrap_to_invalid_witness:
  "fst (id_Get (snd (id_Get ((IDGenerator 1 (-1) 4096 :: 32 word idgen)\<lparr>id_next := -1\<rparr>)))) = Some 0"
proof -
  let ?g = "(IDGenerator 1 (-1) 4096 :: 32 word idgen)\<lparr>id_next := -1\<rparr>"
  have "id_max ?g = -1" "id_next ?g = -1" "length (id_pool ?g) \<le> id_threshold ?g"
    by (simp_all add: IDGenerator_def)
  from ids_wrap_to_invalid [OF this] show ?thesis by simp
qed

end
