(* ===== verification/Tcp_Manager.thy ===== *)
theory Tcp_Manager
  imports Tcp_Session Id_Generator
begin

section \<open>The session manager, its threads and its tables\<close>

text \<open>
  Models \<open>gateway_server/sdk\<close>: \<open>tcp_session_queue.cc\<close>,
  \<open>tcp_session_handler.cc\<close>, \<open>tcp_io_thread_manager.h\<close> and \<open>.cc\<close>,
  \<open>SessionFilter.cpp\<close> and \<open>PlayersManager.cpp\<close>. Hash maps are association lists
  with distinct keys (their order is that of no iteration the code relies on);
  \<open>insert\<close> does nothing when the key exists, as in the library. The manager uses
  session identifiers through the interface \<open>id_source\<close>.
\<close>

subsection \<open>Tables with unique keys\<close>

definition tab_insert :: "('k \<times> 'v) list \<Rightarrow> 'k \<Rightarrow> 'v \<Rightarrow> bool \<times> ('k \<times> 'v) list" where
  "tab_insert t k v = (if k \<in> fst ` set t then (False, t) else (True, t @ [(k, v)]))"

definition tab_erase :: "('k \<times> 'v) list \<Rightarrow> 'k \<Rightarrow> ('k \<times> 'v) list" where
  "tab_erase t k = filter (\<lambda>e. fst e \<noteq> k) t"

lemma tab_erase_keys: "fst ` set (tab_erase t k) = fst ` set t - {k}"
  by (auto simp: tab_erase_def)

lemma tab_erase_distinct [intro]: "distinct (map fst t) \<Longrightarrow> distinct (map fst (tab_erase t k))"
  by (simp add: tab_erase_def distinct_map_filter)

lemma map_of_tab_erase: "map_of (tab_erase t k) j = (if j = k then None else map_of t j)"
  by (induction t) (auto simp: tab_erase_def)

lemma tab_insert_new: "k \<notin> fst ` set t \<Longrightarrow> tab_insert t k v = (True, t @ [(k, v)])"
  by (simp add: tab_insert_def)

subsection \<open>TCPSessionQueue\<close>

type_synonym 's queue = "(u32 \<times> 's) list"

datatype queue_error = IteratorInvalidated

definition Add :: "'s queue \<Rightarrow> u32 \<Rightarrow> 's \<Rightarrow> bool \<times> 's queue" where
  "Add q i s = tab_insert q i s"

definition Remove :: "'s queue \<Rightarrow> u32 \<Rightarrow> 's queue" where
  "Remove q i = tab_erase q i"

definition Get :: "'s queue \<Rightarrow> u32 \<Rightarrow> 's option" where
  "Get q i = map_of q i"

text \<open>
  The two loops over the map call an operation of each session that may remove the
  session from this very map; the iterator is then invalid, and the loop's \<open>++it\<close>
  is outside the map. \<open>op\<close> is the call: the new session, and whether it removed
  itself.
\<close>

fun for_sessions :: "('s \<Rightarrow> 's \<times> bool) \<Rightarrow> 's queue \<Rightarrow> queue_error + 's queue" where
  "for_sessions op [] = Inr []"
| "for_sessions op ((i, s) # q) =
     (let (s', removed) = op s in
      if removed then Inl IteratorInvalidated
      else bind_r (for_sessions op q) (\<lambda>q'. Inr ((i, s') # q')))"

definition removes :: "'m action list \<Rightarrow> bool" where
  "removes al = list_ex (\<lambda>a. case a of Queue_remove _ \<Rightarrow> True | _ \<Rightarrow> False) al"

definition CloseAllSession :: "('f, 'm) session queue \<Rightarrow> queue_error + ('f, 'm) session queue" where
  "CloseAllSession q = for_sessions (\<lambda>s. let (s', al) = Close s in (s', removes al)) q"

definition checkAllSession ::
  "int \<Rightarrow> int \<Rightarrow> ('f, 'm) session queue \<Rightarrow> queue_error + ('f, 'm) session queue" where
  "checkAllSession GlobalTime expiredInteral q =
     for_sessions (\<lambda>s. if c_div (getNotActiveTime GlobalTime s) 1000 > expiredInteral
                       then (let (s', al) = activeClose s in (s', removes al)) else (s, False)) q"

subsection \<open>TCPSessionHandler\<close>

record 'm handler =
  session_id :: u32
  session_thread_id :: u32
  to_be_sent :: "'m list"
  send_delay :: "nat option"

datatype 'm handler_action =
    Post_direct
  | Post_pack
  | Start_send_timer
  | Post_list u32 u32 "'m list"
  | Post_close u32 u32
  | Post_receive_delay u32 u32 "nat option"

definition kMainThreadID :: u32 where
  "kMainThreadID = 0"

definition TCPSessionHandler :: "u32 \<Rightarrow> 'm handler" where
  "TCPSessionHandler thread0 =
     \<lparr>session_id = kInvalidTCPSessionID, session_thread_id = thread0, to_be_sent = [], send_delay = None\<rparr>"

definition IsClosed :: "'m handler \<Rightarrow> bool" where
  "IsClosed h = (session_id h = kInvalidTCPSessionID)"

definition handler_Init :: "'m handler \<Rightarrow> u32 \<Rightarrow> u32 \<Rightarrow> 'm handler" where
  "handler_Init h i thread = h\<lparr>session_id := i, session_thread_id := thread\<rparr>"

definition Dispose :: "'m handler \<Rightarrow> 'm handler" where
  "Dispose h = h\<lparr>session_id := kInvalidTCPSessionID\<rparr>"

text \<open>The free function \<open>PackMessageList\<close>: the list goes to the session's thread.\<close>

definition pack_list :: "'m handler \<Rightarrow> 'm handler \<times> 'm handler_action list" where
  "pack_list h =
     (if to_be_sent h = [] then (h, [])
      else (h\<lparr>to_be_sent := []\<rparr>, [Post_list (session_thread_id h) (session_id h) (to_be_sent h)]))"

text \<open>
  The other free function runs on the main thread: \<open>found\<close> says whether its queue
  holds the session, and the messages go straight to \<open>PostMessageList\<close>.
\<close>

definition send_directly :: "bool \<Rightarrow> 'm handler \<Rightarrow> 'm handler \<times> 'm handler_action list" where
  "send_directly found h =
     (if \<not> found then (h, [])
      else (h\<lparr>to_be_sent := []\<rparr>, [Post_list kMainThreadID (session_id h) (to_be_sent h)]))"

definition HandleSendTimer :: "bool \<Rightarrow> 'm handler \<Rightarrow> bool \<Rightarrow> 'm handler \<times> 'm handler_action list" where
  "HandleSendTimer found h err =
     (if err then (h, [])
      else if session_thread_id h = kMainThreadID then send_directly found h else pack_list h)"

definition Send :: "'m handler \<Rightarrow> 'm \<Rightarrow> bool \<Rightarrow> 'm handler \<times> 'm handler_action list" where
  "Send h message is_empty =
     (if IsClosed h then (h, [])
      else if is_empty then (h, [])
      else let wanna_send = (to_be_sent h = []);
               h' = h\<lparr>to_be_sent := to_be_sent h @ [message]\<rparr> in
        (h', if wanna_send
             then if send_delay h = None
                  then if session_thread_id h = kMainThreadID then [Post_direct] else [Post_pack]
                  else [Start_send_timer]
             else []))"

definition handler_Close :: "'m handler \<Rightarrow> 'm handler \<times> 'm handler_action list" where
  "handler_Close h =
     (if IsClosed h then (h, [])
      else let (h', post) = pack_list h in (h', post @ [Post_close (session_thread_id h) (session_id h)]))"

definition SetSendDelay :: "'m handler \<Rightarrow> nat option \<Rightarrow> 'm handler" where
  "SetSendDelay h d = h\<lparr>send_delay := d\<rparr>"

definition SetReceiveDelay :: "'m handler \<Rightarrow> nat option \<Rightarrow> 'm handler \<times> 'm handler_action list" where
  "SetReceiveDelay h d = (h, [Post_receive_delay (session_thread_id h) (session_id h) d])"

subsection \<open>SessionFilter\<close>

text \<open>
  \<open>inet_addr\<close> is the C library's; on the little-endian machines the code runs on it
  returns the first octet in the lowest byte (\<open>s_addr\<close>).
\<close>

record session_filter =
  vectIPBlocked :: "(u32 \<times> u32) list"

definition addIPRangeAccess ::
  "(string \<Rightarrow> u32) \<Rightarrow> session_filter \<Rightarrow> string \<Rightarrow> string \<Rightarrow> bool \<Rightarrow> session_filter" where
  "addIPRangeAccess inet_addr f ipStart ipStop bPermit =
     (if \<not> bPermit then f\<lparr>vectIPBlocked := vectIPBlocked f @ [(inet_addr ipStart, inet_addr ipStop)]\<rparr> else f)"

definition SessionFilter :: "(string \<Rightarrow> u32) \<Rightarrow> session_filter" where
  "SessionFilter inet_addr =
     addIPRangeAccess inet_addr \<lparr>vectIPBlocked = []\<rparr> ''192.168.1.2'' ''192.168.1.9'' False"

definition isAddressAllowed :: "(string \<Rightarrow> u32) \<Rightarrow> session_filter \<Rightarrow> string \<Rightarrow> bool" where
  "isAddressAllowed inet_addr f ipStr =
     (let ip = uint (inet_addr ipStr) in
      \<not> list_ex (\<lambda>(start, stop). ip \<le> uint stop \<and> uint start \<le> ip) (vectIPBlocked f))"

definition s_addr :: "u8 \<Rightarrow> u8 \<Rightarrow> u8 \<Rightarrow> u8 \<Rightarrow> u32" where
  "s_addr a b c d = ucast a + 2 ^ 8 * ucast b + 2 ^ 16 * ucast c + 2 ^ 24 * ucast d"

subsection \<open>TCPIOThreadManager\<close>

definition MAX_CONNECTION_NUM :: nat where
  "MAX_CONNECTION_NUM = 10000"

record ('h) manager =
  threads :: nat
  session_handler_map :: "(u32 \<times> 'h) list"
  session_id_generator :: "u32 idgen"
  next_thread_id :: u32

text \<open>\<open>next_thread_id_\<close> is not initialised: \<open>next0\<close> is what the memory held.\<close>

definition TCPIOThreadManager :: "nat \<Rightarrow> u32 \<Rightarrow> 'h manager" where
  "TCPIOThreadManager thread_num next0 =
     \<lparr>threads = thread_num + 1, session_handler_map = [],
      session_id_generator = IDGenerator (kInvalidTCPSessionID + 1) (- 1) 4096, next_thread_id = next0\<rparr>"

definition GetThread :: "'h manager \<Rightarrow> u32 \<times> 'h manager" where
  "GetThread m =
     (if threads m = 1 then (kMainThreadID, m)
      else let n = next_thread_id m + 1;
               n' = (if unat n \<ge> threads m then 1 else n)
           in (n', m\<lparr>next_thread_id := n'\<rparr>))"

datatype manager_error = NoIdentifier | InsertFailed | InvalidId

datatype connect_result = Refused | Connected u32

definition OnSessionConnect ::
  "bool \<Rightarrow> 'h manager \<Rightarrow> (u32 \<Rightarrow> 'h) \<Rightarrow> manager_error + connect_result \<times> 'h manager" where
  "OnSessionConnect allowed m handler =
     (if \<not> allowed \<or> length (session_handler_map m) > MAX_CONNECTION_NUM then Inr (Refused, m)
      else case id_Get (session_id_generator m) of
        (None, g) \<Rightarrow> Inl NoIdentifier
      | (Some i, g) \<Rightarrow>
          let (inserted, t) = tab_insert (session_handler_map m) i (handler i) in
          if \<not> inserted then Inl InsertFailed
          else Inr (Connected i, m\<lparr>session_id_generator := g, session_handler_map := t\<rparr>))"

definition GetSessionHandler :: "'h manager \<Rightarrow> u32 \<Rightarrow> 'h option" where
  "GetSessionHandler m i = map_of (session_handler_map m) i"

text \<open>Returns the handler whose \<open>OnClose\<close> and \<open>Dispose\<close> it calls.\<close>

definition OnSessionClose :: "'h manager \<Rightarrow> u32 \<Rightarrow> manager_error + 'h option \<times> 'h manager" where
  "OnSessionClose m i =
     (if i = kInvalidTCPSessionID then Inl InvalidId
      else case map_of (session_handler_map m) i of
        None \<Rightarrow> Inr (None, m)
      | Some h \<Rightarrow> Inr (Some h, m\<lparr>session_handler_map := tab_erase (session_handler_map m) i,
                                session_id_generator := id_Put (session_id_generator m) i\<rparr>))"

subsection \<open>PlayersManager\<close>

text \<open>
  The bimap is a list of pairs: \<open>insert\<close> does nothing when either side is taken,
  \<open>erase\<close> takes a pair. \<open>has_handler\<close> says which sessions
  \<open>GetSessionHandler\<close> knows; the returned session is the one closed.
\<close>

record players =
  playerSessionBiMap :: "(u32 \<times> u32) list"
  playerIDDeletedSet :: "u32 set"

datatype players_error = NullHandler | DanglingIterator

definition bimap_insert :: "(u32 \<times> u32) list \<Rightarrow> u32 \<Rightarrow> u32 \<Rightarrow> (u32 \<times> u32) list" where
  "bimap_insert b p s = (if p \<in> fst ` set b \<or> s \<in> snd ` set b then b else b @ [(p, s)])"

definition bimap_left :: "(u32 \<times> u32) list \<Rightarrow> u32 \<Rightarrow> u32 option" where
  "bimap_left b p = map_option snd (find (\<lambda>e. fst e = p) b)"

definition bimap_right :: "(u32 \<times> u32) list \<Rightarrow> u32 \<Rightarrow> u32 option" where
  "bimap_right b s = map_option fst (find (\<lambda>e. snd e = s) b)"

definition onLogin ::
  "(u32 \<Rightarrow> bool) \<Rightarrow> players \<Rightarrow> u32 \<Rightarrow> u32 \<Rightarrow> players_error + u32 option \<times> players" where
  "onLogin has_handler s playerID sessionID =
     (case bimap_left (playerSessionBiMap s) playerID of
        None \<Rightarrow> Inr (None, s\<lparr>playerSessionBiMap := bimap_insert (playerSessionBiMap s) playerID sessionID\<rparr>)
      | Some old \<Rightarrow>
          if old = sessionID then Inl DanglingIterator
          else if \<not> has_handler old then Inl NullHandler
          else let b = removeAll (playerID, sessionID) (playerSessionBiMap s) in
            Inr (Some old, s\<lparr>playerSessionBiMap := bimap_insert b playerID sessionID,
                             playerIDDeletedSet := insert playerID (playerIDDeletedSet s)\<rparr>))"

definition onPlayerOut :: "players \<Rightarrow> u32 \<Rightarrow> players" where
  "onPlayerOut s sessionID =
     (case bimap_right (playerSessionBiMap s) sessionID of
        None \<Rightarrow> s
      | Some p \<Rightarrow>
          if p \<notin> playerIDDeletedSet s
          then s\<lparr>playerSessionBiMap := removeAll (p, sessionID) (playerSessionBiMap s)\<rparr>
          else s\<lparr>playerIDDeletedSet := playerIDDeletedSet s - {p}\<rparr>)"

definition getPlayerID :: "u32 \<Rightarrow> players \<Rightarrow> u32 \<Rightarrow> u32" where
  "getPlayerID uninitialised s sessionID =
     (case bimap_right (playerSessionBiMap s) sessionID of Some p \<Rightarrow> p | None \<Rightarrow> uninitialised)"

definition getSessionID :: "players \<Rightarrow> u32 \<Rightarrow> u32" where
  "getSessionID s playerID =
     (case bimap_left (playerSessionBiMap s) playerID of Some i \<Rightarrow> i | None \<Rightarrow> kInvalidTCPSessionID)"

subsection \<open>The manager's sessions\<close>

inductive manager_run :: "nat \<Rightarrow> u32 \<Rightarrow> nat \<Rightarrow> 'h manager \<Rightarrow> bool" for thread_num next0 where
  start: "manager_run thread_num next0 0 (TCPIOThreadManager thread_num next0)"
| connect: "manager_run thread_num next0 n m \<Longrightarrow> OnSessionConnect allowed m h = Inr (Connected i, m') \<Longrightarrow>
    manager_run thread_num next0 (Suc n) m'"
| refuse: "manager_run thread_num next0 n m \<Longrightarrow> OnSessionConnect allowed m h = Inr (Refused, m') \<Longrightarrow>
    manager_run thread_num next0 n m'"
| thread: "manager_run thread_num next0 n m \<Longrightarrow> manager_run thread_num next0 n (snd (GetThread m))"
| close: "manager_run thread_num next0 n m \<Longrightarrow> OnSessionClose m i = Inr (h, m') \<Longrightarrow>
    manager_run thread_num next0 n m'"

definition manager_inv :: "nat \<Rightarrow> 'h manager \<Rightarrow> bool" where
  "manager_inv k m =
     (id_inv k (session_id_generator m) (fst ` set (session_handler_map m)) \<and>
      id_max (session_id_generator m) = - 1 \<and> distinct (map fst (session_handler_map m)) \<and>
      length (session_handler_map m) \<le> Suc MAX_CONNECTION_NUM)"

lemma id_Get_some: "id_max g = (- 1 :: u32) \<Longrightarrow> \<exists>i g'. id_Get g = (Some i, g') \<and> id_max g' = - 1"
  by (simp add: id_Get_def word_order.extremum)

lemma id_max_Put: "id_max (id_Put g i) = id_max g"
  by (simp add: id_Put_def)

text \<open>The identifier laws, through the interface: what the manager needs of \<open>IDGenerator\<close>.\<close>

lemma connect_step:
  assumes "manager_inv (Suc k) m"
  obtains "OnSessionConnect allowed m h = Inr (Refused, m)"
  | i m' where "OnSessionConnect allowed m h = Inr (Connected i, m')" "manager_inv k m'"
      "i \<notin> fst ` set (session_handler_map m)" "i \<noteq> 0"
      "session_handler_map m' = session_handler_map m @ [(i, h i)]"
proof (cases "\<not> allowed \<or> length (session_handler_map m) > MAX_CONNECTION_NUM")
  case True
  then show ?thesis using that(1) by (simp add: OnSessionConnect_def)
next
  case False
  let ?t = "session_handler_map m"
  from assms obtain i g where g: "id_Get (session_id_generator m) = (Some i, g)" "id_max g = - 1"
    using id_Get_some by (fastforce simp: manager_inv_def)
  have inv: "id_inv (Suc k) (session_id_generator m) (fst ` set ?t)" using assms by (simp add: manager_inv_def)
  note f = ids.get_fresh [OF inv g(1)] ids.get_inv [OF inv g(1)]
  have t: "tab_insert ?t i (h i) = (True, ?t @ [(i, h i)])" using f(1) by (intro tab_insert_new) simp
  let ?m = "m\<lparr>session_id_generator := g, session_handler_map := ?t @ [(i, h i)]\<rparr>"
  have "OnSessionConnect allowed m h = Inr (Connected i, ?m)"
    using False g t by (simp add: OnSessionConnect_def)
  moreover have "manager_inv k ?m" using assms f g False by (simp add: manager_inv_def)
  ultimately show ?thesis using that(2) [of i ?m] f(1) by simp
qed

lemma close_step:
  assumes "manager_inv k m" "OnSessionClose m i = Inr (h, m')"
  shows "manager_inv k m'"
proof (cases "map_of (session_handler_map m) i")
  case None
  then show ?thesis using assms by (auto simp: OnSessionClose_def split: if_splits)
next
  case (Some x)
  let ?t = "session_handler_map m"
  have m': "m' = m\<lparr>session_handler_map := tab_erase ?t i, session_id_generator := id_Put (session_id_generator m) i\<rparr>"
    using assms Some by (auto simp: OnSessionClose_def split: if_splits)
  have "i \<in> fst ` set ?t" using Some by (force dest: map_of_SomeD)
  then have "id_inv k (id_Put (session_id_generator m) i) (fst ` set ?t - {i})"
    using assms(1) by (intro ids.put_inv) (simp_all add: manager_inv_def)
  moreover have "length (tab_erase ?t i) \<le> length ?t" by (simp add: tab_erase_def)
  ultimately show ?thesis using assms(1)
    by (auto simp: manager_inv_def m' tab_erase_keys id_max_Put)
qed

lemma manager_run_inv:
  assumes "manager_run thread_num next0 n m" "n + k + 1 < 2 ^ 32"
  shows "manager_inv k m"
  using assms
proof (induction arbitrary: k rule: manager_run.induct)
  case start
  then show ?case
    by (auto simp: manager_inv_def TCPIOThreadManager_def kInvalidTCPSessionID_def id_inv_def IDGenerator_def)
next
  case (connect n m allowed h i m')
  have "manager_inv (Suc k) m" using connect.prems by (intro connect.IH) simp
  then show ?case
    by (rule connect_step [where allowed = allowed and h = h]) (use connect.hyps(2) in auto)
next
  case (refuse n m allowed h m')
  have "m' = m" using refuse.hyps(2)
    by (auto simp: OnSessionConnect_def Let_def split: if_splits option.splits prod.splits)
  then show ?case using refuse by simp
next
  case (thread n m)
  then show ?case by (simp add: manager_inv_def GetThread_def Let_def)
next
  case (close n m i h m')
  then show ?case using close_step by blast
qed

text \<open>
  Identifiers of sessions: until \<open>2^32 - 2\<close> sessions have connected, accepting
  one never fails (the generator has an identifier, the handler table takes it), the new
  session's identifier is not 0 nor that of an open session, and the table holds at
  most 10001 sessions.
\<close>

theorem sessions_get_fresh_ids:
  assumes "manager_run thread_num next0 n m" and "n + 2 < 2 ^ 32"
  shows "length (session_handler_map m) \<le> Suc MAX_CONNECTION_NUM \<and>
    (OnSessionConnect allowed m h = Inr (Refused, m) \<or>
     (\<exists>i m'. OnSessionConnect allowed m h = Inr (Connected i, m') \<and>
        i \<noteq> kInvalidTCPSessionID \<and> GetSessionHandler m i = None \<and> GetSessionHandler m' i = Some (h i)))"
proof -
  have inv: "manager_inv (Suc 0) m" using assms by (intro manager_run_inv) simp_all
  then have len: "length (session_handler_map m) \<le> Suc MAX_CONNECTION_NUM" by (simp add: manager_inv_def)
  from inv show ?thesis
  proof (rule connect_step [where allowed = allowed and h = h])
    assume "OnSessionConnect allowed m h = Inr (Refused, m)"
    with len show ?thesis by blast
  next
    fix i m'
    assume c: "OnSessionConnect allowed m h = Inr (Connected i, m')" "i \<noteq> 0"
      and i: "i \<notin> fst ` set (session_handler_map m)"
      and m': "session_handler_map m' = session_handler_map m @ [(i, h i)]"
    have "map_of (session_handler_map m) i = None" using i by (simp add: map_of_eq_None_iff)
    then have "GetSessionHandler m i = None" "GetSessionHandler m' i = Some (h i)"
      using m' by (simp_all add: GetSessionHandler_def map_add_def)
    with len c show ?thesis by (auto simp: kInvalidTCPSessionID_def)
  qed
qed

theorem sessions_get_fresh_ids_witness:
  "\<exists>i m'. OnSessionConnect True (TCPIOThreadManager 2 0) (\<lambda>i. i) = Inr (Connected i, m') \<and>
     i \<noteq> kInvalidTCPSessionID \<and> GetSessionHandler m' i = Some i"
proof -
  have "OnSessionConnect True (TCPIOThreadManager 2 0) (\<lambda>i. i) \<noteq> Inr (Refused, TCPIOThreadManager 2 0)"
    by (simp add: OnSessionConnect_def TCPIOThreadManager_def IDGenerator_def id_Get_def kInvalidTCPSessionID_def
        tab_insert_def word_order.extremum)
  then show ?thesis
    using sessions_get_fresh_ids [OF manager_run.start [of 2 0], of True "\<lambda>i. i"] by auto
qed

subsection \<open>Threads by turns\<close>

fun get_threads :: "nat \<Rightarrow> 'h manager \<Rightarrow> u32 list" where
  "get_threads 0 m = []"
| "get_threads (Suc k) m = (let (t, m') = GetThread m in t # get_threads k m')"

lemma GetThread_next:
  assumes "threads m = Suc n" "0 < n" "n < 2 ^ 31" "unat (next_thread_id m) \<le> n"
  shows "unat (fst (GetThread m)) = unat (next_thread_id m) mod n + 1"
    and "snd (GetThread m) = m\<lparr>next_thread_id := fst (GetThread m)\<rparr>"
proof -
  have u: "unat (next_thread_id m + 1) = unat (next_thread_id m) + 1"
    using assms by (simp add: unat_word_ariths)
  show "unat (fst (GetThread m)) = unat (next_thread_id m) mod n + 1"
    using assms u by (cases "unat (next_thread_id m) = n") (auto simp: GetThread_def Let_def)
  show "snd (GetThread m) = m\<lparr>next_thread_id := fst (GetThread m)\<rparr>"
    using assms by (simp add: GetThread_def Let_def)
qed

lemma get_threads_cycle:
  assumes "threads m = Suc n" "0 < n" "n < 2 ^ 31" "unat (next_thread_id m) \<le> n"
  shows "map unat (get_threads k m) = map (\<lambda>j. (unat (next_thread_id m) + j) mod n + 1) [0..<k]"
  using assms
proof (induction k arbitrary: m)
  case (Suc k)
  note g = GetThread_next [OF Suc.prems]
  let ?m = "snd (GetThread m)"
  have le: "unat (next_thread_id ?m) \<le> n" using g Suc.prems(2) by (simp add: Suc_leI)
  have "map unat (get_threads k ?m) = map (\<lambda>j. (unat (next_thread_id ?m) + j) mod n + 1) [0..<k]"
    using g(2) Suc.prems le by (intro Suc.IH) simp_all
  also have "\<dots> = map (\<lambda>j. (unat (next_thread_id m) + Suc j) mod n + 1) [0..<k]"
  proof (intro map_cong refl)
    fix j
    have "Suc (unat (next_thread_id m) mod n + j) mod n = Suc (unat (next_thread_id m) + j) mod n"
      by (metis mod_Suc_eq mod_add_left_eq)
    then show "(unat (next_thread_id ?m) + j) mod n + 1 = (unat (next_thread_id m) + Suc j) mod n + 1"
      using g by simp
  qed
  finally show ?case using g(1)
    by (simp add: split_beta map_Suc_upt [symmetric] comp_def upt_conv_Cons del: upt_Suc)
qed simp

lemma mod_window_less: "x < y \<Longrightarrow> y < n \<Longrightarrow> (a + x) mod n \<noteq> (a + y) mod (n :: nat)"
proof
  assume xy: "x < y" "y < n" and "(a + x) mod n = (a + y) mod n"
  then have "n dvd (a + y) - (a + x)" by (metis add_le_cancel_left less_imp_le mod_eq_dvd_iff_nat)
  then show False using xy by (auto dest: dvd_imp_le)
qed

lemma mod_window: "distinct (map (\<lambda>j. (a + j) mod n + 1) [0..<n])"
  unfolding distinct_map
proof (intro conjI inj_onI)
  fix x y assume "x \<in> set [0..<n]" "y \<in> set [0..<n]" "(a + x) mod n + 1 = (a + y) mod n + 1"
  then show "x = y" using mod_window_less [of x y n a] mod_window_less [of y x n a]
    by (cases x y rule: linorder_cases) auto
qed simp

text \<open>
  Load balancing: with \<open>n\<close> worker threads, and a counter that starts at one of
  them (or at 0), any \<open>n\<close> successive calls of \<open>GetThread\<close> return each worker
  exactly once, and never the main thread.
\<close>

theorem threads_take_turns:
  assumes "threads m = Suc n" "0 < n" "n < 2 ^ 31" "unat (next_thread_id m) \<le> n"
  shows "distinct (get_threads n m) \<and> unat ` set (get_threads n m) = {1..n} \<and>
    kMainThreadID \<notin> set (get_threads k m)"
proof -
  have d: "distinct (map unat (get_threads n m))"
    unfolding get_threads_cycle [OF assms] by (rule mod_window)
  have "length (map unat (get_threads n m)) = n"
    unfolding get_threads_cycle [OF assms] by simp
  then have card: "card (unat ` set (get_threads n m)) = n"
    using distinct_card [OF d] by simp
  have sub: "unat ` set (get_threads k m) \<subseteq> {1..n}" for k
  proof -
    have "unat ` set (get_threads k m) = set (map unat (get_threads k m))" by simp
    also have "\<dots> \<subseteq> {1..n}" unfolding get_threads_cycle [OF assms] using assms(2) by (auto simp: Suc_leI)
    finally show ?thesis .
  qed
  have "unat ` set (get_threads n m) = {1..n}"
    using card sub [of n] by (intro card_subset_eq) simp_all
  moreover have "kMainThreadID \<notin> set (get_threads k m)"
    using sub [of k] by (force simp: kMainThreadID_def)
  ultimately show ?thesis using d by (simp add: distinct_map)
qed

theorem threads_take_turns_witness:
  "distinct (get_threads 3 (TCPIOThreadManager 3 2 :: nat manager)) \<and>
    unat ` set (get_threads 3 (TCPIOThreadManager 3 2 :: nat manager)) = {1..3}"
proof -
  let ?m = "TCPIOThreadManager 3 2 :: nat manager"
  have "threads ?m = Suc 3" "0 < (3::nat)" "(3::nat) < 2 ^ 31" "unat (next_thread_id ?m) \<le> 3"
    by (simp_all add: TCPIOThreadManager_def)
  from threads_take_turns [OF this] show ?thesis by blast
qed

text \<open>The counter is not initialised: from the largest value it wraps to the main thread.\<close>

lemma GetThread_uninitialised:
  "threads m \<noteq> 1 \<Longrightarrow> 0 < threads m \<Longrightarrow> next_thread_id m = - 1 \<Longrightarrow> fst (GetThread m) = kMainThreadID"
  by (simp add: GetThread_def kMainThreadID_def)

subsection \<open>Expired sessions\<close>

lemma for_sessions_error:
  "for_sessions op q = Inl e \<longleftrightarrow> e = IteratorInvalidated \<and> (\<exists>x \<in> snd ` set q. snd (op x))"
  by (induction q) (cases e, auto simp: split_beta bind_r_def split: sum.splits)+

text \<open>
  The expiry check: when any session of the queue has been idle longer than the
  limit, \<open>checkAllSession\<close> removes it from the map it iterates over and goes on with an
  invalid iterator; it completes exactly when no session has expired, and then changes
  nothing.
\<close>

theorem expiry_check_invalidates_iterator:
  "(checkAllSession now limit q = Inl IteratorInvalidated \<longleftrightarrow>
     (\<exists>s \<in> snd ` set q. c_div (now - lastReceiveDataTime s) 1000 > limit)) \<and>
   (checkAllSession now limit q = Inl IteratorInvalidated \<or> checkAllSession now limit q = Inr q)"
proof -
  let ?op = "\<lambda>s. if c_div (getNotActiveTime now s) 1000 > limit
      then (let (s', al) = activeClose s in (s', removes al)) else (s, False)"
  have r: "snd (?op s) = (c_div (now - lastReceiveDataTime s) 1000 > limit)" for s
    by (simp add: activeClose_def PackMessageList_def removes_def getNotActiveTime_def split_beta)
  have n: "\<not> snd (?op s) \<Longrightarrow> fst (?op s) = s" for s unfolding r by (simp add: getNotActiveTime_def)
  have ok: "(\<forall>x \<in> snd ` set q. \<not> snd (?op x)) \<Longrightarrow> for_sessions ?op q = Inr q"
  proof (induction q)
    case (Cons a q)
    obtain i s where a: "a = (i, s)" by (cases a)
    with Cons have "\<not> snd (?op s)" "for_sessions ?op q = Inr q" by simp_all
    then show ?case using n [of s] a by (simp add: split_beta del: if_split)
  qed simp
  have "checkAllSession now limit q = Inl IteratorInvalidated \<longleftrightarrow> (\<exists>x \<in> snd ` set q. snd (?op x))"
    unfolding checkAllSession_def for_sessions_error by simp
  moreover have "(\<forall>x \<in> snd ` set q. \<not> snd (?op x)) \<Longrightarrow> checkAllSession now limit q = Inr q"
    unfolding checkAllSession_def by (rule ok)
  ultimately show ?thesis unfolding r by blast
qed

subsection \<open>The address filter\<close>

lemma uint_byte: "0 \<le> uint x \<and> uint x < 256" for x :: u8
  using unsigned_less [of x, where ?'a = int] by simp

lemma uint_s_addr: "uint (s_addr a b c d) = uint a + 256 * uint b + 65536 * uint c + 16777216 * uint d"
proof -
  have b: "0 \<le> uint x \<and> uint x < 256" for x :: u8 by (rule uint_byte)
  let ?n = "uint a + 256 * uint b + 65536 * uint c + 16777216 * uint d"
  have e: "s_addr a b c d = word_of_int ?n"
    unfolding s_addr_def by (simp only: ucast_eq of_int_add of_int_mult of_int_numeral) simp
  have r: "0 \<le> x + 256 * y + 65536 * z + 16777216 * w \<and> x + 256 * y + 65536 * z + 16777216 * w < 2 ^ 32"
    if "0 \<le> x \<and> x < 256" "0 \<le> y \<and> y < 256" "0 \<le> z \<and> z < 256" "0 \<le> w \<and> w < 256" for x y z w :: int
    using that by auto
  have "take_bit LENGTH(32) ?n = ?n"
    using r [OF b [of a] b [of b] b [of c] b [of d]] by (intro take_bit_int_eq_self) simp_all
  then show ?thesis unfolding e unsigned_of_int by simp
qed

definition octet_inet :: "string \<Rightarrow> u32" where
  "octet_inet s = (if s = ''192.168.1.2'' then s_addr 192 168 1 2 else if s = ''192.168.1.9'' then s_addr 192 168 1 9
     else if s = ''10.0.0.5'' then s_addr 10 0 0 5 else 0)"

text \<open>
  The address filter: the block list holds 192.168.1.2 to 192.168.1.9, but the
  comparison is between addresses in network byte order read as little-endian integers, in
  which the last octet weighs most: every address whose last octet is between 3 and 8
  is refused, from whatever network.
\<close>

theorem filter_blocks_by_last_octet:
  assumes "inet_addr ''192.168.1.2'' = s_addr 192 168 1 2" "inet_addr ''192.168.1.9'' = s_addr 192 168 1 9"
    and "inet_addr ip = s_addr a b c d" "3 \<le> d" "d \<le> 8"
  shows "\<not> isAddressAllowed inet_addr (SessionFilter inet_addr) ip"
proof -
  have l: "0 \<le> uint x \<and> uint x < 256" for x :: u8 by (rule uint_byte)
  have key: "33663168 \<le> x + 256 * y + 65536 * z + 16777216 * w \<and>
      x + 256 * y + 65536 * z + 16777216 * w \<le> 151103680"
    if "0 \<le> x \<and> x < 256" "0 \<le> y \<and> y < 256" "0 \<le> z \<and> z < 256" "3 \<le> w" "w \<le> 8" for x y z w :: int
    using that by auto
  have d: "3 \<le> uint d" "uint d \<le> 8" using assms(4,5) by (simp_all add: word_le_def)
  have "uint (s_addr 192 168 1 2) \<le> uint (s_addr a b c d)" "uint (s_addr a b c d) \<le> uint (s_addr 192 168 1 9)"
    unfolding uint_s_addr using key [OF l [of a] l [of b] l [of c] d] by simp_all
  moreover have "vectIPBlocked (SessionFilter inet_addr) = [(s_addr 192 168 1 2, s_addr 192 168 1 9)]"
    unfolding SessionFilter_def addIPRangeAccess_def assms(1,2) by simp
  ultimately show ?thesis unfolding isAddressAllowed_def assms(3) Let_def by simp
qed

theorem filter_blocks_by_last_octet_witness:
  "\<not> isAddressAllowed octet_inet (SessionFilter octet_inet) ''10.0.0.5''"
  by (rule filter_blocks_by_last_octet [where a = 10 and b = 0 and c = 0 and d = 5])
    (simp_all add: octet_inet_def)

subsection \<open>Logging in twice\<close>

text \<open>
  A player who logs in again from a new session stays mapped to the old one: the
  old session is closed, but the pair erased is the new one, so the bimap keeps the old
  pair and refuses the new; messages to the player still go to the closed session.
\<close>

theorem second_login_keeps_old_session:
  assumes "bimap_left (playerSessionBiMap s) p = Some old" "old \<noteq> new" "has_handler old"
    and "(p, new) \<notin> set (playerSessionBiMap s)"
  shows "\<exists>s'. onLogin has_handler s p new = Inr (Some old, s') \<and> getSessionID s' p = old \<and>
    playerSessionBiMap s' = playerSessionBiMap s"
proof -
  have "p \<in> fst ` set (playerSessionBiMap s)"
    using assms(1) by (force simp: bimap_left_def find_Some_iff)
  then have "bimap_insert (removeAll (p, new) (playerSessionBiMap s)) p new = playerSessionBiMap s"
    using assms(4) by (simp add: bimap_insert_def)
  then show ?thesis using assms(1-3) by (simp add: onLogin_def getSessionID_def)
qed

theorem second_login_keeps_old_session_witness:
  "\<exists>s'. onLogin (\<lambda>_. True) \<lparr>playerSessionBiMap = [(7, 1)], playerIDDeletedSet = {}\<rparr> 7 2 = Inr (Some 1, s') \<and>
    getSessionID s' 7 = 1"
proof -
  let ?s = "\<lparr>playerSessionBiMap = [(7, 1)], playerIDDeletedSet = {}\<rparr>"
  have "bimap_left (playerSessionBiMap ?s) 7 = Some 1" "(1::u32) \<noteq> 2" "(7, 2) \<notin> set (playerSessionBiMap ?s)"
    by (simp_all add: bimap_left_def)
  from second_login_keeps_old_session [OF this(1,2) _ this(3), of "\<lambda>_. True"] show ?thesis by auto
qed

subsection \<open>The handler's messages\<close>

datatype 'm handler_event = H_send 'm bool | H_pack | H_timer bool | H_delay "nat option" | H_close

fun handler_step :: "'m handler \<Rightarrow> 'm handler_event \<Rightarrow> 'm handler \<times> 'm handler_action list" where
  "handler_step h (H_send m e) = Send h m e"
| "handler_step h H_pack = pack_list h"
| "handler_step h (H_timer err) = HandleSendTimer True h err"
| "handler_step h (H_delay d) = (SetSendDelay h d, [])"
| "handler_step h H_close = handler_Close h"

fun posted :: "'m handler_action list \<Rightarrow> 'm list" where
  "posted [] = []"
| "posted (Post_list t i ms # as) = ms @ posted as"
| "posted (a # as) = posted as"

fun handler_run :: "'m handler \<Rightarrow> 'm handler_event list \<Rightarrow> 'm handler \<times> 'm handler_action list" where
  "handler_run h [] = (h, [])"
| "handler_run h (e # es) = (let (h1, al) = handler_step h e; (h2, bl) = handler_run h1 es in (h2, al @ bl))"

definition sent_by :: "'m handler_event list \<Rightarrow> 'm list" where
  "sent_by es = concat (map (\<lambda>e. case e of H_send m False \<Rightarrow> [m] | _ \<Rightarrow> []) es)"

lemma posted_append: "posted (as @ bs) = posted as @ posted bs"
  by (induction as rule: posted.induct) simp_all

lemma handler_step_id: "session_id (fst (handler_step h e)) = session_id h"
  by (cases e) (auto simp: Send_def pack_list_def HandleSendTimer_def send_directly_def SetSendDelay_def
      handler_Close_def Let_def split_beta)

lemma handler_step_messages:
  "session_id h \<noteq> kInvalidTCPSessionID \<Longrightarrow>
     posted (snd (handler_step h e)) @ to_be_sent (fst (handler_step h e)) = to_be_sent h @ sent_by [e]"
  by (cases e) (auto simp: Send_def IsClosed_def pack_list_def HandleSendTimer_def send_directly_def SetSendDelay_def
      handler_Close_def Let_def split_beta sent_by_def)

text \<open>
  Order of the handler's messages: while its session is open, whatever mixture of
  sends, pack tasks, send timers and changes of delay happens, the lists posted to the
  session's thread, one after the other, followed by what still waits, are exactly the
  nonempty messages given to \<open>Send\<close>, in order.
\<close>

theorem handler_posts_in_order:
  assumes "session_id h \<noteq> kInvalidTCPSessionID"
  shows "posted (snd (handler_run h es)) @ to_be_sent (fst (handler_run h es)) = to_be_sent h @ sent_by es"
  using assms
proof (induction es arbitrary: h)
  case (Cons e es)
  let ?h = "fst (handler_step h e)"
  have "session_id ?h \<noteq> kInvalidTCPSessionID" using Cons.prems by (simp add: handler_step_id)
  note IH = Cons.IH [OF this] and step = handler_step_messages [OF Cons.prems, of e]
  have "posted (snd (handler_run h (e # es))) @ to_be_sent (fst (handler_run h (e # es))) =
      posted (snd (handler_step h e)) @ (to_be_sent ?h @ sent_by es)"
    by (simp add: split_beta posted_append IH)
  also have "\<dots> = (to_be_sent h @ sent_by [e]) @ sent_by es"
    by (simp only: append_assoc [symmetric] step)
  finally show ?case by (simp add: sent_by_def)
qed (simp add: sent_by_def)

theorem handler_posts_in_order_witness:
  "posted (snd (handler_run (handler_Init (TCPSessionHandler 0) 5 1) [H_send ''a'' False, H_pack, H_send ''b'' False]))
     = [''a'']"
proof -
  let ?h = "handler_Init (TCPSessionHandler 0) 5 1 :: string handler"
  have "session_id ?h \<noteq> kInvalidTCPSessionID" by (simp add: handler_Init_def kInvalidTCPSessionID_def)
  from handler_posts_in_order [OF this, of "[H_send ''a'' False, H_pack, H_send ''b'' False]"]
  show ?thesis
    by (simp add: Send_def IsClosed_def pack_list_def handler_Init_def TCPSessionHandler_def kInvalidTCPSessionID_def
        kMainThreadID_def sent_by_def)
qed
end
