(* ===== verification/Zmsg.thy ===== *)
theory Zmsg
  imports Prelude
begin

section \<open>zmsg: multipart messages of the message broker\<close>

text \<open>
  Models \<open>module/zmsg.hpp\<close>, which the router, the workers and the clients of the
  broker share, and the constants of \<open>module/mdp.h\<close>. A message is the vector
  \<open>m_part_data\<close> of its frames. Frames that go through \<open>char *\<close> lose what follows
  their first NUL (\<open>cstr\<close>), and identities that ZeroMQ generated (17 bytes, the
  first one NUL) travel in the program as 33 characters.
\<close>

type_synonym zmsg = "string list"

definition MDPC_CLIENT :: string where "MDPC_CLIENT = ''CLIENT''"
definition MDPW_WORKER :: string where "MDPW_WORKER = ''WORKER''"
definition MDPW_READY :: string where "MDPW_READY = [CHR 0x01]"
definition MDPW_REQUEST :: string where "MDPW_REQUEST = [CHR 0x02]"
definition MDPW_REPLY :: string where "MDPW_REPLY = [CHR 0x03]"
definition MDPW_HEARTBEAT :: string where "MDPW_HEARTBEAT = [CHR 0x04]"
definition MDPW_DISCONNECT :: string where "MDPW_DISCONNECT = [CHR 0x05]"

lemmas mdp_defs = MDPC_CLIENT_def MDPW_WORKER_def MDPW_READY_def MDPW_REQUEST_def MDPW_REPLY_def
  MDPW_HEARTBEAT_def MDPW_DISCONNECT_def

lemma mdp_constants_keep [simp]:
  "cstr MDPC_CLIENT = MDPC_CLIENT" "cstr MDPW_WORKER = MDPW_WORKER" "cstr MDPW_READY = MDPW_READY"
  "cstr MDPW_REQUEST = MDPW_REQUEST" "cstr MDPW_REPLY = MDPW_REPLY"
  "cstr MDPW_HEARTBEAT = MDPW_HEARTBEAT" "cstr MDPW_DISCONNECT = MDPW_DISCONNECT"
  by (simp_all add: mdp_defs cstr_def)

subsection \<open>Identities as text\<close>

definition hex_char :: string where
  "hex_char = ''0123456789ABCDEF''"

definition hex_to_bin :: "int list" where
  "hex_to_bin = replicate 48 (-1) @ [0, 1, 2, 3, 4, 5, 6, 7, 8, 9] @ replicate 7 (-1) @
     [10, 11, 12, 13, 14, 15] @ replicate 26 (-1) @ [10, 11, 12, 13, 14, 15] @ replicate 25 (-1)"

text \<open>The two characters of a byte, and the byte two characters stand for.\<close>

definition hex_of_byte :: "char \<Rightarrow> string" where
  "hex_of_byte c = [hex_char ! unat (drop_bit 4 (byte_of c)), hex_char ! unat (byte_of c AND 15)]"

definition byte_of_hex :: "char \<Rightarrow> char \<Rightarrow> char" where
  "byte_of_hex h l =
     char_of_byte (word_of_int (hex_to_bin ! unat (byte_of h AND 127) * 16 + hex_to_bin ! unat (byte_of l AND 127)))"

definition encode_uuid :: "string \<Rightarrow> crash + string" where
  "encode_uuid data =
     (if data ! 0 \<noteq> CHR 0x00 then Inl AssertFailed
      else Inr (CHR ''@'' # concat (map (\<lambda>byte_nbr. hex_of_byte (data ! (byte_nbr + 1))) [0..<16])))"

definition decode_uuid :: "string \<Rightarrow> crash + string" where
  "decode_uuid uuidstr =
     (if length (cstr uuidstr) \<noteq> 33 then Inl AssertFailed
      else if uuidstr ! 0 \<noteq> CHR ''@'' then Inl AssertFailed
      else Inr (CHR 0x00 # map (\<lambda>byte_nbr. byte_of_hex (uuidstr ! (byte_nbr * 2 + 1)) (uuidstr ! (byte_nbr * 2 + 2)))
                              [0..<16]))"

subsection \<open>Receiving and sending\<close>

text \<open>One frame of \<open>recv\<close> and one frame of \<open>send\<close>.\<close>

definition recv_frame :: "string \<Rightarrow> crash + string" where
  "recv_frame message =
     (if length message = 17 \<and> message ! 0 = CHR 0x00
      then bind_r (encode_uuid message) (\<lambda>uuidstr. Inr (cstr uuidstr))
      else Inr message)"

definition send_frame :: "string \<Rightarrow> crash + string" where
  "send_frame data =
     (if length data = 33 \<and> data ! 0 = CHR ''@'' then decode_uuid data else Inr data)"

fun each_frame :: "(string \<Rightarrow> crash + string) \<Rightarrow> zmsg \<Rightarrow> crash + zmsg" where
  "each_frame f [] = Inr []"
| "each_frame f (p # ps) = bind_r (f p) (\<lambda>q. bind_r (each_frame f ps) (\<lambda>qs. Inr (q # qs)))"

definition recv :: "zmsg \<Rightarrow> crash + zmsg" where
  "recv wire = each_frame recv_frame wire"

definition send :: "zmsg \<Rightarrow> crash + zmsg" where
  "send msg = each_frame send_frame msg"

subsection \<open>Frames at the front and at the back\<close>

definition parts :: "zmsg \<Rightarrow> nat" where
  "parts msg = length msg"

definition set_part :: "nat \<Rightarrow> string \<Rightarrow> zmsg \<Rightarrow> zmsg" where
  "set_part part_nbr data msg = (if part_nbr < length msg then msg[part_nbr := cstr data] else msg)"

definition push_front :: "string \<Rightarrow> zmsg \<Rightarrow> zmsg" where
  "push_front part msg = cstr part # msg"

definition push_back :: "string \<Rightarrow> zmsg \<Rightarrow> zmsg" where
  "push_back part msg = msg @ [cstr part]"

text \<open>The overloads of \<open>push_back\<close> that take a length or a \<open>ustring\<close> keep every byte.\<close>

definition push_back_data :: "string \<Rightarrow> zmsg \<Rightarrow> zmsg" where
  "push_back_data data msg = msg @ [data]"

definition body_set :: "string \<Rightarrow> zmsg \<Rightarrow> zmsg" where
  "body_set body msg = push_back body (if length msg > 0 then butlast msg else msg)"

definition body_set_data :: "string \<Rightarrow> zmsg \<Rightarrow> zmsg" where
  "body_set_data body msg = push_back_data body (if length msg > 0 then butlast msg else msg)"

text \<open>\<open>body\<close>, \<open>body_data\<close> and \<open>address\<close> return a null pointer for a message without frames.\<close>

definition body :: "zmsg \<Rightarrow> string option" where
  "body msg = (if length msg > 0 then Some (cstr (last msg)) else None)"

definition body_data :: "zmsg \<Rightarrow> string option" where
  "body_data msg = (if length msg > 0 then Some (last msg) else None)"

definition address :: "zmsg \<Rightarrow> string option" where
  "address msg = (if length msg > 0 then Some (cstr (msg ! 0)) else None)"

text \<open>\<open>return 0\<close> in a function that returns a \<open>ustring\<close> builds it from a null pointer.\<close>

definition pop_front :: "zmsg \<Rightarrow> crash + string \<times> zmsg" where
  "pop_front msg = (case msg of [] \<Rightarrow> Inl NullString | part # rest \<Rightarrow> Inr (part, rest))"

text \<open>Every use of \<open>pop_front\<close> in the broker and its workers goes through \<open>c_str()\<close>.\<close>

definition pop_cstr :: "zmsg \<Rightarrow> crash + string \<times> zmsg" where
  "pop_cstr msg = bind_r (pop_front msg) (\<lambda>(part, rest). Inr (cstr part, rest))"

definition wrap :: "string \<Rightarrow> string option \<Rightarrow> zmsg \<Rightarrow> zmsg" where
  "wrap addr delim msg =
     push_front addr (case delim of None \<Rightarrow> msg | Some d \<Rightarrow> push_front d msg)"

definition unwrap :: "zmsg \<Rightarrow> crash + string \<times> zmsg" where
  "unwrap msg =
     (if length msg = 0 then Inl NullString
      else bind_r (pop_cstr msg) (\<lambda>(addr, rest).
        if address rest = Some [] then bind_r (pop_front rest) (\<lambda>(_, rest'). Inr (addr, rest'))
        else Inr (addr, rest)))"

lemma pop_cstr_simps [simp]:
  "pop_cstr [] = Inl NullString"
  "pop_cstr (p # ps) = Inr (cstr p, ps)"
  by (simp_all add: pop_cstr_def pop_front_def)

lemma pop_front_simps [simp]:
  "pop_front [] = Inl NullString"
  "pop_front (p # ps) = Inr (p, ps)"
  by (simp_all add: pop_front_def)

lemma wrap_simps [simp]:
  "wrap a None msg = cstr a # msg"
  "wrap a (Some d) msg = cstr a # cstr d # msg"
  by (simp_all add: wrap_def push_front_def)

lemma unwrap_delimited [simp]:
  "unwrap (a # [] # msg) = Inr (cstr a, msg)"
  by (simp add: unwrap_def address_def)

lemma unwrap_Nil [simp]: "unwrap [] = Inl NullString"
  by (simp add: unwrap_def)

lemma parts_simps [simp]: "parts [] = 0" "parts (p # ps) = Suc (parts ps)"
  by (simp_all add: parts_def)

lemma each_frame_append [simp]:
  "each_frame f (ps @ qs) = bind_r (each_frame f ps) (\<lambda>x. bind_r (each_frame f qs) (\<lambda>y. Inr (x @ y)))"
  by (induction ps) (auto simp: bind_r_def split: sum.splits)

subsection \<open>Which frames are sent as they are\<close>

text \<open>A frame that \<open>send\<close> does not take for the text of an identity.\<close>

definition plain :: "string \<Rightarrow> bool" where
  "plain s \<longleftrightarrow> \<not> (length s = 33 \<and> s ! 0 = CHR ''@'')"

lemma send_frame_plain [simp]: "plain s \<Longrightarrow> send_frame s = Inr s"
  by (auto simp: plain_def send_frame_def)

lemma each_frame_plain [simp]: "list_all plain ps \<Longrightarrow> each_frame send_frame ps = Inr ps"
  by (induction ps) simp_all

lemma plain_short: "length s < 33 \<Longrightarrow> plain s"
  by (auto simp: plain_def)

lemma plain_constants [simp]:
  "plain []" "plain MDPC_CLIENT" "plain MDPW_WORKER" "plain MDPW_READY" "plain MDPW_REQUEST"
  "plain MDPW_REPLY" "plain MDPW_HEARTBEAT" "plain MDPW_DISCONNECT"
  by (simp_all add: mdp_defs plain_short)

text \<open>The crash of \<open>send\<close>: a frame of 33 bytes with \<open>@\<close> in front and a NUL inside.\<close>

definition sendable_frame :: "string \<Rightarrow> bool" where
  "sendable_frame s \<longleftrightarrow> plain s \<or> CHR 0x00 \<notin> set s"

lemma send_frame_ok_iff: "is_ok (send_frame s) \<longleftrightarrow> sendable_frame s"
proof (cases "plain s")
  case True
  then show ?thesis by (simp add: sendable_frame_def)
next
  case False
  then have l: "length s = 33" and a: "s ! 0 = CHR ''@''" by (simp_all add: plain_def)
  have "length (cstr s) = length s \<longleftrightarrow> CHR 0x00 \<notin> set s"
  proof
    assume len: "length (cstr s) = length s"
    have "s = cstr s @ dropWhile (\<lambda>c. c \<noteq> CHR 0x00) s" by (simp add: cstr_def)
    with len have "cstr s = s" by (metis append_eq_conv_conj take_all_iff order_refl)
    then have "set s = set (cstr s)" by simp
    then show "CHR 0x00 \<notin> set s" by (auto simp: cstr_def dest: set_takeWhileD)
  qed (simp add: cstr_no_nul)
  with False l a show ?thesis
    by (auto simp: send_frame_def decode_uuid_def sendable_frame_def)
qed

subsection \<open>Identities come back\<close>

lemma hex_digit_check:
  "list_all (\<lambda>k. hex_to_bin ! unat (byte_of (hex_char ! k) AND 127) = int k \<and> hex_char ! k \<noteq> CHR 0x00) [0..<16]"
  by code_simp

lemma hex_digit:
  "k < 16 \<Longrightarrow> hex_to_bin ! unat (byte_of (hex_char ! k) AND 127) = int k \<and> hex_char ! k \<noteq> CHR 0x00"
  using hex_digit_check by (simp only: list_all_iff set_upt atLeastLessThan_iff) simp

lemma nibbles: "drop_bit 4 (w :: u8) * 16 + (w AND 15) = w"
proof -
  have "drop_bit 4 w * 16 = push_bit 4 (drop_bit 4 w)" by (simp add: push_bit_eq_mult)
  moreover have "w AND 15 = take_bit 4 w" by (simp add: take_bit_eq_mask mask_eq_exp_minus_1)
  ultimately show ?thesis using bits_ident [of 4 w] by simp
qed

lemma word_nat_of_unat: "word_of_nat (unat (w :: u8)) = w"
  by simp

lemma nibble_less: "unat (drop_bit 4 (w :: u8)) < 16" "unat ((w :: u8) AND 15) < 16"
proof -
  have "unat (drop_bit 4 w) = unat w div 16" by (simp add: drop_bit_eq_div unat_div)
  then show "unat (drop_bit 4 w) < 16" using byte_less [of w] by linarith
  have "w AND 15 = take_bit 4 w" by (simp add: take_bit_eq_mask mask_eq_exp_minus_1)
  then have "unat (w AND 15) = take_bit 4 (unat w)" by (simp add: unsigned_take_bit_eq)
  then show "unat (w AND 15) < 16" using take_bit_nat_less_exp [of 4 "unat w"] by simp
qed

lemma hex_of_byte_ok:
  "byte_of_hex (hex_of_byte c ! 0) (hex_of_byte c ! 1) = c" "CHR 0x00 \<notin> set (hex_of_byte c)"
proof -
  let ?w = "byte_of c"
  have "word_of_int (int (unat (drop_bit 4 ?w)) * 16 + int (unat (?w AND 15))) = drop_bit 4 ?w * 16 + (?w AND 15)"
    by (simp only: of_int_add of_int_mult of_int_of_nat_eq of_int_numeral word_nat_of_unat)
  also have "\<dots> = ?w" by (rule nibbles)
  finally show "byte_of_hex (hex_of_byte c ! 0) (hex_of_byte c ! 1) = c"
    using hex_digit [OF nibble_less(1) [of ?w]] hex_digit [OF nibble_less(2) [of ?w]]
    by (simp only: byte_of_hex_def hex_of_byte_def nth_Cons_0 nth_Cons_Suc One_nat_def char_of_byte_byte_of)
  show "CHR 0x00 \<notin> set (hex_of_byte c)"
    using hex_digit [OF nibble_less(1) [of ?w]] hex_digit [OF nibble_less(2) [of ?w]]
    by (auto simp: hex_of_byte_def)
qed

lemma concat_pairs_nth:
  assumes "\<And>i. i < n \<Longrightarrow> length (f i) = 2" and "i < n"
  shows "concat (map f [0..<n]) ! (2 * i) = f i ! 0" and "concat (map f [0..<n]) ! (2 * i + 1) = f i ! 1"
proof -
  have len: "length (concat (map f [0..<m])) = 2 * m" if "m \<le> n" for m
    using that by (induction m) (simp_all add: assms(1))
  have "concat (map f [0..<n]) ! (2 * i) = f i ! 0 \<and> concat (map f [0..<n]) ! (2 * i + 1) = f i ! 1"
    if "i < n" and "n \<le> n'" and "\<And>m. m \<le> n' \<Longrightarrow> length (concat (map f [0..<m])) = 2 * m"
      and "\<And>i. i < n' \<Longrightarrow> length (f i) = 2" for n n'
    using that
  proof (induction n)
    case (Suc n)
    then show ?case
      by (cases "i = n") (auto simp: nth_append Suc.prems(3) less_Suc_eq)
  qed simp
  from this [OF assms(2) order_refl len assms(1)]
  show "concat (map f [0..<n]) ! (2 * i) = f i ! 0" and "concat (map f [0..<n]) ! (2 * i + 1) = f i ! 1"
    by blast+
qed

lemma length_hex_of_byte [simp]: "length (hex_of_byte c) = 2"
  by (simp add: hex_of_byte_def)

lemma length_concat_pairs:
  "(\<And>i. i < n \<Longrightarrow> length (f i) = 2) \<Longrightarrow> length (concat (map f [0..<n])) = 2 * n"
  by (induction n) simp_all

lemma uuid_round_trip_lemma:
  assumes "length data = 17" and "data ! 0 = CHR 0x00"
  obtains t where "encode_uuid data = Inr t" and "length t = 33" and "t ! 0 = CHR ''@''"
    and "CHR 0x00 \<notin> set t" and "decode_uuid t = Inr data"
proof -
  let ?f = "\<lambda>byte_nbr. hex_of_byte (data ! (byte_nbr + 1))"
  let ?t = "CHR ''@'' # concat (map ?f [0..<16])"
  have e: "encode_uuid data = Inr ?t" using assms by (simp add: encode_uuid_def)
  have l: "length ?t = 33" using length_concat_pairs [of 16 ?f] by simp
  have z: "CHR 0x00 \<notin> set ?t" using hex_of_byte_ok(2) by auto
  have nth: "?t ! (i * 2 + 1) = ?f i ! 0" "?t ! (i * 2 + 2) = ?f i ! 1" if "i < 16" for i
    using concat_pairs_nth [of 16 ?f i, OF _ that] by (simp_all add: mult.commute)
  have "map (\<lambda>i. byte_of_hex (?t ! (i * 2 + 1)) (?t ! (i * 2 + 2))) [0..<16] = map (\<lambda>i. data ! (i + 1)) [0..<16]"
    by (rule map_cong [OF refl]) (simp only: nth hex_of_byte_ok set_upt atLeastLessThan_iff)
  moreover have "CHR 0x00 # map (\<lambda>i. data ! (i + 1)) [0..<16] = data"
    using assms by (intro nth_equalityI) (auto simp: nth_Cons split: nat.splits)
  moreover have "length (cstr ?t) = 33" using l cstr_no_nul [OF z] by (simp only:)
  moreover have "?t ! 0 = CHR ''@''" by (rule nth_Cons_0)
  ultimately have "decode_uuid ?t = Inr data"
    by (simp only: decode_uuid_def if_False simp_thms)
  with e l z show ?thesis by (intro that) simp_all
qed

text \<open>
  A peer's identity comes back to it. When the broker answers a message, the frame
  it puts in front is the first frame of the message it received, through
  \<open>recv\<close>, a C string, and \<open>send\<close>; for an identity that ZeroMQ generated
  (17 bytes, the first NUL), and for every identity without NULs that is not 33
  characters with \<open>@\<close> in front, these are the bytes it received, so the answer reaches
  the peer that asked.
\<close>

theorem identity_comes_back:
  assumes "length ident = 17 \<and> ident ! 0 = CHR 0x00 \<or> CHR 0x00 \<notin> set ident \<and> plain ident"
  shows "bind_r (recv [ident]) (\<lambda>msg. bind_r (pop_cstr msg) (\<lambda>(sender, _). send (wrap sender None []))) = Inr [ident]"
proof (cases "length ident = 17 \<and> ident ! 0 = CHR 0x00")
  case True
  then obtain t where t: "encode_uuid ident = Inr t" "length t = 33" "t ! 0 = CHR ''@''" "CHR 0x00 \<notin> set t"
    "decode_uuid t = Inr ident"
    using uuid_round_trip_lemma by blast
  with True show ?thesis by (simp add: recv_def send_def recv_frame_def send_frame_def cstr_no_nul)
next
  case False
  with assms have "CHR 0x00 \<notin> set ident" and "plain ident" by auto
  moreover have "recv_frame ident = Inr ident" using False by (auto simp: recv_frame_def)
  ultimately show ?thesis by (simp add: recv_def send_def cstr_no_nul)
qed

theorem identity_comes_back_witness:
  "bind_r (recv [CHR 0x00 # replicate 16 (CHR ''x'')])
     (\<lambda>msg. bind_r (pop_cstr msg) (\<lambda>(sender, _). send (wrap sender None []))) =
   Inr [CHR 0x00 # replicate 16 (CHR ''x'')]"
  by (rule identity_comes_back) simp

end
