(* ===== verification/Broker_Service.thy ===== *)
theory Broker_Service
  imports Zmsg
begin

section \<open>Services of the broker and their policies\<close>

text \<open>
  Models \<open>router/service.hpp\<close>, \<open>router/worker.hpp\<close> and the dispatch loop of
  \<open>router/mdbroker.cpp\<close>. A \<open>BrokerWorker *\<close> is the identity of the worker: the
  broker keeps one worker for an identity and never deletes it. The two subclasses of
  \<open>Service\<close> differ in \<open>pop_worker\<close>; what the loop needs of that virtual function is
  the locale \<open>worker_policy\<close>.
\<close>

datatype service_type = ServiceWaitResponse | ServiceDoNotWaitResponse

text \<open>
  \<open>pos\<close> is an address in the buffer of \<open>m_waiting\<close>: it stays what it is when an element
  is erased, and it dangles once \<open>push_back\<close> has moved the elements to a new buffer.
\<close>

datatype iterator = Singular | At nat | Dangling

record service =
  m_name :: string
  m_type :: service_type
  m_waiting :: "string list"
  capacity :: nat
  m_requests :: "zmsg list"
  pos :: iterator
  if_pos_init :: bool

record worker =
  m_identity :: string
  m_service :: "nat option"
  m_expiry :: int

definition expired :: "int \<Rightarrow> worker \<Rightarrow> bool" where
  "expired s_clock w \<longleftrightarrow> m_expiry w < s_clock"

definition BrokerWorker :: "string \<Rightarrow> worker" where
  "BrokerWorker identity = \<lparr>m_identity = identity, m_service = None, m_expiry = 0\<rparr>"

definition new_service :: "service_type \<Rightarrow> string \<Rightarrow> service" where
  "new_service t name = \<lparr>m_name = name, m_type = t, m_waiting = [], capacity = 0, m_requests = [],
     pos = Singular, if_pos_init = False\<rparr>"

definition CreateService :: "string \<Rightarrow> string \<Rightarrow> service option" where
  "CreateService service_type service_name =
     (if service_type = ''ServiceWaitResponse'' then Some (new_service ServiceWaitResponse service_name)
      else if service_type = ''ServiceDoNotWaitResponse'' then Some (new_service ServiceDoNotWaitResponse service_name)
      else None)"

fun type_name :: "service_type \<Rightarrow> string" where
  "type_name ServiceWaitResponse = ''ServiceWaitResponse''"
| "type_name ServiceDoNotWaitResponse = ''ServiceDoNotWaitResponse''"

subsection \<open>Operations of Service\<close>

text \<open>\<open>m_waiting.push_back\<close>: a full buffer is replaced by one of twice the capacity.\<close>

definition push_waiting :: "string \<Rightarrow> service \<Rightarrow> service" where
  "push_waiting w s =
     (if length (m_waiting s) < capacity s then s\<lparr>m_waiting := m_waiting s @ [w]\<rparr>
      else s\<lparr>m_waiting := m_waiting s @ [w], capacity := max 1 (2 * capacity s),
             pos := (if if_pos_init s then Dangling else pos s)\<rparr>)"

definition worker_waiting :: "string \<Rightarrow> service \<Rightarrow> service" where
  "worker_waiting w s = (if list_ex (\<lambda>it. it = w) (m_waiting s) then s else push_waiting w s)"

definition delete_worker :: "string \<Rightarrow> service \<Rightarrow> service" where
  "delete_worker w s = s\<lparr>m_waiting := erase_loop (\<lambda>it. it = w) 0 (m_waiting s)\<rparr>"

definition pop_request :: "service \<Rightarrow> zmsg option \<times> service" where
  "pop_request s =
     (case m_requests s of [] \<Rightarrow> (None, s) | m # ms \<Rightarrow> (Some m, s\<lparr>m_requests := ms\<rparr>))"

definition has_actived_worker :: "(string \<Rightarrow> bool) \<Rightarrow> service \<Rightarrow> nat \<times> service" where
  "has_actived_worker dead s =
     (let ws = erase_loop dead 0 (m_waiting s) in (length ws, s\<lparr>m_waiting := ws\<rparr>))"

lemma has_actived_worker_eq [simp]:
  "has_actived_worker dead s =
     (length (filter (\<lambda>w. \<not> dead w) (m_waiting s)), s\<lparr>m_waiting := filter (\<lambda>w. \<not> dead w) (m_waiting s)\<rparr>)"
  by (simp add: has_actived_worker_def erase_loop_filter Let_def)

text \<open>
  \<open>copy\<close> fills a new service from an old one and empties the old one; the workers it
  names have their \<open>m_service\<close> moved to the new one by the caller.
\<close>

definition copy_service :: "service \<Rightarrow> service \<Rightarrow> service \<times> service" where
  "copy_service this srv =
     (this\<lparr>m_requests := m_requests srv, m_waiting := m_waiting srv, capacity := length (m_waiting srv)\<rparr>,
      srv\<lparr>m_requests := [], m_waiting := []\<rparr>)"

subsection \<open>The two policies\<close>

definition pop_worker_wait :: "service \<Rightarrow> crash + string option \<times> service" where
  "pop_worker_wait s =
     (case m_waiting s of
        [] \<Rightarrow> Inr (None, s)
      | w # ws \<Rightarrow> Inr (Some w, s\<lparr>m_waiting := ws\<rparr>))"

definition pop_worker_nowait :: "service \<Rightarrow> crash + string option \<times> service" where
  "pop_worker_nowait s =
     (if m_waiting s = [] then Inr (None, s)
      else let s1 = (if pos s = At (length (m_waiting s)) \<or> \<not> if_pos_init s
                     then s\<lparr>if_pos_init := True, pos := At 0\<rparr> else s) in
        case pos s1 of
          At i \<Rightarrow> if i < length (m_waiting s1)
                  then Inr (Some (m_waiting s1 ! i), s1\<lparr>pos := At (Suc i)\<rparr>)
                  else Inl StaleIterator
        | _ \<Rightarrow> Inl StaleIterator)"

definition pop_worker :: "service \<Rightarrow> crash + string option \<times> service" where
  "pop_worker s =
     (case m_type s of
        ServiceWaitResponse \<Rightarrow> pop_worker_wait s
      | ServiceDoNotWaitResponse \<Rightarrow> pop_worker_nowait s)"

subsection \<open>One round of the dispatch loop\<close>

text \<open>The condition and the body up to \<open>worker_send\<close>; \<open>None\<close> when the loop ends.\<close>

definition dispatch_round ::
  "(service \<Rightarrow> crash + string option \<times> service) \<Rightarrow> (string \<Rightarrow> bool) \<Rightarrow> service \<Rightarrow>
     crash + service \<times> (string \<times> zmsg) option" where
  "dispatch_round pop dead s =
     (if m_requests s = [] then Inr (s, None)
      else let (n, s1) = has_actived_worker dead s in
        if n = 0 then Inr (s1, None)
        else bind_r (pop s1) (\<lambda>(wrk, s2). case wrk of
               None \<Rightarrow> Inr (s2, None)
             | Some w \<Rightarrow> let (msg, s3) = pop_request s2 in
                 Inr (s3, Some (w, case msg of None \<Rightarrow> [] | Some m \<Rightarrow> m))))"

locale worker_policy =
  fixes pop :: "service \<Rightarrow> crash + string option \<times> service"
    and usable :: "service \<Rightarrow> bool"
  assumes pop_keeps: "pop s = Inr (w, s') \<Longrightarrow>
        m_requests s' = m_requests s \<and> m_name s' = m_name s \<and> m_type s' = m_type s"
    and pop_shrinks: "pop s = Inr (w, s') \<Longrightarrow> \<exists>k. m_waiting s' = drop k (m_waiting s)"
    and pop_picks: "pop s = Inr (w, s') \<Longrightarrow> m_waiting s \<noteq> [] \<Longrightarrow> \<exists>v. w = Some v \<and> v \<in> set (m_waiting s)"
    and pop_returns: "usable s \<Longrightarrow> is_ok (pop s)"
begin

lemma round_elim:
  assumes "dispatch_round pop dead s = Inr (s', r)"
    and "m_requests s \<noteq> []" and "filter (\<lambda>w. \<not> dead w) (m_waiting s) \<noteq> []"
  obtains w s2 where "pop (s\<lparr>m_waiting := filter (\<lambda>w. \<not> dead w) (m_waiting s)\<rparr>) = Inr (Some w, s2)"
    and "w \<in> set (m_waiting s)" and "\<not> dead w" and "m_requests s2 = m_requests s"
    and "s' = s2\<lparr>m_requests := tl (m_requests s)\<rparr>" and "r = Some (w, hd (m_requests s))"
proof -
  let ?s1 = "s\<lparr>m_waiting := filter (\<lambda>w. \<not> dead w) (m_waiting s)\<rparr>"
  from assms obtain wrk s2 where p: "pop ?s1 = Inr (wrk, s2)"
    by (cases "pop ?s1") (auto simp: dispatch_round_def)
  from pop_picks [OF p] assms(3) obtain w where w: "wrk = Some w" "w \<in> set (m_waiting s)" "\<not> dead w" by auto
  from pop_keeps [OF p] have q: "m_requests s2 = m_requests s" by simp
  show thesis
    using that [of w s2] assms p w q by (auto simp: dispatch_round_def pop_request_def split: list.splits)
qed

lemma round_stop:
  "m_requests s = [] \<Longrightarrow> dispatch_round pop dead s = Inr (s, None)"
  "m_requests s \<noteq> [] \<Longrightarrow> filter (\<lambda>w. \<not> dead w) (m_waiting s) = [] \<Longrightarrow>
     dispatch_round pop dead s = Inr (s\<lparr>m_waiting := []\<rparr>, None)"
  by (simp_all add: dispatch_round_def)

lemma round_cases:
  assumes "dispatch_round pop dead s = Inr (s', r)"
  shows "(r = None \<longrightarrow> m_requests s' = m_requests s \<and> (m_requests s' = [] \<or> m_waiting s' = [])) \<and>
    (\<forall>w m. r = Some (w, m) \<longrightarrow> m_requests s = m # m_requests s' \<and> w \<in> set (m_waiting s) \<and> \<not> dead w)"
proof (cases "m_requests s = [] \<or> filter (\<lambda>w. \<not> dead w) (m_waiting s) = []")
  case True
  with assms round_stop show ?thesis by fastforce
next
  case False
  with assms show ?thesis by (auto elim!: round_elim)
qed

lemma round_keeps:
  assumes "dispatch_round pop dead s = Inr (s', r)"
  shows "m_name s' = m_name s \<and> m_type s' = m_type s \<and>
    (m_waiting s' = m_waiting s \<or> (\<exists>k. m_waiting s' = drop k (filter (\<lambda>w. \<not> dead w) (m_waiting s))))"
proof (cases "m_requests s = [] \<or> filter (\<lambda>w. \<not> dead w) (m_waiting s) = []")
  case True
  with assms round_stop show ?thesis by fastforce
next
  case False
  with assms obtain w s2 where p: "pop (s\<lparr>m_waiting := filter (\<lambda>w. \<not> dead w) (m_waiting s)\<rparr>) = Inr (Some w, s2)"
    and "s' = s2\<lparr>m_requests := tl (m_requests s)\<rparr>"
    by (auto elim!: round_elim)
  with pop_keeps [OF p] pop_shrinks [OF p] show ?thesis by auto
qed

lemma round_returns:
  assumes "usable (snd (has_actived_worker dead s))"
  shows "is_ok (dispatch_round pop dead s)"
proof -
  from pop_returns [OF assms] show ?thesis
    by (cases "pop (snd (has_actived_worker dead s))")
      (auto simp: dispatch_round_def split: option.splits prod.splits)
qed

end

text \<open>\<open>pos\<close> is not yet set, or within the buffer of \<open>m_waiting\<close>.\<close>

definition iterator_usable :: "service \<Rightarrow> bool" where
  "iterator_usable s \<longleftrightarrow> \<not> if_pos_init s \<or> (\<exists>i \<le> length (m_waiting s). pos s = At i)"

definition service_usable :: "service \<Rightarrow> bool" where
  "service_usable s \<longleftrightarrow> m_type s = ServiceWaitResponse \<or> iterator_usable s"

interpretation wait: worker_policy pop_worker_wait "\<lambda>_. True"
proof (unfold_locales, goal_cases)
  case (2 s w s')
  then show ?case
    by (auto simp: pop_worker_wait_def split: list.splits intro: exI [of _ 0] exI [of _ "Suc 0"])
qed (auto simp: pop_worker_wait_def split: list.splits)

interpretation nowait: worker_policy pop_worker_nowait iterator_usable
proof (unfold_locales, goal_cases)
  case (2 s w s')
  then have "m_waiting s' = m_waiting s"
    by (auto simp: pop_worker_nowait_def Let_def split: iterator.splits if_splits)
  then show ?case by (auto intro: exI [of _ 0])
next
  case (4 s)
  then show ?case
    by (auto simp: pop_worker_nowait_def iterator_usable_def Let_def le_eq_less_or_eq split: iterator.splits)
qed (auto simp: pop_worker_nowait_def Let_def split: iterator.splits if_splits)

interpretation policy: worker_policy pop_worker service_usable
proof (unfold_locales, goal_cases)
  case (1 s w s')
  then show ?case using wait.pop_keeps nowait.pop_keeps by (auto simp: pop_worker_def split: service_type.splits)
next
  case (2 s w s')
  then show ?case using wait.pop_shrinks nowait.pop_shrinks by (auto simp: pop_worker_def split: service_type.splits)
next
  case (3 s w s')
  then show ?case using wait.pop_picks nowait.pop_picks by (auto simp: pop_worker_def split: service_type.splits)
next
  case (4 s)
  then show ?case using wait.pop_returns nowait.pop_returns
    by (auto simp: pop_worker_def service_usable_def split: service_type.splits)
qed

subsection \<open>The dispatch loop\<close>

text \<open>
  \<open>worker_send\<close> with a message; \<open>worker_send (w, command, option, NULL)\<close> sends the
  envelope alone, as with the empty message. What it returns goes to the socket.
\<close>

definition worker_send :: "string \<Rightarrow> string \<Rightarrow> string \<Rightarrow> zmsg \<Rightarrow> crash + zmsg" where
  "worker_send identity command option msg =
     (let msg1 = (if length option > 0 then push_front option msg else msg);
          msg2 = push_front MDPW_WORKER (push_front command msg1)
      in send (wrap identity (Some []) msg2))"

lemma round_pops: "dispatch_round pop_worker dead s = Inr (s', Some (w, m)) \<Longrightarrow>
    length (m_requests s') < length (m_requests s)"
  using policy.round_cases [of dead s s' "Some (w, m)"] by auto

function dispatch_loop :: "(string \<Rightarrow> bool) \<Rightarrow> service \<Rightarrow> crash + service \<times> zmsg list" where
  "dispatch_loop dead s =
     (case dispatch_round pop_worker dead s of
        Inl e \<Rightarrow> Inl e
      | Inr (s', None) \<Rightarrow> Inr (s', [])
      | Inr (s', Some (w, m)) \<Rightarrow>
          (case worker_send w MDPW_REQUEST [] m of
             Inl e \<Rightarrow> Inl e
           | Inr sent \<Rightarrow>
               (case dispatch_loop dead s' of
                  Inl e \<Rightarrow> Inl e
                | Inr (s'', wires) \<Rightarrow> Inr (s'', sent # wires))))"
  by pat_completeness auto
termination
  by (relation "measure (\<lambda>(dead, s). length (m_requests s))") (auto dest: round_pops)

declare dispatch_loop.simps [simp del]

lemma dispatch_loop_empty: "m_requests s = [] \<Longrightarrow> dispatch_loop dead s = Inr (s, [])"
  by (simp add: dispatch_loop.simps [of dead s] policy.round_stop)

lemma worker_waiting_keeps [simp]:
  "m_requests (worker_waiting w s) = m_requests s" "m_name (worker_waiting w s) = m_name s"
  "m_type (worker_waiting w s) = m_type s"
  by (simp_all add: worker_waiting_def push_waiting_def)

subsection \<open>What the socket takes\<close>

lemma each_frame_ok_iff: "is_ok (each_frame send_frame ps) \<longleftrightarrow> list_all sendable_frame ps"
proof (induction ps)
  case (Cons p ps)
  then show ?case
    using send_frame_ok_iff [of p] by (cases "send_frame p"; cases "each_frame send_frame ps") auto
qed simp

lemma cstr_sendable [simp]: "sendable_frame (cstr s)"
  by (auto simp: sendable_frame_def cstr_def dest: set_takeWhileD)

lemma plain_sendable [simp]: "plain s \<Longrightarrow> sendable_frame s"
  by (simp add: sendable_frame_def)

lemma worker_send_ok: "list_all sendable_frame msg \<Longrightarrow> is_ok (worker_send w command option msg)"
  by (simp add: worker_send_def send_def each_frame_ok_iff push_front_def del: each_frame.simps)

lemma worker_send_returns:
  assumes "list_all sendable_frame msg"
  obtains wire where "worker_send w command option msg = Inr wire"
  using worker_send_ok [OF assms, of w command option] by (cases "worker_send w command option msg") auto

subsection \<open>What the loop does\<close>

definition dispatched :: "(string \<times> zmsg) list \<Rightarrow> zmsg list \<Rightarrow> bool" where
  "dispatched as wires \<longleftrightarrow> list_all2 (\<lambda>(w, m) wire. worker_send w MDPW_REQUEST [] m = Inr wire) as wires"

lemma dispatch_loop_trace:
  "dispatch_loop dead s = Inr (s', wires) \<Longrightarrow>
   (\<exists>as. dispatched as wires \<and> m_requests s = map snd as @ m_requests s' \<and>
         (\<forall>(w, m) \<in> set as. w \<in> set (m_waiting s) \<and> \<not> dead w)) \<and>
   (m_requests s' = [] \<or> m_waiting s' = []) \<and> m_name s' = m_name s \<and> m_type s' = m_type s \<and>
   set (m_waiting s') \<subseteq> set (m_waiting s) \<and> (distinct (m_waiting s) \<longrightarrow> distinct (m_waiting s'))"
proof (induction dead s arbitrary: s' wires rule: dispatch_loop.induct)
  case (1 dead s)
  from "1.prems" obtain s1 r where rd: "dispatch_round pop_worker dead s = Inr (s1, r)"
    by (cases "dispatch_round pop_worker dead s") (auto simp: dispatch_loop.simps [of dead s])
  note keeps = policy.round_keeps [OF rd] and cases = policy.round_cases [OF rd]
  have sub: "set (m_waiting s1) \<subseteq> set (m_waiting s)"
    using keeps by (auto dest!: in_set_dropD)
  have dist: "distinct (m_waiting s) \<longrightarrow> distinct (m_waiting s1)"
    using keeps by (auto simp: distinct_drop)
  show ?case
  proof (cases r)
    case None
    with "1.prems" rd have "s' = s1" "wires = []" by (auto simp: dispatch_loop.simps [of dead s])
    with None cases keeps sub dist show ?thesis by (auto simp: dispatched_def)
  next
    case (Some wm)
    obtain w m where wm: "wm = (w, m)" by force
    with "1.prems" rd Some obtain sent ws where snd: "worker_send w MDPW_REQUEST [] m = Inr sent"
      and loop: "dispatch_loop dead s1 = Inr (s', ws)" and wires: "wires = sent # ws"
      by (auto simp: dispatch_loop.simps [of dead s] split: sum.splits prod.splits)
    from "1.IH" [OF rd refl Some [unfolded wm] refl snd loop]
    obtain as where "dispatched as ws" "m_requests s1 = map snd as @ m_requests s'"
      "\<forall>(w, m) \<in> set as. w \<in> set (m_waiting s1) \<and> \<not> dead w"
      and rest: "m_requests s' = [] \<or> m_waiting s' = []" "m_name s' = m_name s1" "m_type s' = m_type s1"
        "set (m_waiting s') \<subseteq> set (m_waiting s1)" "distinct (m_waiting s1) \<longrightarrow> distinct (m_waiting s')"
      by auto
    with Some wm cases sub snd wires
    have "dispatched ((w, m) # as) wires" "m_requests s = map snd ((w, m) # as) @ m_requests s'"
      "\<forall>(w, m) \<in> set ((w, m) # as). w \<in> set (m_waiting s) \<and> \<not> dead w"
      by (auto simp: dispatched_def)
    then have "\<exists>as. dispatched as wires \<and> m_requests s = map snd as @ m_requests s' \<and>
        (\<forall>(w, m) \<in> set as. w \<in> set (m_waiting s) \<and> \<not> dead w)" by blast
    with rest keeps sub dist show ?thesis by (intro conjI) auto
  qed
qed

text \<open>
  C36. Requests leave a service in the order they came and each goes to one worker. After a
  run of the dispatch loop the queue is what it was without the first requests; these
  were sent, in their order and unchanged inside a REQUEST envelope, to workers that were
  waiting at the service and not expired; and the loop stops only when no request or no
  worker is left.
\<close>

theorem requests_dispatched_in_order:
  assumes "dispatch_loop dead s = Inr (s', wires)"
  shows "(\<exists>as. dispatched as wires \<and> m_requests s = map snd as @ m_requests s' \<and>
         list_all (\<lambda>(w, m). w \<in> set (m_waiting s) \<and> \<not> dead w) as) \<and>
    (m_requests s' = [] \<or> m_waiting s' = [])"
  using dispatch_loop_trace [OF assms] by (simp add: list_all_iff)

text \<open>
  Two services with workers \<open>w1\<close> (expired) and \<open>w2\<close> and two requests.
\<close>

definition wait_service :: service where
  "wait_service = (new_service ServiceWaitResponse ''echo'')
     \<lparr>m_waiting := [''w1'', ''w2''], capacity := 2, m_requests := [[''c'', [], ''1''], [''c'', [], ''2'']]\<rparr>"

definition nowait_service :: service where
  "nowait_service = (new_service ServiceDoNotWaitResponse ''echo'')
     \<lparr>m_waiting := [''w1'', ''w2''], capacity := 2, m_requests := [[''c'', [], ''1''], [''c'', [], ''2'']]\<rparr>"

theorem requests_dispatched_in_order_witness:
  "(\<exists>as. dispatched as [[''w2'', [], ''WORKER'', [CHR 0x02], ''c'', [], ''1'']] \<and>
         m_requests wait_service = map snd as @ m_requests (wait_service\<lparr>m_waiting := [], m_requests := [[''c'', [], ''2'']]\<rparr>) \<and>
         list_all (\<lambda>(w, m). w \<in> set (m_waiting wait_service) \<and> \<not> w = ''w1'') as) \<and>
    (m_requests (wait_service\<lparr>m_waiting := [], m_requests := [[''c'', [], ''2'']]\<rparr>) = [] \<or>
     m_waiting (wait_service\<lparr>m_waiting := [], m_requests := [[''c'', [], ''2'']]\<rparr>) = [])"
  by (rule requests_dispatched_in_order) code_simp

text \<open>Wire number \<open>i\<close> is request number \<open>i\<close> in the envelope of worker \<open>who i\<close>.\<close>

definition sent_to :: "(nat \<Rightarrow> string) \<Rightarrow> zmsg list \<Rightarrow> zmsg list \<Rightarrow> bool" where
  "sent_to who requests wires \<longleftrightarrow>
     (\<forall>i < length wires. worker_send (who i) MDPW_REQUEST [] (requests ! i) = Inr (wires ! i))"

text \<open>Requests whose frames \<open>send\<close> accepts.\<close>

definition sendable_requests :: "service \<Rightarrow> bool" where
  "sendable_requests s \<longleftrightarrow> list_all (list_all sendable_frame) (m_requests s)"

definition cursor :: "service \<Rightarrow> nat \<Rightarrow> bool" where
  "cursor s p \<longleftrightarrow> (if if_pos_init s then pos s = At p \<and> p \<le> length (m_waiting s) else p = 0)"

lemma nowait_round:
  assumes "m_type s = ServiceDoNotWaitResponse" and "m_waiting s \<noteq> []"
    and "\<forall>w \<in> set (m_waiting s). \<not> dead w" and "cursor s p" and "m_requests s = m # ms"
  shows "\<exists>s1. dispatch_round pop_worker dead s = Inr (s1, Some (m_waiting s ! (p mod length (m_waiting s)), m)) \<and>
      m_requests s1 = ms \<and> m_type s1 = m_type s \<and> m_waiting s1 = m_waiting s \<and>
      cursor s1 (Suc (p mod length (m_waiting s)))"
proof -
  have f: "filter (\<lambda>w. \<not> dead w) (m_waiting s) = m_waiting s" using assms(3) by simp
  have n: "0 < length (m_waiting s)" using assms(2) by simp
  have "Suc (p mod length (m_waiting s)) \<le> length (m_waiting s)" using n by (simp add: Suc_leI)
  moreover have "p < length (m_waiting s) \<or> p = length (m_waiting s) \<or> p = 0"
    using assms(4) by (auto simp: cursor_def split: if_splits)
  ultimately show ?thesis
    using assms(1,2,4,5) f n
    by (auto simp: dispatch_round_def pop_worker_def pop_worker_nowait_def pop_request_def cursor_def Let_def
        split: if_splits)
qed

lemma round_robin_lemma:
  "m_type s = ServiceDoNotWaitResponse \<Longrightarrow> m_waiting s \<noteq> [] \<Longrightarrow> \<forall>w \<in> set (m_waiting s). \<not> dead w \<Longrightarrow>
   cursor s p \<Longrightarrow> sendable_requests s \<Longrightarrow>
   \<exists>s' wires. dispatch_loop dead s = Inr (s', wires) \<and> m_requests s' = [] \<and> m_waiting s' = m_waiting s \<and>
     length wires = length (m_requests s) \<and>
     (\<forall>i < length wires. worker_send (m_waiting s ! ((p + i) mod length (m_waiting s))) MDPW_REQUEST []
        (m_requests s ! i) = Inr (wires ! i))"
proof (induction "m_requests s" arbitrary: s p)
  case Nil
  then show ?case by (simp add: dispatch_loop.simps [of dead s] dispatch_round_def)
next
  case (Cons m ms)
  let ?ws = "m_waiting s" and ?n = "length (m_waiting s)"
  from nowait_round [OF Cons.prems(1-4) Cons.hyps(2) [symmetric]] obtain s1 where
    rd: "dispatch_round pop_worker dead s = Inr (s1, Some (?ws ! (p mod ?n), m))"
    and s1: "m_requests s1 = ms" "m_type s1 = m_type s" "m_waiting s1 = ?ws" "cursor s1 (Suc (p mod ?n))"
    by blast
  have "list_all sendable_frame m" "sendable_requests s1"
    using Cons.prems(5) Cons.hyps(2) [symmetric] s1(1) by (simp_all add: sendable_requests_def)
  then obtain sent where snd: "worker_send (?ws ! (p mod ?n)) MDPW_REQUEST [] m = Inr sent"
    by (metis worker_send_returns)
  from Cons.hyps(1) [of s1 "Suc (p mod ?n)"] s1 Cons.prems \<open>sendable_requests s1\<close>
  obtain s' ws where loop: "dispatch_loop dead s1 = Inr (s', ws)" and r: "m_requests s' = []" "m_waiting s' = ?ws"
    "length ws = length ms"
    and each: "\<forall>i < length ws. worker_send (?ws ! ((Suc (p mod ?n) + i) mod ?n)) MDPW_REQUEST [] (ms ! i) = Inr (ws ! i)"
    by auto
  have "worker_send (?ws ! ((p + i) mod ?n)) MDPW_REQUEST [] (m_requests s ! i) = Inr ((sent # ws) ! i)"
    if "i < length (sent # ws)" for i
  proof (cases i)
    case 0
    then show ?thesis using snd Cons.hyps(2) [symmetric] by simp
  next
    case (Suc j)
    have "(Suc (p mod ?n) + j) mod ?n = (p + i) mod ?n" using mod_add_right_eq [of "Suc j" p ?n] by (simp add: Suc add.commute)
    then show ?thesis using each that Suc Cons.hyps(2) [symmetric] by auto
  qed
  moreover have "dispatch_loop dead s = Inr (s', sent # ws)"
    by (simp add: dispatch_loop.simps [of dead s] rd snd loop)
  ultimately show ?case using r Cons.hyps(2) [symmetric]
    by (intro exI [where x = s'] exI [where x = "sent # ws"] conjI) auto
qed

text \<open>
  A \<open>ServiceDoNotWaitResponse\<close> serves round robin. With workers that are alive and
  the iterator at position \<open>p\<close>, a run of the loop returns with the queue empty, and the
  request number \<open>i\<close> went to the worker at \<open>(p + i) mod n\<close> of the \<open>n\<close> workers.
\<close>

theorem no_wait_round_robin:
  assumes "m_type s = ServiceDoNotWaitResponse" and "m_waiting s \<noteq> []"
    and "\<forall>w \<in> set (m_waiting s). \<not> dead w" and "cursor s p" and "sendable_requests s"
  shows "\<exists>s' wires. dispatch_loop dead s = Inr (s', wires) \<and> m_requests s' = [] \<and> m_waiting s' = m_waiting s \<and>
     length wires = length (m_requests s) \<and>
     sent_to (\<lambda>i. m_waiting s ! ((p + i) mod length (m_waiting s))) (m_requests s) wires"
  unfolding sent_to_def using assms by (rule round_robin_lemma)

theorem no_wait_round_robin_witness:
  "\<exists>s' wires. dispatch_loop (\<lambda>w. False) nowait_service = Inr (s', wires) \<and> m_requests s' = [] \<and>
     m_waiting s' = m_waiting nowait_service \<and> length wires = length (m_requests nowait_service) \<and>
     sent_to (\<lambda>i. m_waiting nowait_service ! ((0 + i) mod length (m_waiting nowait_service)))
       (m_requests nowait_service) wires"
  by (rule no_wait_round_robin)
    (simp_all add: nowait_service_def new_service_def cursor_def sendable_requests_def plain_short)

lemma wait_one_each_lemma:
  "m_type s = ServiceWaitResponse \<Longrightarrow> sendable_requests s \<Longrightarrow> ws = filter (\<lambda>w. \<not> dead w) (m_waiting s) \<Longrightarrow>
   \<exists>s' wires. dispatch_loop dead s = Inr (s', wires) \<and>
     length wires = min (length (m_requests s)) (length ws) \<and>
     m_requests s' = drop (length wires) (m_requests s) \<and>
     (m_requests s \<noteq> [] \<longrightarrow> m_waiting s' = drop (length wires) ws) \<and> 
     (m_requests s = [] \<longrightarrow> m_waiting s' = m_waiting s) \<and>
     (\<forall>i < length wires. worker_send (ws ! i) MDPW_REQUEST [] (m_requests s ! i) = Inr (wires ! i))"
proof (induction "m_requests s" arbitrary: s ws)
  case Nil
  then show ?case by (simp add: dispatch_loop.simps [of dead s] dispatch_round_def)
next
  case (Cons m ms)
  show ?case
  proof (cases ws)
    case Nil
    with Cons show ?thesis by (simp add: dispatch_loop.simps [of dead s] dispatch_round_def split: list.splits)
  next
    case (Cons w vs)
    note q = Cons.hyps(2) [symmetric] and ws = Cons.prems(3) [symmetric]
    let ?s1 = "s\<lparr>m_waiting := vs, m_requests := ms\<rparr>"
    have rd: "dispatch_round pop_worker dead s = Inr (?s1, Some (w, m))"
      using Cons q ws Cons.prems(1)
      by (simp add: dispatch_round_def pop_worker_def pop_worker_wait_def pop_request_def)
    have vs: "filter (\<lambda>w. \<not> dead w) vs = vs"
    proof (rule filter_True)
      have "set ws \<subseteq> {x. \<not> dead x}" using Cons.prems(3) by auto
      then show "\<forall>x \<in> set vs. \<not> dead x" using Cons by auto
    qed
    have "list_all sendable_frame m" "sendable_requests ?s1"
      using Cons.prems(2) q by (simp_all add: sendable_requests_def)
    then obtain sent where snd: "worker_send w MDPW_REQUEST [] m = Inr sent" by (metis worker_send_returns)
    from Cons.hyps(1) [of ?s1 vs] vs Cons.prems(1) \<open>sendable_requests ?s1\<close>
    obtain s' wr where loop: "dispatch_loop dead ?s1 = Inr (s', wr)" and r: "length wr = min (length ms) (length vs)"
      "m_requests s' = drop (length wr) ms" "m_waiting s' = drop (length wr) vs"
      and each: "\<forall>i < length wr. worker_send (vs ! i) MDPW_REQUEST [] (ms ! i) = Inr (wr ! i)"
      by (cases "ms = []") auto
    have "dispatch_loop dead s = Inr (s', sent # wr)"
      by (simp add: dispatch_loop.simps [of dead s] rd snd loop)
    moreover have "\<forall>i < length (sent # wr). worker_send (ws ! i) MDPW_REQUEST [] (m_requests s ! i) = Inr ((sent # wr) ! i)"
      using each snd Cons q by (auto simp: less_Suc_eq_0_disj)
    ultimately show ?thesis using r Cons q
      by (intro exI [where x = s'] exI [where x = "sent # wr"] conjI) auto
  qed
qed

text \<open>
  A \<open>ServiceWaitResponse\<close> gives each worker one request at a time. A run of the
  loop over a non-empty queue drops the expired workers, sends request number \<open>i\<close> to
  the \<open>i\<close>-th living worker in the order they came to wait, as many as there are of
  both, and takes exactly these workers off the waiting list and these requests off the
  queue.
\<close>

theorem wait_one_request_each:
  assumes "m_type s = ServiceWaitResponse" and "m_requests s \<noteq> []" and "sendable_requests s"
    and "ws = filter (\<lambda>w. \<not> dead w) (m_waiting s)"
  shows "\<exists>s' wires. dispatch_loop dead s = Inr (s', wires) \<and>
     length wires = min (length (m_requests s)) (length ws) \<and>
     m_requests s' = drop (length wires) (m_requests s) \<and> m_waiting s' = drop (length wires) ws \<and>
     sent_to (\<lambda>i. ws ! i) (m_requests s) wires"
  unfolding sent_to_def using wait_one_each_lemma [OF assms(1,3,4)] assms(2) by auto

theorem wait_one_request_each_witness:
  "\<exists>s' wires. dispatch_loop (\<lambda>w. w = ''w1'') wait_service = Inr (s', wires) \<and>
     length wires = min (length (m_requests wait_service)) (length [''w2'']) \<and>
     m_requests s' = drop (length wires) (m_requests wait_service) \<and> m_waiting s' = drop (length wires) [''w2''] \<and>
     sent_to (\<lambda>i. [''w2''] ! i) (m_requests wait_service) wires"
  by (rule wait_one_request_each)
    (simp_all add: wait_service_def new_service_def sendable_requests_def plain_short)

text \<open>
  The iterator of \<open>ServiceDoNotWaitResponse\<close> does not survive a new worker. Once the
  service has handed out a request and its buffer is full (with one worker it always is),
  the next worker that registers moves the workers to a new buffer, and the next request
  for a living worker goes through an iterator into the freed one.
\<close>

theorem new_worker_dangles_iterator:
  assumes "m_type s = ServiceDoNotWaitResponse" and "if_pos_init s" and "length (m_waiting s) = capacity s"
    and "w \<notin> set (m_waiting s)" and "\<not> dead w" and "m_requests s \<noteq> []"
  shows "dispatch_loop dead (worker_waiting w s) = Inl StaleIterator"
proof -
  have "list_ex (\<lambda>it. it = w) (m_waiting s) = False" using assms(4) by (auto simp: list_ex_iff)
  then have "worker_waiting w s =
      s\<lparr>m_waiting := m_waiting s @ [w], capacity := max 1 (2 * capacity s), pos := Dangling\<rparr>"
    using assms by (simp add: worker_waiting_def push_waiting_def)
  then show ?thesis
    using assms by (simp add: dispatch_loop.simps [of dead] dispatch_round_def pop_worker_def pop_worker_nowait_def)
qed

text \<open>The service after one worker registered, one request, and a second request.\<close>

definition served_once :: service where
  "served_once =
     (case dispatch_loop (\<lambda>_. False)
        ((worker_waiting ''w1'' (new_service ServiceDoNotWaitResponse ''echo''))\<lparr>m_requests := [[''c'', [], ''1'']]\<rparr>) of
        Inl _ \<Rightarrow> new_service ServiceDoNotWaitResponse ''echo''
      | Inr (s, _) \<Rightarrow> s\<lparr>m_requests := [[''c'', [], ''2'']]\<rparr>)"

theorem new_worker_dangles_iterator_witness:
  "dispatch_loop (\<lambda>_. False) (worker_waiting ''w2'' served_once) = Inl StaleIterator"
  by (rule new_worker_dangles_iterator) code_simp+

end
