(* ===== verification/Broker.thy ===== *)
theory Broker
  imports Broker_Service "HOL-Library.Char_ord" "HOL-Library.List_Lexorder"
begin

section \<open>The Majordomo broker\<close>

text \<open>
  Models \<open>class broker\<close> of \<open>router/mdbroker.cpp\<close>: the services and workers it knows,
  how it handles a message of a client or a worker, and one turn of
  \<open>start_brokering\<close>. Services live at addresses of a heap, because workers keep
  pointers to them and \<open>service_change\<close> deletes them. A \<open>std::map\<close> is an association
  list in the order of its keys. A handler returns the new broker and what it
  sent; the clock is read once in a turn.
\<close>

definition HEARTBEAT_INTERVAL :: int where
  "HEARTBEAT_INTERVAL = 2500"

definition HEARTBEAT_LIVENESS :: int where
  "HEARTBEAT_LIVENESS = 3"

text \<open>The macro is not in parentheses; in \<open>HEARTBEAT_EXPIRY * 10\<close> this makes no difference.\<close>

definition HEARTBEAT_EXPIRY :: int where
  "HEARTBEAT_EXPIRY = HEARTBEAT_INTERVAL * HEARTBEAT_LIVENESS"

record broker =
  heap :: "nat \<Rightarrow> service option"
  next_addr :: nat
  m_services :: "(string \<times> nat) list"
  m_workers :: "(string \<times> worker) list"
  m_clients :: "string list"
  m_heartbeat_at :: int

definition broker_start :: "int \<Rightarrow> broker" where
  "broker_start s_clock = \<lparr>heap = (\<lambda>_. None), next_addr = 0, m_services = [], m_workers = [], m_clients = [],
     m_heartbeat_at = s_clock + HEARTBEAT_INTERVAL\<rparr>"

definition map_insert :: "string \<Rightarrow> 'v \<Rightarrow> (string \<times> 'v) list \<Rightarrow> (string \<times> 'v) list" where
  "map_insert k v m = (case map_of m k of None \<Rightarrow> insort_key fst (k, v) m | Some _ \<Rightarrow> m)"

definition map_erase :: "string \<Rightarrow> (string \<times> 'v) list \<Rightarrow> (string \<times> 'v) list" where
  "map_erase k m = filter (\<lambda>(k', _). k' \<noteq> k) m"

definition update_worker :: "string \<Rightarrow> (worker \<Rightarrow> worker) \<Rightarrow> broker \<Rightarrow> broker" where
  "update_worker identity f b =
     b\<lparr>m_workers := map (\<lambda>(k, w). (k, if k = identity then f w else w)) (m_workers b)\<rparr>"

definition deref :: "nat \<Rightarrow> broker \<Rightarrow> crash + service" where
  "deref a b = (case heap b a of None \<Rightarrow> Inl UseAfterFree | Some s \<Rightarrow> Inr s)"

definition put_service :: "nat \<Rightarrow> service \<Rightarrow> broker \<Rightarrow> broker" where
  "put_service a s b = b\<lparr>heap := (heap b)(a := Some s)\<rparr>"

subsection \<open>Services\<close>

definition service_delete :: "nat \<Rightarrow> broker \<Rightarrow> crash + broker" where
  "service_delete srv b =
     bind_r (deref srv b) (\<lambda>s.
       Inr (b\<lparr>m_services := map_erase (m_name s) (m_services b), heap := (heap b)(srv := None)\<rparr>))"

definition service_change :: "nat \<Rightarrow> string \<Rightarrow> broker \<Rightarrow> crash + nat option \<times> broker" where
  "service_change old_srv service_type b =
     bind_r (deref old_srv b) (\<lambda>old. case CreateService service_type (m_name old) of
       None \<Rightarrow> Inr (None, b)
     | Some created \<Rightarrow>
         let new_srv = next_addr b;
             (new, emptied) = copy_service created old;
             b1 = b\<lparr>heap := (heap b)(new_srv := Some new, old_srv := Some emptied), next_addr := new_srv + 1\<rparr>;
             b2 = fold (\<lambda>it. update_worker it (m_service_update (\<lambda>_. Some new_srv))) (m_waiting new) b1
         in bind_r (service_delete old_srv b2) (\<lambda>b3.
              Inr (Some new_srv, b3\<lparr>m_services := map_insert (m_name new) new_srv (m_services b3)\<rparr>)))"

definition service_require :: "string \<Rightarrow> string \<Rightarrow> broker \<Rightarrow> crash + nat option \<times> broker" where
  "service_require service_name service_type b =
     (if length service_name = 0 then Inl AssertFailed
      else case map_of (m_services b) service_name of
        Some srv \<Rightarrow>
          bind_r (deref srv b) (\<lambda>s.
            if type_name (m_type s) = service_type then Inr (Some srv, b)
            else service_change srv service_type b)
      | None \<Rightarrow>
          (case CreateService service_type service_name of
             None \<Rightarrow> Inr (None, b)
           | Some created \<Rightarrow>
               let srv = next_addr b in
               Inr (Some srv, b\<lparr>heap := (heap b)(srv := Some created), next_addr := srv + 1,
                                m_services := map_insert service_name srv (m_services b)\<rparr>)))"

definition default_type :: string where
  "default_type = ''ServiceDoNotWaitResponse''"

definition dead_worker :: "int \<Rightarrow> broker \<Rightarrow> string \<Rightarrow> bool" where
  "dead_worker s_clock b it = (case map_of (m_workers b) it of None \<Rightarrow> False | Some w \<Rightarrow> expired s_clock w)"

definition service_dispatch ::
  "int \<Rightarrow> nat option \<Rightarrow> zmsg option \<Rightarrow> broker \<Rightarrow> crash + broker \<times> zmsg list" where
  "service_dispatch s_clock srv msg b =
     (case srv of
        None \<Rightarrow> Inl AssertFailed
      | Some a \<Rightarrow>
          bind_r (deref a b) (\<lambda>s.
            let s1 = (case msg of None \<Rightarrow> s | Some m \<Rightarrow> s\<lparr>m_requests := m_requests s @ [m]\<rparr>) in
            bind_r (dispatch_loop (dead_worker s_clock b) s1) (\<lambda>(s2, wires).
              Inr (put_service a s2 b, wires))))"

text \<open>
  \<open>body_set\<close> replaces the last frame by the answer. The name of an unknown service
  makes \<open>m_services.at\<close> throw.
\<close>

definition service_internal :: "string \<Rightarrow> zmsg \<Rightarrow> broker \<Rightarrow> crash + broker \<times> zmsg list" where
  "service_internal service_name msg b =
     bind_r (if service_name = ''mmi.service''
             then case body msg of
                    None \<Rightarrow> Inl NullString
                  | Some n \<Rightarrow>
                      (case map_of (m_services b) n of
                         None \<Rightarrow> Inl OutOfRange
                       | Some srv \<Rightarrow>
                           bind_r (deref srv b) (\<lambda>s.
                             Inr (body_set (if length (m_waiting s) > 0 then ''200'' else ''404'') msg)))
             else Inr (body_set ''501'' msg))
       (\<lambda>msg1. bind_r (unwrap msg1) (\<lambda>(client, msg2).
          bind_r (send (wrap client (Some []) (wrap MDPC_CLIENT (Some service_name) msg2))) (\<lambda>wire.
            Inr (b, [wire]))))"

subsection \<open>Workers\<close>

definition worker_require :: "string \<Rightarrow> broker \<Rightarrow> broker" where
  "worker_require identity b =
     (case map_of (m_workers b) identity of
        Some _ \<Rightarrow> b
      | None \<Rightarrow> b\<lparr>m_workers := map_insert identity (BrokerWorker identity) (m_workers b)\<rparr>)"

definition service_of :: "string \<Rightarrow> broker \<Rightarrow> nat option" where
  "service_of wrk b = (case map_of (m_workers b) wrk of None \<Rightarrow> None | Some w \<Rightarrow> m_service w)"

text \<open>The lines that would remove the worker from \<open>m_workers\<close> are a comment.\<close>

definition worker_delete :: "string \<Rightarrow> bool \<Rightarrow> broker \<Rightarrow> crash + broker \<times> zmsg list" where
  "worker_delete wrk disconnect b =
     bind_r (if disconnect then bind_r (worker_send wrk MDPW_DISCONNECT [] []) (\<lambda>wire. Inr [wire]) else Inr [])
       (\<lambda>out. case service_of wrk b of
          None \<Rightarrow> Inr (b, out)
        | Some a \<Rightarrow> bind_r (deref a b) (\<lambda>s. Inr (put_service a (delete_worker wrk s) b, out)))"

definition worker_is_waiting :: "int \<Rightarrow> string \<Rightarrow> broker \<Rightarrow> crash + broker \<times> zmsg list" where
  "worker_is_waiting s_clock wrk b =
     (let b1 = update_worker wrk (m_expiry_update (\<lambda>_. s_clock + HEARTBEAT_EXPIRY * 10)) b in
      case service_of wrk b1 of
        None \<Rightarrow> Inl NullPointer
      | Some a \<Rightarrow>
          bind_r (deref a b1) (\<lambda>s.
            service_dispatch s_clock (Some a) None (put_service a (worker_waiting wrk s) b1)))"

text \<open>\<open>name.size() >= 4 && name.find_first_of("mmi.") == 0\<close>\<close>

definition reserved :: "string \<Rightarrow> bool" where
  "reserved name \<longleftrightarrow> 4 \<le> length name \<and> hd name \<in> set ''mmi.''"

definition worker_process :: "int \<Rightarrow> string \<Rightarrow> zmsg \<Rightarrow> broker \<Rightarrow> crash + broker \<times> zmsg list" where
  "worker_process s_clock sender msg b0 =
     (if \<not> 1 \<le> parts msg then Inl AssertFailed
      else bind_r (pop_cstr msg) (\<lambda>(command, msg1).
        let b = worker_require sender b0 in
        if command = MDPW_READY then
          if reserved sender then worker_delete sender False b
          else bind_r (pop_cstr msg1) (\<lambda>(service_name, msg2).
            if service_name = [] then Inr (b, [])
            else bind_r (pop_cstr msg2) (\<lambda>(service_type, _).
              bind_r (service_require service_name (if length service_type > 0 then service_type else default_type) b)
                (\<lambda>(srv, b1). worker_is_waiting s_clock sender (update_worker sender (m_service_update (\<lambda>_. srv)) b1))))
        else if command = MDPW_REPLY then
          bind_r (unwrap msg1) (\<lambda>(client, msg2).
            case service_of sender b of
              None \<Rightarrow> Inl NullPointer
            | Some a \<Rightarrow>
                bind_r (deref a b) (\<lambda>s.
                bind_r (send (wrap client (Some []) (wrap MDPC_CLIENT (Some (m_name s)) msg2))) (\<lambda>wire.
                bind_r (worker_is_waiting s_clock sender b) (\<lambda>(b2, out). Inr (b2, wire # out)))))
        else if command = MDPW_HEARTBEAT then
          if service_of sender b \<noteq> None then worker_is_waiting s_clock sender b else worker_delete sender True b
        else if command = MDPW_DISCONNECT then worker_delete sender True b
        else Inr (b, [])))"

subsection \<open>Clients\<close>

definition client_send :: "string \<Rightarrow> string \<Rightarrow> string \<Rightarrow> crash + zmsg" where
  "client_send client command option =
     (let msg1 = (if length option > 0 then push_front option [] else []);
          msg2 = push_front MDPC_CLIENT (push_front command msg1)
      in send (wrap client (Some []) msg2))"

definition client_process :: "int \<Rightarrow> string \<Rightarrow> zmsg \<Rightarrow> broker \<Rightarrow> crash + broker \<times> zmsg list" where
  "client_process s_clock sender msg b =
     (if \<not> 2 \<le> parts msg then Inl AssertFailed
      else bind_r (pop_cstr msg) (\<lambda>(service_name, msg1).
        if service_name = [] then Inr (b, [])
        else if service_name = MDPW_HEARTBEAT then
          Inr (if sender \<in> set (m_clients b) then b else b\<lparr>m_clients := m_clients b @ [sender]\<rparr>, [])
        else bind_r (service_require service_name default_type b) (\<lambda>(srv, b1).
          let msg2 = wrap sender (Some []) msg1 in
          if reserved service_name then service_internal service_name msg2 b1
          else service_dispatch s_clock srv (Some msg2) b1)))"

subsection \<open>One turn of start_brokering\<close>

definition broker_message :: "int \<Rightarrow> zmsg \<Rightarrow> broker \<Rightarrow> crash + broker \<times> zmsg list" where
  "broker_message s_clock wire b =
     bind_r (recv wire) (\<lambda>msg.
     bind_r (pop_cstr msg) (\<lambda>(sender, msg1).
     bind_r (pop_front msg1) (\<lambda>(_, msg2).
     bind_r (pop_cstr msg2) (\<lambda>(header, msg3).
       if header = MDPC_CLIENT then client_process s_clock sender msg3 b
       else if header = MDPW_WORKER then worker_process s_clock sender msg3 b
       else Inr (b, [])))))"

fun each_send :: "('a \<Rightarrow> crash + zmsg) \<Rightarrow> 'a list \<Rightarrow> crash + zmsg list" where
  "each_send f [] = Inr []"
| "each_send f (x # xs) = bind_r (f x) (\<lambda>w. bind_r (each_send f xs) (\<lambda>ws. Inr (w # ws)))"

definition broker_heartbeat :: "int \<Rightarrow> broker \<Rightarrow> crash + broker \<times> zmsg list" where
  "broker_heartbeat s_clock b =
     (if s_clock > m_heartbeat_at b
      then bind_r (each_send (\<lambda>(k, w). worker_send (m_identity w) MDPW_HEARTBEAT [] []) (m_workers b)) (\<lambda>out1.
           bind_r (each_send (\<lambda>c. client_send c MDPW_HEARTBEAT []) (m_clients b)) (\<lambda>out2.
             Inr (b\<lparr>m_heartbeat_at := s_clock + HEARTBEAT_INTERVAL\<rparr>, out1 @ out2)))
      else Inr (b, []))"

text \<open>\<open>wire\<close> is \<open>None\<close> when \<open>poll\<close> timed out.\<close>

definition start_brokering_turn :: "int \<Rightarrow> zmsg option \<Rightarrow> broker \<Rightarrow> crash + broker \<times> zmsg list" where
  "start_brokering_turn s_clock wire b =
     bind_r (case wire of None \<Rightarrow> Inr (b, []) | Some w \<Rightarrow> broker_message s_clock w b) (\<lambda>(b1, out1).
     bind_r (broker_heartbeat s_clock b1) (\<lambda>(b2, out2). Inr (b2, out1 @ out2)))"

inductive broker_run :: "broker \<Rightarrow> bool" where
  started: "broker_run (broker_start s_clock)"
| turn: "broker_run b \<Longrightarrow> start_brokering_turn s_clock wire b = Inr (b', out) \<Longrightarrow> broker_run b'"

subsection \<open>The invariant of the broker\<close>

definition worker_names :: "broker \<Rightarrow> string set" where
  "worker_names b = fst ` set (m_workers b)"

definition service_sane :: "string set \<Rightarrow> service \<Rightarrow> bool" where
  "service_sane names s \<longleftrightarrow> distinct (m_waiting s) \<and> set (m_waiting s) \<subseteq> names"

definition service_idle :: "service \<Rightarrow> bool" where
  "service_idle s \<longleftrightarrow> m_requests s = [] \<or> m_waiting s = []"

text \<open>
  The services that live are exactly those of \<open>m_services\<close>, each under its name, at
  addresses handed out before; waiting workers are known and wait once; the workers are
  filed under their identities.
\<close>

definition broker_sane :: "broker \<Rightarrow> bool" where
  "broker_sane b \<longleftrightarrow>
     (\<forall>n a. map_of (m_services b) n = Some a \<longleftrightarrow> (\<exists>s. heap b a = Some s \<and> m_name s = n)) \<and>
     (\<forall>a s. heap b a = Some s \<longrightarrow> a < next_addr b \<and> service_sane (worker_names b) s) \<and>
     (\<forall>(k, w) \<in> set (m_workers b). m_identity w = k) \<and> distinct (map fst (m_workers b))"

definition idle_except :: "nat set \<Rightarrow> broker \<Rightarrow> bool" where
  "idle_except A b \<longleftrightarrow> (\<forall>a s. heap b a = Some s \<and> a \<notin> A \<longrightarrow> service_idle s)"

lemma sane_elims:
  assumes "broker_sane b"
  shows sane_map: "map_of (m_services b) n = Some a \<longleftrightarrow> (\<exists>s. heap b a = Some s \<and> m_name s = n)"
    and sane_less: "heap b a = Some s \<Longrightarrow> a < next_addr b"
    and sane_service: "heap b a = Some s \<Longrightarrow> service_sane (worker_names b) s"
    and sane_fresh: "heap b (next_addr b) = None"
    and sane_identity: "(k, w) \<in> set (m_workers b) \<Longrightarrow> m_identity w = k"
    and sane_distinct: "distinct (map fst (m_workers b))"
proof -
  show less: "heap b a = Some s \<Longrightarrow> a < next_addr b" for a s
    using assms unfolding broker_sane_def by blast
  show "heap b (next_addr b) = None"
    using less [of "next_addr b"] by (cases "heap b (next_addr b)") auto
qed (use assms in \<open>auto simp: broker_sane_def\<close>)

lemma sane_names_mono:
  "service_sane names s \<Longrightarrow> names \<subseteq> names' \<Longrightarrow> service_sane names' s"
  by (auto simp: service_sane_def)

lemma map_of_map_insert:
  "map_of (map_insert k v m) n = (if n = k \<and> map_of m k = None then Some v else map_of m n)"
proof (cases "map_of m k")
  case None
  have "map_of (insort_key fst (k, v) m') n = (if n = k then Some v else map_of m' n)"
    if "map_of m' k = None" for m' :: "(string \<times> 'a) list"
    using that by (induction m') (auto split: if_splits)
  with None show ?thesis by (simp add: map_insert_def)
qed (auto simp: map_insert_def)

lemma map_of_map_erase: "map_of (map_erase k m) n = (if n = k then None else map_of m n)"
  by (induction m) (auto simp: map_erase_def split: if_splits)

lemma set_map_insert: "set (map_insert k v m) \<subseteq> insert (k, v) (set m)"
  by (auto simp: map_insert_def set_insort_key split: option.splits)

lemma fst_map_insert: "fst ` set (map_insert k v m) = insert k (fst ` set m)"
proof (cases "map_of m k")
  case (Some x)
  then have "k \<in> fst ` set m" by (force dest: map_of_SomeD)
  with Some show ?thesis by (auto simp: map_insert_def)
qed (simp add: map_insert_def set_insort_key)

lemma distinct_map_insert: "distinct (map fst m) \<Longrightarrow> distinct (map fst (map_insert k v m))"
proof -
  have "distinct (map fst (insort_key fst (k, v) m'))" if "distinct (map fst m')" "k \<notin> fst ` set m'"
    for m' :: "(string \<times> 'a) list"
    using that by (induction m') (auto simp: set_insort_key)
  then show "distinct (map fst m) \<Longrightarrow> distinct (map fst (map_insert k v m))"
    by (auto simp: map_insert_def map_of_eq_None_iff split: option.splits)
qed

lemma update_worker_simps [simp]:
  "heap (update_worker i f b) = heap b" "next_addr (update_worker i f b) = next_addr b"
  "m_services (update_worker i f b) = m_services b" "m_clients (update_worker i f b) = m_clients b"
  "m_heartbeat_at (update_worker i f b) = m_heartbeat_at b"
  by (simp_all add: update_worker_def)

lemma keys_update_worker [simp]: "map fst (m_workers (update_worker i f b)) = map fst (m_workers b)"
  by (simp add: update_worker_def comp_def case_prod_beta)

lemma names_update_worker [simp]: "worker_names (update_worker i f b) = worker_names b"
  by (metis keys_update_worker list.set_map worker_names_def)

lemma map_of_update_worker:
  "map_of (m_workers (update_worker i f b)) n =
     (if n = i then map_option f (map_of (m_workers b) n) else map_of (m_workers b) n)"
proof -
  have "map_of (map (\<lambda>(k, w). (k, if k = i then f w else w)) m) n =
      (if n = i then map_option f (map_of m n) else map_of m n)" for m
    by (induction m) auto
  then show ?thesis by (simp add: update_worker_def)
qed

lemma sane_update_worker:
  assumes "broker_sane b" and "\<And>w. m_identity (f w) = m_identity w"
  shows "broker_sane (update_worker i f b)"
  using assms by (auto simp: broker_sane_def) (auto simp: update_worker_def split: if_splits)

lemma idle_update_worker [simp]: "idle_except A (update_worker i f b) = idle_except A b"
  by (simp add: idle_except_def)

lemma sane_put_service:
  assumes "broker_sane b" and "heap b a = Some s" and "m_name s' = m_name s"
    and "service_sane (worker_names b) s'"
  shows "broker_sane (put_service a s' b)"
  using assms by (auto simp: broker_sane_def put_service_def worker_names_def)

lemma worker_names_put [simp]: "worker_names (put_service a s b) = worker_names b"
  by (simp add: put_service_def worker_names_def)

lemma sane_delete_worker:
  "service_sane names s \<Longrightarrow> service_sane names (delete_worker w s)"
  by (auto simp: service_sane_def delete_worker_def erase_loop_filter)

lemma sane_worker_waiting:
  "service_sane names s \<Longrightarrow> w \<in> names \<Longrightarrow> service_sane names (worker_waiting w s)"
  by (auto simp: service_sane_def worker_waiting_def push_waiting_def list_ex_iff)

lemma name_delete_worker [simp]: "m_name (delete_worker w s) = m_name s"
  by (simp add: delete_worker_def)

lemma deref_Inr [simp]: "deref a b = Inr s \<longleftrightarrow> heap b a = Some s"
  by (auto simp: deref_def split: option.splits)

lemma service_dispatch_ok:
  assumes "service_dispatch s_clock srv msg b = Inr (b', out)" and "broker_sane b"
    and "\<And>a. srv = Some a \<Longrightarrow> idle_except {a} b"
  shows "broker_sane b' \<and> idle_except {} b' \<and> worker_names b' = worker_names b"
proof -
  from assms(1) obtain a s where a: "srv = Some a" "heap b a = Some s"
    by (auto simp: service_dispatch_def bind_r_eq_Inr split: option.splits)
  define s1 where "s1 = (case msg of None \<Rightarrow> s | Some m \<Rightarrow> s\<lparr>m_requests := m_requests s @ [m]\<rparr>)"
  have s1: "m_name s1 = m_name s" "m_waiting s1 = m_waiting s" by (simp_all add: s1_def split: option.splits)
  from assms(1) a obtain s2 where loop: "dispatch_loop (dead_worker s_clock b) s1 = Inr (s2, out)"
    and b': "b' = put_service a s2 b"
    by (auto simp: service_dispatch_def bind_r_eq_Inr s1_def [symmetric])
  note t = dispatch_loop_trace [OF loop]
  have "service_sane (worker_names b) s" using assms(2) a by (auto simp: broker_sane_def)
  with t s1 have "service_sane (worker_names b) s2" by (auto simp: service_sane_def)
  with t s1 a assms(2) b' have "broker_sane b'" by (metis sane_put_service)
  moreover have "idle_except {} b'"
    using t assms(3) [OF a(1)] b' by (auto simp: idle_except_def put_service_def service_idle_def)
  ultimately show ?thesis using b' by simp
qed

lemma fold_update_worker:
  assumes "\<And>w. m_identity (f w) = m_identity w"
  shows "heap (fold (\<lambda>it. update_worker it f) ws b) = heap b"
    "next_addr (fold (\<lambda>it. update_worker it f) ws b) = next_addr b"
    "m_services (fold (\<lambda>it. update_worker it f) ws b) = m_services b"
    "worker_names (fold (\<lambda>it. update_worker it f) ws b) = worker_names b"
    "map fst (m_workers (fold (\<lambda>it. update_worker it f) ws b)) = map fst (m_workers b)"
    "(\<forall>(k, w) \<in> set (m_workers b). m_identity w = k) \<Longrightarrow>
     \<forall>(k, w) \<in> set (m_workers (fold (\<lambda>it. update_worker it f) ws b)). m_identity w = k"
proof (induction ws arbitrary: b)
  case (Cons i ws)
  case 6
  then have "\<forall>(k, w) \<in> set (m_workers (update_worker i f b)). m_identity w = k"
    using assms by (auto simp: update_worker_def)
  then show ?case using Cons.IH(6) by simp
qed simp_all

lemma service_change_ok:
  assumes "service_change a t b = Inr (r, b')" and "broker_sane b" and "idle_except {} b"
  shows "broker_sane b' \<and> idle_except {} b' \<and> worker_names b' = worker_names b \<and>
    (\<forall>a'. r = Some a' \<longrightarrow> heap b' a' \<noteq> None)"
proof -
  from assms(1) obtain old where old: "heap b a = Some old" by (auto simp: service_change_def bind_r_eq_Inr)
  show ?thesis
  proof (cases "CreateService t (m_name old)")
    case None
    with assms old show ?thesis by (auto simp: service_change_def bind_r_eq_Inr)
  next
    case (Some created)
    let ?new = "fst (copy_service created old)" and ?a = "next_addr b"
    have cr: "m_name created = m_name old"
      using Some by (auto simp: CreateService_def new_service_def split: if_splits)
    have less: "a < ?a" and sane_old: "service_sane (worker_names b) old"
      and free: "heap b ?a = None"
      using sane_elims [OF assms(2)] old by auto
    let ?b1 = "b\<lparr>heap := (heap b)(?a := Some ?new, a := Some (snd (copy_service created old))), next_addr := ?a + 1\<rparr>"
    let ?b2 = "fold (\<lambda>it. update_worker it (m_service_update (\<lambda>_. Some ?a))) (m_waiting ?new) ?b1"
    note f = fold_update_worker [where f = "m_service_update (\<lambda>_. Some ?a)" and ws = "m_waiting ?new" and b = ?b1, simplified]
    from assms(1) old Some less f(1,3)
    have r: "r = Some ?a" and b': "b' = ?b2\<lparr>m_services := map_insert (m_name old) ?a (map_erase (m_name old) (m_services b)),
        heap := (heap b)(?a := Some ?new, a := None)\<rparr>"
      by (auto simp: service_change_def service_delete_def copy_service_def Let_def deref_def cr)
    have h: "heap b' = (heap b)(?a := Some ?new, a := None)" "next_addr b' = ?a + 1"
      "m_services b' = map_insert (m_name old) ?a (map_erase (m_name old) (m_services b))"
      "m_workers b' = m_workers ?b2"
      using f(2) by (simp_all add: b')
    have names: "worker_names b' = worker_names b" using f(4) h(4) by (simp add: worker_names_def)
    have 1: "map_of (m_services b') n = Some a' \<longleftrightarrow> (\<exists>s. heap b' a' = Some s \<and> m_name s = n)" for n a'
      using old less free cr sane_map [OF assms(2), of n a'] sane_map [OF assms(2), of n a]
      by (auto simp: h map_of_map_insert map_of_map_erase copy_service_def)
    have 2: "a' < next_addr b' \<and> service_sane (worker_names b') s" if "heap b' a' = Some s" for a' s
      using that assms(2) sane_old unfolding names
      by (auto simp: h broker_sane_def copy_service_def service_sane_def less_Suc_eq split: if_splits)
    have 3: "\<forall>(k, w) \<in> set (m_workers b'). m_identity w = k" "distinct (map fst (m_workers b'))"
      using f(5,6) assms(2) by (simp_all add: h broker_sane_def)
    have "idle_except {} b'"
      using assms(3) old by (auto simp: idle_except_def h copy_service_def service_idle_def)
    moreover have "broker_sane b'"
      unfolding broker_sane_def using 1 2 3 by blast
    ultimately show ?thesis using names r h(1) less by auto
  qed
qed

lemma service_require_ok:
  assumes "service_require n t b = Inr (r, b')" and "broker_sane b" and "idle_except {} b"
  shows "broker_sane b' \<and> idle_except {} b' \<and> worker_names b' = worker_names b \<and>
    (\<forall>a'. r = Some a' \<longrightarrow> heap b' a' \<noteq> None)"
proof (cases "map_of (m_services b) n")
  case (Some a)
  with assms show ?thesis
    using service_change_ok [of a t b r b'] by (auto simp: service_require_def bind_r_eq_Inr split: if_splits)
next
  case None
  show ?thesis
  proof (cases "CreateService t n")
    case None
    with \<open>map_of (m_services b) n = None\<close> assms show ?thesis by (auto simp: service_require_def split: if_splits)
  next
    case (Some s)
    let ?a = "next_addr b"
    have s: "m_name s = n" "m_waiting s = []"
      using Some by (auto simp: CreateService_def new_service_def split: if_splits)
    from assms(1) None Some have r: "r = Some ?a"
      and b': "b' = b\<lparr>heap := (heap b)(?a := Some s), next_addr := ?a + 1, m_services := map_insert n ?a (m_services b)\<rparr>"
      by (auto simp: service_require_def Let_def split: if_splits)
    note free = sane_fresh [OF assms(2)] and m = sane_map [OF assms(2)]
    have "map_of (m_services b') n' = Some a' \<longleftrightarrow> (\<exists>s. heap b' a' = Some s \<and> m_name s = n')" for n' a'
      using None free s m [of n' a'] m [of n a'] by (auto simp: b' map_of_map_insert)
    moreover have "\<forall>a' s. heap b' a' = Some s \<longrightarrow> a' < next_addr b' \<and> service_sane (worker_names b') s"
      using assms(2) s by (auto simp: b' broker_sane_def worker_names_def service_sane_def less_SucI)
    ultimately have "broker_sane b'" using assms(2) unfolding broker_sane_def b' by auto
    moreover have "idle_except {} b'" using assms(3) s by (auto simp: b' idle_except_def service_idle_def)
    ultimately show ?thesis using r b' by (simp add: worker_names_def)
  qed
qed

lemma worker_require_ok:
  assumes "broker_sane b"
  shows "broker_sane (worker_require i b) \<and> i \<in> worker_names (worker_require i b) \<and>
    idle_except A (worker_require i b) = idle_except A b \<and> heap (worker_require i b) = heap b"
proof (cases "map_of (m_workers b) i")
  case None
  let ?b = "worker_require i b"
  have w: "m_workers ?b = map_insert i (BrokerWorker i) (m_workers b)" "heap ?b = heap b" "m_services ?b = m_services b"
    "next_addr ?b = next_addr b"
    using None by (simp_all add: worker_require_def)
  have names: "worker_names ?b = insert i (worker_names b)" by (simp add: worker_names_def w fst_map_insert)
  have "\<forall>(k, w) \<in> set (m_workers ?b). m_identity w = k"
    using assms set_map_insert [of i "BrokerWorker i" "m_workers b"]
    by (auto simp: w broker_sane_def BrokerWorker_def)
  moreover have "distinct (map fst (m_workers ?b))"
    using assms by (simp add: w broker_sane_def distinct_map_insert)
  moreover have "\<forall>a s. heap ?b a = Some s \<longrightarrow> a < next_addr ?b \<and> service_sane (worker_names ?b) s"
    using sane_less [OF assms] sane_service [OF assms, THEN sane_names_mono, of _ _ "insert i (worker_names b)"]
    by (auto simp: w names)
  moreover have "\<forall>n a. map_of (m_services ?b) n = Some a \<longleftrightarrow> (\<exists>s. heap ?b a = Some s \<and> m_name s = n)"
    using assms by (simp add: w broker_sane_def)
  ultimately show ?thesis by (simp add: broker_sane_def names idle_except_def w)
next
  case (Some w)
  then have "i \<in> worker_names b" by (force simp: worker_names_def dest: map_of_SomeD)
  with Some assms show ?thesis by (simp add: worker_require_def)
qed

lemma worker_delete_ok:
  assumes "worker_delete i disconnect b = Inr (b', out)" and "broker_sane b" and "idle_except {} b"
  shows "broker_sane b' \<and> idle_except {} b'"
proof (cases "service_of i b")
  case None
  with assms show ?thesis by (auto simp: worker_delete_def bind_r_eq_Inr)
next
  case (Some a)
  with assms(1) obtain s where s: "heap b a = Some s" "b' = put_service a (delete_worker i s) b"
    by (auto simp: worker_delete_def bind_r_eq_Inr)
  have "broker_sane b'"
    using sane_put_service [OF assms(2) s(1)] sane_service [OF assms(2) s(1)] s(2)
    by (simp add: sane_delete_worker)
  moreover have "idle_except {} b'"
  proof -
    have "service_idle s" using assms(3) s(1) by (auto simp: idle_except_def)
    then have "service_idle (delete_worker i s)"
      by (auto simp: service_idle_def delete_worker_def erase_loop_filter)
    then show ?thesis using assms(3) s by (auto simp: idle_except_def put_service_def)
  qed
  moreover have "broker_sane b'"
    using sane_put_service [OF assms(2) s(1)] sane_service [OF assms(2) s(1)] s(2)
    by (simp add: sane_delete_worker)
  ultimately show ?thesis by simp
qed

lemma worker_is_waiting_ok:
  assumes "worker_is_waiting s_clock i b = Inr (b', out)" and "broker_sane b" and "idle_except {} b"
    and "i \<in> worker_names b"
  shows "broker_sane b' \<and> idle_except {} b'"
proof -
  let ?b1 = "update_worker i (m_expiry_update (\<lambda>_. s_clock + HEARTBEAT_EXPIRY * 10)) b"
  have b1: "broker_sane ?b1" using assms(2) by (rule sane_update_worker) simp
  from assms(1) obtain a s where s: "heap b a = Some s"
    and d: "service_dispatch s_clock (Some a) None (put_service a (worker_waiting i s) ?b1) = Inr (b', out)"
    by (auto simp: worker_is_waiting_def Let_def bind_r_eq_Inr split: option.splits)
  have "service_sane (worker_names ?b1) (worker_waiting i s)"
    using sane_service [OF assms(2) s] assms(4) by (simp add: sane_worker_waiting)
  with b1 s have "broker_sane (put_service a (worker_waiting i s) ?b1)"
    by (intro sane_put_service) simp_all
  moreover have "idle_except {a} (put_service a (worker_waiting i s) ?b1)"
    using assms(3) by (auto simp: idle_except_def put_service_def)
  ultimately show ?thesis using service_dispatch_ok [OF d] by auto
qed

lemma client_process_ok:
  assumes "client_process s_clock sender msg b = Inr (b', out)" and "broker_sane b" and "idle_except {} b"
  shows "broker_sane b' \<and> idle_except {} b'"
proof -
  from assms(1) obtain p msg1 where m: "msg = p # msg1"
    by (cases msg) (auto simp: client_process_def parts_def)
  let ?n = "cstr p"
  show ?thesis
  proof (cases "?n = [] \<or> ?n = MDPW_HEARTBEAT")
    case True
    have "broker_sane (b\<lparr>m_clients := cs\<rparr>)" "idle_except {} (b\<lparr>m_clients := cs\<rparr>)" for cs
      using assms(2,3) by (simp_all add: broker_sane_def idle_except_def worker_names_def)
    with True assms m show ?thesis by (auto simp: client_process_def split: if_splits)
  next
    case False
    with assms(1) m obtain srv b1 where r: "service_require ?n default_type b = Inr (srv, b1)"
      and d: "(let msg2 = wrap sender (Some []) msg1 in
          if reserved ?n then service_internal ?n msg2 b1
          else service_dispatch s_clock srv (Some msg2) b1) = Inr (b', out)"
      by (auto simp: client_process_def bind_r_eq_Inr split: if_splits)
    note b1 = service_require_ok [OF r assms(2,3)]
    show ?thesis
    proof (cases "reserved ?n")
      case True
      with d have "b' = b1" by (auto simp: service_internal_def Let_def bind_r_eq_Inr)
      with b1 show ?thesis by simp
    next
      case False
      with d have "service_dispatch s_clock srv (Some (wrap sender (Some []) msg1)) b1 = Inr (b', out)"
        by (simp add: Let_def)
      from service_dispatch_ok [OF this] b1 show ?thesis by (auto simp: idle_except_def)
    qed
  qed
qed

lemma worker_process_ok:
  assumes "worker_process s_clock sender msg b0 = Inr (b', out)" and "broker_sane b0" and "idle_except {} b0"
  shows "broker_sane b' \<and> idle_except {} b'"
proof -
  from assms(1) obtain p msg1 where m: "msg = p # msg1"
    by (cases msg) (auto simp: worker_process_def)
  let ?b = "worker_require sender b0" and ?c = "cstr p"
  have b: "broker_sane ?b" "idle_except {} ?b" "sender \<in> worker_names ?b"
    using worker_require_ok [OF assms(2), of sender "{}"] assms(3) by auto
  consider "?c = MDPW_READY" | "?c = MDPW_REPLY" | "?c = MDPW_HEARTBEAT" | "?c = MDPW_DISCONNECT"
    | "?c \<notin> {MDPW_READY, MDPW_REPLY, MDPW_HEARTBEAT, MDPW_DISCONNECT}" by blast
  then show ?thesis
  proof cases
    case 1
    show ?thesis
    proof (cases "reserved sender")
      case True
      with 1 m assms(1) have "worker_delete sender False ?b = Inr (b', out)" by (simp add: worker_process_def)
      from worker_delete_ok [OF this b(1,2)] show ?thesis .
    next
      case False
      show ?thesis
      proof (cases "b' = ?b")
        case True
        with b show ?thesis by simp
      next
        case changed: False
        with 1 m assms(1) False obtain n t srv b1 where r: "service_require n t ?b = Inr (srv, b1)"
          and w: "worker_is_waiting s_clock sender (update_worker sender (m_service_update (\<lambda>_. srv)) b1) = Inr (b', out)"
          by (auto simp: worker_process_def Let_def bind_r_eq_Inr mdp_defs split: if_splits)
        note b1 = service_require_ok [OF r b(1,2)]
        then have "broker_sane (update_worker sender (m_service_update (\<lambda>_. srv)) b1)"
          by (intro sane_update_worker) simp_all
        from worker_is_waiting_ok [OF w this] b1 b(3) show ?thesis by simp
      qed
    qed
  next
    case 2
    with m assms(1) obtain out' where "worker_is_waiting s_clock sender ?b = Inr (b', out')"
      by (auto simp: worker_process_def Let_def bind_r_eq_Inr mdp_defs split: option.splits)
    from worker_is_waiting_ok [OF this b] show ?thesis .
  next
    case 3
    with m assms(1) have "(if service_of sender ?b \<noteq> None then worker_is_waiting s_clock sender ?b
        else worker_delete sender True ?b) = Inr (b', out)"
      by (simp add: worker_process_def Let_def mdp_defs)
    then show ?thesis
      using worker_is_waiting_ok [OF _ b] worker_delete_ok [OF _ b(1,2)] by (simp split: if_splits)
  next
    case 4
    with m assms(1) have "worker_delete sender True ?b = Inr (b', out)"
      by (simp add: worker_process_def Let_def mdp_defs)
    from worker_delete_ok [OF this b(1,2)] show ?thesis .
  next
    case 5
    with m assms(1) b show ?thesis by (simp add: worker_process_def)
  qed
qed

lemma turn_ok:
  assumes "start_brokering_turn s_clock wire b = Inr (b', out)" and "broker_sane b" and "idle_except {} b"
  shows "broker_sane b' \<and> idle_except {} b'"
proof -
  from assms(1) obtain b1 out1 out2 where m: "(case wire of None \<Rightarrow> Inr (b, []) | Some w \<Rightarrow> broker_message s_clock w b) = Inr (b1, out1)"
    and h: "broker_heartbeat s_clock b1 = Inr (b', out2)"
    by (auto simp: start_brokering_turn_def bind_r_eq_Inr)
  have "broker_sane b1 \<and> idle_except {} b1"
  proof (cases wire)
    case None
    with m assms show ?thesis by simp
  next
    case (Some w)
    with m have "broker_message s_clock w b = Inr (b1, out1)" by simp
    then show ?thesis
      using client_process_ok [OF _ assms(2,3)] worker_process_ok [OF _ assms(2,3)] assms(2,3)
      by (auto simp: broker_message_def bind_r_eq_Inr split: if_splits)
  qed
  moreover have "b' = b1 \<or> b' = b1\<lparr>m_heartbeat_at := s_clock + HEARTBEAT_INTERVAL\<rparr>"
    using h by (auto simp: broker_heartbeat_def bind_r_eq_Inr split: if_splits)
  ultimately show ?thesis by (auto simp: broker_sane_def idle_except_def worker_names_def)
qed

lemma broker_run_ok: "broker_run b \<Longrightarrow> broker_sane b \<and> idle_except {} b"
proof (induction rule: broker_run.induct)
  case (started s_clock)
  show ?case by (simp add: broker_start_def broker_sane_def idle_except_def)
next
  case (turn b s_clock wire b' out)
  then show ?case using turn_ok by blast
qed

subsection \<open>Properties\<close>

definition no_request_waits :: "broker \<Rightarrow> bool" where
  "no_request_waits b \<longleftrightarrow> (\<forall>a s. heap b a = Some s \<longrightarrow> m_requests s = [] \<or> m_waiting s = [])"

text \<open>
  C7. No request waits next to a waiting worker. In every state the broker reaches, at the
  start of a turn, each live service has an empty queue of requests or an empty list of
  waiting workers; the entries of \<open>m_services\<close> are exactly the live services under
  their own names; a waiting worker is a known one and waits once at a service.
\<close>

theorem broker_invariant:
  assumes "broker_run b"
  shows "no_request_waits b \<and> broker_sane b"
  using broker_run_ok [OF assms] by (simp add: no_request_waits_def idle_except_def service_idle_def)

definition outcome :: "crash + broker \<times> zmsg list \<Rightarrow> broker" where
  "outcome r = (case r of Inl _ \<Rightarrow> broker_start 0 | Inr (b, _) \<Rightarrow> b)"

text \<open>A worker registers, one that waits for its response before the next request.\<close>

definition ready_broker :: "string \<Rightarrow> broker" where
  "ready_broker t = outcome (start_brokering_turn 1
     (Some [''w1'', [], ''WORKER'', [CHR 0x01], ''echo'', t]) (broker_start 0))"

lemma outcome_turn: "is_ok r \<Longrightarrow> \<exists>out. r = Inr (outcome r, out)"
  by (cases r) (auto simp: outcome_def)

lemma ready_runs: "broker_run (ready_broker ''ServiceWaitResponse'')" "broker_run (ready_broker [])"
proof -
  have "is_ok (start_brokering_turn 1 (Some [''w1'', [], ''WORKER'', [CHR 0x01], ''echo'', ''ServiceWaitResponse''])
      (broker_start 0))"
    by code_simp
  from outcome_turn [OF this] show "broker_run (ready_broker ''ServiceWaitResponse'')"
    unfolding ready_broker_def by (blast intro: broker_run.intros)
  have "is_ok (start_brokering_turn 1 (Some [''w1'', [], ''WORKER'', [CHR 0x01], ''echo'', []]) (broker_start 0))"
    by code_simp
  from outcome_turn [OF this] show "broker_run (ready_broker [])"
    unfolding ready_broker_def by (blast intro: broker_run.intros)
qed

theorem broker_invariant_witness:
  "no_request_waits (ready_broker []) \<and> broker_sane (ready_broker [])"
  by (rule broker_invariant [OF ready_runs(2)])

text \<open>
  Frames that reach the program and leave it as they are: without NULs and not the text of
  an identity; and frames of any bytes that neither \<open>recv\<close> nor \<open>send\<close> converts.
\<close>

definition text_frame :: "string \<Rightarrow> bool" where
  "text_frame s \<longleftrightarrow> plain s \<and> CHR 0x00 \<notin> set s"

definition data_frame :: "string \<Rightarrow> bool" where
  "data_frame s \<longleftrightarrow> plain s \<and> \<not> (length s = 17 \<and> s ! 0 = CHR 0x00)"

lemma text_data: "text_frame s \<Longrightarrow> data_frame s"
  by (auto simp: text_frame_def data_frame_def) (metis nth_mem zero_less_numeral)

lemma text_cstr: "text_frame s \<Longrightarrow> cstr s = s"
  by (simp add: text_frame_def cstr_no_nul)

lemma text_constants [simp]:
  "text_frame []" "text_frame MDPC_CLIENT" "text_frame MDPW_WORKER" "text_frame MDPW_READY" "text_frame MDPW_REQUEST"
  "text_frame MDPW_REPLY" "text_frame MDPW_HEARTBEAT" "text_frame MDPW_DISCONNECT"
  by (simp_all add: text_frame_def) (simp_all add: mdp_defs)

lemma recv_data: "list_all data_frame ps \<Longrightarrow> recv ps = Inr ps"
proof (unfold recv_def, induction ps)
  case (Cons p ps)
  then show ?case by (auto simp: data_frame_def recv_frame_def)
qed simp

lemma send_data: "list_all data_frame ps \<Longrightarrow> send ps = Inr ps"
  unfolding send_def by (rule each_frame_plain) (auto simp: data_frame_def list_all_iff)

lemma worker_send_text:
  assumes "text_frame w" and "text_frame command" and "list_all data_frame msg"
  shows "worker_send w command [] msg = Inr ([w, [], MDPW_WORKER, command] @ msg)"
  using assms send_data [of "[w, [], MDPW_WORKER, command] @ msg"]
  by (simp add: worker_send_def push_front_def text_cstr text_data)

definition is_quiet :: "int \<Rightarrow> broker \<Rightarrow> bool" where
  "is_quiet s_clock b \<longleftrightarrow> \<not> m_heartbeat_at b < s_clock"

text \<open>A service whose workers are alive, named by text, and served round robin from \<open>p\<close>.\<close>

definition serves :: "int \<Rightarrow> broker \<Rightarrow> nat \<Rightarrow> string \<Rightarrow> nat \<Rightarrow> service \<Rightarrow> bool" where
  "serves s_clock b a n p s \<longleftrightarrow>
     map_of (m_services b) n = Some a \<and> heap b a = Some s \<and> m_name s = n \<and>
     m_type s = ServiceDoNotWaitResponse \<and> m_requests s = [] \<and> m_waiting s \<noteq> [] \<and> cursor s p \<and>
     (\<forall>w \<in> set (m_waiting s). \<not> dead_worker s_clock b w \<and> text_frame w)"

definition request_name :: "string \<Rightarrow> bool" where
  "request_name n \<longleftrightarrow> text_frame n \<and> n \<noteq> [] \<and> n \<noteq> MDPW_HEARTBEAT \<and> \<not> reserved n"

lemma dispatch_one:
  assumes "serves s_clock b a n p s" and "list_all data_frame m"
  shows "\<exists>s'. service_dispatch s_clock (Some a) (Some m) b =
      Inr (put_service a s' b, [[m_waiting s ! (p mod length (m_waiting s)), [], MDPW_WORKER, MDPW_REQUEST] @ m]) \<and>
      m_requests s' = [] \<and> m_name s' = n \<and> m_waiting s' = m_waiting s"
proof -
  let ?s1 = "s\<lparr>m_requests := [m]\<rparr>" and ?w = "m_waiting s ! (p mod length (m_waiting s))"
  have s: "heap b a = Some s" "m_name s = n" "m_requests s = []" "m_waiting s \<noteq> []"
    using assms(1) by (simp_all add: serves_def)
  have "?w \<in> set (m_waiting s)" using s(4) by simp
  then have "text_frame ?w" using assms(1) by (simp add: serves_def)
  then have w: "worker_send ?w MDPW_REQUEST [] m = Inr ([?w, [], MDPW_WORKER, MDPW_REQUEST] @ m)"
    using assms(2) by (simp add: worker_send_text)
  have "\<exists>s1. dispatch_round pop_worker (dead_worker s_clock b) ?s1 =
        Inr (s1, Some (m_waiting ?s1 ! (p mod length (m_waiting ?s1)), m)) \<and>
      m_requests s1 = [] \<and> m_type s1 = m_type ?s1 \<and> m_waiting s1 = m_waiting ?s1 \<and>
      cursor s1 (Suc (p mod length (m_waiting ?s1)))"
    by (rule nowait_round) (use assms(1) in \<open>auto simp: serves_def cursor_def\<close>)
  then obtain s1 where rd: "dispatch_round pop_worker (dead_worker s_clock b) ?s1 = Inr (s1, Some (?w, m))"
    and s1: "m_requests s1 = []" "m_waiting s1 = m_waiting s" by auto
  have "dispatch_loop (dead_worker s_clock b) ?s1 = Inr (s1, [[?w, [], MDPW_WORKER, MDPW_REQUEST] @ m])"
    using rd w s1 by (simp add: dispatch_loop.simps [of _ ?s1] dispatch_loop_empty)
  then show ?thesis
    using s s1 policy.round_keeps [OF rd]
    by (intro exI [where x = s1]) (simp add: service_dispatch_def deref_def)
qed

lemma request_turn:
  assumes "serves s_clock b a n p s" and "request_name n" and "text_frame c" and "is_quiet s_clock b"
    and "list_all data_frame request" and "request \<noteq> []"
  shows "\<exists>s'. start_brokering_turn s_clock (Some ([c, [], MDPC_CLIENT, n] @ request)) b =
      Inr (put_service a s' b,
        [[m_waiting s ! (p mod length (m_waiting s)), [], MDPW_WORKER, MDPW_REQUEST, c, []] @ request]) \<and>
      m_requests s' = [] \<and> m_name s' = n \<and> m_waiting s' = m_waiting s"
proof -
  have n: "text_frame n" "n \<noteq> []" "n \<noteq> MDPW_HEARTBEAT" "\<not> reserved n"
    using assms(2) by (simp_all add: request_name_def)
  have rq: "service_require n default_type b = Inr (Some a, b)"
    using assms(1) n by (simp add: serves_def service_require_def deref_def default_type_def)
  have "recv ([c, [], MDPC_CLIENT, n] @ request) = Inr ([c, [], MDPC_CLIENT, n] @ request)"
    using assms(3,5) n by (intro recv_data) (simp add: text_data)
  then have m: "broker_message s_clock ([c, [], MDPC_CLIENT, n] @ request) b =
      service_dispatch s_clock (Some a) (Some ([c, []] @ request)) b"
    using assms(3,6) n rq
    by (cases request) (simp_all add: broker_message_def client_process_def text_cstr parts_def)
  have "list_all data_frame ([c, []] @ request)" using assms(3,5) by (simp add: text_data)
  from dispatch_one [OF assms(1) this] m assms(4) show ?thesis
    by (auto simp: start_brokering_turn_def broker_heartbeat_def is_quiet_def put_service_def)
qed

lemma reply_turn:
  assumes "service_of w b = Some a" and "heap b a = Some s" and "m_name s = n" and "m_requests s = []"
    and "text_frame w" and "text_frame c" and "text_frame n" and "list_all data_frame reply" and "is_quiet s_clock b"
  shows "\<exists>b'. start_brokering_turn s_clock (Some ([w, [], MDPW_WORKER, MDPW_REPLY, c, []] @ reply)) b =
      Inr (b', [[c, [], MDPC_CLIENT, n] @ reply])"
proof -
  have k: "worker_require w b = b"
    using assms(1) by (auto simp: service_of_def worker_require_def split: option.splits)
  let ?wire = "[w, [], MDPW_WORKER, MDPW_REPLY, c, []] @ reply" and ?answer = "[c, [], MDPC_CLIENT, n] @ reply"
  have "recv ?wire = Inr ?wire" "send ?answer = Inr ?answer"
    using assms(5-8) by (simp_all add: recv_data send_data text_data)
  let ?b1 = "update_worker w (m_expiry_update (\<lambda>_. s_clock + HEARTBEAT_EXPIRY * 10)) b"
  have so: "service_of w ?b1 = Some a"
    using assms(1) by (auto simp: service_of_def map_of_update_worker split: option.splits)
  have stop: "dispatch_loop dead (worker_waiting w s) = Inr (worker_waiting w s, [])" for dead
    using assms(4) by (simp add: dispatch_loop_empty)
  have wait: "worker_is_waiting s_clock w b =
      Inr (put_service a (worker_waiting w s) (put_service a (worker_waiting w s) ?b1), [])"
    using so assms(2) stop
    by (simp add: worker_is_waiting_def service_dispatch_def deref_def put_service_def)
  have "text_frame MDPW_REPLY" "MDPW_REPLY \<noteq> MDPW_READY" "MDPW_WORKER \<noteq> MDPC_CLIENT" by (simp_all) (simp_all add: mdp_defs)
  then have "broker_message s_clock ?wire b =
      Inr (put_service a (worker_waiting w s) (put_service a (worker_waiting w s) ?b1), [?answer])"
    using \<open>recv ?wire = _\<close> \<open>send ?answer = _\<close> k wait assms
    by (simp add: broker_message_def worker_process_def text_cstr deref_def)
  with assms(9) show ?thesis
    by (simp add: start_brokering_turn_def broker_heartbeat_def is_quiet_def put_service_def)
qed

text \<open>
  C10. A request reaches one worker and its reply the client that asked. A client sends a
  request for a service whose workers are alive; in the turn that handles it the broker
  sends exactly one message, the request inside the envelope of the worker whose turn it
  is, with the client's identity in front. When that worker answers with this identity,
  the broker sends exactly one message, the reply to that client under the service's name.
\<close>

theorem request_reply_round_trip:
  assumes "serves s_clock b a n p s" and "request_name n" and "text_frame c"
    and "is_quiet s_clock b" and "is_quiet s_clock' b"
    and "list_all data_frame request" and "request \<noteq> []" and "list_all data_frame reply"
    and "w = m_waiting s ! (p mod length (m_waiting s))" and "service_of w b = Some a"
  shows "\<exists>b1 b2.
    start_brokering_turn s_clock (Some ([c, [], MDPC_CLIENT, n] @ request)) b =
      Inr (b1, [[w, [], MDPW_WORKER, MDPW_REQUEST, c, []] @ request]) \<and>
    start_brokering_turn s_clock' (Some ([w, [], MDPW_WORKER, MDPW_REPLY, c, []] @ reply)) b1 =
      Inr (b2, [[c, [], MDPC_CLIENT, n] @ reply])"
proof -
  from request_turn [OF assms(1-4,6,7)] obtain s1 where
    t: "start_brokering_turn s_clock (Some ([c, [], MDPC_CLIENT, n] @ request)) b =
      Inr (put_service a s1 b, [[w, [], MDPW_WORKER, MDPW_REQUEST, c, []] @ request])"
    and s1: "m_requests s1 = []" "m_name s1 = n"
    using assms(9) by auto
  have "w \<in> set (m_waiting s)" using assms(1,9) by (simp add: serves_def)
  then have w: "text_frame w" using assms(1) by (simp add: serves_def)
  let ?b1 = "put_service a s1 b"
  have "service_of w ?b1 = Some a" "heap ?b1 a = Some s1" "is_quiet s_clock' ?b1"
    using assms(5,10) by (simp_all add: service_of_def put_service_def is_quiet_def)
  from reply_turn [OF this(1,2) s1(2,1) w assms(3) _ assms(8) this(3)] assms(2) t show ?thesis
    by (auto simp: request_name_def)
qed

definition ready_service :: service where
  "ready_service = (new_service ServiceDoNotWaitResponse ''echo'')\<lparr>m_waiting := [''w1''], capacity := 1\<rparr>"

lemma ready_state:
  "m_services (ready_broker []) = [(''echo'', 0)]" "heap (ready_broker []) 0 = Some ready_service"
  "service_of ''w1'' (ready_broker []) = Some 0" "m_heartbeat_at (ready_broker []) = 2500"
  "dead_worker 5 (ready_broker []) ''w1'' = False"
  by code_simp+

theorem request_reply_round_trip_witness:
  "\<exists>b1 b2.
    start_brokering_turn 5 (Some ([''c1'', [], MDPC_CLIENT, ''echo''] @ [''hello''])) (ready_broker []) =
      Inr (b1, [[''w1'', [], MDPW_WORKER, MDPW_REQUEST, ''c1'', []] @ [''hello'']]) \<and>
    start_brokering_turn 6 (Some ([''w1'', [], MDPW_WORKER, MDPW_REPLY, ''c1'', []] @ [''hi''])) b1 =
      Inr (b2, [[''c1'', [], MDPC_CLIENT, ''echo''] @ [''hi'']])"
proof (rule request_reply_round_trip [where a = 0 and p = 0 and s = ready_service])
  show "serves 5 (ready_broker []) 0 ''echo'' 0 ready_service"
    by (simp add: serves_def ready_state) (simp add: ready_service_def new_service_def cursor_def ready_state
        text_frame_def plain_short)
qed (simp_all add: ready_state request_name_def text_frame_def plain_short reserved_def is_quiet_def data_frame_def
    mdp_defs ready_service_def)

lemma client_changes_type:
  assumes "broker_sane b" and "map_of (m_services b) n = Some a" and "heap b a = Some s"
    and "m_type s = ServiceWaitResponse" and "n \<noteq> []"
  shows "\<exists>a' s' b'. service_require n default_type b = Inr (Some a', b') \<and> a' \<noteq> a \<and> heap b' a = None \<and>
    heap b' a' = Some s' \<and> m_type s' = ServiceDoNotWaitResponse \<and> m_name s' = n \<and> m_waiting s' = m_waiting s \<and>
    map_of (m_services b') n = Some a' \<and>
    (\<forall>w. w \<notin> set (m_waiting s) \<longrightarrow> service_of w b' = service_of w b)"
proof -
  have n: "m_name s = n" using assms(1-3) sane_map [of b n a] by auto
  have less: "a < next_addr b" using sane_less [OF assms(1,3)] .
  let ?a = "next_addr b" and ?new = "(new_service ServiceDoNotWaitResponse n)\<lparr>m_requests := m_requests s,
      m_waiting := m_waiting s, capacity := length (m_waiting s)\<rparr>"
  let ?b1 = "b\<lparr>heap := (heap b)(?a := Some ?new, a := Some (s\<lparr>m_requests := [], m_waiting := []\<rparr>)), next_addr := ?a + 1\<rparr>"
  let ?b2 = "fold (\<lambda>it. update_worker it (m_service_update (\<lambda>_. Some ?a))) (m_waiting s) ?b1"
  note f = fold_update_worker [where f = "m_service_update (\<lambda>_. Some ?a)" and ws = "m_waiting s" and b = ?b1, simplified]
  have others: "map_of (m_workers (fold (\<lambda>it. update_worker it g) ws b0)) w = map_of (m_workers b0) w"
    if "w \<notin> set ws" for g ws b0 w
    using that by (induction ws arbitrary: b0) (simp_all add: map_of_update_worker)
  let ?b' = "?b2\<lparr>m_services := map_insert n ?a (map_erase n (m_services ?b2)), heap := (heap ?b2)(a := None)\<rparr>"
  have r: "service_require n default_type b = Inr (Some ?a, ?b')"
    using assms n less f
    by (simp add: service_require_def service_change_def service_delete_def deref_def default_type_def
        CreateService_def copy_service_def new_service_def Let_def)
  have so: "\<forall>w. w \<notin> set (m_waiting s) \<longrightarrow> service_of w ?b' = service_of w b"
    using others by (simp add: service_of_def)
  have h: "heap ?b' a = None" "heap ?b' ?a = Some ?new" "map_of (m_services ?b') n = Some ?a" "?a \<noteq> a"
    using less f(1) by (simp_all add: map_of_map_insert map_of_map_erase)
  have t: "m_type ?new = ServiceDoNotWaitResponse" "m_name ?new = n" "m_waiting ?new = m_waiting s"
    by (simp_all add: new_service_def)
  show ?thesis
    by (rule exI [where x = ?a], rule exI [where x = ?new], rule exI [where x = ?b'])
      (intro conjI r so h t)
qed

text \<open>
  A client's request turns off waiting for responses. Requests look the service up
  with the default type, so a request for a \<open>ServiceWaitResponse\<close> replaces the
  service by a \<open>ServiceDoNotWaitResponse\<close> at a new address and deletes the old one; a
  worker that is busy with a request is not on the waiting list, so it keeps the pointer to
  the deleted service, and its reply to the client goes through that pointer.
\<close>

theorem request_strands_busy_workers:
  assumes "broker_run b" and "map_of (m_services b) n = Some a" and "heap b a = Some s"
    and "m_type s = ServiceWaitResponse" and "n \<noteq> []"
    and "service_of w b = Some a" and "w \<notin> set (m_waiting s)"
  shows "\<exists>a' s' b'. service_require n default_type b = Inr (Some a', b') \<and>
    map_of (m_services b') n = Some a' \<and> heap b' a' = Some s' \<and> m_type s' = ServiceDoNotWaitResponse \<and>
    worker_process s_clock w (MDPW_REPLY # c # [] # reply) b' = Inl UseAfterFree"
proof -
  have "broker_sane b" using broker_run_ok [OF assms(1)] by simp
  from client_changes_type [OF this assms(2-5)] obtain a' s' b' where
    r: "service_require n default_type b = Inr (Some a', b')" and a: "heap b' a = None"
    and s': "heap b' a' = Some s'" "m_type s' = ServiceDoNotWaitResponse" "map_of (m_services b') n = Some a'"
    and w: "service_of w b' = Some a"
    using assms(6,7) by auto
  then have "worker_require w b' = b'" by (auto simp: service_of_def worker_require_def split: option.splits)
  moreover have "MDPW_REPLY \<noteq> MDPW_READY" by (simp add: mdp_defs)
  ultimately have "worker_process s_clock w (MDPW_REPLY # c # [] # reply) b' = Inl UseAfterFree"
    using w a by (simp add: worker_process_def deref_def)
  with r s' show ?thesis by blast
qed

text \<open>
  A client's request waits for a worker, one registers that waits for its response, and
  is given the request.
\<close>

definition busy_broker :: broker where
  "busy_broker = outcome (start_brokering_turn 2
     (Some [''w1'', [], ''WORKER'', [CHR 0x01], ''echo'', ''ServiceWaitResponse''])
     (outcome (start_brokering_turn 1 (Some [''c1'', [], ''CLIENT'', ''echo'', ''hello'']) (broker_start 0))))"

lemma busy_runs: "broker_run busy_broker"
proof -
  let ?t1 = "start_brokering_turn 1 (Some [''c1'', [], ''CLIENT'', ''echo'', ''hello'']) (broker_start 0)"
  have "is_ok ?t1" by code_simp
  from outcome_turn [OF this] have "broker_run (outcome ?t1)" by (blast intro: broker_run.intros)
  moreover have "is_ok (start_brokering_turn 2
     (Some [''w1'', [], ''WORKER'', [CHR 0x01], ''echo'', ''ServiceWaitResponse'']) (outcome ?t1))"
    by code_simp
  from outcome_turn [OF this] calculation show ?thesis
    unfolding busy_broker_def by (blast intro: broker_run.intros)
qed

theorem request_strands_busy_workers_witness:
  "\<exists>a' s' b'. service_require ''echo'' default_type busy_broker = Inr (Some a', b') \<and>
    map_of (m_services b') ''echo'' = Some a' \<and> heap b' a' = Some s' \<and> m_type s' = ServiceDoNotWaitResponse \<and>
    worker_process 3 ''w1'' (MDPW_REPLY # ''c1'' # [] # [''hi'']) b' = Inl UseAfterFree"
proof (rule request_strands_busy_workers [OF busy_runs])
  show "map_of (m_services busy_broker) ''echo'' = Some 1" by code_simp
  show "heap busy_broker 1 = Some ((new_service ServiceWaitResponse ''echo'')\<lparr>capacity := 1\<rparr>)" by code_simp
  show "service_of ''w1'' busy_broker = Some 1" by code_simp
qed (simp_all add: new_service_def)

lemma each_send_returns:
  "(\<And>x. x \<in> set xs \<Longrightarrow> is_ok (f x)) \<Longrightarrow>
   \<exists>ws. each_send f xs = Inr ws \<and> list_all2 (\<lambda>x w. f x = Inr w) xs ws"
proof (induction xs)
  case (Cons x xs)
  then obtain ws where "each_send f xs = Inr ws" "list_all2 (\<lambda>x w. f x = Inr w) xs ws" by auto
  moreover obtain w where "f x = Inr w" using Cons.prems [of x] by (cases "f x") auto
  ultimately show ?case by (intro exI [where x = "w # ws"]) simp
qed simp

lemma client_send_ok: "is_ok (client_send c command option)"
  by (simp add: client_send_def send_def each_frame_ok_iff push_front_def del: each_frame.simps)

text \<open>
  The broker's heartbeat reaches every worker and every client. When the time has come
  a turn without a message always completes: it sends one HEARTBEAT to each known worker in
  the order of their identities, then one to each client that announced itself, and sets
  the next time 2500 ms ahead.
\<close>

theorem heartbeats_reach_everyone:
  assumes "broker_run b" and "m_heartbeat_at b < s_clock"
  shows "\<exists>out1 out2. start_brokering_turn s_clock None b =
      Inr (b\<lparr>m_heartbeat_at := s_clock + 2500\<rparr>, out1 @ out2) \<and>
    list_all2 (\<lambda>(k, w) wire. worker_send k MDPW_HEARTBEAT [] [] = Inr wire) (m_workers b) out1 \<and>
    list_all2 (\<lambda>c wire. client_send c MDPW_HEARTBEAT [] = Inr wire) (m_clients b) out2"
proof -
  let ?f = "\<lambda>(k, w). worker_send (m_identity w) MDPW_HEARTBEAT [] []"
  have "\<exists>ws. each_send ?f (m_workers b) = Inr ws \<and> list_all2 (\<lambda>x w. ?f x = Inr w) (m_workers b) ws"
    by (rule each_send_returns) (auto intro: worker_send_ok)
  then obtain out1 where o1: "each_send ?f (m_workers b) = Inr out1" "list_all2 (\<lambda>x w. ?f x = Inr w) (m_workers b) out1"
    by blast
  have "\<exists>ws. each_send (\<lambda>c. client_send c MDPW_HEARTBEAT []) (m_clients b) = Inr ws \<and>
      list_all2 (\<lambda>c w. client_send c MDPW_HEARTBEAT [] = Inr w) (m_clients b) ws"
    by (rule each_send_returns) (rule client_send_ok)
  then obtain out2 where o2: "each_send (\<lambda>c. client_send c MDPW_HEARTBEAT []) (m_clients b) = Inr out2"
    "list_all2 (\<lambda>c w. client_send c MDPW_HEARTBEAT [] = Inr w) (m_clients b) out2"
    by blast
  have "\<forall>(k, w) \<in> set (m_workers b). m_identity w = k"
    using broker_run_ok [OF assms(1)] by (simp add: broker_sane_def)
  then have "list_all2 (\<lambda>(k, w) wire. worker_send k MDPW_HEARTBEAT [] [] = Inr wire) (m_workers b) out1"
    by (intro list.rel_mono_strong [OF o1(2)]) (auto split: prod.splits)
  with o1(1) o2 assms(2) show ?thesis
    by (auto simp: start_brokering_turn_def broker_heartbeat_def HEARTBEAT_INTERVAL_def)
qed

theorem heartbeats_reach_everyone_witness:
  "\<exists>out1 out2. start_brokering_turn 3000 None (ready_broker []) =
      Inr ((ready_broker [])\<lparr>m_heartbeat_at := 3000 + 2500\<rparr>, out1 @ out2) \<and>
    list_all2 (\<lambda>(k, w) wire. worker_send k MDPW_HEARTBEAT [] [] = Inr wire) (m_workers (ready_broker [])) out1 \<and>
    list_all2 (\<lambda>c wire. client_send c MDPW_HEARTBEAT [] = Inr wire) (m_clients (ready_broker [])) out2"
  by (rule heartbeats_reach_everyone [OF ready_runs(2)]) (simp add: ready_state)

text \<open>
  Any peer can end the broker. In every state it reaches, a message of one or two
  frames takes a frame that is not there (a string from a null pointer); a REPLY from a
  peer that registered no service goes through a null pointer; so does a READY that names
  a type of service that does not exist; and \<open>mmi.service\<close> with the name of a service
  that does not exist throws from \<open>std::map::at\<close> instead of answering 404.
\<close>

theorem peers_can_end_the_broker:
  assumes "text_frame c" and "service_of c b = None" and "\<not> reserved c"
    and "text_frame n" and "n \<noteq> []" and "n \<noteq> ''mmi.service''"
    and "map_of (m_services b) n = None" and "map_of (m_services b) ''mmi.service'' = None"
  shows "broker_message s_clock [c] b = Inl NullString \<and> broker_message s_clock [c, []] b = Inl NullString \<and>
    broker_message s_clock [c, [], MDPW_WORKER, MDPW_REPLY, n, []] b = Inl NullPointer \<and>
    broker_message s_clock [c, [], MDPW_WORKER, MDPW_READY, n, ''ServiceFast''] b = Inl NullPointer \<and>
    broker_message s_clock [c, [], MDPC_CLIENT, ''mmi.service'', n] b = Inl OutOfRange"
proof (intro conjI)
  have d: "data_frame ''mmi.service''" "data_frame ''ServiceFast''" "cstr ''mmi.service'' = ''mmi.service''"
    "cstr ''ServiceFast'' = ''ServiceFast''" "MDPW_WORKER \<noteq> MDPC_CLIENT" "MDPW_REPLY \<noteq> MDPW_READY"
    "''mmi.service'' \<noteq> MDPW_HEARTBEAT"
    by (simp_all add: data_frame_def plain_def cstr_def mdp_defs)
  note rd = recv_data text_data assms(1,4)
  show "broker_message s_clock [c] b = Inl NullString" "broker_message s_clock [c, []] b = Inl NullString"
    using assms(1) by (simp_all add: broker_message_def rd)
  have so: "service_of c (worker_require c b) = None"
    using assms(2)
    by (auto simp: service_of_def worker_require_def map_of_map_insert BrokerWorker_def split: option.splits)
  show "broker_message s_clock [c, [], MDPW_WORKER, MDPW_REPLY, n, []] b = Inl NullPointer"
    using so d by (simp add: broker_message_def rd worker_process_def text_cstr)
  have "m_services (worker_require c b) = m_services b"
    by (simp add: worker_require_def split: option.splits)
  then have "service_require n ''ServiceFast'' (worker_require c b) = Inr (None, worker_require c b)"
    using assms(5,7) by (simp add: service_require_def CreateService_def)
  moreover have "service_of c (update_worker c f (update_worker c (m_service_update (\<lambda>_. None)) b')) = None"
    if "\<And>w. m_service (f w) = m_service w" for f b'
    using that by (auto simp: service_of_def map_of_update_worker split: option.splits)
  ultimately show "broker_message s_clock [c, [], MDPW_WORKER, MDPW_READY, n, ''ServiceFast''] b = Inl NullPointer"
    using d assms(3,5)
    by (simp add: broker_message_def rd worker_process_def text_cstr worker_is_waiting_def)
  have r: "reserved ''mmi.service''" by (simp add: reserved_def)
  have "map_of (map_insert ''mmi.service'' (next_addr b) (m_services b)) n = None"
    using assms(6,7) by (simp add: map_of_map_insert)
  then show "broker_message s_clock [c, [], MDPC_CLIENT, ''mmi.service'', n] b = Inl OutOfRange"
    using d r assms(8)
    by (simp add: broker_message_def rd client_process_def text_cstr parts_def service_require_def CreateService_def
        default_type_def service_internal_def body_def Let_def)
qed

theorem peers_can_end_the_broker_witness:
  "broker_message 1 [''c1''] (broker_start 0) = Inl NullString \<and>
    broker_message 1 [''c1'', []] (broker_start 0) = Inl NullString \<and>
    broker_message 1 [''c1'', [], MDPW_WORKER, MDPW_REPLY, ''echo'', []] (broker_start 0) = Inl NullPointer \<and>
    broker_message 1 [''c1'', [], MDPW_WORKER, MDPW_READY, ''echo'', ''ServiceFast''] (broker_start 0) = Inl NullPointer \<and>
    broker_message 1 [''c1'', [], MDPC_CLIENT, ''mmi.service'', ''echo''] (broker_start 0) = Inl OutOfRange"
  by (rule peers_can_end_the_broker)
    (simp_all add: broker_start_def service_of_def reserved_def text_frame_def plain_short)

end
