(* ===== verification/Broker_Peers.thy ===== *)
theory Broker_Peers
  imports Broker
begin

section \<open>The broker's peers: workers' connections and the gateway's client\<close>

text \<open>
  Models \<open>workers/worker_common/mdwrkapi.hpp\<close> and \<open>.cpp\<close>, the thread of a worker that talks to
  the broker, and \<open>gateway_server/logic_server/mdcliapi2.hpp\<close> and \<open>.cpp\<close>, the gateway's
  client with its queue of requests and its brokers. A DEALER socket sends and receives the
  frames as they are; the broker's ROUTER socket puts the sender's identity in front and takes
  it away again. The clock is read once in a turn.
\<close>

subsection \<open>A worker's connection\<close>

record mdwrk =
  mdwrk_service :: string
  mdwrk_heartbeat :: int
  mdwrk_reconnect :: int
  mdwrk_heartbeat_at :: int
  mdwrk_liveness :: int
  mdwrk_reply_to :: string

datatype mdwrk_action = To_broker zmsg | Call_handler "string option" | Close_socket | Open_socket | Sleep int

definition mdwrk_to_broker :: "string \<Rightarrow> string \<Rightarrow> string \<Rightarrow> zmsg option \<Rightarrow> crash + zmsg" where
  "mdwrk_to_broker command key val msg =
     (let m0 = (case msg of None \<Rightarrow> [] | Some m \<Rightarrow> m);
          m1 = (if length val \<noteq> 0 then push_front val m0 else m0);
          m2 = (if length key \<noteq> 0 then push_front key m1 else m1)
      in send (push_front [] (push_front MDPW_WORKER (push_front command m2))))"

text \<open>It is called when there is no socket: at the start, and after the old one was deleted.\<close>

definition mdwrk_connect :: "int \<Rightarrow> mdwrk \<Rightarrow> crash + mdwrk \<times> mdwrk_action list" where
  "mdwrk_connect s_clock w =
     bind_r (mdwrk_to_broker MDPW_READY (mdwrk_service w) ''ServiceDoNotWaitResponse'' None) (\<lambda>wire.
       Inr (w\<lparr>mdwrk_heartbeat_at := s_clock + mdwrk_heartbeat w, mdwrk_liveness := s_clock + 10 * mdwrk_heartbeat w\<rparr>,
            [Open_socket, To_broker wire]))"

definition mdwrk_start :: "string \<Rightarrow> int \<Rightarrow> crash + mdwrk \<times> mdwrk_action list" where
  "mdwrk_start service_name s_clock = mdwrk_connect s_clock \<lparr>mdwrk_service = service_name, mdwrk_heartbeat = 2500,
     mdwrk_reconnect = 2500, mdwrk_heartbeat_at = 0, mdwrk_liveness = 0, mdwrk_reply_to = []\<rparr>"

definition mdwrk_message :: "int \<Rightarrow> zmsg \<Rightarrow> mdwrk \<Rightarrow> crash + mdwrk \<times> mdwrk_action list" where
  "mdwrk_message s_clock wire w0 =
     bind_r (recv wire) (\<lambda>msg.
     let w = w0\<lparr>mdwrk_liveness := s_clock + 10 * mdwrk_heartbeat w0\<rparr> in
     if parts msg < 3 then Inl AssertFailed
     else bind_r (pop_front msg) (\<lambda>(empty, m1).
       if empty \<noteq> [] then Inl AssertFailed
       else bind_r (pop_front m1) (\<lambda>(header, m2).
         if header \<noteq> MDPW_WORKER then Inl AssertFailed
         else bind_r (pop_cstr m2) (\<lambda>(command, m3).
           if command = MDPW_REQUEST then
             bind_r (unwrap m3) (\<lambda>(reply_to, m4). Inr (w\<lparr>mdwrk_reply_to := reply_to\<rparr>, [Call_handler (body_data m4)]))
           else if command = MDPW_HEARTBEAT then Inr (w, [])
           else if command = MDPW_DISCONNECT then
             bind_r (mdwrk_connect s_clock w) (\<lambda>(w1, out). Inr (w1, Close_socket # out))
           else Inr (w, [])))))"

text \<open>
  \<open>send\<close> puts a body into the socket between the threads, \<open>__send\<close> takes it out and answers
  to the client of the last request.
\<close>

definition mdwrk_send :: "string \<Rightarrow> crash + zmsg" where
  "mdwrk_send data = send (body_set_data data [])"

definition mdwrk_answer :: "zmsg \<Rightarrow> mdwrk \<Rightarrow> crash + mdwrk \<times> mdwrk_action list" where
  "mdwrk_answer wire w =
     bind_r (recv wire) (\<lambda>msg.
     if length (mdwrk_reply_to w) = 0 then Inl AssertFailed
     else bind_r (mdwrk_to_broker MDPW_REPLY [] [] (Some (wrap (mdwrk_reply_to w) (Some []) msg))) (\<lambda>out.
       Inr (w, [To_broker out])))"

text \<open>What \<open>poll\<close> found: a message of the broker goes first.\<close>

datatype mdwrk_poll = From_broker zmsg | From_main zmsg | Timed_out

definition thread_recv_turn :: "int \<Rightarrow> mdwrk_poll \<Rightarrow> mdwrk \<Rightarrow> crash + mdwrk \<times> mdwrk_action list" where
  "thread_recv_turn s_clock p w =
     bind_r (case p of
         From_broker wire \<Rightarrow> mdwrk_message s_clock wire w
       | From_main wire \<Rightarrow> mdwrk_answer wire w
       | Timed_out \<Rightarrow>
           if mdwrk_liveness w < s_clock then
             bind_r (mdwrk_connect s_clock w) (\<lambda>(w1, out). Inr (w1, Sleep (mdwrk_reconnect w) # Close_socket # out))
           else Inr (w, [])) (\<lambda>(w1, out1).
     if mdwrk_heartbeat_at w1 < s_clock then
       bind_r (mdwrk_to_broker MDPW_HEARTBEAT [] [] None) (\<lambda>wire.
         Inr (w1\<lparr>mdwrk_heartbeat_at := s_clock + mdwrk_heartbeat w1\<rparr>, out1 @ [To_broker wire]))
     else Inr (w1, out1))"

subsection \<open>The gateway's client\<close>

text \<open>
  \<open>m_brokers\<close> in the order in which the hash map is iterated; \<open>next_link\<close> is the place of
  \<open>m_next_broker\<close> in this order. A message goes to a broker, here to its place.
\<close>

record link =
  link_name :: string
  link_status :: int
  link_heartbeat_at :: int

record mdcli =
  m_broker_ready :: bool
  m_brokers :: "link list"
  next_link :: nat
  m_queue :: "(string \<times> zmsg) list"

definition mdcli_start :: mdcli where
  "mdcli_start = \<lparr>m_broker_ready = False, m_brokers = [], next_link = 0, m_queue = []\<rparr>"

definition new_link :: "string \<Rightarrow> int \<Rightarrow> link" where
  "new_link name s_clock = \<lparr>link_name = name, link_status = 0, link_heartbeat_at = s_clock\<rparr>"

definition add_broker :: "link \<Rightarrow> mdcli \<Rightarrow> mdcli" where
  "add_broker l c = c\<lparr>m_brokers := m_brokers c @ [l], next_link := 0\<rparr>"

definition mdcli_to_broker :: "string \<Rightarrow> zmsg \<Rightarrow> crash + zmsg" where
  "mdcli_to_broker command_or_service msg = send (push_front [] (push_front MDPC_CLIENT (push_front command_or_service msg)))"

text \<open>\<open>send\<close> of the main threads: two steps, of which only the second is under the lock.\<close>

definition reset_ready :: "mdcli \<Rightarrow> mdcli" where
  "reset_ready c = c\<lparr>m_broker_ready := False\<rparr>"

definition push_request :: "string \<Rightarrow> zmsg \<Rightarrow> mdcli \<Rightarrow> mdcli" where
  "push_request service_name msg c = c\<lparr>m_queue := m_queue c @ [(service_name, msg)]\<rparr>"

definition mdcli_send :: "string \<Rightarrow> zmsg \<Rightarrow> mdcli \<Rightarrow> mdcli" where
  "mdcli_send service_name msg c = push_request service_name msg (reset_ready c)"

definition refresh :: "int \<Rightarrow> link \<Rightarrow> link" where
  "refresh s_clock l = (if link_heartbeat_at l < s_clock then l\<lparr>link_status := 0\<rparr> else l)"

fun check_links :: "int \<Rightarrow> nat \<Rightarrow> link list \<Rightarrow> crash + (nat \<times> zmsg) list" where
  "check_links s_clock i [] = Inr []"
| "check_links s_clock i (l # ls) =
     (if link_status (refresh s_clock l) = 0 then
        bind_r (mdcli_to_broker MDPW_HEARTBEAT (body_set [] [])) (\<lambda>wire.
        bind_r (check_links s_clock (i + 1) ls) (\<lambda>out. Inr ((i, wire) # out)))
      else check_links s_clock (i + 1) ls)"

definition is_alive :: "link \<Rightarrow> bool" where
  "is_alive l \<longleftrightarrow> link_status l \<noteq> 0"

definition following :: "link list \<Rightarrow> nat \<Rightarrow> nat" where
  "following ls k = (if k + 1 = length ls then 0 else k + 1)"

text \<open>The loop over the queue; \<open>None\<close> is a loop that never ends, with the queue locked.\<close>

partial_function (option) send_queue :: "link list \<Rightarrow> nat \<Rightarrow> (string \<times> zmsg) list \<Rightarrow>
    (crash + nat \<times> (nat \<times> zmsg) list) option" where
  "send_queue ls k rs =
     (if rs = [] \<or> ls = [] then Some (Inr (k, []))
      else if is_alive (ls ! k) then
        (case mdcli_to_broker (fst (hd rs)) (snd (hd rs)) of
           Inl e \<Rightarrow> Some (Inl e)
         | Inr wire \<Rightarrow> Option.bind (send_queue ls (following ls k) (tl rs)) (\<lambda>r.
             Some (bind_r r (\<lambda>(k1, out). Inr (k1, (k, wire) # out)))))
      else send_queue ls (following ls k) rs)"

definition send_requests :: "int \<Rightarrow> mdcli \<Rightarrow> (crash + mdcli \<times> (nat \<times> zmsg) list) option" where
  "send_requests s_clock c =
     (case check_links s_clock 0 (m_brokers c) of
        Inl e \<Rightarrow> Some (Inl e)
      | Inr beats \<Rightarrow>
          let ls = map (refresh s_clock) (m_brokers c);
              c1 = c\<lparr>m_brokers := ls, m_broker_ready := m_broker_ready c \<or> list_ex is_alive ls\<rparr> in
          if \<not> m_broker_ready c1 then Some (Inr (c1, beats))
          else Option.bind (send_queue ls (next_link c) (m_queue c)) (\<lambda>r.
            Some (bind_r r (\<lambda>(k, out).
              Inr (c1\<lparr>next_link := k, m_queue := (if ls = [] then m_queue c else [])\<rparr>, beats @ out)))))"

text \<open>A message from the broker at a place: \<open>Some (Some d)\<close> is handed to \<open>handler_in_gateway\<close>.\<close>

definition mdcli_message :: "int \<Rightarrow> nat \<Rightarrow> zmsg \<Rightarrow> mdcli \<Rightarrow>
    (crash + mdcli \<times> (nat \<times> zmsg) list \<times> string option option) option" where
  "mdcli_message s_clock i wire c =
     (case recv wire of Inl e \<Rightarrow> Some (Inl e) | Inr msg \<Rightarrow>
      if parts msg < 3 then Some (Inl AssertFailed)
      else
        let c1 = c\<lparr>m_brokers := (m_brokers c)[i := (m_brokers c ! i)\<lparr>link_heartbeat_at := s_clock + HEARTBEAT_INTERVAL * 1000,
                     link_status := 1\<rparr>]\<rparr> in
        Option.bind (if m_queue c1 \<noteq> [] then send_requests s_clock c1 else Some (Inr (c1, []))) (\<lambda>r.
          Some (bind_r r (\<lambda>(c2, out).
            bind_r (pop_front msg) (\<lambda>(empty, m1).
            if length empty \<noteq> 0 then Inl AssertFailed
            else bind_r (pop_front m1) (\<lambda>(header, m2).
              if header \<noteq> MDPC_CLIENT then Inl AssertFailed
              else bind_r (pop_front m2) (\<lambda>(service_name, m3).
                if cstr service_name \<noteq> service_name then Inl AssertFailed
                else if service_name = MDPW_HEARTBEAT then Inr (c2, out, None)
                else Inr (c2, out, Some (body_data m3)))))))))"

text \<open>One turn of the thread: a signal of the main thread first, then the brokers that have a message.\<close>

fun mdcli_messages :: "int \<Rightarrow> (nat \<times> zmsg) list \<Rightarrow> mdcli \<Rightarrow>
    (crash + mdcli \<times> (nat \<times> zmsg) list \<times> string option list) option" where
  "mdcli_messages s_clock [] c = Some (Inr (c, [], []))"
| "mdcli_messages s_clock ((i, wire) # ms) c =
     (case mdcli_message s_clock i wire c of
        None \<Rightarrow> None
      | Some (Inl e) \<Rightarrow> Some (Inl e)
      | Some (Inr (c1, out1, h1)) \<Rightarrow>
          (case mdcli_messages s_clock ms c1 of
             None \<Rightarrow> None
           | Some (Inl e) \<Rightarrow> Some (Inl e)
           | Some (Inr (c2, out2, hs)) \<Rightarrow>
               Some (Inr (c2, out1 @ out2, (case h1 of None \<Rightarrow> hs | Some h \<Rightarrow> h # hs)))))"

definition mdcli_turn :: "int \<Rightarrow> bool \<Rightarrow> (nat \<times> zmsg) list \<Rightarrow> mdcli \<Rightarrow>
    (crash + mdcli \<times> (nat \<times> zmsg) list \<times> string option list) option" where
  "mdcli_turn s_clock signalled ms c =
     (case (if signalled then send_requests s_clock c else Some (Inr (c, []))) of
        None \<Rightarrow> None
      | Some (Inl e) \<Rightarrow> Some (Inl e)
      | Some (Inr (c1, out1)) \<Rightarrow>
          (case mdcli_messages s_clock ms c1 of
             None \<Rightarrow> None
           | Some (Inl e) \<Rightarrow> Some (Inl e)
           | Some (Inr (c2, out2, hs)) \<Rightarrow> Some (Inr (c2, out1 @ out2, hs))))"

subsection \<open>The frames that peers send\<close>

lemma mdcli_to_broker_text:
  assumes "text_frame s" and "list_all data_frame m"
  shows "mdcli_to_broker s m = Inr ([[], MDPC_CLIENT, s] @ m)"
proof -
  have "list_all data_frame ([[], MDPC_CLIENT, s] @ m)" using assms by (simp add: text_data)
  from send_data [OF this] show ?thesis using assms by (simp add: mdcli_to_broker_def push_front_def text_cstr)
qed

lemma mdwrk_to_broker_text:
  assumes "text_frame command" and "list_all data_frame m"
  shows "mdwrk_to_broker command [] [] (Some m) = Inr ([[], MDPW_WORKER, command] @ m)"
proof -
  have "list_all data_frame ([[], MDPW_WORKER, command] @ m)" using assms by (simp add: text_data)
  from send_data [OF this] show ?thesis using assms by (simp add: mdwrk_to_broker_def push_front_def text_cstr)
qed

lemma beat_frame: "mdcli_to_broker MDPW_HEARTBEAT (body_set [] []) = Inr [[], MDPC_CLIENT, MDPW_HEARTBEAT, []]"
  using mdcli_to_broker_text [of MDPW_HEARTBEAT "[[]]"] by (simp add: body_set_def push_back_def data_frame_def)

lemma check_links_beats:
  "\<exists>beats. check_links s_clock i ls = Inr beats \<and> list_all (\<lambda>(_, m). m = [[], MDPC_CLIENT, MDPW_HEARTBEAT, []]) beats"
proof (induction ls arbitrary: i)
  case (Cons l ls)
  obtain beats where "check_links s_clock (i + 1) ls = Inr beats" "list_all (\<lambda>(_, m). m = [[], MDPC_CLIENT, MDPW_HEARTBEAT, []]) beats"
    using Cons by blast
  then show ?case by (simp add: beat_frame)
qed simp

subsection \<open>Requests go to the brokers in turn\<close>

text \<open>The places of the brokers from \<open>k\<close> on, and of those that are alive.\<close>

definition places_from :: "link list \<Rightarrow> nat \<Rightarrow> nat list" where
  "places_from ls k = [k..<length ls] @ [0..<k]"

definition live_from :: "link list \<Rightarrow> nat \<Rightarrow> nat list" where
  "live_from ls k = filter (\<lambda>i. is_alive (ls ! i)) (places_from ls k)"

lemma places_from_step:
  assumes "k < length ls"
  shows "\<exists>rest. places_from ls k = k # rest \<and> places_from ls (following ls k) = rest @ [k]"
proof (cases "k + 1 = length ls")
  case True
  then have n: "length ls = Suc k" by simp
  have "places_from ls k = k # [0..<k]" "places_from ls (following ls k) = [0..<k] @ [k]"
    by (simp_all add: places_from_def following_def n)
  then show ?thesis by blast
next
  case False
  then have "places_from ls k = k # [k + 1..<length ls] @ [0..<k]"
    "places_from ls (following ls k) = ([k + 1..<length ls] @ [0..<k]) @ [k]"
    using assms by (simp_all add: places_from_def following_def upt_conv_Cons)
  then show ?thesis by blast
qed

lemma following_less: "k < length ls \<Longrightarrow> following ls k < length ls"
  by (auto simp: following_def)

lemma live_from_empty: "k < length ls \<Longrightarrow> live_from ls k = [] \<longleftrightarrow> \<not> list_ex is_alive ls"
proof -
  assume "k < length ls"
  then have "set (places_from ls k) = {..<length ls}" by (auto simp: places_from_def)
  then show ?thesis by (auto simp: live_from_def filter_empty_conv list_ex_length)
qed

text \<open>Dead brokers are passed over.\<close>

lemma first_live:
  assumes "k < length ls" and "live_from ls k = x # r"
  shows "x < length ls \<and> is_alive (ls ! x) \<and> live_from ls x = x # r \<and> live_from ls (following ls x) = r @ [x] \<and>
    (rs \<noteq> [] \<longrightarrow> send_queue ls k rs = send_queue ls x rs)"
  using assms
proof (induction "length (takeWhile (\<lambda>i. \<not> is_alive (ls ! i)) (places_from ls k))" arbitrary: k)
  case 0
  obtain rest where p: "places_from ls k = k # rest" "places_from ls (following ls k) = rest @ [k]"
    using places_from_step [OF 0(2)] by blast
  have alive: "is_alive (ls ! k)" using 0(1) p by (auto split: if_splits)
  then have "x = k" "live_from ls (following ls k) = r @ [k]" using 0(3) p by (auto simp: live_from_def)
  then show ?case using 0 alive by simp
next
  case (Suc n)
  obtain rest where p: "places_from ls k = k # rest" "places_from ls (following ls k) = rest @ [k]"
    using places_from_step [OF Suc(3)] by blast
  have dead: "\<not> is_alive (ls ! k)" using Suc(2) p by (auto split: if_splits)
  then have live: "filter (\<lambda>i. is_alive (ls ! i)) rest = x # r" using Suc(4) p by (simp add: live_from_def)
  then have "x \<in> set (filter (\<lambda>i. is_alive (ls ! i)) rest)" by simp
  then have "x \<in> set rest" "is_alive (ls ! x)" by simp_all
  then have "n = length (takeWhile (\<lambda>i. \<not> is_alive (ls ! i)) (places_from ls (following ls k)))"
    using Suc(2) p dead by (simp add: takeWhile_append1)
  moreover have "live_from ls (following ls k) = x # r" using live dead p by (simp add: live_from_def)
  moreover have "rs \<noteq> [] \<Longrightarrow> send_queue ls k rs = send_queue ls (following ls k) rs"
    using dead Suc(3) by (subst send_queue.simps) auto
  ultimately show ?case using Suc(1) [OF _ following_less [OF Suc(3)]] by simp
qed

fun turns :: "nat list \<Rightarrow> nat \<Rightarrow> nat list" where
  "turns live 0 = []"
| "turns live (Suc m) = hd live # turns (rotate1 live) m"

lemma turns_nth: "live \<noteq> [] \<Longrightarrow> turns live m = map (\<lambda>j. live ! (j mod length live)) [0..<m]"
proof (induction m arbitrary: live)
  case (Suc m)
  let ?n = "length live"
  have "turns (rotate1 live) m = map (\<lambda>j. rotate1 live ! (j mod ?n)) [0..<m]" using Suc by simp
  also have "\<dots> = map (\<lambda>j. live ! (Suc j mod ?n)) [0..<m]"
    using Suc.prems by (intro map_cong) (simp_all add: nth_rotate1 mod_Suc_eq)
  finally show ?case using Suc.prems by (simp add: upt_conv_Cons map_Suc_upt [symmetric] hd_conv_nth del: upt_Suc)
qed simp

definition request_frame :: "string \<times> zmsg \<Rightarrow> zmsg" where
  "request_frame r = [[], MDPC_CLIENT, fst r] @ snd r"

definition request_ok :: "string \<times> zmsg \<Rightarrow> bool" where
  "request_ok r \<longleftrightarrow> text_frame (fst r) \<and> list_all data_frame (snd r)"

lemma send_queue_in_turn:
  assumes "k < length ls" and "live_from ls k \<noteq> []" and "list_all request_ok rs"
  shows "\<exists>k1 out. send_queue ls k rs = Some (Inr (k1, out)) \<and> map snd out = map request_frame rs \<and>
    map fst out = turns (live_from ls k) (length rs)"
  using assms
proof (induction rs arbitrary: k)
  case Nil
  then show ?case by (subst send_queue.simps) simp
next
  case (Cons q rs)
  obtain x r where live: "live_from ls k = x # r" using Cons.prems(2) by (cases "live_from ls k") auto
  note first = first_live [OF Cons.prems(1) live, of "q # rs"]
  then have x: "x < length ls" "is_alive (ls ! x)" and nl: "live_from ls (following ls x) = r @ [x]" by simp_all
  have "mdcli_to_broker (fst q) (snd q) = Inr (request_frame q)"
    using Cons.prems(3) by (simp add: request_ok_def request_frame_def mdcli_to_broker_text)
  moreover obtain k1 out where "send_queue ls (following ls x) rs = Some (Inr (k1, out))"
    "map snd out = map request_frame rs" "map fst out = turns (r @ [x]) (length rs)"
    using Cons.IH [OF following_less [OF x(1)]] Cons.prems(3) nl by auto
  ultimately have "send_queue ls x (q # rs) = Some (Inr (k1, (x, request_frame q) # out))"
    using x by (subst send_queue.simps) auto
  then show ?case using first live
      \<open>map snd out = map request_frame rs\<close> \<open>map fst out = turns (r @ [x]) (length rs)\<close> by simp
qed

text \<open>Without a live broker the loop goes round for ever.\<close>

lemma send_queue_only_live:
  assumes "send_queue ls k rs = Some y"
  shows "rs = [] \<or> ls = [] \<or> list_ex is_alive ls \<or> length ls \<le> k"
proof (rule send_queue.raw_induct [where P = "\<lambda>ls k rs _. rs = [] \<or> ls = [] \<or> list_ex is_alive ls \<or> length ls \<le> k", OF _ assms])
  fix f and ls :: "link list" and k rs y
  assume IH: "\<And>ls k rs y. f ls k rs = Some y \<Longrightarrow> rs = [] \<or> ls = [] \<or> list_ex is_alive ls \<or> length ls \<le> k"
    and y: "(if rs = [] \<or> ls = [] then Some (Inr (k, []))
      else if is_alive (ls ! k) then
        (case mdcli_to_broker (fst (hd rs)) (snd (hd rs)) of
           Inl e \<Rightarrow> Some (Inl e)
         | Inr wire \<Rightarrow> Option.bind (f ls (following ls k) (tl rs)) (\<lambda>r.
             Some (bind_r r (\<lambda>(k1, out). Inr (k1, (k, wire) # out)))))
      else f ls (following ls k) rs) = Some y"
  show "rs = [] \<or> ls = [] \<or> list_ex is_alive ls \<or> length ls \<le> k"
  proof (cases "rs = [] \<or> ls = [] \<or> length ls \<le> k \<or> is_alive (ls ! k)")
    case True
    then show ?thesis by (auto simp: list_ex_length not_le)
  next
    case False
    then have "f ls (following ls k) rs = Some y" "following ls k < length ls" using y by (simp_all add: following_less)
    then show ?thesis using IH [of ls "following ls k" rs y] by auto
  qed
qed

lemma send_queue_stuck:
  assumes "k < length ls" and "\<not> list_ex is_alive ls" and "rs \<noteq> []"
  shows "send_queue ls k rs = None"
  using send_queue_only_live [of ls k rs] assms by (cases "send_queue ls k rs") auto

definition refreshed :: "int \<Rightarrow> mdcli \<Rightarrow> link list" where
  "refreshed s_clock c = map (refresh s_clock) (m_brokers c)"

definition mdcli_ok :: "mdcli \<Rightarrow> bool" where
  "mdcli_ok c \<longleftrightarrow> (m_brokers c \<noteq> [] \<longrightarrow> next_link c < length (m_brokers c)) \<and> list_all request_ok (m_queue c)"

text \<open>
  C38. Requests go to the live brokers in turn. When some broker was heard of in time, the
  thread sends every request of the queue, unchanged and in order, each once; the brokers that
  are alive take turns, from the next one on; to the others it sends nothing but heartbeats,
  and these come first.
\<close>

theorem requests_go_to_live_brokers_in_turn:
  assumes "mdcli_ok c" and "list_ex is_alive (refreshed s_clock c)"
  shows "\<exists>c1 beats out. send_requests s_clock c = Some (Inr (c1, beats @ out)) \<and> m_queue c1 = [] \<and>
    map snd out = map request_frame (m_queue c) \<and>
    map fst out = (let live = live_from (refreshed s_clock c) (next_link c) in
      map (\<lambda>j. live ! (j mod length live)) [0..<length (m_queue c)]) \<and>
    list_all (\<lambda>(_, m). m = [[], MDPC_CLIENT, MDPW_HEARTBEAT, []]) beats"
proof -
  let ?ls = "refreshed s_clock c"
  obtain beats where beats: "check_links s_clock 0 (m_brokers c) = Inr beats"
    "list_all (\<lambda>(_, m). m = [[], MDPC_CLIENT, MDPW_HEARTBEAT, []]) beats" using check_links_beats by blast
  have k: "next_link c < length ?ls" using assms by (auto simp: mdcli_ok_def refreshed_def list_ex_iff)
  then have live: "live_from ?ls (next_link c) \<noteq> []" using assms(2) by (simp add: live_from_empty)
  have ok: "list_all request_ok (m_queue c)" using assms(1) by (simp add: mdcli_ok_def)
  obtain k1 out where out: "send_queue ?ls (next_link c) (m_queue c) = Some (Inr (k1, out))"
    "map snd out = map request_frame (m_queue c)" "map fst out = turns (live_from ?ls (next_link c)) (length (m_queue c))"
    using send_queue_in_turn [OF k live ok] by blast
  have "?ls \<noteq> []" using k by auto
  then have "\<exists>c1. send_requests s_clock c = Some (Inr (c1, beats @ out)) \<and> m_queue c1 = []"
    using assms(2) beats(1) out(1) by (simp add: send_requests_def refreshed_def)
  then show ?thesis using out beats(2) turns_nth [OF live] unfolding Let_def by metis
qed

text \<open>
  C40. The thread never comes back exactly when the flag that a broker is ready is stale: it is
  set, no broker is alive, and a request waits. It then holds the lock of the queue for ever.
\<close>

theorem send_requests_hangs_iff:
  assumes "mdcli_ok c"
  shows "send_requests s_clock c = None \<longleftrightarrow>
    m_broker_ready c \<and> \<not> list_ex is_alive (refreshed s_clock c) \<and> m_brokers c \<noteq> [] \<and> m_queue c \<noteq> []"
proof -
  let ?ls = "refreshed s_clock c"
  obtain beats where beats: "check_links s_clock 0 (m_brokers c) = Inr beats" using check_links_beats by blast
  consider "m_brokers c = []" | "list_ex is_alive ?ls" "m_brokers c \<noteq> []" | "\<not> list_ex is_alive ?ls" "m_brokers c \<noteq> []" by blast
  then show ?thesis
  proof cases
    case 1
    then have "send_queue [] (next_link c) (m_queue c) = Some (Inr (next_link c, []))" by (subst send_queue.simps) simp
    with 1 show ?thesis using beats by (simp add: send_requests_def refreshed_def Let_def)
  next
    case 2
    then have k: "next_link c < length ?ls" using assms by (simp add: mdcli_ok_def refreshed_def)
    then have "live_from ?ls (next_link c) \<noteq> []" using 2 by (simp add: live_from_empty)
    then obtain y where "send_queue ?ls (next_link c) (m_queue c) = Some y"
      using send_queue_in_turn [OF k, of "m_queue c"] assms by (auto simp: mdcli_ok_def)
    then show ?thesis using 2 beats by (simp add: send_requests_def refreshed_def)
  next
    case 3
    then have k: "next_link c < length ?ls" using assms by (simp add: mdcli_ok_def refreshed_def)
    show ?thesis
    proof (cases "m_queue c = []")
      case True
      then have "send_queue ?ls (next_link c) (m_queue c) = Some (Inr (next_link c, []))" by (subst send_queue.simps) simp
      then show ?thesis using True beats by (simp add: send_requests_def refreshed_def Let_def)
    next
      case False
      then show ?thesis using send_queue_stuck [OF k 3(1)] 3 beats by (simp add: send_requests_def refreshed_def Let_def)
    qed
  qed
qed

subsection \<open>From the gateway to a worker and back\<close>

definition hands_over :: "string \<Rightarrow> (crash + mdcli \<times> (nat \<times> zmsg) list \<times> string option option) option \<Rightarrow> bool" where
  "hands_over d r \<longleftrightarrow> (\<exists>c out. r = Some (Inr (c, out, Some (Some d))))"

lemma mdwrk_request:
  assumes "text_frame client" and "data_frame d"
  shows "mdwrk_message s_clock [[], MDPW_WORKER, MDPW_REQUEST, client, [], d] v =
    Inr (v\<lparr>mdwrk_liveness := s_clock + 10 * mdwrk_heartbeat v, mdwrk_reply_to := client\<rparr>, [Call_handler (Some d)])"
proof -
  have "recv [[], MDPW_WORKER, MDPW_REQUEST, client, [], d] = Inr [[], MDPW_WORKER, MDPW_REQUEST, client, [], d]"
    using assms by (intro recv_data) (simp add: text_data)
  then show ?thesis using assms by (simp add: mdwrk_message_def Let_def body_data_def text_cstr)
qed

lemma mdwrk_reply:
  assumes "text_frame client" and "client \<noteq> []" and "data_frame d" and "mdwrk_reply_to v = client"
  shows "bind_r (mdwrk_send d) (\<lambda>wire. mdwrk_answer wire v) =
    Inr (v, [To_broker [[], MDPW_WORKER, MDPW_REPLY, client, [], d]])"
proof -
  have "mdwrk_send d = Inr [d]" "recv [d] = Inr [d]"
    using assms(3) by (simp_all add: mdwrk_send_def body_set_data_def push_back_data_def send_data recv_data)
  moreover have "mdwrk_to_broker MDPW_REPLY [] [] (Some [client, [], d]) = Inr [[], MDPW_WORKER, MDPW_REPLY, client, [], d]"
    using mdwrk_to_broker_text [of MDPW_REPLY "[client, [], d]"] assms by (simp add: text_data)
  moreover have "cstr [] = []" by (simp add: cstr_def)
  ultimately show ?thesis using assms by (simp add: mdwrk_answer_def text_cstr)
qed

lemma mdcli_reply:
  assumes "text_frame n" and "n \<noteq> MDPW_HEARTBEAT" and "data_frame d" and "m_queue g = []"
  shows "hands_over d (mdcli_message s_clock i [[], MDPC_CLIENT, n, d] g)"
proof -
  have "recv [[], MDPC_CLIENT, n, d] = Inr [[], MDPC_CLIENT, n, d]"
    using assms by (intro recv_data) (simp add: text_data)
  then show ?thesis using assms by (simp add: mdcli_message_def hands_over_def Let_def body_data_def text_cstr)
qed

text \<open>
  C34. Bodies travel unchanged. A body that the gateway sends to a service through the broker
  reaches the handler of the worker whose turn it is, byte for byte; what this worker sends
  next reaches, byte for byte, the gateway's handler, over the identity of the client that
  asked. Bodies are not taken for identities: of 17 bytes with a null in front, or of 33 with
  an \<open>@\<close>.
\<close>

theorem bodies_travel_unchanged:
  assumes "serves s_clock b a n p s" and "request_name n" and "text_frame client" and "client \<noteq> []"
    and "is_quiet s_clock b" and "is_quiet s_clock' b"
    and "data_frame request" and "data_frame reply" and "m_queue g = []"
    and "w = m_waiting s ! (p mod length (m_waiting s))" and "service_of w b = Some a"
  shows "\<exists>to_broker b1 to_worker v1 back b2 to_gateway.
    mdcli_to_broker n (body_set_data request []) = Inr to_broker \<and>
    start_brokering_turn s_clock (Some (client # to_broker)) b = Inr (b1, [w # to_worker]) \<and>
    mdwrk_message t to_worker v = Inr (v1, [Call_handler (Some request)]) \<and>
    bind_r (mdwrk_send reply) (\<lambda>wire. mdwrk_answer wire v1) = Inr (v1, [To_broker back]) \<and>
    start_brokering_turn s_clock' (Some (w # back)) b1 = Inr (b2, [client # to_gateway]) \<and>
    hands_over reply (mdcli_message t' i to_gateway g)"
proof -
  have n: "text_frame n" "n \<noteq> MDPW_HEARTBEAT" using assms(2) by (simp_all add: request_name_def)
  have 1: "mdcli_to_broker n (body_set_data request []) = Inr [[], MDPC_CLIENT, n, request]"
    using mdcli_to_broker_text [OF n(1), of "[request]"] assms(7) by (simp add: body_set_data_def push_back_data_def)
  obtain s1 where 2: "start_brokering_turn s_clock (Some (client # [[], MDPC_CLIENT, n, request])) b =
      Inr (put_service a s1 b, [w # [[], MDPW_WORKER, MDPW_REQUEST, client, [], request]])"
    and s1: "m_requests s1 = []" "m_name s1 = n"
    using request_turn [OF assms(1-3,5), of "[request]"] assms(7,10) by auto
  let ?v = "v\<lparr>mdwrk_liveness := t + 10 * mdwrk_heartbeat v, mdwrk_reply_to := client\<rparr>"
  note 3 = mdwrk_request [OF assms(3,7), of t v]
  have 4: "bind_r (mdwrk_send reply) (\<lambda>wire. mdwrk_answer wire ?v) = Inr (?v, [To_broker [[], MDPW_WORKER, MDPW_REPLY, client, [], reply]])"
    by (rule mdwrk_reply [OF assms(3,4,8)]) simp
  have "w \<in> set (m_waiting s)" using assms(1,10) by (simp add: serves_def)
  then have w: "text_frame w" using assms(1) by (simp add: serves_def)
  let ?b1 = "put_service a s1 b"
  have "service_of w ?b1 = Some a" "heap ?b1 a = Some s1" "is_quiet s_clock' ?b1"
    using assms(6,11) by (simp_all add: service_of_def put_service_def is_quiet_def)
  from reply_turn [OF this(1,2) s1(2,1) w assms(3) n(1) _ this(3), of "[reply]"] obtain b2 where
    5: "start_brokering_turn s_clock' (Some (w # [[], MDPW_WORKER, MDPW_REPLY, client, [], reply])) ?b1 =
      Inr (b2, [client # [[], MDPC_CLIENT, n, reply]])" using assms(8) by auto
  note 6 = mdcli_reply [OF n assms(8,9), of t' i]
  show ?thesis using 1 2 3 4 5 6 by blast
qed

text \<open>
  What a worker sends goes to the client of the last request it received, whoever it is for;
  before the first request it ends the worker.
\<close>

lemma answers_go_to_the_last_client:
  assumes "text_frame client" and "client \<noteq> []" and "data_frame request" and "data_frame d"
  shows "\<exists>v1. mdwrk_message s_clock [[], MDPW_WORKER, MDPW_REQUEST, client, [], request] v = Inr (v1, [Call_handler (Some request)]) \<and>
    bind_r (mdwrk_send d) (\<lambda>wire. mdwrk_answer wire v1) =
      Inr (v1, [To_broker [[], MDPW_WORKER, MDPW_REPLY, client, [], d]])"
  using mdwrk_request [OF assms(1,3)] mdwrk_reply [OF assms(1,2,4)] by simp

lemma no_answer_before_a_request: "mdwrk_reply_to v = [] \<Longrightarrow> data_frame d \<Longrightarrow> mdwrk_answer [d] v = Inl AssertFailed"
  by (simp add: mdwrk_answer_def recv_data)

subsection \<open>The properties at concrete states\<close>

definition two_brokers :: mdcli where
  "two_brokers = \<lparr>m_broker_ready = False,
     m_brokers = [\<lparr>link_name = ''a'', link_status = 1, link_heartbeat_at = 9\<rparr>, \<lparr>link_name = ''b'', link_status = 1, link_heartbeat_at = 9\<rparr>],
     next_link = 1, m_queue = [(''echo'', [''x'']), (''echo'', [''y''])]\<rparr>"

lemma echo_ok: "request_ok (''echo'', [''x''])" "request_ok (''echo'', [''y''])"
  by (simp_all add: request_ok_def text_frame_def data_frame_def plain_short)

theorem requests_go_to_live_brokers_in_turn_witness:
  "\<exists>c1 beats out. send_requests 5 two_brokers = Some (Inr (c1, beats @ out)) \<and> map fst out = [1, 0]"
proof -
  have "mdcli_ok two_brokers" using echo_ok by (simp add: mdcli_ok_def two_brokers_def)
  moreover have "list_ex is_alive (refreshed 5 two_brokers)" by (simp add: refreshed_def two_brokers_def refresh_def is_alive_def)
  moreover have "live_from (refreshed 5 two_brokers) 1 = [1, 0]"
    by (simp add: live_from_def places_from_def refreshed_def two_brokers_def refresh_def is_alive_def)
  moreover have "next_link two_brokers = 1" "length (m_queue two_brokers) = 2" by (simp_all add: two_brokers_def)
  moreover have "map (\<lambda>j. [1, 0 :: nat] ! (j mod length [1, 0 :: nat])) [0..<2] = [1, 0]" by code_simp
  ultimately show ?thesis using requests_go_to_live_brokers_in_turn [of two_brokers 5] unfolding Let_def by metis
qed

text \<open>
  A main thread clears the flag; before it appends its request the other thread finds a broker
  and sets the flag again; the broker is silent until its time is over.
\<close>

theorem send_requests_hangs_iff_witness:
  "\<exists>c1 out. send_requests 5 (reset_ready (two_brokers\<lparr>m_queue := []\<rparr>)) = Some (Inr (c1, out)) \<and>
     send_requests 10 (push_request ''echo'' [''x''] c1) = None"
proof -
  let ?c = "two_brokers\<lparr>m_broker_ready := True, m_queue := []\<rparr>"
  have "send_queue (map (refresh 5) (m_brokers two_brokers)) 1 [] = Some (Inr (1, []))" by (subst send_queue.simps) simp
  then have "send_requests 5 (reset_ready (two_brokers\<lparr>m_queue := []\<rparr>)) = Some (Inr (?c, []))"
    by (simp add: send_requests_def reset_ready_def two_brokers_def refresh_def is_alive_def)
  moreover have "mdcli_ok (push_request ''echo'' [''x''] ?c)"
    using echo_ok by (simp add: mdcli_ok_def push_request_def two_brokers_def)
  then have "send_requests 10 (push_request ''echo'' [''x''] ?c) = None"
    by (subst send_requests_hangs_iff)
      (simp_all add: push_request_def two_brokers_def refreshed_def refresh_def is_alive_def)
  ultimately show ?thesis by blast
qed

theorem bodies_travel_unchanged_witness:
  "\<exists>to_broker b1 to_worker v1. mdcli_to_broker ''echo'' (body_set_data ''hello'' []) = Inr to_broker \<and>
     start_brokering_turn 5 (Some (''c1'' # to_broker)) (ready_broker []) = Inr (b1, [''w1'' # to_worker]) \<and>
     mdwrk_message 6 to_worker \<lparr>mdwrk_service = ''echo'', mdwrk_heartbeat = 2500, mdwrk_reconnect = 2500,
       mdwrk_heartbeat_at = 0, mdwrk_liveness = 0, mdwrk_reply_to = []\<rparr> = Inr (v1, [Call_handler (Some ''hello'')])"
proof -
  have serves: "serves 5 (ready_broker []) 0 ''echo'' 0 ready_service"
    by (simp add: serves_def ready_state) (simp add: ready_service_def new_service_def cursor_def ready_state
        text_frame_def plain_short)
  have more: "request_name ''echo''" "text_frame ''c1''" "''c1'' \<noteq> []" "is_quiet 5 (ready_broker [])"
    "data_frame ''hello''" "m_queue mdcli_start = []" "''w1'' = m_waiting ready_service ! (0 mod length (m_waiting ready_service))"
    "service_of ''w1'' (ready_broker []) = Some 0"
    by (simp_all add: ready_state request_name_def text_frame_def plain_short reserved_def is_quiet_def data_frame_def
        mdp_defs ready_service_def mdcli_start_def)
  from bodies_travel_unchanged [OF serves more(1,2,3,4,4,5,5,6,7,8), of 6 "\<lparr>mdwrk_service = ''echo'', mdwrk_heartbeat = 2500,
      mdwrk_reconnect = 2500, mdwrk_heartbeat_at = 0, mdwrk_liveness = 0, mdwrk_reply_to = []\<rparr>"]
  show ?thesis by blast
qed

end
