(* ===== verification/Redis_Client.thy ===== *)
theory Redis_Client
  imports Prelude
begin

section \<open>RedisClient: the game's records in Redis\<close>

text \<open>
  Models \<open>module/RedisClient.cpp\<close> and the conversions of \<open>module/GameUtils.cpp\<close>.
  The Redis server behind hiredis is a parameter \<open>R\<close>: the reply to a command and
  the state of the connection after it; \<open>None\<close> is the null pointer that
  \<open>redisCommand\<close> returns when the connection is lost. An element of an array may be nil. An operation is a function
  of the connection's state that ends in a crash or returns its value and the new
  state. An output argument that is only written on success is an option.
\<close>

datatype reply =
    Reply_string string
  | Reply_array "string option list"
  | Reply_integer int
  | Reply_nil
  | Reply_status string
  | Reply_error string

type_synonym 'c redis = "string \<Rightarrow> 'c \<Rightarrow> reply option \<times> 'c"
type_synonym ('c, 'a) db = "'c \<Rightarrow> crash + 'a \<times> 'c"

definition db_return :: "'a \<Rightarrow> ('c, 'a) db" where
  "db_return a = (\<lambda>c. Inr (a, c))"

definition db_bind :: "('c, 'a) db \<Rightarrow> ('a \<Rightarrow> ('c, 'b) db) \<Rightarrow> ('c, 'b) db" where
  "db_bind m f = (\<lambda>c. case m c of Inl e \<Rightarrow> Inl e | Inr (a, c') \<Rightarrow> f a c')"

definition db_lift :: "crash + 'a \<Rightarrow> ('c, 'a) db" where
  "db_lift r = (\<lambda>c. case r of Inl e \<Rightarrow> Inl e | Inr a \<Rightarrow> Inr (a, c))"

lemma db_return_apply [simp]: "db_return a c = Inr (a, c)"
  by (simp add: db_return_def)

lemma db_lift_apply [simp]: "db_lift (Inr a) c = Inr (a, c)" "db_lift (Inl e) c = Inl e"
  by (simp_all add: db_lift_def)

lemma db_bind_eq_Inr: "db_bind m f c = Inr r \<longleftrightarrow> (\<exists>a c'. m c = Inr (a, c') \<and> f a c' = Inr r)"
  by (auto simp: db_bind_def split: sum.splits)

lemma db_lift_eq_Inr [simp]: "db_lift r c = Inr (a, c') \<longleftrightarrow> r = Inr a \<and> c' = c"
  by (auto simp: db_lift_def split: sum.splits)

lemma db_bind_Inr [simp]: "m c = Inr (a, c') \<Longrightarrow> db_bind m f c = f a c'"
  by (simp add: db_bind_def)

subsection \<open>Numbers as text\<close>

definition digit :: "nat \<Rightarrow> char" where
  "digit n = char_of (48 + n)"

fun decimal :: "nat \<Rightarrow> string" where
  "decimal n = (if n < 10 then [digit n] else decimal (n div 10) @ [digit (n mod 10)])"

declare decimal.simps [simp del]

definition gameToString :: "int \<Rightarrow> string" where
  "gameToString value = (if value < 0 then CHR ''-'' # decimal (nat (- value)) else decimal (nat value))"

definition is_digit :: "char \<Rightarrow> bool" where
  "is_digit c \<longleftrightarrow> 48 \<le> (of_char c :: nat) \<and> (of_char c :: nat) < 58"

definition digit_value :: "char \<Rightarrow> nat" where
  "digit_value c = of_char c - 48"

definition is_white :: "char \<Rightarrow> bool" where
  "is_white c \<longleftrightarrow> c = CHR '' '' \<or> 9 \<le> (of_char c :: nat) \<and> (of_char c :: nat) \<le> 13"

text \<open>
  \<open>istringstream >> x\<close>: leading white space, a sign and digits are read; without
  digits \<open>x\<close> is 0, outside the range of the type it is the nearest bound.
\<close>

definition read_digits :: "string \<Rightarrow> nat" where
  "read_digits s = foldl (\<lambda>n c. 10 * n + digit_value c) 0 (takeWhile is_digit s)"

definition read_number :: "string \<Rightarrow> int" where
  "read_number s =
     (case dropWhile is_white s of
        [] \<Rightarrow> 0
      | c # cs \<Rightarrow> if c = CHR ''-'' then - int (read_digits cs)
                 else if c = CHR ''+'' then int (read_digits cs) else int (read_digits (c # cs)))"

definition gameToInt :: "string \<Rightarrow> int" where
  "gameToInt intString = max (- (2 ^ 31)) (min (2 ^ 31 - 1) (read_number intString))"

text \<open>Reading into an \<open>unsigned int\<close>; a negative number of its width wraps around.\<close>

definition gameToUnsignedInt :: "string \<Rightarrow> int" where
  "gameToUnsignedInt intString =
     (let n = read_number intString in
      if \<bar>n\<bar> < 2 ^ 32 then n mod 2 ^ 32 else 2 ^ 32 - 1)"

definition atoi :: "string \<Rightarrow> int" where
  "atoi s = to_int32 (read_number s)"

subsection \<open>Commands and replies\<close>

definition strWriteExec :: "'c redis \<Rightarrow> string \<Rightarrow> ('c, bool) db" where
  "strWriteExec R cmd = (\<lambda>c. case R cmd c of
     (None, _) \<Rightarrow> Inl NullPointer
   | (Some reply, c') \<Rightarrow> Inr (case reply of Reply_status s \<Rightarrow> cstr s = ''OK'' | _ \<Rightarrow> False, c'))"

definition strReadExec :: "'c redis \<Rightarrow> string \<Rightarrow> ('c, string option) db" where
  "strReadExec R cmd = (\<lambda>c. case R cmd c of
     (None, _) \<Rightarrow> Inl NullPointer
   | (Some reply, c') \<Rightarrow> Inr (case reply of Reply_string s \<Rightarrow> Some (cstr s) | _ \<Rightarrow> None, c'))"

definition multiReadExec :: "'c redis \<Rightarrow> string \<Rightarrow> ('c, string list option) db" where
  "multiReadExec R cmd = (\<lambda>c. case R cmd c of
     (None, _) \<Rightarrow> Inl NullPointer
   | (Some (Reply_array ss), c') \<Rightarrow>
       if None \<in> set ss then Inl NullString else Inr (Some (map (\<lambda>s. cstr (the s)) ss), c')
   | (Some _, c') \<Rightarrow> Inr (None, c'))"

text \<open>The scripts are called by the hash of their text; their replies are read in place.\<close>

definition integer_reply :: "'c redis \<Rightarrow> string \<Rightarrow> (int \<Rightarrow> bool) \<Rightarrow> ('c, int option) db" where
  "integer_reply R cmd ok = (\<lambda>c. case R cmd c of
     (None, _) \<Rightarrow> Inl NullPointer
   | (Some reply, c') \<Rightarrow> Inr (case reply of Reply_integer i \<Rightarrow> (if ok i then Some i else None) | _ \<Rightarrow> None, c'))"

definition LUA_BATCH_READ_RESOURCE :: string where
  "LUA_BATCH_READ_RESOURCE = ''5f3a457ed3f517bbe102259c6835bf579399e96c''"
definition LUA_MAN_RESOURCE :: string where
  "LUA_MAN_RESOURCE = ''92d0a81d4746aab22a1f090e0b07164bea81a140''"
definition LUA_INSERT_SOLDIER :: string where
  "LUA_INSERT_SOLDIER = ''3793a46839a2e79784b3c3a79a85742bb8efa024''"
definition LUA_MAN_BUILDING :: string where
  "LUA_MAN_BUILDING = ''a32d5391c0ec4fed0d05b6cbce91e3c88287959c''"

subsection \<open>Players and their resources\<close>

definition getPlayerIDByLocation :: "'c redis \<Rightarrow> int \<Rightarrow> int \<Rightarrow> ('c, int option) db" where
  "getPlayerIDByLocation R x y =
     db_bind (strReadExec R (''GET '' @ gameToString x @ ''#'' @ gameToString y))
       (\<lambda>tmpOutput. db_return (map_option gameToInt tmpOutput))"

definition setPlayerLocation :: "'c redis \<Rightarrow> int \<Rightarrow> int \<Rightarrow> int \<Rightarrow> ('c, bool) db" where
  "setPlayerLocation R x y uid =
     strWriteExec R (''SET '' @ gameToString x @ ''#'' @ gameToString y @ '' '' @ gameToString uid)"

definition getPlayerResources :: "'c redis \<Rightarrow> int \<Rightarrow> ('c, string list option) db" where
  "getPlayerResources R uid =
     multiReadExec R (''EVALSHA '' @ LUA_BATCH_READ_RESOURCE @ '' 0 '' @ gameToString uid)"

definition manPlayerResources ::
  "'c redis \<Rightarrow> int \<Rightarrow> int \<Rightarrow> int \<Rightarrow> int \<Rightarrow> int \<Rightarrow> int \<Rightarrow> ('c, bool) db" where
  "manPlayerResources R uid ty wood stone iron concrete =
     db_bind (integer_reply R (''EVALSHA '' @ LUA_MAN_RESOURCE @ '' 0 '' @ gameToString uid @ '' '' @ gameToString ty @
         '' '' @ gameToString wood @ '' '' @ gameToString stone @ '' '' @ gameToString iron @ '' '' @
         gameToString concrete) (\<lambda>i. i = 1))
       (\<lambda>r. db_return (r \<noteq> None))"

definition insertToBuildedArmyQueue :: "'c redis \<Rightarrow> int \<Rightarrow> int \<Rightarrow> int \<Rightarrow> int \<Rightarrow> ('c, int option) db" where
  "insertToBuildedArmyQueue R uid soldier_type soldier_level population =
     integer_reply R (''EVALSHA '' @ LUA_INSERT_SOLDIER @ '' 0 '' @ gameToString uid @ '' '' @
       gameToString soldier_type @ '' '' @ gameToString soldier_level @ '' '' @ gameToString population) (\<lambda>i. 0 \<le> i)"

text \<open>\<open>gameFloatToString\<close> is the formatting of a \<open>float\<close> by the library: a parameter.\<close>

definition updateBuildingInfo ::
  "('f \<Rightarrow> string) \<Rightarrow> 'c redis \<Rightarrow> int \<Rightarrow> string \<Rightarrow> 'f \<Rightarrow> 'f \<Rightarrow> int \<Rightarrow> int \<Rightarrow> int \<Rightarrow> ('c, bool) db" where
  "updateBuildingInfo gameFloatToString R uid uuid x y category buildingClass hp =
     (let location = gameFloatToString x @ ''#'' @ gameFloatToString y in
      db_bind (integer_reply R (''EVALSHA '' @ LUA_MAN_BUILDING @ '' 0 '' @ gameToString uid @ '' '' @ uuid @ '' '' @
          location @ '' '' @ gameToString category @ '' '' @ gameToString buildingClass @ '' '' @ gameToString hp)
          (\<lambda>i. i = 1))
        (\<lambda>r. db_return (r \<noteq> None)))"

subsection \<open>Soldiers\<close>

record soldier =
  category :: int
  level :: int
  soldier_sid :: string
  camp_uuid :: string

text \<open>\<open>s.substr(5,1)\<close>, the digit of \<open>army#1\<close>.\<close>

definition substr_5_1 :: "string \<Rightarrow> crash + string" where
  "substr_5_1 s = (if length s < 5 then Inl OutOfRange else Inr (take 1 (drop 5 s)))"

definition army_category :: "string \<Rightarrow> crash + int" where
  "army_category s = bind_r (substr_5_1 s) (\<lambda>d. Inr (to_short (gameToInt d)))"

fun soldiers_by_ids :: "'c redis \<Rightarrow> string \<Rightarrow> string list \<Rightarrow> string list \<Rightarrow> ('c, soldier list) db" where
  "soldiers_by_ids R strUid allSoldiers [] = db_return []"
| "soldiers_by_ids R strUid allSoldiers (iter # rest) =
     (let index = gameToInt iter in
      if index < 0 \<or> int (length allSoldiers) \<le> index then db_lift (Inl OutOfRange)
      else let tmpStr = allSoldiers ! nat index in
        db_bind (db_lift (army_category tmpStr)) (\<lambda>cat.
        db_bind (strReadExec R (''HGET user#'' @ strUid @ '' '' @ tmpStr @ ''#max'')) (\<lambda>_.
        db_bind (soldiers_by_ids R strUid allSoldiers rest) (\<lambda>ss.
          db_return (\<lparr>category = cat, level = 1, soldier_sid = iter, camp_uuid = []\<rparr> # ss)))))"

definition getSoldierInfoByIDs :: "'c redis \<Rightarrow> int \<Rightarrow> string list \<Rightarrow> ('c, soldier list option) db" where
  "getSoldierInfoByIDs R uid ids =
     (let strUid = gameToString uid in
      db_bind (multiReadExec R (''LRANGE '' @ (''army#'' @ strUid) @ '' 0 -1'')) (\<lambda>allSoldiers.
        case allSoldiers of
          None \<Rightarrow> db_return None
        | Some [] \<Rightarrow> db_return None
        | Some all \<Rightarrow> db_bind (soldiers_by_ids R strUid all ids) (\<lambda>ss. db_return (Some ss))))"

text \<open>The loop of \<open>getDefenderSoldiers\<close>: whether it got to the end, and what it collected.\<close>

fun defender_soldiers :: "'c redis \<Rightarrow> string \<Rightarrow> string list \<Rightarrow> ('c, bool \<times> soldier list) db" where
  "defender_soldiers R strUid [] = db_return (True, [])"
| "defender_soldiers R strUid (sid # rest) =
     (let armyListKey = ''army#'' @ strUid; listKey = armyListKey @ ''#dfd'' in
      db_bind (strReadExec R (''LINDEX '' @ armyListKey @ '' '' @ sid)) (\<lambda>ret. case ret of
        None \<Rightarrow> db_return (False, [])
      | Some tmpStr \<Rightarrow>
          if tmpStr = ''#'' then defender_soldiers R strUid rest
          else db_bind (db_lift (army_category tmpStr)) (\<lambda>cat.
               db_bind (strReadExec R (''HGET user#'' @ strUid @ '' '' @ tmpStr @ ''#max'')) (\<lambda>_.
               db_bind (strReadExec R (''HGET '' @ listKey @ ''#camp '' @ sid)) (\<lambda>building_sn.
               db_bind (defender_soldiers R strUid rest) (\<lambda>(ok, ss).
                 db_return (ok, \<lparr>category = cat, level = 1, soldier_sid = sid,
                   camp_uuid = (case building_sn of None \<Rightarrow> [] | Some b \<Rightarrow> b)\<rparr> # ss)))))))"

definition getDefenderSoldiers :: "'c redis \<Rightarrow> int \<Rightarrow> ('c, bool \<times> soldier list) db" where
  "getDefenderSoldiers R uid =
     (let strUid = gameToString uid in
      db_bind (multiReadExec R (''LRANGE '' @ (''army#'' @ strUid @ ''#dfd'') @ '' 0 -1'')) (\<lambda>soldierIDs.
        case soldierIDs of
          None \<Rightarrow> db_return (False, [])
        | Some ids \<Rightarrow> defender_soldiers R strUid ids))"

text \<open>The loop of \<open>getSoldiersByPlayerID\<close>; \<open>index\<close> counts the dead (\<open>#\<close>) too.\<close>

fun player_soldiers :: "'c redis \<Rightarrow> string \<Rightarrow> int \<Rightarrow> string list \<Rightarrow> ('c, soldier list) db" where
  "player_soldiers R strUid index [] = db_return []"
| "player_soldiers R strUid index (iter # rest) =
     (if iter = ''#'' then player_soldiers R strUid (index + 1) rest
      else db_bind (db_lift (army_category iter)) (\<lambda>cat.
           db_bind (strReadExec R (''HGET user#'' @ strUid @ '' '' @ iter @ ''#max'')) (\<lambda>_.
           db_bind (strReadExec R (''HGET army#'' @ strUid @ ''#dfd#camp '' @ gameToString index)) (\<lambda>camp.
           db_bind (player_soldiers R strUid (index + 1) rest) (\<lambda>ss.
             db_return (\<lparr>category = cat, level = 1, soldier_sid = gameToString index,
               camp_uuid = (case camp of None \<Rightarrow> [] | Some b \<Rightarrow> b)\<rparr> # ss))))))"

definition getSoldiersByPlayerID :: "'c redis \<Rightarrow> int \<Rightarrow> ('c, soldier list option) db" where
  "getSoldiersByPlayerID R uid =
     (let strUid = gameToString uid in
      db_bind (multiReadExec R (''lrange '' @ (''army#'' @ strUid) @ '' 0 -1'')) (\<lambda>soldierIDs.
        case soldierIDs of
          None \<Rightarrow> db_return None
        | Some ids \<Rightarrow> db_bind (player_soldiers R strUid 0 ids) (\<lambda>ss. db_return (Some ss))))"

definition setSoldierDie :: "'c redis \<Rightarrow> int \<Rightarrow> string \<Rightarrow> ('c, bool) db" where
  "setSoldierDie R uid soldierID =
     (let strUid = gameToString uid in
      db_bind (strReadExec R (''LINDEX army#'' @ strUid @ '' '' @ soldierID)) (\<lambda>sType. case sType of
        None \<Rightarrow> db_return False
      | Some ty \<Rightarrow>
          db_bind (strWriteExec R (''LSET army#'' @ strUid @ '' '' @ soldierID @ '' #'')) (\<lambda>ret.
          if \<not> ret then db_return False
          else db_bind (strWriteExec R (''HINCRBY user#'' @ strUid @ '' '' @ ty @ '' -1'')) (\<lambda>ret.
            if \<not> ret then db_return False else db_return True))))"

definition setDfdSoldier :: "'c redis \<Rightarrow> int \<Rightarrow> string \<Rightarrow> string \<Rightarrow> ('c, bool) db" where
  "setDfdSoldier R uid soldierID build_sn =
     (let strUid = gameToString uid; listKey = ''army#'' @ strUid @ ''#dfd'' in
      db_bind (strWriteExec R (''LREM '' @ listKey @ '' 0 '' @ soldierID)) (\<lambda>_.
      db_bind (strWriteExec R (''RPUSH '' @ listKey @ '' '' @ soldierID)) (\<lambda>_.
      db_bind (strWriteExec R (''HSET army#'' @ strUid @ ''#dfd#camp '' @ soldierID @ '' '' @ build_sn)) (\<lambda>_.
        db_return True))))"

definition cancelDfdSoldier :: "'c redis \<Rightarrow> int \<Rightarrow> string \<Rightarrow> ('c, bool) db" where
  "cancelDfdSoldier R uid soldierID =
     (let strUid = gameToString uid; listKey = ''army#'' @ strUid @ ''#dfd'' in
      db_bind (strWriteExec R (''LREM '' @ listKey @ '' 0 '' @ soldierID)) (\<lambda>_.
      db_bind (strWriteExec R (''HDEL '' @ listKey @ ''#camp '' @ soldierID)) (\<lambda>_.
        db_return True)))"

subsection \<open>Fields of a player and of a building\<close>

definition getUsernameByID :: "'c redis \<Rightarrow> int \<Rightarrow> ('c, string option) db" where
  "getUsernameByID R uid = strReadExec R (''HGET user#'' @ gameToString uid @ '' uname'')"

definition getBuildingNumByID :: "'c redis \<Rightarrow> int \<Rightarrow> ('c, string option) db" where
  "getBuildingNumByID R uid = strReadExec R (''HGET user#'' @ gameToString uid @ '' buildingsNum'')"

definition getPlayerPointsByID :: "'c redis \<Rightarrow> int \<Rightarrow> ('c, string option) db" where
  "getPlayerPointsByID R uid = strReadExec R (''HGET user#'' @ gameToString uid @ '' abt#point'')"

definition plusPlayerPoint :: "'c redis \<Rightarrow> int \<Rightarrow> int \<Rightarrow> ('c, bool) db" where
  "plusPlayerPoint R uid points =
     strWriteExec R (''HINCRBY user#'' @ gameToString uid @ '' abt#point '' @ gameToString points)"

definition getPlayerIDByUname :: "'c redis \<Rightarrow> string \<Rightarrow> ('c, int option) db" where
  "getPlayerIDByUname R uname =
     db_bind (strReadExec R (''HGET nickname '' @ uname)) (\<lambda>strUid. db_return (map_option gameToUnsignedInt strUid))"

definition getBuildingCurRes :: "'c redis \<Rightarrow> int \<Rightarrow> string \<Rightarrow> ('c, int option) db" where
  "getBuildingCurRes R uid buildingID =
     db_bind (strReadExec R (''HGET build#'' @ gameToString uid @ ''#'' @ buildingID @ '' cur_resource''))
       (\<lambda>strResNum. db_return (map_option gameToInt strResNum))"

definition getBuildingType :: "'c redis \<Rightarrow> int \<Rightarrow> string \<Rightarrow> ('c, int option) db" where
  "getBuildingType R uid buildingID =
     db_bind (strReadExec R (''HGET build#'' @ gameToString uid @ ''#'' @ buildingID @ '' build_type''))
       (\<lambda>strBuildingType. db_return (map_option gameToInt strBuildingType))"

subsection \<open>Numbers survive the text\<close>

lemma digit_check: "list_all (\<lambda>n. is_digit (digit n) \<and> digit_value (digit n) = n \<and> digit n \<noteq> CHR ''-'' \<and>
    digit n \<noteq> CHR ''+'' \<and> \<not> is_white (digit n) \<and> digit n \<noteq> CHR ''#'' \<and> digit n \<noteq> CHR '' '' \<and> digit n \<noteq> CHR 0x00) [0..<10]"
  by code_simp

lemma digit_facts:
  assumes "n < 10"
  shows "is_digit (digit n)" "digit_value (digit n) = n" "digit n \<noteq> CHR ''-''" "digit n \<noteq> CHR ''+''"
    "\<not> is_white (digit n)" "digit n \<noteq> CHR ''#''" "digit n \<noteq> CHR '' ''" "digit n \<noteq> CHR 0x00"
proof -
  have "n \<in> set [0..<10]" using assms by simp
  with digit_check show "is_digit (digit n)" "digit_value (digit n) = n" "digit n \<noteq> CHR ''-''" "digit n \<noteq> CHR ''+''"
    "\<not> is_white (digit n)" "digit n \<noteq> CHR ''#''" "digit n \<noteq> CHR '' ''" "digit n \<noteq> CHR 0x00"
    unfolding list_all_iff by blast+
qed

lemma decimal_not_Nil [simp]: "decimal n \<noteq> []"
  by (simp add: decimal.simps [of n])

lemma set_decimal: "c \<in> set (decimal n) \<Longrightarrow> \<exists>d < 10. c = digit d"
proof (induction n rule: decimal.induct)
  case (1 n)
  show ?case
  proof (cases "n < 10")
    case True
    with "1.prems" show ?thesis by (auto simp: decimal.simps [of n])
  next
    case False
    then have "c \<in> set (decimal (n div 10)) \<or> c = digit (n mod 10)"
      using "1.prems" by (auto simp: decimal.simps [of n])
    then show ?thesis
    proof
      assume "c \<in> set (decimal (n div 10))"
      with "1.IH" False show ?thesis by blast
    next
      assume "c = digit (n mod 10)"
      then show ?thesis by (intro exI [of _ "n mod 10"]) simp
    qed
  qed
qed

lemma decimal_digits: "list_all is_digit (decimal n)"
  unfolding list_all_iff using set_decimal digit_facts(1) by blast

lemma decimal_value: "foldl (\<lambda>n c. 10 * n + digit_value c) 0 (decimal n) = n"
proof (induction n rule: decimal.induct)
  case (1 n)
  then show ?case
    by (cases "n < 10") (simp_all add: decimal.simps [of n] digit_facts)
qed

lemma read_digits_decimal [simp]: "read_digits (decimal n) = n"
proof -
  have "takeWhile is_digit (decimal n) = decimal n"
    using decimal_digits [of n] by (simp add: list_all_iff takeWhile_eq_all_conv)
  then show ?thesis by (simp only: read_digits_def decimal_value)
qed

lemma hd_decimal: "\<exists>d < 10. hd (decimal n) = digit d"
  using set_decimal [of "hd (decimal n)" n] by simp

lemma read_number_gameToString [simp]: "read_number (gameToString i) = i"
proof (cases "i < 0")
  case True
  have "\<not> is_white (CHR ''-'')" by code_simp
  with True show ?thesis by (simp add: read_number_def gameToString_def)
next
  case False
  obtain c cs where d: "decimal (nat i) = c # cs" by (cases "decimal (nat i)") auto
  with hd_decimal [of "nat i"] obtain k where "k < 10" "c = digit k" by auto
  then have "c \<noteq> CHR ''-''" "c \<noteq> CHR ''+''" "\<not> is_white c" using digit_facts [of k] by simp_all
  moreover have "read_digits (c # cs) = nat i" using read_digits_decimal [of "nat i"] d by simp
  ultimately show ?thesis using False d by (simp add: read_number_def gameToString_def)
qed

lemma read_number_prefix:
  assumes "\<not> is_digit x"
  shows "read_number (gameToString i @ x # rest) = i"
proof -
  have d: "read_digits (decimal n @ x # rest) = n" for n
  proof -
    have "takeWhile is_digit (decimal n @ x # rest) = decimal n"
      using decimal_digits [of n] assms by (simp add: list_all_iff)
    then show ?thesis by (simp only: read_digits_def decimal_value)
  qed
  have w: "\<not> is_white (CHR ''-'')" by code_simp
  show ?thesis
  proof (cases "i < 0")
    case True
    with w d show ?thesis by (simp add: read_number_def gameToString_def)
  next
    case False
    obtain c cs where e: "decimal (nat i) = c # cs" by (cases "decimal (nat i)") auto
    with hd_decimal [of "nat i"] obtain k where "k < 10" "c = digit k" by auto
    then have "c \<noteq> CHR ''-''" "c \<noteq> CHR ''+''" "\<not> is_white c" using digit_facts [of k] by simp_all
    moreover have "read_digits (c # cs @ x # rest) = nat i" using d [of "nat i"] e by simp
    ultimately show ?thesis using False e by (simp add: read_number_def gameToString_def)
  qed
qed

lemma gameToInt_gameToString: "- (2 ^ 31) \<le> i \<Longrightarrow> i < 2 ^ 31 \<Longrightarrow> gameToInt (gameToString i) = i"
  by (simp add: gameToInt_def)

lemma gameToString_inject: "gameToString i = gameToString j \<Longrightarrow> i = j"
  by (metis read_number_gameToString)

lemma set_gameToString: "c \<in> set (gameToString i) \<Longrightarrow> c \<noteq> CHR ''#'' \<and> c \<noteq> CHR '' '' \<and> c \<noteq> CHR 0x00"
proof -
  have d: "c \<in> set (decimal n) \<Longrightarrow> c \<noteq> CHR ''#'' \<and> c \<noteq> CHR '' '' \<and> c \<noteq> CHR 0x00" for n
  proof -
    assume "c \<in> set (decimal n)"
    then obtain k where "k < 10" "c = digit k" using set_decimal by blast
    then show ?thesis using digit_facts [of k] by simp
  qed
  show "c \<in> set (gameToString i) \<Longrightarrow> c \<noteq> CHR ''#'' \<and> c \<noteq> CHR '' '' \<and> c \<noteq> CHR 0x00"
    using d by (auto simp: gameToString_def split: if_splits)
qed

lemma cstr_gameToString [simp]: "cstr (gameToString i) = gameToString i"
  using set_gameToString [of "CHR 0x00" i] by (auto intro: cstr_no_nul)

lemma split_at_first:
  assumes "x \<notin> set a" and "x \<notin> set c" and "a @ x # b = c @ x # d"
  shows "a = c \<and> b = d"
proof -
  have "a = c" using assms(3) takeWhile_upto [OF assms(1), of b] takeWhile_upto [OF assms(2), of d] by simp
  with assms(3) show ?thesis by simp
qed

definition location_key :: "int \<Rightarrow> int \<Rightarrow> string" where
  "location_key x y = gameToString x @ ''#'' @ gameToString y"

lemma location_key_inject:
  assumes "location_key x y = location_key x' y'"
  shows "x = x' \<and> y = y'"
proof -
  have "gameToString x = gameToString x' \<and> gameToString y = gameToString y'"
    using assms split_at_first [of "CHR ''#''" "gameToString x" "gameToString x'" "gameToString y" "gameToString y'"]
      set_gameToString by (auto simp: location_key_def)
  then show ?thesis by (blast intro: gameToString_inject)
qed

subsection \<open>Where players are\<close>

text \<open>
  What Redis documents of SET and GET, for keys and values without blanks: GET returns
  the string that SET stored and changes nothing; SET of one key leaves the others.
\<close>

definition word :: "string \<Rightarrow> bool" where
  "word s \<longleftrightarrow> s \<noteq> [] \<and> CHR '' '' \<notin> set s \<and> CHR 0x00 \<notin> set s"

definition sets_and_gets :: "'c redis \<Rightarrow> bool" where
  "sets_and_gets R \<longleftrightarrow>
     (\<forall>k v c s c'. word k \<and> word v \<and> R (''SET '' @ k @ '' '' @ v) c = (Some (Reply_status s), c') \<and> cstr s = ''OK'' \<longrightarrow>
        fst (R (''GET '' @ k) c') = Some (Reply_string v) \<and>
        (\<forall>k'. word k' \<and> k' \<noteq> k \<longrightarrow> fst (R (''GET '' @ k') c') = fst (R (''GET '' @ k') c)))"

lemma cstr_word: "word s \<Longrightarrow> cstr s = s"
  by (simp add: word_def cstr_no_nul)

lemma word_gameToString: "word (gameToString i)"
  using set_gameToString [of "CHR '' ''" i] set_gameToString [of "CHR 0x00" i]
  by (auto simp: word_def gameToString_def)

lemma word_location_key: "word (location_key x y)"
  using word_gameToString [of x] word_gameToString [of y] by (auto simp: word_def location_key_def)

lemma strReadExec_fst:
  "fst (R cmd c) = fst (R cmd c') \<Longrightarrow> map_sum id fst (strReadExec R cmd c) = map_sum id fst (strReadExec R cmd c')"
  by (auto simp: strReadExec_def split: prod.splits option.splits)

text \<open>
  A player is found where it was put, and nobody else moves. After
  \<open>setPlayerLocation\<close> reported success, \<open>getPlayerIDByLocation\<close> returns the
  player's number for these coordinates, and for all other coordinates what it returned
  before: the text of a pair of coordinates belongs to one pair, and a number survives
  its text.
\<close>

theorem player_found_at_location:
  assumes "sets_and_gets R" and "- (2 ^ 31) \<le> uid" and "uid < 2 ^ 31"
    and "setPlayerLocation R x y uid c = Inr (True, c')" and "(x', y') \<noteq> (x, y)"
  shows "map_sum id fst (getPlayerIDByLocation R x y c') = Inr (Some uid) \<and>
    map_sum id fst (getPlayerIDByLocation R x' y' c') = map_sum id fst (getPlayerIDByLocation R x' y' c)"
proof -
  let ?k = "location_key x y" and ?k' = "location_key x' y'" and ?v = "gameToString uid"
  have other: "?k' \<noteq> ?k" using assms(5) location_key_inject by blast
  from assms(4) obtain s where r: "R (''SET '' @ ?k @ '' '' @ ?v) c = (Some (Reply_status s), c')" and s: "cstr s = ''OK''"
    by (auto simp: setPlayerLocation_def strWriteExec_def location_key_def split: prod.splits option.splits reply.splits)
  with assms(1) word_location_key [of x y] word_gameToString [of uid]
  have g: "fst (R (''GET '' @ ?k) c') = Some (Reply_string ?v)"
    and o: "\<forall>k'. word k' \<and> k' \<noteq> ?k \<longrightarrow> fst (R (''GET '' @ k') c') = fst (R (''GET '' @ k') c)"
    unfolding sets_and_gets_def by blast+
  have "fst (R (''GET '' @ ?k') c') = fst (R (''GET '' @ ?k') c)"
    using o other word_location_key by blast
  from strReadExec_fst [where R = R, OF this] have "map_sum id fst (getPlayerIDByLocation R x' y' c') =
      map_sum id fst (getPlayerIDByLocation R x' y' c)"
    by (auto simp: getPlayerIDByLocation_def location_key_def db_bind_def db_return_def
        split: sum.splits prod.splits)
  moreover have "map_sum id fst (getPlayerIDByLocation R x y c') = Inr (Some uid)"
    using g assms(2,3)
    by (cases "R (''GET '' @ ?k) c'")
      (simp add: getPlayerIDByLocation_def location_key_def strReadExec_def db_bind_def gameToInt_gameToString)
  ultimately show ?thesis by blast
qed

text \<open>A server that knows SET and GET, and one that counts.\<close>

definition set_get_server :: "(string \<Rightarrow> string option) redis" where
  "set_get_server cmd c =
     (let rest = drop 4 cmd in
      if take 4 cmd = ''SET '' then
        let k = takeWhile (\<lambda>x. x \<noteq> CHR '' '') rest in
        (Some (Reply_status ''OK''), c(k \<mapsto> drop (Suc (length k)) rest))
      else if take 4 cmd = ''GET '' then
        (Some (case c rest of None \<Rightarrow> Reply_nil | Some v \<Rightarrow> Reply_string v), c)
      else (Some (Reply_error ''unknown command''), c))"

lemma takeWhile_word: "word k \<Longrightarrow> takeWhile (\<lambda>x. x \<noteq> CHR '' '') (k @ CHR '' '' # v) = k"
  by (simp add: word_def takeWhile_upto)

lemma set_get_server_ok: "sets_and_gets set_get_server"
  by (auto simp: sets_and_gets_def set_get_server_def Let_def takeWhile_word)

theorem player_found_at_location_witness:
  "map_sum id fst (getPlayerIDByLocation set_get_server 3 (-4) [location_key 3 (-4) \<mapsto> ''77'']) = Inr (Some 77) \<and>
    map_sum id fst (getPlayerIDByLocation set_get_server (-4) 3 [location_key 3 (-4) \<mapsto> ''77'']) =
    map_sum id fst (getPlayerIDByLocation set_get_server (-4) 3 Map.empty)"
proof (rule player_found_at_location [OF set_get_server_ok])
  have "gameToString 77 = ''77''" by code_simp
  then show "setPlayerLocation set_get_server 3 (-4) 77 Map.empty = Inr (True, [location_key 3 (-4) \<mapsto> ''77''])"
    using takeWhile_word [OF word_location_key [of 3 "-4"], of "''77''"]
    by (simp add: setPlayerLocation_def strWriteExec_def set_get_server_def Let_def location_key_def cstr_def)
qed simp_all

text \<open>What Redis documents of HINCRBY: an integer, or an error; never the status OK.\<close>

definition increments_with_integers :: "'c redis \<Rightarrow> bool" where
  "increments_with_integers R \<longleftrightarrow>
     (\<forall>rest c s. fst (R (''HINCRBY '' @ rest) c) \<noteq> Some (Reply_status s))"

text \<open>
  Success is reported as failure. \<open>strWriteExec\<close> takes a command to have succeeded
  when the reply is the status OK, but HINCRBY replies with the new value: adding points
  to a player always reports failure, and so does \<open>setSoldierDie\<close>, also after it marked
  the soldier as dead in the list.
\<close>

theorem increments_report_failure:
  assumes "increments_with_integers R"
    and "plusPlayerPoint R uid points c = Inr (added, c1)" and "setSoldierDie R uid soldierID c = Inr (died, c2)"
  shows "\<not> added \<and> \<not> died"
proof -
  have never: "\<not> b" if "strWriteExec R (''HINCRBY '' @ rest) c0 = Inr (b, c1)" for rest c0 b c1
  proof -
    obtain r c' where r: "R (''HINCRBY '' @ rest) c0 = (r, c')" by fastforce
    have "r \<noteq> Some (Reply_status s)" for s
      using assms(1) r unfolding increments_with_integers_def by (metis fst_conv)
    with that r show ?thesis
      by (auto simp: strWriteExec_def split: option.splits reply.splits)
  qed
  have "\<not> added"
    using assms(2) never [of "''user#'' @ gameToString uid @ '' abt#point '' @ gameToString points"]
    by (simp add: plusPlayerPoint_def)
  moreover have "\<not> b" if "strWriteExec R (''HINCRBY user#'' @ rest) c0 = Inr (b, c1)" for rest c0 b c1
    using that never [of "''user#'' @ rest"] by simp
  then have "\<not> died"
    using assms(3)
    by (fastforce simp: setSoldierDie_def Let_def db_bind_eq_Inr split: option.splits if_splits)
  ultimately show ?thesis ..
qed

definition counting_server :: "nat redis" where
  "counting_server cmd c =
     (if take 8 cmd = ''HINCRBY '' then (Some (Reply_integer (int (Suc c))), Suc c)
      else if take 5 cmd = ''LSET '' then (Some (Reply_status ''OK''), Suc c)
      else (Some (Reply_string ''army#1''), c))"

theorem increments_report_failure_witness: "\<not> False \<and> \<not> False"
proof (rule increments_report_failure [of counting_server])
  show "increments_with_integers counting_server"
    by (simp add: increments_with_integers_def counting_server_def)
  show "plusPlayerPoint counting_server 7 5 0 = Inr (False, 1)" by code_simp
  show "setSoldierDie counting_server 7 ''0'' 0 = Inr (False, 2)" by code_simp
qed

end
