(* ===== verification/Army_Queue.thy ===== *)
theory Army_Queue
  imports Redis_Client
begin

section \<open>ArmysBuildQueue: building soldiers in the camps of a player\<close>

text \<open>
  Models \<open>workers/small_map_worker/_army_build_queue_manager.cpp\<close>: the queues of
  soldiers under construction, one for each camp of a player, with the timer that
  completes the first soldier of the queue. Times are seconds; \<open>None\<close> is
  \<open>not_a_date_time\<close>. The timer's pending wait is a flag: \<open>expires_at\<close> and
  \<open>cancel\<close> end a wait with an error, which \<open>timeIsUp\<close> ignores.
\<close>

datatype OPERATION = DEL | NONE | ADD

fun operation_code :: "OPERATION \<Rightarrow> int" where
  "operation_code DEL = -1"
| "operation_code NONE = 0"
| "operation_code ADD = 1"

text \<open>The fields of \<open>ArmsResponse\<close> that the queues read.\<close>

record arms =
  need_wood :: int
  need_stone :: int
  need_iron :: int
  need_soil :: int
  population :: int
  build_time :: int

record soldier_info =
  soldier_type :: int
  soldier_level :: int
  soldier_num :: int

record timer_queue =
  timer_expires :: "int option"
  waiting :: bool
  begin_build_time :: "int option"
  armys_queue :: "soldier_info list"
  is_block :: bool

record army =
  m_uid :: int
  camp_queue :: "(string \<times> timer_queue) list"

text \<open>
  What the queue uses of its \<open>SmallMapBase\<close>: the table of arms, the limits of the
  combat unions, Redis, the diamonds in MySQL, and the text of a time.
\<close>

record 'c small_map =
  arms_table :: "arms list list"
  combat_union_limit :: "int list list"
  redis_of :: "'c redis"
  subDiamond :: "int \<Rightarrow> int \<Rightarrow> ('c, bool) db"
  to_iso_string :: "int option \<Rightarrow> string"
  from_iso_string :: "string \<Rightarrow> int option"

datatype army_message =
    SoldierProcessResponse int int int string int bool int int int int
  | TimeIsUpResponse int int int string int string
  | CampInfoResponse "(string \<times> soldier_info list \<times> int) list"
  | SoldiersInfoResponse "soldier list"
  | CompleteAtOnceResponse int string "soldier list"

definition TimerQueue :: timer_queue where
  "TimerQueue = \<lparr>timer_expires = None, waiting = False, begin_build_time = None, armys_queue = [], is_block = False\<rparr>"

definition queue_push_back :: "int \<Rightarrow> int \<Rightarrow> int \<Rightarrow> timer_queue \<Rightarrow> timer_queue" where
  "queue_push_back ty lv num q =
     q\<lparr>armys_queue := armys_queue q @ [\<lparr>soldier_type = ty, soldier_level = lv, soldier_num = num\<rparr>]\<rparr>"

subsection \<open>Camps and the table of arms\<close>

text \<open>
  \<open>camp_queue[which_camp]->\<close> with a camp that is not there makes a null pointer and goes
  through it.
\<close>

definition camp :: "string \<Rightarrow> army \<Rightarrow> crash + timer_queue" where
  "camp which_camp a = (case map_of (camp_queue a) which_camp of None \<Rightarrow> Inl NullPointer | Some q \<Rightarrow> Inr q)"

fun set_camp_list :: "string \<Rightarrow> timer_queue \<Rightarrow> (string \<times> timer_queue) list \<Rightarrow> (string \<times> timer_queue) list" where
  "set_camp_list k q [] = [(k, q)]"
| "set_camp_list k q ((k', q') # m) = (if k' = k then (k, q) # m else (k', q') # set_camp_list k q m)"

definition set_camp :: "string \<Rightarrow> timer_queue \<Rightarrow> army \<Rightarrow> army" where
  "set_camp k q a = a\<lparr>camp_queue := set_camp_list k q (camp_queue a)\<rparr>"

text \<open>
  The bounds test of the code; a negative \<open>short\<close> becomes a large \<open>size_t\<close> and fails
  it. Without the test, indexing past the end is \<open>OutOfRange\<close>.
\<close>

definition arms_at :: "'c small_map \<Rightarrow> int \<Rightarrow> int \<Rightarrow> arms option" where
  "arms_at sm ty lv =
     (if ty < 0 \<or> int (length (arms_table sm)) \<le> ty then None
      else let row = arms_table sm ! nat ty in
        if lv < 0 \<or> int (length row) \<le> lv then None else Some (row ! nat lv))"

definition arms_index :: "'c small_map \<Rightarrow> int \<Rightarrow> int \<Rightarrow> crash + arms" where
  "arms_index sm ty lv = (case arms_at sm ty lv of None \<Rightarrow> Inl OutOfRange | Some x \<Rightarrow> Inr x)"

subsection \<open>The timer\<close>

definition cancelTimer :: "string \<Rightarrow> army \<Rightarrow> army" where
  "cancelTimer which_camp a =
     (case map_of (camp_queue a) which_camp of
        None \<Rightarrow> a
      | Some q \<Rightarrow> if armys_queue q = [] then a else set_camp which_camp (q\<lparr>waiting := False\<rparr>) a)"

definition registerTime :: "'c small_map \<Rightarrow> string \<Rightarrow> int option \<Rightarrow> int \<Rightarrow> army \<Rightarrow> crash + army" where
  "registerTime sm which_camp begin_time secs a =
     bind_r (camp which_camp a) (\<lambda>q.
       case armys_queue q of
         [] \<Rightarrow> Inr a
       | sir # _ \<Rightarrow>
           let started = (case begin_time of None \<Rightarrow> timer_expires q | Some t \<Rightarrow> Some t) in
           bind_r (if secs = 0
                   then bind_r (arms_index sm (soldier_type sir) (soldier_level sir)) (\<lambda>x. Inr (build_time x))
                   else Inr secs)
             (\<lambda>delay. Inr (set_camp which_camp
                (q\<lparr>begin_build_time := started, timer_expires := map_option (\<lambda>t. t + delay) started, waiting := True\<rparr>) a)))"

definition time_remain :: "'c small_map \<Rightarrow> int \<Rightarrow> string \<Rightarrow> army \<Rightarrow> crash + int" where
  "time_remain sm now which_camp a =
     (case map_of (camp_queue a) which_camp of
        None \<Rightarrow> Inr (-1)
      | Some q \<Rightarrow>
          if is_block q then Inr 0
          else case armys_queue q of
            [] \<Rightarrow> Inr 0
          | sir # _ \<Rightarrow>
              bind_r (arms_index sm (soldier_type sir) (soldier_level sir)) (\<lambda>x.
                Inr (case begin_build_time q of None \<Rightarrow> 0 | Some t \<Rightarrow> t + build_time x - now)))"

subsection \<open>Redis\<close>

text \<open>\<open>char tmp[150]\<close>: \<open>sprintf\<close> does not know the size of its buffer.\<close>

definition sprintf :: "nat \<Rightarrow> string \<Rightarrow> crash + string" where
  "sprintf room text = (if room \<le> length text then Inl BufferOverflow else Inr text)"

definition camp_key :: "int \<Rightarrow> string \<Rightarrow> string" where
  "camp_key uid which_camp = ''camp#'' @ gameToString uid @ ''#'' @ cstr which_camp"

definition soldier_text :: "soldier_info \<Rightarrow> string" where
  "soldier_text s = gameToString (soldier_type s) @ ''#'' @ gameToString (soldier_level s) @ ''#'' @ gameToString (soldier_num s)"

definition bool_text :: "bool \<Rightarrow> string" where
  "bool_text b = (if b then ''1'' else ''0'')"

definition writeIntoRedis :: "'c small_map \<Rightarrow> int \<Rightarrow> string \<Rightarrow> timer_queue \<Rightarrow> ('c, unit) db" where
  "writeIntoRedis sm uid which_camp q =
     db_bind (db_lift (sprintf 150 (''lpush '' @ camp_key uid which_camp @ '' '' @
         to_iso_string sm (begin_build_time q) @ '' '' @ bool_text (is_block q)))) (\<lambda>head.
     db_bind (db_lift (sprintf 150 (''del '' @ camp_key uid which_camp))) (\<lambda>del.
     db_bind (strWriteExec (redis_of sm) del) (\<lambda>_.
     db_bind (strWriteExec (redis_of sm) (head @ concat (map (\<lambda>s. CHR '' '' # soldier_text s) (armys_queue q)))) (\<lambda>_.
       db_return ()))))"

definition readBuildArmy :: "'c small_map \<Rightarrow> string \<Rightarrow> ('c, string list option) db" where
  "readBuildArmy sm camp_id =
     db_bind (db_lift (sprintf 150 (''lrange '' @ cstr camp_id @ '' 0 -1''))) (\<lambda>cmd. multiReadExec (redis_of sm) cmd)"

text \<open>The soldier's number when the population allows one more, \<open>None\<close> when not.\<close>

definition insertToBuilded :: "'c small_map \<Rightarrow> int \<Rightarrow> int \<Rightarrow> int \<Rightarrow> ('c, int option) db" where
  "insertToBuilded sm uid ty lv =
     (case arms_at sm ty lv of
        None \<Rightarrow> db_return None
      | Some x \<Rightarrow> insertToBuildedArmyQueue (redis_of sm) uid ty lv (to_short (population x)))"

text \<open>
  \<open>subResource\<close> (2) and \<open>addResource\<close> (1): the arguments come back as what the
  player has afterwards.
\<close>

definition changeResource ::
  "int \<Rightarrow> 'c small_map \<Rightarrow> int \<Rightarrow> int \<times> int \<times> int \<times> int \<Rightarrow> ('c, bool \<times> int \<times> int \<times> int \<times> int) db" where
  "changeResource kind sm uid amounts = (case amounts of (wood, stone, iron, concrete) \<Rightarrow>
     db_bind (manPlayerResources (redis_of sm) uid kind wood stone iron concrete) (\<lambda>ret.
     db_bind (getPlayerResources (redis_of sm) uid) (\<lambda>output.
       db_return (ret, case output of
           Some [w, s, i, c] \<Rightarrow> (atoi w, atoi s, atoi i, atoi c)
         | _ \<Rightarrow> (0, 0, 0, 0)))))"

definition subResource ::
  "'c small_map \<Rightarrow> int \<Rightarrow> int \<times> int \<times> int \<times> int \<Rightarrow> ('c, bool \<times> int \<times> int \<times> int \<times> int) db" where
  "subResource sm uid amounts = changeResource 2 sm uid amounts"

definition addResource ::
  "'c small_map \<Rightarrow> int \<Rightarrow> int \<times> int \<times> int \<times> int \<Rightarrow> ('c, bool \<times> int \<times> int \<times> int \<times> int) db" where
  "addResource sm uid amounts = changeResource 1 sm uid amounts"

definition soldier_is_unlock :: "'c small_map \<Rightarrow> int \<Rightarrow> int \<Rightarrow> int \<Rightarrow> ('c, bool) db" where
  "soldier_is_unlock sm uid ty lv =
     db_bind (strReadExec (redis_of sm) (''hget user#'' @ gameToString uid @ '' combat_union_uid'')) (\<lambda>output.
       case output of
         None \<Rightarrow> db_return False
       | Some [] \<Rightarrow> db_return False
       | Some text \<Rightarrow>
           let combat_union_id = atoi text in
           if 6 \<le> combat_union_id then db_return False
           else if combat_union_id < 0 then db_lift (Inl OutOfRange)
           else let row = combat_union_limit sm ! nat combat_union_id in
             if ty < 0 \<or> int (length row) \<le> ty then db_lift (Inl OutOfRange)
             else db_return (lv \<le> row ! nat ty))"

subsection \<open>Answers to the player\<close>

definition sendProcessResultToUser ::
  "'c small_map \<Rightarrow> army \<Rightarrow> int \<Rightarrow> int \<Rightarrow> int \<Rightarrow> string \<Rightarrow> OPERATION \<Rightarrow> bool \<Rightarrow> int \<times> int \<times> int \<times> int \<Rightarrow>
     ('c, army_message list) db" where
  "sendProcessResultToUser sm a ty lv num which_camp op status amounts =
     (case amounts of (wood, stone, iron, concrete) \<Rightarrow>
      db_bind (case map_of (camp_queue a) which_camp of
                 None \<Rightarrow> db_return ()
               | Some q \<Rightarrow> writeIntoRedis sm (m_uid a) which_camp q) (\<lambda>_.
        db_return [SoldierProcessResponse ty lv num which_camp (operation_code op) status wood stone iron concrete]))"

definition sendSoldierIsComplete ::
  "'c small_map \<Rightarrow> army \<Rightarrow> int \<Rightarrow> int \<Rightarrow> int \<Rightarrow> string \<Rightarrow> string \<Rightarrow> ('c, army_message list) db" where
  "sendSoldierIsComplete sm a ty lv num which_camp soldier_id =
     db_bind (db_lift (camp which_camp a)) (\<lambda>q.
     db_bind (writeIntoRedis sm (m_uid a) which_camp q) (\<lambda>_.
       db_return [TimeIsUpResponse ty lv num which_camp (operation_code ADD) soldier_id]))"

subsection \<open>Orders\<close>

text \<open>The price of one soldier times the number, in 32 bits.\<close>

definition order_cost :: "arms \<Rightarrow> int \<Rightarrow> int \<times> int \<times> int \<times> int" where
  "order_cost x num =
     (to_int32 (need_wood x * num), to_int32 (need_stone x * num), to_int32 (need_iron x * num), to_int32 (need_soil x * num))"

definition order_refund :: "arms \<Rightarrow> int \<Rightarrow> int \<times> int \<times> int \<times> int" where
  "order_refund x num =
     (to_int32 (c_div (need_wood x) 2 * num), to_int32 (c_div (need_stone x) 2 * num),
      to_int32 (c_div (need_iron x) 2 * num), to_int32 (c_div (need_soil x) 2 * num))"

text \<open>The first queued order of the same soldiers grows, or there is none.\<close>

fun add_to_order :: "int \<Rightarrow> int \<Rightarrow> int \<Rightarrow> soldier_info list \<Rightarrow> soldier_info list option" where
  "add_to_order ty lv num [] = None"
| "add_to_order ty lv num (s # ss) =
     (if soldier_type s = ty \<and> soldier_level s = lv
      then Some (s\<lparr>soldier_num := to_short (soldier_num s + num)\<rparr> # ss)
      else map_option (\<lambda>t. s # t) (add_to_order ty lv num ss))"

definition addSoldiers ::
  "'c small_map \<Rightarrow> int \<Rightarrow> int \<Rightarrow> int \<Rightarrow> int \<Rightarrow> string \<Rightarrow> army \<Rightarrow> ('c, army \<times> army_message list) db" where
  "addSoldiers sm now ty lv num which_camp a0 =
     (let a = (case map_of (camp_queue a0) which_camp of None \<Rightarrow> set_camp which_camp TimerQueue a0 | Some _ \<Rightarrow> a0) in
      case arms_at sm ty lv of
        None \<Rightarrow> db_return (a, [])
      | Some x \<Rightarrow>
          db_bind (soldier_is_unlock sm (m_uid a) ty lv) (\<lambda>unlocked.
          if unlocked then db_return (a, [])
          else db_bind (subResource sm (m_uid a) (order_cost x num)) (\<lambda>(paid, amounts).
            if \<not> paid then
              db_bind (sendProcessResultToUser sm a ty lv num which_camp ADD False amounts) (\<lambda>out. db_return (a, out))
            else db_bind (db_lift (camp which_camp a)) (\<lambda>q.
              case add_to_order ty lv num (armys_queue q) of
                Some orders \<Rightarrow>
                  let a1 = set_camp which_camp (q\<lparr>armys_queue := orders\<rparr>) a in
                  db_bind (sendProcessResultToUser sm a1 ty lv num which_camp ADD True amounts) (\<lambda>out. db_return (a1, out))
              | None \<Rightarrow>
                  let a1 = set_camp which_camp (queue_push_back ty lv num q) a in
                  db_bind (db_lift (if armys_queue q = [] then registerTime sm which_camp (Some now) 0 a1 else Inr a1)) (\<lambda>a2.
                  db_bind (sendProcessResultToUser sm a2 ty lv num which_camp ADD True amounts) (\<lambda>out. db_return (a2, out)))))))"

text \<open>
  The loop over the orders behind the first: the first match shrinks, and goes when
  nothing is left of it.
\<close>

fun del_from_order :: "int \<Rightarrow> int \<Rightarrow> int \<Rightarrow> soldier_info list \<Rightarrow> soldier_info list option" where
  "del_from_order ty lv num [] = None"
| "del_from_order ty lv num (s # ss) =
     (if soldier_type s = ty \<and> soldier_level s = lv
      then let left = to_short (soldier_num s - num) in
           Some (if left \<le> 0 then ss else s\<lparr>soldier_num := left\<rparr> # ss)
      else map_option (\<lambda>t. s # t) (del_from_order ty lv num ss))"

definition delSoliders ::
  "'c small_map \<Rightarrow> int \<Rightarrow> int \<Rightarrow> int \<Rightarrow> int \<Rightarrow> string \<Rightarrow> army \<Rightarrow> ('c, army \<times> army_message list) db" where
  "delSoliders sm now ty lv num which_camp a =
     (case arms_at sm ty lv of
        None \<Rightarrow> db_return (a, [])
      | Some x \<Rightarrow>
          let finish = (\<lambda>a'. db_bind (addResource sm (m_uid a) (order_refund x num)) (\<lambda>(_, amounts).
                db_bind (sendProcessResultToUser sm a' ty lv num which_camp DEL True amounts) (\<lambda>out. db_return (a', out)))) in
          case map_of (camp_queue a) which_camp of
            None \<Rightarrow>
              db_bind (sendProcessResultToUser sm a ty lv num which_camp DEL False (0, 0, 0, 0)) (\<lambda>out. db_return (a, out))
          | Some q \<Rightarrow>
              (case armys_queue q of
                 [] \<Rightarrow> db_return (a, [])
               | s # ss \<Rightarrow>
                   if soldier_type s = ty \<and> lv = soldier_level s then
                     if soldier_num s - num \<le> 0 then
                       let a1 = cancelTimer which_camp a in
                       db_bind (db_lift (camp which_camp a1)) (\<lambda>q1.
                       db_bind (db_lift (registerTime sm which_camp (Some now) 0
                           (set_camp which_camp (q1\<lparr>armys_queue := ss\<rparr>) a1))) finish)
                     else finish (set_camp which_camp (q\<lparr>armys_queue := s\<lparr>soldier_num := to_short (soldier_num s - num)\<rparr> # ss\<rparr>) a)
                   else if length (armys_queue q) > 1 then
                     case del_from_order ty lv num (armys_queue q) of
                       Some orders \<Rightarrow> finish (set_camp which_camp (q\<lparr>armys_queue := orders\<rparr>) a)
                     | None \<Rightarrow> db_return (a, [])
                   else db_return (a, [])))"

subsection \<open>The timer fires\<close>

text \<open>
  \<open>err\<close> is set when the wait was cancelled. A wait that ended is no longer pending;
  \<open>sir_ptr\<close> keeps the soldier alive after its erasure.
\<close>

definition timeIsUp :: "'c small_map \<Rightarrow> bool \<Rightarrow> string \<Rightarrow> army \<Rightarrow> ('c, army \<times> army_message list) db" where
  "timeIsUp sm err which_camp a0 =
     (if err then db_return (a0, [])
      else case map_of (camp_queue a0) which_camp of
        None \<Rightarrow> db_return (a0, [])
      | Some q0 \<Rightarrow>
          let q = q0\<lparr>waiting := False\<rparr>; a = set_camp which_camp q a0 in
          case armys_queue q of
            [] \<Rightarrow> db_return (a, [])
          | s # ss \<Rightarrow>
              db_bind (insertToBuilded sm (m_uid a) (soldier_type s) (soldier_level s)) (\<lambda>soldier_id. case soldier_id of
                Some n \<Rightarrow>
                  let q1 = q\<lparr>is_block := False,
                        armys_queue := (if soldier_num s = 1 then ss
                                        else s\<lparr>soldier_num := to_short (soldier_num s - 1)\<rparr> # ss)\<rparr>;
                      a1 = set_camp which_camp q1 a in
                  db_bind (sendSoldierIsComplete sm a1 (soldier_type s) (soldier_level s) 1 which_camp (gameToString n)) (\<lambda>out.
                  if armys_queue q1 = [] then db_return (a1, out)
                  else db_bind (db_lift (registerTime sm which_camp None 0 a1)) (\<lambda>a2. db_return (a2, out)))
              | None \<Rightarrow>
                  db_bind (db_lift (registerTime sm which_camp None 30 (set_camp which_camp (q\<lparr>is_block := True\<rparr>) a)))
                    (\<lambda>a2. db_return (a2, []))))"

subsection \<open>Paying with diamonds\<close>

text \<open>The soldiers of one order, until the population is full.\<close>

fun insert_order :: "'c small_map \<Rightarrow> int \<Rightarrow> int \<Rightarrow> int \<Rightarrow> nat \<Rightarrow> ('c, soldier list) db" where
  "insert_order sm uid ty lv 0 = db_return []"
| "insert_order sm uid ty lv (Suc n) =
     db_bind (insertToBuilded sm uid ty lv) (\<lambda>soldier_id. case soldier_id of
       None \<Rightarrow> db_return []
     | Some i \<Rightarrow> db_bind (insert_order sm uid ty lv n) (\<lambda>ss.
         db_return (\<lparr>category = ty, level = lv, soldier_sid = gameToString i, camp_uuid = []\<rparr> # ss)))"

fun insert_orders :: "'c small_map \<Rightarrow> int \<Rightarrow> soldier_info list \<Rightarrow> ('c, soldier list) db" where
  "insert_orders sm uid [] = db_return []"
| "insert_orders sm uid (s # ss) =
     db_bind (insert_order sm uid (soldier_type s) (soldier_level s) (nat (soldier_num s))) (\<lambda>xs.
     db_bind (insert_orders sm uid ss) (\<lambda>ys. db_return (xs @ ys)))"

fun build_total_second :: "'c small_map \<Rightarrow> soldier_info list \<Rightarrow> crash + int" where
  "build_total_second sm [] = Inr 0"
| "build_total_second sm (s # ss) =
     bind_r (arms_index sm (soldier_type s) (soldier_level s)) (\<lambda>x.
     bind_r (build_total_second sm ss) (\<lambda>t. Inr (soldier_num s * build_time x + t)))"

text \<open>
  \<open>td.seconds()\<close> is the seconds within the minute of the time since the queue
  started, not all of its seconds. (For a queue that never started the difference is
  not a duration; it is taken as 0.) A camp that does not exist ends the call at once.
\<close>

definition diamonds_needed :: "int \<Rightarrow> int \<Rightarrow> int option \<Rightarrow> int" where
  "diamonds_needed build_seconds now started =
     (let td = (case started of None \<Rightarrow> 0 | Some t \<Rightarrow> now - t);
          accelerate_time = build_seconds - sgn td * (\<bar>td\<bar> mod 60)
      in c_div accelerate_time (60 * 5) + 1)"

definition completeAtOnce ::
  "'c small_map \<Rightarrow> int \<Rightarrow> string \<Rightarrow> army \<Rightarrow> ('c, army \<times> army_message list) db" where
  "completeAtOnce sm now which_camp a =
     (case map_of (camp_queue a) which_camp of
        None \<Rightarrow> db_return (a, [])
      | Some q \<Rightarrow>
          db_bind (db_lift (build_total_second sm (armys_queue q))) (\<lambda>seconds.
          let diamond_to_sub = diamonds_needed seconds now (begin_build_time q) in
          db_bind (subDiamond sm (m_uid a) diamond_to_sub) (\<lambda>db_operation.
          if \<not> db_operation then db_return (a, [CompleteAtOnceResponse 0 which_camp []])
          else
            db_bind (insert_orders sm (m_uid a) (armys_queue q)) (\<lambda>soldiers_info.
            let a1 = cancelTimer which_camp a in
            db_bind (db_lift (camp which_camp a1)) (\<lambda>q1.
            let q2 = q1\<lparr>armys_queue := [], begin_build_time := Some now, is_block := False\<rparr> in
            db_bind (writeIntoRedis sm (m_uid a) which_camp q2) (\<lambda>_.
              db_return (set_camp which_camp q2 a1, [CompleteAtOnceResponse diamond_to_sub which_camp soldiers_info])))))))"

subsection \<open>Information for the player\<close>

definition getSoldiersVector :: "timer_queue \<Rightarrow> soldier_info list" where
  "getSoldiersVector q = map (\<lambda>s. \<lparr>soldier_type = soldier_type s, soldier_level = soldier_level s,
     soldier_num = soldier_num s\<rparr>) (armys_queue q)"

fun camp_infos :: "'c small_map \<Rightarrow> int \<Rightarrow> army \<Rightarrow> (string \<times> timer_queue) list \<Rightarrow>
    crash + (string \<times> soldier_info list \<times> int) list" where
  "camp_infos sm now a [] = Inr []"
| "camp_infos sm now a ((k, q) # rest) =
     bind_r (time_remain sm now k a) (\<lambda>t.
     bind_r (camp_infos sm now a rest) (\<lambda>cs. Inr ((k, getSoldiersVector q, t) # cs)))"

definition getCampInfo :: "'c small_map \<Rightarrow> int \<Rightarrow> army \<Rightarrow> ('c, army_message list) db" where
  "getCampInfo sm now a =
     db_bind (db_lift (camp_infos sm now a (camp_queue a))) (\<lambda>infos. db_return [CampInfoResponse infos])"

definition getBuildedSoldiersInfo :: "'c small_map \<Rightarrow> army \<Rightarrow> ('c, army_message list) db" where
  "getBuildedSoldiersInfo sm a =
     db_bind (getSoldiersByPlayerID (redis_of sm) (m_uid a)) (\<lambda>soldiers.
       db_return [SoldiersInfoResponse (case soldiers of None \<Rightarrow> [] | Some ss \<Rightarrow> ss)])"

subsection \<open>A player comes online\<close>

text \<open>\<open>split(..., is_any_of("#"), token_compress_on)\<close>: a run of separators separates once.\<close>

fun split_hash :: "string \<Rightarrow> string list" where
  "split_hash [] = [[]]"
| "split_hash (c # cs) =
     (if c = CHR ''#'' then [] # (case cs of d # _ \<Rightarrow> if d = CHR ''#'' then tl (split_hash cs) else split_hash cs
                                          | [] \<Rightarrow> split_hash cs)
      else case split_hash cs of [] \<Rightarrow> [[c]] | t # ts \<Rightarrow> (c # t) # ts)"

text \<open>
  One queued order while the time \<open>td\<close> that passed offline is used up: what is left of
  \<open>td\<close>, of the number, and whether the order is queued because its time (\<open>Some True\<close>)
  or the population (\<open>Some False\<close>) ran out.
\<close>

function build_offline ::
  "'c small_map \<Rightarrow> int \<Rightarrow> int \<Rightarrow> int \<Rightarrow> int \<Rightarrow> int \<Rightarrow> int \<Rightarrow> ('c, int \<times> int \<times> bool option) db" where
  "build_offline sm uid ty lv bt num td =
     (if 0 \<le> num then
        if td - bt < 0 then db_return (td, num, Some True)
        else db_bind (insertToBuilded sm uid ty lv) (\<lambda>soldier_id. case soldier_id of
          Some _ \<Rightarrow> build_offline sm uid ty lv bt (num - 1) (td - bt)
        | None \<Rightarrow> db_return (td - bt, num, Some False))
      else db_return (td, num, None))"
  by pat_completeness auto
termination
  by (relation "measure (\<lambda>(sm, uid, ty, lv, bt, num, td). nat (num + 1))") auto

declare build_offline.simps [simp del]

text \<open>
  One order read back. The state of the loop: the queue, whether the rest is queued
  without counting time, and the time left.
\<close>

definition restore_order ::
  "'c small_map \<Rightarrow> int \<Rightarrow> string \<Rightarrow> int \<Rightarrow> int \<Rightarrow> int \<Rightarrow> army \<times> bool \<times> int \<Rightarrow> ('c, army \<times> bool \<times> int) db" where
  "restore_order sm now camp_id ty lv num st = (case st of (a, direct, td) \<Rightarrow>
     db_bind (db_lift (camp camp_id a)) (\<lambda>q.
       if direct then db_return (set_camp camp_id (queue_push_back ty lv num q) a, True, td)
       else if num < 0 then db_return (a, False, td)
       else
         db_bind (db_lift (arms_index sm ty lv)) (\<lambda>x.
         db_bind (build_offline sm (m_uid a) ty lv (build_time x) num td) (\<lambda>(td', num', stop).
           let q1 = (if num' = num then q else q\<lparr>is_block := False\<rparr>); q2 = queue_push_back ty lv num' q1 in
           case stop of
             None \<Rightarrow> db_return (set_camp camp_id q1 a, False, td')
           | Some timed \<Rightarrow>
               if timed then
                 db_bind (db_lift (registerTime sm camp_id (Some (now - td')) 0 (set_camp camp_id q2 a)))
                   (\<lambda>a'. db_return (a', True, td'))
               else db_return (set_camp camp_id (q2\<lparr>is_block := True\<rparr>) a, True, td')))))"

fun restore_orders ::
  "'c small_map \<Rightarrow> int \<Rightarrow> string \<Rightarrow> string list \<Rightarrow> army \<times> bool \<times> int \<Rightarrow> ('c, army \<times> bool \<times> int) db" where
  "restore_orders sm now camp_id [] st = db_return st"
| "restore_orders sm now camp_id (order # rest) st =
     (case split_hash order of
        [t, l, n] \<Rightarrow>
          let ty = to_short (atoi t); lv = to_short (atoi l); num = to_short (atoi n) in
          if ty = 0 \<or> lv = 0 \<or> num = 0 then restore_orders sm now camp_id rest st
          else db_bind (restore_order sm now camp_id ty lv num st) (restore_orders sm now camp_id rest)
      | _ \<Rightarrow> restore_orders sm now camp_id rest st)"

text \<open>
  \<open>rfind\<close> of the separator; the name of the camp is what follows the last one.
\<close>

definition after_last_hash :: "string \<Rightarrow> string" where
  "after_last_hash s = rev (takeWhile (\<lambda>c. c \<noteq> CHR ''#'') (rev s))"

definition newTimerQueueFromRedis ::
  "'c small_map \<Rightarrow> int \<Rightarrow> string \<Rightarrow> string list \<Rightarrow> army \<Rightarrow> ('c, army) db" where
  "newTimerQueueFromRedis sm now camp_string camp_info a =
     (let camp_id = after_last_hash camp_string in
      if length camp_info < 3 \<or> camp_id = [] then db_return a
      else case from_iso_string sm (camp_info ! (length camp_info - 1)) of
        None \<Rightarrow> db_lift (Inl OutOfRange)
      | Some last_time \<Rightarrow>
          let block = (atoi (camp_info ! (length camp_info - 2)) \<noteq> 0);
              a1 = set_camp camp_id (TimerQueue\<lparr>is_block := block\<rparr>) a in
          db_bind (restore_orders sm now camp_id (rev (take (length camp_info - 2) camp_info))
              (a1, block, now - last_time)) (\<lambda>(a2, _).
          db_bind (db_lift (camp camp_id a2)) (\<lambda>q.
            if is_block q then db_lift (registerTime sm camp_id (Some now) 30 a2) else db_return a2)))"

fun restore_camps :: "'c small_map \<Rightarrow> int \<Rightarrow> string list \<Rightarrow> army \<Rightarrow> ('c, army) db" where
  "restore_camps sm now [] a = db_return a"
| "restore_camps sm now (key # keys) a =
     db_bind (readBuildArmy sm key) (\<lambda>info. case info of
       None \<Rightarrow> restore_camps sm now keys a
     | Some camp_info \<Rightarrow> db_bind (newTimerQueueFromRedis sm now key camp_info a) (restore_camps sm now keys))"

definition ArmysBuildQueue :: "'c small_map \<Rightarrow> int \<Rightarrow> int \<Rightarrow> ('c, army) db" where
  "ArmysBuildQueue sm now uid =
     db_bind (multiReadExec (redis_of sm) (''keys camp#'' @ gameToString uid @ ''* '')) (\<lambda>output.
       case output of
         None \<Rightarrow> db_return \<lparr>m_uid = uid, camp_queue = []\<rparr>
       | Some keys \<Rightarrow> restore_camps sm now keys \<lparr>m_uid = uid, camp_queue = []\<rparr>)"

text \<open>The destructor, when the player goes offline.\<close>

fun write_camps :: "'c small_map \<Rightarrow> int \<Rightarrow> (string \<times> timer_queue) list \<Rightarrow> ('c, unit) db" where
  "write_camps sm uid [] = db_return ()"
| "write_camps sm uid ((k, q) # rest) = db_bind (writeIntoRedis sm uid k q) (\<lambda>_. write_camps sm uid rest)"

definition delete_ArmysBuildQueue :: "'c small_map \<Rightarrow> army \<Rightarrow> ('c, unit) db" where
  "delete_ArmysBuildQueue sm a = write_camps sm (m_uid a) (camp_queue a)"

subsection \<open>The timers follow the queues\<close>

text \<open>
  When a timer goes off: the building time of the soldier after the start that the camp
  remembers, or half a minute after it while the camp is blocked.
\<close>

definition due :: "'c small_map \<Rightarrow> bool \<Rightarrow> int option \<Rightarrow> int option \<Rightarrow> int \<Rightarrow> int \<Rightarrow> bool" where
  "due sm blocked started expires ty lv \<longleftrightarrow>
     (\<exists>t d. started = Some t \<and> expires = Some (t + d) \<and>
       (blocked \<and> d = 30 \<or> (\<exists>x. arms_at sm ty lv = Some x \<and> d = build_time x)))"

text \<open>A camp waits for its timer exactly while soldiers are queued, and until the first is due.\<close>

definition timer_ok :: "'c small_map \<Rightarrow> timer_queue \<Rightarrow> bool" where
  "timer_ok sm q \<longleftrightarrow> (case armys_queue q of
       [] \<Rightarrow> \<not> waiting q
     | s # _ \<Rightarrow> waiting q \<and> due sm (is_block q) (begin_build_time q) (timer_expires q) (soldier_type s) (soldier_level s))"

lemma timer_ok_waiting: "timer_ok sm q \<Longrightarrow> waiting q \<longleftrightarrow> armys_queue q \<noteq> []"
  by (simp add: timer_ok_def split: list.splits)

lemma timer_ok_expires: "timer_ok sm q \<Longrightarrow> armys_queue q \<noteq> [] \<Longrightarrow> timer_expires q \<noteq> None"
  by (auto simp: timer_ok_def due_def neq_Nil_conv)

text \<open>A change behind the first order, or of its number, does not move its time.\<close>

definition same_head :: "soldier_info list \<Rightarrow> soldier_info list \<Rightarrow> bool" where
  "same_head ss ss' \<longleftrightarrow> (\<exists>s t s' t'. ss = s # t \<and> ss' = s' # t' \<and>
     soldier_type s' = soldier_type s \<and> soldier_level s' = soldier_level s)"

lemma timer_ok_head: "timer_ok sm q \<Longrightarrow> same_head (armys_queue q) ss \<Longrightarrow> timer_ok sm (q\<lparr>armys_queue := ss\<rparr>)"
  by (auto simp: timer_ok_def same_head_def)

definition timers_ok_but :: "'c small_map \<Rightarrow> string set \<Rightarrow> army \<Rightarrow> bool" where
  "timers_ok_but sm K a \<longleftrightarrow> (\<forall>k q. map_of (camp_queue a) k = Some q \<and> k \<notin> K \<longrightarrow> timer_ok sm q)"

abbreviation timers_ok :: "'c small_map \<Rightarrow> army \<Rightarrow> bool" where
  "timers_ok sm \<equiv> timers_ok_but sm {}"

lemma map_of_set_camp_list: "map_of (set_camp_list k q m) k' = (if k' = k then Some q else map_of m k')"
  by (induction k q m rule: set_camp_list.induct) auto

lemma map_of_set_camp [simp]:
  "map_of (camp_queue (set_camp k q a)) k' = (if k' = k then Some q else map_of (camp_queue a) k')"
  by (simp add: set_camp_def map_of_set_camp_list)

lemma m_uid_set_camp [simp]: "m_uid (set_camp k q a) = m_uid a"
  by (simp add: set_camp_def)

lemma camp_Inr [simp]: "camp k a = Inr q \<longleftrightarrow> map_of (camp_queue a) k = Some q"
  by (simp add: camp_def split: option.splits)

lemma set_camp_twice [simp]: "set_camp k q' (set_camp k q a) = set_camp k q' a"
proof -
  have "set_camp_list k q' (set_camp_list k q m) = set_camp_list k q' m" for m
    by (induction k q m rule: set_camp_list.induct) auto
  then show ?thesis by (simp add: set_camp_def)
qed

lemma timers_set_camp: "timers_ok_but sm (insert k K) a \<Longrightarrow> timer_ok sm q \<Longrightarrow> timers_ok_but sm K (set_camp k q a)"
  by (auto simp: timers_ok_but_def)

lemma timers_weaken: "timers_ok_but sm K a \<Longrightarrow> timers_ok_but sm (insert k K) a"
  by (auto simp: timers_ok_but_def)

lemma timers_set_camp_but: "timers_ok_but sm {k} a \<Longrightarrow> timers_ok_but sm {k} (set_camp k q a)"
  by (auto simp: timers_ok_but_def)

lemma registerTime_cases:
  assumes "registerTime sm k begin_time secs a = Inr a'"
  obtains q where "map_of (camp_queue a) k = Some q" "armys_queue q = []" "a' = a"
  | q s ss started expires where "map_of (camp_queue a) k = Some q" "armys_queue q = s # ss"
    "a' = set_camp k (q\<lparr>begin_build_time := started, timer_expires := expires, waiting := True\<rparr>) a"
  using assms
  by (cases "map_of (camp_queue a) k"; cases "armys_queue (the (map_of (camp_queue a) k))")
    (auto simp: registerTime_def camp_def bind_r_eq_Inr Let_def)

lemma registerTime_due:
  assumes "registerTime sm k begin_time secs a = Inr a'" and "map_of (camp_queue a) k = Some q" and "armys_queue q \<noteq> []"
    and "secs = 0 \<or> secs = 30 \<and> is_block q" and "begin_time = None \<Longrightarrow> timer_expires q \<noteq> None"
  shows "\<exists>q'. a' = set_camp k q' a \<and> timer_ok sm q' \<and> armys_queue q' = armys_queue q"
proof -
  obtain s ss where s: "armys_queue q = s # ss" using assms(3) by (cases "armys_queue q") auto
  define started where "started = (case begin_time of None \<Rightarrow> timer_expires q | Some t \<Rightarrow> Some t)"
  obtain t where t: "started = Some t" using assms(5) by (cases begin_time) (auto simp: started_def)
  obtain d where d: "secs = 30 \<and> is_block q \<and> d = 30 \<or> (\<exists>x. arms_at sm (soldier_type s) (soldier_level s) = Some x \<and> d = build_time x)"
    and a': "a' = set_camp k (q\<lparr>begin_build_time := started, timer_expires := Some (t + d), waiting := True\<rparr>) a"
    using assms(1,2,4) s t unfolding started_def
    by (auto simp: registerTime_def bind_r_eq_Inr Let_def camp_def arms_index_def split: if_splits option.splits)
  have "due sm (is_block q) started (Some (t + d)) (soldier_type s) (soldier_level s)"
    using d t unfolding due_def by blast
  with s a' show ?thesis
    by (intro exI [of _ "q\<lparr>begin_build_time := started, timer_expires := Some (t + d), waiting := True\<rparr>"])
      (simp add: timer_ok_def)
qed

lemma registerTime_ok:
  assumes "registerTime sm k begin_time secs a = Inr a'" and "timers_ok_but sm {k} a" and "map_of (camp_queue a) k = Some q"
    and "armys_queue q = [] \<Longrightarrow> \<not> waiting q"
    and "armys_queue q \<noteq> [] \<Longrightarrow> secs = 0 \<or> secs = 30 \<and> is_block q"
    and "armys_queue q \<noteq> [] \<Longrightarrow> begin_time = None \<Longrightarrow> timer_expires q \<noteq> None"
  shows "timers_ok sm a' \<and> m_uid a' = m_uid a"
proof (cases "armys_queue q = []")
  case True
  then have "a' = a" using assms(1,3) by (simp add: registerTime_def camp_def)
  moreover have "timer_ok sm q'" if "map_of (camp_queue a) k' = Some q'" for k' q'
    using assms(2,3,4) True that by (cases "k' = k") (auto simp: timers_ok_but_def timer_ok_def)
  ultimately show ?thesis by (simp add: timers_ok_but_def)
next
  case False
  from registerTime_due [OF assms(1,3) False assms(5) [OF False] assms(6) [OF False]] assms(2) show ?thesis
    by (auto intro!: timers_set_camp)
qed

lemma cancelTimer_camp:
  "map_of (camp_queue a) k = Some q \<Longrightarrow> timer_ok sm q \<Longrightarrow>
   map_of (camp_queue (cancelTimer k a)) k = Some (q\<lparr>waiting := False\<rparr>)"
  by (cases q) (auto simp: cancelTimer_def timer_ok_def)

lemma cancelTimer_but: "timers_ok_but sm {k} a \<Longrightarrow> timers_ok_but sm {k} (cancelTimer k a)"
  by (auto simp: cancelTimer_def timers_set_camp_but split: option.splits)

lemma timer_ok_push: "timer_ok sm q \<Longrightarrow> armys_queue q \<noteq> [] \<Longrightarrow> timer_ok sm (queue_push_back ty lv num q)"
  unfolding queue_push_back_def by (rule timer_ok_head) (auto simp: same_head_def neq_Nil_conv)

lemma add_to_order_Some: "add_to_order ty lv num ss = Some ss' \<Longrightarrow> same_head ss ss'"
  by (cases ss) (auto simp: same_head_def split: if_splits)

lemma addSoldiers_ok:
  assumes "addSoldiers sm now ty lv num k a0 c = Inr ((a', out), c')" and "timers_ok sm a0"
  shows "timers_ok sm a'"
proof -
  define a where "a = (case map_of (camp_queue a0) k of None \<Rightarrow> set_camp k TimerQueue a0 | Some _ \<Rightarrow> a0)"
  have a: "timers_ok sm a"
    using assms(2) by (auto simp: a_def timers_ok_but_def TimerQueue_def timer_ok_def split: option.splits)
  show ?thesis
  proof (cases "a' = a")
    case True
    with a show ?thesis by simp
  next
    case False
    with assms(1) obtain x where x: "arms_at sm ty lv = Some x"
      by (cases "arms_at sm ty lv") (auto simp: addSoldiers_def Let_def a_def [symmetric])
    from assms(1) x False obtain amounts c1 c2 where
      p: "subResource sm (m_uid a) (order_cost x num) c1 = Inr ((True, amounts), c2)"
      and r1: "db_bind (db_lift (camp k a)) (\<lambda>q.
              case add_to_order ty lv num (armys_queue q) of
                Some orders \<Rightarrow>
                  let a1 = set_camp k (q\<lparr>armys_queue := orders\<rparr>) a in
                  db_bind (sendProcessResultToUser sm a1 ty lv num k ADD True amounts) (\<lambda>out. db_return (a1, out))
              | None \<Rightarrow>
                  let a1 = set_camp k (queue_push_back ty lv num q) a in
                  db_bind (db_lift (if armys_queue q = [] then registerTime sm k (Some now) 0 a1 else Inr a1)) (\<lambda>a2.
                  db_bind (sendProcessResultToUser sm a2 ty lv num k ADD True amounts) (\<lambda>out. db_return (a2, out)))) c2
        = Inr ((a', out), c')"
      by (auto simp: addSoldiers_def Let_def a_def [symmetric] db_bind_eq_Inr split: if_splits)
    from r1 obtain q where q: "map_of (camp_queue a) k = Some q"
      by (auto simp: db_bind_eq_Inr db_lift_def camp_def split: sum.splits option.splits)
    then have "camp k a = Inr q" by simp
    with r1 have r: "(\<exists>orders. add_to_order ty lv num (armys_queue q) = Some orders \<and> a' = set_camp k (q\<lparr>armys_queue := orders\<rparr>) a) \<or>
        (add_to_order ty lv num (armys_queue q) = None \<and>
         (if armys_queue q = [] then registerTime sm k (Some now) 0 (set_camp k (queue_push_back ty lv num q) a)
          else Inr (set_camp k (queue_push_back ty lv num q) a)) = Inr a')"
      by (cases "add_to_order ty lv num (armys_queue q)")
        (auto simp: db_bind_eq_Inr db_lift_def Let_def split: sum.splits)
    have ok: "timer_ok sm q" using a q by (auto simp: timers_ok_but_def)
    show ?thesis
    proof (cases "add_to_order ty lv num (armys_queue q)")
      case (Some orders)
      with r ok a show ?thesis
        by (auto intro!: timers_set_camp timers_weaken timer_ok_head dest!: add_to_order_Some)
    next
      case None
      let ?a1 = "set_camp k (queue_push_back ty lv num q) a"
      show ?thesis
      proof (cases "armys_queue q = []")
        case True
        with None r have "registerTime sm k (Some now) 0 ?a1 = Inr a'" by simp
        from registerTime_ok [OF this] a show ?thesis
          by (simp add: timers_set_camp_but timers_weaken queue_push_back_def)
      next
        case False
        with None r ok a show ?thesis
          by (auto intro!: timers_set_camp timers_weaken timer_ok_push)
      qed
    qed
  qed
qed

lemma timers_camp: "timers_ok sm a \<Longrightarrow> map_of (camp_queue a) k = Some q \<Longrightarrow> timer_ok sm q"
  by (auto simp: timers_ok_but_def)

lemma del_from_order_behind:
  "del_from_order ty lv num (s # ss) = Some orders \<Longrightarrow> \<not> (soldier_type s = ty \<and> lv = soldier_level s) \<Longrightarrow>
   same_head (s # ss) orders"
  by (auto simp: same_head_def split: if_splits)

lemma delSoliders_ok:
  assumes "delSoliders sm now ty lv num k a c = Inr ((a', out), c')" and "timers_ok sm a"
  shows "timers_ok sm a'"
proof (cases "a' = a")
  case True
  with assms(2) show ?thesis by simp
next
  case False
  with assms(1) obtain x where x: "arms_at sm ty lv = Some x"
    by (cases "arms_at sm ty lv") (auto simp: delSoliders_def)
  with assms(1) False obtain q where q: "map_of (camp_queue a) k = Some q"
    by (cases "map_of (camp_queue a) k") (auto simp: delSoliders_def Let_def db_bind_eq_Inr)
  with assms(1) x False obtain s ss where ss: "armys_queue q = s # ss"
    by (cases "armys_queue q") (auto simp: delSoliders_def Let_def)
  have ok: "timer_ok sm q" using timers_camp [OF assms(2) q] .
  show ?thesis
  proof (cases "soldier_type s = ty \<and> lv = soldier_level s")
    case first: True
    show ?thesis
    proof (cases "soldier_num s - num \<le> 0")
      case True
      let ?a1 = "cancelTimer k a"
      have q1: "map_of (camp_queue ?a1) k = Some (q\<lparr>waiting := False\<rparr>)" by (rule cancelTimer_camp [OF q ok])
      then have "camp k ?a1 = Inr (q\<lparr>waiting := False\<rparr>)" by simp
      with assms(1) x q ss first True have
        "registerTime sm k (Some now) 0 (set_camp k (q\<lparr>waiting := False, armys_queue := ss\<rparr>) ?a1) = Inr a'"
        by (auto simp: delSoliders_def Let_def db_bind_eq_Inr db_lift_def split: sum.splits)
      from registerTime_ok [OF this] assms(2) show ?thesis
        by (simp add: timers_set_camp_but cancelTimer_but timers_weaken)
    next
      case False
      with assms(1) x q ss first have "a' = set_camp k (q\<lparr>armys_queue := s\<lparr>soldier_num := to_short (soldier_num s - num)\<rparr> # ss\<rparr>) a"
        by (auto simp: delSoliders_def Let_def db_bind_eq_Inr)
      then show ?thesis
        using ok ss assms(2) by (auto intro!: timers_set_camp timers_weaken simp: timer_ok_def)
    qed
  next
    case other: False
    with assms(1) x q ss \<open>a' \<noteq> a\<close> obtain orders where o: "del_from_order ty lv num (s # ss) = Some orders"
      and a': "a' = set_camp k (q\<lparr>armys_queue := orders\<rparr>) a"
      by (cases "del_from_order ty lv num (s # ss)")
        (auto simp del: del_from_order.simps simp: delSoliders_def Let_def db_bind_eq_Inr split: if_splits)
    from del_from_order_behind [OF o other] show ?thesis
      using a' ok ss assms(2) by (auto intro!: timers_set_camp timers_weaken timer_ok_head)
  qed
qed

lemma timeIsUp_ok:
  assumes "timeIsUp sm err k a c = Inr ((a', out), c')" and "timers_ok sm a"
  shows "timers_ok sm a'"
proof (cases "err \<or> map_of (camp_queue a) k = None")
  case True
  with assms show ?thesis by (auto simp: timeIsUp_def split: option.splits if_splits)
next
  case False
  then obtain q where q: "map_of (camp_queue a) k = Some q" and err: "\<not> err" by auto
  let ?q = "q\<lparr>waiting := False\<rparr>"
  have but: "timers_ok_but sm {k} (set_camp k q' a)" for q'
    using assms(2) by (simp add: timers_set_camp_but timers_weaken)
  show ?thesis
  proof (cases "armys_queue q")
    case Nil
    with assms(1) q err have "a' = set_camp k ?q a" by (simp add: timeIsUp_def)
    with Nil assms(2) show ?thesis by (auto intro!: timers_set_camp timers_weaken simp: timer_ok_def)
  next
    case (Cons s ss)
    define q1 where "q1 = ?q\<lparr>is_block := False, armys_queue := (if soldier_num s = 1 then ss
        else s\<lparr>soldier_num := to_short (soldier_num s - 1)\<rparr> # ss)\<rparr>"
    from assms(1) q err Cons obtain sid c1 where
      i: "insertToBuilded sm (m_uid a) (soldier_type s) (soldier_level s) c = Inr (sid, c1)"
      by (auto simp: timeIsUp_def Let_def db_bind_eq_Inr)
    have "(a' = set_camp k q1 a \<and> armys_queue q1 = []) \<or>
        registerTime sm k None 0 (set_camp k q1 a) = Inr a' \<and> armys_queue q1 \<noteq> [] \<or>
        registerTime sm k None 30 (set_camp k (?q\<lparr>is_block := True\<rparr>) a) = Inr a'"
      using assms(1) q err Cons i
      by (cases sid) (auto simp: timeIsUp_def Let_def q1_def db_bind_eq_Inr split: if_splits)
    then show ?thesis
    proof (elim disjE conjE)
      assume "a' = set_camp k q1 a" "armys_queue q1 = []"
      moreover have "\<not> waiting q1" by (simp add: q1_def)
      ultimately show ?thesis
        using assms(2) by (auto intro!: timers_set_camp timers_weaken simp: timer_ok_def)
    next
      assume "registerTime sm k None 0 (set_camp k q1 a) = Inr a'"
      with Cons show ?thesis
        using registerTime_ok [OF _ but, where q = q1 and secs = 0] timer_ok_expires [OF timers_camp [OF assms(2) q]] by (simp add: q1_def)
    next
      assume "registerTime sm k None 30 (set_camp k (?q\<lparr>is_block := True\<rparr>) a) = Inr a'"
      with Cons show ?thesis
        using registerTime_ok [OF _ but, where q = "?q\<lparr>is_block := True\<rparr>" and secs = 30] timer_ok_expires [OF timers_camp [OF assms(2) q]] by simp
    qed
  qed
qed

lemma completeAtOnce_ok:
  assumes "completeAtOnce sm now k a c = Inr ((a', out), c')" and "timers_ok sm a"
  shows "timers_ok sm a'"
proof (cases "a' = a")
  case True
  with assms(2) show ?thesis by simp
next
  case False
  with assms(1) obtain q where q: "map_of (camp_queue a) k = Some q"
    by (cases "map_of (camp_queue a) k") (auto simp: completeAtOnce_def)
  let ?q1 = "q\<lparr>waiting := False\<rparr>"
  have q1: "camp k (cancelTimer k a) = Inr ?q1"
    using cancelTimer_camp [OF q timers_camp [OF assms(2) q]] by simp
  from assms(1) q False have
    "a' = set_camp k (?q1\<lparr>armys_queue := [], begin_build_time := Some now, is_block := False\<rparr>) (cancelTimer k a)"
    by (auto simp: completeAtOnce_def Let_def db_bind_eq_Inr q1 split: if_splits)
  moreover have "timers_ok_but sm {k} (cancelTimer k a)" using assms(2) by (intro cancelTimer_but timers_weaken)
  ultimately show ?thesis by (auto intro!: timers_set_camp simp: timer_ok_def)
qed

text \<open>While orders are read back: before the first is queued, and after.\<close>

definition restoring :: "'c small_map \<Rightarrow> bool \<Rightarrow> timer_queue \<Rightarrow> bool" where
  "restoring sm direct q \<longleftrightarrow>
     (if direct then is_block q \<and> \<not> waiting q \<or> timer_ok sm q \<and> armys_queue q \<noteq> [] else armys_queue q = [] \<and> \<not> waiting q \<and> \<not> is_block q)"

definition restoring_camp :: "'c small_map \<Rightarrow> string \<Rightarrow> army \<times> bool \<times> int \<Rightarrow> bool" where
  "restoring_camp sm k st \<longleftrightarrow> (case st of (a, direct, td) \<Rightarrow>
     timers_ok_but sm {k} a \<and> (\<exists>q. map_of (camp_queue a) k = Some q \<and> restoring sm direct q))"

lemma restore_order_ok:
  assumes "restore_order sm now k ty lv num st c = Inr (st', c')" and "restoring_camp sm k st"
  shows "restoring_camp sm k st'"
proof -
  obtain a direct td where st: "st = (a, direct, td)" by (cases st) auto
  with assms(2) obtain q where but: "timers_ok_but sm {k} a" and q: "map_of (camp_queue a) k = Some q" "restoring sm direct q"
    by (auto simp: restoring_camp_def)
  have set: "timers_ok_but sm {k} (set_camp k q' a)" for q' using but by (rule timers_set_camp_but)
  show ?thesis
  proof (cases "direct \<or> num < 0")
    case True
    with assms(1) st q(1) have "st' = (if direct then (set_camp k (queue_push_back ty lv num q) a, True, td) else (a, False, td))"
      by (cases direct) (auto simp: restore_order_def db_bind_eq_Inr)
    then show ?thesis
      using but set q timer_ok_push [of sm q ty lv num]
      by (auto simp: restoring_camp_def restoring_def queue_push_back_def split: if_splits)
  next
    case False
    define w where "w num' = (if num' = num then q else q\<lparr>is_block := False\<rparr>)" for num'
    from False have e: "armys_queue (w n) = [] \<and> \<not> waiting (w n) \<and> \<not> is_block (w n)" for n
      using q(2) by (simp add: w_def restoring_def)
    let ?q = "\<lambda>n. queue_push_back ty lv n (w n)"
    from assms(1) st q(1) False obtain x where x: "arms_index sm ty lv = Inr x"
      by (auto simp: restore_order_def db_bind_eq_Inr)
    with assms(1) st q(1) False obtain td' num' stop c1 where
      b: "build_offline sm (m_uid a) ty lv (build_time x) num td c = Inr ((td', num', stop), c1)"
      by (auto simp: restore_order_def db_bind_eq_Inr)
    have "stop = None \<and> st' = (set_camp k (w num') a, False, td') \<or>
       (\<exists>a'. stop = Some True \<and> registerTime sm k (Some (now - td')) 0 (set_camp k (?q num') a) = Inr a' \<and> st' = (a', True, td')) \<or>
       stop = Some False \<and> st' = (set_camp k ((?q num')\<lparr>is_block := True\<rparr>) a, True, td')"
    proof (cases stop)
      case None
      with assms(1) st q(1) False x b show ?thesis
        by (simp add: restore_order_def db_bind_eq_Inr Let_def w_def)
    next
      case (Some timed)
      with assms(1) st q(1) False x b show ?thesis
        by (cases timed) (auto simp: restore_order_def db_bind_eq_Inr Let_def w_def)
    qed
    then show ?thesis
    proof (elim disjE exE conjE)
      assume "st' = (set_camp k (w num') a, False, td')"
      with e set show ?thesis by (simp add: restoring_camp_def restoring_def)
    next
      fix a'
      assume r: "registerTime sm k (Some (now - td')) 0 (set_camp k (?q num') a) = Inr a'" and st': "st' = (a', True, td')"
      from registerTime_ok [OF r set] have "timers_ok sm a'" by (simp add: queue_push_back_def)
      moreover from r e obtain q2 where "map_of (camp_queue a') k = Some q2" "waiting q2" "armys_queue q2 \<noteq> []"
        by (cases rule: registerTime_cases) (auto simp: queue_push_back_def)
      ultimately show ?thesis
        using st' timers_camp [of sm a' k] by (auto simp: restoring_camp_def restoring_def timers_weaken)
    next
      assume "st' = (set_camp k ((?q num')\<lparr>is_block := True\<rparr>) a, True, td')"
      with e set show ?thesis by (simp add: restoring_camp_def restoring_def queue_push_back_def)
    qed
  qed
qed

lemma restore_orders_ok:
  "restore_orders sm now k orders st c = Inr (st', c') \<Longrightarrow> restoring_camp sm k st \<Longrightarrow> restoring_camp sm k st'"
proof (induction orders arbitrary: st c)
  case (Cons order rest)
  from Cons.prems(1) have "restore_orders sm now k rest st c = Inr (st', c') \<or>
      (\<exists>ty lv num st1 c1. restore_order sm now k ty lv num st c = Inr (st1, c1) \<and>
         restore_orders sm now k rest st1 c1 = Inr (st', c'))"
    by (auto simp: Let_def db_bind_eq_Inr split: list.splits if_splits)
  then show ?case
  proof (elim disjE exE conjE)
    assume "restore_orders sm now k rest st c = Inr (st', c')"
    from Cons.IH [OF this Cons.prems(2)] show ?case .
  next
    fix ty lv num st1 c1
    assume one: "restore_order sm now k ty lv num st c = Inr (st1, c1)"
      and rest: "restore_orders sm now k rest st1 c1 = Inr (st', c')"
    from Cons.IH [OF rest restore_order_ok [OF one Cons.prems(2)]] show ?case .
  qed
qed simp

lemma newTimerQueue_ok:
  assumes "newTimerQueueFromRedis sm now key info a c = Inr (a', c')" and "timers_ok sm a"
  shows "timers_ok sm a'"
proof (cases "length info < 3 \<or> after_last_hash key = []")
  case True
  with assms show ?thesis by (auto simp: newTimerQueueFromRedis_def Let_def)
next
  case False
  let ?k = "after_last_hash key"
  from assms(1) False obtain t st a2 c2 q where
    r: "restore_orders sm now ?k (rev (take (length info - 2) info)) (set_camp ?k
        (TimerQueue\<lparr>is_block := (atoi (info ! (length info - 2)) \<noteq> 0)\<rparr>) a, atoi (info ! (length info - 2)) \<noteq> 0, t) c =
        Inr ((a2, st), c2)"
    and q: "map_of (camp_queue a2) ?k = Some q"
    and e: "if is_block q then registerTime sm ?k (Some now) 30 a2 = Inr a' else a' = a2"
    by (auto simp: newTimerQueueFromRedis_def Let_def db_bind_eq_Inr split: option.splits if_splits)
  have "restoring_camp sm ?k (set_camp ?k (TimerQueue\<lparr>is_block := (atoi (info ! (length info - 2)) \<noteq> 0)\<rparr>) a,
      atoi (info ! (length info - 2)) \<noteq> 0, t)"
    using assms(2) by (auto simp: restoring_camp_def restoring_def TimerQueue_def timers_set_camp_but timers_weaken)
  from restore_orders_ok [OF r this] q obtain direct where but: "timers_ok_but sm {?k} a2" and d: "restoring sm direct q"
    by (cases st) (auto simp: restoring_camp_def)
  show ?thesis
  proof (cases "is_block q")
    case True
    with e have "registerTime sm ?k (Some now) 30 a2 = Inr a'" by simp
    from registerTime_ok [OF this but q] True d show ?thesis
      by (auto simp: restoring_def timer_ok_waiting split: if_splits)
  next
    case False
    with d have "timer_ok sm q" by (auto simp: restoring_def timer_ok_def split: if_splits)
    moreover have "a' = a2" using e False by simp
    moreover have "timer_ok sm q'" if "map_of (camp_queue a2) k' = Some q'" for k' q'
      using that but q \<open>timer_ok sm q\<close> by (cases "k' = ?k") (auto simp: timers_ok_but_def)
    ultimately show ?thesis by (simp add: timers_ok_but_def)
  qed
qed

lemma restore_camps_ok:
  "restore_camps sm now keys a c = Inr (a', c') \<Longrightarrow> timers_ok sm a \<Longrightarrow> timers_ok sm a'"
proof (induction keys arbitrary: a c)
  case (Cons key keys)
  then show ?case
    using newTimerQueue_ok by (fastforce simp: db_bind_eq_Inr split: option.splits)
qed simp

lemma ArmysBuildQueue_ok:
  assumes "ArmysBuildQueue sm now uid c = Inr (a, c')"
  shows "timers_ok sm a"
proof -
  have "timers_ok sm \<lparr>m_uid = uid, camp_queue = []\<rparr>" by (simp add: timers_ok_but_def)
  with assms show ?thesis
    using restore_camps_ok by (fastforce simp: ArmysBuildQueue_def db_bind_eq_Inr split: option.splits)
qed

subsection \<open>The states of a player's queues\<close>

text \<open>
  What happens to the queues of a player between login and logout: orders, cancelled
  orders, timers that fire, and diamonds, at any times and with any replies of Redis.
\<close>

inductive army_run :: "'c small_map \<Rightarrow> army \<Rightarrow> bool" for sm :: "'c small_map" where
  created: "ArmysBuildQueue sm now uid c = Inr (a, c') \<Longrightarrow> army_run sm a"
| ordered: "army_run sm a \<Longrightarrow> addSoldiers sm now ty lv num k a c = Inr ((a', out), c') \<Longrightarrow> army_run sm a'"
| cancelled: "army_run sm a \<Longrightarrow> delSoliders sm now ty lv num k a c = Inr ((a', out), c') \<Longrightarrow> army_run sm a'"
| fired: "army_run sm a \<Longrightarrow> timeIsUp sm err k a c = Inr ((a', out), c') \<Longrightarrow> army_run sm a'"
| completed: "army_run sm a \<Longrightarrow> completeAtOnce sm now k a c = Inr ((a', out), c') \<Longrightarrow> army_run sm a'"

lemma army_run_timers: "army_run sm a \<Longrightarrow> timers_ok sm a"
proof (induction rule: army_run.induct)
  case (created now uid c a c')
  then show ?case by (rule ArmysBuildQueue_ok)
next
  case (ordered a now ty lv num k c a' out c')
  then show ?case by (blast intro: addSoldiers_ok)
next
  case (cancelled a now ty lv num k c a' out c')
  then show ?case by (blast intro: delSoliders_ok)
next
  case (fired a err k c a' out c')
  then show ?case by (blast intro: timeIsUp_ok)
next
  case (completed a now k c a' out c')
  then show ?case by (blast intro: completeAtOnce_ok)
qed

text \<open>
  C20. The timers follow the queues. From login on, whatever the player orders, cancels or
  pays, whatever the timers and the database do: a camp without orders has no timer
  pending; a camp with orders has one, and it goes off when the first soldier is due, its
  building time after the start the camp remembers, or, while the camp is blocked by the
  population, half a minute after that start.
\<close>

theorem timers_follow_queues:
  assumes "army_run sm a" and "map_of (camp_queue a) which_camp = Some q"
  shows "case armys_queue q of
      [] \<Rightarrow> \<not> waiting q
    | s # _ \<Rightarrow> waiting q \<and> (\<exists>t d. begin_build_time q = Some t \<and> timer_expires q = Some (t + d) \<and>
        (is_block q \<and> d = 30 \<or> (\<exists>x. arms_at sm (soldier_type s) (soldier_level s) = Some x \<and> d = build_time x)))"
proof -
  have "timer_ok sm q" using army_run_timers [OF assms(1)] assms(2) by (rule timers_camp)
  then show ?thesis by (simp add: timer_ok_def due_def split: list.splits)
qed

text \<open>
  A world for examples: one kind of soldier, a Redis that grants every script, numbers
  the soldiers, keeps no lists and knows no union.
\<close>

definition granting_redis :: "nat redis" where
  "granting_redis cmd c =
     (if take 48 cmd = ''EVALSHA '' @ LUA_INSERT_SOLDIER then (Some (Reply_integer (int c)), Suc c)
      else if take 48 cmd = ''EVALSHA '' @ LUA_MAN_RESOURCE then (Some (Reply_integer 1), c)
      else if take 4 cmd = ''keys'' then (Some (Reply_array []), c)
      else (Some Reply_nil, c))"

definition example_map :: "nat small_map" where
  "example_map = \<lparr>arms_table = [[], [\<lparr>need_wood = 0, need_stone = 0, need_iron = 0, need_soil = 0, population = 0, build_time = 0\<rparr>,
       \<lparr>need_wood = 10, need_stone = 5, need_iron = 2, need_soil = 1, population = 1, build_time = 60\<rparr>]],
     combat_union_limit = [], redis_of = granting_redis, subDiamond = (\<lambda>_ _. db_return True),
     to_iso_string = (\<lambda>t. case t of None \<Rightarrow> ''not-a-date-time'' | Some n \<Rightarrow> take 15 (gameToString n)),
     from_iso_string = (\<lambda>s. Some (gameToInt s))\<rparr>"

definition example_army :: army where
  "example_army =
     (case addSoldiers example_map 100 1 1 3 ''1'' \<lparr>m_uid = 7, camp_queue = []\<rparr> 0 of
        Inl _ \<Rightarrow> \<lparr>m_uid = 7, camp_queue = []\<rparr>
      | Inr ((a, _), _) \<Rightarrow> a)"

definition example_queue :: timer_queue where
  "example_queue = \<lparr>timer_expires = Some 160, waiting = True, begin_build_time = Some 100,
     armys_queue = [\<lparr>soldier_type = 1, soldier_level = 1, soldier_num = 3\<rparr>], is_block = False\<rparr>"

lemma example_camp: "map_of (camp_queue example_army) ''1'' = Some example_queue"
  by code_simp

lemma example_run: "army_run example_map example_army"
proof -
  have "ArmysBuildQueue example_map 100 7 0 = Inr (\<lparr>m_uid = 7, camp_queue = []\<rparr>, 0)" by code_simp
  then have start: "army_run example_map \<lparr>m_uid = 7, camp_queue = []\<rparr>" by (rule army_run.created)
  have "is_ok (addSoldiers example_map 100 1 1 3 ''1'' \<lparr>m_uid = 7, camp_queue = []\<rparr> 0)" by code_simp
  then obtain a out c where r: "addSoldiers example_map 100 1 1 3 ''1'' \<lparr>m_uid = 7, camp_queue = []\<rparr> 0 = Inr ((a, out), c)"
    by (cases "addSoldiers example_map 100 1 1 3 ''1'' \<lparr>m_uid = 7, camp_queue = []\<rparr> 0") auto
  then have "example_army = a" by (simp add: example_army_def)
  with army_run.ordered [OF start r] show ?thesis by simp
qed

theorem timers_follow_queues_witness:
  "\<exists>t d. begin_build_time example_queue = Some t \<and> timer_expires example_queue = Some (t + d) \<and> t = 100 \<and> d = 60"
proof -
  have "arms_at example_map 1 1 = Some
      \<lparr>need_wood = 10, need_stone = 5, need_iron = 2, need_soil = 1, population = 1, build_time = 60\<rparr>" by code_simp
  with timers_follow_queues [OF example_run example_camp] show ?thesis by (simp add: example_queue_def)
qed

end
