(* ===== verification/Army_Build.thy ===== *)
theory Army_Build
  imports Army_Queue
begin

section \<open>What the camps build, restore and pay\<close>

text \<open>
  Theorems about \<open>ArmysBuildQueue\<close>: how many soldiers an order becomes when its timers
  fire, what is restored at login, and what is paid and refunded.
\<close>

text \<open>Redis answers every command, and the population has room for every soldier.\<close>

definition replies :: "'c small_map \<Rightarrow> bool" where
  "replies sm \<longleftrightarrow> (\<forall>cmd c. fst (redis_of sm cmd c) \<noteq> None)"

definition room_for_all :: "'c small_map \<Rightarrow> bool" where
  "room_for_all sm \<longleftrightarrow> (\<forall>uid ty lv pop c. \<exists>n c'.
     insertToBuildedArmyQueue (redis_of sm) uid ty lv pop c = Inr (Some n, c'))"

text \<open>The name of the camp fits into the buffers of \<open>writeIntoRedis\<close>.\<close>

definition fits :: "'c small_map \<Rightarrow> int \<Rightarrow> string \<Rightarrow> bool" where
  "fits sm uid k \<longleftrightarrow> (\<forall>t b. length (''lpush '' @ camp_key uid k @ '' '' @ to_iso_string sm t @ '' '' @ bool_text b) < 150)"

lemma strWriteExec_returns: "replies sm \<Longrightarrow> \<exists>b c'. strWriteExec (redis_of sm) cmd c = Inr (b, c')"
  by (cases "redis_of sm cmd c") (auto simp: replies_def strWriteExec_def split: option.splits dest: spec [of _ cmd], metis fst_conv)

lemma write_returns:
  assumes "replies sm" and "fits sm uid k"
  shows "\<exists>c'. writeIntoRedis sm uid k q c = Inr ((), c')"
proof -
  have "length (''lpush '' @ camp_key uid k @ '' '' @ to_iso_string sm (begin_build_time q) @ '' '' @ bool_text (is_block q)) < 150"
    using assms(2) unfolding fits_def by blast
  note l = this
  obtain b1 c1 where "strWriteExec (redis_of sm) (''del '' @ camp_key uid k) c = Inr (b1, c1)"
    using strWriteExec_returns [OF assms(1)] by blast
  moreover obtain b2 c2 where "strWriteExec (redis_of sm) ((''lpush '' @ camp_key uid k @ '' '' @
      to_iso_string sm (begin_build_time q) @ '' '' @ bool_text (is_block q)) @
      concat (map (\<lambda>s. CHR '' '' # soldier_text s) (armys_queue q))) c1 = Inr (b2, c2)"
    using strWriteExec_returns [OF assms(1)] by blast
  ultimately show ?thesis
    using l by (auto simp: writeIntoRedis_def sprintf_def db_bind_def)
qed

text \<open>
  How often the timer fires before an order is done: the number counts down to 1, as a
  \<open>short\<close> that wraps around.
\<close>

definition firings :: "int \<Rightarrow> nat" where
  "firings num = nat ((num - 1) mod 65536) + 1"

lemma firings_positive: "1 \<le> num \<Longrightarrow> num \<le> 32767 \<Longrightarrow> firings num = nat num"
  by (simp add: firings_def nat_add_distrib [symmetric] mod_pos_pos_trivial)

lemma firings_step:
  assumes "- 32768 \<le> num" and "num < 32768" and "num \<noteq> 1"
  shows "firings num = Suc (firings (to_short (num - 1)))"
proof -
  have "(to_short (num - 1) - 1) mod 65536 = (num - 2) mod 65536"
    by (simp add: wrap_signed_def mod_simps algebra_simps)
  moreover have "(num - 1) mod 65536 = (num - 2) mod 65536 + 1"
  proof -
    let ?m = "(num - 1) mod 65536"
    have "?m \<noteq> 0"
    proof
      assume "?m = 0"
      then have "65536 dvd (num - 1)" by (rule dvd_eq_mod_eq_0 [THEN iffD2])
      then have "65536 \<le> \<bar>num - 1\<bar>" using assms(3) dvd_imp_le_int [of "num - 1" 65536] by simp
      with assms(1,2) show False by linarith
    qed
    then have "1 \<le> ?m" "?m < 65536" using pos_mod_sign [of 65536 "num - 1"] pos_mod_bound [of 65536 "num - 1"]
      by linarith+
    then have "(?m - 1) mod 65536 = ?m - 1" by (simp add: mod_pos_pos_trivial)
    moreover have "(?m - 1) mod 65536 = (num - 2) mod 65536" by (simp add: mod_diff_left_eq)
    ultimately show ?thesis by linarith
  qed
  ultimately show ?thesis by (simp add: firings_def nat_add_distrib)
qed

definition known_orders :: "'c small_map \<Rightarrow> soldier_info list \<Rightarrow> bool" where
  "known_orders sm ss \<longleftrightarrow> list_all (\<lambda>s. arms_at sm (soldier_type s) (soldier_level s) \<noteq> None \<and>
     - 32768 \<le> soldier_num s \<and> soldier_num s < 32768) ss"

definition build_seconds :: "'c small_map \<Rightarrow> int \<Rightarrow> int \<Rightarrow> int" where
  "build_seconds sm ty lv = (case arms_at sm ty lv of None \<Rightarrow> 0 | Some x \<Rightarrow> build_time x)"

lemma registerTime_known:
  assumes "map_of (camp_queue a) k = Some q" and "armys_queue q \<noteq> []" and "known_orders sm (armys_queue q)"
  shows "\<exists>s ss started. armys_queue q = s # ss \<and> (t = None \<longrightarrow> started = timer_expires q) \<and> registerTime sm k t 0 a =
      Inr (set_camp k (q\<lparr>begin_build_time := started,
        timer_expires := map_option (\<lambda>t. t + build_seconds sm (soldier_type s) (soldier_level s)) started, waiting := True\<rparr>) a)"
proof -
  obtain s ss where s: "armys_queue q = s # ss" using assms(2) by (cases "armys_queue q") auto
  then obtain x where "arms_at sm (soldier_type s) (soldier_level s) = Some x"
    using assms(3) by (auto simp: known_orders_def)
  with s assms(1) show ?thesis
    by (cases t) (auto simp: registerTime_def camp_def arms_index_def Let_def build_seconds_def intro: exI [of _ t])
qed

text \<open>One timer that fires.\<close>

lemma fire_once:
  assumes "map_of (camp_queue a) k = Some q" and "armys_queue q = s # ss" and "known_orders sm (s # ss)"
    and "replies sm" and "room_for_all sm" and "fits sm (m_uid a) k"
  shows "\<exists>a' n c' q'. timeIsUp sm False k a c =
      Inr ((a', [TimeIsUpResponse (soldier_type s) (soldier_level s) 1 k 1 (gameToString n)]), c') \<and>
    map_of (camp_queue a') k = Some q' \<and> m_uid a' = m_uid a \<and>
    armys_queue q' = (if soldier_num s = 1 then ss else s\<lparr>soldier_num := to_short (soldier_num s - 1)\<rparr> # ss) \<and>
    (waiting q' \<longleftrightarrow> armys_queue q' \<noteq> []) \<and>
    (\<forall>s' t. armys_queue q' = s' # t \<longrightarrow> timer_expires q' =
      map_option (\<lambda>t. t + build_seconds sm (soldier_type s') (soldier_level s')) (timer_expires q))"
proof -
  let ?left = "if soldier_num s = 1 then ss else s\<lparr>soldier_num := to_short (soldier_num s - 1)\<rparr> # ss"
  let ?q1 = "q\<lparr>waiting := False, is_block := False, armys_queue := ?left\<rparr>" and ?a1 = "set_camp k (q\<lparr>waiting := False, is_block := False, armys_queue := ?left\<rparr>) a"
  obtain x where x: "arms_at sm (soldier_type s) (soldier_level s) = Some x"
    using assms(3) by (auto simp: known_orders_def)
  obtain n c1 where i: "insertToBuilded sm (m_uid a) (soldier_type s) (soldier_level s) c = Inr (Some n, c1)"
    using assms(5) x unfolding insertToBuilded_def room_for_all_def by fastforce
  obtain c2 where "writeIntoRedis sm (m_uid a) k ?q1 c1 = Inr ((), c2)"
    using write_returns [OF assms(4,6)] by blast
  then have w: "sendSoldierIsComplete sm ?a1 (soldier_type s) (soldier_level s) 1 k (gameToString n) c1 =
      Inr ([TimeIsUpResponse (soldier_type s) (soldier_level s) 1 k 1 (gameToString n)], c2)"
    by (simp add: sendSoldierIsComplete_def camp_def db_bind_def)
  show ?thesis
  proof (cases "?left = []")
    case True
    then have "timeIsUp sm False k a c =
        Inr ((?a1, [TimeIsUpResponse (soldier_type s) (soldier_level s) 1 k 1 (gameToString n)]), c2)"
      using assms(1,2) i w by (simp add: timeIsUp_def Let_def db_bind_def)
    with True show ?thesis
      by (intro exI [where x = ?a1] exI [where x = n] exI [where x = c2] exI [where x = ?q1]) simp
  next
    case False
    have known: "known_orders sm ?left"
      using assms(3) to_short_bounds by (auto simp: known_orders_def)
    obtain s' t where l: "?left = s' # t" and r: "registerTime sm k None 0 ?a1 =
        Inr (set_camp k (?q1\<lparr>begin_build_time := timer_expires q, timer_expires := map_option (\<lambda>t. t +
          build_seconds sm (soldier_type s') (soldier_level s')) (timer_expires q), waiting := True\<rparr>) ?a1)"
      using registerTime_known [of ?a1 k ?q1 sm None] known False by auto
    define q2 where "q2 = ?q1\<lparr>begin_build_time := timer_expires q, timer_expires := map_option (\<lambda>t. t +
          build_seconds sm (soldier_type s') (soldier_level s')) (timer_expires q), waiting := True\<rparr>"
    have f: "timeIsUp sm False k a c =
        Inr ((set_camp k q2 ?a1, [TimeIsUpResponse (soldier_type s) (soldier_level s) 1 k 1 (gameToString n)]), c2)"
      using assms(1,2) i w False r by (simp add: timeIsUp_def Let_def db_bind_def q2_def)
    have "armys_queue q2 = ?left" "waiting q2" "timer_expires q2 = map_option (\<lambda>t. t +
          build_seconds sm (soldier_type s') (soldier_level s')) (timer_expires q)" by (simp_all add: q2_def)
    with f l show ?thesis
      by (intro exI [where x = "set_camp k q2 ?a1"] exI [where x = n] exI [where x = c2] exI [where x = q2]) simp
  qed
qed

text \<open>
  The timer of a camp fires \<open>n\<close> times, as long as it is pending: when, and what each
  firing sends.
\<close>

fun fires :: "'c small_map \<Rightarrow> string \<Rightarrow> nat \<Rightarrow> army \<Rightarrow> ('c, army \<times> (int option \<times> army_message list) list) db" where
  "fires sm k 0 a = db_return (a, [])"
| "fires sm k (Suc n) a =
     (case map_of (camp_queue a) k of
        None \<Rightarrow> db_return (a, [])
      | Some q \<Rightarrow>
          if \<not> waiting q then db_return (a, [])
          else db_bind (timeIsUp sm False k a) (\<lambda>(a1, out).
               db_bind (fires sm k n a1) (\<lambda>(a2, outs). db_return (a2, (timer_expires q, out) # outs))))"

fun built_soldiers :: "int option \<times> army_message list \<Rightarrow> (int option \<times> int \<times> int) list" where
  "built_soldiers (t, TimeIsUpResponse ty lv n k op sid # out) = (t, ty, lv) # built_soldiers (t, out)"
| "built_soldiers (t, _ # out) = built_soldiers (t, out)"
| "built_soldiers (t, []) = []"

text \<open>Soldiers built one after the other, the first of them at \<open>t\<close>.\<close>

fun built_from :: "'c small_map \<Rightarrow> int option \<Rightarrow> (int \<times> int) list \<Rightarrow> (int option \<times> int \<times> int) list" where
  "built_from sm t [] = []"
| "built_from sm t (x # xs) = (t, x) # (case xs of [] \<Rightarrow> []
     | (ty, lv) # _ \<Rightarrow> built_from sm (map_option (\<lambda>t. t + build_seconds sm ty lv) t) xs)"

definition to_build :: "soldier_info list \<Rightarrow> (int \<times> int) list" where
  "to_build ss = concat (map (\<lambda>s. replicate (firings (soldier_num s)) (soldier_type s, soldier_level s)) ss)"

lemma to_build_Nil [simp]: "to_build [] = []"
  by (simp add: to_build_def)

lemma to_build_step:
  assumes "known_orders sm (s # ss)"
  shows "to_build (s # ss) = (soldier_type s, soldier_level s) #
    to_build (if soldier_num s = 1 then ss else s\<lparr>soldier_num := to_short (soldier_num s - 1)\<rparr> # ss)"
proof (cases "soldier_num s = 1")
  case True
  then show ?thesis by (simp add: to_build_def firings_def)
next
  case False
  with assms have "firings (soldier_num s) = Suc (firings (to_short (soldier_num s - 1)))"
    by (intro firings_step) (simp_all add: known_orders_def)
  with False show ?thesis by (simp add: to_build_def)
qed

lemma to_build_head: "\<exists>xs. to_build (s # ss) = (soldier_type s, soldier_level s) # xs"
  by (simp add: to_build_def firings_def)

lemma fires_all:
  "length (to_build (armys_queue q)) = n \<Longrightarrow> map_of (camp_queue a) k = Some q \<Longrightarrow> known_orders sm (armys_queue q) \<Longrightarrow>
   (waiting q \<longleftrightarrow> armys_queue q \<noteq> []) \<Longrightarrow> replies sm \<Longrightarrow> room_for_all sm \<Longrightarrow> fits sm (m_uid a) k \<Longrightarrow>
   \<exists>a' outs c' q'. fires sm k n a c = Inr ((a', outs), c') \<and>
     concat (map built_soldiers outs) = built_from sm (timer_expires q) (to_build (armys_queue q)) \<and>
     map_of (camp_queue a') k = Some q' \<and> armys_queue q' = [] \<and> \<not> waiting q'"
proof (induction n arbitrary: a c q)
  case 0
  then have "armys_queue q = []" by (cases "armys_queue q") (auto simp: to_build_def firings_def)
  with 0 show ?case by simp
next
  case (Suc n)
  then obtain s ss where s: "armys_queue q = s # ss" by (cases "armys_queue q") auto
  let ?left = "if soldier_num s = 1 then ss else s\<lparr>soldier_num := to_short (soldier_num s - 1)\<rparr> # ss"
  have known: "known_orders sm (s # ss)" using Suc.prems(3) s by simp
  from fire_once [OF Suc.prems(2) s known Suc.prems(5,6,7)] obtain a1 i c1 q1 where
    f: "timeIsUp sm False k a c =
      Inr ((a1, [TimeIsUpResponse (soldier_type s) (soldier_level s) 1 k 1 (gameToString i)]), c1)"
    and q1: "map_of (camp_queue a1) k = Some q1" "m_uid a1 = m_uid a" "armys_queue q1 = ?left"
      "waiting q1 \<longleftrightarrow> armys_queue q1 \<noteq> []"
    and e: "\<forall>s' t. armys_queue q1 = s' # t \<longrightarrow> timer_expires q1 =
      map_option (\<lambda>t. t + build_seconds sm (soldier_type s') (soldier_level s')) (timer_expires q)" by blast
  have b: "to_build (s # ss) = (soldier_type s, soldier_level s) # to_build ?left"
    by (rule to_build_step [OF known])
  have "known_orders sm ?left" using known to_short_bounds by (auto simp: known_orders_def)
  then have "\<exists>a' outs c' q'. fires sm k n a1 c1 = Inr ((a', outs), c') \<and>
     concat (map built_soldiers outs) = built_from sm (timer_expires q1) (to_build (armys_queue q1)) \<and>
     map_of (camp_queue a') k = Some q' \<and> armys_queue q' = [] \<and> \<not> waiting q'"
    using Suc.prems(1,5,6,7) s b q1 by (intro Suc.IH) simp_all
  then obtain a' outs c' q' where r: "fires sm k n a1 c1 = Inr ((a', outs), c')"
    "concat (map built_soldiers outs) = built_from sm (timer_expires q1) (to_build (armys_queue q1))"
    "map_of (camp_queue a') k = Some q'" "armys_queue q' = []" "\<not> waiting q'"
    by blast
  have "built_from sm (timer_expires q) (to_build (s # ss)) =
      (timer_expires q, soldier_type s, soldier_level s) # built_from sm (timer_expires q1) (to_build (armys_queue q1))"
  proof (cases "armys_queue q1")
    case Nil
    then show ?thesis using b q1(3) by simp
  next
    case (Cons s' t)
    obtain xs where xs: "to_build (armys_queue q1) = (soldier_type s', soldier_level s') # xs"
      using to_build_head [of s' t] Cons by auto
    have "timer_expires q1 = map_option (\<lambda>t. t + build_seconds sm (soldier_type s') (soldier_level s')) (timer_expires q)"
      using e Cons by blast
    with b xs q1(3) show ?thesis by simp
  qed
  moreover have "waiting q" using Suc.prems(4) s by simp
  ultimately show ?case using f r s Suc.prems(2) by (simp add: db_bind_def)
qed

text \<open>
  C14. How many soldiers an order becomes, and when. While Redis answers, the population
  has room and the orders are of known soldiers, the timer of a camp builds the orders
  one after the other, one soldier each time it goes off, and is pending again until the
  last: the first soldier comes when the pending timer is due, and each of the others its
  own building time after the one before. An order of \<open>num\<close> soldiers becomes
  \<open>((num - 1) mod 65536) + 1\<close> of them, which is \<open>num\<close> for a positive number, and
  65536 + \<open>num\<close> for a number that is not (a player may order \<open>-1\<close> soldiers, for
  minus the price of one). After that the queue is empty and its timer off.
\<close>

theorem orders_are_built:
  assumes "army_run sm a" and "map_of (camp_queue a) which_camp = Some q" and "known_orders sm (armys_queue q)"
    and "replies sm" and "room_for_all sm" and "fits sm (m_uid a) which_camp"
  shows "\<exists>a' outs c' q'. fires sm which_camp (length (to_build (armys_queue q))) a c = Inr ((a', outs), c') \<and>
     concat (map built_soldiers outs) = built_from sm (timer_expires q) (to_build (armys_queue q)) \<and>
     map_of (camp_queue a') which_camp = Some q' \<and> armys_queue q' = [] \<and> \<not> waiting q'"
proof -
  have "waiting q \<longleftrightarrow> armys_queue q \<noteq> []"
    using timer_ok_waiting [OF timers_camp [OF army_run_timers [OF assms(1)] assms(2)]] .
  from fires_all [OF refl assms(2,3) this assms(4-6)] show ?thesis .
qed

lemma example_replies: "replies example_map"
  by (auto simp: replies_def example_map_def granting_redis_def)

lemma example_room: "room_for_all example_map"
  by (auto simp: room_for_all_def example_map_def granting_redis_def insertToBuildedArmyQueue_def integer_reply_def
      LUA_INSERT_SOLDIER_def)

lemma example_fits: "fits example_map 7 ''1''"
proof -
  have "gameToString 7 = ''7''" "cstr ''1'' = ''1''" by code_simp+
  then show ?thesis
    by (auto simp: fits_def camp_key_def example_map_def bool_text_def split: option.splits)
qed

theorem orders_are_built_witness:
  "\<exists>a' outs c' q'. fires example_map ''1'' 3 example_army 5 = Inr ((a', outs), c') \<and>
     concat (map built_soldiers outs) = [(Some 160, 1, 1), (Some 220, 1, 1), (Some 280, 1, 1)] \<and>
     map_of (camp_queue a') ''1'' = Some q' \<and> armys_queue q' = [] \<and> \<not> waiting q'"
proof -
  have "known_orders example_map (armys_queue example_queue)" by code_simp
  moreover have "fits example_map (m_uid example_army) ''1''"
  proof -
    have "m_uid example_army = 7" by code_simp
    then show ?thesis using example_fits by simp
  qed
  moreover have "length (to_build (armys_queue example_queue)) = 3" by code_simp
  moreover have "built_from example_map (timer_expires example_queue) (to_build (armys_queue example_queue)) =
      [(Some 160, 1, 1), (Some 220, 1, 1), (Some 280, 1, 1)]" by code_simp
  ultimately show ?thesis
    using orders_are_built [OF example_run example_camp _ example_replies example_room, of 5] by simp
qed

subsection \<open>What is paid and refunded\<close>

text \<open>
  Only locked soldiers can be ordered. An order that gets an answer at all was for
  soldiers that the player's combat union has not unlocked; an order for unlocked soldiers
  changes no queue, takes no resources and is not answered (the test in
  \<open>addSoldiers\<close> lacks a negation).
\<close>

theorem only_locked_soldiers_ordered:
  assumes "addSoldiers sm now ty lv num which_camp a c = Inr ((a', out), c')" and "out \<noteq> []"
  shows "\<exists>c1. soldier_is_unlock sm (m_uid a) ty lv c = Inr (False, c1)"
proof -
  have "m_uid (case map_of (camp_queue a) which_camp of None \<Rightarrow> set_camp which_camp TimerQueue a | Some _ \<Rightarrow> a) = m_uid a"
    by (simp split: option.splits)
  with assms show ?thesis
    by (auto simp: addSoldiers_def Let_def db_bind_eq_Inr split: option.splits if_splits)
qed

theorem only_locked_soldiers_ordered_witness:
  "\<exists>c1. soldier_is_unlock example_map (m_uid \<lparr>m_uid = 7, camp_queue = []\<rparr>) 1 1 0 = Inr (False, c1)"
proof -
  let ?r = "addSoldiers example_map 100 1 1 3 ''1'' \<lparr>m_uid = 7, camp_queue = []\<rparr> 0"
  have "is_ok (bind_r ?r (\<lambda>((a, out), c). if out = [] then Inl AssertFailed else Inr ()))" by code_simp
  then obtain a out c where "?r = Inr ((a, out), c)" "out \<noteq> []"
    by (cases ?r) (auto split: if_splits)
  then show ?thesis by (rule only_locked_soldiers_ordered)
qed

text \<open>
  The script that changes a player's wood always succeeds when it adds, and nothing else
  changes the wood.
\<close>

definition changes_resources :: "string \<Rightarrow> bool" where
  "changes_resources cmd \<longleftrightarrow> take 48 cmd = ''EVALSHA '' @ LUA_MAN_RESOURCE"

definition keeps_wood :: "'c small_map \<Rightarrow> int \<Rightarrow> ('c \<Rightarrow> int) \<Rightarrow> bool" where
  "keeps_wood sm uid wood \<longleftrightarrow>
     (\<forall>w s i k c r c'. manPlayerResources (redis_of sm) uid 1 w s i k c = Inr (r, c') \<longrightarrow> wood c' = wood c + w) \<and>
     (\<forall>cmd c. \<not> changes_resources cmd \<longrightarrow> wood (snd (redis_of sm cmd c)) = wood c)"

lemma other_commands:
  "\<not> changes_resources (''del '' @ d)" "\<not> changes_resources (''lpush '' @ d)"
  "\<not> changes_resources (''EVALSHA '' @ LUA_BATCH_READ_RESOURCE @ d)"
  by (simp_all add: changes_resources_def LUA_BATCH_READ_RESOURCE_def LUA_MAN_RESOURCE_def)

lemma keeps_wood_other:
  "keeps_wood sm uid wood \<Longrightarrow> \<not> changes_resources cmd \<Longrightarrow> redis_of sm cmd c = (r, c') \<Longrightarrow> wood c' = wood c"
  unfolding keeps_wood_def by (metis snd_conv)

lemma strWriteExec_wood:
  assumes "strWriteExec (redis_of sm) cmd c = Inr (b, c')" and "keeps_wood sm uid wood" and "\<not> changes_resources cmd"
  shows "wood c' = wood c"
proof -
  from assms(1) have "redis_of sm cmd c = (fst (redis_of sm cmd c), c')"
    by (auto simp: strWriteExec_def split: prod.splits option.splits)
  from keeps_wood_other [OF assms(2,3) this] show ?thesis .
qed

lemma multiReadExec_wood:
  assumes "multiReadExec (redis_of sm) cmd c = Inr (b, c')" and "keeps_wood sm uid wood" and "\<not> changes_resources cmd"
  shows "wood c' = wood c"
proof -
  from assms(1) have "redis_of sm cmd c = (fst (redis_of sm cmd c), c')"
    by (auto simp: multiReadExec_def split: prod.splits option.splits reply.splits if_splits)
  from keeps_wood_other [OF assms(2,3) this] show ?thesis .
qed

lemma writeIntoRedis_wood:
  assumes "writeIntoRedis sm u k q c = Inr (r, c')" and "keeps_wood sm uid wood"
  shows "wood c' = wood c"
proof -
  from assms(1) obtain h d b c1 b' where "strWriteExec (redis_of sm) (''del '' @ d) c = Inr (b, c1)"
    "strWriteExec (redis_of sm) (''lpush '' @ h) c1 = Inr (b', c')"
    by (auto simp: writeIntoRedis_def db_bind_eq_Inr sprintf_def split: if_splits)
  with strWriteExec_wood [OF _ assms(2)] other_commands show ?thesis by metis
qed

lemma answer_wood:
  assumes "sendProcessResultToUser sm a ty lv num k op st amounts c = Inr (r, c')" and "keeps_wood sm uid wood"
  shows "wood c' = wood c"
  using assms(1) writeIntoRedis_wood [OF _ assms(2)]
  by (auto simp: sendProcessResultToUser_def db_bind_eq_Inr split: prod.splits option.splits)

lemma addResource_wood:
  assumes "addResource sm uid (w, s, i, k) c = Inr (r, c')" and "keeps_wood sm uid wood"
  shows "wood c' = wood c + w"
proof -
  from assms(1) obtain b c1 out where m: "manPlayerResources (redis_of sm) uid 1 w s i k c = Inr (b, c1)"
    and g: "getPlayerResources (redis_of sm) uid c1 = Inr (out, c')"
    by (auto simp: addResource_def changeResource_def db_bind_eq_Inr)
  have "wood c' = wood c1"
    using multiReadExec_wood [OF _ assms(2)] other_commands(3) g unfolding getPlayerResources_def by blast
  moreover have "wood c1 = wood c + w"
    using m assms(2) unfolding keeps_wood_def by blast
  ultimately show ?thesis by simp
qed

text \<open>
  Cancelling refunds what was never paid. A player who cancels \<open>num\<close> of the soldiers
  at the head of a queue gets half the price of \<open>num\<close> soldiers back, also when fewer are
  queued: the order disappears, and the wood grows by \<open>num\<close> times half the price of one.
\<close>

theorem cancel_refunds_request:
  assumes "delSoliders sm now ty lv num which_camp a c = Inr ((a', out), c')"
    and "keeps_wood sm (m_uid a) wood" and "timers_ok sm a"
    and "arms_at sm ty lv = Some x" and "map_of (camp_queue a) which_camp = Some q"
    and "armys_queue q = s # ss" and "soldier_type s = ty" and "soldier_level s = lv" and "soldier_num s \<le> num"
  shows "map_option armys_queue (map_of (camp_queue a') which_camp) = Some ss \<and>
    wood c' = wood c + to_int32 (c_div (need_wood x) 2 * num)"
proof -
  let ?a1 = "cancelTimer which_camp a" and ?q1 = "q\<lparr>waiting := False\<rparr>"
  have q1: "map_of (camp_queue ?a1) which_camp = Some ?q1"
    using cancelTimer_camp [OF assms(5) timers_camp [OF assms(3,5)]] .
  then have c1: "camp which_camp ?a1 = Inr ?q1" by simp
  from assms(1) assms(4-9) c1 obtain c2 r amounts where
    reg: "registerTime sm which_camp (Some now) 0 (set_camp which_camp (?q1\<lparr>armys_queue := ss\<rparr>) ?a1) = Inr a'"
    and add: "addResource sm (m_uid a) (order_refund x num) c = Inr ((r, amounts), c2)"
    and ans: "sendProcessResultToUser sm a' ty lv num which_camp DEL True amounts c2 = Inr (out, c')"
    by (auto simp: delSoliders_def Let_def db_bind_eq_Inr)
  from reg have "map_option armys_queue (map_of (camp_queue a') which_camp) = Some ss"
    by (cases rule: registerTime_cases) auto
  moreover have "wood c2 = wood c + to_int32 (c_div (need_wood x) 2 * num)"
    using addResource_wood [OF add [unfolded order_refund_def] assms(2)] .
  ultimately show ?thesis using answer_wood [OF ans assms(2)] by simp
qed

text \<open>A Redis that keeps a player's wood, given in the first number after the kind.\<close>

definition wood_redis :: "int redis" where
  "wood_redis cmd c =
     (if changes_resources cmd then (Some (Reply_integer 1), c + read_number (drop 55 cmd)) else (Some Reply_nil, c))"

definition wood_map :: "int small_map" where
  "wood_map = \<lparr>arms_table = arms_table example_map, combat_union_limit = [], redis_of = wood_redis,
     subDiamond = (\<lambda>_ _. db_return True), to_iso_string = to_iso_string example_map,
     from_iso_string = from_iso_string example_map\<rparr>"

lemma wood_map_keeps: "keeps_wood wood_map 7 (\<lambda>c. c)"
  unfolding keeps_wood_def
proof (intro conjI allI impI)
  fix w s i k c r c'
  assume m: "manPlayerResources (redis_of wood_map) 7 1 w s i k c = Inr (r, c')"
  let ?rest = "gameToString s @ '' '' @ gameToString i @ '' '' @ gameToString k"
  let ?cmd = "''EVALSHA '' @ LUA_MAN_RESOURCE @ '' 0 '' @ gameToString 7 @ '' '' @ gameToString 1 @ '' '' @
         gameToString w @ '' '' @ ?rest"
  have n: "gameToString 7 = ''7''" "gameToString 1 = ''1''" by code_simp+
  then have "changes_resources ?cmd" "drop 55 ?cmd = gameToString w @ CHR '' '' # ?rest"
    by (simp_all add: changes_resources_def LUA_MAN_RESOURCE_def)
  moreover have "\<not> is_digit (CHR '' '')" by code_simp
  ultimately have "wood_redis ?cmd c = (Some (Reply_integer 1), c + w)"
    by (simp add: wood_redis_def read_number_prefix)
  with m show "c' = c + w"
    by (simp add: manPlayerResources_def integer_reply_def db_bind_def wood_map_def n)
next
  fix cmd c
  assume "\<not> changes_resources cmd"
  then show "snd (redis_of wood_map cmd c) = c" by (simp add: wood_map_def wood_redis_def)
qed

text \<open>One soldier is ordered; four are cancelled.\<close>

definition one_ordered :: army where
  "one_ordered = \<lparr>m_uid = 7, camp_queue = [(''1'', example_queue\<lparr>armys_queue :=
     [\<lparr>soldier_type = 1, soldier_level = 1, soldier_num = 1\<rparr>]\<rparr>)]\<rparr>"

theorem cancel_refunds_request_witness:
  "\<exists>a' out c'. delSoliders wood_map 130 1 1 4 ''1'' one_ordered 0 = Inr ((a', out), c') \<and>
    map_option armys_queue (map_of (camp_queue a') ''1'') = Some [] \<and> c' = 0 + to_int32 (c_div 10 2 * 4)"
proof -
  let ?r = "delSoliders wood_map 130 1 1 4 ''1'' one_ordered 0"
  have "is_ok ?r" by code_simp
  then obtain a' out c' where r: "?r = Inr ((a', out), c')" by (cases ?r) auto
  have "map_option armys_queue (map_of (camp_queue a') ''1'') = Some [] \<and>
      c' = 0 + to_int32 (c_div (need_wood \<lparr>need_wood = 10, need_stone = 5, need_iron = 2, need_soil = 1,
        population = 1, build_time = 60\<rparr>) 2 * 4)"
  proof (rule cancel_refunds_request [OF r])
    show "keeps_wood wood_map (m_uid one_ordered) (\<lambda>c. c)" using wood_map_keeps by (simp add: one_ordered_def)
    show "timers_ok wood_map one_ordered" by (simp add: timers_ok_but_def timer_ok_def due_def one_ordered_def example_queue_def
        arms_at_def example_map_def wood_map_def)
    show "arms_at wood_map 1 1 = Some \<lparr>need_wood = 10, need_stone = 5, need_iron = 2, need_soil = 1,
        population = 1, build_time = 60\<rparr>" by code_simp
    show "armys_queue (example_queue\<lparr>armys_queue := [\<lparr>soldier_type = 1, soldier_level = 1, soldier_num = 1\<rparr>]\<rparr>) =
        \<lparr>soldier_type = 1, soldier_level = 1, soldier_num = 1\<rparr> # []" by simp
  qed (simp_all add: one_ordered_def)
  with r show ?thesis by simp
qed

subsection \<open>What is restored\<close>

text \<open>
  A counter of the soldiers that the script inserted.
\<close>

definition counts_inserts :: "'c small_map \<Rightarrow> ('c \<Rightarrow> int) \<Rightarrow> bool" where
  "counts_inserts sm inserted \<longleftrightarrow> (\<forall>uid ty lv pop c. \<exists>n c'.
     insertToBuildedArmyQueue (redis_of sm) uid ty lv pop c = Inr (Some n, c') \<and> inserted c' = inserted c + 1)"

lemma build_offline_all:
  "0 \<le> num + 1 \<Longrightarrow> (num + 1) * bt \<le> td \<Longrightarrow> 0 \<le> bt \<Longrightarrow> counts_inserts sm inserted \<Longrightarrow> arms_at sm ty lv \<noteq> None \<Longrightarrow>
   \<exists>c'. build_offline sm uid ty lv bt num td c = Inr ((td - (num + 1) * bt, -1, None), c') \<and>
     inserted c' = inserted c + (num + 1)"
proof (induction "nat (num + 1)" arbitrary: num td c)
  case 0
  then have "num = -1" by simp
  then show ?case by (simp add: build_offline.simps)
next
  case (Suc n)
  then have num: "0 \<le> num" by simp
  have "0 \<le> num * bt" using num Suc.prems(3) by simp
  then have td: "\<not> td - bt < 0" using Suc.prems(2) by (simp add: algebra_simps)
  obtain x where "arms_at sm ty lv = Some x" using Suc.prems(5) by auto
  then obtain i c1 where i: "insertToBuilded sm uid ty lv c = Inr (Some i, c1)" "inserted c1 = inserted c + 1"
    using Suc.prems(4) unfolding insertToBuilded_def counts_inserts_def by fastforce
  have "\<exists>c'. build_offline sm uid ty lv bt (num - 1) (td - bt) c1 =
      Inr ((td - bt - (num - 1 + 1) * bt, -1, None), c') \<and> inserted c' = inserted c1 + (num - 1 + 1)"
    using Suc.hyps(2) Suc.prems num by (intro Suc.hyps(1)) (simp_all add: algebra_simps)
  then show ?case
    using num td i by (subst build_offline.simps) (auto simp: db_bind_def algebra_simps)
qed

text \<open>
  Offline, an order becomes one soldier more. When a player logs in and enough time has
  passed, an order of \<open>num\<close> soldiers is built \<open>num + 1\<close> times: the loop runs while the
  number is not negative instead of while it is positive.
\<close>

theorem offline_builds_one_more:
  assumes "0 \<le> num" and "(num + 1) * bt \<le> td" and "0 \<le> bt" and "counts_inserts sm inserted"
    and "arms_at sm ty lv \<noteq> None"
  shows "\<exists>c'. build_offline sm uid ty lv bt num td c = Inr ((td - (num + 1) * bt, -1, None), c') \<and>
     inserted c' = inserted c + (num + 1)"
  using assms by (intro build_offline_all) simp_all

theorem offline_builds_one_more_witness:
  "\<exists>c'. build_offline example_map 7 1 1 60 3 1000 0 = Inr ((1000 - (3 + 1) * 60, -1, None), c') \<and>
     int c' = int 0 + (3 + 1)"
proof (rule offline_builds_one_more)
  show "counts_inserts example_map int"
    by (auto simp: counts_inserts_def example_map_def granting_redis_def insertToBuildedArmyQueue_def integer_reply_def
      LUA_INSERT_SOLDIER_def)
  show "arms_at example_map 1 1 \<noteq> None" by code_simp
qed simp_all

subsection \<open>A camp written and read back\<close>

text \<open>
  What Redis documents of its lists, for keys and values without blanks: DEL empties,
  LPUSH puts its values in front one after the other, LRANGE reads all.
\<close>

definition keeps_lists :: "'c redis \<Rightarrow> ('c \<Rightarrow> string \<Rightarrow> string list) \<Rightarrow> bool" where
  "keeps_lists R L \<longleftrightarrow>
     (\<forall>k c. word k \<longrightarrow> (\<exists>r c'. R (''del '' @ k) c = (Some r, c') \<and> L c' k = [])) \<and>
     (\<forall>k ws c. word k \<and> list_all word ws \<longrightarrow>
        (\<exists>r c'. R (''lpush '' @ k @ concat (map (\<lambda>w. CHR '' '' # w) ws)) c = (Some r, c') \<and> L c' k = rev ws @ L c k)) \<and>
     (\<forall>k c. word k \<longrightarrow> (\<exists>c'. R (''lrange '' @ k @ '' 0 -1'') c = (Some (Reply_array (map Some (L c k))), c')))"

definition camp_record :: "'c small_map \<Rightarrow> timer_queue \<Rightarrow> string list" where
  "camp_record sm q = to_iso_string sm (begin_build_time q) # bool_text (is_block q) # map soldier_text (armys_queue q)"

lemma word_soldier_text: "word (soldier_text s)"
  using word_gameToString [of "soldier_type s"] word_gameToString [of "soldier_level s"] word_gameToString [of "soldier_num s"]
  by (auto simp: word_def soldier_text_def)

lemma write_then_read:
  assumes "writeIntoRedis sm uid k q c = Inr ((), c1)" and "keeps_lists (redis_of sm) L"
    and "word k" and "word (to_iso_string sm (begin_build_time q))" and "length (camp_key uid k) < 135"
  shows "\<exists>c2. readBuildArmy sm (camp_key uid k) c1 = Inr (Some (rev (camp_record sm q)), c2)"
proof -
  let ?k = "camp_key uid k"
  have wk: "word ?k" using assms(3) word_gameToString [of uid] by (auto simp: word_def camp_key_def cstr_no_nul)
  have words: "list_all word (camp_record sm q)"
    using assms(4) word_soldier_text by (auto simp: camp_record_def word_def bool_text_def list_all_iff)
  let ?push = "''lpush '' @ ?k @ concat (map (\<lambda>w. CHR '' '' # w) (camp_record sm q))"
  have "concat (map (\<lambda>s. CHR '' '' # soldier_text s) ss) = concat (map (\<lambda>w. CHR '' '' # w) (map soldier_text ss))" for ss
    by (simp add: comp_def)
  then have push: "(''lpush '' @ ?k @ '' '' @ to_iso_string sm (begin_build_time q) @ '' '' @ bool_text (is_block q)) @
      concat (map (\<lambda>s. CHR '' '' # soldier_text s) (armys_queue q)) = ?push"
    by (simp add: camp_record_def)
  from assms(1) obtain b c0 b' where
    d: "strWriteExec (redis_of sm) (''del '' @ ?k) c = Inr (b, c0)" and
    p: "strWriteExec (redis_of sm) ?push c0 = Inr (b', c1)"
    unfolding push [symmetric] by (auto simp: writeIntoRedis_def db_bind_eq_Inr sprintf_def split: if_splits)
  from assms(2) wk obtain r c0' where "redis_of sm (''del '' @ ?k) c = (Some r, c0')" "L c0' ?k = []"
    unfolding keeps_lists_def by blast
  with d have e: "L c0 ?k = []" by (simp add: strWriteExec_def)
  from assms(2) wk words obtain r' c1' where "redis_of sm ?push c0 = (Some r', c1')"
    "L c1' ?k = rev (camp_record sm q) @ L c0 ?k"
    unfolding keeps_lists_def by blast
  with p e have l: "L c1 ?k = rev (camp_record sm q)" by (simp add: strWriteExec_def)
  from assms(2) wk obtain c2 where r: "redis_of sm (''lrange '' @ ?k @ '' 0 -1'') c1 = (Some (Reply_array (map Some (L c1 ?k))), c2)"
    unfolding keeps_lists_def by blast
  have "map cstr (rev (camp_record sm q)) = rev (camp_record sm q)"
    using words by (intro map_idI) (auto simp: list_all_iff cstr_word)
  then show ?thesis
    using r l assms(5) cstr_word [OF wk]
    by (auto simp: readBuildArmy_def sprintf_def multiReadExec_def rev_map o_def)
qed

lemma split_hash_single: "CHR ''#'' \<notin> set s \<Longrightarrow> split_hash s = [s]"
  by (induction s) auto

lemma split_hash_first:
  assumes "CHR ''#'' \<notin> set a" and "b \<noteq> []" and "hd b \<noteq> CHR ''#''"
  shows "split_hash (a @ CHR ''#'' # b) = a # split_hash b"
  using assms(1)
proof (induction a)
  case Nil
  from assms(2,3) show ?case by (cases b) auto
next
  case (Cons x a)
  then show ?case by auto
qed

lemma hash_free: "CHR ''#'' \<notin> set (gameToString i)" and text_nonempty: "gameToString i \<noteq> []"
  and text_hd: "hd (gameToString i) \<noteq> CHR ''#''"
proof -
  show h: "CHR ''#'' \<notin> set (gameToString i)" using set_gameToString by blast
  show n: "gameToString i \<noteq> []" by (simp add: gameToString_def)
  show "hd (gameToString i) \<noteq> CHR ''#''" using h hd_in_set [OF n] by metis
qed

lemma split_soldier_text:
  "split_hash (soldier_text s) = [gameToString (soldier_type s), gameToString (soldier_level s), gameToString (soldier_num s)]"
proof -
  have "split_hash (gameToString (soldier_level s) @ CHR ''#'' # gameToString (soldier_num s)) =
      [gameToString (soldier_level s), gameToString (soldier_num s)]"
    by (simp add: split_hash_first split_hash_single hash_free text_nonempty text_hd)
  moreover have "hd (gameToString (soldier_level s) @ CHR ''#'' # gameToString (soldier_num s)) \<noteq> CHR ''#''"
    using text_hd text_nonempty by (simp add: hd_append)
  ultimately show ?thesis
    using split_hash_first [OF hash_free, of "gameToString (soldier_level s) @ CHR ''#'' # gameToString (soldier_num s)"
        "soldier_type s"]
    by (simp add: soldier_text_def)
qed

text \<open>Orders whose numbers survive: \<open>short\<close>s, none of them 0, a positive number of soldiers.\<close>

definition sound_order :: "soldier_info \<Rightarrow> bool" where
  "sound_order s \<longleftrightarrow> 0 < soldier_type s \<and> soldier_type s < 32768 \<and> 0 < soldier_level s \<and> soldier_level s < 32768 \<and>
     0 < soldier_num s \<and> soldier_num s < 32768"

lemma atoi_short: "- 32768 \<le> i \<Longrightarrow> i < 32768 \<Longrightarrow> to_short (atoi (gameToString i)) = i"
  using wrap_signed_id [of 32 i] by (simp add: atoi_def to_short_id)

lemma restore_direct:
  "list_all sound_order ss \<Longrightarrow> map_of (camp_queue a) k = Some q \<Longrightarrow>
   \<exists>a' q'. restore_orders sm now k (map soldier_text ss) (a, True, td) c = Inr ((a', True, td), c) \<and>
     map_of (camp_queue a') k = Some q' \<and> q' = q\<lparr>armys_queue := armys_queue q @ ss\<rparr>"
proof (induction ss arbitrary: a q)
  case Nil
  then show ?case by simp
next
  case (Cons s ss)
  let ?q = "queue_push_back (soldier_type s) (soldier_level s) (soldier_num s) q"
  have s: "queue_push_back (soldier_type s) (soldier_level s) (soldier_num s) q = q\<lparr>armys_queue := armys_queue q @ [s]\<rparr>"
    by (cases s) (simp add: queue_push_back_def)
  have "restore_order sm now k (soldier_type s) (soldier_level s) (soldier_num s) (a, True, td) c =
      Inr ((set_camp k ?q a, True, td), c)"
    using Cons.prems(2) by (simp add: restore_order_def camp_def)
  moreover have "\<exists>a' q'. restore_orders sm now k (map soldier_text ss) (set_camp k ?q a, True, td) c = Inr ((a', True, td), c) \<and>
     map_of (camp_queue a') k = Some q' \<and> q' = ?q\<lparr>armys_queue := armys_queue ?q @ ss\<rparr>"
    using Cons.prems(1) by (intro Cons.IH) simp_all
  ultimately show ?case
    using Cons.prems(1) s
    by (auto simp: split_soldier_text atoi_short sound_order_def db_bind_def)
qed

lemma newTimerQueue_rev:
  assumes "orders \<noteq> []" and "after_last_hash key = k" and "k \<noteq> []" and "from_iso_string sm t' = Some t"
  shows "newTimerQueueFromRedis sm now key (rev (t' # b # orders)) a =
    db_bind (restore_orders sm now k orders
        (set_camp k (TimerQueue\<lparr>is_block := (atoi b \<noteq> 0)\<rparr>) a, atoi b \<noteq> 0, now - t)) (\<lambda>(a2, _).
    db_bind (db_lift (camp k a2)) (\<lambda>q.
      if is_block q then db_lift (registerTime sm k (Some now) 30 a2) else db_return a2))"
proof -
  let ?info = "rev (t' # b # orders)"
  have l: "length ?info - 1 = Suc (length orders)" "length ?info - 2 = length orders" "\<not> length ?info < 3"
    using assms(1) by (cases orders; simp)+
  have "?info ! Suc (length orders) = t'" "?info ! length orders = b" "rev (take (length orders) ?info) = orders"
    by (simp_all add: nth_append)
  with l assms show ?thesis
    unfolding newTimerQueueFromRedis_def Let_def by (simp only: l if_False simp_thms option.case)
qed

text \<open>
  C15. A camp survives logout and login. A camp that is not blocked, whose orders are
  sound (positive numbers within a \<open>short\<close>) and the first of a known soldier, is written by
  \<open>writeIntoRedis\<close> when its player goes offline. When the player comes back before the
  first soldier is due, \<open>readBuildArmy\<close> and \<open>newTimerQueueFromRedis\<close> make a camp with the
  same orders in the same order, the same start, and a timer that goes off when the first
  soldier would have been due. Redis keeps its lists, the texts of times are read back,
  and the name of the camp is a word without the separator that fits into the buffer.
\<close>

theorem camp_survives_logout:
  assumes "writeIntoRedis sm uid k q c = Inr ((), c1)" and "keeps_lists (redis_of sm) L"
    and "word k" and "CHR ''#'' \<notin> set k" and "length (camp_key uid k) < 135"
    and "armys_queue q = s # ss" and "list_all sound_order (s # ss)" and "\<not> is_block q"
    and "begin_build_time q = Some t" and "word (to_iso_string sm (Some t))"
    and "from_iso_string sm (to_iso_string sm (Some t)) = Some t"
    and "arms_at sm (soldier_type s) (soldier_level s) = Some x" and "now - t < build_time x"
  shows "\<exists>info c2 a' q'. readBuildArmy sm (camp_key uid k) c1 = Inr (Some info, c2) \<and>
    newTimerQueueFromRedis sm now (camp_key uid k) info \<lparr>m_uid = uid, camp_queue = []\<rparr> c2 = Inr (a', c2) \<and>
    map_of (camp_queue a') k = Some q' \<and> armys_queue q' = armys_queue q \<and>
    begin_build_time q' = begin_build_time q \<and> timer_expires q' = Some (t + build_time x) \<and> waiting q' \<and> \<not> is_block q'"
proof -
  let ?info = "rev (camp_record sm q)" and ?a = "\<lparr>m_uid = uid, camp_queue = []\<rparr>"
  obtain c2 where read: "readBuildArmy sm (camp_key uid k) c1 = Inr (Some ?info, c2)"
    using write_then_read [OF assms(1,2,3) _ assms(5)] assms(9,10) by auto
  have name: "after_last_hash (camp_key uid k) = k"
  proof -
    have "takeWhile (\<lambda>c. c \<noteq> CHR ''#'') (rev k @ CHR ''#'' # r) = rev k" for r
      using assms(4) by (intro takeWhile_upto) simp
    then show ?thesis using cstr_word [OF assms(3)] by (simp add: after_last_hash_def camp_key_def)
  qed
  let ?a1 = "set_camp k (TimerQueue\<lparr>is_block := False\<rparr>) ?a" and ?td = "now - t"
  let ?q1 = "queue_push_back (soldier_type s) (soldier_level s) (soldier_num s) (TimerQueue\<lparr>is_block := False\<rparr>)"
  let ?q2 = "?q1\<lparr>begin_build_time := Some t, timer_expires := Some (t + build_time x), waiting := True\<rparr>"
  have so: "sound_order s" using assms(7) by simp
  have "build_offline sm uid (soldier_type s) (soldier_level s) (build_time x) (soldier_num s) ?td c2 =
      Inr ((?td, soldier_num s, Some True), c2)"
    using so assms(13) by (simp add: build_offline.simps sound_order_def)
  moreover have "registerTime sm k (Some t) 0 (set_camp k ?q1 ?a1) = Inr (set_camp k ?q2 (set_camp k ?q1 ?a1))"
    using assms(12) by (simp add: registerTime_def camp_def queue_push_back_def TimerQueue_def arms_index_def)
  ultimately have one: "restore_order sm now k (soldier_type s) (soldier_level s) (soldier_num s) (?a1, False, ?td) c2 =
      Inr ((set_camp k ?q2 ?a1, True, ?td), c2)"
    using so assms(12)
    by (simp add: restore_order_def db_bind_def camp_def arms_index_def sound_order_def Let_def)
  have "list_all sound_order ss" using assms(7) by simp
  from restore_direct [OF this, of "set_camp k ?q2 ?a1" k ?q2 sm now ?td c2] obtain a' where
    rest: "restore_orders sm now k (map soldier_text ss) (set_camp k ?q2 ?a1, True, ?td) c2 = Inr ((a', True, ?td), c2)"
    and q': "map_of (camp_queue a') k = Some (?q2\<lparr>armys_queue := armys_queue ?q2 @ ss\<rparr>)" by auto
  have "atoi ''0'' = 0" by code_simp
  have "restore_orders sm now k (map soldier_text (s # ss)) (?a1, False, ?td) c2 = Inr ((a', True, ?td), c2)"
    using one rest so by (simp add: split_soldier_text atoi_short sound_order_def db_bind_def)
  moreover have "k \<noteq> []" using assms(3) by (simp add: word_def)
  ultimately have "newTimerQueueFromRedis sm now (camp_key uid k) ?info ?a c2 = Inr (a', c2)"
    using q' assms(6,8,9) \<open>atoi ''0'' = 0\<close>
      newTimerQueue_rev [OF _ name _ assms(11), of "map soldier_text (s # ss)" now "''0''" ?a]
    by (simp add: camp_record_def bool_text_def db_bind_def camp_def queue_push_back_def TimerQueue_def
        del: restore_orders.simps rev.simps list.map)
  moreover have "armys_queue (?q2\<lparr>armys_queue := armys_queue ?q2 @ ss\<rparr>) = armys_queue q"
    using assms(6) by (cases s) (simp add: queue_push_back_def TimerQueue_def)
  ultimately show ?thesis
    using read q' assms(9)
    by (intro exI [where x = ?info] exI [where x = c2] exI [where x = a']
        exI [where x = "?q2\<lparr>armys_queue := armys_queue ?q2 @ ss\<rparr>"] conjI)
      (simp_all add: queue_push_back_def TimerQueue_def)
qed

text \<open>A Redis that keeps lists.\<close>

definition blank_words :: "string \<Rightarrow> string list" where
  "blank_words s = foldr (\<lambda>c ws. if c = CHR '' '' then [] # ws else (c # hd ws) # tl ws) s [[]]"

definition list_redis :: "(string \<Rightarrow> string list) redis" where
  "list_redis cmd c =
     (case blank_words cmd of
        op # k # ws \<Rightarrow>
          if op = ''del'' then (Some (Reply_integer 1), c(k := []))
          else if op = ''lpush'' then (Some (Reply_integer (int (length ws))), c(k := rev ws @ c k))
          else if op = ''lrange'' then (Some (Reply_array (map Some (c k))), c)
          else (Some Reply_nil, c)
      | _ \<Rightarrow> (Some Reply_nil, c))"

lemma blank_words_end: "CHR '' '' \<notin> set a \<Longrightarrow> blank_words a = [a]"
  by (induction a) (auto simp: blank_words_def)

lemma blank_words_first: "CHR '' '' \<notin> set a \<Longrightarrow> blank_words (a @ CHR '' '' # b) = a # blank_words b"
  by (induction a) (auto simp: blank_words_def)

lemma blank_words_all:
  "CHR '' '' \<notin> set a \<Longrightarrow> list_all word ws \<Longrightarrow> blank_words (a @ concat (map (\<lambda>w. CHR '' '' # w) ws)) = a # ws"
proof (induction ws arbitrary: a)
  case Nil
  then show ?case by (simp add: blank_words_end)
next
  case (Cons w ws)
  then show ?case by (simp add: blank_words_first word_def)
qed

lemma list_redis_keeps: "keeps_lists list_redis (\<lambda>c. c)"
  unfolding keeps_lists_def
proof (intro conjI allI impI)
  fix k and c :: "string \<Rightarrow> string list"
  assume k: "word k"
  have "blank_words (''del'' @ concat (map (\<lambda>w. CHR '' '' # w) [k])) = [''del'', k]"
    using k by (intro blank_words_all) simp_all
  then show "\<exists>r c'. list_redis (''del '' @ k) c = (Some r, c') \<and> c' k = []"
    by (simp add: list_redis_def)
  have "blank_words (''lrange'' @ concat (map (\<lambda>w. CHR '' '' # w) [k, ''0'', ''-1''])) = [''lrange'', k, ''0'', ''-1'']"
    using k by (intro blank_words_all) (simp_all add: word_def)
  then show "\<exists>c'. list_redis (''lrange '' @ k @ '' 0 -1'') c = (Some (Reply_array (map Some (c k))), c')"
    by (simp add: list_redis_def)
next
  fix k ws and c :: "string \<Rightarrow> string list"
  assume k: "word k \<and> list_all word ws"
  have "blank_words (''lpush'' @ concat (map (\<lambda>w. CHR '' '' # w) (k # ws))) = ''lpush'' # k # ws"
    using k by (intro blank_words_all) simp_all
  then show "\<exists>r c'. list_redis (''lpush '' @ k @ concat (map (\<lambda>w. CHR '' '' # w) ws)) c = (Some r, c') \<and> c' k = rev ws @ c k"
    by (simp add: list_redis_def)
qed

definition list_map :: "(string \<Rightarrow> string list) small_map" where
  "list_map = \<lparr>arms_table = arms_table example_map, combat_union_limit = [], redis_of = list_redis,
     subDiamond = (\<lambda>_ _. db_return True), to_iso_string = to_iso_string example_map,
     from_iso_string = from_iso_string example_map\<rparr>"

theorem camp_survives_logout_witness:
  "\<exists>c1 info c2 a' q'. writeIntoRedis list_map 7 ''1'' example_queue (\<lambda>_. []) = Inr ((), c1) \<and>
    readBuildArmy list_map (camp_key 7 ''1'') c1 = Inr (Some info, c2) \<and>
    newTimerQueueFromRedis list_map 130 (camp_key 7 ''1'') info \<lparr>m_uid = 7, camp_queue = []\<rparr> c2 = Inr (a', c2) \<and>
    map_of (camp_queue a') ''1'' = Some q' \<and> armys_queue q' = armys_queue example_queue \<and>
    begin_build_time q' = begin_build_time example_queue \<and> timer_expires q' = Some (100 + build_time
      \<lparr>need_wood = 10, need_stone = 5, need_iron = 2, need_soil = 1, population = 1, build_time = 60\<rparr>) \<and>
    waiting q' \<and> \<not> is_block q'"
proof -
  let ?x = "\<lparr>need_wood = 10, need_stone = 5, need_iron = 2, need_soil = 1, population = 1, build_time = 60\<rparr>"
  let ?r = "writeIntoRedis list_map 7 ''1'' example_queue (\<lambda>_. [])"
  have "is_ok ?r" by code_simp
  then obtain c1 where w: "?r = Inr ((), c1)" by (cases ?r) auto
  have "\<exists>info c2 a' q'. readBuildArmy list_map (camp_key 7 ''1'') c1 = Inr (Some info, c2) \<and>
    newTimerQueueFromRedis list_map 130 (camp_key 7 ''1'') info \<lparr>m_uid = 7, camp_queue = []\<rparr> c2 = Inr (a', c2) \<and>
    map_of (camp_queue a') ''1'' = Some q' \<and> armys_queue q' = armys_queue example_queue \<and>
    begin_build_time q' = begin_build_time example_queue \<and> timer_expires q' = Some (100 + build_time ?x) \<and>
    waiting q' \<and> \<not> is_block q'"
  proof (rule camp_survives_logout [OF w, where L = "\<lambda>c. c" and s = "\<lparr>soldier_type = 1, soldier_level = 1, soldier_num = 3\<rparr>" and ss = "[]"])
    show "keeps_lists (redis_of list_map) (\<lambda>c. c)" using list_redis_keeps by (simp add: list_map_def)
    show "word (to_iso_string list_map (Some 100))" by code_simp
    show "from_iso_string list_map (to_iso_string list_map (Some 100)) = Some 100" by code_simp
    show "length (camp_key 7 ''1'') < 135" by code_simp
    show "arms_at list_map (soldier_type \<lparr>soldier_type = 1, soldier_level = 1, soldier_num = 3\<rparr>)
        (soldier_level \<lparr>soldier_type = 1, soldier_level = 1, soldier_num = 3\<rparr>) = Some ?x" by code_simp
  qed (simp_all add: word_def example_queue_def sound_order_def)
  with w show ?thesis by blast
qed

end
