(* ===== verification/Worker_Frames.thy ===== *)
theory Worker_Frames
  imports Prelude
begin

section \<open>What the gateway and the workers send each other\<close>

text \<open>
  The bodies of the messages that travel through the broker. A request of a player
  (\<open>LoginWorker::OnMessage\<close>, \<open>OnlineNotifyWorker\<close>, \<open>OffLineNotifyWorker\<close> of the gateway)
  is a header, the player's number and the client's message; a worker reads the number
  and the message's id back (\<open>process\<close>). An answer (\<open>WorkerSender\<close> of
  \<open>worker_common/base_function.hpp\<close>) is the list of the players it is for and the
  message; \<open>handler_in_gateway\<close> of \<open>service/__server.cpp\<close> hands it to their connections.
  Messages packed by msgpack are byte strings.
\<close>

subsection \<open>Identifiers of messages\<close>

definition LoginRequest_ID :: int where "LoginRequest_ID = 1013"
definition LogoutRequest_ID :: int where "LogoutRequest_ID = 1032"
definition WorldMapNearByRequest_ID :: int where "WorldMapNearByRequest_ID = 1033"
definition RandomNewMapRequest_ID :: int where "RandomNewMapRequest_ID = 1034"
definition RandomMoveCityRequest_ID :: int where "RandomMoveCityRequest_ID = 1035"
definition SettleMoveCityRequest_ID :: int where "SettleMoveCityRequest_ID = 1036"
definition GetSomePlayerRequest_ID :: int where "GetSomePlayerRequest_ID = 1043"
definition StudySkillRequest_ID :: int where "StudySkillRequest_ID = 1044"
definition LeaveWordMapRequest_ID :: int where "LeaveWordMapRequest_ID = 1045"
definition LeaveUnionRequest_ID :: int where "LeaveUnionRequest_ID = 1051"
definition AddUnionRequest_ID :: int where "AddUnionRequest_ID = 1052"
definition SoldierInfoRequest_ID :: int where "SoldierInfoRequest_ID = 1053"
definition ChangeSoldierCampRequest_ID :: int where "ChangeSoldierCampRequest_ID = 1054"
definition CompleteAtOnceRequest_ID :: int where "CompleteAtOnceRequest_ID = 1055"
definition msgAtkerStopBattleRequest_ID :: int where "msgAtkerStopBattleRequest_ID = 1068"

lemmas request_ids = LoginRequest_ID_def LogoutRequest_ID_def WorldMapNearByRequest_ID_def RandomNewMapRequest_ID_def
  RandomMoveCityRequest_ID_def SettleMoveCityRequest_ID_def GetSomePlayerRequest_ID_def StudySkillRequest_ID_def
  LeaveWordMapRequest_ID_def LeaveUnionRequest_ID_def AddUnionRequest_ID_def SoldierInfoRequest_ID_def
  ChangeSoldierCampRequest_ID_def CompleteAtOnceRequest_ID_def

subsection \<open>Integers in memory\<close>

text \<open>A 32-bit integer, the low byte first, and a \<open>short\<close> read from memory.\<close>

definition u32_le :: "string \<Rightarrow> u32" where
  "u32_le s = ucast (u16_le s) + 65536 * ucast (u16_le (drop 2 s))"

definition le_u32 :: "u32 \<Rightarrow> string" where
  "le_u32 w = le_u16 (ucast w) @ le_u16 (ucast (drop_bit 16 w))"

definition short_le :: "string \<Rightarrow> int" where
  "short_le s = sint (u16_le s)"

definition le_short :: "int \<Rightarrow> string" where
  "le_short i = le_u16 (word_of_int i)"

lemma length_le_u32 [simp]: "length (le_u32 w) = 4"
  by (simp add: le_u32_def)

lemma length_le_short [simp]: "length (le_short i) = 2"
  by (simp add: le_short_def)

lemma u32_le_le_u32 [simp]: "u32_le (le_u32 w @ s) = w"
proof -
  have "ucast (ucast w :: u16) + 65536 * ucast (ucast (drop_bit 16 w) :: u16) = w"
  proof -
    have "ucast (ucast w :: u16) = take_bit 16 w"
      by (rule bit_word_eqI) (auto simp: bit_unsigned_iff bit_take_bit_iff)
    moreover have "ucast (ucast (drop_bit 16 w) :: u16) = drop_bit 16 w"
      by (rule bit_word_eqI) (auto simp: bit_unsigned_iff bit_drop_bit_eq dest: bit_imp_le_length)
    moreover have "65536 * drop_bit 16 w = push_bit 16 (drop_bit 16 w)"
      by (simp add: push_bit_eq_mult)
    ultimately show ?thesis using bits_ident [of 16 w] by (simp only: add.commute)
  qed
  then show ?thesis by (simp add: u32_le_def le_u32_def)
qed

lemma u32_le_le_u32_alone [simp]: "u32_le (le_u32 w) = w"
  using u32_le_le_u32 [of w "[]"] by simp

lemma sint_short: "sint (word_of_int i :: u16) = to_short i"
  by (simp add: wrap_signed_def signed_of_int signed_take_bit_eq_take_bit_shift take_bit_eq_mod)

lemma short_le_le_short [simp]: "short_le (le_short i @ s) = to_short i"
  by (simp add: short_le_def le_short_def sint_short)

subsection \<open>Requests\<close>

text \<open>
  \<open>request_body\<close>: the 16-bit header (the sizes, not read by anybody), the player's
  number, the message.
\<close>

definition request_body :: "u32 \<Rightarrow> string \<Rightarrow> string" where
  "request_body player_UUID message =
     le_u16 (word_of_nat (length message + 4)) @ le_u32 player_UUID @ message"

text \<open>What \<open>process\<close> reads from the bytes: the player's number, the id, the rest.\<close>

definition parse_request :: "string \<Rightarrow> crash + u32 \<times> int \<times> string" where
  "parse_request data =
     (if length data < 8 then Inl OutOfRange
      else Inr (u32_le (drop 2 data), short_le (drop 6 data), drop 8 data))"

lemma parse_request_body:
  "parse_request (request_body uuid (le_short i @ packed)) = Inr (uuid, to_short i, packed)"
  by (simp add: parse_request_def request_body_def)

subsection \<open>Answers\<close>

definition SendToPlayer :: "string \<Rightarrow> int \<Rightarrow> u32 \<Rightarrow> string" where
  "SendToPlayer packed respon_id player_uuid = le_short 1 @ le_u32 player_uuid @ le_short respon_id @ packed"

definition SendToPlayerList :: "string \<Rightarrow> int \<Rightarrow> u32 list \<Rightarrow> string option" where
  "SendToPlayerList packed respon_id player_uuid_list =
     (if player_uuid_list = [] then None
      else Some (le_short (int (length player_uuid_list)) @ concat (map le_u32 player_uuid_list) @
             le_short respon_id @ packed))"

text \<open>
  The gateway's table of players: \<open>UuidHandlerPoitiner[uuid]\<close> makes an empty pointer
  for a player who is not in it. \<open>sent\<close> collects what was sent to which connection.
\<close>

record gateway =
  UuidHandlerPoitiner :: "u32 \<Rightarrow> nat option option"
  gateway_sent :: "(nat \<times> string) list"

definition send_to_player :: "string \<Rightarrow> u32 \<Rightarrow> gateway \<Rightarrow> gateway" where
  "send_to_player net_message uuid g =
     (case UuidHandlerPoitiner g uuid of
        None \<Rightarrow> g\<lparr>UuidHandlerPoitiner := (UuidHandlerPoitiner g)(uuid \<mapsto> None)\<rparr>
      | Some None \<Rightarrow> g
      | Some (Some h) \<Rightarrow> g\<lparr>gateway_sent := gateway_sent g @ [(h, net_message)]\<rparr>)"

definition uuid_at :: "string \<Rightarrow> nat \<Rightarrow> u32" where
  "uuid_at data i = u32_le (drop (2 + i * 4) data)"

text \<open>
  \<open>size -= offset\<close> is unsigned: too many players for the size make it too large and
  the message is dropped, a negative number of players makes it larger than the
  message and the bytes before it are read.
\<close>

definition handler_in_gateway :: "string \<Rightarrow> gateway \<Rightarrow> crash + gateway" where
  "handler_in_gateway data g =
     (if length data < 2 then Inl OutOfRange
      else let usercount = short_le data;
               offset = 2 + 4 * usercount;
               left_size = (int (length data) - offset) mod 2 ^ 64 in
        if 10240000 < left_size then Inr g
        else if offset < 0 then Inl OutOfRange
        else Inr (fold (send_to_player (drop (nat offset) data)) (map (uuid_at data) [0..<nat usercount]) g))"

subsection \<open>Answers reach their players\<close>

definition delivered :: "string \<Rightarrow> u32 list \<Rightarrow> gateway \<Rightarrow> (nat \<times> string) list" where
  "delivered m uuids g =
     map (\<lambda>h. (h, m)) (List.map_filter (\<lambda>u. case UuidHandlerPoitiner g u of Some (Some h) \<Rightarrow> Some h | _ \<Rightarrow> None) uuids)"

lemma fold_send_to_player:
  "gateway_sent (fold (send_to_player m) uuids g) = gateway_sent g @ delivered m uuids g"
proof (induction uuids arbitrary: g)
  case Nil
  then show ?case by (simp add: delivered_def map_filter_def)
next
  case (Cons u us)
  have other: "(case UuidHandlerPoitiner (send_to_player m u g) v of Some (Some h) \<Rightarrow> Some h | _ \<Rightarrow> None) =
      (case UuidHandlerPoitiner g v of Some (Some h) \<Rightarrow> Some h | _ \<Rightarrow> None)" for v
    by (auto simp: send_to_player_def split: option.splits)
  have "delivered m us (send_to_player m u g) = delivered m us g"
    unfolding delivered_def other ..
  moreover have "gateway_sent (send_to_player m u g) = gateway_sent g @ delivered m [u] g"
    by (auto simp: send_to_player_def delivered_def map_filter_def split: option.splits)
  moreover have "delivered m (u # us) g = delivered m [u] g @ delivered m us g"
    by (auto simp: delivered_def map_filter_def split: option.splits)
  ultimately show ?case using Cons.IH [of "send_to_player m u g"] by simp
qed

lemma concat_le_u32: "i < length us \<Longrightarrow> u32_le (drop (i * 4) (concat (map le_u32 us)) @ rest) = us ! i"
proof (induction us arbitrary: i)
  case Nil
  then show ?case by simp
next
  case (Cons u us)
  then show ?case by (cases i) simp_all
qed

lemma length_concat_le_u32 [simp]: "length (concat (map le_u32 us)) = 4 * length us"
  by (induction us) simp_all

text \<open>
  C12. An answer reaches its players. The message a worker sends for fewer than 32768
  players is handed, id first and unchanged, once for each entry of the list in its
  order to the connections of the players who are online, and to nobody else.
\<close>

theorem answers_reach_players:
  assumes "SendToPlayerList packed respon_id uuids = Some body"
    and "length uuids < 32768" and "length packed \<le> 10000000"
  shows "map_sum id gateway_sent (handler_in_gateway body g) =
    Inr (gateway_sent g @ delivered (le_short respon_id @ packed) uuids g)"
proof -
  let ?n = "length uuids" and ?m = "le_short respon_id @ packed"
  have body: "body = le_short (int ?n) @ concat (map le_u32 uuids) @ ?m"
    using assms(1) by (auto simp: SendToPlayerList_def split: if_splits)
  have n: "short_le body = int ?n"
    using assms(2) by (simp add: body to_short_id)
  have len: "int (length body) - (2 + 4 * int ?n) = 2 + int (length packed)" by (simp add: body)
  have small: "(2 + int (length packed)) mod 2 ^ 64 = 2 + int (length packed)"
    using assms(3) by (intro mod_pos_pos_trivial) simp_all
  have rest: "drop (nat (2 + 4 * int ?n)) body = ?m"
    by (simp add: body nat_add_distrib nat_mult_distrib)
  have "map (uuid_at body) [0..<?n] = uuids"
    by (rule nth_equalityI) (simp_all add: uuid_at_def body concat_le_u32)
  then have "handler_in_gateway body g = Inr (fold (send_to_player ?m) uuids g)"
    using assms(3) n small rest by (simp add: handler_in_gateway_def Let_def len body)
  then show ?thesis by (simp add: fold_send_to_player)
qed

definition two_players :: gateway where
  "two_players = \<lparr>UuidHandlerPoitiner = [7 \<mapsto> Some 1, 9 \<mapsto> Some 2], gateway_sent = []\<rparr>"

theorem answers_reach_players_witness:
  "map_sum id gateway_sent (handler_in_gateway
      (le_short 3 @ le_u32 9 @ le_u32 8 @ le_u32 7 @ le_short 1034 @ ''xy'') two_players) =
    Inr ([] @ delivered (le_short 1034 @ ''xy'') [9, 8, 7] two_players) \<and>
   delivered (le_short 1034 @ ''xy'') [9, 8, 7] two_players = [(2, le_short 1034 @ ''xy''), (1, le_short 1034 @ ''xy'')]"
proof -
  have "SendToPlayerList ''xy'' 1034 [9, 8, 7] =
      Some (le_short 3 @ le_u32 9 @ le_u32 8 @ le_u32 7 @ le_short 1034 @ ''xy'')"
    by (simp add: SendToPlayerList_def)
  from answers_reach_players [OF this, of two_players] show ?thesis
    by (simp add: two_players_def delivered_def map_filter_def)
qed

text \<open>
  The count wraps. An answer for 32768 to 65535 players is no answer: read back as
  a \<open>short\<close> their number is negative, and the gateway copies memory from before the
  message.
\<close>

theorem many_players_crash_gateway:
  assumes "SendToPlayerList packed respon_id uuids = Some body"
    and "32768 \<le> length uuids" and "length uuids < 65536" and "length packed \<le> 9000000"
  shows "handler_in_gateway body g = Inl OutOfRange"
proof -
  let ?n = "int (length uuids)"
  have body: "body = le_short ?n @ concat (map le_u32 uuids) @ le_short respon_id @ packed"
    using assms(1) by (auto simp: SendToPlayerList_def split: if_splits)
  have "(?n + 32768) mod 65536 = ?n - 32768"
  proof -
    have "?n + 32768 = (?n - 32768) + 65536" by simp
    then have "(?n + 32768) mod 65536 = (?n - 32768) mod 65536" by (simp only: mod_add_self2)
    then show ?thesis using assms(2,3) by simp
  qed
  then have n: "short_le body = ?n - 65536" by (simp add: body wrap_signed_def)
  have "(int (length body) - (2 + 4 * (?n - 65536))) mod 2 ^ 64 = int (length body) - (2 + 4 * (?n - 65536))"
    using assms(3,4) by (intro mod_pos_pos_trivial) (simp_all add: body)
  moreover have "int (length body) - (2 + 4 * (?n - 65536)) \<le> 10240000" using assms(4) by (simp add: body)
  moreover have "2 + 4 * (?n - 65536) < 0" using assms(3) by simp
  ultimately show ?thesis using n by (simp add: handler_in_gateway_def Let_def body)
qed

theorem many_players_crash_gateway_witness:
  "handler_in_gateway (the (SendToPlayerList [] 1034 (replicate 40000 7))) two_players = Inl OutOfRange"
  by (rule many_players_crash_gateway [where uuids = "replicate 40000 7" and packed = "[]" and respon_id = 1034])
    (simp_all add: SendToPlayerList_def)

end
