(* ===== verification/Small_Map.thy ===== *)
theory Small_Map
  imports Army_Queue Worker_Frames
begin

section \<open>SmallMapBase: the worker of the camps\<close>

text \<open>
  Models \<open>workers/small_map_worker/_small_map.cpp\<close> and the class
  \<open>ArmysBuildQueueManager\<close> of \<open>_army_build_queue_manager.cpp\<close>: the table of the
  players' queues, the services, and \<open>process\<close>, which takes a request of the gateway
  apart and calls the service. The queues are objects on the heap, as the handlers of
  their timers keep a plain pointer (\<open>this\<close>) to them.
\<close>

record small_manager =
  m_uid2buildqueue :: "int \<Rightarrow> nat option"
  objects :: "nat \<Rightarrow> army option"
  next_object :: nat

definition ArmysBuildQueueManager :: small_manager where
  "ArmysBuildQueueManager = \<lparr>m_uid2buildqueue = Map.empty, objects = Map.empty, next_object = 0\<rparr>"

record soldier_request =
  req_type :: int
  req_level :: int
  req_num :: int
  req_camp :: string
  req_operation :: int

text \<open>
  msgpack is not part of the program: \<open>unpack\<close> of the bytes, and the structures after
  \<open>MsgpackConvert\<close>, whose failure the services ignore, are parameters.
\<close>

record 'o msgpack =
  unpack :: "string \<Rightarrow> 'o option"
  soldier_of :: "'o \<Rightarrow> soldier_request"
  camps_of :: "'o \<Rightarrow> (string \<times> string) list"
  complete_of :: "'o \<Rightarrow> string \<times> int"

datatype worker_message =
    To_player u32 army_message
  | Raw string

subsection \<open>The table of the queues\<close>

definition findUid :: "'c small_map \<Rightarrow> int \<Rightarrow> u32 \<Rightarrow> small_manager \<Rightarrow> ('c, small_manager \<times> nat) db" where
  "findUid sm now uid m =
     (case m_uid2buildqueue m (sint uid) of
        Some p \<Rightarrow> db_return (m, p)
      | None \<Rightarrow>
          db_bind (ArmysBuildQueue sm now (sint uid)) (\<lambda>abq. let p = next_object m in
            db_return (m\<lparr>m_uid2buildqueue := (m_uid2buildqueue m)(sint uid \<mapsto> p),
                         objects := (objects m)(p \<mapsto> abq), next_object := Suc p\<rparr>, p)))"

text \<open>An operation of a queue object; what it sends goes to the player of the object.\<close>

definition on_object ::
  "nat \<Rightarrow> (army \<Rightarrow> ('c, army \<times> army_message list) db) \<Rightarrow> small_manager \<Rightarrow> ('c, small_manager \<times> worker_message list) db" where
  "on_object p f m =
     (case objects m p of
        None \<Rightarrow> db_lift (Inl UseAfterFree)
      | Some a \<Rightarrow> db_bind (f a) (\<lambda>(a', out).
          db_return (m\<lparr>objects := (objects m)(p \<mapsto> a')\<rparr>, map (To_player (word_of_int (m_uid a))) out)))"

text \<open>Erasing the last shared pointer runs the destructor.\<close>

definition deleteUid :: "'c small_map \<Rightarrow> u32 \<Rightarrow> small_manager \<Rightarrow> ('c, small_manager \<times> bool) db" where
  "deleteUid sm uid m =
     (case m_uid2buildqueue m (sint uid) of
        None \<Rightarrow> db_return (m, False)
      | Some p \<Rightarrow>
          (case objects m p of
             None \<Rightarrow> db_lift (Inl UseAfterFree)
           | Some a \<Rightarrow> db_bind (delete_ArmysBuildQueue sm a) (\<lambda>_.
               db_return (m\<lparr>m_uid2buildqueue := (m_uid2buildqueue m)(sint uid := None),
                            objects := (objects m)(p := None)\<rparr>, True))))"

definition uidOnline :: "'c small_map \<Rightarrow> int \<Rightarrow> u32 \<Rightarrow> small_manager \<Rightarrow> ('c, small_manager \<times> worker_message list) db" where
  "uidOnline sm now uid m =
     db_bind (findUid sm now uid m) (\<lambda>(m1, p).
       on_object p (\<lambda>a. db_bind (getCampInfo sm now a) (\<lambda>out1.
         db_bind (getBuildedSoldiersInfo sm a) (\<lambda>out2. db_return (a, out1 @ out2)))) m1)"

definition uidOffline :: "'c small_map \<Rightarrow> u32 \<Rightarrow> small_manager \<Rightarrow> ('c, small_manager \<times> worker_message list) db" where
  "uidOffline sm uid m = db_bind (deleteUid sm uid m) (\<lambda>(m', _). db_return (m', []))"

definition requestProcess ::
  "'c small_map \<Rightarrow> int \<Rightarrow> u32 \<Rightarrow> soldier_request \<Rightarrow> small_manager \<Rightarrow> ('c, small_manager \<times> worker_message list) db" where
  "requestProcess sm now uid info m =
     db_bind (findUid sm now uid m) (\<lambda>(m1, p).
       on_object p (\<lambda>a.
         if req_operation info = operation_code ADD
         then addSoldiers sm now (req_type info) (req_level info) (req_num info) (req_camp info) a
         else if req_operation info = operation_code DEL
         then delSoliders sm now (req_type info) (req_level info) (req_num info) (req_camp info) a
         else db_return (a, [])) m1)"

fun change_camps :: "'c small_map \<Rightarrow> u32 \<Rightarrow> (string \<times> string) list \<Rightarrow> ('c, unit) db" where
  "change_camps sm player_uuid [] = db_return ()"
| "change_camps sm player_uuid ((sid, uuid) # rest) =
     db_bind (if uuid = [] then cancelDfdSoldier (redis_of sm) (sint player_uuid) sid
              else setDfdSoldier (redis_of sm) (sint player_uuid) sid uuid)
       (\<lambda>_. change_camps sm player_uuid rest)"

definition changeSoldierCampRequest ::
  "'c small_map \<Rightarrow> u32 \<Rightarrow> (string \<times> string) list \<Rightarrow> small_manager \<Rightarrow> ('c, small_manager \<times> worker_message list) db" where
  "changeSoldierCampRequest sm player_uuid req m =
     db_bind (change_camps sm player_uuid req) (\<lambda>_. db_return (m, []))"

definition completeAtOnceRequest ::
  "'c small_map \<Rightarrow> int \<Rightarrow> u32 \<Rightarrow> string \<times> int \<Rightarrow> small_manager \<Rightarrow> ('c, small_manager \<times> worker_message list) db" where
  "completeAtOnceRequest sm now player_uuid req m =
     db_bind (findUid sm now player_uuid m) (\<lambda>(m1, p). on_object p (completeAtOnce sm now (fst req)) m1)"

text \<open>The handler of a timer, bound to the queue it was started for.\<close>

definition timer_handler ::
  "'c small_map \<Rightarrow> bool \<Rightarrow> nat \<Rightarrow> string \<Rightarrow> small_manager \<Rightarrow> ('c, small_manager \<times> worker_message list) db" where
  "timer_handler sm err p which_camp m =
     (if err then db_return (m, []) else on_object p (timeIsUp sm False which_camp) m)"

subsection \<open>Services\<close>

datatype small_service = Login | Logout | ProcessSoldiers | ChangeSoldierCamp | CompleteAtOnce

definition register_all_service :: "small_service list" where
  "register_all_service = [Login, Logout, ProcessSoldiers, ChangeSoldierCamp, CompleteAtOnce]"

definition services_len :: int where
  "services_len = 4"

text \<open>The object of a request; login and logout have none.\<close>

definition call_service ::
  "'c small_map \<Rightarrow> 'o msgpack \<Rightarrow> int \<Rightarrow> small_service \<Rightarrow> 'o option \<Rightarrow> u32 \<Rightarrow> small_manager \<Rightarrow>
     ('c, small_manager \<times> worker_message list) db" where
  "call_service sm mp now sv request player_uuid m =
     (case (sv, request) of
        (Login, _) \<Rightarrow> uidOnline sm now player_uuid m
      | (Logout, _) \<Rightarrow> uidOffline sm player_uuid m
      | (ProcessSoldiers, Some r) \<Rightarrow> requestProcess sm now player_uuid (soldier_of mp r) m
      | (ChangeSoldierCamp, Some r) \<Rightarrow> changeSoldierCampRequest sm player_uuid (camps_of mp r) m
      | (CompleteAtOnce, Some r) \<Rightarrow> completeAtOnceRequest sm now player_uuid (complete_of mp r) m
      | _ \<Rightarrow> db_lift (Inl NullPointer))"

definition dispatch_func ::
  "'c small_map \<Rightarrow> 'o msgpack \<Rightarrow> int \<Rightarrow> int \<Rightarrow> 'o option \<Rightarrow> u32 \<Rightarrow> small_manager \<Rightarrow> ('c, small_manager \<times> worker_message list) db" where
  "dispatch_func sm mp now index request player_uuid m =
     (if index < 0 \<or> services_len < index then db_return (m, [])
      else call_service sm mp now (register_all_service ! nat index) request player_uuid m)"

definition unpack_error :: string where
  "unpack_error = ''unpack error or out of array'' @ CHR 0x00 # '' limit'' @ [CHR 0x00]"

definition process ::
  "'c small_map \<Rightarrow> 'o msgpack \<Rightarrow> int \<Rightarrow> string \<Rightarrow> small_manager \<Rightarrow> ('c, small_manager \<times> worker_message list) db" where
  "process sm mp now data m =
     (case parse_request data of
        Inl e \<Rightarrow> db_lift (Inl e)
      | Inr (player_uuid, message_id, packed) \<Rightarrow>
          if message_id = LoginRequest_ID then dispatch_func sm mp now 0 None player_uuid m
          else if message_id = LogoutRequest_ID then dispatch_func sm mp now 1 None player_uuid m
          else case unpack mp packed of
            None \<Rightarrow> db_return (m, [Raw unpack_error])
          | Some request \<Rightarrow>
              dispatch_func sm mp now (message_id - SoldierInfoRequest_ID + 2) (Some request) player_uuid m)"

subsection \<open>Requests reach the queues\<close>

text \<open>
  C21. What a player asks for is done to his own queues. A client's message, framed by
  the gateway and taken apart by the worker, calls the operation that its id stands for
  with the number of the player it came from and the request that was packed; any other
  id after these changes nothing.
\<close>

theorem request_reaches_queue:
  assumes "unpack mp packed = Some r"
  shows "process sm mp now (request_body uuid (le_short SoldierInfoRequest_ID @ packed)) m =
      requestProcess sm now uuid (soldier_of mp r) m \<and>
    process sm mp now (request_body uuid (le_short ChangeSoldierCampRequest_ID @ packed)) m =
      changeSoldierCampRequest sm uuid (camps_of mp r) m \<and>
    process sm mp now (request_body uuid (le_short CompleteAtOnceRequest_ID @ packed)) m =
      completeAtOnceRequest sm now uuid (complete_of mp r) m \<and>
    process sm mp now (request_body uuid (le_short (CompleteAtOnceRequest_ID + 1) @ packed)) m = db_return (m, [])"
  using assms
  by (simp add: process_def parse_request_body to_short_id request_ids dispatch_func_def services_len_def
      call_service_def register_all_service_def)

definition example_msgpack :: "string msgpack" where
  "example_msgpack = \<lparr>unpack = (\<lambda>s. if s = [] then None else Some s),
     soldier_of = (\<lambda>_. \<lparr>req_type = 1, req_level = 1, req_num = 3, req_camp = ''1'', req_operation = 1\<rparr>),
     camps_of = (\<lambda>_. [(''4'', ''1'')]), complete_of = (\<lambda>_. (''1'', 5))\<rparr>"

theorem request_reaches_queue_witness:
  "process example_map example_msgpack 100 (request_body 7 (le_short SoldierInfoRequest_ID @ ''x'')) ArmysBuildQueueManager =
      requestProcess example_map 100 7 (soldier_of example_msgpack ''x'') ArmysBuildQueueManager \<and>
    process example_map example_msgpack 100 (request_body 7 (le_short ChangeSoldierCampRequest_ID @ ''x'')) ArmysBuildQueueManager =
      changeSoldierCampRequest example_map 7 (camps_of example_msgpack ''x'') ArmysBuildQueueManager \<and>
    process example_map example_msgpack 100 (request_body 7 (le_short CompleteAtOnceRequest_ID @ ''x'')) ArmysBuildQueueManager =
      completeAtOnceRequest example_map 100 7 (complete_of example_msgpack ''x'') ArmysBuildQueueManager \<and>
    process example_map example_msgpack 100 (request_body 7 (le_short (CompleteAtOnceRequest_ID + 1) @ ''x''))
      ArmysBuildQueueManager = db_return (ArmysBuildQueueManager, [])"
  by (rule request_reaches_queue) (simp add: example_msgpack_def)

subsection \<open>Every player has one queue object\<close>

lemma m_uid_registerTime: "registerTime sm k b secs a = Inr a' \<Longrightarrow> m_uid a' = m_uid a"
  by (erule registerTime_cases) simp_all

lemma m_uid_cancelTimer [simp]: "m_uid (cancelTimer k a) = m_uid a"
  by (simp add: cancelTimer_def split: option.splits)

lemma m_uid_addSoldiers: "addSoldiers sm now ty lv num k a c = Inr ((a', out), c') \<Longrightarrow> m_uid a' = m_uid a"
  by (auto simp: addSoldiers_def Let_def db_bind_eq_Inr dest!: m_uid_registerTime
      split: option.splits if_splits)

lemma m_uid_delSoliders:
  assumes "delSoliders sm now ty lv num k a c = Inr ((a', out), c')"
  shows "m_uid a' = m_uid a"
proof (cases "arms_at sm ty lv")
  case None
  with assms show ?thesis by (simp add: delSoliders_def)
next
  case x: (Some x)
  show ?thesis
  proof (cases "map_of (camp_queue a) k")
    case None
    with assms x show ?thesis by (auto simp: delSoliders_def db_bind_eq_Inr)
  next
    case q: (Some q)
    show ?thesis
    proof (cases "armys_queue q")
      case Nil
      with assms x q show ?thesis by (simp add: delSoliders_def)
    next
      case (Cons s ss)
      show ?thesis
      proof (cases "soldier_type s = ty \<and> lv = soldier_level s")
        case first: True
        show ?thesis
        proof (cases "soldier_num s - num \<le> 0")
          case True
          with assms x q Cons first obtain a1 where "registerTime sm k (Some now) 0 a1 = Inr a'" "m_uid a1 = m_uid a"
            by (fastforce simp: delSoliders_def Let_def db_bind_eq_Inr)
          then show ?thesis using m_uid_registerTime by metis
        next
          case False
          with assms x q Cons first show ?thesis
            by (auto simp: delSoliders_def Let_def db_bind_eq_Inr)
        qed
      next
        case False
        with assms x q Cons show ?thesis
          by (cases "del_from_order ty lv num (s # ss)")
            (auto simp del: del_from_order.simps simp: delSoliders_def Let_def db_bind_eq_Inr split: if_splits)
      qed
    qed
  qed
qed

lemma m_uid_timeIsUp: "timeIsUp sm err k a c = Inr ((a', out), c') \<Longrightarrow> m_uid a' = m_uid a"
  by (auto simp: timeIsUp_def Let_def db_bind_eq_Inr dest!: m_uid_registerTime
      split: option.splits if_splits list.splits)

lemma m_uid_completeAtOnce: "completeAtOnce sm now k a c = Inr ((a', out), c') \<Longrightarrow> m_uid a' = m_uid a"
  by (auto simp: completeAtOnce_def Let_def db_bind_eq_Inr split: option.splits if_splits)

lemma m_uid_restore_order:
  assumes "restore_order sm now k ty lv num (a, d, td) c = Inr ((a', st), c')"
  shows "m_uid a' = m_uid a"
proof (cases "d \<or> num < 0")
  case True
  with assms show ?thesis by (cases d) (auto simp: restore_order_def db_bind_eq_Inr)
next
  case False
  with assms obtain x :: arms and q td' num' stop c1 where
    "build_offline sm (m_uid a) ty lv (build_time x) num td c = Inr ((td', num', stop), c1)"
    and r: "(let q1 = (if num' = num then q else q\<lparr>is_block := False\<rparr>); q2 = queue_push_back ty lv num' q1 in
           case stop of
             None \<Rightarrow> db_return (set_camp k q1 a, False, td')
           | Some timed \<Rightarrow>
               if timed then
                 db_bind (db_lift (registerTime sm k (Some (now - td')) 0 (set_camp k q2 a)))
                   (\<lambda>a'. db_return (a', True, td'))
               else db_return (set_camp k (q2\<lparr>is_block := True\<rparr>) a, True, td')) c1 = Inr ((a', st), c')"
    by (simp add: restore_order_def db_bind_eq_Inr) (elim exE conjE, rule that, assumption+)
  from r show ?thesis
    by (cases stop) (auto simp: Let_def db_bind_eq_Inr simp del: if_split_asm dest!: m_uid_registerTime split: if_split_asm)
qed

lemma m_uid_restore_orders:
  "restore_orders sm now k orders (a, st) c = Inr ((a', st'), c') \<Longrightarrow> m_uid a' = m_uid a"
proof (induction orders arbitrary: a st c)
  case (Cons order orders)
  show ?case
  proof (cases "\<exists>t l n. split_hash order = [t, l, n] \<and> to_short (atoi t) \<noteq> 0 \<and> to_short (atoi l) \<noteq> 0 \<and> to_short (atoi n) \<noteq> 0")
    case True
    with Cons.prems show ?thesis
      by (cases st) (fastforce simp: db_bind_eq_Inr Let_def dest: m_uid_restore_order Cons.IH)
  next
    case False
    with Cons.prems have "restore_orders sm now k orders (a, st) c = Inr ((a', st'), c')"
      by (auto simp: Let_def split: list.splits if_splits)
    then show ?thesis by (rule Cons.IH)
  qed
qed simp

lemma m_uid_newTimerQueue: "newTimerQueueFromRedis sm now key info a c = Inr (a', c') \<Longrightarrow> m_uid a' = m_uid a"
  by (fastforce simp: newTimerQueueFromRedis_def Let_def db_bind_eq_Inr dest!: m_uid_registerTime m_uid_restore_orders
      split: option.splits if_splits)

lemma m_uid_restore_camps: "restore_camps sm now keys a c = Inr (a', c') \<Longrightarrow> m_uid a' = m_uid a"
  by (induction keys arbitrary: a c)
    (fastforce simp: db_bind_eq_Inr dest: m_uid_newTimerQueue split: option.splits)+

lemma m_uid_ArmysBuildQueue: "ArmysBuildQueue sm now uid c = Inr (a, c') \<Longrightarrow> m_uid a = uid"
  by (auto simp: ArmysBuildQueue_def db_bind_eq_Inr dest!: m_uid_restore_camps split: option.splits)

definition small_inv :: "'c small_map \<Rightarrow> small_manager \<Rightarrow> bool" where
  "small_inv sm m \<longleftrightarrow>
     (\<forall>u p. m_uid2buildqueue m u = Some p \<longrightarrow> (\<exists>a. objects m p = Some a \<and> army_run sm a \<and> m_uid a = u)) \<and>
     (\<forall>p a. objects m p = Some a \<longrightarrow> m_uid2buildqueue m (m_uid a) = Some p) \<and>
     (\<forall>p. next_object m \<le> p \<longrightarrow> objects m p = None)"

lemma small_inv_start: "small_inv sm ArmysBuildQueueManager"
  by (simp add: small_inv_def ArmysBuildQueueManager_def)

lemma small_inv_table:
  "small_inv sm m \<Longrightarrow> m_uid2buildqueue m u = Some p \<Longrightarrow> \<exists>a. objects m p = Some a \<and> army_run sm a \<and> m_uid a = u"
  by (simp add: small_inv_def)

lemma small_inv_object: "small_inv sm m \<Longrightarrow> objects m p = Some a \<Longrightarrow> m_uid2buildqueue m (m_uid a) = Some p"
  by (simp add: small_inv_def)

lemma small_inv_next: "small_inv sm m \<Longrightarrow> next_object m \<le> p \<Longrightarrow> objects m p = None"
  by (simp add: small_inv_def)

lemma small_invI:
  assumes "\<And>u p. m_uid2buildqueue m u = Some p \<Longrightarrow> \<exists>a. objects m p = Some a \<and> army_run sm a \<and> m_uid a = u"
    and "\<And>p a. objects m p = Some a \<Longrightarrow> m_uid2buildqueue m (m_uid a) = Some p"
    and "\<And>p. next_object m \<le> p \<Longrightarrow> objects m p = None"
  shows "small_inv sm m"
  using assms by (simp add: small_inv_def)

text \<open>The queues of a player, if he has any.\<close>

definition queue_of :: "small_manager \<Rightarrow> int \<Rightarrow> army option" where
  "queue_of m u = (case m_uid2buildqueue m u of None \<Rightarrow> None | Some p \<Rightarrow> objects m p)"

definition others_keep :: "int \<Rightarrow> small_manager \<Rightarrow> small_manager \<Rightarrow> bool" where
  "others_keep uid m m' \<longleftrightarrow> (\<forall>u. u \<noteq> uid \<longrightarrow> queue_of m' u = queue_of m u)"

definition only_to :: "u32 \<Rightarrow> worker_message list \<Rightarrow> bool" where
  "only_to uid out \<longleftrightarrow> list_all (\<lambda>x. case x of To_player u _ \<Rightarrow> u = uid | Raw _ \<Rightarrow> True) out"

lemma others_keep_refl [simp]: "others_keep uid m m"
  by (simp add: others_keep_def)

lemma others_keep_trans: "others_keep uid m m1 \<Longrightarrow> others_keep uid m1 m2 \<Longrightarrow> others_keep uid m m2"
  by (simp add: others_keep_def)

lemma findUid_ok:
  assumes "findUid sm now uid m c = Inr ((m', p), c')" and "small_inv sm m"
  shows "small_inv sm m' \<and> others_keep (sint uid) m m' \<and> m_uid2buildqueue m' (sint uid) = Some p"
proof (cases "m_uid2buildqueue m (sint uid)")
  case (Some p')
  with assms show ?thesis by (simp add: findUid_def)
next
  case None
  with assms(1) obtain a c1 where a: "ArmysBuildQueue sm now (sint uid) c = Inr (a, c1)"
    and m': "m' = m\<lparr>m_uid2buildqueue := (m_uid2buildqueue m)(sint uid \<mapsto> p),
        objects := (objects m)(p \<mapsto> a), next_object := Suc p\<rparr>" and p: "p = next_object m"
    by (auto simp: findUid_def db_bind_eq_Inr Let_def)
  have uid: "m_uid a = sint uid" using a by (rule m_uid_ArmysBuildQueue)
  have fresh: "p' \<noteq> p" if "m_uid2buildqueue m u = Some p'" for u p'
    using small_inv_table [OF assms(2) that] assms(2) p by (auto simp: small_inv_def)
  have other: "m_uid b \<noteq> sint uid" if "objects m p' = Some b" for p' b
    using small_inv_object [OF assms(2) that] None by auto
  have "small_inv sm m'"
  proof (rule small_invI)
    show "\<exists>b. objects m' p' = Some b \<and> army_run sm b \<and> m_uid b = u" if "m_uid2buildqueue m' u = Some p'" for u p'
      using that army_run.created [OF a] uid m' fresh [of u p'] small_inv_table [OF assms(2), of u p']
      by (cases "u = sint uid") auto
    show "m_uid2buildqueue m' (m_uid b) = Some p'" if "objects m' p' = Some b" for p' b
      using that uid m' other [of p' b] small_inv_object [OF assms(2), of p' b] by (cases "p' = p") auto
    show "objects m' p' = None" if "next_object m' \<le> p'" for p'
      using that m' p small_inv_next [OF assms(2), of p'] by simp
  qed
  moreover have "others_keep (sint uid) m m'"
    using fresh by (auto simp: others_keep_def queue_of_def m' split: option.splits)
  ultimately show ?thesis using m' by simp
qed

lemma on_object_ok:
  assumes "on_object p f m c = Inr ((m', out), c')" and "small_inv sm m"
    and "m_uid2buildqueue m u = Some p"
    and "\<And>a a' out c c'. army_run sm a \<Longrightarrow> f a c = Inr ((a', out), c') \<Longrightarrow> army_run sm a' \<and> m_uid a' = m_uid a"
  shows "small_inv sm m' \<and> others_keep u m m' \<and> only_to (word_of_int u) out"
proof -
  obtain a where a: "objects m p = Some a" "army_run sm a" "m_uid a = u"
    using small_inv_table [OF assms(2,3)] by blast
  with assms(1) obtain a' out1 where f: "f a c = Inr ((a', out1), c')"
    and m': "m' = m\<lparr>objects := (objects m)(p \<mapsto> a')\<rparr>" and out: "out = map (To_player (word_of_int (m_uid a))) out1"
    by (auto simp: on_object_def db_bind_eq_Inr)
  have a': "army_run sm a'" "m_uid a' = u" using assms(4) [OF a(2) f] a(3) by simp_all
  have owner: "v = u" if "m_uid2buildqueue m v = Some p" for v
    using small_inv_table [OF assms(2) that] a by auto
  have "small_inv sm m'"
  proof (rule small_invI)
    show "\<exists>b. objects m' p' = Some b \<and> army_run sm b \<and> m_uid b = v" if "m_uid2buildqueue m' v = Some p'" for v p'
      using that a' m' owner [of v] small_inv_table [OF assms(2), of v p'] by (cases "p' = p") auto
    show "m_uid2buildqueue m' (m_uid b) = Some p'" if "objects m' p' = Some b" for p' b
      using that a' m' assms(3) small_inv_object [OF assms(2), of p' b] by (cases "p' = p") auto
    show "objects m' p' = None" if "next_object m' \<le> p'" for p'
      using that m' a(1) small_inv_next [OF assms(2), of p'] by auto
  qed
  moreover have "others_keep u m m'"
    using owner by (auto simp: others_keep_def queue_of_def m' split: option.splits)
  moreover have "only_to (word_of_int u) out" by (simp add: only_to_def out a(3) list_all_iff)
  ultimately show ?thesis by simp
qed

lemma deleteUid_ok:
  assumes "deleteUid sm uid m c = Inr ((m', found), c')" and "small_inv sm m"
  shows "small_inv sm m' \<and> others_keep (sint uid) m m' \<and> m_uid2buildqueue m' (sint uid) = None \<and>
    (\<forall>p. m_uid2buildqueue m (sint uid) = Some p \<longrightarrow> objects m' p = None)"
proof (cases "m_uid2buildqueue m (sint uid)")
  case None
  with assms show ?thesis by (simp add: deleteUid_def)
next
  case (Some p)
  obtain a where a: "objects m p = Some a" "m_uid a = sint uid"
    using small_inv_table [OF assms(2) Some] by blast
  with assms(1) Some have m': "m' = m\<lparr>m_uid2buildqueue := (m_uid2buildqueue m)(sint uid := None),
      objects := (objects m)(p := None)\<rparr>"
    by (auto simp: deleteUid_def db_bind_eq_Inr)
  have owner: "u = sint uid" if "m_uid2buildqueue m u = Some p" for u
    using small_inv_table [OF assms(2) that] a by auto
  have "small_inv sm m'"
  proof (rule small_invI)
    show "\<exists>b. objects m' p' = Some b \<and> army_run sm b \<and> m_uid b = u" if "m_uid2buildqueue m' u = Some p'" for u p'
      using that m' owner [of u] small_inv_table [OF assms(2), of u p'] by (cases "u = sint uid") auto
    show "m_uid2buildqueue m' (m_uid b) = Some p'" if "objects m' p' = Some b" for p' b
      using that m' Some small_inv_object [OF assms(2), of p' b] by (cases "m_uid b = sint uid"; cases "p' = p") auto
    show "objects m' p' = None" if "next_object m' \<le> p'" for p'
      using that m' small_inv_next [OF assms(2), of p'] by auto
  qed
  moreover have "others_keep (sint uid) m m'"
    using owner by (auto simp: others_keep_def queue_of_def m' split: option.splits)
  ultimately show ?thesis using m' Some by simp
qed

lemma then_on_object:
  assumes "db_bind (findUid sm now uid m) (\<lambda>(m1, p). on_object p f m1) c = Inr ((m', out), c')" and "small_inv sm m"
    and "\<And>a a' out c c'. army_run sm a \<Longrightarrow> f a c = Inr ((a', out), c') \<Longrightarrow> army_run sm a' \<and> m_uid a' = m_uid a"
  shows "small_inv sm m' \<and> others_keep (sint uid) m m' \<and> only_to uid out"
proof -
  from assms(1) obtain m1 p c1 where f: "findUid sm now uid m c = Inr ((m1, p), c1)"
    and o: "on_object p f m1 c1 = Inr ((m', out), c')"
    by (auto simp: db_bind_eq_Inr)
  from findUid_ok [OF f assms(2)] have
    m1: "small_inv sm m1" "others_keep (sint uid) m m1" "m_uid2buildqueue m1 (sint uid) = Some p" by simp_all
  from on_object_ok [OF o m1(1,3) assms(3)] m1(2) show ?thesis
    by (auto intro: others_keep_trans)
qed

lemma call_service_ok:
  assumes "call_service sm mp now sv request uid m c = Inr ((m', out), c')" and "small_inv sm m"
  shows "small_inv sm m' \<and> others_keep (sint uid) m m' \<and> only_to uid out"
proof (cases sv)
  case Login
  then have "db_bind (findUid sm now uid m) (\<lambda>(m1, p). on_object p (\<lambda>a. db_bind (getCampInfo sm now a) (\<lambda>out1.
         db_bind (getBuildedSoldiersInfo sm a) (\<lambda>out2. db_return (a, out1 @ out2)))) m1) c = Inr ((m', out), c')"
    using assms(1) by (simp add: call_service_def uidOnline_def)
  then show ?thesis by (rule then_on_object) (use assms(2) in \<open>auto simp: db_bind_eq_Inr\<close>)
next
  case Logout
  with assms(1) obtain found where "deleteUid sm uid m c = Inr ((m', found), c')" and "out = []"
    by (auto simp: call_service_def uidOffline_def db_bind_eq_Inr)
  from deleteUid_ok [OF this(1) assms(2)] this(2) show ?thesis by (simp add: only_to_def)
next
  case ProcessSoldiers
  with assms(1) obtain r where "requestProcess sm now uid (soldier_of mp r) m c = Inr ((m', out), c')"
    by (cases request) (auto simp: call_service_def db_lift_def)
  then show ?thesis
    unfolding requestProcess_def
    by (rule then_on_object)
      (use assms(2) in \<open>auto split: if_splits intro: army_run.intros dest: m_uid_addSoldiers m_uid_delSoliders\<close>)
next
  case ChangeSoldierCamp
  with assms show ?thesis
    by (cases request) (auto simp: call_service_def db_lift_def changeSoldierCampRequest_def db_bind_eq_Inr only_to_def)
next
  case CompleteAtOnce
  with assms(1) obtain r where "completeAtOnceRequest sm now uid (complete_of mp r) m c = Inr ((m', out), c')"
    by (cases request) (auto simp: call_service_def db_lift_def)
  then show ?thesis
    unfolding completeAtOnceRequest_def
    by (rule then_on_object) (use assms(2) in \<open>auto intro: army_run.completed dest: m_uid_completeAtOnce\<close>)
qed

lemma process_ok:
  assumes "process sm mp now data m c = Inr ((m', out), c')" and "small_inv sm m"
    and "parse_request data = Inr (uid, i, packed)"
  shows "small_inv sm m' \<and> others_keep (sint uid) m m' \<and> only_to uid out"
proof (cases "m' = m \<and> (out = [] \<or> out = [Raw unpack_error])")
  case True
  with assms(2) show ?thesis by (auto simp: only_to_def)
next
  case False
  with assms(1,3) obtain sv request where "call_service sm mp now sv request uid m c = Inr ((m', out), c')"
    by (auto simp: process_def dispatch_func_def Let_def split: if_splits option.splits)
  from call_service_ok [OF this assms(2)] show ?thesis .
qed

text \<open>The worker's life: requests of any players, and timers that fire or are cancelled.\<close>

inductive small_run :: "'c small_map \<Rightarrow> 'o msgpack \<Rightarrow> small_manager \<Rightarrow> bool" for sm :: "'c small_map" and mp :: "'o msgpack" where
  start: "small_run sm mp ArmysBuildQueueManager"
| request: "small_run sm mp m \<Longrightarrow> process sm mp now data m c = Inr ((m', out), c') \<Longrightarrow> small_run sm mp m'"
| timer: "small_run sm mp m \<Longrightarrow> timer_handler sm err p which_camp m c = Inr ((m', out), c') \<Longrightarrow> small_run sm mp m'"

lemma small_run_inv: "small_run sm mp m \<Longrightarrow> small_inv sm m"
proof (induction rule: small_run.induct)
  case start
  show ?case by (rule small_inv_start)
next
  case (request m now data c m' out c')
  then obtain uid i packed where "parse_request data = Inr (uid, i, packed)"
    by (cases "parse_request data") (auto simp: process_def db_lift_def)
  from process_ok [OF request.hyps(2) request.IH this] show ?case by simp
next
  case (timer m err p which_camp c m' out c')
  show ?case
  proof (cases "err \<or> objects m p = None")
    case True
    with timer show ?thesis by (auto simp: timer_handler_def on_object_def db_lift_def split: if_splits)
  next
    case False
    then obtain a where a: "objects m p = Some a" and err: "\<not> err" by auto
    from timer err have "on_object p (timeIsUp sm False which_camp) m c = Inr ((m', out), c')"
      by (simp add: timer_handler_def)
    from on_object_ok [OF this timer.IH small_inv_object [OF timer.IH a]] show ?thesis
      by (auto intro: army_run.fired dest: m_uid_timeIsUp)
  qed
qed

subsection \<open>Players do not meet\<close>

text \<open>
  Players are kept apart. Whatever message a client sends, the worker changes the
  queues of its player only, answers nobody else, and keeps one queue object for each
  player in its table.
\<close>

theorem requests_touch_own_queues:
  assumes "small_run sm mp m" and "process sm mp now (request_body uuid (le_short i @ packed)) m c = Inr ((m', out), c')"
  shows "(\<forall>u. u = sint uuid \<or> queue_of m' u = queue_of m u) \<and> only_to uuid out \<and> small_inv sm m'"
  using process_ok [OF assms(2) small_run_inv [OF assms(1)] parse_request_body]
  by (auto simp: others_keep_def)

definition login_of :: "u32 \<Rightarrow> small_manager \<Rightarrow> nat \<Rightarrow> crash + (small_manager \<times> worker_message list) \<times> nat" where
  "login_of uuid m = process example_map example_msgpack 100 (request_body uuid (le_short LoginRequest_ID)) m"

definition order_of :: "u32 \<Rightarrow> small_manager \<Rightarrow> nat \<Rightarrow> crash + (small_manager \<times> worker_message list) \<times> nat" where
  "order_of uuid m = process example_map example_msgpack 100 (request_body uuid (le_short SoldierInfoRequest_ID @ ''x'')) m"

lemma example_sessions:
  "is_ok (bind_r (login_of 9 ArmysBuildQueueManager 0) (\<lambda>((m, _), c). order_of 7 m c))"
  "case login_of 7 ArmysBuildQueueManager 0 of Inl _ \<Rightarrow> False | Inr ((m, _), c) \<Rightarrow>
     m_uid2buildqueue m (sint (7 :: u32)) = Some 0 \<and>
     is_ok (process example_map example_msgpack 100 (request_body 7 (le_short LogoutRequest_ID)) m c)"
  by code_simp+

theorem requests_touch_own_queues_witness:
  "\<exists>m1 out1 c1 m' out c'. login_of 9 ArmysBuildQueueManager 0 = Inr ((m1, out1), c1) \<and>
    order_of 7 m1 c1 = Inr ((m', out), c') \<and>
    (\<forall>u. u = sint (7 :: u32) \<or> queue_of m' u = queue_of m1 u) \<and> only_to 7 out \<and> small_inv example_map m'"
proof -
  from example_sessions(1) obtain m1 out1 c1 where l: "login_of 9 ArmysBuildQueueManager 0 = Inr ((m1, out1), c1)"
    and "is_ok (order_of 7 m1 c1)"
    by (cases "login_of 9 ArmysBuildQueueManager 0") auto
  then obtain m' out c' where o: "order_of 7 m1 c1 = Inr ((m', out), c')" by (cases "order_of 7 m1 c1") auto
  have "small_run example_map example_msgpack m1"
    using small_run.request [OF small_run.start l [unfolded login_of_def]] .
  from requests_touch_own_queues [OF this o [unfolded order_of_def]] l o show ?thesis by blast
qed

text \<open>
  A late timer uses a deleted queue. Logout deletes a player's queue object. A wait of
  its timers that is cancelled by this does nothing, but one that had already ended when
  the logout was handled runs on the deleted object.
\<close>

theorem late_timer_uses_deleted_queue:
  assumes "small_run sm mp m" and "m_uid2buildqueue m (sint uuid) = Some p"
    and "process sm mp now (request_body uuid (le_short LogoutRequest_ID)) m c = Inr ((m', out), c')"
  shows "timer_handler sm False p which_camp m' c' = Inl UseAfterFree \<and>
    timer_handler sm True p which_camp m' c' = Inr ((m', []), c')"
proof -
  have "process sm mp now (request_body uuid (le_short LogoutRequest_ID @ [])) m = uidOffline sm uuid m"
    by (simp only: process_def parse_request_body)
      (simp add: to_short_id request_ids dispatch_func_def services_len_def call_service_def register_all_service_def)
  with assms(3) obtain found where "deleteUid sm uuid m c = Inr ((m', found), c')"
    by (auto simp: uidOffline_def db_bind_eq_Inr)
  from deleteUid_ok [OF this small_run_inv [OF assms(1)]] assms(2) have "objects m' p = None" by simp
  then show ?thesis by (simp add: timer_handler_def on_object_def db_lift_def)
qed

theorem late_timer_uses_deleted_queue_witness:
  "\<exists>m out1 c m' out c'. login_of 7 ArmysBuildQueueManager 0 = Inr ((m, out1), c) \<and>
    process example_map example_msgpack 100 (request_body 7 (le_short LogoutRequest_ID)) m c = Inr ((m', out), c') \<and>
    timer_handler example_map False 0 ''1'' m' c' = Inl UseAfterFree \<and>
    timer_handler example_map True 0 ''1'' m' c' = Inr ((m', []), c')"
proof -
  from example_sessions(2) obtain m out1 c where l: "login_of 7 ArmysBuildQueueManager 0 = Inr ((m, out1), c)"
    and t: "m_uid2buildqueue m (sint (7 :: u32)) = Some 0"
    and "is_ok (process example_map example_msgpack 100 (request_body 7 (le_short LogoutRequest_ID)) m c)"
    by (auto split: sum.splits)
  then obtain m' out c' where
    o: "process example_map example_msgpack 100 (request_body 7 (le_short LogoutRequest_ID)) m c = Inr ((m', out), c')"
    by (cases "process example_map example_msgpack 100 (request_body 7 (le_short LogoutRequest_ID)) m c") auto
  have "small_run example_map example_msgpack m"
    using small_run.request [OF small_run.start l [unfolded login_of_def]] .
  from late_timer_uses_deleted_queue [OF this t o] l o show ?thesis by blast
qed

end
