(* ===== verification/World_Positions.thy ===== *)
theory World_Positions
  imports Redis_Client
begin

section \<open>The free places of the world map\<close>

text \<open>
  Models the tables of \<open>workers/simple_worker/_world_map.cpp\<close> from which cities get
  their places (\<open>map_key\<close>, \<open>remaining_position\<close>, the terrain they are filled from),
  and \<open>module/RandomData.hpp\<close>, which draws the players that are shown to others.
\<close>

subsection \<open>Drawing players\<close>

record 'a random_data =
  mydata :: "'a list"
  back_up_data :: "'a list"

definition AddMember :: "'a \<Rightarrow> 'a random_data \<Rightarrow> 'a random_data" where
  "AddMember member d = d\<lparr>mydata := mydata d @ [member]\<rparr>"

text \<open>\<open>rand()\<close> is the library's: \<open>r\<close> is what it returns, a list where it is called in a loop.\<close>

definition GetRandomData :: "nat \<Rightarrow> 'a random_data \<Rightarrow> 'a option" where
  "GetRandomData r d = (if mydata d = [] then None else Some (mydata d ! (r mod length (mydata d))))"

definition GetRandomOnlyData :: "nat \<Rightarrow> 'a random_data \<Rightarrow> ('a \<times> 'a random_data) option" where
  "GetRandomOnlyData r d =
     (let sz = length (mydata d) in
      if 1 < sz then
        let index = r mod sz; member = mydata d ! index in
        if index = sz - 1
        then Some (member, d\<lparr>back_up_data := back_up_data d @ [member], mydata := butlast (mydata d)\<rparr>)
        else Some (member, d\<lparr>back_up_data := back_up_data d @ [member],
               mydata := butlast ((mydata d)[index := last (mydata d)])\<rparr>)
      else if sz = 1 then
        Some (mydata d ! 0, d\<lparr>back_up_data := back_up_data d @ [mydata d ! 0], mydata := butlast (mydata d)\<rparr>)
      else None)"

fun draw_some :: "nat list \<Rightarrow> 'a random_data \<Rightarrow> 'a list \<times> 'a random_data" where
  "draw_some [] d = ([], d)"
| "draw_some (r # rs) d =
     (case GetRandomOnlyData r d of
        None \<Rightarrow> ([], d)
      | Some (t, d1) \<Rightarrow> let (ts, d2) = draw_some rs d1 in (t # ts, d2))"

definition GetSomeData :: "nat list \<Rightarrow> 'a random_data \<Rightarrow> ('a list \<times> bool) \<times> 'a random_data" where
  "GetSomeData rs d =
     (if mydata d = [] then (([], False), d)
      else if length (mydata d) \<le> length rs then ((mydata d, True), d)
      else let (data_list, d1) = draw_some rs d in
        if data_list = [] then (([], False), d1)
        else ((data_list, True), d1\<lparr>mydata := back_up_data d1 @ mydata d1, back_up_data := []\<rparr>))"

lemma GetRandomOnlyData_swap:
  "GetRandomOnlyData r d = (if mydata d = [] then None
     else let i = r mod length (mydata d) in
       Some (mydata d ! i, d\<lparr>back_up_data := back_up_data d @ [mydata d ! i], mydata := swap_remove i (mydata d)\<rparr>))"
proof (cases "length (mydata d) = 1")
  case True
  then obtain x where "mydata d = [x]" by (cases "mydata d") auto
  then show ?thesis by (simp add: GetRandomOnlyData_def swap_remove_def)
next
  case False
  then have "\<not> Suc 0 < length (mydata d) \<Longrightarrow> mydata d = []" by (cases "mydata d") auto
  with False show ?thesis
    by (auto simp: GetRandomOnlyData_def Let_def swap_remove_def last_conv_nth)
qed

lemma draw_some_mset:
  "draw_some rs d = (ts, d') \<Longrightarrow> mset (mydata d) = mset ts + mset (mydata d') \<and> back_up_data d' = back_up_data d @ ts"
proof (induction rs arbitrary: d ts)
  case (Cons r rs)
  show ?case
  proof (cases "mydata d = []")
    case True
    with Cons.prems show ?thesis by (simp add: GetRandomOnlyData_swap)
  next
    case False
    let ?i = "r mod length (mydata d)"
    let ?d1 = "d\<lparr>back_up_data := back_up_data d @ [mydata d ! ?i], mydata := swap_remove ?i (mydata d)\<rparr>"
    from Cons.prems False obtain us where us: "draw_some rs ?d1 = (us, d')" and ts: "ts = mydata d ! ?i # us"
      by (auto simp: GetRandomOnlyData_swap Let_def split: prod.splits)
    have "mset (mydata d) = add_mset (mydata d ! ?i) (mset (swap_remove ?i (mydata d)))"
      using False by (intro mset_swap_remove) simp
    with Cons.IH [OF us] ts show ?thesis by simp
  qed
qed simp

lemma draw_some_length: "length rs < length (mydata d) \<Longrightarrow> draw_some rs d = (ts, d') \<Longrightarrow> length ts = length rs"
proof (induction rs arbitrary: d ts)
  case (Cons r rs)
  then have ne: "mydata d \<noteq> []" by auto
  let ?i = "r mod length (mydata d)"
  let ?d1 = "d\<lparr>back_up_data := back_up_data d @ [mydata d ! ?i], mydata := swap_remove ?i (mydata d)\<rparr>"
  from Cons.prems(2) ne obtain us where us: "draw_some rs ?d1 = (us, d')" and ts: "ts = mydata d ! ?i # us"
    by (auto simp: GetRandomOnlyData_swap Let_def split: prod.splits)
  have "length rs < length (mydata ?d1)" using Cons.prems(1) by simp
  from Cons.IH [OF this us] ts show ?case by simp
qed simp

text \<open>
  Drawing puts back. \<open>GetSomeData\<close> returns as many members as were asked for, or all
  when there are no more, each member at most as often as it is stored, and the store
  has the same members afterwards.
\<close>

theorem drawing_puts_back:
  assumes "back_up_data d = []" and "rs \<noteq> []" and "GetSomeData rs d = ((ts, found), d')"
  shows "length ts = min (length rs) (length (mydata d)) \<and> mset ts \<subseteq># mset (mydata d) \<and>
    mset (mydata d') = mset (mydata d) \<and> back_up_data d' = [] \<and> (found \<longleftrightarrow> mydata d \<noteq> [])"
proof (cases "length (mydata d) \<le> length rs")
  case True
  with assms show ?thesis by (auto simp: GetSomeData_def min_def split: if_splits)
next
  case False
  obtain us d1 where us: "draw_some rs d = (us, d1)" by fastforce
  have len: "length us = length rs" using draw_some_length [OF _ us] False by simp
  from draw_some_mset [OF us] len False assms show ?thesis
    by (auto simp: GetSomeData_def us split: if_splits)
qed

theorem drawing_puts_back_witness:
  "length [''c'', ''b''] = min (length [5, 7 :: nat]) (length [''a'', ''b'', ''c'']) \<and>
    mset [''c'', ''b''] \<subseteq># mset [''a'', ''b'', ''c''] \<and>
    mset (mydata \<lparr>mydata = [''c'', ''b'', ''a''], back_up_data = []\<rparr>) = mset [''a'', ''b'', ''c''] \<and>
    back_up_data \<lparr>mydata = [''c'', ''b'', ''a''], back_up_data = ([] :: string list)\<rparr> = [] \<and>
    (True \<longleftrightarrow> [''a'', ''b'', ''c''] \<noteq> [])"
  using drawing_puts_back [of "\<lparr>mydata = [''a'', ''b'', ''c''], back_up_data = []\<rparr>" "[5, 7]" "[''c'', ''b'']" True
      "\<lparr>mydata = [''c'', ''b'', ''a''], back_up_data = []\<rparr>"]
  by (simp add: GetSomeData_def GetRandomOnlyData_def)

subsection \<open>Terrain\<close>

definition minBlock :: "nat list list" where
  "minBlock = [
     [1, 3, 1, 4, 3, 1, 5, 1, 6, 3, 1, 2, 3, 1, 4, 6, 2, 4, 1, 4, 3, 1, 6, 1, 1, 2, 3, 6, 5, 6, 4, 3],
     [2, 1, 3, 1, 6, 1, 2, 6, 6, 1, 1, 2, 5, 2, 3, 4, 2, 1, 11, 1, 6, 1, 1, 1, 6, 4, 3, 1, 6, 1, 1, 2],
     [1, 1, 3, 6, 6, 2, 1, 3, 1, 3, 1, 6, 4, 6, 3, 1, 5, 1, 1, 5, 3, 5, 1, 1, 6, 4, 6, 2, 1, 3, 1, 6],
     [2, 1, 4, 6, 3, 5, 3, 6, 1, 4, 6, 1, 1, 3, 4, 3, 6, 1, 4, 6, 6, 3, 1, 2, 3, 6, 1, 5, 1, 4, 3, 2],
     [4, 6, 4, 6, 6, 1, 1, 1, 4, 2, 6, 9, 1, 6, 3, 1, 6, 3, 1, 1, 1, 1, 6, 2, 1, 1, 1, 1, 1, 1, 3, 5],
     [3, 4, 1, 1, 1, 1, 2, 3, 6, 2, 5, 1, 1, 2, 10, 6, 2, 1, 2, 1, 1, 6, 3, 7, 3, 1, 11, 1, 4, 1, 4, 3],
     [5, 1, 6, 6, 1, 4, 3, 2, 6, 1, 6, 1, 1, 1, 6, 1, 3, 2, 1, 6, 1, 6, 4, 3, 2, 5, 1, 1, 3, 6, 2, 6],
     [6, 3, 6, 1, 6, 1, 3, 1, 8, 3, 1, 6, 6, 6, 1, 3, 2, 3, 6, 6, 2, 1, 4, 3, 6, 1, 1, 6, 3, 2, 6, 4],
     [4, 6, 1, 2, 6, 2, 1, 5, 1, 4, 6, 3, 6, 3, 2, 1, 1, 2, 6, 3, 1, 6, 2, 1, 3, 6, 6, 6, 3, 1, 3, 6],
     [5, 1, 4, 3, 6, 1, 1, 6, 6, 3, 6, 4, 3, 1, 2, 1, 3, 5, 2, 3, 6, 6, 3, 5, 4, 5, 1, 2, 1, 3, 4, 5],
     [2, 6, 1, 1, 2, 3, 4, 1, 3, 5, 4, 1, 6, 6, 6, 3, 1, 4, 6, 1, 1, 6, 3, 4, 2, 4, 8, 1, 2, 3, 6, 1],
     [6, 2, 1, 4, 6, 3, 1, 2, 4, 1, 6, 2, 1, 5, 3, 2, 3, 1, 6, 1, 6, 3, 2, 3, 10, 6, 5, 1, 4, 9, 4, 2],
     [3, 1, 6, 5, 4, 1, 2, 3, 1, 2, 6, 1, 6, 2, 6, 3, 6, 3, 6, 4, 6, 6, 3, 4, 3, 1, 6, 1, 6, 3, 6, 1],
     [3, 1, 1, 4, 6, 6, 4, 1, 1, 1, 6, 1, 5, 4, 3, 1, 6, 6, 6, 2, 1, 1, 2, 1, 2, 4, 2, 1, 6, 6, 6, 1],
     [6, 2, 1, 5, 3, 6, 3, 1, 11, 3, 6, 1, 6, 1, 2, 1, 6, 5, 4, 6, 6, 5, 2, 1, 3, 2, 3, 6, 2, 3, 1, 2],
     [3, 6, 6, 1, 6, 3, 1, 2, 1, 5, 4, 2, 6, 4, 1, 1, 3, 4, 3, 1, 3, 6, 4, 3, 2, 3, 2, 1, 6, 3, 5, 2],
     [2, 6, 1, 1, 5, 3, 6, 1, 5, 2, 3, 1, 3, 1, 3, 5, 4, 6, 3, 4, 6, 6, 5, 3, 4, 3, 1, 2, 1, 3, 1, 5],
     [5, 4, 3, 6, 3, 4, 1, 5, 4, 2, 1, 1, 1, 6, 5, 4, 6, 6, 3, 10, 6, 3, 1, 2, 6, 5, 2, 3, 6, 2, 4, 2],
     [2, 1, 2, 1, 6, 2, 3, 4, 3, 6, 3, 6, 1, 3, 4, 1, 1, 5, 1, 2, 1, 2, 5, 1, 3, 4, 6, 2, 6, 2, 4, 3],
     [4, 3, 1, 6, 6, 6, 3, 6, 3, 6, 6, 6, 6, 1, 3, 1, 4, 3, 6, 6, 2, 1, 3, 1, 3, 6, 6, 4, 6, 6, 3, 1],
     [3, 6, 6, 6, 6, 3, 2, 1, 2, 3, 6, 1, 6, 6, 1, 3, 6, 6, 1, 1, 6, 6, 3, 2, 6, 3, 6, 6, 6, 3, 1, 3],
     [2, 5, 4, 6, 2, 6, 3, 1, 2, 3, 6, 4, 3, 6, 6, 2, 6, 4, 9, 6, 6, 4, 2, 3, 6, 3, 1, 2, 1, 6, 1, 2],
     [2, 4, 3, 6, 4, 2, 1, 3, 1, 1, 4, 2, 1, 1, 2, 6, 3, 5, 2, 6, 2, 6, 6, 8, 6, 5, 6, 4, 6, 1, 1, 1],
     [3, 6, 3, 6, 2, 1, 6, 6, 4, 3, 1, 2, 1, 4, 5, 6, 6, 3, 6, 3, 4, 6, 1, 1, 6, 3, 6, 3, 6, 3, 4, 3],
     [4, 3, 6, 3, 1, 6, 4, 1, 9, 3, 6, 1, 1, 3, 1, 6, 2, 1, 1, 6, 6, 3, 1, 1, 1, 5, 1, 2, 3, 2, 11, 1],
     [5, 6, 3, 1, 1, 6, 3, 5, 6, 2, 6, 3, 6, 6, 4, 5, 6, 6, 3, 1, 1, 3, 1, 2, 3, 1, 2, 1, 5, 1, 1, 1],
     [2, 1, 1, 4, 6, 2, 3, 1, 6, 6, 6, 2, 3, 8, 2, 3, 4, 5, 3, 6, 1, 4, 5, 1, 1, 5, 6, 6, 6, 4, 6, 6],
     [2, 1, 6, 1, 6, 6, 6, 4, 10, 1, 1, 4, 6, 3, 1, 3, 1, 3, 4, 6, 6, 3, 1, 1, 3, 6, 2, 1, 2, 1, 3, 1],
     [3, 4, 6, 3, 2, 5, 2, 3, 6, 3, 1, 6, 4, 1, 2, 3, 1, 2, 3, 6, 6, 4, 3, 5, 3, 1, 2, 1, 6, 1, 1, 4],
     [3, 1, 6, 3, 2, 5, 2, 3, 2, 6, 5, 6, 5, 2, 1, 3, 6, 3, 6, 6, 6, 3, 6, 3, 6, 4, 6, 1, 4, 1, 6, 3],
     [2, 1, 6, 4, 2, 6, 4, 3, 2, 3, 4, 6, 3, 4, 3, 2, 1, 3, 4, 3, 2, 6, 3, 4, 6, 6, 4, 6, 5, 2, 1, 4],
     [6, 2, 6, 3, 6, 6, 6, 3, 6, 4, 6, 6, 5, 6, 3, 1, 6, 5, 2, 3, 6, 4, 6, 6, 6, 3, 2, 3, 1, 1, 2, 1]]"

type_synonym terrain = "nat \<Rightarrow> nat \<Rightarrow> nat"

definition set_cell :: "nat \<Rightarrow> nat \<Rightarrow> nat \<Rightarrow> terrain \<Rightarrow> terrain" where
  "set_cell row col v t = (\<lambda>r c. if r = row \<and> c = col then v else t r c)"

text \<open>The four loops of \<open>first_terrain_init\<close> over the blocks and the cells of a block.\<close>

definition first_terrain_init :: "terrain \<Rightarrow> terrain" where
  "first_terrain_init t =
     fold (\<lambda>y. fold (\<lambda>x. fold (\<lambda>i. fold (\<lambda>j.
       set_cell (y * 32 + i) (x * 32 + j) (minBlock ! i ! j)) [0..<32]) [0..<32]) [0..<20]) [0..<20] t"

definition UpdateWorldMap :: "int \<Rightarrow> int \<Rightarrow> nat \<Rightarrow> terrain \<Rightarrow> crash + terrain" where
  "UpdateWorldMap x y s t =
     (if x < 0 \<or> y < 0 \<or> 640 < x \<or> 640 < y then Inr t
      else if 640 * 640 \<le> x * 640 + y then Inl OutOfRange
      else Inr (set_cell (nat (x * 640 + y) div 640) (nat (x * 640 + y) mod 640) s t))"

subsection \<open>The tables of free places\<close>

text \<open>\<open>map_key\<close> lists the keys of the free places, \<open>remaining_position\<close> their index in it.\<close>

record free_places =
  remaining_position :: "int \<Rightarrow> nat option"
  map_key :: "int list"

definition no_places :: free_places where
  "no_places = \<lparr>remaining_position = Map.empty, map_key = []\<rparr>"

definition position_key :: "int \<Rightarrow> int \<Rightarrow> int" where
  "position_key x y = x * 65536 + y"

definition key_x :: "int \<Rightarrow> int" where
  "key_x k = k div 65536"

definition key_y :: "int \<Rightarrow> int" where
  "key_y k = k mod 65536"

definition AddNewPositionToMap :: "int \<Rightarrow> int \<Rightarrow> free_places \<Rightarrow> free_places" where
  "AddNewPositionToMap x y w =
     (let key = position_key x y in
      \<lparr>remaining_position = (remaining_position w)(key \<mapsto> length (map_key w)), map_key = map_key w @ [key]\<rparr>)"

definition check_remaining_position :: "terrain \<Rightarrow> free_places \<Rightarrow> free_places" where
  "check_remaining_position t w =
     fold (\<lambda>i. fold (\<lambda>j w. if t i j = 6 then AddNewPositionToMap (int j) (int i) w else w) [0..<640]) [0..<640] w"

text \<open>
  The middle of \<open>GetRangePosition\<close>: a place drawn with the random number \<open>r\<close> leaves the
  tables. When it is the last one its key is entered again after it was erased.
\<close>

definition take_random :: "nat \<Rightarrow> free_places \<Rightarrow> (int \<times> free_places) option" where
  "take_random r w =
     (if map_key w = [] then None
      else let random = r mod length (map_key w);
               key = map_key w ! random;
               erased = (remaining_position w)(key := None) in
        if length (map_key w) = 1 then Some (key, \<lparr>remaining_position = erased, map_key = []\<rparr>)
        else let last_map_key = map_key w ! (length (map_key w) - 1) in
          Some (key, \<lparr>remaining_position = erased(last_map_key \<mapsto> random),
                      map_key = butlast ((map_key w)[random := last_map_key])\<rparr>))"

text \<open>The middle of \<open>GetSettlePosition\<close>: a place that was asked for; \<open>None\<close> when it is not free.\<close>

definition take_place :: "int \<Rightarrow> free_places \<Rightarrow> crash + free_places option" where
  "take_place key w =
     (case remaining_position w key of
        None \<Rightarrow> Inr None
      | Some index \<Rightarrow>
          if length (map_key w) \<le> index then Inl OutOfRange
          else let last_map_key = map_key w ! (length (map_key w) - 1) in
            Inr (Some \<lparr>remaining_position = ((remaining_position w)(last_map_key \<mapsto> index))(key := None),
                       map_key = butlast ((map_key w)[index := last_map_key])\<rparr>))"

subsection \<open>The two tables agree\<close>

definition places_ok :: "free_places \<Rightarrow> bool" where
  "places_ok w \<longleftrightarrow> (\<forall>k i. remaining_position w k = Some i \<longleftrightarrow> i < length (map_key w) \<and> map_key w ! i = k)"

lemma places_ok_distinct: "places_ok w \<Longrightarrow> distinct (map_key w)"
  unfolding places_ok_def distinct_conv_nth by (metis option.inject)

lemma places_ok_at: "places_ok w \<Longrightarrow> i < length (map_key w) \<Longrightarrow> remaining_position w (map_key w ! i) = Some i"
  by (simp add: places_ok_def)

lemma places_ok_index: "places_ok w \<Longrightarrow> remaining_position w k = Some i \<Longrightarrow> i < length (map_key w) \<and> map_key w ! i = k"
  by (simp add: places_ok_def)

lemma places_ok_free: "places_ok w \<Longrightarrow> remaining_position w k = None \<longleftrightarrow> k \<notin> set (map_key w)"
  unfolding places_ok_def in_set_conv_nth by (metis not_None_eq)

lemma places_ok_start: "places_ok no_places"
  by (simp add: places_ok_def no_places_def)

lemma places_ok_add:
  assumes "places_ok w" and "position_key x y \<notin> set (map_key w)"
  shows "places_ok (AddNewPositionToMap x y w)"
    and "set (map_key (AddNewPositionToMap x y w)) = insert (position_key x y) (set (map_key w))"
proof -
  show "places_ok (AddNewPositionToMap x y w)"
    using assms unfolding places_ok_def
    by (auto simp: AddNewPositionToMap_def Let_def nth_append less_Suc_eq in_set_conv_nth)
qed (simp add: AddNewPositionToMap_def Let_def)

text \<open>Moving the last key to the place of the one that goes.\<close>

lemma places_ok_swap:
  assumes "places_ok w" and "i < length (map_key w)" and "map_key w ! i = key"
  shows "places_ok \<lparr>remaining_position = ((remaining_position w)(last (map_key w) \<mapsto> i))(key := None),
    map_key = swap_remove i (map_key w)\<rparr>"
proof -
  let ?ks = "map_key w" and ?n = "length (map_key w) - 1"
  have ne: "?ks \<noteq> []" using assms(2) by auto
  then have last: "last ?ks = ?ks ! ?n" by (simp add: last_conv_nth)
  have d: "distinct ?ks" using places_ok_distinct [OF assms(1)] .
  have inj: "a < length ?ks \<Longrightarrow> b < length ?ks \<Longrightarrow> ?ks ! a = ?ks ! b \<longleftrightarrow> a = b" for a b
    using d by (simp add: nth_eq_iff_index_eq)
  show ?thesis
    unfolding places_ok_def
  proof (intro allI)
    fix k j
    show "remaining_position \<lparr>remaining_position = ((remaining_position w)(last ?ks \<mapsto> i))(key := None),
          map_key = swap_remove i ?ks\<rparr> k = Some j \<longleftrightarrow>
        j < length (map_key \<lparr>remaining_position = ((remaining_position w)(last ?ks \<mapsto> i))(key := None),
          map_key = swap_remove i ?ks\<rparr>) \<and>
        map_key \<lparr>remaining_position = ((remaining_position w)(last ?ks \<mapsto> i))(key := None),
          map_key = swap_remove i ?ks\<rparr> ! j = k"
    proof (cases "j < ?n")
      case False
      have "remaining_position w k = Some j \<Longrightarrow> k = last ?ks"
        using places_ok_index [OF assms(1), of k j] False last by (metis Suc_pred' length_greater_0_conv less_SucE ne)
      moreover have "i = j \<Longrightarrow> key = last ?ks"
        using False assms(2,3) last by (metis Suc_pred' length_greater_0_conv less_SucE ne)
      ultimately show ?thesis using False by auto
    next
      case True
      then have j: "j < length ?ks" by simp
      have s: "swap_remove i ?ks ! j = (if j = i then last ?ks else ?ks ! j)"
        using assms(2) True by (rule nth_swap_remove)
      have k: "remaining_position w k = Some j \<longleftrightarrow> ?ks ! j = k"
        using assms(1) j by (auto simp: places_ok_def)
      have lastne: "?ks ! j \<noteq> last ?ks" using True inj [of j ?n] last ne by simp
      show ?thesis
      proof (cases "j = i")
        case True
        then have "key \<noteq> last ?ks" using lastne assms(3) by simp
        moreover have "?ks ! j = key" using True assms(3) by simp
        ultimately show ?thesis using True s k \<open>j < ?n\<close> lastne by auto
      next
        case False
        then have "?ks ! j \<noteq> key" using inj [OF j assms(2)] assms(3) by auto
        then show ?thesis using False s k \<open>j < ?n\<close> lastne by auto
      qed
    qed
  qed
qed

lemma take_place_ok:
  assumes "places_ok w" and "key \<in> set (map_key w)"
  obtains w' where "take_place key w = Inr (Some w')" "places_ok w'" "set (map_key w') = set (map_key w) - {key}"
proof -
  obtain i where i: "remaining_position w key = Some i"
    using assms places_ok_free by (cases "remaining_position w key") auto
  have k: "i < length (map_key w)" "map_key w ! i = key" using places_ok_index [OF assms(1) i] by simp_all
  then have ne: "map_key w \<noteq> []" by auto
  let ?w = "\<lparr>remaining_position = ((remaining_position w)(last (map_key w) \<mapsto> i))(key := None),
      map_key = swap_remove i (map_key w)\<rparr>"
  have "take_place key w = Inr (Some ?w)"
    using i k ne by (simp add: take_place_def swap_remove_def last_conv_nth Let_def)
  moreover have "places_ok ?w" using assms(1) k by (rule places_ok_swap)
  moreover have "set (map_key ?w) = set (map_key w) - {key}"
    using distinct_swap_remove(2) [OF places_ok_distinct [OF assms(1)] k(1)] k(2) by simp
  ultimately show thesis by (rule that)
qed

lemma take_random_ok:
  assumes "places_ok w" and "map_key w \<noteq> []"
    and "r mod length (map_key w) < length (map_key w) - 1 \<or> length (map_key w) = 1"
  obtains k w' where "take_random r w = Some (k, w')" "k \<in> set (map_key w)" "places_ok w'"
    "set (map_key w') = set (map_key w) - {k}"
proof -
  let ?i = "r mod length (map_key w)" and ?k = "map_key w ! (r mod length (map_key w))"
  have i: "?i < length (map_key w)" using assms(2) by simp
  let ?w = "\<lparr>remaining_position = ((remaining_position w)(last (map_key w) \<mapsto> ?i))(?k := None),
      map_key = swap_remove ?i (map_key w)\<rparr>"
  have "take_random r w = Some (?k, ?w)"
  proof (cases "length (map_key w) = 1")
    case True
    then obtain x where x: "map_key w = [x]" by (cases "map_key w") auto
    then show ?thesis by (simp add: take_random_def swap_remove_def Let_def)
  next
    case False
    with assms(3) have "?i < length (map_key w) - 1" by simp
    then have "?k \<noteq> last (map_key w)"
      using places_ok_distinct [OF assms(1)] assms(2) i by (simp add: last_conv_nth nth_eq_iff_index_eq)
    then have "(remaining_position w)(?k := None, last (map_key w) \<mapsto> ?i) =
        ((remaining_position w)(last (map_key w) \<mapsto> ?i))(?k := None)" by (simp add: fun_upd_twist)
    with False assms(2) show ?thesis
      by (simp add: take_random_def Let_def swap_remove_def last_conv_nth)
  qed
  moreover have "places_ok ?w" using assms(1) i by (rule places_ok_swap) simp
  moreover have "set (map_key ?w) = set (map_key w) - {?k}"
    using distinct_swap_remove(2) [OF places_ok_distinct [OF assms(1)] i] by simp
  ultimately show thesis using that i by (metis nth_mem)
qed

text \<open>
  C22. A place is given once. When the two tables agree, a place that was asked for is
  given exactly when it is free; so is a place that was drawn, unless it is the last
  one of several. In both cases just this place leaves the tables, and they agree
  again.
\<close>

theorem places_are_given_once:
  assumes "places_ok w"
  shows "(take_place key w = Inr None \<longleftrightarrow> key \<notin> set (map_key w)) \<and>
    (\<forall>w'. take_place key w = Inr (Some w') \<longrightarrow> places_ok w' \<and> set (map_key w') = set (map_key w) - {key}) \<and>
    (\<forall>k w'. take_random r w = Some (k, w') \<and> (r mod length (map_key w) < length (map_key w) - 1 \<or> length (map_key w) = 1) \<longrightarrow>
       k \<in> set (map_key w) \<and> places_ok w' \<and> set (map_key w') = set (map_key w) - {k})"
proof (intro conjI allI impI)
  show "take_place key w = Inr None \<longleftrightarrow> key \<notin> set (map_key w)"
    using places_ok_free [OF assms, of key] by (auto simp: take_place_def Let_def split: option.splits)
  show "places_ok w'" "set (map_key w') = set (map_key w) - {key}" if "take_place key w = Inr (Some w')" for w'
  proof -
    have "key \<in> set (map_key w)"
      using that places_ok_free [OF assms, of key] by (auto simp: take_place_def split: option.splits)
    from take_place_ok [OF assms this] obtain w2 where
      "take_place key w = Inr (Some w2)" "places_ok w2" "set (map_key w2) = set (map_key w) - {key}" by blast
    with that show "places_ok w'" "set (map_key w') = set (map_key w) - {key}" by simp_all
  qed
  show "k \<in> set (map_key w)" "places_ok w'" "set (map_key w') = set (map_key w) - {k}"
    if "take_random r w = Some (k, w') \<and> (r mod length (map_key w) < length (map_key w) - 1 \<or> length (map_key w) = 1)" for k w'
  proof -
    have "map_key w \<noteq> []" using that by (auto simp: take_random_def)
    from take_random_ok [OF assms this, of r] that obtain k2 w2 where
      "take_random r w = Some (k2, w2)" "k2 \<in> set (map_key w)" "places_ok w2" "set (map_key w2) = set (map_key w) - {k2}" by blast
    with that show "k \<in> set (map_key w)" "places_ok w'" "set (map_key w') = set (map_key w) - {k}" by simp_all
  qed
qed

text \<open>
  The last place is given twice. When the draw hits the last entry of several, its
  key stays in \<open>remaining_position\<close>: the next player who asks for this place is not
  refused, and the entry written for him is one past the end of \<open>map_key\<close>.
\<close>

theorem last_place_is_given_twice:
  assumes "places_ok w" and "1 < length (map_key w)" and "r mod length (map_key w) = length (map_key w) - 1"
    and "take_random r w = Some (k, w')"
  shows "k \<notin> set (map_key w') \<and> remaining_position w' k = Some (length (map_key w')) \<and>
    take_place k w' = Inl OutOfRange"
proof -
  let ?n = "length (map_key w) - 1"
  have ne: "map_key w \<noteq> []" using assms(2) by auto
  from assms(2,3,4) ne have k: "k = map_key w ! ?n" and
    w': "w' = \<lparr>remaining_position = (remaining_position w)(k := None, k \<mapsto> ?n), map_key = butlast ((map_key w)[?n := k])\<rparr>"
    by (auto simp: take_random_def Let_def split: if_splits)
  have "(map_key w)[?n := k] = map_key w" by (simp add: k)
  then have keys: "map_key w' = butlast (map_key w)" by (simp add: w')
  have "k = last (map_key w)" using k ne by (simp add: last_conv_nth)
  moreover have "distinct (butlast (map_key w) @ [last (map_key w)])"
    using places_ok_distinct [OF assms(1)] ne by simp
  ultimately have "k \<notin> set (map_key w')" by (simp add: keys)
  moreover have "remaining_position w' k = Some (length (map_key w'))" by (simp add: keys w')
  ultimately show ?thesis by (simp add: take_place_def)
qed

definition three_places :: free_places where
  "three_places = AddNewPositionToMap 5 4 (AddNewPositionToMap 3 2 (AddNewPositionToMap 1 0 no_places))"

lemma three_places_ok: "places_ok three_places"
  unfolding three_places_def
  by (intro places_ok_add places_ok_start) (simp_all add: AddNewPositionToMap_def no_places_def position_key_def)

definition given_once :: "int \<Rightarrow> nat \<Rightarrow> free_places \<Rightarrow> bool" where
  "given_once key r w \<longleftrightarrow> (take_place key w = Inr None \<longleftrightarrow> key \<notin> set (map_key w)) \<and>
    (\<forall>w'. take_place key w = Inr (Some w') \<longrightarrow> places_ok w' \<and> set (map_key w') = set (map_key w) - {key}) \<and>
    (\<forall>k w'. take_random r w = Some (k, w') \<and> (r mod length (map_key w) < length (map_key w) - 1 \<or> length (map_key w) = 1) \<longrightarrow>
       k \<in> set (map_key w) \<and> places_ok w' \<and> set (map_key w') = set (map_key w) - {k})"

theorem places_are_given_once_witness: "given_once (position_key 3 2) 4 three_places"
  unfolding given_once_def by (rule places_are_given_once [OF three_places_ok])

theorem last_place_is_given_twice_witness:
  "\<exists>w'. take_random 5 three_places = Some (position_key 5 4, w') \<and> take_place (position_key 5 4) w' = Inl OutOfRange"
proof -
  have n: "length (map_key three_places) = 3" "map_key three_places ! 2 = position_key 5 4"
    by (simp_all add: three_places_def AddNewPositionToMap_def no_places_def Let_def)
  then have ne: "map_key three_places \<noteq> []" by auto
  obtain w' where t: "take_random 5 three_places = Some (position_key 5 4, w')"
    using n ne by (simp add: take_random_def Let_def)
  from last_place_is_given_twice [OF three_places_ok _ _ t] t n show ?thesis by auto
qed

subsection \<open>The first tables\<close>

lemma position_key_inject:
  assumes "0 \<le> y" "y < 65536" "0 \<le> y'" "y' < 65536" "position_key x y = position_key x' y'"
  shows "x = x' \<and> y = y'"
proof -
  have "key_y (position_key x y) = y" "key_y (position_key x' y') = y'" using assms(1-4) by (simp_all add: key_y_def position_key_def)
  with assms(5) have "y = y'" by simp
  with assms(5) show ?thesis by (simp add: position_key_def)
qed

lemma key_of_position: "0 \<le> y \<Longrightarrow> y < 65536 \<Longrightarrow> key_x (position_key x y) = x \<and> key_y (position_key x y) = y"
  by (simp add: key_x_def key_y_def position_key_def)

text \<open>The cells in the order of the loops, and the places found so far.\<close>

lemma row_places:
  assumes "places_ok w" and "distinct js" and "list_all (\<lambda>j. j < 640) js" and "i < 640"
    and "\<And>j. j \<in> set js \<Longrightarrow> position_key (int j) (int i) \<notin> set (map_key w)"
  shows "places_ok (fold (\<lambda>j w. if t i j = 6 then AddNewPositionToMap (int j) (int i) w else w) js w) \<and>
    set (map_key (fold (\<lambda>j w. if t i j = 6 then AddNewPositionToMap (int j) (int i) w else w) js w)) =
      set (map_key w) \<union> {position_key (int j) (int i) | j. j \<in> set js \<and> t i j = 6}"
  using assms
proof (induction js arbitrary: w)
  case (Cons j js)
  let ?w = "if t i j = 6 then AddNewPositionToMap (int j) (int i) w else w"
  have fresh: "position_key (int j) (int i) \<notin> set (map_key w)" using Cons.prems(5) by simp
  have ok: "places_ok ?w" and keys: "set (map_key ?w) = set (map_key w) \<union> (if t i j = 6 then {position_key (int j) (int i)} else {})"
    using places_ok_add [OF Cons.prems(1) fresh] Cons.prems(1) by auto
  have "position_key (int j') (int i) \<notin> set (map_key ?w)" if "j' \<in> set js" for j'
  proof -
    have "j' \<noteq> j" using that Cons.prems(2) by auto
    then have "position_key (int j') (int i) \<noteq> position_key (int j) (int i)" by (simp add: position_key_def)
    with that Cons.prems(5) [of j'] keys show ?thesis by auto
  qed
  from Cons.IH [OF ok _ _ Cons.prems(4) this] Cons.prems(2,3) keys show ?case
    by (auto split: if_splits)
qed simp

lemma rows_places:
  assumes "places_ok w" and "distinct is" and "list_all (\<lambda>i. i < 640) is"
    and "\<And>i j. i \<in> set is \<Longrightarrow> j < 640 \<Longrightarrow> position_key (int j) (int i) \<notin> set (map_key w)"
  shows "places_ok (fold (\<lambda>i. fold (\<lambda>j w. if t i j = 6 then AddNewPositionToMap (int j) (int i) w else w) [0..<640]) is w) \<and>
    set (map_key (fold (\<lambda>i. fold (\<lambda>j w. if t i j = 6 then AddNewPositionToMap (int j) (int i) w else w) [0..<640]) is w)) =
      set (map_key w) \<union> {position_key (int j) (int i) | i j. i \<in> set is \<and> j < 640 \<and> t i j = 6}"
  using assms
proof (induction "is" arbitrary: w)
  case (Cons i "is")
  let ?w = "fold (\<lambda>j w. if t i j = 6 then AddNewPositionToMap (int j) (int i) w else w) [0..<640] w"
  have row: "places_ok ?w" "set (map_key ?w) = set (map_key w) \<union> {position_key (int j) (int i) | j. j \<in> set [0..<640] \<and> t i j = 6}"
    using row_places [of w "[0..<640]" i t] Cons.prems by (auto simp: list_all_iff)
  have "position_key (int j') (int i') \<notin> set (map_key ?w)" if "i' \<in> set is" "j' < 640" for i' j'
  proof -
    have ne: "i' \<noteq> i" using that(1) Cons.prems(2) by auto
    have "i' < 640" "i < 640" using that(1) Cons.prems(3) by (auto simp: list_all_iff)
    with ne have "position_key (int j') (int i') \<noteq> position_key (int j) (int i)" for j
      using position_key_inject [of "int i'" "int i" "int j'" "int j"] by auto
    with that Cons.prems(4) [of i' j'] row(2) show ?thesis by auto
  qed
  from Cons.IH [OF row(1) _ _ this] Cons.prems(2,3) row(2) show ?case
    by (auto 0 4)
qed simp

text \<open>What one step of a loop establishes and all its steps keep holds after the loop.\<close>

lemma fold_keeps: "(\<And>y s. y \<in> set xs \<Longrightarrow> Q s \<Longrightarrow> Q (f y s)) \<Longrightarrow> Q s \<Longrightarrow> Q (fold f xs s)"
  by (induction xs arbitrary: s) simp_all

lemma fold_establishes:
  "x \<in> set xs \<Longrightarrow> (\<And>s. Q (f x s)) \<Longrightarrow> (\<And>y s. y \<in> set xs \<Longrightarrow> Q s \<Longrightarrow> Q (f y s)) \<Longrightarrow> Q (fold f xs s)"
proof (induction xs arbitrary: s)
  case (Cons a xs)
  show ?case
  proof (cases "x = a")
    case True
    have "Q (fold f xs (f a s))" by (rule fold_keeps [where Q = Q]) (use Cons.prems True in auto)
    then show ?thesis by simp
  next
    case False
    then have "x \<in> set xs" using Cons.prems(1) by simp
    then have "Q (fold f xs (f a s))" by (rule Cons.IH) (use Cons.prems(2,3) in auto)
    then show ?thesis by simp
  qed
qed simp

lemma terrain_cell:
  assumes "r < 640" and "c < 640"
  shows "first_terrain_init t r c = minBlock ! (r mod 32) ! (c mod 32)"
proof -
  define Q :: "terrain \<Rightarrow> bool" where "Q = (\<lambda>t. t r c = minBlock ! (r mod 32) ! (c mod 32))"
  have keep: "Q s \<Longrightarrow> Q (set_cell (y * 32 + i) (x * 32 + j) (minBlock ! i ! j) s)" if "i < 32" "j < 32" for s x y i j
    using that by (auto simp: set_cell_def Q_def)
  have k1: "Q s \<Longrightarrow> Q (fold (\<lambda>j. set_cell (y * 32 + i) (x * 32 + j) (minBlock ! i ! j)) [0..<32] s)" if "i < 32" for s x y i
    by (rule fold_keeps [where Q = Q]) (use that keep in simp_all)
  have k2: "Q s \<Longrightarrow> Q (fold (\<lambda>i. fold (\<lambda>j. set_cell (y * 32 + i) (x * 32 + j) (minBlock ! i ! j)) [0..<32]) [0..<32] s)" for s x y
    by (rule fold_keeps [where Q = Q]) (use k1 in simp_all)
  have k3: "Q s \<Longrightarrow> Q (fold (\<lambda>x. fold (\<lambda>i. fold (\<lambda>j. set_cell (y * 32 + i) (x * 32 + j) (minBlock ! i ! j)) [0..<32]) [0..<32]) [0..<20] s)" for s y
    by (rule fold_keeps [where Q = Q]) (use k2 in simp_all)
  have e0: "Q (set_cell (r div 32 * 32 + r mod 32) (c div 32 * 32 + c mod 32) (minBlock ! (r mod 32) ! (c mod 32)) s)" for s
    by (simp add: set_cell_def Q_def)
  have e1: "Q (fold (\<lambda>j. set_cell (r div 32 * 32 + r mod 32) (c div 32 * 32 + j) (minBlock ! (r mod 32) ! j)) [0..<32] s)" for s
    by (rule fold_establishes [where Q = Q and x = "c mod 32"], simp, rule e0, rule keep, simp_all)
  have e2: "Q (fold (\<lambda>i. fold (\<lambda>j. set_cell (r div 32 * 32 + i) (c div 32 * 32 + j) (minBlock ! i ! j)) [0..<32]) [0..<32] s)" for s
    by (rule fold_establishes [where Q = Q and x = "r mod 32"], simp, rule e1, rule k1, simp_all)
  have e3: "Q (fold (\<lambda>x. fold (\<lambda>i. fold (\<lambda>j. set_cell (r div 32 * 32 + i) (x * 32 + j) (minBlock ! i ! j)) [0..<32]) [0..<32]) [0..<20] s)" for s
    by (rule fold_establishes [where Q = Q and x = "c div 32"], use assms in simp, rule e2, rule k2)
  have "Q (first_terrain_init t)"
    unfolding first_terrain_init_def
    by (rule fold_establishes [where Q = Q and x = "r div 32"], use assms in simp, rule e3, rule k3)
  then show ?thesis by (simp add: Q_def)
qed

text \<open>
  The map starts with its free places. After \<open>first_terrain_init\<close> and
  \<open>check_remaining_position\<close> the two tables agree, and the places in them are exactly the
  cells of the 640 times 640 map whose terrain in the repeated block is 6.
\<close>

theorem map_starts_with_free_places:
  "places_ok (check_remaining_position (first_terrain_init t) no_places) \<and>
    set (map_key (check_remaining_position (first_terrain_init t) no_places)) =
      {position_key (int j) (int i) | i j. i < 640 \<and> j < 640 \<and> minBlock ! (i mod 32) ! (j mod 32) = 6}"
proof -
  let ?t = "first_terrain_init t"
  have "places_ok (check_remaining_position ?t no_places) \<and>
      set (map_key (check_remaining_position ?t no_places)) =
        set (map_key no_places) \<union> {position_key (int j) (int i) | i j. i \<in> set [0..<640] \<and> j < 640 \<and> ?t i j = 6}"
    unfolding check_remaining_position_def
    by (rule rows_places) (use places_ok_start in \<open>simp_all add: list_all_iff no_places_def\<close>)
  moreover have "{position_key (int j) (int i) | i j. i \<in> set [0..<640] \<and> j < 640 \<and> ?t i j = 6} =
      {position_key (int j) (int i) | i j. i < 640 \<and> j < 640 \<and> minBlock ! (i mod 32) ! (j mod 32) = 6}"
  proof -
    have "i \<in> set [0..<640] \<and> j < 640 \<and> ?t i j = 6 \<longleftrightarrow> i < 640 \<and> j < 640 \<and> minBlock ! (i mod 32) ! (j mod 32) = 6" for i j
      using terrain_cell [of i j t] by auto
    then show ?thesis by (simp only:)
  qed
  ultimately show ?thesis by (simp add: no_places_def)
qed

end
