(* ===== verification/World_Map.thy ===== *)
theory World_Map
  imports World_Positions Worker_Frames
begin

section \<open>WorldMapBase: the worker of the world map\<close>

text \<open>
  Models \<open>workers/simple_worker\<close>: \<open>redis_word_map.cpp\<close>, the services of
  \<open>_world_map_msg.cpp\<close>, the timer's work of \<open>_world_map_update.cpp\<close> and the dispatch of
  \<open>_world_map.cpp\<close>. Redis and what it replies is the parameter of \<open>Redis_Client\<close>; random
  numbers and times are arguments.
\<close>

record player_info =
  city_level :: int
  city_face :: int
  player_race :: int
  player_name :: string

record player_simple =
  simple_x :: int
  simple_y :: int
  simple_level :: int
  simple_name :: string

datatype near_by = Near_by nat "int \<Rightarrow> player_info option" "int \<Rightarrow> int option" "int set"

datatype world_message =
    MyWorldMapCoord int int
  | World_player_info player_info
  | NearByArea "near_by list"
  | SomePlayer "player_simple list"
  | PVEWin int int
  | Simple int int int

subsection \<open>RedisWordMap\<close>

text \<open>\<open>SimplerReader\<close> and \<open>SimpleWriter\<close>; an error reply is a null result.\<close>

definition reader :: "'c redis \<Rightarrow> string \<Rightarrow> ('c, reply option) db" where
  "reader R cmd = (\<lambda>c. case R cmd c of
     (None, _) \<Rightarrow> Inl NullPointer
   | (Some (Reply_error _), c') \<Rightarrow> Inr (None, c')
   | (Some r, c') \<Rightarrow> Inr (Some r, c'))"

definition writer :: "'c redis \<Rightarrow> string \<Rightarrow> ('c, unit) db" where
  "writer R cmd = (\<lambda>c. case R cmd c of (None, _) \<Rightarrow> Inl NullPointer | (Some _, c') \<Rightarrow> Inr ((), c'))"

text \<open>\<open>result->element[i]->str\<close>.\<close>

definition element_str :: "nat \<Rightarrow> reply \<Rightarrow> crash + string option" where
  "element_str i r = (case r of
     Reply_array ss \<Rightarrow> if i < length ss then Inr (map_option cstr (ss ! i)) else Inl OutOfRange
   | _ \<Rightarrow> Inl NullPointer)"

definition uid_text :: "u32 \<Rightarrow> string" where
  "uid_text uuid = gameToString (uint uuid)"

definition split_x_y :: "string \<Rightarrow> crash + bool \<times> (int \<times> int) option" where
  "split_x_y str =
     (let s = cstr str in
      if CHR ''#'' \<notin> set s then Inr (False, None)
      else let before = takeWhile (\<lambda>c. c \<noteq> CHR ''#'') s; after = drop (Suc (length before)) s in
        if 20 \<le> length before then Inl BufferOverflow
        else let x = to_short (atoi before); y = to_short (atoi after) in
          Inr (0 \<le> x \<and> x < 640 \<and> 0 \<le> y \<and> y < 640, Some (x, y)))"

text \<open>The fields that are asked for are \<open>coord#x\<close> and, misspelt, \<open>coodrd#y\<close>.\<close>

definition coord_fields :: "'c redis \<Rightarrow> u32 \<Rightarrow> ('c, (int \<times> int) option) db" where
  "coord_fields R uuid =
     db_bind (reader R (''HMGET user#'' @ uid_text uuid @ '' coord#x coodrd#y'')) (\<lambda>result. case result of
       None \<Rightarrow> db_return None
     | Some r \<Rightarrow>
         db_bind (db_lift (element_str 0 r)) (\<lambda>a. case a of
           None \<Rightarrow> db_return None
         | Some x \<Rightarrow> db_bind (db_lift (element_str 1 r)) (\<lambda>b. case b of
             None \<Rightarrow> db_return None
           | Some y \<Rightarrow> db_return (Some (atoi x, atoi y)))))"

definition get_player_worldinfo :: "'c redis \<Rightarrow> u32 \<Rightarrow> ('c, (int \<times> int) option) db" where
  "get_player_worldinfo R uuid =
     db_bind (coord_fields R uuid) (\<lambda>r. db_return (map_option (\<lambda>(x, y). (to_short x, to_short y)) r))"

definition add_new_player :: "'c redis \<Rightarrow> int \<Rightarrow> int \<Rightarrow> u32 \<Rightarrow> ('c, unit) db" where
  "add_new_player R x y uuid =
     db_bind (coord_fields R uuid) (\<lambda>old.
     db_bind (case old of
                None \<Rightarrow> db_return ()
              | Some (a, b) \<Rightarrow> writer R (''HDEL worldmap '' @ gameToString a @ ''#'' @ gameToString b)) (\<lambda>_.
     db_bind (writer R (''HSET worldmap '' @ gameToString x @ ''#'' @ gameToString y @ ''  '' @ uid_text uuid)) (\<lambda>_.
       writer R (''HMSET user#'' @ uid_text uuid @ '' coord#x '' @ gameToString x @ '' coord#y '' @ gameToString y))))"

text \<open>The arguments of \<open>sprintf\<close> are in another order than its format.\<close>

definition save_player_worldinfo :: "'c redis \<Rightarrow> int \<Rightarrow> int \<Rightarrow> u32 \<Rightarrow> ('c, unit) db" where
  "save_player_worldinfo R x y uuid =
     writer R (''HSET user#lastposition '' @ gameToString (x mod 2 ^ 32) @ '' '' @ gameToString y @ ''#'' @ gameToString (sint uuid))"

definition get_palyer_last :: "'c redis \<Rightarrow> int \<times> int \<Rightarrow> u32 \<Rightarrow> ('c, int \<times> int) db" where
  "get_palyer_last R xy uuid = (case xy of (x, y) \<Rightarrow>
     db_bind (reader R (''HGET user#lastposition '' @ gameToString (x mod 2 ^ 32))) (\<lambda>result. case result of
       Some (Reply_string s) \<Rightarrow>
         db_bind (db_lift (split_x_y s)) (\<lambda>(_, r). db_return (case r of None \<Rightarrow> (x, y) | Some p \<Rightarrow> p))
     | Some _ \<Rightarrow> db_lift (Inl NullPointer)
     | None \<Rightarrow>
         db_bind (reader R (''HMGET user#'' @ uid_text uuid @ '' coord#x coord#y'')) (\<lambda>result2. case result2 of
           None \<Rightarrow> db_return (x, y)
         | Some r \<Rightarrow>
             db_bind (db_lift (element_str 0 r)) (\<lambda>a.
             db_bind (db_lift (element_str 1 r)) (\<lambda>b.
               db_return (case a of None \<Rightarrow> 320 | Some s \<Rightarrow> to_short (atoi s),
                          case b of None \<Rightarrow> 320 | Some s \<Rightarrow> to_short (atoi s)))))))"

definition to_uchar :: "int \<Rightarrow> int" where
  "to_uchar i = i mod 256"

text \<open>\<open>p\<close> is what the structure held before: level and face stay when there is no city hall.\<close>

definition get_player_att :: "'c redis \<Rightarrow> player_info \<Rightarrow> u32 \<Rightarrow> ('c, player_info) db" where
  "get_player_att R p uuid =
     db_bind (reader R (''HMGET user#'' @ uid_text uuid @ '' race nickname city_hall_uuid '')) (\<lambda>result. case result of
       None \<Rightarrow> db_lift (Inl NullPointer)
     | Some (Reply_array ss) \<Rightarrow>
         db_bind (db_lift (element_str 0 (Reply_array ss))) (\<lambda>race.
         db_bind (db_lift (element_str 1 (Reply_array ss))) (\<lambda>nickname.
         db_bind (db_lift (element_str 2 (Reply_array ss))) (\<lambda>hall.
           let p1 = p\<lparr>player_race := (case race of None \<Rightarrow> 0 | Some s \<Rightarrow> to_uchar (atoi s)),
                      player_name := (case nickname of None \<Rightarrow> ''Not_Exsit_Name'' | Some s \<Rightarrow> s)\<rparr>;
               city_hall_uuid = (case hall of None \<Rightarrow> ''Not_Exsit_city_hall_uuid'' | Some s \<Rightarrow> s) in
           db_bind (reader R (''HGET build#'' @ uid_text uuid @ ''#'' @ city_hall_uuid @ ''  build_level  '')) (\<lambda>result2.
             case result2 of
               None \<Rightarrow> db_lift (Inl NullPointer)
             | Some (Reply_string s) \<Rightarrow> db_return (p1\<lparr>city_level := to_uchar (atoi (cstr s)), city_face := 0\<rparr>)
             | Some _ \<Rightarrow> db_return p1))))
     | Some _ \<Rightarrow> db_return p)"

subsection \<open>The state of the worker\<close>

record world =
  places :: free_places
  world_position :: terrain
  last_update :: "nat \<Rightarrow> int"
  area_players :: "nat \<Rightarrow> int \<Rightarrow> player_info option"
  area_resource :: "nat \<Rightarrow> int \<Rightarrow> int option"
  area_monster :: "nat \<Rightarrow> int set"
  simple_player_data :: "player_simple random_data"
  all_map_player_uuid :: "u32 list"
  player_last_update :: "u32 \<Rightarrow> int option"
  player_update_stutas :: "u32 \<Rightarrow> nat set option"

definition area_of :: "int \<Rightarrow> int \<Rightarrow> nat" where
  "area_of x y = nat (c_div y 8 * 80 + c_div x 8)"

text \<open>
  The cities of Redis are put on the map, pair by pair of the reply to HGETALL, until a
  key is not a place; \<open>garbage\<close> is the structure before \<open>get_player_att\<close>.
\<close>

fun put_cities :: "'c redis \<Rightarrow> player_info \<Rightarrow> string option list \<Rightarrow> world \<Rightarrow> ('c, world) db" where
  "put_cities R garbage (Some key # Some value # rest) w =
     db_bind (db_lift (split_x_y key)) (\<lambda>r. case r of
       (True, Some (x, y)) \<Rightarrow>
         let uuid = word_of_int (atoi (cstr value)) in
         db_bind (get_player_att R garbage uuid) (\<lambda>p.
           let area = area_of x y in
           put_cities R garbage rest (w\<lparr>world_position := set_cell (nat y) (nat x) 255 (world_position w),
             area_players := (area_players w)(area := (area_players w area)(position_key x y \<mapsto> p)),
             simple_player_data := AddMember \<lparr>simple_x = x, simple_y = y, simple_level = city_level p,
               simple_name = player_name p\<rparr> (simple_player_data w)\<rparr>))
     | _ \<Rightarrow> db_return w)"
| "put_cities R garbage [] w = db_return w"
| "put_cities R garbage ss w = db_lift (Inl NullPointer)"

definition word_map_player_init :: "'c redis \<Rightarrow> player_info \<Rightarrow> world \<Rightarrow> ('c, world) db" where
  "word_map_player_init R garbage w =
     db_bind (reader R ''HGETALL worldmap'') (\<lambda>result. case result of
       None \<Rightarrow> db_return w
     | Some (Reply_array ss) \<Rightarrow> put_cities R garbage ss w
     | Some _ \<Rightarrow> db_return w)"

text \<open>
  The constructor. \<open>memset(last_update, cur_time, ...)\<close> writes the low byte of the time
  into every byte.
\<close>

definition empty_world :: world where
  "empty_world = \<lparr>places = no_places, world_position = (\<lambda>_ _. 0), last_update = (\<lambda>_. 0),
     area_players = (\<lambda>_. Map.empty), area_resource = (\<lambda>_. Map.empty), area_monster = (\<lambda>_. {}),
     simple_player_data = \<lparr>mydata = [], back_up_data = []\<rparr>, all_map_player_uuid = [],
     player_last_update = Map.empty, player_update_stutas = Map.empty\<rparr>"

definition WorldMapBase :: "'c redis \<Rightarrow> player_info \<Rightarrow> int \<Rightarrow> ('c, world) db" where
  "WorldMapBase R garbage cur_time =
     (let w = empty_world\<lparr>last_update := (\<lambda>_. wrap_signed 64 (cur_time mod 256 * 0x0101010101010101)),
                world_position := first_terrain_init (\<lambda>_ _. 0)\<rparr> in
      db_bind (word_map_player_init R garbage w) (\<lambda>w1.
        db_return (w1\<lparr>places := check_remaining_position (world_position w1) (places w1)\<rparr>)))"

subsection \<open>Places for cities\<close>

definition GetRangePosition :: "'c redis \<Rightarrow> nat \<Rightarrow> u32 \<Rightarrow> world \<Rightarrow> ('c, (int \<times> int) option \<times> world) db" where
  "GetRangePosition R r uuid w =
     db_bind (get_player_worldinfo R uuid) (\<lambda>old.
       let fp = (case old of None \<Rightarrow> places w | Some (oldx, oldy) \<Rightarrow> AddNewPositionToMap oldx oldy (places w)) in
       case take_random r fp of
         None \<Rightarrow> db_return (None, w\<lparr>places := fp\<rparr>)
       | Some (key, fp1) \<Rightarrow>
           let x = to_short (key_x key); y = to_short (key_y key) in
           db_bind (add_new_player R x y uuid) (\<lambda>_. db_return (Some (x, y), w\<lparr>places := fp1\<rparr>)))"

text \<open>Without an old place the function ends without a return.\<close>

definition GetSettlePosition :: "'c redis \<Rightarrow> int \<Rightarrow> int \<Rightarrow> u32 \<Rightarrow> world \<Rightarrow> ('c, bool \<times> world) db" where
  "GetSettlePosition R x y uuid w =
     db_bind (get_player_worldinfo R uuid) (\<lambda>old. case old of
       None \<Rightarrow> db_lift (Inl MissingReturn)
     | Some (oldx, oldy) \<Rightarrow>
         db_bind (db_lift (take_place (position_key x y) (places w))) (\<lambda>taken. case taken of
           None \<Rightarrow> db_return (False, w)
         | Some fp \<Rightarrow>
             db_bind (add_new_player R x y uuid) (\<lambda>_.
               db_return (True, w\<lparr>places := AddNewPositionToMap oldx oldy fp\<rparr>))))"

subsection \<open>Services\<close>

type_synonym sent = "(u32 list \<times> world_message) list"

text \<open>\<open>SendToPlayerList\<close> sends nothing to an empty list.\<close>

definition to_list :: "u32 list \<Rightarrow> world_message \<Rightarrow> sent" where
  "to_list uuids m = (if uuids = [] then [] else [(uuids, m)])"

definition add_random_player :: "player_simple \<Rightarrow> world \<Rightarrow> world" where
  "add_random_player p w = w\<lparr>simple_player_data := AddMember p (simple_player_data w)\<rparr>"

definition RandomNewMapRequestService ::
  "'c redis \<Rightarrow> player_info \<Rightarrow> nat \<Rightarrow> int \<Rightarrow> u32 \<Rightarrow> world \<Rightarrow> ('c, world \<times> sent) db" where
  "RandomNewMapRequestService R garbage r now uuid w =
     db_bind (GetRangePosition R r uuid w) (\<lambda>(pos, w1). case pos of
       None \<Rightarrow> db_return (w1, [([uuid], Simple RandomNewMapRequest_ID 1000 (-1000))])
     | Some (x, y) \<Rightarrow>
         let area = area_of x y; key = position_key x y in
         db_bind (get_player_att R garbage uuid) (\<lambda>pres.
           let w2 = w1\<lparr>last_update := (last_update w1)(area := now),
                       area_players := (area_players w1)(area := (area_players w1 area)(key \<mapsto> pres))\<rparr> in
           db_return (add_random_player \<lparr>simple_x = x, simple_y = y, simple_level = city_level pres,
                simple_name = player_name pres\<rparr> w2,
             [([uuid], MyWorldMapCoord x y)] @ to_list (all_map_player_uuid w2) (World_player_info pres))))"

definition AddInNearBy :: "int \<Rightarrow> u32 \<Rightarrow> world \<times> near_by list \<Rightarrow> world \<times> near_by list" where
  "AddInNearBy area_num uuid st = (case st of (w, res) \<Rightarrow>
     if 0 < area_num \<and> area_num < 6400 then
       (case player_update_stutas w uuid of
          None \<Rightarrow> (w, res)
        | Some seen \<Rightarrow>
            let a = nat area_num in
            if a \<in> seen then (w, res)
            else (w\<lparr>player_update_stutas := (player_update_stutas w)(uuid \<mapsto> insert a seen)\<rparr>,
                  res @ [Near_by a (area_players w a) (area_resource w a) (area_monster w a)]))
     else (w, res))"

definition near_areas :: "int list" where
  "near_areas = [-1, 0, 1, -81, -80, -79, 79, 80, 81]"

definition WorldMapNearByRequestService :: "int \<Rightarrow> int \<Rightarrow> u32 \<Rightarrow> world \<Rightarrow> world \<times> sent" where
  "WorldMapNearByRequestService center_area now uuid w0 =
     (let w = (if player_last_update w0 uuid = None
               then w0\<lparr>player_update_stutas := (player_update_stutas w0)(uuid \<mapsto> {}),
                       player_last_update := (player_last_update w0)(uuid \<mapsto> 0),
                       all_map_player_uuid := all_map_player_uuid w0 @ [uuid]\<rparr>
               else w0);
          (w1, near_area) = fold (\<lambda>d. AddInNearBy (to_int32 (center_area + d)) uuid) near_areas (w, []) in
      if near_area \<noteq> []
      then (w1\<lparr>player_last_update := (player_last_update w1)(uuid \<mapsto> now)\<rparr>, [([uuid], NearByArea near_area)])
      else (w1, []))"

definition RandomMoveCityRequestService ::
  "'c redis \<Rightarrow> nat \<Rightarrow> u32 \<Rightarrow> world \<Rightarrow> ('c, world \<times> sent) db" where
  "RandomMoveCityRequestService R r uuid w =
     db_bind (GetRangePosition R r uuid w) (\<lambda>(pos, w1). db_return (w1, case pos of
       Some (x, y) \<Rightarrow> [([uuid], MyWorldMapCoord x y)]
     | None \<Rightarrow> [([uuid], Simple RandomMoveCityRequest_ID 1000 (-1000))]))"

definition SettleMoveCityRequestService ::
  "'c redis \<Rightarrow> int \<Rightarrow> int \<Rightarrow> u32 \<Rightarrow> world \<Rightarrow> ('c, world \<times> sent) db" where
  "SettleMoveCityRequestService R x y uuid w =
     db_bind (GetSettlePosition R (to_short x) (to_short y) uuid w) (\<lambda>(ok, w1). db_return (w1,
       if ok then [([uuid], MyWorldMapCoord x y)] else [([uuid], Simple SettleMoveCityRequest_ID 1000 (-1000))]))"

definition KillMonsterRequestService :: "u32 \<Rightarrow> world \<Rightarrow> world \<times> sent" where
  "KillMonsterRequestService uuid w = (w, [([uuid], PVEWin 1 1)])"

definition GetSomePlayerRequestService :: "nat list \<Rightarrow> u32 \<Rightarrow> world \<Rightarrow> world \<times> sent" where
  "GetSomePlayerRequestService rs uuid w =
     (let ((world_player, _), d) = GetSomeData (take 10 rs) (simple_player_data w);
          w1 = w\<lparr>simple_player_data := d\<rparr> in
      if world_player = [] then (w1, [([uuid], Simple GetSomePlayerRequest_ID 0 (-1))])
      else (w1, [([uuid], SomePlayer world_player)]))"

text \<open>The first entry of the player is replaced by the last one.\<close>

definition remove_player :: "u32 \<Rightarrow> u32 list \<Rightarrow> u32 list" where
  "remove_player uuid all =
     (let i = length (takeWhile (\<lambda>u. u \<noteq> uuid) all) in if i < length all then swap_remove i all else all)"

definition LeaveWordMapRequestService :: "u32 \<Rightarrow> world \<Rightarrow> world \<times> sent" where
  "LeaveWordMapRequestService uuid w =
     (w\<lparr>player_last_update := (player_last_update w)(uuid := None),
        all_map_player_uuid := remove_player uuid (all_map_player_uuid w),
        player_update_stutas := (player_update_stutas w)(uuid := None)\<rparr>, [])"

definition LogoutRequestService :: "u32 \<Rightarrow> world \<Rightarrow> world \<times> sent" where
  "LogoutRequestService uuid w =
     (w\<lparr>player_last_update := (player_last_update w)(uuid := None),
        all_map_player_uuid := remove_player uuid (all_map_player_uuid w),
        player_update_stutas := (player_update_stutas w)(uuid := None)\<rparr>, [])"

subsection \<open>Dispatch\<close>

text \<open>
  The requests after unpacking. \<open>world_input\<close> is what a service takes from outside:
  the time, the random number of a draw and of \<open>rand()\<close>, uninitialised memory.
\<close>

record 'o world_msgpack =
  unpack_world :: "string \<Rightarrow> 'o option"
  center_of :: "'o \<Rightarrow> int"
  settle_of :: "'o \<Rightarrow> int \<times> int"

record world_input =
  in_time :: int
  in_random :: nat
  in_rand :: "nat list"
  in_garbage :: player_info

definition MAX_SERVICE_NUM :: int where
  "MAX_SERVICE_NUM = 13"

definition world_service ::
  "'c redis \<Rightarrow> 'o world_msgpack \<Rightarrow> world_input \<Rightarrow> nat \<Rightarrow> 'o option \<Rightarrow> u32 \<Rightarrow> world \<Rightarrow> ('c, world \<times> sent) db" where
  "world_service R mp inp index request uuid w =
     (if index = 0 then
        (case request of None \<Rightarrow> db_lift (Inl NullPointer)
         | Some q \<Rightarrow> db_return (WorldMapNearByRequestService (center_of mp q) (in_time inp) uuid w))
      else if index = 1 then RandomNewMapRequestService R (in_garbage inp) (in_random inp) (in_time inp) uuid w
      else if index = 2 then RandomMoveCityRequestService R (in_random inp) uuid w
      else if index = 3 then
        (case request of None \<Rightarrow> db_lift (Inl NullPointer)
         | Some q \<Rightarrow> SettleMoveCityRequestService R (fst (settle_of mp q)) (snd (settle_of mp q)) uuid w)
      else if 4 \<le> index \<and> index \<le> 8 then db_return (w, [])
      else if index = 9 then db_return (KillMonsterRequestService uuid w)
      else if index = 10 then db_return (GetSomePlayerRequestService (in_rand inp) uuid w)
      else if index = 11 then db_return (LeaveWordMapRequestService uuid w)
      else if index = 12 then db_return (LogoutRequestService uuid w)
      else db_lift (Inl OutOfRange))"

definition world_dispatch ::
  "'c redis \<Rightarrow> 'o world_msgpack \<Rightarrow> world_input \<Rightarrow> int \<Rightarrow> 'o option \<Rightarrow> u32 \<Rightarrow> world \<Rightarrow> ('c, world \<times> sent) db" where
  "world_dispatch R mp inp index request uuid w =
     (if index < 0 \<or> MAX_SERVICE_NUM < index then db_return (w, [])
      else world_service R mp inp (nat index) request uuid w)"

text \<open>The answer to bytes that cannot be unpacked goes to nobody (its count is not a count).\<close>

definition world_process ::
  "'c redis \<Rightarrow> 'o world_msgpack \<Rightarrow> world_input \<Rightarrow> string \<Rightarrow> world \<Rightarrow> ('c, world \<times> sent) db" where
  "world_process R mp inp data w =
     (case parse_request data of
        Inl e \<Rightarrow> db_lift (Inl e)
      | Inr (player_uuid, message_id, packed) \<Rightarrow>
          if message_id = LogoutRequest_ID then world_dispatch R mp inp (MAX_SERVICE_NUM - 1) None player_uuid w
          else case unpack_world mp packed of
            None \<Rightarrow> db_return (w, [])
          | Some request \<Rightarrow>
              world_dispatch R mp inp (message_id - WorldMapNearByRequest_ID) (Some request) player_uuid w)"

subsection \<open>Resources and monsters\<close>

definition area_cells :: "nat \<Rightarrow> (nat \<times> nat) list" where
  "area_cells area =
     (let area_x = area mod 80; area_y = area div 80 in
      concat (map (\<lambda>j. map (\<lambda>i. (i, j)) [area_x * 8..<area_x * 8 + 8]) [area_y * 8..<area_y * 8 + 8]))"

definition check_remain_coord :: "nat \<Rightarrow> nat \<Rightarrow> terrain \<Rightarrow> (nat \<times> nat) list list" where
  "check_remain_coord checktype big_area_num t =
     map (\<lambda>k. filter (\<lambda>(i, j). t j i = checktype) (area_cells (big_area_num * 100 + k))) [0..<100]"

text \<open>
  A cell gets its resource: the map is written at \<open>[x][y]\<close>. \<open>n\<close> counts the random
  numbers \<open>draw 0, draw 1, ...\<close> used so far; iron takes none.
\<close>

definition put_resource :: "nat \<Rightarrow> int \<Rightarrow> nat \<times> nat \<Rightarrow> world \<Rightarrow> world" where
  "put_resource area ty xy w = (case xy of (x, y) \<Rightarrow>
     w\<lparr>world_position := set_cell x y 255 (world_position w),
       area_resource := (area_resource w)(area := (area_resource w area)(position_key (int x) (int y) \<mapsto> ty))\<rparr>)"

fun update_cells :: "(nat \<Rightarrow> nat) \<Rightarrow> bool \<Rightarrow> nat \<Rightarrow> int \<Rightarrow> (nat \<times> nat) list \<Rightarrow> bool \<times> nat \<times> world \<Rightarrow> bool \<times> nat \<times> world" where
  "update_cells draw drawn area ty [] st = st"
| "update_cells draw drawn area ty (xy # rest) (is_update, n, w) =
     (if \<not> drawn \<or> draw n mod 2 = 0
      then update_cells draw drawn area ty rest (True, if drawn then n + 1 else n, put_resource area ty xy w)
      else update_cells draw drawn area ty rest (is_update, n + 1, w))"

fun update_areas ::
  "(nat \<Rightarrow> nat) \<Rightarrow> bool \<Rightarrow> int \<Rightarrow> int \<Rightarrow> nat \<Rightarrow> (nat \<times> nat) list list \<Rightarrow> nat \<times> world \<Rightarrow> nat \<times> world" where
  "update_areas draw drawn ty cur_time area [] st = st"
| "update_areas draw drawn ty cur_time area (coords # rest) (n, w) =
     (case update_cells draw drawn area ty coords (False, n, w) of (is_update, n1, w1) \<Rightarrow>
        update_areas draw drawn ty cur_time (area + 1) rest
          (n1, if is_update then w1\<lparr>last_update := (last_update w1)(area := cur_time)\<rparr> else w1))"

definition update_wood :: "(nat \<Rightarrow> nat) \<Rightarrow> nat \<Rightarrow> (nat \<times> nat) list list \<Rightarrow> int \<Rightarrow> nat \<times> world \<Rightarrow> nat \<times> world" where
  "update_wood draw i resource_coord cur_time = update_areas draw True 3 cur_time (i * 100) resource_coord"

definition update_stone :: "(nat \<Rightarrow> nat) \<Rightarrow> nat \<Rightarrow> (nat \<times> nat) list list \<Rightarrow> int \<Rightarrow> nat \<times> world \<Rightarrow> nat \<times> world" where
  "update_stone draw i resource_coord cur_time = update_areas draw True 4 cur_time (i * 100) resource_coord"

definition update_iron :: "(nat \<Rightarrow> nat) \<Rightarrow> nat \<Rightarrow> (nat \<times> nat) list list \<Rightarrow> int \<Rightarrow> nat \<times> world \<Rightarrow> nat \<times> world" where
  "update_iron draw i resource_coord cur_time = update_areas draw False 5 cur_time (i * 100) resource_coord"

definition put_monster :: "nat \<Rightarrow> nat \<times> nat \<Rightarrow> world \<Rightarrow> world" where
  "put_monster area xy w = (case xy of (x, y) \<Rightarrow>
     w\<lparr>world_position := set_cell x y 255 (world_position w),
       area_monster := (area_monster w)(area := insert (position_key (int x) (int y)) (area_monster w area))\<rparr>)"

fun update_monster_areas :: "int \<Rightarrow> nat \<Rightarrow> (nat \<times> nat) list list \<Rightarrow> world \<Rightarrow> world" where
  "update_monster_areas cur_time area [] w = w"
| "update_monster_areas cur_time area (coords # rest) w =
     (let w1 = fold (put_monster area) coords w in
      update_monster_areas cur_time (area + 1) rest
        (if coords \<noteq> [] then w1\<lparr>last_update := (last_update w1)(area := cur_time)\<rparr> else w1))"

definition update_monstor :: "nat \<Rightarrow> (nat \<times> nat) list list \<Rightarrow> int \<Rightarrow> world \<Rightarrow> world" where
  "update_monstor i resource_coord cur_time w = update_monster_areas cur_time (i * 100) resource_coord w"

text \<open>\<open>i\<close> is the static counter of the big areas, from -1.\<close>

definition update_resource :: "(nat \<Rightarrow> nat) \<Rightarrow> int \<Rightarrow> int \<times> world \<Rightarrow> int \<times> world" where
  "update_resource draw update_time st = (case st of (i0, w0) \<Rightarrow>
     let i = (if i0 + 1 = 64 then 0 else i0 + 1); k = nat i;
         (n1, w1) = update_wood draw k (check_remain_coord 3 k (world_position w0)) update_time (0, w0);
         (n2, w2) = update_stone draw k (check_remain_coord 4 k (world_position w1)) update_time (n1, w1);
         (n3, w3) = update_iron draw k (check_remain_coord 5 k (world_position w2)) update_time (n2, w2)
     in (i, update_monstor k (check_remain_coord 2 k (world_position w3)) update_time w3))"

subsection \<open>Players on the map\<close>

lemma remove_player_ok:
  assumes "distinct xs"
  shows "distinct (remove_player u xs) \<and> set (remove_player u xs) = set xs - {u}"
proof (cases "u \<in> set xs")
  case True
  let ?i = "length (takeWhile (\<lambda>v. v \<noteq> u) xs)"
  have i: "?i < length xs" using True by (induction xs) auto
  then have "xs ! ?i = u" using nth_length_takeWhile [of "\<lambda>v. v \<noteq> u" xs] by simp
  with distinct_swap_remove [OF assms i] i show ?thesis by (simp add: remove_player_def Let_def)
next
  case False
  then have "takeWhile (\<lambda>v. v \<noteq> u) xs = xs" by (auto simp: takeWhile_eq_all_conv)
  then have "length (takeWhile (\<lambda>v. v \<noteq> u) xs) = length xs" by (rule arg_cong)
  with False assms show ?thesis by (simp add: remove_player_def Let_def)
qed

definition listed_ok :: "world \<Rightarrow> bool" where
  "listed_ok w \<longleftrightarrow> distinct (all_map_player_uuid w) \<and> dom (player_last_update w) = set (all_map_player_uuid w) \<and>
     dom (player_update_stutas w) = set (all_map_player_uuid w)"

definition same_players :: "world \<Rightarrow> world \<Rightarrow> bool" where
  "same_players w w' \<longleftrightarrow> all_map_player_uuid w' = all_map_player_uuid w \<and>
     player_last_update w' = player_last_update w \<and> player_update_stutas w' = player_update_stutas w"

lemma same_players_refl [simp]: "same_players w w"
  by (simp add: same_players_def)

lemma same_players_trans: "same_players w w1 \<Longrightarrow> same_players w1 w2 \<Longrightarrow> same_players w w2"
  by (simp add: same_players_def)

lemma listed_same: "listed_ok w \<Longrightarrow> same_players w w' \<Longrightarrow> listed_ok w'"
  by (simp add: listed_ok_def same_players_def)

lemma same_players_put [simp]:
  "same_players w (put_resource area ty xy w)" "same_players w (put_monster area xy w)"
  by (auto simp: same_players_def put_resource_def put_monster_def split: prod.split)

lemma same_players_update_cells: "update_cells draw drawn area ty xys (b, n, w) = (b', n', w') \<Longrightarrow> same_players w w'"
proof (induction xys arbitrary: b n w)
  case (Cons xy xys)
  then show ?case by (auto split: if_splits intro: same_players_trans [OF same_players_put(1)])
qed simp

lemma same_players_update_areas: "update_areas draw drawn ty t area css (n, w) = (n', w') \<Longrightarrow> same_players w w'"
proof (induction css arbitrary: area n w)
  case (Cons cs css)
  obtain b1 n1 w1 where u: "update_cells draw drawn area ty cs (False, n, w) = (b1, n1, w1)" by (metis prod_cases3)
  have "same_players w1 (if b1 then w1\<lparr>last_update := (last_update w1)(area := t)\<rparr> else w1)"
    by (simp add: same_players_def)
  moreover have "same_players w w1" using same_players_update_cells [OF u] .
  moreover have "same_players (if b1 then w1\<lparr>last_update := (last_update w1)(area := t)\<rparr> else w1) w'"
    using Cons.prems u by (intro Cons.IH) simp
  ultimately show ?case by (metis same_players_trans)
qed simp

lemma same_players_fold_monster: "same_players w (fold (put_monster area) xys w)"
  by (induction xys arbitrary: w) (auto intro: same_players_trans [OF same_players_put(2)])

lemma same_players_update_monster: "same_players w (update_monster_areas t area css w)"
proof (induction css arbitrary: area w)
  case (Cons cs css)
  let ?w = "fold (put_monster area) cs w"
  let ?w1 = "if cs \<noteq> [] then ?w\<lparr>last_update := (last_update ?w)(area := t)\<rparr> else ?w"
  have "same_players w ?w1" using same_players_fold_monster [of w area cs] by (simp add: same_players_def)
  from same_players_trans [OF this Cons.IH [of ?w1 "area + 1"]] show ?case by (simp add: Let_def)
qed simp

lemma same_players_update_resource: "update_resource draw t (i, w) = (i', w') \<Longrightarrow> same_players w w'"
  by (auto simp: update_resource_def update_wood_def update_stone_def update_iron_def update_monstor_def Let_def
      split: prod.splits if_splits dest!: same_players_update_areas)
    (blast intro: same_players_trans same_players_update_monster)+

lemma same_players_GetRangePosition: "GetRangePosition R r u w c = Inr ((pos, w'), c') \<Longrightarrow> same_players w w'"
  by (auto simp: GetRangePosition_def db_bind_eq_Inr Let_def same_players_def split: option.splits prod.splits)

lemma same_players_RandomNewMap:
  "RandomNewMapRequestService R g r t u w c = Inr ((w', out), c') \<Longrightarrow> same_players w w'"
  by (auto simp: RandomNewMapRequestService_def db_bind_eq_Inr Let_def add_random_player_def
      split: option.splits dest!: same_players_GetRangePosition) (auto simp: same_players_def)

lemma same_players_RandomMoveCity:
  "RandomMoveCityRequestService R r u w c = Inr ((w', out), c') \<Longrightarrow> same_players w w'"
  by (auto simp: RandomMoveCityRequestService_def db_bind_eq_Inr dest: same_players_GetRangePosition)

lemma same_players_SettleMoveCity:
  "SettleMoveCityRequestService R x y u w c = Inr ((w', out), c') \<Longrightarrow> same_players w w'"
  by (auto simp: SettleMoveCityRequestService_def GetSettlePosition_def db_bind_eq_Inr same_players_def
      db_lift_def split: option.splits)

lemma same_players_put_cities: "put_cities R g ss w c = Inr (w', c') \<Longrightarrow> same_players w w'"
proof (induction R g ss w arbitrary: c rule: put_cities.induct)
  case (1 R g key val rest w)
  from "1.prems" obtain r c1 where s: "split_x_y key = Inr r"
    and n: "(case r of (True, Some (x, y)) \<Rightarrow>
         let uuid = word_of_int (atoi (cstr val)) in
         db_bind (get_player_att R g uuid) (\<lambda>p.
           let area = area_of x y in
           put_cities R g rest (w\<lparr>world_position := set_cell (nat y) (nat x) 255 (world_position w),
             area_players := (area_players w)(area := (area_players w area)(position_key x y \<mapsto> p)),
             simple_player_data := AddMember \<lparr>simple_x = x, simple_y = y, simple_level = city_level p,
               simple_name = player_name p\<rparr> (simple_player_data w)\<rparr>))
     | _ \<Rightarrow> db_return w) c = Inr (w', c')"
    by (auto simp: db_bind_eq_Inr)
  show ?case
  proof (cases "\<exists>x y. r = (True, Some (x, y))")
    case False
    with n have "w' = w" by (auto split: prod.splits bool.splits option.splits)
    then show ?thesis by simp
  next
    case True
    then obtain x y where r: "r = (True, Some (x, y))" by blast
    with n obtain p c2 where
      "put_cities R g rest (w\<lparr>world_position := set_cell (nat y) (nat x) 255 (world_position w),
             area_players := (area_players w)(area_of x y := (area_players w (area_of x y))(position_key x y \<mapsto> p)),
             simple_player_data := AddMember \<lparr>simple_x = x, simple_y = y, simple_level = city_level p,
               simple_name = player_name p\<rparr> (simple_player_data w)\<rparr>) c2 = Inr (w', c')"
      by (auto simp: db_bind_eq_Inr Let_def)
    from "1.IH" [OF refl refl refl refl refl this] show ?thesis by (simp add: same_players_def)
  qed
qed auto

lemma same_players_init:
  assumes "word_map_player_init R g w c = Inr (w', c')"
  shows "same_players w w'"
proof -
  obtain r c1 where n: "(case r of None \<Rightarrow> db_return w
     | Some (Reply_array ss) \<Rightarrow> put_cities R g ss w
     | Some _ \<Rightarrow> db_return w) c1 = Inr (w', c')"
    using assms unfolding word_map_player_init_def db_bind_eq_Inr by blast
  show ?thesis
  proof (cases "\<exists>ss. r = Some (Reply_array ss)")
    case True
    with n show ?thesis by (auto intro: same_players_put_cities)
  next
    case False
    with n have "w' = w" by (cases r) (auto split: reply.splits)
    then show ?thesis by simp
  qed
qed

lemma AddInNearBy_players:
  "AddInNearBy a u (w, res) = (w', res') \<Longrightarrow> all_map_player_uuid w' = all_map_player_uuid w \<and>
     player_last_update w' = player_last_update w \<and> dom (player_update_stutas w') = dom (player_update_stutas w)"
  by (auto simp: AddInNearBy_def Let_def split: if_splits option.splits)

lemma fold_AddInNearBy_players:
  "fold (\<lambda>d. AddInNearBy (f d) u) ds (w, res) = (w', res') \<Longrightarrow> all_map_player_uuid w' = all_map_player_uuid w \<and>
     player_last_update w' = player_last_update w \<and> dom (player_update_stutas w') = dom (player_update_stutas w)"
proof (induction ds arbitrary: w res)
  case (Cons d ds)
  obtain w1 res1 where a: "AddInNearBy (f d) u (w, res) = (w1, res1)" by fastforce
  with Cons.prems have "fold (\<lambda>d. AddInNearBy (f d) u) ds (w1, res1) = (w', res')" by simp
  from Cons.IH [OF this] AddInNearBy_players [OF a] show ?case by simp
qed simp

lemma listed_NearBy:
  assumes "WorldMapNearByRequestService center now u w0 = (w', out)" and "listed_ok w0"
  shows "listed_ok w'"
proof -
  define w where "w = (if player_last_update w0 u = None
               then w0\<lparr>player_update_stutas := (player_update_stutas w0)(u \<mapsto> {}),
                       player_last_update := (player_last_update w0)(u \<mapsto> 0),
                       all_map_player_uuid := all_map_player_uuid w0 @ [u]\<rparr>
               else w0)"
  have "u \<in> set (all_map_player_uuid w0) \<longleftrightarrow> player_last_update w0 u \<noteq> None"
    using assms(2) by (auto simp: listed_ok_def)
  then have w: "listed_ok w" and u: "u \<in> set (all_map_player_uuid w)"
    using assms(2) by (auto simp: w_def listed_ok_def)
  obtain w1 res where f: "fold (\<lambda>d. AddInNearBy (to_int32 (center + d)) u) near_areas (w, []) = (w1, res)" by fastforce
  from fold_AddInNearBy_players [OF f] w have w1: "listed_ok w1" by (simp add: listed_ok_def)
  have u1: "u \<in> set (all_map_player_uuid w1)" using fold_AddInNearBy_players [OF f] u by simp
  have "w' = (if res \<noteq> [] then w1\<lparr>player_last_update := (player_last_update w1)(u \<mapsto> now)\<rparr> else w1)"
    using assms(1) f by (auto simp: WorldMapNearByRequestService_def w_def [symmetric] split: if_splits)
  then show ?thesis using w1 u1 by (auto simp: listed_ok_def)
qed

lemma listed_Leave: "listed_ok w \<Longrightarrow> listed_ok (fst (LeaveWordMapRequestService u w))"
  using remove_player_ok [of "all_map_player_uuid w" u] by (auto simp: LeaveWordMapRequestService_def listed_ok_def)

lemma Logout_is_Leave: "LogoutRequestService u w = LeaveWordMapRequestService u w"
  by (simp add: LogoutRequestService_def LeaveWordMapRequestService_def)

lemma listed_service:
  assumes "world_service R mp inp i request u w c = Inr ((w', out), c')" and "listed_ok w"
  shows "listed_ok w'"
proof -
  consider "i = 0" | "i = 1" | "i = 2" | "i = 3" | "4 \<le> i \<and> i \<le> 10" | "i = 11 \<or> i = 12" | "13 \<le> i" by linarith
  then show ?thesis
  proof cases
    case 1
    with assms show ?thesis
      by (auto simp: world_service_def db_lift_def intro: listed_NearBy split: option.splits)
  next
    case 2
    with assms(1) show ?thesis
      by (intro listed_same [OF assms(2) same_players_RandomNewMap]) (simp add: world_service_def)
  next
    case 3
    with assms(1) show ?thesis
      by (intro listed_same [OF assms(2) same_players_RandomMoveCity]) (simp add: world_service_def)
  next
    case 4
    with assms(1) obtain q where "SettleMoveCityRequestService R (fst (settle_of mp q)) (snd (settle_of mp q)) u w c = Inr ((w', out), c')"
      by (auto simp: world_service_def db_lift_def split: option.splits)
    then show ?thesis by (intro listed_same [OF assms(2) same_players_SettleMoveCity])
  next
    case 5
    with assms(1) have "same_players w w'"
      by (auto simp: world_service_def KillMonsterRequestService_def GetSomePlayerRequestService_def same_players_def
          Let_def split: if_splits prod.splits)
    then show ?thesis by (rule listed_same [OF assms(2)])
  next
    case 6
    with assms listed_Leave [OF assms(2), of u] show ?thesis
      by (auto simp: world_service_def Logout_is_Leave)
  next
    case 7
    with assms(1) show ?thesis by (simp add: world_service_def db_lift_def)
  qed
qed

text \<open>The worker's life: its start, requests of any players, and the timer.\<close>

inductive world_run :: "'c redis \<Rightarrow> 'o world_msgpack \<Rightarrow> world \<Rightarrow> bool" for R :: "'c redis" and mp :: "'o world_msgpack" where
  start: "WorldMapBase R garbage t c = Inr (w, c') \<Longrightarrow> world_run R mp w"
| request: "world_run R mp w \<Longrightarrow> world_process R mp inp data w c = Inr ((w', out), c') \<Longrightarrow> world_run R mp w'"
| timer: "world_run R mp w \<Longrightarrow> update_resource draw t (i, w) = (i', w') \<Longrightarrow> world_run R mp w'"

lemma world_run_listed: "world_run R mp w \<Longrightarrow> listed_ok w"
proof (induction rule: world_run.induct)
  case (start garbage t c w c')
  then obtain w1 c1 where i: "word_map_player_init R garbage (empty_world\<lparr>last_update := (\<lambda>_. wrap_signed 64 (t mod 256 * 0x0101010101010101)),
                world_position := first_terrain_init (\<lambda>_ _. 0)\<rparr>) c = Inr (w1, c1)"
    and w: "w = w1\<lparr>places := check_remaining_position (world_position w1) (places w1)\<rparr>"
    by (auto simp: WorldMapBase_def db_bind_eq_Inr Let_def)
  let ?w0 = "empty_world\<lparr>last_update := (\<lambda>_. wrap_signed 64 (t mod 256 * 0x0101010101010101)),
                world_position := first_terrain_init (\<lambda>_ _. 0)\<rparr>"
  have "same_players ?w0 w1"
    using i by (rule same_players_init)
  then have "same_players empty_world w" by (simp add: w same_players_def)
  moreover have "listed_ok empty_world" by (simp add: listed_ok_def empty_world_def)
  ultimately show ?case by (rule listed_same [rotated])
next
  case (request w inp data c w' out c')
  show ?case
  proof (cases "w' = w")
    case True
    with request show ?thesis by simp
  next
    case False
    with request(2) obtain i q u where "world_service R mp inp i q u w c = Inr ((w', out), c')"
      by (auto simp: world_process_def world_dispatch_def db_lift_def split: if_splits option.splits sum.splits)
    from listed_service [OF this request.IH] show ?thesis .
  qed
next
  case (timer w draw t i i' w')
  from listed_same [OF timer.IH same_players_update_resource [OF timer.hyps(2)]] show ?case .
qed

text \<open>
  C28. Players are listed once. Whatever the players ask for and the timer does, a player
  is in the list that broadcasts go to at most once, and exactly while the worker keeps
  his time of update and the areas he has seen.
\<close>

theorem players_listed_once:
  assumes "world_run R mp w"
  shows "distinct (all_map_player_uuid w) \<and>
    (u \<in> set (all_map_player_uuid w) \<longleftrightarrow> player_last_update w u \<noteq> None) \<and>
    (u \<in> set (all_map_player_uuid w) \<longleftrightarrow> player_update_stutas w u \<noteq> None)"
  using world_run_listed [OF assms] by (auto simp: listed_ok_def)


text \<open>A server that answers every command with nil, and the map that a worker starts with.\<close>

definition nil_server :: "unit redis" where
  "nil_server cmd c = (Some Reply_nil, c)"

definition started_world :: world where
  "started_world =
     (let t = first_terrain_init (\<lambda>_ _. 0) in
      empty_world\<lparr>last_update := (\<lambda>_. wrap_signed 64 0), world_position := t,
        places := check_remaining_position t no_places\<rparr>)"

definition one_center :: "unit world_msgpack" where
  "one_center = \<lparr>unpack_world = (\<lambda>_. Some ()), center_of = (\<lambda>_. 100), settle_of = (\<lambda>_. (3, 2))\<rparr>"

definition some_input :: world_input where
  "some_input = \<lparr>in_time = 5, in_random = 4, in_rand = [1, 2],
     in_garbage = \<lparr>city_level = 0, city_face = 0, player_race = 0, player_name = []\<rparr>\<rparr>"

lemma started_run: "world_run nil_server mp started_world"
proof -
  have "WorldMapBase nil_server (in_garbage some_input) 0 () = Inr (started_world, ())"
    by (simp add: WorldMapBase_def word_map_player_init_def reader_def nil_server_def started_world_def Let_def
        db_bind_def empty_world_def)
  then show ?thesis by (rule world_run.start)
qed

lemma near_by_run:
  assumes "world_run R one_center w"
  shows "world_run R one_center (fst (WorldMapNearByRequestService 100 5 7 w))"
proof -
  let ?r = "WorldMapNearByRequestService 100 5 7 w"
  have "parse_request (request_body 7 (le_short WorldMapNearByRequest_ID @ [])) = Inr (7, WorldMapNearByRequest_ID, [])"
    unfolding parse_request_body by (simp add: WorldMapNearByRequest_ID_def wrap_signed_def)
  then have "world_process R one_center some_input (request_body 7 (le_short WorldMapNearByRequest_ID @ [])) w c =
      Inr ((fst ?r, snd ?r), c)" for c
    by (simp add: world_process_def world_dispatch_def world_service_def one_center_def some_input_def
        WorldMapNearByRequest_ID_def LogoutRequest_ID_def MAX_SERVICE_NUM_def)
  from world_run.request [OF assms this] show ?thesis .
qed

theorem players_listed_once_witness:
  "let w = fst (WorldMapNearByRequestService 100 5 7 started_world) in
    distinct (all_map_player_uuid w) \<and>
    (7 \<in> set (all_map_player_uuid w) \<longleftrightarrow> player_last_update w 7 \<noteq> None) \<and>
    (7 \<in> set (all_map_player_uuid w) \<longleftrightarrow> player_update_stutas w 7 \<noteq> None)"
  using players_listed_once [OF near_by_run [OF started_run]] unfolding Let_def .

subsection \<open>What a player is shown\<close>

definition shown_areas :: "near_by list \<Rightarrow> nat list" where
  "shown_areas = map (\<lambda>n. case n of Near_by a _ _ _ \<Rightarrow> a)"

definition near_set :: "int \<Rightarrow> nat set" where
  "near_set center = {nat (to_int32 (center + d)) | d. d \<in> set near_areas \<and>
     0 < to_int32 (center + d) \<and> to_int32 (center + d) < 6400}"

definition seen_by :: "u32 \<Rightarrow> world \<Rightarrow> nat set" where
  "seen_by u w = (case player_update_stutas w u of None \<Rightarrow> {} | Some seen \<Rightarrow> seen)"

definition true_content :: "world \<Rightarrow> near_by \<Rightarrow> bool" where
  "true_content w n = (case n of Near_by a p r m \<Rightarrow> p = area_players w a \<and> r = area_resource w a \<and> m = area_monster w a)"

text \<open>Exactly the areas of \<open>new\<close> are sent, each once, as they are in \<open>w\<close>; nothing when there are none.\<close>

definition sends_areas :: "u32 \<Rightarrow> world \<Rightarrow> nat set \<Rightarrow> sent \<Rightarrow> bool" where
  "sends_areas u w new out \<longleftrightarrow>
     (if new = {} then out = []
      else \<exists>near. out = [([u], NearByArea near)] \<and> distinct (shown_areas near) \<and> set (shown_areas near) = new \<and>
        list_all (true_content w) near)"

definition same_map :: "world \<Rightarrow> world \<Rightarrow> bool" where
  "same_map w w' \<longleftrightarrow> area_players w' = area_players w \<and> area_resource w' = area_resource w \<and> area_monster w' = area_monster w"

lemma true_content_same: "same_map w w' \<Longrightarrow> true_content w' = true_content w"
  by (auto simp: true_content_def same_map_def fun_eq_iff split: near_by.split)

lemma fold_AddInNearBy:
  assumes "fold (\<lambda>d. AddInNearBy (f d) u) ds (w, res) = (w', res')" and "player_update_stutas w u = Some seen"
  shows "\<exists>new. res' = res @ new \<and> distinct (shown_areas new) \<and> list_all (true_content w) new \<and> same_map w w' \<and>
     set (shown_areas new) = {nat (f d) | d. d \<in> set ds \<and> 0 < f d \<and> f d < 6400} - seen \<and>
     player_update_stutas w' u = Some (seen \<union> {nat (f d) | d. d \<in> set ds \<and> 0 < f d \<and> f d < 6400})"
  using assms
proof (induction ds arbitrary: w res seen)
  case Nil
  then show ?case by (simp add: shown_areas_def same_map_def)
next
  case (Cons d ds)
  let ?N = "\<lambda>ds. {nat (f d) | d. d \<in> set ds \<and> 0 < f d \<and> f d < 6400}"
  have split: "?N (d # ds) = (if 0 < f d \<and> f d < 6400 then {nat (f d)} else {}) \<union> ?N ds" by auto
  show ?case
  proof (cases "0 < f d \<and> f d < 6400 \<and> nat (f d) \<notin> seen")
    case False
    then have "AddInNearBy (f d) u (w, res) = (w, res)"
      using Cons.prems(2) by (auto simp: AddInNearBy_def)
    with Cons.prems have "fold (\<lambda>d. AddInNearBy (f d) u) ds (w, res) = (w', res')" by simp
    from Cons.IH [OF this Cons.prems(2)] obtain new where new: "res' = res @ new" "distinct (shown_areas new)"
      "list_all (true_content w) new" "same_map w w'" "set (shown_areas new) = ?N ds - seen"
      "player_update_stutas w' u = Some (seen \<union> ?N ds)" by blast
    moreover have "?N (d # ds) - seen = ?N ds - seen" "seen \<union> ?N (d # ds) = seen \<union> ?N ds"
      using False unfolding split by auto
    ultimately show ?thesis by (intro exI [of _ new]) simp
  next
    case True
    let ?a = "nat (f d)"
    let ?w = "w\<lparr>player_update_stutas := (player_update_stutas w)(u \<mapsto> insert ?a seen)\<rparr>"
    let ?n = "Near_by ?a (area_players w ?a) (area_resource w ?a) (area_monster w ?a)"
    have "AddInNearBy (f d) u (w, res) = (?w, res @ [?n])"
      using True Cons.prems(2) by (simp add: AddInNearBy_def Let_def)
    with Cons.prems have f: "fold (\<lambda>d. AddInNearBy (f d) u) ds (?w, res @ [?n]) = (w', res')" by simp
    have "player_update_stutas ?w u = Some (insert ?a seen)" by simp
    from Cons.IH [OF f this] obtain new where new: "res' = (res @ [?n]) @ new" "distinct (shown_areas new)"
      "list_all (true_content ?w) new" "same_map ?w w'" "set (shown_areas new) = ?N ds - insert ?a seen"
      "player_update_stutas w' u = Some (insert ?a seen \<union> ?N ds)" by blast
    have same: "same_map w ?w" by (simp add: same_map_def)
    have "shown_areas (?n # new) = ?a # shown_areas new" by (simp add: shown_areas_def)
    moreover have "set (?a # shown_areas new) = ?N (d # ds) - seen" using True new(5) unfolding split by auto
    moreover have "insert ?a seen \<union> ?N ds = seen \<union> ?N (d # ds)" using True unfolding split by auto
    moreover have "list_all (true_content w) (?n # new)"
      using new(3) true_content_same [OF same] by (simp add: true_content_def)
    moreover have "same_map w w'" using same new(4) by (simp add: same_map_def)
    ultimately show ?thesis using new by (intro exI [of _ "?n # new"]) simp
  qed
qed

text \<open>
  Each area is shown once. In a reachable worker a request for the areas around a
  centre sends the player, once each and with the players, resources and monsters that are
  there, exactly those areas around it that he has not been sent, and nothing when there
  are none; area 0 is never among them.
\<close>

theorem areas_shown_once:
  assumes "world_run R mp w" and "WorldMapNearByRequestService center now u w = (w', out)"
  shows "sends_areas u w (near_set center - seen_by u w) out \<and>
    seen_by u w' = seen_by u w \<union> near_set center \<and> 0 \<notin> near_set center"
proof -
  define w0 where "w0 = (if player_last_update w u = None
               then w\<lparr>player_update_stutas := (player_update_stutas w)(u \<mapsto> {}),
                       player_last_update := (player_last_update w)(u \<mapsto> 0),
                       all_map_player_uuid := all_map_player_uuid w @ [u]\<rparr>
               else w)"
  have "player_last_update w u = None \<longleftrightarrow> player_update_stutas w u = None"
    using world_run_listed [OF assms(1)] unfolding listed_ok_def by (metis domIff)
  then have seen: "player_update_stutas w0 u = Some (seen_by u w)" and same0: "same_map w w0"
    by (auto simp: w0_def seen_by_def same_map_def)
  obtain w1 near where f: "fold (\<lambda>d. AddInNearBy (to_int32 (center + d)) u) near_areas (w0, []) = (w1, near)"
    by fastforce
  from fold_AddInNearBy [OF this seen] have near: "distinct (shown_areas near)" "list_all (true_content w0) near"
    "set (shown_areas near) = near_set center - seen_by u w"
    "player_update_stutas w1 u = Some (seen_by u w \<union> near_set center)"
    by (auto simp: near_set_def)
  have "w' = (if near \<noteq> [] then w1\<lparr>player_last_update := (player_last_update w1)(u \<mapsto> now)\<rparr> else w1)"
    and out: "out = (if near \<noteq> [] then [([u], NearByArea near)] else [])"
    using assms(2) f by (auto simp: WorldMapNearByRequestService_def w0_def [symmetric] split: if_splits)
  then have "seen_by u w' = seen_by u w \<union> near_set center" using near(4) by (simp add: seen_by_def)
  moreover have "near = [] \<longleftrightarrow> near_set center - seen_by u w = {}"
    unfolding near(3) [symmetric] by (simp add: shown_areas_def)
  ultimately show ?thesis
    using near out true_content_same [OF same0] by (auto simp: sends_areas_def near_set_def)
qed

theorem areas_shown_once_witness:
  "\<exists>w' out. WorldMapNearByRequestService 100 5 7 started_world = (w', out) \<and>
     sends_areas 7 started_world (near_set 100 - seen_by 7 started_world) out \<and>
     seen_by 7 w' = seen_by 7 started_world \<union> near_set 100 \<and> 0 \<notin> near_set 100"
proof -
  obtain w' out where "WorldMapNearByRequestService 100 5 7 started_world = (w', out)" by fastforce
  with areas_shown_once [OF started_run this] show ?thesis by blast
qed

subsection \<open>The old place of a city\<close>

text \<open>
  HMGET replies with one element for each field, nil for a field that the hash does not
  have; no command of the worker sets a field \<open>coodrd#y\<close>.
\<close>

definition misspelt_unset :: "'c redis \<Rightarrow> bool" where
  "misspelt_unset R \<longleftrightarrow> (\<forall>u c. \<exists>x c'. R (''HMGET user#'' @ uid_text u @ '' coord#x coodrd#y'') c = (Some (Reply_array [x, None]), c'))"

lemma coord_fields_unset: "misspelt_unset R \<Longrightarrow> \<exists>c'. coord_fields R u c = Inr (None, c')"
proof -
  assume "misspelt_unset R"
  then obtain x c' where "R (''HMGET user#'' @ uid_text u @ '' coord#x coodrd#y'') c = (Some (Reply_array [x, None]), c')"
    unfolding misspelt_unset_def by blast
  then have "coord_fields R u c = Inr (None, c')"
    by (cases x) (simp_all add: coord_fields_def db_bind_def reader_def element_str_def)
  then show ?thesis ..
qed

text \<open>
  Old places are never freed. As the field \<open>coodrd#y\<close> is never set, a request to move
  a city to a given place never ends with an answer, and a move to a random place takes a
  place of the table without giving the old one back.
\<close>

theorem old_places_never_freed:
  assumes "misspelt_unset R"
  shows "\<not> is_ok (SettleMoveCityRequestService R x y u w c) \<and>
    (case RandomMoveCityRequestService R r u w c of Inl e \<Rightarrow> True
     | Inr ((w', out), c') \<Rightarrow> length (map_key (places w')) = length (map_key (places w)) - 1)"
proof -
  obtain c' where "coord_fields R u c = Inr (None, c')" using coord_fields_unset [OF assms] by blast
  then have old: "get_player_worldinfo R u c = Inr (None, c')" by (simp add: get_player_worldinfo_def)
  have "SettleMoveCityRequestService R x y u w c = Inl MissingReturn"
    using old by (simp add: SettleMoveCityRequestService_def GetSettlePosition_def db_bind_def)
  moreover have "length (map_key (places w')) = length (map_key (places w)) - 1"
    if move: "RandomMoveCityRequestService R r u w c = Inr ((w', out), c2)" for w' out c2
  proof (cases "take_random r (places w)")
    case None
    then have "map_key (places w) = []" by (auto simp: take_random_def Let_def split: if_splits)
    moreover have "w' = w"
      using move old None by (auto simp: RandomMoveCityRequestService_def GetRangePosition_def db_bind_eq_Inr)
    ultimately show ?thesis by simp
  next
    case (Some kf)
    obtain k fp where kf: "kf = (k, fp)" by fastforce
    then have "length (map_key fp) = length (map_key (places w)) - 1"
      using Some by (auto simp: take_random_def Let_def split: if_splits)
    moreover have "places w' = fp"
      using move old Some kf
      by (auto simp: RandomMoveCityRequestService_def GetRangePosition_def db_bind_eq_Inr Let_def)
    ultimately show ?thesis by simp
  qed
  ultimately show ?thesis by (auto split: sum.split)
qed

definition no_y_server :: "unit redis" where
  "no_y_server cmd c = (Some (Reply_array [Some ''3'', None]), c)"

theorem old_places_never_freed_witness:
  "\<not> is_ok (SettleMoveCityRequestService no_y_server 3 2 7 started_world ()) \<and>
    (case RandomMoveCityRequestService no_y_server 4 7 started_world () of Inl e \<Rightarrow> True
     | Inr ((w', out), c') \<Rightarrow> length (map_key (places w')) = length (map_key (places started_world)) - 1)"
proof -
  have "misspelt_unset no_y_server" by (simp add: misspelt_unset_def no_y_server_def)
  from old_places_never_freed [OF this] show ?thesis .
qed

subsection \<open>Resources\<close>

lemma put_resource_fields:
  "world_position (put_resource a ty (x, y) w) = (\<lambda>i j. if i = x \<and> j = y then 255 else world_position w i j)"
  "area_resource (put_resource a ty (x, y) w) a = (area_resource w a)(position_key (int x) (int y) \<mapsto> ty)"
  "b \<noteq> a \<Longrightarrow> area_resource (put_resource a ty (x, y) w) b = area_resource w b"
  by (simp_all add: put_resource_def set_cell_def fun_eq_iff)

lemma iron_cells:
  "update_cells draw False a ty xys (b, n, w) = (b', n', w') \<Longrightarrow>
     n' = n \<and> (b' \<longleftrightarrow> b \<or> xys \<noteq> []) \<and>
     (\<forall>i j. world_position w' i j = (if (i, j) \<in> set xys then 255 else world_position w i j)) \<and>
     (\<forall>k. area_resource w' a k = (if k \<in> (\<lambda>(x, y). position_key (int x) (int y)) ` set xys then Some ty else area_resource w a k)) \<and>
     (\<forall>c. c \<noteq> a \<longrightarrow> area_resource w' c = area_resource w c)"
proof (induction xys arbitrary: b n w)
  case Nil
  then show ?case by simp
next
  case (Cons xy xys)
  obtain x y where xy: "xy = (x, y)" by fastforce
  from Cons.prems have "update_cells draw False a ty xys (True, n, put_resource a ty xy w) = (b', n', w')" by simp
  from Cons.IH [OF this] show ?case unfolding xy by (auto simp: put_resource_fields)
qed

lemma iron_areas:
  "update_areas draw False ty t a css (n, w) = (n', w') \<Longrightarrow>
     n' = n \<and> (\<forall>i j. world_position w' i j = (if (i, j) \<in> \<Union> (set (map set css)) then 255 else world_position w i j)) \<and>
     (\<forall>c < a. area_resource w' c = area_resource w c) \<and>
     (\<forall>m < length css. \<forall>k. area_resource w' (a + m) k =
        (if k \<in> (\<lambda>(x, y). position_key (int x) (int y)) ` set (css ! m) then Some ty else area_resource w (a + m) k))"
proof (induction css arbitrary: a n w)
  case Nil
  then show ?case by simp
next
  case (Cons cs css)
  obtain b1 n1 w1 where u: "update_cells draw False a ty cs (False, n, w) = (b1, n1, w1)" by (metis prod_cases3)
  define w2 where "w2 = (if b1 then w1\<lparr>last_update := (last_update w1)(a := t)\<rparr> else w1)"
  have f: "world_position w2 = world_position w1" "area_resource w2 = area_resource w1" by (simp_all add: w2_def)
  from Cons.prems u have r: "update_areas draw False ty t (a + 1) css (n1, w2) = (n', w')" by (simp add: w2_def)
  note c = iron_cells [OF u] and s = Cons.IH [OF r]
  show ?case
  proof (intro conjI allI impI)
    show "n' = n" using c s by simp
    show "world_position w' i j = (if (i, j) \<in> \<Union> (set (map set (cs # css))) then 255 else world_position w i j)" for i j
      using c s f by simp
    show "area_resource w' b = area_resource w b" if "b < a" for b
      using that c s f by simp
    show "area_resource w' (a + m) k = (if k \<in> (\<lambda>(x, y). position_key (int x) (int y)) ` set ((cs # css) ! m)
        then Some ty else area_resource w (a + m) k)" if m: "m < length (cs # css)" for m k
    proof (cases m)
      case 0
      have "area_resource w' a = area_resource w2 a" using s by simp
      then show ?thesis using c f 0 by simp
    next
      case (Suc m')
      with m have "m' < length css" by simp
      with s have "area_resource w' (a + 1 + m') k = (if k \<in> (\<lambda>(x, y). position_key (int x) (int y)) ` set (css ! m')
        then Some ty else area_resource w2 (a + 1 + m') k)" by blast
      moreover have "area_resource w2 (a + 1 + m') = area_resource w (a + 1 + m')" using c f by simp
      ultimately show ?thesis using Suc by simp
    qed
  qed
qed

lemma check_remain_at:
  "m < 100 \<Longrightarrow> set (check_remain_coord ty k t ! m) = {(i, j). (i, j) \<in> set (area_cells (k * 100 + m)) \<and> t j i = ty}"
  by (auto simp: check_remain_coord_def)

text \<open>
  Iron is put on every cell of its terrain, and its own cell is not marked. When
  the timer updates the iron of a block of areas, each free iron cell gets a resource in
  its area; but the cell that is marked on the map is the transposed one, so a cell whose
  transposed cell is not iron of the block is free again for the next update.
\<close>

theorem iron_marks_transposed:
  assumes "update_iron draw k (check_remain_coord 5 k (world_position w)) t (n, w) = (n', w')"
    and "m < 100" and "(i, j) \<in> set (check_remain_coord 5 k (world_position w) ! m)"
  shows "area_resource w' (k * 100 + m) (position_key (int i) (int j)) = Some 5 \<and> world_position w' i j = 255 \<and>
    ((j, i) \<notin> \<Union> (set (map set (check_remain_coord 5 k (world_position w)))) \<longrightarrow>
      (i, j) \<in> set (check_remain_coord 5 k (world_position w') ! m))"
proof -
  let ?c = "check_remain_coord 5 k (world_position w)"
  have len: "length ?c = 100" by (simp add: check_remain_coord_def)
  note a = iron_areas [OF assms(1) [unfolded update_iron_def]]
  have key: "position_key (int i) (int j) \<in> (\<lambda>(x, y). position_key (int x) (int y)) ` set (?c ! m)"
    using assms(3) by force
  have "?c ! m \<in> set ?c" using assms(2) len by (intro nth_mem) simp
  then have "(i, j) \<in> \<Union> (set (map set ?c))" using assms(3) by auto
  moreover have "(i, j) \<in> set (check_remain_coord 5 k (world_position w') ! m)" if "(j, i) \<notin> \<Union> (set (map set ?c))"
  proof -
    have "world_position w' j i = world_position w j i" using a that by simp
    then show ?thesis using assms(3) unfolding check_remain_at [OF assms(2)] by simp
  qed
  ultimately show ?thesis using a key assms(2) len by (simp add: mult.commute)
qed

definition one_iron :: world where
  "one_iron = empty_world\<lparr>world_position := (\<lambda>r c. if r = 3 \<and> c = 2 then 5 else 0)\<rparr>"

theorem iron_marks_transposed_witness:
  "\<exists>n' w'. update_iron (\<lambda>_. 0) 0 (check_remain_coord 5 0 (world_position one_iron)) 9 (0, one_iron) = (n', w') \<and>
    area_resource w' (0 * 100 + 0) (position_key (int 2) (int 3)) = Some 5 \<and> world_position w' 2 3 = 255 \<and>
    (2, 3) \<in> set (check_remain_coord 5 0 (world_position w') ! 0)"
proof -
  obtain n' w' where u: "update_iron (\<lambda>_. 0) 0 (check_remain_coord 5 0 (world_position one_iron)) 9 (0, one_iron) = (n', w')"
    by fastforce
  have cells: "(2, 3) \<in> set (area_cells (0 * 100 + 0))" by (simp add: area_cells_def image_iff)
  then have here: "(2, 3) \<in> set (check_remain_coord 5 0 (world_position one_iron) ! 0)"
    using check_remain_at [of 0 5 0 "world_position one_iron"] by (simp add: one_iron_def)
  have "world_position one_iron 2 3 \<noteq> 5" by (simp add: one_iron_def)
  then have other: "(3, 2) \<notin> \<Union> (set (map set (check_remain_coord 5 0 (world_position one_iron))))"
    by (auto simp: check_remain_coord_def)
  from iron_marks_transposed [OF u _ here] other u show ?thesis by simp
qed

subsection \<open>Dispatch by id\<close>

text \<open>
  The table of services is one id behind. With the ids of \<open>msgpack_id.h\<close> a request to
  study a skill removes the player from the map as a request to leave the map does, a request to leave the
  map is handled as a logout, and an id after it calls through the end of the table.
\<close>

theorem services_of_ids:
  "world_dispatch R mp inp (StudySkillRequest_ID - WorldMapNearByRequest_ID) q u w c = Inr (LeaveWordMapRequestService u w, c) \<and>
    world_dispatch R mp inp (LeaveWordMapRequest_ID - WorldMapNearByRequest_ID) q u w c = Inr (LogoutRequestService u w, c) \<and>
    world_dispatch R mp inp (LeaveWordMapRequest_ID + 1 - WorldMapNearByRequest_ID) q u w c = Inl OutOfRange \<and>
    world_dispatch R mp inp (GetSomePlayerRequest_ID - WorldMapNearByRequest_ID) q u w c =
      Inr (GetSomePlayerRequestService (in_rand inp) u w, c)"
  by (simp add: world_dispatch_def world_service_def StudySkillRequest_ID_def WorldMapNearByRequest_ID_def
      LeaveWordMapRequest_ID_def GetSomePlayerRequest_ID_def MAX_SERVICE_NUM_def)

end
