(* ===== verification/Player_Data.thy ===== *)
theory Player_Data
  imports Redis_Client Worker_Frames
begin

section \<open>A player in the gateway\<close>

text \<open>
  The structures of \<open>module/msgpack_struct.h\<close> that the gateway keeps for a player, the
  data members of \<open>LoginWorker\<close>, and what its handlers do to the outside: answers to the
  client, writes to Redis and to the table of diamonds, in the order of the code. A
  \<open>float\<close> that is only copied is its bit pattern. A map is a function to an option, an
  array of pointers a list of options.
\<close>

type_synonym float_bits = u32

record build_data =
  build_sn :: string
  big_type :: int
  status :: int
  ctime :: int
  btime :: int
  build_type :: int
  build_level :: int
  cur_hp :: int
  build_skin :: int
  cur_resource :: int
  build_x :: float_bits
  build_y :: float_bits

record equip =
  witch_pannle :: int
  where_uuid :: string
  position :: int
  equip_sn :: string
  part :: int
  quality :: int
  equip_level :: int
  attr1_type :: int
  attr1_value :: int
  attr2_type :: int
  attr2_value :: int
  extral1_type :: int
  extral1_value :: int
  extral2_type :: int
  extral2_value :: int
  diamond_cost :: int

record market_goods =
  goods_player :: string
  remain_time :: int
  goods_cost :: int
  goods_type :: int
  goods_position :: int
  goods_sn :: string
  goods_part :: int
  goods_quality :: int
  goods_level :: int
  goods_attr1_type :: int
  goods_attr1_value :: int
  goods_attr2_type :: int
  goods_attr2_value :: int
  goods_extral1_type :: int
  goods_extral1_value :: int
  goods_extral2_type :: int
  goods_extral2_value :: int

record email_sale =
  email_uuid :: string
  email_diamond :: int
  email_time :: int
  other_name :: string
  email_equip :: equip

record hero_base =
  base_leader :: float_bits
  base_strategy :: float_bits
  base_economy :: float_bits
  base_strength :: float_bits
  base_magic_power :: float_bits
  base_hp :: float_bits
  base_mp :: float_bits
  base_attack :: float_bits
  base_defence :: float_bits

text \<open>The soldiers of a hero, which the gateway only copies, are left out.\<close>

record hero =
  hero_sn :: int
  hero_name :: string
  hero_uuid :: string
  hero_quality :: int
  hero_level :: int
  leader :: float_bits
  strategy :: float_bits
  economy :: float_bits
  strength :: float_bits
  magic_power :: float_bits
  leader_grow :: float_bits
  strategy_grow :: float_bits
  economy_grow :: float_bits
  strength_grow :: float_bits
  magic_power_grow :: float_bits
  hero_cur_hp :: int
  max_hp :: int
  cur_mp :: int
  max_mp :: int
  attack :: int
  defence :: int
  pre_skill :: int
  study_skill :: int
  cur_goods_space :: int
  max_goods_space :: int
  exp_points :: int
  hero_type :: int
  job :: int
  base_att :: hero_base

record attributes =
  player_index :: int
  diamond :: int
  wood :: int
  stone :: int
  iron :: int
  soil :: int
  player_nick :: string
  city_hall_uuid :: string
  my_build :: "string \<Rightarrow> build_data option"
  backpack_num :: int
  recuite_type :: int
  chance_num :: int
  build_num :: "int \<Rightarrow> int option"
  combat_uuid :: string
  player_race :: int
  player_record :: int
  player_level :: int
  worldmap_x :: int
  worldmap_y :: int
  groupId :: int
  group_position :: int

record login_worker =
  player_UUID :: u32
  login_status :: bool
  my_attribute :: attributes
  building_timer :: "string \<Rightarrow> nat option"
  building :: "string list"
  backpack_status :: "bool list"
  my_backpack :: "equip list"
  my_hero :: "hero option list"
  rand_hero :: "hero option list"
  hero_equip :: "string \<Rightarrow> equip list option"
  email_sale_list :: "string \<Rightarrow> email_sale option"

subsection \<open>Ids of requests\<close>

definition RegisterRequest_ID :: int where "RegisterRequest_ID = 1005"
definition SetNameRequest_ID :: int where "SetNameRequest_ID = 1006"
definition BindEmailRequest_ID :: int where "BindEmailRequest_ID = 1007"
definition AttackEnemyRequest_ID :: int where "AttackEnemyRequest_ID = 1008"
definition BuildCreateRequest_ID :: int where "BuildCreateRequest_ID = 1010"
definition BuildUpgradeRequest_ID :: int where "BuildUpgradeRequest_ID = 1011"
definition GetMyAssetRequest_ID :: int where "GetMyAssetRequest_ID = 1012"
definition GetRandNameRequest_ID :: int where "GetRandNameRequest_ID = 1014"
definition DressEquipRequest_ID :: int where "DressEquipRequest_ID = 1015"
definition UnloadEquipRequest_ID :: int where "UnloadEquipRequest_ID = 1016"
definition SaleGoodsRequest_ID :: int where "SaleGoodsRequest_ID = 1017"
definition BuyMarketGoodsRequest_ID :: int where "BuyMarketGoodsRequest_ID = 1019"
definition OpenBoxRequest_ID :: int where "OpenBoxRequest_ID = 1020"
definition RecruitRequest_ID :: int where "RecruitRequest_ID = 1021"
definition GetRandHeroRequest_ID :: int where "GetRandHeroRequest_ID = 1022"
definition DropHeroRequest_ID :: int where "DropHeroRequest_ID = 1023"
definition GetEmailGoodsRequest_ID :: int where "GetEmailGoodsRequest_ID = 1024"
definition FastFinishRequest_ID :: int where "FastFinishRequest_ID = 1026"
definition UpgradeArmTypeRequest_ID :: int where "UpgradeArmTypeRequest_ID = 1027"
definition CancelHeroRequest_ID :: int where "CancelHeroRequest_ID = 1029"
definition SetArmsToHeroRequest_ID :: int where "SetArmsToHeroRequest_ID = 1030"

lemmas gateway_ids = RegisterRequest_ID_def SetNameRequest_ID_def BindEmailRequest_ID_def AttackEnemyRequest_ID_def
  BuildCreateRequest_ID_def BuildUpgradeRequest_ID_def GetMyAssetRequest_ID_def GetRandNameRequest_ID_def
  DressEquipRequest_ID_def UnloadEquipRequest_ID_def SaleGoodsRequest_ID_def BuyMarketGoodsRequest_ID_def
  OpenBoxRequest_ID_def RecruitRequest_ID_def GetRandHeroRequest_ID_def DropHeroRequest_ID_def
  GetEmailGoodsRequest_ID_def FastFinishRequest_ID_def UpgradeArmTypeRequest_ID_def CancelHeroRequest_ID_def
  SetArmsToHeroRequest_ID_def

subsection \<open>Effects\<close>

datatype response =
    SimpleResponse int int int
  | MyBuildDataResponse build_data
  | AssetResponse int int int int int
  | GetMyAssetResponse int int int int
  | EquipResponse equip
  | HeroResponse hero
  | HeroListResponse "hero list"
  | MarketListResponse int "market_goods list"
  | EmailSaleResponse email_sale

datatype redis_call =
    set_build build_data
  | set_build_timer string
  | set_buidl_num int
  | set_my_build_num int int
  | set_material int int int int
  | set_arm_max_level int int
  | set_equip equip
  | del_equip string
  | set_email_sale email_sale
  | del_email_sale email_sale
  | set_hero hero
  | del_hero string
  | move_hero "hero option list" int
  | set_recurite int int
  | set_combat_uuid string
  | set_city_hall string
  | write_market market_goods
  | delete_market string

datatype effect =
    Answer response
  | Give_email u32 email_sale
  | Redis u32 redis_call
  | update_diamond int u32

abbreviation Simple_answer :: "int \<Rightarrow> int \<Rightarrow> effect" where
  "Simple_answer msgid result \<equiv> Answer (SimpleResponse msgid 0 result)"

definition asset_answer :: "attributes \<Rightarrow> effect" where
  "asset_answer a = Answer (AssetResponse (wood a) (stone a) (iron a) (soil a) (diamond a))"

definition write_material :: "u32 \<Rightarrow> attributes \<Rightarrow> effect" where
  "write_material u a = Redis u (set_material (wood a) (stone a) (iron a) (soil a))"

subsection \<open>The game's configuration\<close>

text \<open>
  The tables that \<open>mysql_game_configbuff.cpp\<close> reads from the database: a parameter.
  So is floating point: \<open>produced output t\<close> is the amount that \<open>output\<close> per hour gives in
  \<open>t\<close> seconds, \<open>float_plus x i\<close> the sum of a float and an integer, and the last four are
  the integers that the expressions for a hero's strength give:
  \<open>strength * 5 + hp\<close>, \<open>magic_power + mp\<close>, \<open>base + strength\<close>, \<open>base + strength * 0.02\<close>.
\<close>

record build_config =
  config_big_type :: int
  need_wood :: int
  need_stone :: int
  need_iron :: int
  need_soil :: int
  need_diamond :: int
  config_time :: int
  output_per_hour :: int
  space :: int
  config_hp :: int

record limit =
  max_level :: int
  max_num :: int

record game =
  global_build :: "build_config list list"
  city_limit :: "limit list list"
  arm_levels :: "nat list"
  produced :: "int \<Rightarrow> int \<Rightarrow> int"
  float_plus :: "float_bits \<Rightarrow> int \<Rightarrow> float_bits"
  hp_of :: "float_bits \<Rightarrow> int \<Rightarrow> int"
  mp_of :: "float_bits \<Rightarrow> int \<Rightarrow> int"
  attack_of :: "float_bits \<Rightarrow> float_bits \<Rightarrow> int"
  defence_of :: "float_bits \<Rightarrow> float_bits \<Rightarrow> int"

text \<open>A write to Redis fills in an empty \<open>where_uuid\<close> and an empty name.\<close>

definition stored_equip :: "equip \<Rightarrow> equip" where
  "stored_equip e = (if where_uuid e = [] \<or> where_uuid e = ''  '' then e\<lparr>where_uuid := ''NoUUID''\<rparr> else e)"

definition stored_email :: "email_sale \<Rightarrow> email_sale" where
  "stored_email r =
     (let r1 = (if other_name r = [] \<or> other_name r = '' '' then r\<lparr>other_name := ''NoName''\<rparr> else r) in
      if email_diamond r1 \<le> 0 then r1\<lparr>email_equip := stored_equip (email_equip r1)\<rparr> else r1)"

text \<open>An index into a vector: outside of it the read is undefined.\<close>

definition at :: "'a list \<Rightarrow> int \<Rightarrow> crash + 'a" where
  "at xs i = (if 0 \<le> i \<and> i < int (length xs) then Inr (xs ! nat i) else Inl OutOfRange)"

lemma at_eq_Inr [simp]: "at xs i = Inr a \<longleftrightarrow> 0 \<le> i \<and> i < int (length xs) \<and> xs ! nat i = a"
  by (auto simp: at_def)

definition config_of :: "game \<Rightarrow> int \<Rightarrow> int \<Rightarrow> crash + build_config" where
  "config_of g ty lv = bind_r (at (global_build g) ty) (\<lambda>levels. at levels lv)"

definition limit_of :: "game \<Rightarrow> int \<Rightarrow> int \<Rightarrow> crash + limit" where
  "limit_of g city_level ty = bind_r (at (city_limit g) city_level) (\<lambda>types. at types ty)"

subsection \<open>Space in the backpack\<close>

definition first_free :: "bool list \<Rightarrow> int" where
  "first_free bs = (let n = length (takeWhile id bs) in if n < length bs then int n else -1)"

definition GetBackpack :: "login_worker \<Rightarrow> int" where
  "GetBackpack l =
     (let n = backpack_num (my_attribute l) in
      if n < 12 \<or> 64 < n then -1 else first_free (take (nat n) (backpack_status l)))"

lemma GetBackpack_free:
  assumes "GetBackpack l = i" and "i \<noteq> -1" and "length (backpack_status l) = 64"
  shows "0 \<le> i \<and> i < backpack_num (my_attribute l) \<and> i < 64 \<and> \<not> backpack_status l ! nat i"
proof -
  let ?bs = "take (nat (backpack_num (my_attribute l))) (backpack_status l)"
  have n: "12 \<le> backpack_num (my_attribute l)" "backpack_num (my_attribute l) \<le> 64"
    and i: "i = int (length (takeWhile id ?bs))" and less: "length (takeWhile id ?bs) < length ?bs"
    using assms by (auto simp: GetBackpack_def Let_def first_free_def split: if_splits)
  have "\<not> ?bs ! length (takeWhile id ?bs)" using nth_length_takeWhile [OF less] by simp
  moreover have "length (takeWhile id ?bs) < nat (backpack_num (my_attribute l))" using less by simp
  ultimately show ?thesis using n i assms(3) by (simp add: zless_nat_conj) linarith
qed

end
