(* ===== verification/Mysql_Pool.thy ===== *)
theory Mysql_Pool
  imports Player_Data
begin

section \<open>Connections to MySQL\<close>

text \<open>
  Models the pool of \<open>module/mysql_base.cpp\<close>: a \<open>Reader\<close> or a \<open>Writer\<close> takes a connection
  in its constructor and gives it back in its destructor. A connection of the pool is open
  or was closed; those beyond the first \<open>connect_min_num\<close> are closed when they are given
  back and stay in the vector. That a connection can be made is documented behaviour of the
  server; where it cannot, \<open>init_connect\<close> ends the program.
\<close>

record mysql_base =
  use_connect_num :: int
  connect_min_num :: int
  connect_max_num :: int
  index_list :: "int list"
  mysql_connect_pool :: "bool list"

definition MysqlBase :: "nat \<Rightarrow> mysql_base" where
  "MysqlBase n = \<lparr>use_connect_num = 0, connect_min_num = int n, connect_max_num = 20000, index_list = map int [0..<n],
     mysql_connect_pool = replicate n True\<rparr>"

text \<open>The number is an \<open>int\<close>, the size unsigned: a negative number is larger than any size.\<close>

definition get_connect :: "mysql_base \<Rightarrow> int \<times> mysql_base" where
  "get_connect p =
     (let n = use_connect_num p + 1; p1 = p\<lparr>use_connect_num := n\<rparr> in
      if n < 0 \<or> int (length (mysql_connect_pool p)) < n then
        if connect_max_num p < n then (-3, p1)
        else (n - 1, p1\<lparr>mysql_connect_pool := mysql_connect_pool p @ [True]\<rparr>)
      else if index_list p \<noteq> [] then (last (index_list p), p1\<lparr>index_list := butlast (index_list p)\<rparr>)
      else (int (length (mysql_connect_pool p)), p1\<lparr>mysql_connect_pool := mysql_connect_pool p @ [True]\<rparr>))"

text \<open>A connection that is closed twice was freed before.\<close>

definition release_connect :: "int \<Rightarrow> mysql_base \<Rightarrow> crash + mysql_base" where
  "release_connect i p =
     bind_r (if connect_min_num p \<le> i then
               bind_r (at (mysql_connect_pool p) i) (\<lambda>open_now. if open_now
                 then Inr (p\<lparr>mysql_connect_pool := (mysql_connect_pool p)[nat i := False]\<rparr>) else Inl UseAfterFree)
             else Inr (p\<lparr>index_list := index_list p @ [i]\<rparr>))
       (\<lambda>p1. Inr (p1\<lparr>use_connect_num := use_connect_num p1 - 1\<rparr>))"

text \<open>The constructor of a \<open>Reader\<close> or a \<open>Writer\<close>, which sends its statement on the connection.\<close>

definition open_query :: "mysql_base \<Rightarrow> crash + int \<times> mysql_base" where
  "open_query p = (case get_connect p of (i, p1) \<Rightarrow>
     bind_r (at (mysql_connect_pool p1) i) (\<lambda>open_now. if open_now then Inr (i, p1) else Inl UseAfterFree))"

subsection \<open>Queries that overlap\<close>

text \<open>A query starts, or the one that is \<open>k\<close>th among those that run ends.\<close>

datatype query_event = Begin | End nat

definition query_step :: "query_event \<Rightarrow> int list \<times> mysql_base \<Rightarrow> crash + int list \<times> mysql_base" where
  "query_step e s = (case s of (running, p) \<Rightarrow> (case e of
     Begin \<Rightarrow> bind_r (open_query p) (\<lambda>(i, p1). Inr (running @ [i], p1))
   | End k \<Rightarrow> if k < length running
       then bind_r (release_connect (running ! k) p) (\<lambda>p1. Inr (take k running @ drop (Suc k) running, p1))
       else Inr s))"

fun query_run :: "query_event list \<Rightarrow> int list \<times> mysql_base \<Rightarrow> crash + int list \<times> mysql_base" where
  "query_run [] s = Inr s"
| "query_run (e # es) s = bind_r (query_step e s) (query_run es)"

definition pool_ok :: "int list \<times> mysql_base \<Rightarrow> bool" where
  "pool_ok s = (case s of (running, p) \<Rightarrow>
     use_connect_num p = int (length running) \<and> distinct (running @ index_list p) \<and> 0 \<le> connect_min_num p \<and>
     list_all (\<lambda>i. 0 \<le> i \<and> i < int (length (mysql_connect_pool p)) \<and> mysql_connect_pool p ! nat i) (running @ index_list p) \<and>
     list_all (\<lambda>i. i < connect_min_num p) (index_list p) \<and> length running \<le> length (mysql_connect_pool p))"

lemma pool_okI:
  assumes "use_connect_num p = int (length running)" and "distinct (running @ index_list p)" and "0 \<le> connect_min_num p"
    and "\<And>i. i \<in> set (running @ index_list p) \<Longrightarrow> 0 \<le> i \<and> i < int (length (mysql_connect_pool p)) \<and> mysql_connect_pool p ! nat i"
    and "\<And>i. i \<in> set (index_list p) \<Longrightarrow> i < connect_min_num p" and "length running \<le> length (mysql_connect_pool p)"
  shows "pool_ok (running, p)"
  using assms unfolding pool_ok_def list_all_iff by blast

lemma pool_ok_start: "pool_ok ([], MysqlBase n)"
  by (auto simp: pool_ok_def MysqlBase_def list_all_iff distinct_map)

text \<open>As many connections as are counted cannot be more than the vector has.\<close>

lemma distinct_below:
  assumes "distinct xs" and "list_all (\<lambda>i. 0 \<le> i \<and> i < int n) xs"
  shows "length xs \<le> n"
proof -
  have "set xs \<subseteq> {0..<int n}" using assms(2) by (auto simp: list_all_iff)
  then have "card (set xs) \<le> card {0..<int n}" by (rule card_mono [OF finite_atLeastLessThan_int])
  then show ?thesis by (simp add: distinct_card [OF assms(1)])
qed

lemma Begin_ok:
  assumes "pool_ok (running, p)" and "int (length running) < connect_max_num p"
  obtains i p1 where "query_step Begin (running, p) = Inr (running @ [i], p1)" and "pool_ok (running @ [i], p1)"
    and "connect_max_num p1 = connect_max_num p" and "connect_min_num p1 = connect_min_num p" and "i \<notin> set running"
proof -
  let ?pool = "mysql_connect_pool p" and ?n = "int (length (mysql_connect_pool p))"
  from assms(1) have u: "use_connect_num p = int (length running)" and d: "distinct (running @ index_list p)"
    and r: "list_all (\<lambda>i. 0 \<le> i \<and> i < ?n \<and> ?pool ! nat i) (running @ index_list p)"
    and m: "0 \<le> connect_min_num p" and im: "list_all (\<lambda>i. i < connect_min_num p) (index_list p)"
    and l: "length running \<le> length ?pool" by (auto simp: pool_ok_def)
  have all: "length (running @ index_list p) \<le> length ?pool"
    using r by (intro distinct_below [OF d]) (auto simp: list_all_iff)
  have fresh: "?n \<notin> set (running @ index_list p)" using r by (auto simp: list_all_iff)
  let ?grown = "p\<lparr>use_connect_num := use_connect_num p + 1, mysql_connect_pool := ?pool @ [True]\<rparr>"
  have grown: "pool_ok (running @ [?n], ?grown)"
  proof (rule pool_okI)
    fix i assume "i \<in> set ((running @ [?n]) @ index_list ?grown)"
    then have "i = ?n \<or> (0 \<le> i \<and> i < ?n \<and> ?pool ! nat i)" using r unfolding list_all_iff by auto
    then show "0 \<le> i \<and> i < int (length (mysql_connect_pool ?grown)) \<and> mysql_connect_pool ?grown ! nat i"
      by (auto simp: nth_append nat_less_iff)
  qed (use u d m im l fresh in \<open>auto simp: list_all_iff\<close>)
  show ?thesis
  proof (cases "length running = length ?pool \<or> index_list p = []")
    case True
    then have g: "get_connect p = (?n, ?grown)"
      using u assms(2) l all by (auto simp: get_connect_def Let_def)
    have "query_step Begin (running, p) = Inr (running @ [?n], ?grown)"
      by (simp add: query_step_def open_query_def g at_def)
    with grown fresh show ?thesis by (intro that [of ?n ?grown]) auto
  next
    case False
    then obtain rest i where i: "index_list p = rest @ [i]" by (metis append_butlast_last_id)
    let ?p = "p\<lparr>use_connect_num := use_connect_num p + 1, index_list := rest\<rparr>"
    have "get_connect p = (i, ?p)" using False u l i by (auto simp: get_connect_def Let_def)
    then have "query_step Begin (running, p) = Inr (running @ [i], ?p)"
      using r i by (simp add: query_step_def open_query_def at_def)
    moreover have "pool_ok (running @ [i], ?p)"
      using u d r m im i all by (auto simp: pool_ok_def list_all_iff)
    ultimately show ?thesis using d i by (intro that [of i ?p]) auto
  qed
qed

lemma End_ok:
  assumes "pool_ok (running, p)"
  obtains running1 p1 where "query_step (End k) (running, p) = Inr (running1, p1)" and "pool_ok (running1, p1)"
    and "connect_max_num p1 = connect_max_num p" and "connect_min_num p1 = connect_min_num p"
    and "length running1 = (if k < length running then length running - 1 else length running)"
proof (cases "k < length running")
  case False
  with assms show ?thesis by (intro that [of running p]) (simp_all add: query_step_def)
next
  case True
  let ?pool = "mysql_connect_pool p" and ?i = "running ! k" and ?rest = "take k running @ drop (Suc k) running"
  have split: "running = take k running @ ?i # drop (Suc k) running" using True by (rule id_take_nth_drop)
  from assms have u: "use_connect_num p = int (length running)" and d: "distinct (running @ index_list p)"
    and r: "list_all (\<lambda>i. 0 \<le> i \<and> i < int (length ?pool) \<and> ?pool ! nat i) (running @ index_list p)"
    and m: "0 \<le> connect_min_num p" and im: "list_all (\<lambda>i. i < connect_min_num p) (index_list p)"
    and l: "length running \<le> length ?pool" by (auto simp: pool_ok_def)
  have d1: "distinct (?rest @ ?i # index_list p)" using d by (subst (asm) split) auto
  have r1: "0 \<le> i \<and> i < int (length ?pool) \<and> ?pool ! nat i" if "i \<in> set (?rest @ ?i # index_list p)" for i
  proof -
    have "i \<in> set (running @ index_list p)" using that by (subst split) auto
    then show ?thesis using r unfolding list_all_iff by blast
  qed
  have i1: "0 \<le> ?i \<and> ?i < int (length ?pool) \<and> ?pool ! nat ?i" by (rule r1) simp
  have im1: "i < connect_min_num p" if "i \<in> set (index_list p)" for i using im that by (simp add: list_all_iff)
  have u1: "use_connect_num p - 1 = int (length ?rest)" and l1: "length ?rest \<le> length ?pool" using True u l by auto
  show ?thesis
  proof (cases "connect_min_num p \<le> ?i")
    case big: True
    let ?p = "p\<lparr>mysql_connect_pool := ?pool[nat ?i := False], use_connect_num := use_connect_num p - 1\<rparr>"
    have "query_step (End k) (running, p) = Inr (?rest, ?p)"
      using True big i1 by (simp add: query_step_def release_connect_def at_def)
    moreover have "pool_ok (?rest, ?p)"
    proof (rule pool_okI)
      fix j assume j: "j \<in> set (?rest @ index_list ?p)"
      then have "j \<noteq> ?i" "0 \<le> j \<and> j < int (length ?pool) \<and> ?pool ! nat j" using d1 r1 [of j] by auto
      with i1 show "0 \<le> j \<and> j < int (length (mysql_connect_pool ?p)) \<and> mysql_connect_pool ?p ! nat j"
        by (simp add: nth_list_update eq_nat_nat_iff)
    qed (use u1 l1 d1 m im1 in simp_all)
    ultimately show ?thesis using True by (intro that [of ?rest ?p]) auto
  next
    case small: False
    let ?p = "p\<lparr>index_list := index_list p @ [?i], use_connect_num := use_connect_num p - 1\<rparr>"
    have "query_step (End k) (running, p) = Inr (?rest, ?p)"
      using True small by (simp add: query_step_def release_connect_def)
    moreover have "pool_ok (?rest, ?p)"
    proof (rule pool_okI)
      fix j assume "j \<in> set (?rest @ index_list ?p)"
      then have "j \<in> set (?rest @ ?i # index_list p)" by auto
      from r1 [OF this] show "0 \<le> j \<and> j < int (length (mysql_connect_pool ?p)) \<and> mysql_connect_pool ?p ! nat j" by simp
    qed (use u1 l1 d1 m im1 small in auto)
    ultimately show ?thesis using True by (intro that [of ?rest ?p]) auto
  qed
qed

text \<open>How many queries overlap at most, when \<open>n\<close> run at first.\<close>

fun most_running :: "query_event list \<Rightarrow> nat \<Rightarrow> nat" where
  "most_running [] n = n"
| "most_running (Begin # es) n = max (n + 1) (most_running es (n + 1))"
| "most_running (End k # es) n = most_running es (if k < n then n - 1 else n)"

lemma query_run_ok:
  assumes "pool_ok (running, p)" and "int (most_running es (length running)) \<le> connect_max_num p"
  shows "\<exists>running1 p1. query_run es (running, p) = Inr (running1, p1) \<and> pool_ok (running1, p1)"
  using assms
proof (induction es arbitrary: running p)
  case (Cons e es)
  show ?case
  proof (cases e)
    case Begin
    have "int (length running) < connect_max_num p"
      using Cons.prems(2) Begin by simp
    with Cons.prems(1) obtain i p1 where s: "query_step Begin (running, p) = Inr (running @ [i], p1)"
      and ok: "pool_ok (running @ [i], p1)" "connect_max_num p1 = connect_max_num p" by (rule Begin_ok)
    have "int (most_running es (length (running @ [i]))) \<le> connect_max_num p1" using Cons.prems(2) Begin ok(2) by simp
    from Cons.IH [OF ok(1) this] show ?thesis by (simp add: Begin s)
  next
    case (End k)
    obtain running1 p1 where s: "query_step (End k) (running, p) = Inr (running1, p1)" and ok: "pool_ok (running1, p1)"
      "connect_max_num p1 = connect_max_num p" "length running1 = (if k < length running then length running - 1 else length running)"
      using Cons.prems(1) by (rule End_ok)
    have "int (most_running es (length running1)) \<le> connect_max_num p1"
      using Cons.prems(2) End ok(2,3) by simp
    from Cons.IH [OF ok(1) this] show ?thesis by (simp add: End s)
  qed
qed simp

text \<open>
  C27. Queries do not share a connection. As long as at most 20000 queries overlap, the
  pool gives each one that runs a connection of its own that is open, never one that was
  closed, and its count is the number of those that run; no index is out of the vector.
\<close>

theorem queries_have_own_connections:
  assumes "most_running es 0 \<le> 20000"
  shows "\<exists>running p. query_run es ([], MysqlBase n) = Inr (running, p) \<and> distinct running \<and>
    use_connect_num p = int (length running) \<and> (\<forall>i. i \<in> set running \<longrightarrow> at (mysql_connect_pool p) i = Inr True)"
proof -
  obtain running p where r: "query_run es ([], MysqlBase n) = Inr (running, p)" and ok: "pool_ok (running, p)"
    using query_run_ok [OF pool_ok_start, of es n] assms by (auto simp: MysqlBase_def)
  from ok have "\<forall>i. i \<in> set running \<longrightarrow> at (mysql_connect_pool p) i = Inr True" by (auto simp: pool_ok_def list_all_iff)
  with r ok show ?thesis by (auto simp: pool_ok_def)
qed

theorem queries_have_own_connections_witness:
  "\<exists>running p. query_run [Begin, Begin, Begin, End 2, End 0, Begin, Begin] ([], MysqlBase 2) = Inr (running, p) \<and> distinct running"
  using queries_have_own_connections [of "[Begin, Begin, Begin, End 2, End 0, Begin, Begin]" 2] by auto

text \<open>
  The vector grows with every query beyond the first ones: the third query of a pool of two
  leaves its closed connection behind, and the next third query makes a new one.
\<close>

lemma closed_connections_stay:
  "query_run [Begin, Begin, Begin, End 2, Begin, End 2, Begin] ([], MysqlBase 2) =
     Inr ([1, 0, 4], \<lparr>use_connect_num = 3, connect_min_num = 2, connect_max_num = 20000, index_list = [],
       mysql_connect_pool = [True, True, False, False, True]\<rparr>)"
  by code_simp

end
