(* ===== verification/Buildings.thy ===== *)
theory Buildings
  imports Player_Data
begin

section \<open>Buildings of a player\<close>

text \<open>
  Models the handlers of buildings in \<open>gateway_server/service/_login_worker_logicworker.cpp\<close>:
  construction with its timers, the resources that buildings produce, finishing for
  diamonds and the levels of arms. Times, the new building's number and what Redis
  returned are arguments; a handler ends in a crash or gives the new state and its effects.
\<close>

definition put_build :: "string \<Rightarrow> build_data \<Rightarrow> login_worker \<Rightarrow> login_worker" where
  "put_build sn b l = l\<lparr>my_attribute := (my_attribute l)\<lparr>my_build := (my_build (my_attribute l))(sn \<mapsto> b)\<rparr>\<rparr>"

definition finished :: "int \<Rightarrow> build_config \<Rightarrow> build_data \<Rightarrow> build_data" where
  "finished now c b0 =
     (let b = b0\<lparr>status := 0, btime := 0, build_level := to_int32 (build_level b0 + 1), cur_hp := config_hp c\<rparr> in
      if big_type b = 2 then b\<lparr>status := 0, ctime := now, btime := 0, cur_resource := 0\<rparr> else b)"

definition build_timer_handle :: "game \<Rightarrow> int \<Rightarrow> string \<Rightarrow> login_worker \<Rightarrow> crash + login_worker \<times> effect list" where
  "build_timer_handle g now sn l =
     (case my_build (my_attribute l) sn of
        None \<Rightarrow> Inr (l, [])
      | Some b0 \<Rightarrow>
          bind_r (config_of g (build_type b0) (to_int32 (build_level b0 + 1))) (\<lambda>c.
            let b = finished now c b0;
                l1 = put_build sn b l;
                (l2, answers) = (if building_timer l1 sn \<noteq> None
                                 then (l1\<lparr>building_timer := (building_timer l1)(sn := None)\<rparr>, [Answer (MyBuildDataResponse b)])
                                 else (l1, [])) in
            Inr (l2\<lparr>building := filter (\<lambda>s. s \<noteq> sn) (building l2)\<rparr>,
                 answers @ [Redis (player_UUID l) (set_build b)])))"

text \<open>The callers have put the building; the wait is an \<open>unsigned int\<close> of milliseconds.\<close>

definition en_timer :: "string \<Rightarrow> login_worker \<Rightarrow> login_worker" where
  "en_timer sn l =
     (case my_build (my_attribute l) sn of
        None \<Rightarrow> l
      | Some b \<Rightarrow> l\<lparr>building_timer := (building_timer l)(sn \<mapsto> nat (btime b * 1000 mod 2 ^ 32))\<rparr>)"

text \<open>A construction starts: it is listed, and timed when it takes at most 1100 seconds.\<close>

definition construct :: "string \<Rightarrow> build_data \<Rightarrow> login_worker \<Rightarrow> login_worker" where
  "construct sn b l =
     (let l1 = l\<lparr>building := building l @ [sn]\<rparr> in if btime b \<le> 1100 then en_timer sn l1 else l1)"

text \<open>\<open>stored\<close> is what \<open>get_build_map\<close> reads.\<close>

definition BuildStatusListRequestService ::
  "(string \<Rightarrow> build_data option) \<Rightarrow> (string \<times> float_bits \<times> float_bits) list \<Rightarrow> login_worker \<Rightarrow> login_worker \<times> effect list" where
  "BuildStatusListRequestService stored build_status_list l =
     foldl (\<lambda>(l, out) (sn, x, y). case my_build (my_attribute l) sn of
              None \<Rightarrow> (l, out)
            | Some b \<Rightarrow> let b1 = b\<lparr>build_x := x, build_y := y\<rparr> in
                (put_build sn b1 l, out @ [Redis (player_UUID l) (set_build b1)]))
       (l\<lparr>my_attribute := (my_attribute l)\<lparr>my_build := stored\<rparr>\<rparr>, []) build_status_list"

definition affordable :: "build_config \<Rightarrow> attributes \<Rightarrow> bool" where
  "affordable c a \<longleftrightarrow> need_soil c \<le> soil a \<and> need_stone c \<le> stone a \<and> need_iron c \<le> iron a \<and> need_wood c \<le> wood a"

definition pay :: "build_config \<Rightarrow> attributes \<Rightarrow> attributes" where
  "pay c a = a\<lparr>soil := to_int32 (soil a - need_soil c), stone := to_int32 (stone a - need_stone c),
     iron := to_int32 (iron a - need_iron c), wood := to_int32 (wood a - need_wood c)\<rparr>"

definition BuildCreateRequestService ::
  "game \<Rightarrow> int \<Rightarrow> string \<Rightarrow> int \<Rightarrow> float_bits \<Rightarrow> float_bits \<Rightarrow> login_worker \<Rightarrow> crash + login_worker \<times> effect list" where
  "BuildCreateRequestService g now new_sn ty x y l =
     (let a = my_attribute l; u = player_UUID l; error = Inr (l, [Simple_answer BuildCreateRequest_ID (-1)]) in
      if 0 < ty \<and> ty < int (length (global_build g)) then
        let count = (case build_num a ty of None \<Rightarrow> 0 | Some n \<Rightarrow> n) in
        bind_r (config_of g ty 0) (\<lambda>c.
          if affordable c a \<and> need_diamond c \<le> diamond a then
            (case my_build a (city_hall_uuid a) of
               None \<Rightarrow> error
             | Some hall \<Rightarrow>
                 bind_r (limit_of g (build_level hall) ty) (\<lambda>lim.
                   if count < max_num lim then
                     let a1 = pay c a;
                         a2 = a1\<lparr>diamond := to_int32 (diamond a1 - need_diamond c)\<rparr>;
                         b = \<lparr>build_sn = new_sn, big_type = config_big_type c, status = 1, ctime = now,
                              btime = config_time c, build_type = ty, build_level = 0, cur_hp = config_hp c,
                              build_skin = 0, cur_resource = 0, build_x = x, build_y = y\<rparr>;
                         l1 = construct new_sn b (put_build new_sn b (l\<lparr>my_attribute := a2\<rparr>));
                         n = to_int32 (count + 1) in
                     Inr (l1\<lparr>my_attribute := (my_attribute l1)\<lparr>build_num := (build_num a)(ty \<mapsto> n)\<rparr>\<rparr>,
                       [update_diamond (diamond a2) u, write_material u a2, Redis u (set_build_timer new_sn),
                       Redis u (set_build b), Redis u (set_buidl_num (int (card (dom (my_build (my_attribute l1)))) + 1)),
                       Redis u (set_my_build_num ty n), Answer (MyBuildDataResponse b), asset_answer a2])
                   else Inr (l, [])))
          else error)
      else error)"

definition BuildUpgradeRequestService ::
  "game \<Rightarrow> int \<Rightarrow> string \<Rightarrow> login_worker \<Rightarrow> crash + login_worker \<times> effect list" where
  "BuildUpgradeRequestService g now sn l =
     (let a = my_attribute l; u = player_UUID l; error = Inr (l, [Simple_answer BuildUpgradeRequest_ID (-1)]) in
      case (my_build a (city_hall_uuid a), my_build a sn) of
        (Some hall, Some b0) \<Rightarrow>
          bind_r (limit_of g (build_level hall) (build_type b0)) (\<lambda>lim.
            if build_level b0 < max_level lim \<and> status b0 \<noteq> 1 then
              bind_r (config_of g (build_type b0) (build_level b0)) (\<lambda>c.
                if affordable c a then
                  let a1 = pay c a;
                      b = b0\<lparr>status := 1, ctime := now, btime := config_time c\<rparr>;
                      l1 = put_build (build_sn b) b (put_build sn b (l\<lparr>my_attribute := a1\<rparr>)) in
                  Inr (construct (build_sn b) b l1,
                    [write_material u a1, Redis u (set_build_timer (build_sn b)), Redis u (set_build b),
                    Answer (MyBuildDataResponse b), asset_answer a1])
                else error)
            else error)
      | _ \<Rightarrow> error)"

definition collected :: "int \<Rightarrow> int \<Rightarrow> attributes \<Rightarrow> attributes" where
  "collected ty n a =
     (if ty = 8 then a\<lparr>wood := to_int32 (wood a + n)\<rparr>
      else if ty = 9 then a\<lparr>stone := to_int32 (stone a + n)\<rparr>
      else if ty = 10 then a\<lparr>iron := to_int32 (iron a + n)\<rparr>
      else if ty = 11 then a\<lparr>soil := to_int32 (soil a + n)\<rparr>
      else a)"

definition GetMyAssetRequestService ::
  "game \<Rightarrow> int \<Rightarrow> string \<Rightarrow> login_worker \<Rightarrow> crash + login_worker \<times> effect list" where
  "GetMyAssetRequestService g now sn l =
     (let u = player_UUID l; error = Simple_answer GetMyAssetRequest_ID (-1) in
      case my_build (my_attribute l) sn of
        None \<Rightarrow> Inr (l, [error])
      | Some b0 \<Rightarrow>
          if big_type b0 = 2 \<and> status b0 = 0 then
            let b = b0\<lparr>ctime := now\<rparr> in
            bind_r (config_of g (build_type b) (build_level b)) (\<lambda>c.
              let out = produced g (output_per_hour c) (to_int32 (now - ctime b0));
                  n = (if space c < out then space c else out);
                  ty = build_type b;
                  l1 = put_build sn b l;
                  a1 = collected ty n (my_attribute l1) in
              Inr (l1\<lparr>my_attribute := a1\<rparr>,
                [Redis u (set_build b),
                 Answer (GetMyAssetResponse (if ty = 8 then n else 0) (if ty = 9 then n else 0)
                           (if ty = 10 then n else 0) (if ty = 11 then n else 0)),
                 write_material u a1, asset_answer a1, error]))
          else Inr (l, [error]))"

definition fast_price :: "int \<Rightarrow> build_data \<Rightarrow> int" where
  "fast_price now b =
     (let remain = btime b - (now - ctime b) in to_int32 ((if remain \<le> 0 then 1 else remain) div 300 + 1))"

definition FastFinishRequestService ::
  "game \<Rightarrow> int \<Rightarrow> string \<Rightarrow> login_worker \<Rightarrow> crash + login_worker \<times> effect list" where
  "FastFinishRequestService g now sn l =
     (let a = my_attribute l; u = player_UUID l; error = Inr (l, [Simple_answer FastFinishRequest_ID (-1)]) in
      case my_build a sn of
        None \<Rightarrow> error
      | Some b0 \<Rightarrow>
          let price = fast_price now b0; a1 = a\<lparr>diamond := to_int32 (diamond a - price)\<rparr> in
          if price \<le> diamond a then
            if building_timer l sn \<noteq> None then
              bind_r (build_timer_handle g now sn (l\<lparr>my_attribute := a1\<rparr>)) (\<lambda>(l1, out).
                Inr (l1, out @ [update_diamond (diamond a1) u, asset_answer (my_attribute l1)]))
            else if sn \<in> set (building l) then
              bind_r (config_of g (build_type b0) (to_int32 (build_level b0 + 1))) (\<lambda>c.
                let b = finished now c b0 in
                Inr (put_build sn b (l\<lparr>my_attribute := a1, building := remove1 sn (building l)\<rparr>),
                  [Redis u (set_build b), Answer (MyBuildDataResponse b), update_diamond (diamond a1) u, asset_answer a1]))
            else error
          else error)"

definition get_combatunion_level :: "login_worker \<Rightarrow> int" where
  "get_combatunion_level l =
     (case my_build (my_attribute l) (combat_uuid (my_attribute l)) of None \<Rightarrow> 0 | Some b \<Rightarrow> build_level b)"

text \<open>
  \<open>stored_level\<close> is what \<open>get_arm_max_level\<close> reads; \<open>arm_levels\<close> are the sizes of the
  entries of \<open>global_arms\<close>, compared as unsigned numbers.
\<close>

definition UpgradeArmTypeRequestService ::
  "game \<Rightarrow> (int \<Rightarrow> int) \<Rightarrow> int \<Rightarrow> login_worker \<Rightarrow> crash + effect list" where
  "UpgradeArmTypeRequestService g stored_level arm_type l =
     (let u = player_UUID l; answer = (\<lambda>r. Simple_answer UpgradeArmTypeRequest_ID r);
          last_of = (\<lambda>n :: int. (n - 1) mod 2 ^ 64) in
      if arm_type < 1 \<or> last_of (int (length (arm_levels g))) < arm_type then Inr [answer (-1)]
      else bind_r (at (map int (arm_levels g)) arm_type) (\<lambda>levels.
        let level = stored_level arm_type in
        if last_of levels \<le> level mod 2 ^ 64 then Inr [answer (-1)]
        else if level \<noteq> 0 then Inr [Redis u (set_arm_max_level arm_type (to_int32 (level + 1))), answer 0]
        else if arm_type mod 3 = 1 then
          if arm_type div 3 < get_combatunion_level l
          then Inr [Redis u (set_arm_max_level arm_type 1), answer 0] else Inr [answer (-1)]
        else let pre_type = (arm_type - 1) div 3 * 3 + 1 in
          bind_r (at (map int (arm_levels g)) pre_type) (\<lambda>pre_levels.
            if stored_level pre_type mod 2 ^ 64 = last_of pre_levels
            then Inr [Redis u (set_arm_max_level arm_type 1), answer 0] else Inr [answer (-1)])))"

subsection \<open>Timers follow constructions\<close>

text \<open>
  What happens to a player's buildings while he is online; a timer can only go off when it is
  there. \<open>Reload\<close> has what Redis returned and the places that the client sent.
\<close>

datatype building_event =
    Create string int float_bits float_bits
  | Upgrade string
  | Collect string
  | Finish string
  | Timer_fires string
  | Reload "string \<Rightarrow> build_data option" "(string \<times> float_bits \<times> float_bits) list"

definition building_step :: "game \<Rightarrow> int \<times> building_event \<Rightarrow> login_worker \<Rightarrow> crash + login_worker \<times> effect list" where
  "building_step g te l = (case te of (now, e) \<Rightarrow> case e of
     Create sn ty x y \<Rightarrow> BuildCreateRequestService g now sn ty x y l
   | Upgrade sn \<Rightarrow> BuildUpgradeRequestService g now sn l
   | Collect sn \<Rightarrow> GetMyAssetRequestService g now sn l
   | Finish sn \<Rightarrow> FastFinishRequestService g now sn l
   | Timer_fires sn \<Rightarrow> if building_timer l sn = None then Inr (l, []) else build_timer_handle g now sn l
   | Reload stored places \<Rightarrow> Inr (BuildStatusListRequestService stored places l))"

fun building_steps :: "game \<Rightarrow> (int \<times> building_event) list \<Rightarrow> login_worker \<Rightarrow> crash + login_worker \<times> effect list" where
  "building_steps g [] l = Inr (l, [])"
| "building_steps g (e # es) l = (case building_step g e l of
     Inl c \<Rightarrow> Inl c
   | Inr (l1, out1) \<Rightarrow> (case building_steps g es l1 of Inl c \<Rightarrow> Inl c | Inr (l2, out2) \<Rightarrow> Inr (l2, out1 @ out2)))"

text \<open>The numbers of new buildings are random: they are not in use.\<close>

fun new_numbers :: "(int \<times> building_event) list \<Rightarrow> string list" where
  "new_numbers [] = []"
| "new_numbers ((t, Create sn ty x y) # es) = sn # new_numbers es"
| "new_numbers (e # es) = new_numbers es"

definition fresh_numbers :: "(int \<times> building_event) list \<Rightarrow> login_worker \<Rightarrow> bool" where
  "fresh_numbers es l \<longleftrightarrow> distinct (new_numbers es) \<and> list_all (\<lambda>sn. my_build (my_attribute l) sn = None) (new_numbers es)"

text \<open>
  What Redis has of the buildings after the writes of an operation, and what a read of it
  gives: each building as it was written last, as far as its number, its state and, under
  construction, its time go (the time of a factory at rest is computed when it is read, and
  the place is a float written in decimal).
\<close>

fun saved_after :: "(string \<Rightarrow> build_data option) \<Rightarrow> effect list \<Rightarrow> string \<Rightarrow> build_data option" where
  "saved_after m [] = m"
| "saved_after m (e # es) = saved_after (case e of Redis u (set_build b) \<Rightarrow> m(build_sn b \<mapsto> b) | _ \<Rightarrow> m) es"

definition same_construction :: "build_data option \<Rightarrow> build_data option \<Rightarrow> bool" where
  "same_construction x y = (case (x, y) of
     (None, None) \<Rightarrow> True
   | (Some b, Some b') \<Rightarrow> build_sn b' = build_sn b \<and> status b' = status b \<and> (status b = 1 \<longrightarrow> btime b' = btime b)
   | _ \<Rightarrow> False)"

definition reads_back :: "(string \<Rightarrow> build_data option) \<Rightarrow> (string \<Rightarrow> build_data option) \<Rightarrow> bool" where
  "reads_back saved stored \<longleftrightarrow> (\<forall>sn. same_construction (saved sn) (stored sn))"

text \<open>Every reload of a run reads back what the run has saved up to it.\<close>

fun reloads_read_back ::
  "game \<Rightarrow> (int \<times> building_event) list \<Rightarrow> login_worker \<Rightarrow> (string \<Rightarrow> build_data option) \<Rightarrow> bool" where
  "reloads_read_back g [] l saved = True"
| "reloads_read_back g (e # es) l saved =
     ((case snd e of Reload stored places \<Rightarrow> reads_back saved stored | _ \<Rightarrow> True) \<and>
      (case building_step g e l of Inl c \<Rightarrow> True
       | Inr (l1, out) \<Rightarrow> reloads_read_back g es l1 (saved_after saved out)))"

definition under_construction :: "login_worker \<Rightarrow> string \<Rightarrow> bool" where
  "under_construction l sn = (case my_build (my_attribute l) sn of None \<Rightarrow> False | Some b \<Rightarrow> status b = 1)"

definition short_construction :: "login_worker \<Rightarrow> string \<Rightarrow> bool" where
  "short_construction l sn = (case my_build (my_attribute l) sn of None \<Rightarrow> False | Some b \<Rightarrow> status b = 1 \<and> btime b \<le> 1100)"

definition buildings_ok :: "login_worker \<Rightarrow> bool" where
  "buildings_ok l \<longleftrightarrow>
     (\<forall>sn. building_timer l sn \<noteq> None \<longleftrightarrow> short_construction l sn) \<and>
     (\<forall>sn. under_construction l sn \<longrightarrow> sn \<in> set (building l)) \<and>
     (\<forall>sn b. my_build (my_attribute l) sn = Some b \<longrightarrow> build_sn b = sn)"

lemma put_build_fields [simp]:
  "my_build (my_attribute (put_build sn b l)) = (my_build (my_attribute l))(sn \<mapsto> b)"
  "building_timer (put_build sn b l) = building_timer l" "building (put_build sn b l) = building l"
  "player_UUID (put_build sn b l) = player_UUID l"
  "diamond (my_attribute (put_build sn b l)) = diamond (my_attribute l)"
  by (simp_all add: put_build_def)

lemma pay_fields [simp]: "my_build (pay c a) = my_build a" "city_hall_uuid (pay c a) = city_hall_uuid a"
  by (simp_all add: pay_def)

lemma collected_fields [simp]: "my_build (collected ty n a) = my_build a"
  by (simp add: collected_def)

lemma finished_fields [simp]: "status (finished now c b) = 0" "build_sn (finished now c b) = build_sn b"
  "build_level (finished now c b) = to_int32 (build_level b + 1)" "cur_hp (finished now c b) = config_hp c"
  "btime (finished now c b) = 0" "build_type (finished now c b) = build_type b"
  by (simp_all add: finished_def Let_def)

text \<open>An operation that changes one building, its timer and its place in the list.\<close>

lemma buildings_ok_change:
  assumes "buildings_ok l" and "my_build (my_attribute l') = (my_build (my_attribute l))(sn \<mapsto> b)" and "build_sn b = sn"
    and "building_timer l' sn \<noteq> None \<longleftrightarrow> status b = 1 \<and> btime b \<le> 1100"
    and "\<And>s. s \<noteq> sn \<Longrightarrow> building_timer l' s = building_timer l s"
    and "\<And>s. s \<in> set (building l) \<Longrightarrow> s \<noteq> sn \<Longrightarrow> s \<in> set (building l')"
    and "status b = 1 \<Longrightarrow> sn \<in> set (building l')"
  shows "buildings_ok l'"
  unfolding buildings_ok_def
proof (intro conjI allI)
  have other: "short_construction l' s = short_construction l s" "under_construction l' s = under_construction l s"
    if "s \<noteq> sn" for s
    using that assms(2) by (simp_all add: short_construction_def under_construction_def)
  show "building_timer l' s \<noteq> None \<longleftrightarrow> short_construction l' s" for s
  proof (cases "s = sn")
    case True
    with assms(2,4) show ?thesis by (simp add: short_construction_def)
  next
    case False
    with other assms(1,5) show ?thesis by (simp add: buildings_ok_def)
  qed
  show "under_construction l' s \<longrightarrow> s \<in> set (building l')" for s
  proof (cases "s = sn")
    case True
    with assms(2,7) show ?thesis by (simp add: under_construction_def)
  next
    case False
    with other assms(1,6) show ?thesis by (simp add: buildings_ok_def)
  qed
  show "my_build (my_attribute l') s = Some c \<longrightarrow> build_sn c = s" for s c
    using assms(1-3) by (auto simp: buildings_ok_def)
qed

lemma buildings_ok_same:
  "buildings_ok l \<Longrightarrow> my_build (my_attribute l') = my_build (my_attribute l) \<Longrightarrow> building_timer l' = building_timer l \<Longrightarrow>
     building l' = building l \<Longrightarrow> buildings_ok l'"
  by (simp add: buildings_ok_def short_construction_def under_construction_def)

lemma buildings_ok_handle:
  assumes "build_timer_handle g now sn l = Inr (l', out)" and "buildings_ok l"
  shows "buildings_ok l'"
proof (cases "my_build (my_attribute l) sn")
  case None
  with assms show ?thesis by (simp add: build_timer_handle_def)
next
  case (Some b)
  with assms(2) have sn: "build_sn b = sn" by (simp add: buildings_ok_def)
  from Some assms(1) obtain c where "my_build (my_attribute l') = (my_build (my_attribute l))(sn \<mapsto> finished now c b)"
    "building_timer l' sn = None" "building l' = filter (\<lambda>s. s \<noteq> sn) (building l)"
    "\<And>s. s \<noteq> sn \<Longrightarrow> building_timer l' s = building_timer l s"
    by (auto simp: build_timer_handle_def bind_r_eq_Inr Let_def split: if_splits)
  with sn show ?thesis by (intro buildings_ok_change [OF assms(2), of l' sn "finished now c b"]) simp_all
qed

lemma construct_fields [simp]:
  "my_build (my_attribute (construct sn b l)) = my_build (my_attribute l)"
  "building (construct sn b l) = building l @ [sn]"
  "my_attribute (construct sn b l) = my_attribute l"
  "my_build (my_attribute l) sn = Some b \<Longrightarrow> building_timer (construct sn b l) =
     (if btime b \<le> 1100 then (building_timer l)(sn \<mapsto> nat (btime b * 1000 mod 2 ^ 32)) else building_timer l)"
  by (simp_all add: construct_def en_timer_def Let_def split: option.split)

lemma buildings_ok_construct:
  assumes "buildings_ok l" and "building_timer l sn = None" and "build_sn b = sn" and "status b = 1"
    and "my_build (my_attribute l1) = (my_build (my_attribute l))(sn \<mapsto> b)" and "building_timer l1 = building_timer l"
    and "building l1 = building l"
  shows "buildings_ok (construct sn b l1)"
  by (rule buildings_ok_change [OF assms(1), of _ sn b]) (use assms in auto)

lemma no_timer: "buildings_ok l \<Longrightarrow> \<not> under_construction l sn \<Longrightarrow> building_timer l sn = None"
proof -
  assume "buildings_ok l" and "\<not> under_construction l sn"
  moreover from this(2) have "\<not> short_construction l sn"
    by (simp add: short_construction_def under_construction_def split: option.splits)
  ultimately show ?thesis unfolding buildings_ok_def by blast
qed

lemma buildings_ok_create:
  assumes "BuildCreateRequestService g now sn ty x y l = Inr (l', out)" and "buildings_ok l"
    and "my_build (my_attribute l) sn = None"
  shows "buildings_ok l'"
proof (cases "l' = l")
  case True
  with assms(2) show ?thesis by simp
next
  case False
  have "building_timer l sn = None" by (rule no_timer [OF assms(2)]) (simp add: under_construction_def assms(3))
  from False assms(1) obtain c a hall n m where "a = (pay c (my_attribute l))\<lparr>diamond := m\<rparr>" and l':
    "l' = (let l1 = construct sn \<lparr>build_sn = sn, big_type = config_big_type c, status = 1, ctime = now,
                              btime = config_time c, build_type = ty, build_level = 0, cur_hp = config_hp c,
                              build_skin = 0, cur_resource = 0, build_x = x, build_y = y\<rparr>
          (put_build sn \<lparr>build_sn = sn, big_type = config_big_type c, status = 1, ctime = now,
                              btime = config_time c, build_type = ty, build_level = 0, cur_hp = config_hp c,
                              build_skin = 0, cur_resource = 0, build_x = x, build_y = y\<rparr> (l\<lparr>my_attribute := a\<rparr>)) in
       l1\<lparr>my_attribute := (my_attribute l1)\<lparr>build_num := n\<rparr>\<rparr>)" 
    unfolding BuildCreateRequestService_def Let_def
    by (auto simp: bind_r_eq_Inr simp del: construct_fields put_build_fields split: if_splits option.splits)
  define b where "b = \<lparr>build_sn = sn, big_type = config_big_type c, status = 1, ctime = now,
                              btime = config_time c, build_type = ty, build_level = 0, cur_hp = config_hp c,
                              build_skin = 0, cur_resource = 0, build_x = x, build_y = y\<rparr>"
  have "buildings_ok (construct sn b (put_build sn b (l\<lparr>my_attribute := a\<rparr>)))"
    by (rule buildings_ok_construct [OF assms(2) \<open>building_timer l sn = None\<close>]) (simp_all add: \<open>a = _\<close> b_def)
  then show ?thesis unfolding l' Let_def b_def [symmetric] by (rule buildings_ok_same) simp_all
qed

lemma buildings_ok_upgrade:
  assumes "BuildUpgradeRequestService g now sn l = Inr (l', out)" and "buildings_ok l"
  shows "buildings_ok l'"
proof (cases "l' = l")
  case True
  with assms(2) show ?thesis by simp
next
  case False
  with assms(1) obtain b0 c where b0: "my_build (my_attribute l) sn = Some b0" "status b0 \<noteq> 1" and l':
    "l' = (let b = b0\<lparr>status := 1, ctime := now, btime := config_time c\<rparr> in
       construct (build_sn b) b (put_build (build_sn b) b (put_build sn b (l\<lparr>my_attribute := pay c (my_attribute l)\<rparr>))))"
    unfolding BuildUpgradeRequestService_def Let_def
    by (auto simp: bind_r_eq_Inr simp del: construct_fields put_build_fields split: if_splits option.splits)
  have sn: "build_sn b0 = sn" using assms(2) b0(1) by (simp add: buildings_ok_def)
  have "building_timer l sn = None" by (rule no_timer [OF assms(2)]) (simp add: under_construction_def b0)
  from buildings_ok_construct [OF assms(2) this] show ?thesis unfolding l' Let_def by (simp add: sn)
qed

lemma buildings_ok_collect:
  assumes "GetMyAssetRequestService g now sn l = Inr (l', out)" and "buildings_ok l"
  shows "buildings_ok l'"
proof (cases "l' = l")
  case True
  with assms(2) show ?thesis by simp
next
  case False
  with assms(1) obtain b0 where b0: "my_build (my_attribute l) sn = Some b0" "status b0 = 0"
    and l': "my_build (my_attribute l') = (my_build (my_attribute l))(sn \<mapsto> b0\<lparr>ctime := now\<rparr>)"
      "building_timer l' = building_timer l" "building l' = building l"
    unfolding GetMyAssetRequestService_def Let_def by (auto simp: bind_r_eq_Inr split: if_splits option.splits)
  have sn: "build_sn b0 = sn" using assms(2) b0(1) by (simp add: buildings_ok_def)
  have "building_timer l sn = None" by (rule no_timer [OF assms(2)]) (simp add: under_construction_def b0)
  with sn b0(2) show ?thesis
    by (intro buildings_ok_change [OF assms(2), of l' sn "b0\<lparr>ctime := now\<rparr>"]) (simp_all add: l')
qed

lemma buildings_ok_finish:
  assumes "FastFinishRequestService g now sn l = Inr (l', out)" and "buildings_ok l"
  shows "buildings_ok l'"
proof (cases "l' = l")
  case True
  with assms(2) show ?thesis by simp
next
  case False
  with assms(1) obtain b0 where b0: "my_build (my_attribute l) sn = Some b0"
    unfolding FastFinishRequestService_def Let_def by (auto split: option.splits)
  define a1 where "a1 = (my_attribute l)\<lparr>diamond := to_int32 (diamond (my_attribute l) - fast_price now b0)\<rparr>"
  show ?thesis
  proof (cases "building_timer l sn = None")
    case False
    with assms(1) b0 \<open>l' \<noteq> l\<close> obtain out' where
      "build_timer_handle g now sn (l\<lparr>my_attribute := a1\<rparr>) = Inr (l', out')"
      unfolding FastFinishRequestService_def Let_def a1_def by (auto simp: bind_r_eq_Inr split: if_splits)
    moreover have "buildings_ok (l\<lparr>my_attribute := a1\<rparr>)"
      by (rule buildings_ok_same [OF assms(2)]) (simp_all add: a1_def)
    ultimately show ?thesis by (rule buildings_ok_handle)
  next
    case True
    with assms(1) b0 \<open>l' \<noteq> l\<close> obtain c where
      l': "l' = put_build sn (finished now c b0) (l\<lparr>my_attribute := a1, building := remove1 sn (building l)\<rparr>)"
      unfolding FastFinishRequestService_def Let_def a1_def
      by (auto simp: bind_r_eq_Inr simp del: put_build_fields split: if_splits)
    have sn: "build_sn b0 = sn" using assms(2) b0 by (simp add: buildings_ok_def)
    show ?thesis
      by (rule buildings_ok_change [OF assms(2), of l' sn "finished now c b0"])
        (use True in \<open>auto simp: l' a1_def sn\<close>)
  qed
qed

subsection \<open>What is saved is what is there\<close>

lemma saved_after_append [simp]: "saved_after m (es @ es') = saved_after (saved_after m es) es'"
  by (induction es arbitrary: m) simp_all

lemma reads_back_put: "reads_back m M \<Longrightarrow> reads_back (m(sn \<mapsto> b)) (M(sn \<mapsto> b))"
  by (simp add: reads_back_def same_construction_def)

text \<open>An operation either leaves the buildings and writes none, or puts one and writes it.\<close>

definition writes_through :: "login_worker \<Rightarrow> login_worker \<Rightarrow> effect list \<Rightarrow> bool" where
  "writes_through l l' out \<longleftrightarrow>
     my_build (my_attribute l') = my_build (my_attribute l) \<and> (\<forall>m. saved_after m out = m) \<or>
     (\<exists>sn b. my_build (my_attribute l') = (my_build (my_attribute l))(sn \<mapsto> b) \<and> (\<forall>m. saved_after m out = m(sn \<mapsto> b)))"

lemma writes_through_reads_back:
  "writes_through l l' out \<Longrightarrow> reads_back m (my_build (my_attribute l)) \<Longrightarrow>
   reads_back (saved_after m out) (my_build (my_attribute l'))"
  by (auto simp: writes_through_def intro: reads_back_put)

lemma writes_through_put:
  "my_build (my_attribute l') = (my_build (my_attribute l))(sn \<mapsto> b) \<Longrightarrow> (\<And>m. saved_after m out = m(sn \<mapsto> b)) \<Longrightarrow>
   writes_through l l' out"
  unfolding writes_through_def by blast

lemma writes_nothing [simp]: "(\<And>m. saved_after m out = m) \<Longrightarrow> writes_through l l out"
  unfolding writes_through_def by blast

text \<open>The same of what a handler returns.\<close>

definition through :: "login_worker \<Rightarrow> crash + login_worker \<times> effect list \<Rightarrow> bool" where
  "through l r = (case r of Inl c \<Rightarrow> True | Inr (l', out) \<Rightarrow> writes_through l l' out)"

lemma through_simps [simp]: "through l (Inl c)" "through l (Inr (l', out)) = writes_through l l' out"
  by (simp_all add: through_def)

lemma through_bind: "(\<And>x. r = Inr x \<Longrightarrow> through l (k x)) \<Longrightarrow> through l (bind_r r k)"
  by (cases r) (simp_all add: through_def)

lemma throughD: "through l r \<Longrightarrow> r = Inr (l', out) \<Longrightarrow> writes_through l l' out"
  by simp

lemma effects_without_build [simp]:
  "(case write_material u a of Redis u (set_build b) \<Rightarrow> f u b | _ \<Rightarrow> m) = m"
  "(case asset_answer a of Redis u (set_build b) \<Rightarrow> f u b | _ \<Rightarrow> m) = m"
  by (simp_all add: write_material_def asset_answer_def)

lemma handle_through: "buildings_ok l \<Longrightarrow> through l (build_timer_handle g now sn l)"
  unfolding build_timer_handle_def Let_def
  by (auto split: option.split intro!: through_bind writes_through_put [where sn = sn] simp: buildings_ok_def)

lemma create_through: "through l (BuildCreateRequestService g now sn ty x y l)"
  unfolding BuildCreateRequestService_def Let_def
  by (auto split: option.split intro!: through_bind writes_through_put [where sn = sn]) (rule refl)+

lemma upgrade_through: "buildings_ok l \<Longrightarrow> through l (BuildUpgradeRequestService g now sn l)"
  unfolding BuildUpgradeRequestService_def Let_def
  by (auto split: option.split intro!: through_bind writes_through_put [where sn = sn] simp: buildings_ok_def) (rule refl)+

lemma collect_through: "buildings_ok l \<Longrightarrow> through l (GetMyAssetRequestService g now sn l)"
  unfolding GetMyAssetRequestService_def Let_def
  by (auto split: option.split intro!: through_bind writes_through_put [where sn = sn] simp: buildings_ok_def)

lemma finish_through:
  assumes "buildings_ok l"
  shows "through l (FastFinishRequestService g now sn l)"
proof -
  define l0 where "l0 b = l\<lparr>my_attribute := (my_attribute l)\<lparr>diamond := to_int32 (diamond (my_attribute l) - fast_price now b)\<rparr>\<rparr>" for b
  have l0: "buildings_ok (l0 b)" "my_build (my_attribute (l0 b)) = my_build (my_attribute l)" for b
    using buildings_ok_same [OF assms, of "l0 b"] by (simp_all add: l0_def)
  have "writes_through l l1 (out @ [update_diamond d u, asset_answer a])"
    if "build_timer_handle g now sn (l0 b) = Inr (l1, out)" for b l1 out d u a
    using throughD [OF handle_through [OF l0(1)] that] by (simp add: writes_through_def l0(2))
  then show ?thesis
    using assms unfolding FastFinishRequestService_def Let_def l0_def
    by (auto split: option.split intro!: through_bind writes_through_put [where sn = sn] simp: buildings_ok_def)
qed

lemmas writes = throughD [OF handle_through] throughD [OF create_through] throughD [OF upgrade_through]
  throughD [OF collect_through] throughD [OF finish_through]

text \<open>A reload: the buildings that were read, with the places of the client.\<close>

definition place_build :: "login_worker \<times> effect list \<Rightarrow> string \<times> float_bits \<times> float_bits \<Rightarrow> login_worker \<times> effect list" where
  "place_build = (\<lambda>(l, out) (sn, x, y). case my_build (my_attribute l) sn of
              None \<Rightarrow> (l, out)
            | Some b \<Rightarrow> let b1 = b\<lparr>build_x := x, build_y := y\<rparr> in
                (put_build sn b1 l, out @ [Redis (player_UUID l) (set_build b1)]))"

lemma place_build_keeps:
  assumes "place_build (l, out) p = (l', out')" and "reads_back (saved_after m out) (my_build (my_attribute l))"
    and "\<And>sn b. my_build (my_attribute l) sn = Some b \<Longrightarrow> build_sn b = sn"
  shows "reads_back (saved_after m out') (my_build (my_attribute l')) \<and>
    (\<forall>sn. same_construction (my_build (my_attribute l) sn) (my_build (my_attribute l') sn)) \<and>
    building_timer l' = building_timer l \<and> building l' = building l"
proof (cases "my_build (my_attribute l) (fst p)")
  case None
  with assms(1,2) show ?thesis
    by (cases p) (auto simp: place_build_def same_construction_def split: option.split)
next
  case (Some b)
  obtain sn x y where p: "p = (sn, x, y)" by (cases p)
  with Some assms(1,3) have "l' = put_build sn (b\<lparr>build_x := x, build_y := y\<rparr>) l"
    "out' = out @ [Redis (player_UUID l) (set_build (b\<lparr>build_x := x, build_y := y\<rparr>))]" "build_sn b = sn"
    by (auto simp: place_build_def Let_def)
  with assms(2) Some p show ?thesis
    by (auto simp: same_construction_def intro: reads_back_put split: option.split)
qed

lemma same_construction_trans:
  "same_construction x y \<Longrightarrow> same_construction y z \<Longrightarrow> same_construction x z"
  by (auto simp: same_construction_def split: option.splits)

lemma place_builds_keep:
  "foldl place_build (l, out) places = (l', out') \<Longrightarrow> reads_back (saved_after m out) (my_build (my_attribute l)) \<Longrightarrow>
   (\<And>sn b. my_build (my_attribute l) sn = Some b \<Longrightarrow> build_sn b = sn) \<Longrightarrow>
   reads_back (saved_after m out') (my_build (my_attribute l')) \<and>
   (\<forall>sn. same_construction (my_build (my_attribute l) sn) (my_build (my_attribute l') sn)) \<and>
   building_timer l' = building_timer l \<and> building l' = building l"
proof (induction places arbitrary: l out)
  case Nil
  then show ?case by (auto simp: same_construction_def split: option.split)
next
  case (Cons p places)
  obtain l1 out1 where 1: "place_build (l, out) p = (l1, out1)" by fastforce
  note k = place_build_keeps [OF 1 Cons.prems(2,3)]
  have sn: "build_sn b = sn" if "my_build (my_attribute l1) sn = Some b" for sn b
  proof -
    have "same_construction (my_build (my_attribute l) sn) (Some b)" using k that by metis
    then obtain b0 where "my_build (my_attribute l) sn = Some b0" "build_sn b = build_sn b0"
      by (auto simp: same_construction_def split: option.splits)
    with Cons.prems(3) show ?thesis by simp
  qed
  from Cons.prems(1) 1 have "foldl place_build (l1, out1) places = (l', out')" by simp
  from Cons.IH [OF this _ sn] k same_construction_trans show ?case by (metis (no_types, lifting))
qed

lemma same_construction_facts:
  assumes "same_construction (my_build (my_attribute l) x) (my_build (my_attribute l') x)"
  shows "short_construction l' x = short_construction l x" and "under_construction l' x = under_construction l x"
    and "(my_build (my_attribute l') x = None) = (my_build (my_attribute l) x = None)"
  using assms
  by (cases "my_build (my_attribute l) x"; cases "my_build (my_attribute l') x";
      auto simp: short_construction_def under_construction_def same_construction_def)+

lemma reload_keeps:
  assumes "BuildStatusListRequestService stored places l = (l', out)" and "reads_back m stored"
    and "reads_back m (my_build (my_attribute l))" and "buildings_ok l"
  shows "reads_back (saved_after m out) (my_build (my_attribute l'))" and "buildings_ok l'"
    and "dom (my_build (my_attribute l')) = dom (my_build (my_attribute l))"
proof -
  let ?l = "l\<lparr>my_attribute := (my_attribute l)\<lparr>my_build := stored\<rparr>\<rparr>"
  have st: "same_construction (my_build (my_attribute l) sn) (stored sn)" for sn
  proof -
    have "same_construction (m sn) (my_build (my_attribute l) sn)" "same_construction (m sn) (stored sn)"
      using assms(2,3) by (simp_all add: reads_back_def)
    then show ?thesis by (auto simp: same_construction_def split: option.splits)
  qed
  have sn: "build_sn b = sn" if m: "my_build (my_attribute ?l) sn = Some b" for sn b
  proof -
    obtain b0 where "my_build (my_attribute l) sn = Some b0" "build_sn b = build_sn b0"
      using st [of sn] m by (auto simp: same_construction_def split: option.splits)
    with assms(4) show ?thesis by (simp add: buildings_ok_def)
  qed
  have "foldl place_build (?l, []) places = (l', out)"
    using assms(1) by (simp add: BuildStatusListRequestService_def place_build_def [abs_def])
  from place_builds_keep [OF this, of m] sn assms(2) have k: "reads_back (saved_after m out) (my_build (my_attribute l'))"
    "\<forall>sn. same_construction (stored sn) (my_build (my_attribute l') sn)"
    "building_timer l' = building_timer l" "building l' = building l" by simp_all
  show "reads_back (saved_after m out) (my_build (my_attribute l'))" by (rule k(1))
  have s: "same_construction (my_build (my_attribute l) x) (my_build (my_attribute l') x)" for x
    using same_construction_trans [OF st] k(2) by blast
  then have f: "short_construction l' x = short_construction l x" "under_construction l' x = under_construction l x"
    "(my_build (my_attribute l') x = None) = (my_build (my_attribute l) x = None)" for x
    using same_construction_facts [where l = l and l' = l', OF s] by blast+
  have "build_sn b = x" if m: "my_build (my_attribute l') x = Some b" for x b
  proof -
    obtain b0 where "my_build (my_attribute l) x = Some b0" "build_sn b = build_sn b0"
      using s [of x] m by (auto simp: same_construction_def split: option.splits)
    with assms(4) show ?thesis by (simp add: buildings_ok_def)
  qed
  with assms(4) f k(3,4) show "buildings_ok l'" unfolding buildings_ok_def by simp
  show "dom (my_build (my_attribute l')) = dom (my_build (my_attribute l))"
    using f(3) by (intro set_eqI) (simp only: domIff)
qed

subsection \<open>Every event keeps the invariant\<close>

lemma buildings_ok_step:
  assumes "building_step g te l = Inr (l', out)" and "buildings_ok l" and "fresh_numbers [te] l"
    and "reads_back m (my_build (my_attribute l))" and "\<And>t stored places. te = (t, Reload stored places) \<Longrightarrow> reads_back m stored"
  shows "buildings_ok l' \<and> reads_back (saved_after m out) (my_build (my_attribute l'))"
proof -
  obtain now e where te: "te = (now, e)" by fastforce
  show ?thesis
  proof (cases e)
    case (Create sn ty x y)
    with assms(1-3) te have "buildings_ok l'" "writes_through l l' out"
      by (auto simp: building_step_def fresh_numbers_def intro: buildings_ok_create writes)
    with assms(4) writes_through_reads_back show ?thesis by blast
  next
    case (Reload stored places)
    with assms(1) te have "BuildStatusListRequestService stored places l = (l', out)" by (simp add: building_step_def)
    from reload_keeps [OF this _ assms(4,2)] assms(5) Reload te show ?thesis by blast
  next
    case (Upgrade sn)
    with assms(1,2) te have "buildings_ok l'" "writes_through l l' out"
      by (auto simp: building_step_def intro: buildings_ok_upgrade writes)
    with assms(4) writes_through_reads_back show ?thesis by blast
  next
    case (Collect sn)
    with assms(1,2) te have "buildings_ok l'" "writes_through l l' out"
      by (auto simp: building_step_def intro: buildings_ok_collect writes)
    with assms(4) writes_through_reads_back show ?thesis by blast
  next
    case (Finish sn)
    with assms(1,2) te have "buildings_ok l'" "writes_through l l' out"
      by (auto simp: building_step_def intro: buildings_ok_finish writes)
    with assms(4) writes_through_reads_back show ?thesis by blast
  next
    case (Timer_fires sn)
    with assms(1,2) te have "buildings_ok l'" "writes_through l l' out"
      by (auto simp: building_step_def split: if_splits intro: buildings_ok_handle writes)
    with assms(4) writes_through_reads_back show ?thesis by blast
  qed
qed

lemma handle_keeps_numbers:
  "build_timer_handle g now sn l = Inr (l', out) \<Longrightarrow> my_build (my_attribute l') x = Some y \<Longrightarrow>
     \<exists>y. my_build (my_attribute l) x = Some y"
  by (auto simp: build_timer_handle_def bind_r_eq_Inr Let_def split: option.splits if_splits)

lemma step_numbers:
  assumes "building_step g (now, e) l = Inr (l', out)" and "buildings_ok l" and "reads_back m (my_build (my_attribute l))"
    and "\<And>stored places. e = Reload stored places \<Longrightarrow> reads_back m stored"
  shows "dom (my_build (my_attribute l')) \<subseteq>
    dom (my_build (my_attribute l)) \<union> (case e of Create sn ty x y \<Rightarrow> {sn} | _ \<Rightarrow> {})"
proof (cases e)
  case (Create sn ty x y)
  with assms(1) show ?thesis
    by (auto simp: building_step_def BuildCreateRequestService_def Let_def bind_r_eq_Inr split: if_splits option.splits)
next
  case (Upgrade sn)
  have "build_sn b = sn" if "my_build (my_attribute l) sn = Some b" for b
    using assms(2) that by (simp add: buildings_ok_def)
  with Upgrade assms(1) show ?thesis
    by (auto simp: building_step_def BuildUpgradeRequestService_def Let_def bind_r_eq_Inr split: if_splits option.splits)
next
  case (Collect sn)
  with assms(1) show ?thesis
    by (auto simp: building_step_def GetMyAssetRequestService_def Let_def bind_r_eq_Inr split: if_splits option.splits)
next
  case (Finish sn)
  with assms(1) show ?thesis
    by (auto simp: building_step_def FastFinishRequestService_def Let_def bind_r_eq_Inr split: if_splits option.splits
        dest: handle_keeps_numbers)
next
  case (Timer_fires sn)
  with assms(1) show ?thesis by (auto simp: building_step_def split: if_splits dest: handle_keeps_numbers)
next
  case (Reload stored places)
  with assms(1) have "BuildStatusListRequestService stored places l = (l', out)" by (simp add: building_step_def)
  from reload_keeps(3) [OF this _ assms(3,2)] assms(4) [OF Reload] Reload show ?thesis by simp
qed

lemma buildings_ok_steps:
  "building_steps g es l = Inr (l', out) \<Longrightarrow> buildings_ok l \<Longrightarrow> fresh_numbers es l \<Longrightarrow>
   reads_back m (my_build (my_attribute l)) \<Longrightarrow> reloads_read_back g es l m \<Longrightarrow> buildings_ok l'"
proof (induction es arbitrary: l out m)
  case (Cons te es)
  obtain now e where te: "te = (now, e)" by fastforce
  from Cons.prems(1) obtain l1 out1 out2 where s: "building_step g te l = Inr (l1, out1)"
    and r: "building_steps g es l1 = Inr (l', out2)"
    by (auto split: sum.splits)
  have n: "new_numbers (te # es) = (case e of Create sn ty x y \<Rightarrow> [sn] | _ \<Rightarrow> []) @ new_numbers es"
    unfolding te by (cases e) simp_all
  have "fresh_numbers [te] l" using Cons.prems(3) n unfolding te by (cases e) (simp_all add: fresh_numbers_def)
  moreover have re: "reads_back m stored" if "e = Reload stored places" for stored places
    using Cons.prems(5) te that by simp
  ultimately have "buildings_ok l1 \<and> reads_back (saved_after m out1) (my_build (my_attribute l1))"
    using buildings_ok_step [OF s Cons.prems(2) _ Cons.prems(4)] te by blast
  moreover have "fresh_numbers es l1"
    unfolding fresh_numbers_def list_all_iff
  proof (intro conjI ballI)
    show "distinct (new_numbers es)" using Cons.prems(3) n by (simp add: fresh_numbers_def)
    show "my_build (my_attribute l1) sn = None" if "sn \<in> set (new_numbers es)" for sn
    proof -
      have "sn \<notin> dom (my_build (my_attribute l))" using that Cons.prems(3) n by (auto simp: fresh_numbers_def list_all_iff)
      moreover have "sn \<notin> (case e of Create s ty x y \<Rightarrow> {s} | _ \<Rightarrow> {})"
        using that Cons.prems(3) n by (auto simp: fresh_numbers_def split: building_event.splits)
      moreover have "dom (my_build (my_attribute l1)) \<subseteq>
          dom (my_build (my_attribute l)) \<union> (case e of Create sn ty x y \<Rightarrow> {sn} | _ \<Rightarrow> {})"
        by (rule step_numbers [OF s [unfolded te] Cons.prems(2,4)]) (rule re)
      ultimately have "sn \<notin> dom (my_build (my_attribute l1))" by (meson UnE subsetD)
      then show ?thesis by (simp add: domIff)
    qed
  qed
  moreover have "reloads_read_back g es l1 (saved_after m out1)" using Cons.prems(5) s by simp
  ultimately show ?case using Cons.IH [OF r, of "saved_after m out1"] by blast
qed simp

text \<open>
  C29. Timers follow constructions. Start from a player whose timers and constructions agree,
  as they do after a login, and whose buildings are saved. Whatever he then creates,
  upgrades, collects, finishes for diamonds or reloads, and whenever his timers go off, a
  building has a pending timer exactly while it is under construction and its construction
  takes at most 1100 seconds, and every construction is listed. New numbers are unused, and
  a reload reads back what the run has written last of each building.
\<close>

theorem timers_follow_constructions:
  assumes "building_steps g es l = Inr (l', out)" and "buildings_ok l" and "fresh_numbers es l"
    and "reads_back saved (my_build (my_attribute l))" and "reloads_read_back g es l saved"
  shows "(building_timer l' sn \<noteq> None \<longleftrightarrow> short_construction l' sn) \<and>
    (under_construction l' sn \<longrightarrow> sn \<in> set (building l'))"
  using buildings_ok_steps [OF assms] by (simp add: buildings_ok_def)

subsection \<open>What an upgrade costs and gives\<close>

text \<open>The level, the state and the strength of a building after its construction.\<close>

definition built :: "int \<Rightarrow> build_config \<Rightarrow> login_worker \<Rightarrow> string \<Rightarrow> bool" where
  "built lv c l sn = (case my_build (my_attribute l) sn of None \<Rightarrow> False
     | Some b \<Rightarrow> build_level b = lv \<and> status b = 0 \<and> cur_hp b = config_hp c)"

text \<open>
  A short upgrade completes. When a player can pay for the next level of a building
  that his city hall allows and that takes at most 1100 seconds, the upgrade and the
  timer it starts succeed, cost him exactly its materials and no diamonds, and leave the
  building one level higher, at full strength, neither timed nor listed.
\<close>

theorem short_upgrade_completes:
  assumes "buildings_ok l" and "my_build (my_attribute l) (city_hall_uuid (my_attribute l)) = Some hall"
    and "my_build (my_attribute l) sn = Some b" and "limit_of g (build_level hall) (build_type b) = Inr lim"
    and "build_level b < max_level lim" and "status b = 0" and "build_level b < 2 ^ 31 - 1" and "0 \<le> build_level b"
    and "config_of g (build_type b) (build_level b) = Inr c" and "affordable c (my_attribute l)"
    and "config_time c \<le> 1100" and "config_of g (build_type b) (build_level b + 1) = Inr c'"
  shows "\<exists>l' out. building_steps g [(t, Upgrade sn), (t', Timer_fires sn)] l = Inr (l', out) \<and>
    built (build_level b + 1) c' l' sn \<and> building_timer l' sn = None \<and> sn \<notin> set (building l') \<and>
    wood (my_attribute l') = to_int32 (wood (my_attribute l) - need_wood c) \<and>
    stone (my_attribute l') = to_int32 (stone (my_attribute l) - need_stone c) \<and>
    iron (my_attribute l') = to_int32 (iron (my_attribute l) - need_iron c) \<and>
    soil (my_attribute l') = to_int32 (soil (my_attribute l) - need_soil c) \<and>
    diamond (my_attribute l') = diamond (my_attribute l)"
proof -
  have sn: "build_sn b = sn" using assms(1,3) by (simp add: buildings_ok_def)
  have lv: "to_int32 (build_level b + 1) = build_level b + 1" using assms(7,8) by (intro wrap_signed_id) simp_all
  define b1 where "b1 = b\<lparr>status := 1, ctime := t, btime := config_time c\<rparr>"
  define l1 where "l1 = construct sn b1 (put_build sn b1 (put_build sn b1 (l\<lparr>my_attribute := pay c (my_attribute l)\<rparr>)))"
  have "\<exists>out. BuildUpgradeRequestService g t sn l = Inr (l1, out)"
    using assms(2-6,9,10) by (simp add: BuildUpgradeRequestService_def Let_def b1_def l1_def sn del: construct_fields)
  then obtain out1 where up: "BuildUpgradeRequestService g t sn l = Inr (l1, out1)" ..
  have b1: "my_build (my_attribute l1) sn = Some b1" "building_timer l1 sn \<noteq> None"
    using assms(11) by (simp_all add: l1_def b1_def)
  have f: "build_type b1 = build_type b" "build_level b1 = build_level b" by (simp_all add: b1_def)
  define l2 where "l2 = (put_build sn (finished t' c' b1) l1)\<lparr>building_timer := (building_timer l1)(sn := None),
     building := filter (\<lambda>s. s \<noteq> sn) (building l1)\<rparr>"
  have "\<exists>out. build_timer_handle g t' sn l1 = Inr (l2, out)"
    using b1 assms(12) lv by (simp add: build_timer_handle_def Let_def f l2_def)
  then obtain out2 where ti: "build_timer_handle g t' sn l1 = Inr (l2, out2)" ..
  have "building_steps g [(t, Upgrade sn), (t', Timer_fires sn)] l = Inr (l2, out1 @ out2)"
    using b1(2) by (auto simp: building_step_def up ti)
  moreover have "built (build_level b + 1) c' l2 sn" by (simp add: built_def l2_def f lv)
  moreover have "building_timer l2 sn = None" "sn \<notin> set (building l2)" by (simp_all add: l2_def)
  moreover have "my_attribute l2 = (my_attribute l1)\<lparr>my_build := my_build (my_attribute l2)\<rparr>"
    "my_attribute l1 = (pay c (my_attribute l))\<lparr>my_build := my_build (my_attribute l1)\<rparr>"
    by (simp_all add: l2_def l1_def put_build_def)
  then have "wood (my_attribute l2) = wood (pay c (my_attribute l))" "stone (my_attribute l2) = stone (pay c (my_attribute l))"
    "iron (my_attribute l2) = iron (pay c (my_attribute l))" "soil (my_attribute l2) = soil (pay c (my_attribute l))"
    "diamond (my_attribute l2) = diamond (pay c (my_attribute l))"
    by (metis attributes.ext_inject attributes.surjective attributes.update_convs(9))+
  ultimately show ?thesis by (intro exI [of _ l2] exI [of _ "out1 @ out2"]) (simp add: pay_def)
qed

text \<open>
  A finished building is upgraded for one diamond. A building that is no longer under
  construction but still in the list, as every building ever built is after a login, because
  no entry is deleted from Redis, gets its next level for one diamond: without the
  materials, the city hall's limit or a construction.
\<close>

theorem one_diamond_upgrades_finished_building:
  assumes "my_build (my_attribute l) sn = Some b" and "status b = 0" and "btime b \<le> now - ctime b"
    and "building_timer l sn = None" and "sn \<in> set (building l)" and "1 \<le> diamond (my_attribute l)"
    and "diamond (my_attribute l) < 2 ^ 31"
    and "0 \<le> build_level b" and "build_level b < 2 ^ 31 - 1" and "config_of g (build_type b) (build_level b + 1) = Inr c"
  shows "\<exists>l' out. FastFinishRequestService g now sn l = Inr (l', out) \<and> built (build_level b + 1) c l' sn \<and>
    diamond (my_attribute l') = diamond (my_attribute l) - 1 \<and> wood (my_attribute l') = wood (my_attribute l) \<and>
    stone (my_attribute l') = stone (my_attribute l) \<and> iron (my_attribute l') = iron (my_attribute l) \<and>
    soil (my_attribute l') = soil (my_attribute l)"
proof -
  have price: "fast_price now b = 1" using assms(3) by (simp add: fast_price_def Let_def wrap_signed_def)
  have lv: "to_int32 (build_level b + 1) = build_level b + 1" using assms(8,9) by (intro wrap_signed_id) simp_all
  have di: "to_int32 (diamond (my_attribute l) - 1) = diamond (my_attribute l) - 1"
    using assms(6,7) by (intro wrap_signed_id) simp_all
  define l' where "l' = put_build sn (finished now c b)
    (l\<lparr>my_attribute := (my_attribute l)\<lparr>diamond := diamond (my_attribute l) - 1\<rparr>, building := remove1 sn (building l)\<rparr>)"
  have "\<exists>out. FastFinishRequestService g now sn l = Inr (l', out)"
    using assms price lv di by (simp add: FastFinishRequestService_def Let_def l'_def)
  moreover have "built (build_level b + 1) c l' sn" using lv by (simp add: built_def l'_def)
  ultimately show ?thesis by (auto simp: l'_def put_build_def)
qed

subsection \<open>An example\<close>

definition example_config :: build_config where
  "example_config = \<lparr>config_big_type = 0, need_wood = 5, need_stone = 4, need_iron = 3, need_soil = 2, need_diamond = 0,
     config_time = 60, output_per_hour = 0, space = 0, config_hp = 100\<rparr>"

definition example_game :: game where
  "example_game = \<lparr>global_build = [[], replicate 4 example_config, replicate 4 example_config],
     city_limit = [[], [\<lparr>max_level = 0, max_num = 0\<rparr>, \<lparr>max_level = 3, max_num = 1\<rparr>, \<lparr>max_level = 2, max_num = 1\<rparr>]],
     arm_levels = [0, 4, 4, 4], produced = (\<lambda>output t. output * t div 3600), float_plus = (\<lambda>x i. x + word_of_int i),
     hp_of = (\<lambda>x i. 5 * uint x + i), mp_of = (\<lambda>x i. uint x + i), attack_of = (\<lambda>x y. uint x + uint y),
     defence_of = (\<lambda>x y. uint x + uint y div 50)\<rparr>"

definition hall :: build_data where
  "hall = \<lparr>build_sn = ''hall'', big_type = 0, status = 0, ctime = 0, btime = 0, build_type = 1, build_level = 1,
     cur_hp = 100, build_skin = 0, cur_resource = 0, build_x = 0, build_y = 0\<rparr>"

definition house :: build_data where
  "house = hall\<lparr>build_sn := ''house'', build_type := 2\<rparr>"

definition example_player :: login_worker where
  "example_player = \<lparr>player_UUID = 7, login_status = True,
     my_attribute = \<lparr>player_index = 0, diamond = 20, wood = 50, stone = 50, iron = 50, soil = 50, player_nick = ''eve'',
       city_hall_uuid = ''hall'', my_build = [''hall'' \<mapsto> hall, ''house'' \<mapsto> house], backpack_num = 12, recuite_type = 0,
       chance_num = 0, build_num = [1 \<mapsto> 1, 2 \<mapsto> 1], combat_uuid = ''none'', player_race = 0, player_record = 0, player_level = 0, worldmap_x = 0, worldmap_y = 0, groupId = -1, group_position = -1\<rparr>,
     building_timer = Map.empty, building = [''house''],
     backpack_status = replicate 64 False, my_backpack = [], my_hero = replicate 6 None, rand_hero = replicate 3 None,
     hero_equip = Map.empty, email_sale_list = Map.empty\<rparr>"

lemma example_ok: "buildings_ok example_player"
  by (auto simp: buildings_ok_def short_construction_def under_construction_def example_player_def hall_def house_def
      split: if_splits)

lemma example_configs:
  "limit_of example_game 1 2 = Inr \<lparr>max_level = 2, max_num = 1\<rparr>"
  "config_of example_game 2 1 = Inr example_config" "config_of example_game 2 2 = Inr example_config"
  by (simp_all add: example_game_def limit_of_def config_of_def at_def)

lemma example_affordable: "affordable example_config (my_attribute example_player)"
  by (simp add: affordable_def example_config_def example_player_def)

theorem timers_follow_constructions_witness:
  "let saved = [''hall'' \<mapsto> hall, ''house'' \<mapsto> house];
       es = [(90, Reload saved [(''hall'', 1, 2)]), (100, Upgrade ''house'')]
   in \<exists>l' out. building_steps example_game es example_player = Inr (l', out) \<and>
     under_construction l' ''house'' \<and> building_timer l' ''house'' \<noteq> None \<and> ''house'' \<in> set (building l')"
proof -
  define saved where "saved = [''hall'' \<mapsto> hall, ''house'' \<mapsto> house]"
  let ?reload = "(90, Reload saved [(''hall'', 1, 2)])" let ?es = "[?reload, (100, Upgrade ''house'')]"
  define hall' where "hall' = hall\<lparr>build_x := 1, build_y := 2\<rparr>"
  obtain l1 out1 where s1: "BuildStatusListRequestService saved [(''hall'', 1, 2)] example_player = (l1, out1)" by fastforce
  then have l1: "my_attribute l1 = (my_attribute example_player)\<lparr>my_build := [''hall'' \<mapsto> hall', ''house'' \<mapsto> house]\<rparr>"
    by (auto simp: BuildStatusListRequestService_def saved_def put_build_def example_player_def hall'_def Let_def
        fun_upd_twist)
  then have h: "my_build (my_attribute l1) ''house'' = Some house" "my_build (my_attribute l1) ''hall'' = Some hall'"
    "city_hall_uuid (my_attribute l1) = ''hall''" "affordable example_config (my_attribute l1)" "build_level hall' = 1"
    by (simp_all add: example_player_def affordable_def example_config_def hall'_def hall_def)
  obtain l' out where u: "BuildUpgradeRequestService example_game 100 ''house'' l1 = Inr (l', out)"
    and c: "under_construction l' ''house''" "short_construction l' ''house''"
    using h example_configs
    by (simp add: BuildUpgradeRequestService_def Let_def house_def hall_def under_construction_def
        short_construction_def example_config_def)
  have run: "building_steps example_game ?es example_player = Inr (l', out1 @ out)"
    using s1 u by (simp add: building_step_def)
  have saved: "reads_back saved (my_build (my_attribute example_player))" "reads_back saved saved"
    by (simp_all add: reads_back_def same_construction_def saved_def example_player_def split: option.split)
  have "reloads_read_back example_game ?es example_player saved"
    using saved(2) by (simp split: sum.split)
  moreover have "fresh_numbers ?es example_player" by (simp add: fresh_numbers_def)
  ultimately have "(building_timer l' ''house'' \<noteq> None \<longleftrightarrow> short_construction l' ''house'') \<and>
      (under_construction l' ''house'' \<longrightarrow> ''house'' \<in> set (building l'))"
    using timers_follow_constructions [OF run example_ok _ saved(1)] by blast
  with run c show ?thesis unfolding Let_def saved_def [symmetric] by blast
qed

theorem short_upgrade_completes_witness:
  "\<exists>l' out. building_steps example_game [(100, Upgrade ''house''), (160, Timer_fires ''house'')] example_player = Inr (l', out) \<and>
    built 2 example_config l' ''house'' \<and> building_timer l' ''house'' = None \<and> wood (my_attribute l') = 45"
proof -
  have p: "my_build (my_attribute example_player) (city_hall_uuid (my_attribute example_player)) = Some hall"
    "my_build (my_attribute example_player) ''house'' = Some house" "wood (my_attribute example_player) = 50"
    by (simp_all add: example_player_def)
  have h: "limit_of example_game (build_level hall) (build_type house) = Inr \<lparr>max_level = 2, max_num = 1\<rparr>"
    "config_of example_game (build_type house) (build_level house) = Inr example_config"
    "config_of example_game (build_type house) (build_level house + 1) = Inr example_config"
    "build_level house = 1" "status house = 0"
    using example_configs by (simp_all add: hall_def house_def)
  have c: "config_time example_config = 60" "need_wood example_config = 5" by (simp_all add: example_config_def)
  have "to_int32 45 = 45" by (simp add: wrap_signed_def)
  with short_upgrade_completes [OF example_ok p(1,2) h(1) _ _ _ _ h(2) example_affordable _ h(3), of 100 160]
  show ?thesis using p h c by auto
qed

theorem one_diamond_upgrades_finished_building_witness:
  "\<exists>l' out. FastFinishRequestService example_game 500 ''house'' example_player = Inr (l', out) \<and>
    built 2 example_config l' ''house'' \<and> diamond (my_attribute l') = 19 \<and> wood (my_attribute l') = 50"
proof -
  have p: "my_build (my_attribute example_player) ''house'' = Some house" "building_timer example_player ''house'' = None"
    "''house'' \<in> set (building example_player)" "diamond (my_attribute example_player) = 20"
    "wood (my_attribute example_player) = 50"
    by (simp_all add: example_player_def)
  have h: "config_of example_game (build_type house) (build_level house + 1) = Inr example_config"
    "build_level house = 1" "status house = 0" "btime house = 0" "ctime house = 0"
    using example_configs by (simp_all add: hall_def house_def)
  from one_diamond_upgrades_finished_building [OF p(1) h(3) _ p(2,3), where g = example_game and now = 500 and c = example_config]
  show ?thesis using p h by auto
qed

end
