(* ===== verification/Market.thy ===== *)
theory Market
  imports Player_Data
begin

section \<open>The market\<close>

text \<open>
  Models the two tables of the market in \<open>gateway_server/database/redis_chat_worker.cpp\<close>:
  the goods in a vector and the index of each number in a map, with the entries of
  Redis that follow them. The locale states what the buyers and sellers rely on, a map
  from numbers to goods; the tables interpret it.
\<close>

record market =
  gloabal_market :: "market_goods list"
  market_index :: "string \<Rightarrow> int option"

definition empty_market :: market where
  "empty_market = \<lparr>gloabal_market = [], market_index = Map.empty\<rparr>"

definition push_market :: "market_goods \<Rightarrow> market \<Rightarrow> market" where
  "push_market res m =
     \<lparr>gloabal_market = gloabal_market m @ [res],
      market_index = (market_index m)(goods_sn res \<mapsto> int (length (gloabal_market m)))\<rparr>"

definition set_market :: "market_goods \<Rightarrow> market \<Rightarrow> market \<times> redis_call list" where
  "set_market res m = (push_market (res\<lparr>remain_time := 86400\<rparr>) m, [write_market res])"

definition del_market :: "string \<Rightarrow> market \<Rightarrow> market \<times> redis_call list" where
  "del_market sn m =
     (case market_index m sn of
        None \<Rightarrow> (m, [])
      | Some i \<Rightarrow>
          if 0 \<le> i \<and> i < int (length (gloabal_market m)) then
            (if length (gloabal_market m) = 1 then \<lparr>gloabal_market = [], market_index = Map.empty\<rparr>
             else let g1 = (gloabal_market m)[nat i := last (gloabal_market m)];
                      new_equip_sn = goods_sn (g1 ! nat i) in
               \<lparr>gloabal_market = butlast g1, market_index = ((market_index m)(new_equip_sn \<mapsto> i))(sn := None)\<rparr>,
             [delete_market sn])
          else (m, []))"

subsection \<open>What a market promises\<close>

locale map_contract =
  fixes lookup :: "'m \<Rightarrow> 'k \<Rightarrow> 'v option" and add :: "'v \<Rightarrow> 'm \<Rightarrow> 'm" and remove :: "'k \<Rightarrow> 'm \<Rightarrow> 'm"
    and key :: "'v \<Rightarrow> 'k" and kept :: "'v \<Rightarrow> 'v" and valid :: "'m \<Rightarrow> bool"
  assumes key_of: "valid m \<Longrightarrow> lookup m k = Some v \<Longrightarrow> key v = k"
    and lookup_add: "valid m \<Longrightarrow> lookup m (key v) = None \<Longrightarrow> lookup (add v m) = (lookup m)(key v \<mapsto> kept v)"
    and valid_add: "valid m \<Longrightarrow> lookup m (key v) = None \<Longrightarrow> valid (add v m)"
    and lookup_remove: "valid m \<Longrightarrow> lookup (remove k m) = (lookup m)(k := None)"
    and valid_remove: "valid m \<Longrightarrow> valid (remove k m)"
    and key_kept: "key (kept v) = key v"
begin

text \<open>Goods that are offered and taken away again leave the market as it was.\<close>

lemma remove_add: "valid m \<Longrightarrow> lookup m (key v) = None \<Longrightarrow> lookup (remove (key v) (add v m)) = lookup m"
  by (auto simp: lookup_add lookup_remove valid_add)

lemma remove_twice: "valid m \<Longrightarrow> lookup (remove k (remove k m)) = lookup (remove k m)"
  by (auto simp: lookup_remove valid_remove)

fun run :: "('k + 'v) list \<Rightarrow> 'm \<Rightarrow> 'm" where
  "run [] m = m"
| "run (Inl k # es) m = run es (remove k m)"
| "run (Inr v # es) m = run es (add v m)"

fun map_run :: "('k + 'v) list \<Rightarrow> ('k \<Rightarrow> 'v option) \<Rightarrow> 'k \<Rightarrow> 'v option" where
  "map_run [] f = f"
| "map_run (Inl k # es) f = map_run es (f(k := None))"
| "map_run (Inr v # es) f = map_run es (f(key v \<mapsto> kept v))"

text \<open>Numbers are only offered while they are free.\<close>

fun offers_free :: "('k + 'v) list \<Rightarrow> ('k \<Rightarrow> 'v option) \<Rightarrow> bool" where
  "offers_free [] f = True"
| "offers_free (Inl k # es) f = offers_free es (f(k := None))"
| "offers_free (Inr v # es) f = (f (key v) = None \<and> offers_free es (f(key v \<mapsto> kept v)))"

lemma run_refines: "valid m \<Longrightarrow> offers_free es (lookup m) \<Longrightarrow> lookup (run es m) = map_run es (lookup m) \<and> valid (run es m)"
proof (induction es arbitrary: m)
  case (Cons e es)
  show ?case
  proof (cases e)
    case (Inl k)
    have v: "valid (remove k m)" using Cons.prems(1) by (rule valid_remove)
    have "offers_free es (lookup (remove k m))" using Cons.prems Inl by (simp only: lookup_remove offers_free.simps)
    from Cons.IH [OF v this] show ?thesis using Cons.prems(1) Inl by (simp only: lookup_remove run.simps map_run.simps)
  next
    case (Inr x)
    have f: "lookup m (key x) = None" using Cons.prems(2) Inr by simp
    have v: "valid (add x m)" using Cons.prems(1) f by (rule valid_add)
    have "offers_free es (lookup (add x m))" using Cons.prems Inr f by (simp add: lookup_add)
    from Cons.IH [OF v this] show ?thesis using Cons.prems(1) Inr f by (simp only: lookup_add run.simps map_run.simps)
  qed
qed simp

end

subsection \<open>The two tables are a map\<close>

definition market_lookup :: "market \<Rightarrow> string \<Rightarrow> market_goods option" where
  "market_lookup m sn =
     (case market_index m sn of
        None \<Rightarrow> None
      | Some i \<Rightarrow> if 0 \<le> i \<and> i < int (length (gloabal_market m)) then Some (gloabal_market m ! nat i) else None)"

definition market_ok :: "market \<Rightarrow> bool" where
  "market_ok m \<longleftrightarrow> (\<forall>sn i. market_index m sn = Some i \<longleftrightarrow>
     0 \<le> i \<and> i < int (length (gloabal_market m)) \<and> goods_sn (gloabal_market m ! nat i) = sn)"

lemma gloabal_market_push [simp]: "gloabal_market (push_market g m) = gloabal_market m @ [g]"
  by (simp add: push_market_def)

lemma market_okD: "market_ok m \<Longrightarrow> market_index m sn = Some i \<Longrightarrow>
    0 \<le> i \<and> i < int (length (gloabal_market m)) \<and> goods_sn (gloabal_market m ! nat i) = sn"
  by (simp add: market_ok_def)

lemma market_ok_at: "market_ok m \<Longrightarrow> j < length (gloabal_market m) \<Longrightarrow> market_index m (goods_sn (gloabal_market m ! j)) = Some (int j)"
  by (simp add: market_ok_def)

lemma market_ok_empty: "market_ok empty_market"
  by (simp add: market_ok_def empty_market_def)

lemma market_lookup_index: "market_ok m \<Longrightarrow> market_lookup m sn = map_option (\<lambda>i. gloabal_market m ! nat i) (market_index m sn)"
  by (auto simp: market_lookup_def dest: market_okD split: option.split)

lemma market_lookup_ex: "market_ok m \<Longrightarrow> market_lookup m sn = Some g \<longleftrightarrow> g \<in> set (gloabal_market m) \<and> goods_sn g = sn"
proof
  assume m: "market_ok m"
  show "g \<in> set (gloabal_market m) \<and> goods_sn g = sn" if "market_lookup m sn = Some g"
    using that m by (auto simp: market_lookup_def dest: market_okD split: option.splits if_splits)
  show "market_lookup m sn = Some g" if "g \<in> set (gloabal_market m) \<and> goods_sn g = sn"
  proof -
    from that obtain j where j: "j < length (gloabal_market m)" "gloabal_market m ! j = g" by (auto simp: in_set_conv_nth)
    from market_ok_at [OF m j(1)] j that show ?thesis by (simp add: market_lookup_index [OF m])
  qed
qed

lemma market_ok_push:
  assumes "market_ok m" and "market_lookup m (goods_sn g) = None"
  shows "market_ok (push_market g m)"
proof -
  have free: "market_index m (goods_sn g) = None" using assms by (simp add: market_lookup_index)
  then have other: "goods_sn (gloabal_market m ! j) \<noteq> goods_sn g" if "j < length (gloabal_market m)" for j
    using market_ok_at [OF assms(1) that] by auto
  show ?thesis
    unfolding market_ok_def
  proof (intro allI)
    fix sn i
    show "market_index (push_market g m) sn = Some i \<longleftrightarrow> 0 \<le> i \<and> i < int (length (gloabal_market (push_market g m))) \<and>
        goods_sn (gloabal_market (push_market g m) ! nat i) = sn"
    proof (cases "i = int (length (gloabal_market m))")
      case True
      then show ?thesis using market_okD [OF assms(1), of sn i] by (auto simp: push_market_def nth_append)
    next
      case False
      then show ?thesis
        using assms(1) free other [of "nat i"] by (auto simp: push_market_def nth_append market_ok_def)
    qed
  qed
qed

lemma fst_del_market:
  assumes "market_ok m" and "market_index m sn = Some i"
  shows "gloabal_market (fst (del_market sn m)) = swap_remove (nat i) (gloabal_market m)"
    and "market_index (fst (del_market sn m)) =
      ((market_index m)(goods_sn (last (gloabal_market m)) \<mapsto> i))(sn := None)"
proof -
  note i = market_okD [OF assms]
  show "gloabal_market (fst (del_market sn m)) = swap_remove (nat i) (gloabal_market m)"
  proof (cases "length (gloabal_market m) = 1")
    case True
    then obtain g where "gloabal_market m = [g]" by (cases "gloabal_market m") auto
    with i assms(2) show ?thesis by (simp add: del_market_def swap_remove_def)
  next
    case False
    with i assms(2) show ?thesis by (simp add: del_market_def swap_remove_def Let_def)
  qed
  show "market_index (fst (del_market sn m)) = ((market_index m)(goods_sn (last (gloabal_market m)) \<mapsto> i))(sn := None)"
  proof (cases "length (gloabal_market m) = 1")
    case True
    then obtain g where g: "gloabal_market m = [g]" by (cases "gloabal_market m") auto
    have "market_index m s = None" if "s \<noteq> sn" for s
      using market_okD [OF assms(1), of s] i g that by (cases "market_index m s") auto
    with i assms(2) g show ?thesis by (auto simp: del_market_def fun_eq_iff)
  next
    case False
    have "nat i < length (gloabal_market m)" using i by auto
    with False i assms(2) show ?thesis by (simp add: del_market_def Let_def)
  qed
qed

lemma market_ok_distinct: "market_ok m \<Longrightarrow> distinct (map goods_sn (gloabal_market m))"
  unfolding distinct_conv_nth by (metis length_map market_ok_at nth_map of_nat_eq_iff option.inject)

lemma market_ok_del:
  assumes "market_ok m"
  shows "market_ok (fst (del_market sn m)) \<and> market_lookup (fst (del_market sn m)) = (market_lookup m)(sn := None)"
proof (cases "market_index m sn")
  case None
  then have "fst (del_market sn m) = m" by (simp add: del_market_def)
  with assms None show ?thesis by (auto simp: market_lookup_index fun_eq_iff)
next
  case (Some i)
  let ?g = "gloabal_market m" and ?m = "fst (del_market sn m)"
  note i = market_okD [OF assms Some] and f = fst_del_market [OF assms Some]
  have ne: "?g \<noteq> []" using i by auto
  have d: "distinct (map goods_sn ?g)" by (rule market_ok_distinct [OF assms])
  have ok: "market_ok ?m"
    unfolding market_ok_def
  proof (intro allI)
    fix s j
    let ?l = "goods_sn (last ?g)"
    have ni: "nat (int (length ?g) - 1) = length ?g - Suc 0" by simp
    have l: "market_index m ?l = Some (int (length ?g) - 1)"
      using market_ok_at [OF assms, of "length ?g - 1"] ne by (simp add: last_conv_nth of_nat_diff Suc_le_eq)
    show "market_index ?m s = Some j \<longleftrightarrow> 0 \<le> j \<and> j < int (length (gloabal_market ?m)) \<and> goods_sn (gloabal_market ?m ! nat j) = s"
    proof (cases "0 \<le> j \<and> j < int (length ?g) - 1")
      case True
      then have n: "gloabal_market ?m ! nat j = (if j = i then last ?g else ?g ! nat j)"
        unfolding f(1) using i by (subst nth_swap_remove) auto
      have e: "market_index m s = Some j \<longleftrightarrow> goods_sn (?g ! nat j) = s" for s using True assms by (auto simp: market_ok_def)
      have r: "0 \<le> j \<and> j < int (length (gloabal_market ?m))" using True unfolding f(1) by simp
      have ls: "market_index m ?l \<noteq> Some j" using True l by simp
      show ?thesis
      proof (cases "j = i")
        case True
        then have "?l \<noteq> sn" using ls Some by auto
        moreover have "market_index m s = Some j \<longleftrightarrow> s = sn" using e [of s] i True by auto
        ultimately show ?thesis using True r n unfolding f(2) by auto
      next
        case False
        then have "market_index m sn \<noteq> Some j" using Some by simp
        with False r n e [of s] ls show ?thesis unfolding f(2) by (auto simp: e)
      qed
    next
      case False
      have "\<not> (0 \<le> j \<and> j < int (length (gloabal_market ?m)))" using False ne unfolding f(1) by auto
      moreover have "market_index ?m s \<noteq> Some j"
      proof
        assume a: "market_index ?m s = Some j"
        show False
        proof (cases "s = ?l")
          case True
          with a have "j = i" "?l \<noteq> sn" unfolding f(2) by (auto split: if_splits)
          with Some l i False have "i = int (length ?g) - 1" by auto
          with i l have "?l = sn" by (simp add: last_conv_nth ne ni)
          with \<open>?l \<noteq> sn\<close> show False ..
        next
          case False
          with a have "market_index m s = Some j" "s \<noteq> sn" unfolding f(2) by (auto split: if_splits)
          from market_okD [OF assms this(1)] False \<open>\<not> (0 \<le> j \<and> j < int (length ?g) - 1)\<close> have "j = int (length ?g) - 1" by auto
          with \<open>market_index m s = Some j\<close> have "s = ?l"
            using market_okD [OF assms \<open>market_index m s = Some j\<close>] by (simp add: last_conv_nth ne ni)
          with False show False ..
        qed
      qed
      ultimately show ?thesis by blast
    qed
  qed
  have m: "mset ?g = add_mset (?g ! nat i) (mset (gloabal_market ?m))"
    unfolding f(1) by (rule mset_swap_remove) (use i in auto)
  have "market_lookup ?m s = ((market_lookup m)(sn := None)) s" for s
  proof -
    have "market_lookup ?m s = Some v \<longleftrightarrow> ((market_lookup m)(sn := None)) s = Some v" for v
    proof -
      have "v \<in> set (gloabal_market ?m) \<longleftrightarrow> v \<in> set ?g \<and> goods_sn v \<noteq> sn"
      proof -
        have "distinct (goods_sn (?g ! nat i) # map goods_sn (gloabal_market ?m))"
          using d m by (metis mset.simps(2) mset_eq_imp_distinct_iff mset_map image_mset_add_mset)
        moreover have "set ?g = insert (?g ! nat i) (set (gloabal_market ?m))"
          using m by (metis set_mset_add_mset_insert set_mset_mset)
        moreover from \<open>distinct (goods_sn (?g ! nat i) # _)\<close>
        have "goods_sn v \<noteq> goods_sn (?g ! nat i)" if "v \<in> set (gloabal_market ?m)"
          using that by (metis distinct.simps(2) image_eqI list.set_map)
        ultimately show ?thesis using i by auto
      qed
      then show ?thesis by (auto simp: market_lookup_ex [OF ok] market_lookup_ex [OF assms])
    qed
    then show ?thesis by (metis option.exhaust)
  qed
  with ok show ?thesis by blast
qed

interpretation goods: map_contract market_lookup "\<lambda>g m. fst (set_market g m)" "\<lambda>sn m. fst (del_market sn m)" goods_sn
  "\<lambda>g :: market_goods. g\<lparr>remain_time := 86400\<rparr>" market_ok
proof unfold_locales
  fix m and v :: market_goods
  assume m: "market_ok m" and f: "market_lookup m (goods_sn v) = None"
  let ?v = "v\<lparr>remain_time := 86400\<rparr>"
  have ok: "market_ok (push_market ?v m)" using m f by (intro market_ok_push) simp_all
  then show "market_ok (fst (set_market v m))" by (simp add: set_market_def)
  have "market_lookup (push_market ?v m) s = ((market_lookup m)(goods_sn v \<mapsto> ?v)) s" for s
  proof -
    have "market_lookup (push_market ?v m) s = Some x \<longleftrightarrow> ((market_lookup m)(goods_sn v \<mapsto> ?v)) s = Some x" for x
      using market_lookup_ex [OF m, of "goods_sn v"] f
      by (auto simp: market_lookup_ex [OF ok] market_lookup_ex [OF m])
    then show ?thesis by (metis option.exhaust)
  qed
  then show "market_lookup (fst (set_market v m)) = (market_lookup m)(goods_sn v \<mapsto> ?v)"
    by (auto simp: set_market_def)
next
  show "market_ok (fst (del_market k m))" "market_lookup (fst (del_market k m)) = (market_lookup m)(k := None)"
    if "market_ok m" for m k
    using market_ok_del [OF that] by simp_all
next
  show "goods_sn v = k" if "market_ok m" "market_lookup m k = Some v" for m k and v :: market_goods
    using that by (simp add: market_lookup_ex)
qed simp

subsection \<open>The market over a run\<close>

text \<open>Offers and deletions in the order in which the gateway's only thread makes them.\<close>

fun market_run :: "(string + market_goods) list \<Rightarrow> market \<Rightarrow> market" where
  "market_run [] m = m"
| "market_run (Inl sn # es) m = market_run es (fst (del_market sn m))"
| "market_run (Inr g # es) m = market_run es (fst (set_market g m))"

fun map_run :: "(string + market_goods) list \<Rightarrow> (string \<Rightarrow> market_goods option) \<Rightarrow> string \<Rightarrow> market_goods option" where
  "map_run [] f = f"
| "map_run (Inl sn # es) f = map_run es (f(sn := None))"
| "map_run (Inr g # es) f = map_run es (f(goods_sn g \<mapsto> g\<lparr>remain_time := 86400\<rparr>))"

fun offers_free :: "(string + market_goods) list \<Rightarrow> (string \<Rightarrow> market_goods option) \<Rightarrow> bool" where
  "offers_free [] f \<longleftrightarrow> True"
| "offers_free (Inl sn # es) f \<longleftrightarrow> offers_free es (f(sn := None))"
| "offers_free (Inr g # es) f \<longleftrightarrow> f (goods_sn g) = None \<and> offers_free es (f(goods_sn g \<mapsto> g\<lparr>remain_time := 86400\<rparr>))"

lemma market_run_eq: "market_run es m = goods.run es m"
  by (induction es m rule: market_run.induct) simp_all

lemma map_run_eq: "map_run es f = goods.map_run es f"
proof (induction es arbitrary: f)
  case (Cons e es)
  then show ?case by (cases e) (simp_all only: map_run.simps goods.map_run.simps)
qed simp

lemma offers_free_eq: "offers_free es f = goods.offers_free es f"
proof (induction es arbitrary: f)
  case (Cons e es)
  then show ?case by (cases e) (simp_all only: offers_free.simps goods.offers_free.simps)
qed simp

text \<open>
  C31. The market is a map. After any offers of new numbers and any deletions, each of
  which moves the last of the goods to another index, the two tables agree, no number is
  offered twice, and looking a number up gives what a map from numbers to goods would.
\<close>

theorem market_is_a_map:
  assumes "market_ok m" and "offers_free es (market_lookup m)"
  shows "market_lookup (market_run es m) = map_run es (market_lookup m) \<and> market_ok (market_run es m) \<and>
    distinct (map goods_sn (gloabal_market (market_run es m)))"
proof -
  from goods.run_refines [OF assms(1)] assms(2)
  have "market_lookup (market_run es m) = map_run es (market_lookup m) \<and> market_ok (market_run es m)"
    by (simp add: market_run_eq map_run_eq offers_free_eq)
  then show ?thesis using market_ok_distinct by blast
qed

definition some_goods :: "string \<Rightarrow> int \<Rightarrow> market_goods" where
  "some_goods sn cost = \<lparr>goods_player = ''bob'', remain_time = 100, goods_cost = cost, goods_type = 0, goods_position = 1,
     goods_sn = sn, goods_part = 1, goods_quality = 2, goods_level = 10, goods_attr1_type = 1, goods_attr1_value = 10,
     goods_attr2_type = 2, goods_attr2_value = 10, goods_extral1_type = 3, goods_extral1_value = 10,
     goods_extral2_type = 4, goods_extral2_value = 10\<rparr>"

definition three_offers :: "(string + market_goods) list" where
  "three_offers = [Inr (some_goods ''a'' 5), Inr (some_goods ''b'' 6), Inr (some_goods ''c'' 7), Inl ''a'']"

theorem market_is_a_map_witness:
  "market_lookup (market_run three_offers empty_market) = map_run three_offers (market_lookup empty_market) \<and>
    market_ok (market_run three_offers empty_market) \<and>
    distinct (map goods_sn (gloabal_market (market_run three_offers empty_market)))"
  by (rule market_is_a_map [OF market_ok_empty])
    (simp add: three_offers_def some_goods_def market_lookup_def empty_market_def)

end
