(* ===== verification/Backpack.thy ===== *)
theory Backpack
  imports Market
begin

section \<open>Items of a player\<close>

text \<open>
  Models the handlers of items in \<open>gateway_server/service/_login_worker_logicworker.cpp\<close>:
  putting them on heroes, selling and buying them, boxes and the letters with the money of
  a sale. An item is in a slot of the backpack whose status is set, worn by a hero, or in
  the market.
\<close>

subsection \<open>Heroes wear items\<close>

definition find_hero_equip_sn :: "equip list \<Rightarrow> int" where
  "find_hero_equip_sn es =
     (let n = length (takeWhile (\<lambda>e. witch_pannle e = 1) es) in if n < length es then int n else -1)"

text \<open>The four pairs of an item that is worn; \<open>bonus n\<close> sums what they add to attribute \<open>n\<close>.\<close>

definition equip_pairs :: "equip \<Rightarrow> (int \<times> int) list" where
  "equip_pairs e = [(attr1_type e, attr1_value e), (attr2_type e, attr2_value e),
     (extral1_type e, extral1_value e), (extral2_type e, extral2_value e)]"

definition bonus :: "equip list \<Rightarrow> int \<Rightarrow> int" where
  "bonus es n = foldl (\<lambda>sum (ty, v). if ty = n then to_int32 (sum + v) else sum) 0
     (concat (map equip_pairs (filter (\<lambda>e. witch_pannle e = 1) es)))"

definition items_of :: "login_worker \<Rightarrow> string \<Rightarrow> equip list" where
  "items_of l uuid = (case hero_equip l uuid of None \<Rightarrow> [] | Some es \<Rightarrow> es)"

definition HeroRecaculate :: "game \<Rightarrow> equip list \<Rightarrow> hero \<Rightarrow> hero" where
  "HeroRecaculate g es h =
     (let b = base_att h; add = float_plus g; str = add (base_strength b) (bonus es 4);
          mag = add (base_magic_power b) (bonus es 5) in
      h\<lparr>leader := add (base_leader b) (bonus es 1), strategy := add (base_strategy b) (bonus es 2),
        economy := add (base_economy b) (bonus es 3), strength := str, magic_power := mag,
        max_hp := hp_of g str (bonus es 6), max_mp := mp_of g mag (bonus es 7),
        attack := attack_of g (base_attack b) str, defence := defence_of g (base_defence b) str\<rparr>)"

definition put_hero :: "int \<Rightarrow> hero \<Rightarrow> login_worker \<Rightarrow> login_worker" where
  "put_hero i h l = l\<lparr>my_hero := (my_hero l)[nat i := Some h]\<rparr>"

text \<open>The end of \<open>DressEquipRequestService\<close>: item \<open>bp\<close> of the backpack goes to place \<open>p\<close> of hero \<open>i\<close>.\<close>

definition dress :: "game \<Rightarrow> int \<Rightarrow> hero \<Rightarrow> equip list \<Rightarrow> int \<Rightarrow> int \<Rightarrow> login_worker \<Rightarrow> login_worker \<times> effect list" where
  "dress g i h es p bp l =
     (let u = player_UUID l; uuid = hero_uuid h; worn = es ! nat p;
          e1 = stored_equip ((my_backpack l ! nat bp)\<lparr>witch_pannle := 1, where_uuid := uuid, position := p\<rparr>);
          es1 = es[nat p := e1];
          h1 = HeroRecaculate g es1 h;
          l1 = put_hero i h1 (l\<lparr>hero_equip := (hero_equip l)(uuid \<mapsto> es1)\<rparr>) in
      if witch_pannle worn = 1 then
        let temp = stored_equip (worn\<lparr>witch_pannle := 0, position := bp\<rparr>) in
        (l1\<lparr>my_backpack := (my_backpack l)[nat bp := temp]\<rparr>,
         [Redis u (set_equip temp), Redis u (set_equip e1), Redis u (set_hero h1), Answer (HeroResponse h1)])
      else
        (l1\<lparr>my_backpack := (my_backpack l)[nat bp := e1], backpack_status := (backpack_status l)[nat bp := False]\<rparr>,
         [Redis u (set_equip e1), Redis u (set_hero h1), Answer (HeroResponse h1)]))"

definition DressEquipRequestService ::
  "game \<Rightarrow> int \<Rightarrow> int \<Rightarrow> int \<Rightarrow> login_worker \<Rightarrow> crash + login_worker \<times> effect list" where
  "DressEquipRequestService g which_hero bp hp l =
     (let error = (\<lambda>l r. Inr (l, [Simple_answer DressEquipRequest_ID r])) in
      if bp < 0 \<or> backpack_num (my_attribute l) \<le> bp \<or> which_hero < 1 \<or> 5 < which_hero then error l (-1)
      else if length (backpack_status l) \<le> nat bp then Inl OutOfRange
      else case my_hero l ! nat (which_hero - 1) of
          None \<Rightarrow> error l (-2)
        | Some h \<Rightarrow>
            if \<not> backpack_status l ! nat bp then error l (-2)
            else if cur_goods_space h \<le> hp then error l (-3)
            else let es = items_of l (hero_uuid h);
                     l1 = l\<lparr>hero_equip := (hero_equip l)(hero_uuid h \<mapsto> es)\<rparr>;
                     p = (if hp = -1 then find_hero_equip_sn es else hp) in
              if p = -1 then error l1 (-4)
              else if p < 0 \<or> int (length es) \<le> p then Inl OutOfRange
              else Inr (dress g (which_hero - 1) h es p bp l))"

text \<open>The end of \<open>UnloadEquipRequestService\<close>: place \<open>p\<close> of hero \<open>i\<close> is emptied into a slot.\<close>

definition unload :: "game \<Rightarrow> int \<Rightarrow> hero \<Rightarrow> equip list \<Rightarrow> int \<Rightarrow> int \<Rightarrow> login_worker \<Rightarrow> login_worker \<times> effect list" where
  "unload g i h es p slot l =
     (let u = player_UUID l; e = es ! nat p;
          temp = stored_equip (e\<lparr>witch_pannle := 0, position := slot\<rparr>);
          es1 = es[nat p := e\<lparr>witch_pannle := -1\<rparr>];
          h1 = HeroRecaculate g es1 h in
      (put_hero i h1 (l\<lparr>backpack_status := (backpack_status l)[nat slot := True], my_backpack := (my_backpack l)[nat slot := temp],
          hero_equip := (hero_equip l)(hero_uuid h \<mapsto> es1)\<rparr>),
       [Redis u (set_equip temp), Redis u (set_hero h1), Answer (HeroResponse h1), Simple_answer UnloadEquipRequest_ID 0]))"

definition UnloadEquipRequestService ::
  "game \<Rightarrow> int \<Rightarrow> int \<Rightarrow> login_worker \<Rightarrow> crash + login_worker \<times> effect list" where
  "UnloadEquipRequestService g which_hero p l =
     (let error = (\<lambda>r. Inr (l, [Simple_answer UnloadEquipRequest_ID r])) in
      if which_hero < 1 \<or> 5 < which_hero \<or> p < 0 \<or> 5 < p then error (-1)
      else case my_hero l ! nat (which_hero - 1) of
        None \<Rightarrow> error (-2)
      | Some h \<Rightarrow>
          let es = items_of l (hero_uuid h) in
          if hero_equip l (hero_uuid h) \<noteq> None \<and> length es \<le> nat p then Inl OutOfRange
          else if hero_equip l (hero_uuid h) \<noteq> None \<and> witch_pannle (es ! nat p) \<noteq> 1 then error (-3)
          else let slot = GetBackpack l in
            if slot = -1 then error (-4)
            else if length es \<le> nat p then Inl OutOfRange
            else Inr (unload g (which_hero - 1) h es p slot l))"

subsection \<open>The market\<close>

definition goods_of :: "string \<Rightarrow> int \<Rightarrow> int \<Rightarrow> equip \<Rightarrow> market_goods" where
  "goods_of seller now cost e =
     \<lparr>goods_player = seller, remain_time = now, goods_cost = cost, goods_type = 0, goods_position = 1,
      goods_sn = equip_sn e, goods_part = part e, goods_quality = quality e, goods_level = equip_level e,
      goods_attr1_type = attr1_type e, goods_attr1_value = attr1_value e,
      goods_attr2_type = attr2_type e, goods_attr2_value = attr2_value e,
      goods_extral1_type = extral1_type e, goods_extral1_value = extral1_value e,
      goods_extral2_type = extral2_type e, goods_extral2_value = extral2_value e\<rparr>"

text \<open>The test of the position holds for every position that is not negative.\<close>

definition SaleGoodsRequestService ::
  "int \<Rightarrow> int \<Rightarrow> int \<Rightarrow> login_worker \<Rightarrow> market \<Rightarrow> crash + login_worker \<times> market \<times> effect list" where
  "SaleGoodsRequestService now pos cost l m =
     (let u = player_UUID l; error = Inr (l, m, [Simple_answer SaleGoodsRequest_ID (-1)]) in
      if 0 \<le> pos \<or> backpack_num (my_attribute l) < 64 then
        bind_r (at (backpack_status l) pos) (\<lambda>used.
          if used then
            let e = my_backpack l ! nat pos;
                res = goods_of (player_nick (my_attribute l)) now (if cost \<le> 0 then 1 else cost) e;
                (m1, calls) = set_market res m in
            Inr (l\<lparr>backpack_status := (backpack_status l)[nat pos := False]\<rparr>, m1,
              [Redis u (del_equip (goods_sn res))] @ map (Redis u) calls @ [Simple_answer SaleGoodsRequest_ID 0])
          else error)
      else error)"

text \<open>The bought item: its first extra value is copied from the second.\<close>

definition bought :: "int \<Rightarrow> market_goods \<Rightarrow> equip" where
  "bought slot e =
     \<lparr>witch_pannle = 0, where_uuid = [], position = slot, equip_sn = goods_sn e, part = goods_part e,
      quality = goods_quality e, equip_level = goods_level e,
      attr1_type = goods_attr1_type e, attr1_value = goods_attr1_value e,
      attr2_type = goods_attr2_type e, attr2_value = goods_attr2_value e,
      extral1_type = goods_extral1_type e, extral1_value = goods_extral2_value e,
      extral2_type = goods_extral2_type e, extral2_value = goods_extral2_value e, diamond_cost = 10\<rparr>"

text \<open>
  \<open>seller_of\<close> is what \<open>find_user_uuid\<close> finds for the seller's name, \<open>dead\<close> what is read through
  the reference to the goods once it is past the end of the vector, \<open>blank\<close> the item that a
  new letter is made with.
\<close>

definition buy :: "int \<Rightarrow> string \<Rightarrow> (string \<Rightarrow> u32) \<Rightarrow> int \<Rightarrow> equip \<Rightarrow> nat \<Rightarrow> int \<Rightarrow> login_worker \<Rightarrow> market \<Rightarrow>
     login_worker \<times> market \<times> effect list" where
  "buy now new_uuid seller_of dead blank i slot l m =
     (let u = player_UUID l; a = my_attribute l; e = gloabal_market m ! i;
          a1 = a\<lparr>diamond := to_int32 (diamond a - goods_cost e)\<rparr>;
          res = bought slot e;
          (m1, calls) = del_market (goods_sn e) m;
          price = (if i < length (gloabal_market m1) then goods_cost (gloabal_market m1 ! i) else dead);
          eres = stored_email \<lparr>email_uuid = new_uuid, email_diamond = price, email_time = now,
                   other_name = player_nick a, email_equip = blank\<rparr>;
          seller = seller_of (goods_player e) in
      (l\<lparr>my_attribute := a1, backpack_status := (backpack_status l)[nat slot := True],
         my_backpack := (my_backpack l)[nat slot := res]\<rparr>, m1,
       [update_diamond (diamond a1) u] @ map (Redis u) calls @
         [Redis u (set_equip (stored_equip res)), Answer (EquipResponse (stored_equip res)),
          Simple_answer BuyMarketGoodsRequest_ID 0, asset_answer a1,
          Redis seller (set_email_sale eres), Give_email seller eres]))"

definition BuyMarketGoodsRequestService ::
  "int \<Rightarrow> string \<Rightarrow> (string \<Rightarrow> u32) \<Rightarrow> int \<Rightarrow> equip \<Rightarrow> string \<Rightarrow> login_worker \<Rightarrow> market \<Rightarrow>
     login_worker \<times> market \<times> effect list" where
  "BuyMarketGoodsRequestService now new_uuid seller_of dead blank sn l m =
     (let error = (\<lambda>r. (l, m, [Simple_answer BuyMarketGoodsRequest_ID r])) in
      case market_index m sn of
        None \<Rightarrow> error (-1)
      | Some i \<Rightarrow>
          if \<not> (0 \<le> i \<and> i < int (length (gloabal_market m))) then error (-1)
          else let slot = GetBackpack l in
            if slot = -1 then error (-6)
            else if diamond (my_attribute l) < goods_cost (gloabal_market m ! nat i) then error (-7)
            else buy now new_uuid seller_of dead blank (nat i) slot l m)"

definition LookMarketGoodsRequestService :: "int \<Rightarrow> market \<Rightarrow> effect list" where
  "LookMarketGoodsRequestService page m =
     (let all_page = int (length (gloabal_market m)) div 5 + 1 in
      if page < 1 \<or> all_page < page then [Simple_answer BuyMarketGoodsRequest_ID (-1)]
      else [Answer (MarketListResponse all_page (take 5 (drop (nat (page - 1) * 5) (gloabal_market m))))])"

subsection \<open>Boxes and letters\<close>

definition OpenBoxRequestService :: "(nat \<Rightarrow> int) \<Rightarrow> string \<Rightarrow> login_worker \<Rightarrow> login_worker \<times> effect list" where
  "OpenBoxRequestService r new_sn l =
     (let u = player_UUID l; slot = GetBackpack l in
      if slot = -1 then (l, [Simple_answer OpenBoxRequest_ID (-6)])
      else let res = \<lparr>witch_pannle = 0, where_uuid = ''NoEquipUUID'', position = slot, equip_sn = new_sn, part = r 0 mod 4 + 1,
              quality = r 1 mod 3 + 1, equip_level = 10, attr1_type = r 2 mod 7 + 1, attr1_value = 10,
              attr2_type = r 3 mod 7 + 1, attr2_value = 10, extral1_type = r 4 mod 7 + 1, extral1_value = 10,
              extral2_type = r 5 mod 7 + 1, extral2_value = 10, diamond_cost = 10\<rparr> in
        (l\<lparr>backpack_status := (backpack_status l)[nat slot := True], my_backpack := (my_backpack l)[nat slot := res]\<rparr>,
         [Redis u (set_equip res), Answer (EquipResponse res)]))"

text \<open>A letter is deleted whether or not its item found a place.\<close>

definition GetEmailGoodsRequestService :: "string \<Rightarrow> login_worker \<Rightarrow> login_worker \<times> effect list" where
  "GetEmailGoodsRequestService uuid l =
     (let u = player_UUID l in
      case email_sale_list l uuid of
        None \<Rightarrow> (l, [Simple_answer GetEmailGoodsRequest_ID (-1)])
      | Some letter \<Rightarrow>
          let l1 = l\<lparr>email_sale_list := (email_sale_list l)(uuid := None)\<rparr>;
              last = [Redis u (del_email_sale letter), Simple_answer GetEmailGoodsRequest_ID 0] in
          if email_diamond letter \<le> 0 then
            let slot = GetBackpack l in
            if slot = -1 then (l1, last)
            else let e = stored_equip ((email_equip letter)\<lparr>witch_pannle := 0, position := slot\<rparr>) in
              (l1\<lparr>backpack_status := (backpack_status l)[nat slot := True], my_backpack := (my_backpack l)[nat slot := e]\<rparr>,
               [Redis u (set_equip e), Redis u (del_email_sale letter)] @ last)
          else
            let a = (my_attribute l)\<lparr>diamond := to_int32 (diamond (my_attribute l) + email_diamond letter)\<rparr> in
            (l1\<lparr>my_attribute := a\<rparr>, update_diamond (diamond a) u # last))"

subsection \<open>Items are conserved\<close>

text \<open>The numbers of the items in the entries of an array that are in use.\<close>

definition present :: "(nat \<Rightarrow> bool) \<Rightarrow> (nat \<Rightarrow> equip) \<Rightarrow> nat \<Rightarrow> string multiset" where
  "present used e n = (\<Sum>i<n. if used i then {#equip_sn (e i)#} else {#})"

lemma present_change:
  assumes "i < n" and "\<And>j. j < n \<Longrightarrow> j \<noteq> i \<Longrightarrow> used' j = used j \<and> e' j = e j"
  shows "present used' e' n + (if used i then {#equip_sn (e i)#} else {#}) =
    present used e n + (if used' i then {#equip_sn (e' i)#} else {#})"
proof -
  have *: "present u f n = (if u i then {#equip_sn (f i)#} else {#}) +
      (\<Sum>j\<in>{..<n} - {i}. if u j then {#equip_sn (f j)#} else {#})" for u f
    unfolding present_def using assms(1) by (simp add: sum.remove [of "{..<n}" i])
  have "(\<Sum>j\<in>{..<n} - {i}. if used' j then {#equip_sn (e' j)#} else {#}) =
      (\<Sum>j\<in>{..<n} - {i}. if used j then {#equip_sn (e j)#} else {#})"
    by (rule sum.cong) (use assms(2) in auto)
  then show ?thesis by (simp only: * [of used'] * [of used] add.commute add.left_commute)
qed

definition backpack_items :: "login_worker \<Rightarrow> string multiset" where
  "backpack_items l = present (\<lambda>i. backpack_status l ! i) (\<lambda>i. my_backpack l ! i) 64"

definition worn_items :: "equip list \<Rightarrow> string multiset" where
  "worn_items es = present (\<lambda>i. witch_pannle (es ! i) = 1) (\<lambda>i. es ! i) (length es)"

definition hero_uuids :: "login_worker \<Rightarrow> string set" where
  "hero_uuids l = {hero_uuid h | h. Some h \<in> set (my_hero l)}"

definition carried :: "login_worker \<Rightarrow> string multiset" where
  "carried l = backpack_items l + (\<Sum>u\<in>hero_uuids l. worn_items (items_of l u))"

definition offered :: "market \<Rightarrow> string multiset" where
  "offered m = mset (map goods_sn (gloabal_market m))"

lemma finite_hero_uuids [simp]: "finite (hero_uuids l)"
proof -
  have "hero_uuids l \<subseteq> (\<lambda>h. case h of None \<Rightarrow> [] | Some h \<Rightarrow> hero_uuid h) ` set (my_hero l)"
    by (force simp: hero_uuids_def)
  then show ?thesis by (rule finite_subset) simp
qed

lemma HeroRecaculate_uuid [simp]: "hero_uuid (HeroRecaculate g es h) = hero_uuid h"
  by (simp add: HeroRecaculate_def Let_def)

lemma hero_uuids_put:
  assumes "i < length (my_hero l)" and "my_hero l ! i = Some h" and "hero_uuid h' = hero_uuid h"
    and "my_hero l' = (my_hero l)[i := Some h']"
  shows "hero_uuids l' = hero_uuids l"
proof -
  have "map (map_option hero_uuid) (my_hero l') = map (map_option hero_uuid) (my_hero l)"
    using assms by (metis list_update_id map_update option.map(2))
  moreover have "u \<in> hero_uuids x \<longleftrightarrow> Some u \<in> set (map (map_option hero_uuid) (my_hero x))" for u x
  proof
    show "Some u \<in> set (map (map_option hero_uuid) (my_hero x))" if "u \<in> hero_uuids x"
      using that unfolding hero_uuids_def by (auto intro!: rev_image_eqI)
    show "u \<in> hero_uuids x" if "Some u \<in> set (map (map_option hero_uuid) (my_hero x))"
    proof -
      from that obtain ho where "ho \<in> set (my_hero x)" "Some u = map_option hero_uuid ho" by auto
      then show ?thesis unfolding hero_uuids_def by - (cases ho, auto)
    qed
  qed
  ultimately have "u \<in> hero_uuids l' \<longleftrightarrow> u \<in> hero_uuids l" for u by (simp only:)
  then show ?thesis by blast
qed

text \<open>When the items of one hero change, so do the items that are carried.\<close>

lemma carried_change:
  assumes "hero_uuids l' = hero_uuids l" and "u \<in> hero_uuids l" and "hero_equip l' = (hero_equip l)(u \<mapsto> es)"
    and "backpack_items l' + worn_items es = backpack_items l + worn_items (items_of l u)"
  shows "carried l' = carried l"
proof -
  have "(\<Sum>v\<in>hero_uuids l - {u}. worn_items (items_of l' v)) = (\<Sum>v\<in>hero_uuids l - {u}. worn_items (items_of l v))"
    by (rule sum.cong) (simp_all add: items_of_def assms(3))
  moreover have "items_of l' u = es" by (simp add: items_of_def assms(3))
  ultimately show ?thesis
    using assms(2,4) unfolding carried_def assms(1)
    by (simp add: sum.remove [of "hero_uuids l" u] ac_simps)
qed

lemma carried_backpack:
  "my_hero l' = my_hero l \<Longrightarrow> hero_equip l' = hero_equip l \<Longrightarrow> backpack_items l' = backpack_items l + x \<Longrightarrow>
     carried l' = carried l + x"
  by (simp add: carried_def hero_uuids_def items_of_def)

lemma backpack_put:
  assumes "length (backpack_status l) = 64" and "length (my_backpack l) = 64" and "i < 64" and "\<not> backpack_status l ! i"
    and "backpack_status l' = (backpack_status l)[i := True]" and "my_backpack l' = (my_backpack l)[i := e]"
  shows "backpack_items l' = backpack_items l + {#equip_sn e#}"
  using present_change [of i 64 "\<lambda>i. backpack_status l' ! i" "\<lambda>i. backpack_status l ! i"
      "\<lambda>i. my_backpack l' ! i" "\<lambda>i. my_backpack l ! i"] assms
  by (simp add: backpack_items_def)

lemma backpack_take:
  assumes "length (backpack_status l) = 64" and "i < 64" and "backpack_status l ! i"
    and "backpack_status l' = (backpack_status l)[i := False]" and "my_backpack l' = (my_backpack l)[i := e]"
  shows "backpack_items l' + {#equip_sn (my_backpack l ! i)#} = backpack_items l"
  using present_change [of i 64 "\<lambda>i. backpack_status l' ! i" "\<lambda>i. backpack_status l ! i"
      "\<lambda>i. my_backpack l' ! i" "\<lambda>i. my_backpack l ! i"] assms
  by (simp add: backpack_items_def)

lemma backpack_swap:
  assumes "length (my_backpack l) = 64" and "i < 64" and "backpack_status l ! i"
    and "backpack_status l' = backpack_status l" and "my_backpack l' = (my_backpack l)[i := e]"
  shows "backpack_items l' + {#equip_sn (my_backpack l ! i)#} = backpack_items l + {#equip_sn e#}"
  using present_change [of i 64 "\<lambda>i. backpack_status l' ! i" "\<lambda>i. backpack_status l ! i"
      "\<lambda>i. my_backpack l' ! i" "\<lambda>i. my_backpack l ! i"] assms
  by (simp add: backpack_items_def)

lemma exchange:
  assumes "a' + {#x#} = a + {#y#}" and "b' + {#y#} = b + {#x#}"
  shows "a' + b' = a + (b :: 'a multiset)"
proof -
  have "(a' + {#x#}) + (b' + {#y#}) = (a + {#y#}) + (b + {#x#})" using assms by simp
  then have "(a' + b') + ({#x#} + {#y#}) = (a + b) + ({#x#} + {#y#})" by (simp add: ac_simps)
  then show ?thesis by (rule add_right_imp_eq)
qed

lemma transfer: "b' + {#x#} = b \<Longrightarrow> w' = w + {#x#} \<Longrightarrow> b' + w' = b + (w :: 'a multiset)"
  by auto

lemma transfer_back: "b' = b + {#x#} \<Longrightarrow> w' + {#x#} = w \<Longrightarrow> b' + w' = b + (w :: 'a multiset)"
  by auto

lemma worn_put:
  assumes "i < length es"
  shows "worn_items (es[i := e]) + (if witch_pannle (es ! i) = 1 then {#equip_sn (es ! i)#} else {#}) =
    worn_items es + (if witch_pannle e = 1 then {#equip_sn e#} else {#})"
  using present_change [of i "length es" "\<lambda>j. witch_pannle (es[i := e] ! j) = 1" "\<lambda>j. witch_pannle (es ! j) = 1"
      "\<lambda>j. es[i := e] ! j" "\<lambda>j. es ! j"] assms
  by (simp add: worn_items_def)

lemma stored_equip_fields [simp]: "equip_sn (stored_equip e) = equip_sn e" "witch_pannle (stored_equip e) = witch_pannle e"
  by (simp_all add: stored_equip_def)

definition slots_ok :: "login_worker \<Rightarrow> bool" where
  "slots_ok l \<longleftrightarrow> length (backpack_status l) = 64 \<and> length (my_backpack l) = 64 \<and> length (my_hero l) = 6"

lemma hero_of:
  assumes "slots_ok l" and "1 \<le> n" and "n \<le> 5" and "my_hero l ! nat (n - 1) = Some h"
  shows "hero_uuid h \<in> hero_uuids l"
proof -
  have "nat (n - 1) < length (my_hero l)" using assms(1-3) by (simp add: slots_ok_def)
  from nth_mem [OF this] assms(4) show ?thesis by (auto simp: hero_uuids_def)
qed

lemma dress_step:
  assumes "slots_ok l" and "1 \<le> n" and "n \<le> 5" and "my_hero l ! nat (n - 1) = Some h" and "nat bp < 64" and "backpack_status l ! nat bp"
    and "nat p < length (items_of l (hero_uuid h))" and "dress g (n - 1) h (items_of l (hero_uuid h)) p bp l = (l', out)"
  shows "carried l' = carried l \<and> slots_ok l'"
proof -
  have len: "length (backpack_status l) = 64" "length (my_backpack l) = 64" "length (my_hero l) = 6"
    using assms(1) by (simp_all add: slots_ok_def)
  have u: "hero_uuid h \<in> hero_uuids l" by (rule hero_of [OF assms(1-4)])
  define es where "es = items_of l (hero_uuid h)"
  define e where "e = my_backpack l ! nat bp"
  define e1 where "e1 = stored_equip (e\<lparr>witch_pannle := 1, where_uuid := hero_uuid h, position := p\<rparr>)"
  define h1 where "h1 = HeroRecaculate g (es[nat p := e1]) h"
  define temp where "temp = stored_equip ((es ! nat p)\<lparr>witch_pannle := 0, position := bp\<rparr>)"
  have f: "hero_equip l' = (hero_equip l)(hero_uuid h \<mapsto> es[nat p := e1])"
    "my_hero l' = (my_hero l)[nat (n - 1) := Some h1]"
    "my_backpack l' = (my_backpack l)[nat bp := if witch_pannle (es ! nat p) = 1 then temp else e1]"
    "backpack_status l' = (if witch_pannle (es ! nat p) = 1 then backpack_status l else (backpack_status l)[nat bp := False])"
    using assms(8) by (auto simp: dress_def Let_def put_hero_def es_def e_def e1_def h1_def temp_def split: if_splits)
  have uu: "hero_uuids l' = hero_uuids l"
    by (rule hero_uuids_put [OF _ assms(4) _ f(2)]) (use assms(2,3) len in \<open>simp_all add: h1_def\<close>)
  have e1: "equip_sn e1 = equip_sn e" "witch_pannle e1 = 1" and temp: "equip_sn temp = equip_sn (es ! nat p)"
    by (simp_all add: e1_def temp_def)
  note pn = assms(7) [folded es_def]
  have "backpack_items l' + worn_items (es[nat p := e1]) = backpack_items l + worn_items es"
  proof (cases "witch_pannle (es ! nat p) = 1")
    case True
    with f have "my_backpack l' = (my_backpack l)[nat bp := temp]" "backpack_status l' = backpack_status l" by simp_all
    from backpack_swap [OF len(2) assms(5,6) this(2,1)]
    have "backpack_items l' + {#equip_sn e#} = backpack_items l + {#equip_sn (es ! nat p)#}"
      by (simp only: e_def temp)
    moreover from worn_put [OF pn, of e1]
    have "worn_items (es[nat p := e1]) + {#equip_sn (es ! nat p)#} = worn_items es + {#equip_sn e#}"
      by (simp only: True e1 if_True simp_thms)
    ultimately show ?thesis by (rule exchange)
  next
    case False
    with f have "my_backpack l' = (my_backpack l)[nat bp := e1]" "backpack_status l' = (backpack_status l)[nat bp := False]"
      by simp_all
    from backpack_take [OF len(1) assms(5,6) this(2,1)] worn_put [OF pn, of e1] False e1
    show ?thesis by (intro transfer [of _ "equip_sn e"]) (simp_all add: e_def)
  qed
  with carried_change [OF uu u f(1)] have "carried l' = carried l" by (simp add: es_def)
  moreover have "slots_ok l'" using f len by (simp add: slots_ok_def)
  ultimately show ?thesis by blast
qed

lemma unload_step:
  assumes "slots_ok l" and "1 \<le> n" and "n \<le> 5" and "my_hero l ! nat (n - 1) = Some h" and "GetBackpack l = slot" and "slot \<noteq> -1"
    and "nat p < length (items_of l (hero_uuid h))" and "witch_pannle (items_of l (hero_uuid h) ! nat p) = 1"
    and "unload g (n - 1) h (items_of l (hero_uuid h)) p slot l = (l', out)"
  shows "carried l' = carried l \<and> slots_ok l'"
proof -
  have len: "length (backpack_status l) = 64" "length (my_backpack l) = 64" "length (my_hero l) = 6"
    using assms(1) by (simp_all add: slots_ok_def)
  have u: "hero_uuid h \<in> hero_uuids l" by (rule hero_of [OF assms(1-4)])
  define es where "es = items_of l (hero_uuid h)"
  define e where "e = es ! nat p"
  define e1 where "e1 = e\<lparr>witch_pannle := -1\<rparr>"
  define h1 where "h1 = HeroRecaculate g (es[nat p := e1]) h"
  define temp where "temp = stored_equip (e\<lparr>witch_pannle := 0, position := slot\<rparr>)"
  have f: "l' = put_hero (n - 1) h1 (l\<lparr>backpack_status := (backpack_status l)[nat slot := True],
       my_backpack := (my_backpack l)[nat slot := temp], hero_equip := (hero_equip l)(hero_uuid h \<mapsto> es[nat p := e1])\<rparr>)"
    using assms(9) by (simp add: unload_def Let_def es_def e_def e1_def h1_def temp_def)
  have free: "nat slot < 64" "\<not> backpack_status l ! nat slot"
    using GetBackpack_free [OF assms(5,6) len(1)] by auto
  note pn = assms(7) [folded es_def]
  have uu: "hero_uuids l' = hero_uuids l"
    by (rule hero_uuids_put [of "nat (n - 1)" l h h1]) (use assms(2-4) len in \<open>simp_all add: h1_def f put_hero_def\<close>)
  have "backpack_items l' = backpack_items l + {#equip_sn temp#}"
    by (rule backpack_put [OF len(1,2) free]) (simp_all add: f put_hero_def)
  moreover have "worn_items (es[nat p := e1]) + {#equip_sn e#} = worn_items es"
    using worn_put [OF pn, of e1] assms(8) by (simp add: e_def e1_def es_def)
  ultimately have "backpack_items l' + worn_items (es[nat p := e1]) = backpack_items l + worn_items es"
    by (intro transfer_back [of _ _ "equip_sn e"]) (simp_all add: temp_def)
  then have "carried l' = carried l"
    by (intro carried_change [OF uu u, of "es[nat p := e1]"]) (simp_all add: f put_hero_def es_def)
  moreover have "slots_ok l'" using len by (simp add: slots_ok_def f put_hero_def)
  ultimately show ?thesis by blast
qed

lemma dress_conserves:
  assumes "DressEquipRequestService g n bp hp l = Inr (l', out)" and "slots_ok l"
  shows "carried l' = carried l \<and> slots_ok l'"
proof (cases "bp < 0 \<or> backpack_num (my_attribute l) \<le> bp \<or> n < 1 \<or> 5 < n \<or> length (backpack_status l) \<le> nat bp \<or>
      my_hero l ! nat (n - 1) = None \<or> \<not> backpack_status l ! nat bp")
  case True
  with assms have "l' = l" by (auto simp: DressEquipRequestService_def Let_def split: if_split_asm option.splits)
  with assms(2) show ?thesis by simp
next
  case False
  then obtain h where h: "my_hero l ! nat (n - 1) = Some h" by auto
  define es where "es = items_of l (hero_uuid h)"
  define p where "p = (if hp = -1 then find_hero_equip_sn es else hp)"
  have eq: "(if cur_goods_space h \<le> hp then Inr (l, [Simple_answer DressEquipRequest_ID (-3)])
            else if p = -1 then Inr (l\<lparr>hero_equip := (hero_equip l)(hero_uuid h \<mapsto> es)\<rparr>, [Simple_answer DressEquipRequest_ID (-4)])
              else if p < 0 \<or> int (length es) \<le> p then Inl OutOfRange
              else Inr (dress g (n - 1) h es p bp l)) = Inr (l', out)"
    unfolding es_def p_def
    using assms(1) [unfolded DressEquipRequestService_def Let_def] False h by (simp split del: if_split)
  have h1: "hero_uuid h \<in> hero_uuids l" using False by (intro hero_of [OF assms(2) _ _ h]) simp_all
  consider "l' = l" | "l' = l\<lparr>hero_equip := (hero_equip l)(hero_uuid h \<mapsto> es)\<rparr>"
    | "0 \<le> p" "p < int (length es)" "dress g (n - 1) h es p bp l = (l', out)"
    using eq by (auto split: if_split_asm)
  then show ?thesis
  proof cases
    case 2
    then have "carried l' = carried l"
      by (intro carried_change [OF _ h1, of _ es]) (simp_all add: hero_uuids_def backpack_items_def es_def)
    with 2 assms(2) show ?thesis by (simp add: slots_ok_def)
  next
    case 3
    with False assms(2) show ?thesis
      by (intro dress_step [OF assms(2) _ _ h]) (simp_all add: es_def slots_ok_def)
  qed (use assms(2) in simp)
qed

lemma unload_conserves:
  assumes "UnloadEquipRequestService g n p l = Inr (l', out)" and "slots_ok l"
  shows "carried l' = carried l \<and> slots_ok l'"
proof (cases "n < 1 \<or> 5 < n \<or> p < 0 \<or> 5 < p \<or> my_hero l ! nat (n - 1) = None \<or> GetBackpack l = -1")
  case True
  with assms have "l' = l" by (auto simp: UnloadEquipRequestService_def Let_def split: if_split_asm option.splits)
  with assms(2) show ?thesis by simp
next
  case False
  then obtain h where h: "my_hero l ! nat (n - 1) = Some h" by auto
  define es where "es = items_of l (hero_uuid h)"
  consider "l' = l" | "nat p < length es" "witch_pannle (es ! nat p) = 1" "unload g (n - 1) h es p (GetBackpack l) l = (l', out)"
  proof (cases "hero_equip l (hero_uuid h) = None")
    case True
    then have "es = []" by (simp add: es_def items_of_def)
    with assms(1) False h True have False by (simp add: UnloadEquipRequestService_def Let_def es_def)
    then show ?thesis ..
  next
    case some: False
    with assms(1) False h that show ?thesis
      by (auto simp: UnloadEquipRequestService_def Let_def es_def split: if_split_asm)
  qed
  then show ?thesis
  proof cases
    case 2
    with False show ?thesis by (intro unload_step [OF assms(2) _ _ h]) (simp_all add: es_def)
  qed (use assms(2) in simp)
qed

lemma sale_conserves:
  assumes "SaleGoodsRequestService now pos cost l m = Inr (l', m', out)" and "slots_ok l"
  shows "carried l' + offered m' = carried l + offered m \<and> slots_ok l'"
proof (cases "l' = l \<and> m' = m")
  case True
  with assms(2) show ?thesis by simp
next
  case False
  have len: "length (backpack_status l) = 64" "length (my_backpack l) = 64" using assms(2) by (simp_all add: slots_ok_def)
  define res where "res = goods_of (player_nick (my_attribute l)) now (if cost \<le> 0 then 1 else cost) (my_backpack l ! nat pos)"
  from assms(1) False have p: "nat pos < 64" "backpack_status l ! nat pos"
    and l': "l' = l\<lparr>backpack_status := (backpack_status l)[nat pos := False]\<rparr>" and m': "m' = fst (set_market res m)"
    using len by (auto simp: SaleGoodsRequestService_def Let_def bind_r_eq_Inr res_def split: if_splits prod.splits)
  have "backpack_items l' + {#goods_sn res#} = backpack_items l"
    using backpack_take [OF len(1) p, of l' "my_backpack l ! nat pos"] by (simp add: l' res_def goods_of_def)
  then have "carried l = carried l' + {#goods_sn res#}"
    by (intro carried_backpack) (simp_all add: l')
  moreover have "offered m' = offered m + {#goods_sn res#}" by (simp add: m' set_market_def offered_def)
  ultimately show ?thesis using len assms(2) by (simp add: slots_ok_def l')
qed

lemma offered_del:
  assumes "market_ok m" and "market_index m sn = Some i"
  shows "offered m = offered (fst (del_market sn m)) + {#sn#}"
proof -
  note i = market_okD [OF assms]
  have "mset (gloabal_market m) = add_mset (gloabal_market m ! nat i) (mset (gloabal_market (fst (del_market sn m))))"
    unfolding fst_del_market(1) [OF assms] by (rule mset_swap_remove) (use i in auto)
  then have "image_mset goods_sn (mset (gloabal_market m)) =
      add_mset (goods_sn (gloabal_market m ! nat i)) (image_mset goods_sn (mset (gloabal_market (fst (del_market sn m)))))"
    by simp
  then show ?thesis using i by (simp add: offered_def)
qed

lemma buy_conserves:
  assumes "BuyMarketGoodsRequestService now new seller_of dead blank sn l m = (l', m', out)" and "slots_ok l" and "market_ok m"
  shows "carried l' + offered m' = carried l + offered m \<and> slots_ok l' \<and> market_ok m'"
proof (cases "market_index m sn")
  case None
  with assms show ?thesis by (simp add: BuyMarketGoodsRequestService_def)
next
  case (Some i)
  note v = market_okD [OF assms(3) Some]
  define slot where "slot = GetBackpack l"
  have len: "length (backpack_status l) = 64" "length (my_backpack l) = 64" using assms(2) by (simp_all add: slots_ok_def)
  consider "l' = l" "m' = m" | "slot \<noteq> -1" "buy now new seller_of dead blank (nat i) slot l m = (l', m', out)"
    using assms(1) Some v by (auto simp: BuyMarketGoodsRequestService_def Let_def slot_def split: if_split_asm)
  then show ?thesis
  proof cases
    case 2
    define e where "e = gloabal_market m ! nat i"
    have sn: "goods_sn e = sn" using v by (simp add: e_def)
    have m': "m' = fst (del_market sn m)" using 2(2) sn by (auto simp: buy_def Let_def e_def split: prod.splits)
    have f: "my_hero l' = my_hero l" "hero_equip l' = hero_equip l"
      "backpack_status l' = (backpack_status l)[nat slot := True]" "my_backpack l' = (my_backpack l)[nat slot := bought slot e]"
      using 2(2) by (auto simp: buy_def Let_def e_def split: prod.splits)
    have free: "nat slot < 64" "\<not> backpack_status l ! nat slot"
      using GetBackpack_free [of l slot] 2(1) len by (auto simp: slot_def)
    have "backpack_items l' = backpack_items l + {#equip_sn (bought slot e)#}"
      by (rule backpack_put [OF len free f(3,4)])
    then have "carried l' = carried l + {#sn#}"
      using carried_backpack [OF f(1,2)] by (simp add: bought_def sn)
    moreover have "offered m = offered m' + {#sn#}" unfolding m' by (rule offered_del [OF assms(3) Some])
    moreover have "market_ok m'" unfolding m' using market_ok_del [OF assms(3)] by blast
    ultimately show ?thesis using len assms(2) by (simp add: slots_ok_def f)
  qed (use assms in simp)
qed

text \<open>What a player does with his items; the arguments are those of the handlers.\<close>

datatype item_event =
    Dress int int int
  | Unload int int
  | Sale int int int
  | Buy int string string

definition item_step ::
  "game \<Rightarrow> (string \<Rightarrow> u32) \<Rightarrow> int \<Rightarrow> equip \<Rightarrow> item_event \<Rightarrow> login_worker \<times> market \<Rightarrow> crash + (login_worker \<times> market) \<times> effect list" where
  "item_step g seller_of dead blank e lm = (case lm of (l, m) \<Rightarrow> (case e of
     Dress n bp hp \<Rightarrow> bind_r (DressEquipRequestService g n bp hp l) (\<lambda>(l1, out). Inr ((l1, m), out))
   | Unload n p \<Rightarrow> bind_r (UnloadEquipRequestService g n p l) (\<lambda>(l1, out). Inr ((l1, m), out))
   | Sale now pos cost \<Rightarrow> bind_r (SaleGoodsRequestService now pos cost l m) (\<lambda>(l1, m1, out). Inr ((l1, m1), out))
   | Buy now new_uuid sn \<Rightarrow>
       (case BuyMarketGoodsRequestService now new_uuid seller_of dead blank sn l m of (l1, m1, out) \<Rightarrow> Inr ((l1, m1), out))))"

fun item_steps ::
  "game \<Rightarrow> (string \<Rightarrow> u32) \<Rightarrow> int \<Rightarrow> equip \<Rightarrow> item_event list \<Rightarrow> login_worker \<times> market \<Rightarrow> crash + (login_worker \<times> market) \<times> effect list" where
  "item_steps g seller_of dead blank [] lm = Inr (lm, [])"
| "item_steps g seller_of dead blank (e # es) lm = (case item_step g seller_of dead blank e lm of
     Inl c \<Rightarrow> Inl c
   | Inr (lm1, out1) \<Rightarrow> (case item_steps g seller_of dead blank es lm1 of Inl c \<Rightarrow> Inl c | Inr (lm2, out2) \<Rightarrow> Inr (lm2, out1 @ out2)))"

definition all_items :: "login_worker \<times> market \<Rightarrow> string multiset" where
  "all_items lm = carried (fst lm) + offered (snd lm)"

text \<open>The arrays have their sizes, the market's tables agree and no two items have the same number.\<close>

definition items_ok :: "login_worker \<times> market \<Rightarrow> bool" where
  "items_ok lm \<longleftrightarrow> slots_ok (fst lm) \<and> market_ok (snd lm) \<and> (\<forall>sn. count (all_items lm) sn \<le> 1)"

lemma sale_market_ok:
  assumes "SaleGoodsRequestService now pos cost l m = Inr (l', m', out)" and "items_ok (l, m)"
  shows "market_ok m'"
proof (cases "m' = m")
  case True
  with assms(2) show ?thesis by (simp add: items_ok_def)
next
  case False
  have ok: "slots_ok l" "market_ok m" using assms(2) by (simp_all add: items_ok_def)
  define res where "res = goods_of (player_nick (my_attribute l)) now (if cost \<le> 0 then 1 else cost) (my_backpack l ! nat pos)"
  from assms(1) False have p: "nat pos < 64" "backpack_status l ! nat pos" and m': "m' = fst (set_market res m)"
    using ok(1) by (auto simp: SaleGoodsRequestService_def Let_def bind_r_eq_Inr res_def slots_ok_def split: if_splits prod.splits)
  have "market_lookup m (goods_sn res) = None"
  proof (rule ccontr)
    assume "market_lookup m (goods_sn res) \<noteq> None"
    then obtain y where "y \<in> set (gloabal_market m)" "goods_sn y = goods_sn res"
      using market_lookup_ex [OF ok(2)] by auto
    then have "goods_sn res \<in># offered m" unfolding offered_def set_mset_mset set_map by (metis imageI)
    moreover have "goods_sn res \<in># backpack_items l"
      using p by (auto simp: backpack_items_def present_def set_mset_sum res_def goods_of_def split: if_splits intro!: bexI [of _ "nat pos"])
    ultimately have "count (all_items (l, m)) (goods_sn res) \<ge> 2"
      by (simp add: all_items_def carried_def count_greater_zero_iff [symmetric] del: count_greater_zero_iff)
    moreover have "count (all_items (l, m)) (goods_sn res) \<le> 1" using assms(2) unfolding items_ok_def by blast
    ultimately show False by simp
  qed
  then show ?thesis unfolding m' using goods.valid_add [OF ok(2)] by blast
qed

lemma item_step_conserves:
  assumes "item_step g seller_of dead blank e lm = Inr (lm', out)" and "items_ok lm"
  shows "all_items lm' = all_items lm \<and> items_ok lm'"
proof -
  obtain l m where lm: "lm = (l, m)" by fastforce
  obtain l' m' where lm': "lm' = (l', m')" by fastforce
  have ok: "slots_ok l" "market_ok m" using assms(2) by (simp_all add: items_ok_def lm)
  have "all_items lm' = all_items lm \<and> slots_ok l' \<and> market_ok m'"
  proof (cases e)
    case (Dress n bp hp)
    with assms(1) lm lm' have "DressEquipRequestService g n bp hp l = Inr (l', out)" "m' = m"
      by (auto simp: item_step_def bind_r_eq_Inr)
    with dress_conserves [OF this(1) ok(1)] ok(2) show ?thesis by (simp add: all_items_def lm lm')
  next
    case (Unload n p)
    with assms(1) lm lm' have "UnloadEquipRequestService g n p l = Inr (l', out)" "m' = m"
      by (auto simp: item_step_def bind_r_eq_Inr)
    with unload_conserves [OF this(1) ok(1)] ok(2) show ?thesis by (simp add: all_items_def lm lm')
  next
    case (Sale now pos cost)
    with assms(1) lm lm' have "SaleGoodsRequestService now pos cost l m = Inr (l', m', out)"
      by (auto simp: item_step_def bind_r_eq_Inr)
    with sale_conserves [OF this ok(1)] sale_market_ok [OF this assms(2) [unfolded lm]]
    show ?thesis by (simp add: all_items_def lm lm')
  next
    case (Buy now new sn)
    with assms(1) lm lm' have "BuyMarketGoodsRequestService now new seller_of dead blank sn l m = (l', m', out)"
      by (auto simp: item_step_def split: prod.splits)
    with buy_conserves [OF this ok] show ?thesis by (simp add: all_items_def lm lm')
  qed
  then show ?thesis using assms(2) by (simp add: items_ok_def lm')
qed

text \<open>
  C32. Items are conserved. Whatever a player puts on and takes off his heroes, sells and
  buys, in any order, every item stays in exactly one place: in a used slot of the backpack,
  on a hero or in the market, and the tables stay consistent.
\<close>

theorem items_are_conserved:
  assumes "item_steps g seller_of dead blank es lm = Inr (lm', out)" and "items_ok lm"
  shows "all_items lm' = all_items lm \<and> items_ok lm'"
  using assms
proof (induction es arbitrary: lm out)
  case Nil
  then show ?case by simp
next
  case (Cons e es)
  from Cons.prems(1) obtain lm1 out1 out2 where s: "item_step g seller_of dead blank e lm = Inr (lm1, out1)"
    and r: "item_steps g seller_of dead blank es lm1 = Inr (lm', out2)"
    by (auto split: sum.splits)
  from item_step_conserves [OF s Cons.prems(2)] Cons.IH [OF r] show ?case by simp
qed

subsection \<open>A sale and its money\<close>

text \<open>What the buyer of a sold item holds: its first extra value is gone.\<close>

definition after_sale :: "int \<Rightarrow> equip \<Rightarrow> equip" where
  "after_sale slot e = e\<lparr>witch_pannle := 0, where_uuid := [], position := slot, extral1_value := extral2_value e, diamond_cost := 10\<rparr>"

text \<open>
  A sold item comes back. What a player sells at a price that another can pay is
  in the other's first free slot after he buys it, in the market no longer, and the same
  item but for its first extra value, which is overwritten with the second.
\<close>

theorem sold_item_comes_back:
  assumes "market_ok m" and "market_lookup m (equip_sn e) = None" and "backpack_status l ! nat pos" and "0 \<le> pos" and "pos < 64"
    and "my_backpack l ! nat pos = e" and "length (backpack_status l) = 64"
    and "length (backpack_status b) = 64" and "length (my_backpack b) = 64" and "GetBackpack b = slot" and "slot \<noteq> -1"
    and "0 < cost" and "cost \<le> diamond (my_attribute b)"
  shows "\<exists>l1 m1 out1 b2 m2 out2. SaleGoodsRequestService t pos cost l m = Inr (l1, m1, out1) \<and>
    BuyMarketGoodsRequestService t' new seller_of dead blank (equip_sn e) b m1 = (b2, m2, out2) \<and>
    \<not> backpack_status l1 ! nat pos \<and> backpack_status b2 ! nat slot \<and> my_backpack b2 ! nat slot = after_sale slot e \<and>
    market_lookup m2 = market_lookup m"
proof -
  define res where "res = goods_of (player_nick (my_attribute l)) t cost e"
  define m1 where "m1 = fst (set_market res m)"
  define m2 where "m2 = fst (del_market (equip_sn e) m1)"
  have rsn: "goods_sn res = equip_sn e" by (simp add: res_def goods_of_def)
  have ok1: "market_ok m1" unfolding m1_def using goods.valid_add [OF assms(1), of res] assms(2) rsn by simp
  have g1: "gloabal_market m1 = gloabal_market m @ [res\<lparr>remain_time := 86400\<rparr>]"
    and i1: "market_index m1 (equip_sn e) = Some (int (length (gloabal_market m)))"
    by (simp_all add: m1_def set_market_def push_market_def rsn)
  have look: "market_lookup m2 = market_lookup m"
    unfolding m2_def m1_def using goods.remove_add [OF assms(1), of res] assms(2) by (simp add: rsn)
  have sale: "SaleGoodsRequestService t pos cost l m = Inr (l\<lparr>backpack_status := (backpack_status l)[nat pos := False]\<rparr>, m1,
      [Redis (player_UUID l) (del_equip (equip_sn e))] @ map (Redis (player_UUID l)) (snd (set_market res m)) @
      [Simple_answer SaleGoodsRequest_ID 0])"
    using assms(3-7,12) by (simp add: SaleGoodsRequestService_def Let_def at_def m1_def res_def goods_of_def set_market_def)
  have free: "0 \<le> slot" "slot < 64" using GetBackpack_free [OF assms(10,11,8)] by auto
  obtain b2 m2' out2 where buy: "buy t' new seller_of dead blank (length (gloabal_market m)) slot b m1 = (b2, m2', out2)"
    by (metis prod_cases3)
  have price: "goods_cost (gloabal_market m1 ! length (gloabal_market m)) = cost" by (simp add: g1 res_def goods_of_def)
  have m2': "m2' = m2" and b2: "backpack_status b2 = (backpack_status b)[nat slot := True]"
      "my_backpack b2 = (my_backpack b)[nat slot := bought slot (res\<lparr>remain_time := 86400\<rparr>)]"
    using buy by (auto simp: buy_def Let_def g1 m2_def rsn split: prod.splits)
  have bought: "bought slot (res\<lparr>remain_time := 86400\<rparr>) = after_sale slot e"
    by (simp add: bought_def res_def goods_of_def after_sale_def)
  have "BuyMarketGoodsRequestService t' new seller_of dead blank (equip_sn e) b m1 = (b2, m2, out2)"
    using i1 g1 assms(10,11,13) price buy m2' by (simp add: BuyMarketGoodsRequestService_def Let_def)
  with sale look b2 bought free assms(4,5,7-9) show ?thesis
    by (intro exI conjI) (assumption, assumption, simp_all)
qed

text \<open>
  The seller is paid another price. When the bought goods are not the last of the
  market, the letter that brings the seller his money carries the price of the last: the
  reference to the goods is read after they were replaced.
\<close>

theorem seller_is_paid_another_price:
  assumes "market_ok m" and "market_index m sn = Some i" and "i < int (length (gloabal_market m)) - 1"
    and "GetBackpack b \<noteq> -1" and "goods_cost (gloabal_market m ! nat i) \<le> diamond (my_attribute b)"
  shows "\<exists>b' m' out letter. BuyMarketGoodsRequestService t new seller_of dead blank sn b m = (b', m', out) \<and>
    last out = Give_email (seller_of (goods_player (gloabal_market m ! nat i))) letter \<and>
    email_diamond letter = goods_cost (last (gloabal_market m)) \<and>
    diamond (my_attribute b') = to_int32 (diamond (my_attribute b) - goods_cost (gloabal_market m ! nat i))"
proof -
  note v = market_okD [OF assms(1,2)]
  define e where "e = gloabal_market m ! nat i"
  define m1 where "m1 = fst (del_market sn m)"
  have i: "nat i < length (gloabal_market m) - 1" using v assms(3) by auto
  have "gloabal_market m1 = swap_remove (nat i) (gloabal_market m)"
    unfolding m1_def by (rule fst_del_market(1) [OF assms(1,2)])
  then have last: "nat i < length (gloabal_market m1)" "gloabal_market m1 ! nat i = last (gloabal_market m)"
    using i by (simp_all add: nth_swap_remove)
  have "BuyMarketGoodsRequestService t new seller_of dead blank sn b m = buy t new seller_of dead blank (nat i) (GetBackpack b) b m"
    using assms v by (simp add: BuyMarketGoodsRequestService_def Let_def)
  moreover obtain calls where "del_market sn m = (m1, calls)" unfolding m1_def by (metis fst_conv surj_pair)
  ultimately show ?thesis using last v by (simp add: buy_def Let_def stored_email_def)
qed

subsection \<open>Examples\<close>

definition ring :: equip where
  "ring = \<lparr>witch_pannle = 0, where_uuid = ''x'', position = 0, equip_sn = ''ring'', part = 1, quality = 2, equip_level = 10,
     attr1_type = 4, attr1_value = 10, attr2_type = 6, attr2_value = 12, extral1_type = 1, extral1_value = 3,
     extral2_type = 2, extral2_value = 8, diamond_cost = 10\<rparr>"

definition no_item :: equip where
  "no_item = ring\<lparr>witch_pannle := -1, equip_sn := []\<rparr>"

definition trader :: "string \<Rightarrow> u32 \<Rightarrow> login_worker" where
  "trader name u = \<lparr>player_UUID = u, login_status = True,
     my_attribute = \<lparr>player_index = 0, diamond = 20, wood = 0, stone = 0, iron = 0, soil = 0, player_nick = name,
       city_hall_uuid = [], my_build = Map.empty, backpack_num = 12, recuite_type = 0,
       chance_num = 0, build_num = Map.empty, combat_uuid = [], player_race = 0, player_record = 0, player_level = 0, worldmap_x = 0, worldmap_y = 0, groupId = -1, group_position = -1\<rparr>,
     building_timer = Map.empty, building = [],
     backpack_status = True # replicate 63 False, my_backpack = ring # replicate 63 no_item,
     my_hero = replicate 6 None, rand_hero = replicate 3 None, hero_equip = Map.empty, email_sale_list = Map.empty\<rparr>"

lemma trader_fields [simp]:
  "backpack_status (trader name u) = True # replicate 63 False" "my_backpack (trader name u) = ring # replicate 63 no_item"
  "diamond (my_attribute (trader name u)) = 20" "my_hero (trader name u) = replicate 6 None"
  by (simp_all add: trader_def)

lemma trader_slot: "GetBackpack (trader name u) = 1"
  by (simp add: GetBackpack_def first_free_def trader_def Let_def)

lemma trader_ok: "items_ok (trader name u, empty_market)"
proof -
  have "present (\<lambda>i. (True # replicate 63 False) ! i) (\<lambda>i. (ring # replicate 63 no_item) ! i) 64 = {#equip_sn ring#}"
  proof -
    have "(\<Sum>i\<in>{..<64} - {0}. if (True # replicate 63 False) ! i then {#equip_sn ((ring # replicate 63 no_item) ! i)#} else {#}) = {#}"
      by (rule sum.neutral) (auto simp: nth_Cons')
    moreover have "present s e 64 = (if s 0 then {#equip_sn (e 0)#} else {#}) +
        (\<Sum>i\<in>{..<64} - {0}. if s i then {#equip_sn (e i)#} else {#})" for s e
      unfolding present_def by (rule sum.remove) simp_all
    ultimately show ?thesis by (simp only: nth_Cons_0 if_True empty_neutral)
  qed
  moreover have "hero_uuids (trader name u) = {}" by (simp add: hero_uuids_def)
  ultimately have "all_items (trader name u, empty_market) = {#equip_sn ring#}"
    by (simp add: all_items_def carried_def backpack_items_def offered_def empty_market_def)
  then show ?thesis by (simp add: items_ok_def slots_ok_def market_ok_empty)
qed

theorem items_are_conserved_witness:
  "\<exists>g lm' out. item_steps g (\<lambda>_. 7) 0 ring [Sale 100 0 5, Buy 200 ''letter'' ''ring''] (trader ''eve'' 7, empty_market) = Inr (lm', out) \<and>
    all_items lm' = all_items (trader ''eve'' 7, empty_market) \<and> items_ok lm'"
proof -
  fix g :: game
  have "\<exists>lm' out. item_steps g (\<lambda>_. 7) 0 ring [Sale 100 0 5, Buy 200 ''letter'' ''ring''] (trader ''eve'' 7, empty_market) = Inr (lm', out)"
    by (simp add: item_step_def SaleGoodsRequestService_def Let_def at_def set_market_def bind_r_def split: prod.split)
  then obtain lm' out where "item_steps g (\<lambda>_. 7) 0 ring [Sale 100 0 5, Buy 200 ''letter'' ''ring''] (trader ''eve'' 7, empty_market) = Inr (lm', out)"
    by blast
  from items_are_conserved [OF this trader_ok] this show ?thesis by blast
qed

theorem sold_item_comes_back_witness:
  "\<exists>l1 m1 out1 b2 m2 out2. SaleGoodsRequestService 100 0 5 (trader ''eve'' 7) empty_market = Inr (l1, m1, out1) \<and>
    BuyMarketGoodsRequestService 200 ''letter'' (\<lambda>_. 7) 0 ring ''ring'' (trader ''bob'' 8) m1 = (b2, m2, out2) \<and>
    my_backpack b2 ! 1 = after_sale 1 ring \<and> extral1_value ring \<noteq> extral1_value (after_sale 1 ring)"
proof -
  have "market_lookup empty_market ''ring'' = None" by (simp add: market_lookup_def empty_market_def)
  then have "\<exists>l1 m1 out1 b2 m2 out2. SaleGoodsRequestService 100 0 5 (trader ''eve'' 7) empty_market = Inr (l1, m1, out1) \<and>
    BuyMarketGoodsRequestService 200 ''letter'' (\<lambda>_. 7) 0 ring (equip_sn ring) (trader ''bob'' 8) m1 = (b2, m2, out2) \<and>
    \<not> backpack_status l1 ! nat 0 \<and> backpack_status b2 ! nat 1 \<and> my_backpack b2 ! nat 1 = after_sale 1 ring \<and>
    market_lookup m2 = market_lookup empty_market"
    by (intro sold_item_comes_back market_ok_empty trader_slot) (simp_all add: ring_def)
  moreover have "equip_sn ring = ''ring''" "extral1_value ring \<noteq> extral1_value (after_sale 1 ring)"
    by (simp_all add: ring_def after_sale_def)
  ultimately show ?thesis by (auto simp del: trader_fields)
qed

definition two_offers :: "(string + market_goods) list" where
  "two_offers = [Inr (some_goods ''a'' 5), Inr (some_goods ''b'' 9)]"

theorem seller_is_paid_another_price_witness:
  "\<exists>b' m' out letter. BuyMarketGoodsRequestService 200 ''letter'' (\<lambda>_. 7) 0 ring ''a'' (trader ''eve'' 8)
      (market_run two_offers empty_market) = (b', m', out) \<and>
    last out = Give_email 7 letter \<and> email_diamond letter = 9 \<and> diamond (my_attribute b') = 15"
proof -
  define m where "m = market_run two_offers empty_market"
  have offers: "goods.offers_free two_offers (market_lookup empty_market)"
    by (simp add: offers_free_eq [symmetric] two_offers_def some_goods_def market_lookup_def empty_market_def)
  have ok: "market_ok m"
    using goods.run_refines [OF market_ok_empty offers] by (simp add: m_def market_run_eq)
  have g: "gloabal_market m = [(some_goods ''a'' 5)\<lparr>remain_time := 86400\<rparr>, (some_goods ''b'' 9)\<lparr>remain_time := 86400\<rparr>]"
    and i: "market_index m ''a'' = Some 0"
    by (simp_all add: m_def two_offers_def some_goods_def empty_market_def set_market_def push_market_def)
  from seller_is_paid_another_price [OF ok i, of "trader ''eve'' 8" 200 "''letter''" "\<lambda>_. 7" 0 ring]
  show ?thesis by (simp add: g some_goods_def trader_slot wrap_signed_def m_def [symmetric])
qed

end
