(* ===== verification/Heroes.thy ===== *)
theory Heroes
  imports Backpack Random_Util
begin

section \<open>Heroes of a player\<close>

text \<open>
  Models the handlers of heroes in \<open>gateway_server/service/_login_worker_logicworker.cpp\<close>:
  how a hero is made from random numbers, recruiting and hiring, jobs, and dropping. The
  random numbers are those of \<open>RandomUtil\<close>, whose table and indices are threaded through.
\<close>

subsection \<open>The tables of heroes\<close>

record hero_update =
  update_diamond_cost :: int
  start1 :: int
  start2 :: int
  start3 :: int
  start4 :: int
  start5 :: int

record hero_stock =
  s_min :: int
  s_min_grow :: int
  s_max :: int
  s_max_grow :: int
  s_min_limit_max :: int
  s_min_limit_grow :: int
  s_max_limit_min :: int
  s_max_limit_grow :: int
  goods_space :: int
  max_space :: int
  stock_hp :: int
  stock_mp :: int
  stock_attack :: int
  stock_defence :: int

text \<open>
  The conversions between integers and floats are parameters: \<open>float_of\<close> of an unsigned
  number, \<open>float_int\<close> of an integer, \<open>hundredth\<close> of a number divided by 100, \<open>trunc x\<close> and
  \<open>fiftieth x\<close> the integer parts of \<open>x\<close> and of \<open>x * 0.02\<close>.
\<close>

record hero_rules =
  hero_update_config :: "hero_update list"
  hero_base_config :: "hero_stock list"
  float_of :: "u32 \<Rightarrow> float_bits"
  float_int :: "int \<Rightarrow> float_bits"
  hundredth :: "u32 \<Rightarrow> float_bits"
  trunc :: "float_bits \<Rightarrow> int"
  fiftieth :: "float_bits \<Rightarrow> int"

subsection \<open>Making a hero\<close>

fun pick_quality :: "u32 list \<Rightarrow> (int \<times> int) list \<Rightarrow> random_util \<Rightarrow> int \<times> random_util" where
  "pick_quality ws [] s = (1, s)"
| "pick_quality ws ((q, start) # rest) s =
     (if start = 0 then pick_quality ws rest s
      else let (r, s1) = GetARandom ws s in
        if r mod 1000 < word_of_int start then (q, s1) else pick_quality ws rest s1)"

definition random_quality :: "u32 list \<Rightarrow> hero_rules \<Rightarrow> int \<Rightarrow> random_util \<Rightarrow> crash + int \<times> random_util" where
  "random_quality ws g ty s =
     (let ty' = (if ty \<le> 0 \<or> int (length (hero_update_config g)) < ty then 1 else ty) in
      bind_r (at (hero_update_config g) (ty' - 1)) (\<lambda>c.
        Inr (pick_quality ws [(5, start5 c), (4, start4 c), (3, start3 c), (2, start2 c), (1, start1 c)] s)))"

text \<open>A number from \<open>lo\<close> to \<open>hi\<close>, exclusive, in unsigned arithmetic.\<close>

definition roll :: "u32 list \<Rightarrow> int \<Rightarrow> int \<Rightarrow> random_util \<Rightarrow> crash + u32 \<times> random_util" where
  "roll ws lo hi s =
     (let m = (word_of_int (hi - lo) :: u32) in
      if m = 0 then Inl DivisionByZero
      else let (r, s1) = GetARandom ws s in Inr (word_of_int lo + r mod m, s1))"

fun roll_all :: "u32 list \<Rightarrow> hero_rules \<Rightarrow> ((int \<times> int) \<times> int \<times> int) list \<Rightarrow> random_util \<Rightarrow>
    crash + (float_bits \<times> float_bits) list \<times> random_util" where
  "roll_all ws g [] s = Inr ([], s)"
| "roll_all ws g (((lo, hi), glo, ghi) # rest) s =
     (case roll ws lo hi s of Inl c \<Rightarrow> Inl c | Inr (a, s1) \<Rightarrow>
        (case roll ws glo ghi s1 of Inl c \<Rightarrow> Inl c | Inr (b, s2) \<Rightarrow>
           (case roll_all ws g rest s2 of Inl c \<Rightarrow> Inl c
            | Inr (xs, s3) \<Rightarrow> Inr ((float_of g a, hundredth g b) # xs, s3))))"

text \<open>The best of the five attributes first, then the four others.\<close>

definition ranges :: "hero_stock \<Rightarrow> ((int \<times> int) \<times> int \<times> int) list" where
  "ranges c = ((s_max_limit_min c, s_max c), s_max_limit_grow c, s_max_grow c) #
     replicate 4 ((s_min c, s_min_limit_max c), s_min_grow c, s_min_limit_grow c)"

fun probe :: "bool list \<Rightarrow> nat \<Rightarrow> nat \<Rightarrow> nat" where
  "probe free index 0 = index"
| "probe free index (Suc j) = (if free ! (Suc index mod 5) then Suc index else probe free (Suc index) j)"

definition pick_index :: "bool list \<Rightarrow> nat \<Rightarrow> nat" where
  "pick_index free index = (if free ! index then index else probe free index 5)"

definition set_att :: "nat \<Rightarrow> float_bits \<times> float_bits \<Rightarrow> hero \<Rightarrow> hero" where
  "set_att index ag h = (let (a, grow) = ag; b = base_att h in
     if index = 1 then h\<lparr>strategy := a, base_att := b\<lparr>base_strategy := a\<rparr>, strategy_grow := grow\<rparr>
     else if index = 2 then h\<lparr>economy := a, base_att := b\<lparr>base_economy := a\<rparr>, economy_grow := grow\<rparr>
     else if index = 3 then h\<lparr>strength := a, base_att := b\<lparr>base_strength := a\<rparr>, strength_grow := grow\<rparr>
     else if index = 4 then h\<lparr>magic_power := a, base_att := b\<lparr>base_magic_power := a\<rparr>, magic_power_grow := grow\<rparr>
     else h\<lparr>leader := a, base_att := b\<lparr>base_leader := a\<rparr>, leader_grow := grow\<rparr>)"

text \<open>The loop that gives each value to an attribute; \<open>i\<close> values are dealt already.\<close>

fun deal :: "u32 list \<Rightarrow> nat \<Rightarrow> (float_bits \<times> float_bits) list \<Rightarrow> bool list \<Rightarrow> hero \<Rightarrow> random_util \<Rightarrow> crash + hero \<times> random_util" where
  "deal ws i [] free h s = Inr (h, s)"
| "deal ws i (ag # rest) free h s =
     (let (r, s1) = GetARandom ws s; index = pick_index free (unat (r mod word_of_int (5 - int i))) in
      if 5 \<le> index then Inl BufferOverflow
      else let h1 = (if i = 0 then h\<lparr>hero_type := int index + 1\<rparr> else h) in
        deal ws (Suc i) rest (free[index := False]) (set_att index ag h1) s1)"

definition quality_row :: "hero_rules \<Rightarrow> int \<Rightarrow> crash + hero_stock" where
  "quality_row g stars =
     (let q = stars - 1 in
      at (hero_base_config g) (if q \<le> 0 \<or> int (length (hero_base_config g)) \<le> q then 0 else q))"

definition get_hero_att :: "u32 list \<Rightarrow> hero_rules \<Rightarrow> int \<Rightarrow> hero \<Rightarrow> random_util \<Rightarrow> crash + hero \<times> random_util" where
  "get_hero_att ws g stars h s =
     bind_r (quality_row g stars) (\<lambda>c.
     bind_r (roll_all ws g (ranges c) s) (\<lambda>(hero_att, s1).
     deal ws 0 hero_att (replicate 5 True) h s1))"

text \<open>The base of the magic points gets that of the hit points.\<close>

definition HeroBaseAttCaculate :: "hero_rules \<Rightarrow> hero \<Rightarrow> crash + hero" where
  "HeroBaseAttCaculate g res =
     (let h = (if hero_quality res < 1 \<or> int (length (hero_base_config g)) < hero_quality res
               then res\<lparr>hero_quality := 1\<rparr> else res) in
      bind_r (at (hero_base_config g) (hero_quality h - 1)) (\<lambda>c.
      Inr (h\<lparr>max_hp := to_int32 (stock_hp c + trunc g (strength h) * 5),
             max_mp := to_int32 (stock_mp c + trunc g (magic_power h)),
             attack := to_int32 (stock_attack c + trunc g (strength h)),
             defence := to_int32 (stock_defence c + fiftieth g (strength h)),
             base_att := (base_att h)\<lparr>base_hp := float_int g (stock_hp c), base_mp := float_int g (stock_hp c),
               base_attack := float_int g (stock_attack c), base_defence := float_int g (stock_defence c)\<rparr>\<rparr>)))"

definition blank_base :: hero_base where
  "blank_base = \<lparr>base_leader = 0, base_strategy = 0, base_economy = 0, base_strength = 0, base_magic_power = 0,
     base_hp = 0, base_mp = 0, base_attack = 0, base_defence = 0\<rparr>"

definition new_hero :: "int \<Rightarrow> string \<Rightarrow> int \<Rightarrow> hero" where
  "new_hero sn uuid stars = \<lparr>hero_sn = sn, hero_name = ''NoName'', hero_uuid = uuid, hero_quality = stars, hero_level = 1,
     leader = 0, strategy = 0, economy = 0, strength = 0, magic_power = 0, leader_grow = 0, strategy_grow = 0,
     economy_grow = 0, strength_grow = 0, magic_power_grow = 0, hero_cur_hp = 0, max_hp = 0, cur_mp = 0, max_mp = 0,
     attack = 0, defence = 0, pre_skill = 0, study_skill = 0, cur_goods_space = 0, max_goods_space = 0, exp_points = 0,
     hero_type = 0, job = 0, base_att = blank_base\<rparr>"

definition random_hero :: "u32 list \<Rightarrow> hero_rules \<Rightarrow> int \<Rightarrow> int \<Rightarrow> string \<Rightarrow> random_util \<Rightarrow> crash + hero \<times> random_util" where
  "random_hero ws g recruit sn uuid s =
     bind_r (random_quality ws g recruit s) (\<lambda>(stars, s1).
     bind_r (get_hero_att ws g stars (new_hero sn uuid stars) s1) (\<lambda>(h, s2).
     bind_r (HeroBaseAttCaculate g h) (\<lambda>h1.
     bind_r (at (hero_base_config g) (stars - 1)) (\<lambda>c.
     Inr (h1\<lparr>hero_cur_hp := max_hp h1, cur_mp := max_mp h1, cur_goods_space := goods_space c,
             max_goods_space := max_space c, job := 1\<rparr>, s2)))))"


subsection \<open>Recruiting and hiring\<close>

text \<open>The loop over the three heroes on offer; \<open>uuids\<close> are the numbers the generator gives.\<close>

fun refresh_heroes :: "u32 list \<Rightarrow> hero_rules \<Rightarrow> nat \<Rightarrow> string list \<Rightarrow> login_worker \<Rightarrow> random_util \<Rightarrow>
    crash + login_worker \<times> effect list \<times> hero list \<times> random_util" where
  "refresh_heroes ws g i [] l s = Inr (l, [], [], s)"
| "refresh_heroes ws g i (uuid # uuids) l s =
     (case random_hero ws g (recuite_type (my_attribute l)) (int i + 1) uuid s of Inl c \<Rightarrow> Inl c
      | Inr (h, s1) \<Rightarrow>
          let del = (case rand_hero l ! i of None \<Rightarrow> [] | Some old \<Rightarrow> [Redis (player_UUID l) (del_hero (hero_uuid old))]) in
          (case refresh_heroes ws g (Suc i) uuids (l\<lparr>rand_hero := (rand_hero l)[i := Some h]\<rparr>) s1 of Inl c \<Rightarrow> Inl c
           | Inr (l1, out, hs, s2) \<Rightarrow> Inr (l1, del @ Redis (player_UUID l) (set_hero h) # out, h # hs, s2)))"

definition refresh_random_hero :: "u32 list \<Rightarrow> hero_rules \<Rightarrow> string \<times> string \<times> string \<Rightarrow> login_worker \<Rightarrow> random_util \<Rightarrow>
    crash + login_worker \<times> effect list \<times> random_util" where
  "refresh_random_hero ws g uuids l s =
     (case uuids of (u1, u2, u3) \<Rightarrow>
      bind_r (refresh_heroes ws g 0 [u1, u2, u3] l s) (\<lambda>(l1, out, hs, s1).
      Inr (l1, out @ [Answer (HeroListResponse hs)], s1)))"

definition RecruitRequestService :: "u32 list \<Rightarrow> hero_rules \<Rightarrow> string \<times> string \<times> string \<Rightarrow> int \<Rightarrow> login_worker \<Rightarrow> random_util \<Rightarrow>
    crash + login_worker \<times> effect list \<times> random_util" where
  "RecruitRequestService ws g uuids random_type l s =
     (let u = player_UUID l; a = my_attribute l; cost = update_diamond_cost (hero_update_config g ! nat (random_type - 1)) in
      if 0 < random_type \<and> random_type < int (length (hero_update_config g)) \<and> cost \<le> diamond a then
        let a1 = a\<lparr>diamond := to_int32 (diamond a - cost)\<rparr> in
        bind_r (refresh_random_hero ws g uuids (l\<lparr>my_attribute := a1\<rparr>) s) (\<lambda>(l1, out, s1).
        Inr (l1\<lparr>my_attribute := (my_attribute l1)\<lparr>recuite_type := random_type, chance_num := 3\<rparr>\<rparr>,
             [update_diamond (diamond a1) u, asset_answer a1] @ out @ [Redis u (set_recurite random_type 3)], s1))
      else Inr (l, [Simple_answer RecruitRequest_ID (-1)], s))"

definition no_equip :: equip where
  "no_equip = \<lparr>witch_pannle = -1, where_uuid = [], position = 0, equip_sn = [], part = 0, quality = 0, equip_level = 0,
     attr1_type = 0, attr1_value = 0, attr2_type = 0, attr2_value = 0, extral1_type = 0, extral1_value = 0,
     extral2_type = 0, extral2_value = 0, diamond_cost = 0\<rparr>"

text \<open>The first place without a hero among the first \<open>n\<close>.\<close>

definition empty_place :: "nat \<Rightarrow> login_worker \<Rightarrow> nat option" where
  "empty_place n l = (let k = length (takeWhile (\<lambda>h. h \<noteq> None) (take n (my_hero l))) in if k < n then Some k else None)"

definition find_hero_position :: "login_worker \<Rightarrow> int" where
  "find_hero_position l = (case empty_place 6 l of None \<Rightarrow> -1 | Some k \<Rightarrow> int k)"

text \<open>The last of the six places is not used.\<close>

definition GetRandHeroRequestService :: "int \<Rightarrow> login_worker \<Rightarrow> login_worker \<times> effect list" where
  "GetRandHeroRequestService sn l =
     (let u = player_UUID l; answer = Simple_answer GetRandHeroRequest_ID in
      if 0 < sn \<and> sn < 4 then
        (case (empty_place 5 l, rand_hero l ! nat (sn - 1)) of
           (Some place, Some hired) \<Rightarrow>
             let h = hired\<lparr>job := 0, hero_sn := int place + 1\<rparr> in
             (l\<lparr>my_hero := (my_hero l)[place := Some h], rand_hero := (rand_hero l)[nat (sn - 1) := None],
                hero_equip := (hero_equip l)(hero_uuid h \<mapsto> replicate 6 no_equip)\<rparr>,
              [Redis u (set_hero h), answer 0])
         | _ \<Rightarrow> (l, [answer (-1)]))
      else (l, [answer (-2)]))"

subsection \<open>Jobs\<close>

text \<open>The first hero with a property, by a loop over the six places.\<close>

definition find_hero :: "(hero \<Rightarrow> bool) \<Rightarrow> login_worker \<Rightarrow> (nat \<times> hero) option" where
  "find_hero P l = (case filter (\<lambda>i. case my_hero l ! i of None \<Rightarrow> False | Some h \<Rightarrow> P h) [0..<6] of
     [] \<Rightarrow> None | i # _ \<Rightarrow> Some (i, the (my_hero l ! i)))"

definition get_hero_index :: "string \<Rightarrow> login_worker \<Rightarrow> int" where
  "get_hero_index uuid l = (case find_hero (\<lambda>h. hero_uuid h = uuid) l of None \<Rightarrow> -1 | Some (i, _) \<Rightarrow> int i)"

definition set_job :: "nat \<times> hero \<Rightarrow> int \<Rightarrow> login_worker \<Rightarrow> login_worker \<times> effect list" where
  "set_job ih title l = (let h = (snd ih)\<lparr>job := title\<rparr> in
     (l\<lparr>my_hero := (my_hero l)[fst ih := Some h]\<rparr>, [Redis (player_UUID l) (set_hero h)]))"

text \<open>The answer carries the id of \<open>CancelHeroRequest\<close>; a hero that is not found gets none.\<close>

definition AppointHeroRequestService :: "string \<Rightarrow> int \<Rightarrow> login_worker \<Rightarrow> login_worker \<times> effect list" where
  "AppointHeroRequestService uuid title l =
     (let (l1, out1) = (case find_hero (\<lambda>h. job h = title) l of None \<Rightarrow> (l, []) | Some ih \<Rightarrow> set_job ih 0 l) in
      case find_hero (\<lambda>h. hero_uuid h = uuid) l1 of None \<Rightarrow> (l1, out1)
      | Some ih \<Rightarrow> (let (l2, out2) = set_job ih title l1 in (l2, out1 @ out2 @ [Simple_answer CancelHeroRequest_ID 0])))"

definition CancelHeroRequestService :: "string \<Rightarrow> login_worker \<Rightarrow> login_worker \<times> effect list" where
  "CancelHeroRequestService uuid l =
     (case find_hero (\<lambda>h. hero_uuid h = uuid) l of None \<Rightarrow> (l, [Simple_answer CancelHeroRequest_ID (-1)])
      | Some ih \<Rightarrow> (let (l1, out) = set_job ih 0 l in (l1, out @ [Simple_answer CancelHeroRequest_ID 0])))"

text \<open>Only the test of the hero is written; a hero that is found gets no answer.\<close>

definition SetArmsToHeroRequestService :: "string \<Rightarrow> login_worker \<Rightarrow> effect list" where
  "SetArmsToHeroRequestService uuid l =
     (if get_hero_index uuid l = -1 then [Simple_answer SetArmsToHeroRequest_ID 0] else [])"

subsection \<open>Dropping a hero\<close>

text \<open>The heroes behind place \<open>i\<close> move one place down.\<close>

fun move_up :: "nat list \<Rightarrow> hero option list \<Rightarrow> hero option list" where
  "move_up [] hs = hs"
| "move_up (i # is) hs = move_up is (case hs ! i of None \<Rightarrow> hs
     | Some h \<Rightarrow> hs[i - 1 := Some (h\<lparr>hero_sn := int i\<rparr>), i := None])"

text \<open>
  The test of the number never fails, so any number is an index; and after a success the
  code goes on to the answer of a failure.
\<close>

definition DropHeroRequestService :: "int \<Rightarrow> login_worker \<Rightarrow> crash + login_worker \<times> effect list" where
  "DropHeroRequestService sn l =
     (let u = player_UUID l; answer = Simple_answer DropHeroRequest_ID in
      if sn \<le> 0 \<and> 6 < sn then Inr (l, [answer (-1)])
      else bind_r (at (my_hero l) (sn - 1)) (\<lambda>place.
        case place of None \<Rightarrow> Inr (l, [answer (-2)])
        | Some h \<Rightarrow>
            if items_of l (hero_uuid h) \<noteq> [] then Inr (l, [answer (-2)])
            else
              let hs = (my_hero l)[nat (sn - 1) := None];
                  hs1 = (if sn < 6 then move_up [nat sn..<6] hs else hs);
                  moved = (if sn < 6 then [Redis u (move_hero hs1 (sn - 1))] else []) in
              Inr (l\<lparr>my_hero := hs1, hero_equip := (hero_equip l)(hero_uuid h := None)\<rparr>,
                   Redis u (del_hero (hero_uuid h)) # moved @ [answer 0, answer (-2)])))"

subsection \<open>Every attribute gets one of the five values\<close>

definition attributes_of :: "hero \<Rightarrow> (float_bits \<times> float_bits) list" where
  "attributes_of h = [(leader h, leader_grow h), (strategy h, strategy_grow h), (economy h, economy_grow h),
     (strength h, strength_grow h), (magic_power h, magic_power_grow h)]"

lemma length_attributes [simp]: "length (attributes_of h) = 5"
  by (simp add: attributes_of_def)

lemma less_5_cases: "(i :: nat) < 5 \<Longrightarrow> i = 0 \<or> i = 1 \<or> i = 2 \<or> i = 3 \<or> i = 4"
  by auto

lemma attributes_set_att: "i < 5 \<Longrightarrow> attributes_of (set_att i ag h) = (attributes_of h)[i := ag]"
  by (drule less_5_cases) (auto simp: attributes_of_def set_att_def Let_def numeral_eq_Suc split: prod.splits)

lemma type_set_att [simp]: "hero_type (set_att i ag h) = hero_type h"
  by (simp add: set_att_def Let_def split: prod.splits)

definition used :: "bool list \<Rightarrow> nat set" where
  "used free = {k. k < 5 \<and> \<not> free ! k}"

lemma finite_used [simp]: "finite (used free)"
  by (simp add: used_def)

lemma used_update: "length free = 5 \<Longrightarrow> i < 5 \<Longrightarrow> used (free[i := False]) = insert i (used free)"
  by (auto simp: used_def nth_list_update)

lemma probe_finds:
  "index < k \<Longrightarrow> k \<le> index + j \<Longrightarrow> k < 5 \<Longrightarrow> free ! k \<Longrightarrow> probe free index j < 5 \<and> free ! probe free index j"
proof (induction j arbitrary: index)
  case (Suc j)
  show ?case
  proof (cases "free ! (Suc index mod 5)")
    case True
    moreover have "Suc index < 5" using Suc.prems by simp
    ultimately show ?thesis by (simp add: mod_less)
  next
    case False
    then have "Suc index \<noteq> k" using Suc.prems(3,4) by auto
    with Suc.prems Suc.IH [of "Suc index"] False show ?thesis by simp
  qed
qed simp

lemma pick_index_free:
  assumes "card (used free) = i" and "i < 5" and "index < 5 - i"
  shows "pick_index free index < 5 \<and> free ! pick_index free index"
proof (cases "free ! index")
  case True
  with assms show ?thesis by (simp add: pick_index_def)
next
  case False
  have "\<exists>k. index < k \<and> k < 5 \<and> free ! k"
  proof (rule ccontr)
    assume "\<nexists>k. index < k \<and> k < 5 \<and> free ! k"
    then have "{index..<5} \<subseteq> used free" using False by (force simp: used_def order_le_less)
    from card_mono [OF finite_used this] assms show False by simp
  qed
  then obtain k where "index < k" "k < 5" "free ! k" by blast
  with probe_finds [of index k 5 free] False show ?thesis by (simp add: pick_index_def)
qed

text \<open>The values at the attributes that were dealt.\<close>

definition dealt :: "bool list \<Rightarrow> hero \<Rightarrow> (float_bits \<times> float_bits) multiset" where
  "dealt free h = image_mset (\<lambda>k. attributes_of h ! k) (mset_set (used free))"

lemma unat_draw: "i < 5 \<Longrightarrow> unat ((r :: u32) mod word_of_int (5 - int i)) < 5 - i"
proof -
  assume i: "i < 5"
  then have m: "(word_of_int (5 - int i) :: u32) = of_nat (5 - i)" by (simp add: of_nat_diff)
  have "unat (of_nat (5 - i) :: u32) = 5 - i" by (simp add: unat_of_nat take_bit_nat_eq_self)
  then show ?thesis unfolding m by (metis i mod_less_divisor unat_mod zero_less_diff)
qed

lemma deal_step:
  assumes "length free = 5" and "card (used free) = i" and "i < 5"
  obtains index s1 where "index < 5" and "index \<notin> used free"
    and "deal ws i (ag # rest) free h s =
      deal ws (Suc i) rest (free[index := False]) (set_att index ag (if i = 0 then h\<lparr>hero_type := int index + 1\<rparr> else h)) s1"
proof -
  obtain r s1 where r: "GetARandom ws s = (r, s1)" by fastforce
  define index where "index = pick_index free (unat (r mod word_of_int (5 - int i)))"
  have i: "index < 5" "free ! index"
    using pick_index_free [OF assms(2,3) unat_draw [OF assms(3)], of r] by (simp_all add: index_def)
  show ?thesis by (rule that [of index s1]) (use i r index_def in \<open>simp_all add: used_def Let_def\<close>)
qed

lemma dealt_insert:
  assumes "length free = 5" and "index < 5" and "index \<notin> used free"
    and "attributes_of h' = (attributes_of h)[index := ag]"
  shows "dealt (free[index := False]) h' = add_mset ag (dealt free h)"
proof -
  have "image_mset (\<lambda>k. attributes_of h' ! k) (mset_set (used free)) = image_mset (\<lambda>k. attributes_of h ! k) (mset_set (used free))"
  proof (rule image_mset_cong)
    fix k assume "k \<in># mset_set (used free)"
    then have "index \<noteq> k" using assms(3) by auto
    then show "attributes_of h' ! k = attributes_of h ! k" using assms(4) by simp
  qed
  then show ?thesis using assms by (simp add: dealt_def used_update)
qed

lemma deal_all:
  assumes "length free = 5" and "card (used free) = i" and "i + length rest \<le> 5" and "0 < i"
  shows "\<exists>h' s' free'. deal ws i rest free h s = Inr (h', s') \<and> length free' = 5 \<and> card (used free') = i + length rest \<and>
    dealt free' h' = dealt free h + mset rest \<and> hero_type h' = hero_type h \<and>
    (\<forall>k\<in>used free. attributes_of h' ! k = attributes_of h ! k)"
  using assms
proof (induction rest arbitrary: i free h s)
  case Nil
  then show ?case by auto
next
  case (Cons ag rest)
  then have "i < 5" by simp
  then obtain index s1 where index: "index < 5" "index \<notin> used free"
    and step: "deal ws i (ag # rest) free h s =
      deal ws (Suc i) rest (free[index := False]) (set_att index ag (if i = 0 then h\<lparr>hero_type := int index + 1\<rparr> else h)) s1"
    by (rule deal_step [OF Cons.prems(1,2)])
  have "i \<noteq> 0" using Cons.prems(4) by simp
  note step = step [unfolded if_not_P [OF this]]
  have att: "attributes_of (set_att index ag h) = (attributes_of h)[index := ag]" by (rule attributes_set_att [OF index(1)])
  have u: "used (free[index := False]) = insert index (used free)" by (rule used_update [OF Cons.prems(1) index(1)])
  have "card (used (free[index := False])) = Suc i" using u index(2) Cons.prems(2) by simp
  from Cons.IH [of "free[index := False]" "Suc i" "set_att index ag h" s1, OF _ this] Cons.prems(1,3)
  obtain h' s' free' where ih: "deal ws (Suc i) rest (free[index := False]) (set_att index ag h) s1 = Inr (h', s')"
      "length free' = 5" "card (used free') = Suc i + length rest"
      "dealt free' h' = dealt (free[index := False]) (set_att index ag h) + mset rest" "hero_type h' = hero_type h"
      "\<forall>k\<in>used (free[index := False]). attributes_of h' ! k = attributes_of (set_att index ag h) ! k"
    by auto
  have "attributes_of h' ! k = attributes_of h ! k" if "k \<in> used free" for k
  proof -
    have "index \<noteq> k" using that index(2) by auto
    with ih(6) u that show ?thesis by (simp add: att)
  qed
  with ih(1-5) step dealt_insert [OF Cons.prems(1) index att] show ?case
    by (intro exI conjI ballI) (assumption | simp)+
qed

lemma used_all: "card (used free) = 5 \<Longrightarrow> used free = {..<5}"
  by (rule card_subset_eq) (auto simp: used_def)

lemma deal_gives_all:
  assumes "length att = 5"
  shows "\<exists>h' s'. deal ws 0 att (replicate 5 True) h s = Inr (h', s') \<and> mset (attributes_of h') = mset att \<and>
    1 \<le> hero_type h' \<and> hero_type h' \<le> 5 \<and> attributes_of h' ! nat (hero_type h' - 1) = hd att"
proof -
  let ?free = "replicate 5 True"
  obtain ag rest where att: "att = ag # rest" using assms by (cases att) auto
  have u: "used ?free = {}" by (auto simp: used_def)
  have "length ?free = 5" "card (used ?free) = 0" "(0 :: nat) < 5" by (simp_all add: u)
  then obtain index s1 where index: "index < 5" "index \<notin> used ?free"
    and step: "deal ws 0 (ag # rest) ?free h s =
      deal ws (Suc 0) rest (?free[index := False]) (set_att index ag (if (0 :: nat) = 0 then h\<lparr>hero_type := int index + 1\<rparr> else h)) s1"
    by (rule deal_step)
  define h1 where "h1 = set_att index ag (h\<lparr>hero_type := int index + 1\<rparr>)"
  have att1: "attributes_of h1 = (attributes_of (h\<lparr>hero_type := int index + 1\<rparr>))[index := ag]"
    unfolding h1_def by (rule attributes_set_att [OF index(1)])
  have u1: "used (?free[index := False]) = {index}" using used_update [of ?free index] u index(1) by simp
  have d1: "dealt (?free[index := False]) h1 = {#ag#}"
    using dealt_insert [OF _ index att1] u by (simp add: dealt_def)
  have len: "length (?free[index := False]) = 5" "card (used (?free[index := False])) = 1" by (simp_all add: u1)
  have bound: "1 + length rest \<le> 5" using assms att by simp
  obtain h' s' free' where d: "deal ws 1 rest (?free[index := False]) h1 s1 = Inr (h', s')" "card (used free') = 1 + length rest"
      "dealt free' h' = {#ag#} + mset rest" "hero_type h' = hero_type h1" "attributes_of h' ! index = attributes_of h1 ! index"
    using deal_all [OF len bound zero_less_one, of ws h1 s1] unfolding d1 u1 by blast
  have "used free' = {..<5}" using d(2) assms att by (intro used_all) simp
  then have "mset (attributes_of h') = {#ag#} + mset rest"
    using d(3) map_nth [of "attributes_of h'"] unfolding dealt_def
    by (metis length_attributes lessThan_atLeast0 mset_map mset_upt)
  moreover have "hero_type h' = int index + 1" using d(4) by (simp add: h1_def)
  ultimately show ?thesis using step [unfolded if_P [OF refl] h1_def [symmetric]] d(1,5) index(1) att1
    by (simp add: att)
qed

lemma roll_all_length: "roll_all ws g rs s = Inr (xs, s1) \<Longrightarrow> length xs = length rs"
  by (induction ws g rs s arbitrary: xs s1 rule: roll_all.induct) (auto split: sum.splits)

lemma attributes_are_dealt_all:
  assumes "quality_row g stars = Inr c" and "roll_all ws g (ranges c) s = Inr (rolls, s1)"
  shows "\<exists>h' s'. get_hero_att ws g stars h s = Inr (h', s') \<and> mset (attributes_of h') = mset rolls \<and>
    1 \<le> hero_type h' \<and> hero_type h' \<le> 5 \<and> attributes_of h' ! nat (hero_type h' - 1) = hd rolls"
proof -
  have "length rolls = 5" using roll_all_length [OF assms(2)] by (simp add: ranges_def)
  from deal_gives_all [OF this] assms show ?thesis by (simp add: get_hero_att_def)
qed

text \<open>
  C24. The five values of a new hero are dealt. Whatever the random numbers, the loop that
  looks for an attribute without a value stays inside its array, each of the five attributes
  gets exactly one of the five values, and the hero's type names the attribute with the best.
\<close>

theorem attributes_are_dealt:
  assumes "quality_row g stars = Inr c" and "roll_all ws g (ranges c) s = Inr (rolls, s1)"
  shows "\<exists>h' s'. get_hero_att ws g stars h s = Inr (h', s') \<and> mset (attributes_of h') = mset rolls \<and>
    1 \<le> hero_type h' \<and> hero_type h' \<le> 5 \<and> attributes_of h' ! nat (hero_type h' - 1) = hd rolls"
  using assms by (rule attributes_are_dealt_all)

subsection \<open>Heroes over a session\<close>

text \<open>What a player does with his heroes; the numbers of a recruiting are those of the generator.\<close>

datatype hero_event =
    Recruit "string \<times> string \<times> string" int
  | GetRandHero int
  | AppointHero string int
  | CancelHero string
  | DropHero int

definition hero_step :: "u32 list \<Rightarrow> hero_rules \<Rightarrow> hero_event \<Rightarrow> login_worker \<times> random_util \<Rightarrow>
    crash + (login_worker \<times> random_util) \<times> effect list" where
  "hero_step ws g e ls = (case ls of (l, s) \<Rightarrow> (case e of
     Recruit uuids ty \<Rightarrow> bind_r (RecruitRequestService ws g uuids ty l s) (\<lambda>(l1, out, s1). Inr ((l1, s1), out))
   | GetRandHero sn \<Rightarrow> (case GetRandHeroRequestService sn l of (l1, out) \<Rightarrow> Inr ((l1, s), out))
   | AppointHero uuid title \<Rightarrow> (case AppointHeroRequestService uuid title l of (l1, out) \<Rightarrow> Inr ((l1, s), out))
   | CancelHero uuid \<Rightarrow> (case CancelHeroRequestService uuid l of (l1, out) \<Rightarrow> Inr ((l1, s), out))
   | DropHero sn \<Rightarrow> bind_r (DropHeroRequestService sn l) (\<lambda>(l1, out). Inr ((l1, s), out))))"

fun hero_steps :: "u32 list \<Rightarrow> hero_rules \<Rightarrow> hero_event list \<Rightarrow> login_worker \<times> random_util \<Rightarrow>
    crash + (login_worker \<times> random_util) \<times> effect list" where
  "hero_steps ws g [] ls = Inr (ls, [])"
| "hero_steps ws g (e # es) ls = (case hero_step ws g e ls of Inl c \<Rightarrow> Inl c
   | Inr (ls1, out1) \<Rightarrow> (case hero_steps ws g es ls1 of Inl c \<Rightarrow> Inl c | Inr (ls2, out2) \<Rightarrow> Inr (ls2, out1 @ out2)))"

text \<open>
  The two arrays have their sizes, a hero's number is his place, he has six places for
  items, and no two heroes have the same job.
\<close>

definition heroes_ok :: "login_worker \<Rightarrow> bool" where
  "heroes_ok l \<longleftrightarrow> length (my_hero l) = 6 \<and> length (rand_hero l) = 3 \<and>
     (\<forall>i h. i < 6 \<longrightarrow> my_hero l ! i = Some h \<longrightarrow> hero_sn h = int i + 1 \<and> length (items_of l (hero_uuid h)) = 6) \<and>
     (\<forall>i j h h'. i < 6 \<longrightarrow> j < 6 \<longrightarrow> my_hero l ! i = Some h \<longrightarrow> my_hero l ! j = Some h' \<longrightarrow>
        job h = job h' \<longrightarrow> job h \<noteq> 0 \<longrightarrow> i = j)"

lemma heroes_okI:
  assumes "length (my_hero l) = 6" and "length (rand_hero l) = 3"
    and "\<And>i h. i < 6 \<Longrightarrow> my_hero l ! i = Some h \<Longrightarrow> hero_sn h = int i + 1 \<and> length (items_of l (hero_uuid h)) = 6"
    and "\<And>i j h h'. i < 6 \<Longrightarrow> j < 6 \<Longrightarrow> my_hero l ! i = Some h \<Longrightarrow> my_hero l ! j = Some h' \<Longrightarrow>
      job h = job h' \<Longrightarrow> job h \<noteq> 0 \<Longrightarrow> i = j"
  shows "heroes_ok l"
  using assms unfolding heroes_ok_def by blast

lemma heroes_okD:
  assumes "heroes_ok l"
  shows "length (my_hero l) = 6" and "length (rand_hero l) = 3"
    and "\<And>i h. i < 6 \<Longrightarrow> my_hero l ! i = Some h \<Longrightarrow> hero_sn h = int i + 1 \<and> length (items_of l (hero_uuid h)) = 6"
    and "\<And>i j h h'. i < 6 \<Longrightarrow> j < 6 \<Longrightarrow> my_hero l ! i = Some h \<Longrightarrow> my_hero l ! j = Some h' \<Longrightarrow>
      job h = job h' \<Longrightarrow> job h \<noteq> 0 \<Longrightarrow> i = j"
  using assms unfolding heroes_ok_def by blast+

text \<open>A step that leaves the six places alone, and one that gives a hero a job that is free.\<close>

lemma heroes_ok_same:
  "heroes_ok l \<Longrightarrow> my_hero l' = my_hero l \<Longrightarrow> hero_equip l' = hero_equip l \<Longrightarrow> length (rand_hero l') = 3 \<Longrightarrow> heroes_ok l'"
  by (simp add: heroes_ok_def items_of_def)

lemma heroes_ok_put:
  assumes ok: "heroes_ok l" and i: "i < 6"
    and l': "my_hero l' = (my_hero l)[i := Some h']" "length (rand_hero l') = 3"
    and same: "hero_sn h' = int i + 1" "length (items_of l' (hero_uuid h')) = 6"
    and items: "\<And>uuid. length (items_of l uuid) = 6 \<Longrightarrow> length (items_of l' uuid) = 6"
    and free: "\<And>j h''. j < 6 \<Longrightarrow> j \<noteq> i \<Longrightarrow> my_hero l ! j = Some h'' \<Longrightarrow> job h'' = job h' \<Longrightarrow> job h' = 0"
  shows "heroes_ok l'"
proof (rule heroes_okI)
  show "length (my_hero l') = 6" using heroes_okD(1) [OF ok] l' by simp
  show "hero_sn k = int j + 1 \<and> length (items_of l' (hero_uuid k)) = 6" if "j < 6" "my_hero l' ! j = Some k" for j k
    using that heroes_okD(1,3) [OF ok] items same by (cases "j = i") (auto simp: l')
  show "j = n" if "j < 6" "n < 6" "my_hero l' ! j = Some k" "my_hero l' ! n = Some k'" "job k = job k'" "job k \<noteq> 0" for j n k k'
  proof -
    have len: "length (my_hero l) = 6" by (rule heroes_okD(1) [OF ok])
    consider "j = i" "n = i" | "j = i" "n \<noteq> i" | "j \<noteq> i" "n = i" | "j \<noteq> i" "n \<noteq> i" by blast
    then show ?thesis
    proof cases
      case 2
      then show ?thesis using that free [of n k'] len by (simp add: l')
    next
      case 3
      then show ?thesis using that free [of j k] len by (simp add: l')
    next
      case 4
      then show ?thesis using that heroes_okD(4) [OF ok] len by (simp add: l')
    qed simp
  qed
qed (rule l')

lemma find_hero_Some:
  assumes "find_hero P l = Some (i, h)"
  shows "i < 6 \<and> my_hero l ! i = Some h \<and> P h"
proof -
  let ?P = "\<lambda>i. case my_hero l ! i of None \<Rightarrow> False | Some h \<Rightarrow> P h"
  obtain rest where f: "filter ?P [0..<6] = i # rest" and h: "h = the (my_hero l ! i)"
    using assms by (auto simp: find_hero_def split: list.splits)
  have "i \<in> set (filter ?P [0..<6])" unfolding f by simp
  with h show ?thesis by (auto split: option.splits)
qed

lemma find_hero_None:
  assumes "find_hero P l = None" and "j < 6" and "my_hero l ! j = Some h"
  shows "\<not> P h"
proof
  assume "P h"
  let ?P = "\<lambda>i. case my_hero l ! i of None \<Rightarrow> False | Some h \<Rightarrow> P h"
  have "j \<in> set (filter ?P [0..<6])" using assms(2,3) \<open>P h\<close> by simp
  moreover have "filter ?P [0..<6] = []" using assms(1) by (simp add: find_hero_def split: list.splits)
  ultimately show False by simp
qed

lemma set_job_ok:
  assumes ok: "heroes_ok l" and find: "find_hero P l = Some (i, h)" and res: "set_job (i, h) title l = (l', out)"
    and free: "\<And>j h''. j < 6 \<Longrightarrow> j \<noteq> i \<Longrightarrow> my_hero l ! j = Some h'' \<Longrightarrow> job h'' = title \<Longrightarrow> title = 0"
  shows "heroes_ok l'"
proof -
  from find_hero_Some [OF find] have i: "i < 6" "my_hero l ! i = Some h" by simp_all
  have l': "my_hero l' = (my_hero l)[i := Some (h\<lparr>job := title\<rparr>)]" "rand_hero l' = rand_hero l" "hero_equip l' = hero_equip l"
    using res by (auto simp: set_job_def Let_def)
  show ?thesis
    by (rule heroes_ok_put [OF ok i(1) l'(1)]) (use heroes_okD(2,3) [OF ok] i l' free in \<open>auto simp: items_of_def\<close>)
qed

lemma appoint_ok:
  assumes ok: "heroes_ok l" and res: "AppointHeroRequestService uuid title l = (l', out)"
  shows "heroes_ok l'"
proof -
  define l1 where "l1 = fst (case find_hero (\<lambda>h. job h = title) l of None \<Rightarrow> (l, []) | Some ih \<Rightarrow> set_job ih 0 l)"
  have len: "length (my_hero l) = 6" by (rule heroes_okD(1) [OF ok])
  have "heroes_ok l1 \<and> (\<forall>j h. j < 6 \<longrightarrow> my_hero l1 ! j = Some h \<longrightarrow> job h = title \<longrightarrow> title = 0)"
  proof (cases "find_hero (\<lambda>h. job h = title) l")
    case None
    then show ?thesis using ok find_hero_None [OF None] by (auto simp: l1_def)
  next
    case (Some ih)
    obtain i h where ih: "ih = (i, h)" by fastforce
    note f = find_hero_Some [OF Some [unfolded ih]]
    have "\<And>j h'. j < 6 \<Longrightarrow> my_hero l1 ! j = Some h' \<Longrightarrow> job h' = title \<Longrightarrow> title = 0"
    proof -
      fix j h' assume j: "j < 6" "my_hero l1 ! j = Some h'" "job h' = title"
      show "title = 0"
      proof (cases "j = i")
        case True
        with j f len show ?thesis by (auto simp: l1_def Some ih set_job_def Let_def)
      next
        case False
        with j f len have "my_hero l ! j = Some h'" by (auto simp: l1_def Some ih set_job_def Let_def)
        with j f False heroes_okD(4) [OF ok, of j i h' h] show ?thesis by auto
      qed
    qed
    moreover have "heroes_ok l1"
    proof (rule set_job_ok [OF ok Some [unfolded ih]])
      show "set_job (i, h) 0 l = (l1, snd (set_job (i, h) 0 l))" by (simp add: l1_def Some ih)
    qed simp
    ultimately show ?thesis by blast
  qed
  then have l1: "heroes_ok l1" "\<And>j h. j < 6 \<Longrightarrow> my_hero l1 ! j = Some h \<Longrightarrow> job h = title \<Longrightarrow> title = 0" by blast+
  show ?thesis
  proof (cases "find_hero (\<lambda>h. hero_uuid h = uuid) l1")
    case None
    then show ?thesis using l1(1) res by (auto simp: AppointHeroRequestService_def l1_def split: prod.splits)
  next
    case (Some ih)
    obtain i h where ih: "ih = (i, h)" by fastforce
    have "l' = fst (set_job (i, h) title l1)"
      using res Some by (auto simp: AppointHeroRequestService_def l1_def ih split: prod.splits)
    then show ?thesis using set_job_ok [OF l1(1) Some [unfolded ih]] l1(2) by (metis prod.collapse)
  qed
qed

lemma cancel_ok: "heroes_ok l \<Longrightarrow> CancelHeroRequestService uuid l = (l', out) \<Longrightarrow> heroes_ok l'"
  by (auto simp: CancelHeroRequestService_def split: option.splits prod.splits intro: set_job_ok)

lemma empty_place_Some:
  assumes "empty_place n l = Some k" and "n \<le> length (my_hero l)"
  shows "k < n \<and> my_hero l ! k = None"
proof -
  let ?xs = "take n (my_hero l)"
  have k: "k = length (takeWhile (\<lambda>h. h \<noteq> None) ?xs)" "k < n"
    using assms(1) by (auto simp: empty_place_def Let_def split: if_splits)
  then have "k < length ?xs" using assms(2) by simp
  with nth_length_takeWhile [of "\<lambda>h. h \<noteq> None" ?xs] k show ?thesis by simp
qed

lemma hire_ok:
  assumes ok: "heroes_ok l" and res: "GetRandHeroRequestService sn l = (l', out)"
  shows "heroes_ok l'"
proof (cases "\<exists>k h. 0 < sn \<and> sn < 4 \<and> empty_place 5 l = Some k \<and> rand_hero l ! nat (sn - 1) = Some h")
  case True
  then obtain k h where k: "0 < sn" "sn < 4" "empty_place 5 l = Some k" and h: "rand_hero l ! nat (sn - 1) = Some h" by blast
  define h' where "h' = h\<lparr>job := 0, hero_sn := int k + 1\<rparr>"
  have l': "my_hero l' = (my_hero l)[k := Some h']" "length (rand_hero l') = 3"
    "hero_equip l' = (hero_equip l)(hero_uuid h' \<mapsto> replicate 6 no_equip)"
    using res k h heroes_okD(2) [OF ok] by (auto simp: GetRandHeroRequestService_def Let_def h'_def)
  have "k < 6" using empty_place_Some [OF k(3)] heroes_okD(1) [OF ok] by simp
  then show ?thesis
    by (rule heroes_ok_put [OF ok _ l'(1,2)]) (auto simp: h'_def items_of_def l')
next
  case False
  then have "l' = l" using res by (auto simp: GetRandHeroRequestService_def Let_def split: if_splits option.splits)
  with ok show ?thesis by simp
qed

text \<open>A hero always has places for items, so none can be dropped.\<close>

lemma drop_refused:
  assumes ok: "heroes_ok l" and res: "DropHeroRequestService sn l = Inr (l', out)"
  shows "l' = l \<and> out = [Simple_answer DropHeroRequest_ID (-2)]"
proof -
  have *: "items_of l (hero_uuid h) \<noteq> []" if "0 \<le> sn - 1" "sn - 1 < 6" "my_hero l ! nat (sn - 1) = Some h" for h
  proof -
    have "nat (sn - 1) < 6" using that by simp
    from heroes_okD(3) [OF ok this that(3)] show ?thesis by auto
  qed
  show ?thesis using res * heroes_okD(1) [OF ok]
    by (auto simp: DropHeroRequestService_def Let_def bind_r_eq_Inr split: option.splits if_splits)
qed

lemma refresh_heroes_keeps:
  "refresh_heroes ws g i uuids l s = Inr (l', out, hs, s') \<Longrightarrow>
   my_hero l' = my_hero l \<and> hero_equip l' = hero_equip l \<and> length (rand_hero l') = length (rand_hero l)"
  by (induction ws g i uuids l s arbitrary: l' out hs s' rule: refresh_heroes.induct)
    (auto simp: Let_def split: sum.splits prod.splits)

lemma refresh_keeps:
  "refresh_random_hero ws g uuids l s = Inr (l', out, s') \<Longrightarrow>
   my_hero l' = my_hero l \<and> hero_equip l' = hero_equip l \<and> length (rand_hero l') = length (rand_hero l)"
  by (auto simp: refresh_random_hero_def bind_r_eq_Inr simp del: refresh_heroes.simps
      split: prod.splits dest!: refresh_heroes_keeps)

lemma recruit_ok:
  assumes ok: "heroes_ok l" and res: "RecruitRequestService ws g uuids ty l s = Inr (l', out, s')"
  shows "heroes_ok l'"
proof (rule heroes_ok_same [OF ok])
  have "my_hero l' = my_hero l \<and> hero_equip l' = hero_equip l \<and> length (rand_hero l') = length (rand_hero l)"
    using res by (auto simp: RecruitRequestService_def Let_def bind_r_eq_Inr split: if_split_asm dest!: refresh_keeps)
  then show "my_hero l' = my_hero l" "hero_equip l' = hero_equip l" "length (rand_hero l') = 3"
    using heroes_okD(2) [OF ok] by simp_all
qed

lemma hero_step_ok:
  assumes "hero_step ws g e ls = Inr (ls', out)" and "heroes_ok (fst ls)"
  shows "heroes_ok (fst ls')"
proof -
  obtain l s where ls: "ls = (l, s)" by fastforce
  with assms(2) have ok: "heroes_ok l" by simp
  show ?thesis
  proof (cases e)
    case (Recruit uuids ty)
    with assms(1) ls show ?thesis by (auto simp: hero_step_def bind_r_eq_Inr dest: recruit_ok [OF ok])
  next
    case (GetRandHero sn)
    with assms(1) ls hire_ok [OF ok] show ?thesis by (auto simp: hero_step_def split: prod.splits)
  next
    case (AppointHero uuid title)
    with assms(1) ls appoint_ok [OF ok] show ?thesis by (auto simp: hero_step_def split: prod.splits)
  next
    case (CancelHero uuid)
    with assms(1) ls cancel_ok [OF ok] show ?thesis by (auto simp: hero_step_def split: prod.splits)
  next
    case (DropHero sn)
    with assms(1) ls ok show ?thesis by (auto simp: hero_step_def bind_r_eq_Inr dest: drop_refused [OF ok])
  qed
qed

lemma hero_steps_ok:
  "hero_steps ws g es ls = Inr (ls', out) \<Longrightarrow> heroes_ok (fst ls) \<Longrightarrow> heroes_ok (fst ls')"
proof (induction es arbitrary: ls out)
  case (Cons e es)
  from Cons.prems(1) obtain ls1 out1 out2 where s: "hero_step ws g e ls = Inr (ls1, out1)"
    and r: "hero_steps ws g es ls1 = Inr (ls', out2)"
    by (auto split: sum.splits)
  from Cons.IH [OF r hero_step_ok [OF s Cons.prems(2)]] show ?case .
qed simp

text \<open>
  C23. One hero for each job. Whatever a player does with his heroes, in any order, no two
  of them have the same job, each one's number is his place, and each has his six places
  for items.
\<close>

theorem one_hero_per_job:
  assumes "hero_steps ws g es ls = Inr (ls', out)" and "heroes_ok (fst ls)"
  shows "heroes_ok (fst ls')"
  using hero_steps_ok [OF assms] .

text \<open>
  Heroes are never dropped. In every state that a player can bring his heroes to,
  a request to drop one is refused, because the test for items counts the places for them.
\<close>

theorem heroes_are_never_dropped:
  assumes "hero_steps ws g es ls = Inr (ls', out)" and "heroes_ok (fst ls)" and "1 \<le> sn" and "sn \<le> 6"
  shows "DropHeroRequestService sn (fst ls') = Inr (fst ls', [Simple_answer DropHeroRequest_ID (-2)])"
proof -
  have ok: "heroes_ok (fst ls')" by (rule hero_steps_ok [OF assms(1,2)])
  have "is_ok (DropHeroRequestService sn (fst ls'))"
    using heroes_okD(1) [OF ok] assms(3,4)
    by (auto simp: DropHeroRequestService_def Let_def at_def split: option.splits)
  then obtain l' out' where "DropHeroRequestService sn (fst ls') = Inr (l', out')"
    by (cases "DropHeroRequestService sn (fst ls')") auto
  with drop_refused [OF ok this] show ?thesis by simp
qed

subsection \<open>The type that was paid for\<close>

lemma refresh_heroes_attribute:
  assumes "recuite_type a = recuite_type (my_attribute l)"
  shows "refresh_heroes ws g i uuids (l\<lparr>my_attribute := a\<rparr>) s =
    (case refresh_heroes ws g i uuids l s of Inl c \<Rightarrow> Inl c
     | Inr (l1, out, hs, s1) \<Rightarrow> Inr (l1\<lparr>my_attribute := a\<rparr>, out, hs, s1))"
  using assms
proof (induction uuids arbitrary: i l s)
  case (Cons uuid uuids)
  show ?case
  proof (cases "random_hero ws g (recuite_type (my_attribute l)) (int i + 1) uuid s")
    case (Inr p)
    obtain h s1 where p: "p = (h, s1)" by fastforce
    let ?l = "l\<lparr>rand_hero := (rand_hero l)[i := Some h]\<rparr>"
    have "recuite_type a = recuite_type (my_attribute ?l)" using Cons.prems by simp
    note ih = Cons.IH [OF this, of "Suc i" s1]
    have swap: "(l\<lparr>my_attribute := a\<rparr>)\<lparr>rand_hero := (rand_hero l)[i := Some h]\<rparr> = ?l\<lparr>my_attribute := a\<rparr>" by simp
    have u: "player_UUID (l\<lparr>my_attribute := a\<rparr>) = player_UUID l" "rand_hero (l\<lparr>my_attribute := a\<rparr>) = rand_hero l"
      "my_attribute (l\<lparr>my_attribute := a\<rparr>) = a" by simp_all
    show ?thesis
      unfolding refresh_heroes.simps Let_def u swap Cons.prems Inr p
      by (cases "refresh_heroes ws g (Suc i) uuids ?l s1") (simp_all add: u swap ih split: prod.splits)
  qed (simp add: Cons.prems)
qed simp

lemma refresh_attribute:
  assumes "recuite_type a = recuite_type (my_attribute l)"
    and "refresh_random_hero ws g uuids (l\<lparr>my_attribute := a\<rparr>) s = Inr (l', out, s')"
  shows "\<exists>l1. refresh_random_hero ws g uuids l s = Inr (l1, out, s') \<and> l' = l1\<lparr>my_attribute := a\<rparr>"
  using assms(2) unfolding refresh_random_hero_def refresh_heroes_attribute [OF assms(1)]
  by (auto simp del: refresh_heroes.simps simp: bind_r_eq_Inr split: prod.splits sum.splits)

text \<open>
  What is paid applies the next time. The heroes that a recruiting puts on offer do
  not depend on the type that was chosen and paid: they are made by the type of the
  recruiting before, and only then the new type is kept.
\<close>

theorem paid_type_applies_next_time:
  assumes "RecruitRequestService ws g uuids ty l s = Inr (l1, out1, s1)" and "recuite_type (my_attribute l1) = ty"
    and "RecruitRequestService ws g uuids ty' l s = Inr (l2, out2, s2)" and "recuite_type (my_attribute l2) = ty'"
    and "ty \<noteq> recuite_type (my_attribute l)" and "ty' \<noteq> recuite_type (my_attribute l)"
  shows "rand_hero l1 = rand_hero l2 \<and> s1 = s2"
proof -
  have "\<exists>l0 out0. refresh_random_hero ws g uuids l s = Inr (l0, out0, s0) \<and> rand_hero k = rand_hero l0"
    if r: "RecruitRequestService ws g uuids t l s = Inr (k, out, s0)" and t: "recuite_type (my_attribute k) = t"
      "t \<noteq> recuite_type (my_attribute l)" for t k out s0
  proof -
    let ?a = "(my_attribute l)\<lparr>diamond := to_int32 (diamond (my_attribute l) -
      update_diamond_cost (hero_update_config g ! nat (t - 1)))\<rparr>"
    have "k \<noteq> l" using t by auto
    with r obtain l' out' where ref: "refresh_random_hero ws g uuids (l\<lparr>my_attribute := ?a\<rparr>) s = Inr (l', out', s0)"
      and k: "rand_hero k = rand_hero l'"
      by (auto simp: RecruitRequestService_def Let_def bind_r_eq_Inr split: if_split_asm)
    from refresh_attribute [OF _ ref] k show ?thesis by auto
  qed
  from this [OF assms(1,2,5)] this [OF assms(3,4,6)] show ?thesis by auto
qed

subsection \<open>Complete tables\<close>

text \<open>The tables of qualities are complete: five rows, and no range of numbers is empty.\<close>

definition wide :: "(int \<times> int) \<times> int \<times> int \<Rightarrow> bool" where
  "wide r = (case r of ((lo, hi), glo, ghi) \<Rightarrow> (word_of_int (hi - lo) :: u32) \<noteq> 0 \<and> (word_of_int (ghi - glo) :: u32) \<noteq> 0)"

definition rules_ok :: "hero_rules \<Rightarrow> bool" where
  "rules_ok g \<longleftrightarrow> hero_update_config g \<noteq> [] \<and> 5 \<le> length (hero_base_config g) \<and>
     (\<forall>c\<in>set (hero_base_config g). \<forall>r\<in>set (ranges c). wide r)"

lemma roll_ok: "(word_of_int (hi - lo) :: u32) \<noteq> 0 \<Longrightarrow> \<exists>a s1. roll ws lo hi s = Inr (a, s1)"
  by (simp add: roll_def Let_def split: prod.splits)

lemma roll_all_ok: "(\<And>r. r \<in> set rs \<Longrightarrow> wide r) \<Longrightarrow> \<exists>xs s1. roll_all ws g rs s = Inr (xs, s1)"
proof (induction rs arbitrary: s)
  case (Cons r rs)
  obtain lo hi glo ghi where r: "r = ((lo, hi), glo, ghi)" by (metis prod.exhaust)
  have "wide r" using Cons.prems by simp
  then have w: "(word_of_int (hi - lo) :: u32) \<noteq> 0" "(word_of_int (ghi - glo) :: u32) \<noteq> 0" by (simp_all add: wide_def r)
  from roll_ok [OF w(1), of ws s] obtain a s1 where a: "roll ws lo hi s = Inr (a, s1)" by blast
  from roll_ok [OF w(2), of ws s1] obtain b s2 where b: "roll ws glo ghi s1 = Inr (b, s2)" by blast
  from Cons.IH [of s2] Cons.prems obtain xs s3 where "roll_all ws g rs s2 = Inr (xs, s3)" by auto
  with a b show ?case by (simp add: r)
qed simp

lemma pick_quality_range: "pick_quality ws qs s = (q, s1) \<Longrightarrow> q = 1 \<or> q \<in> fst ` set qs"
  by (induction ws qs s rule: pick_quality.induct) (auto simp: Let_def split: if_splits prod.splits)

lemma random_quality_ok:
  assumes "rules_ok g"
  shows "\<exists>q s1. random_quality ws g ty s = Inr (q, s1) \<and> 1 \<le> q \<and> q \<le> 5"
proof -
  define t where "t = (if ty \<le> 0 \<or> int (length (hero_update_config g)) < ty then 1 else ty)"
  have "0 \<le> t - 1 \<and> t - 1 < int (length (hero_update_config g))" using assms by (auto simp: rules_ok_def t_def)
  then obtain c where c: "at (hero_update_config g) (t - 1) = Inr c" by (simp add: at_def)
  obtain q s1 where q: "pick_quality ws [(5, start5 c), (4, start4 c), (3, start3 c), (2, start2 c), (1, start1 c)] s = (q, s1)"
    by fastforce
  have "1 \<le> q \<and> q \<le> 5" using pick_quality_range [OF q] by auto
  moreover have "random_quality ws g ty s = Inr (q, s1)"
    unfolding random_quality_def Let_def t_def [symmetric] c bind_r_simps q ..
  ultimately show ?thesis by blast
qed

lemma quality_keeps:
  "deal ws i att free h s = Inr (h', s') \<Longrightarrow> hero_quality h' = hero_quality h"
proof (induction att arbitrary: i free h s)
  case (Cons ag att)
  then show ?case
    by (auto simp: Let_def split: prod.splits if_split_asm) (simp_all add: set_att_def Let_def split: prod.splits)
qed simp

lemma random_hero_ok:
  assumes "rules_ok g"
  shows "is_ok (random_hero ws g ty sn uuid s)"
proof -
  from random_quality_ok [OF assms, of ws ty s] obtain q s1 where q: "random_quality ws g ty s = Inr (q, s1)" "1 \<le> q" "q \<le> 5"
    by blast
  have len: "5 \<le> length (hero_base_config g)" using assms by (simp add: rules_ok_def)
  then have row: "at (hero_base_config g) (q - 1) = Inr (hero_base_config g ! nat (q - 1))" using q by simp
  define c where "c = hero_base_config g ! nat (q - 1)"
  have "hero_base_config g \<noteq> []" using len by auto
  then have "c \<in> set (hero_base_config g)" using q len by (simp add: c_def)
  then have w: "wide r" if "r \<in> set (ranges c)" for r using assms that by (auto simp: rules_ok_def)
  have "\<not> int (length (hero_base_config g)) \<le> q - 1" using len q by linarith
  then have qr: "quality_row g q = Inr c"
    using row q \<open>hero_base_config g \<noteq> []\<close> by (cases "q = 1") (simp_all add: quality_row_def Let_def c_def)
  from roll_all_ok [OF w, where ws = ws and g = g and s = s1] obtain rolls s2 where rolls: "roll_all ws g (ranges c) s1 = Inr (rolls, s2)" by blast
  from attributes_are_dealt_all [OF qr rolls] obtain h s3
    where h: "get_hero_att ws g q (new_hero sn uuid q) s1 = Inr (h, s3)" by blast
  have "hero_quality h = q"
    using h qr rolls by (auto simp: get_hero_att_def new_hero_def dest: quality_keeps)
  then have "\<exists>h1. HeroBaseAttCaculate g h = Inr h1" using q len row by (simp add: HeroBaseAttCaculate_def Let_def at_def)
  then show ?thesis using q(1) h row by (auto simp: random_hero_def at_def)
qed

lemma refresh_heroes_ok: "rules_ok g \<Longrightarrow> is_ok (refresh_heroes ws g i uuids l s)"
proof (induction uuids arbitrary: i l s)
  case (Cons uuid uuids)
  from random_hero_ok [OF Cons.prems] obtain h s1
    where h: "random_hero ws g (recuite_type (my_attribute l)) (int i + 1) uuid s = Inr (h, s1)"
    unfolding is_ok_ex by (metis prod.exhaust)
  let ?l = "l\<lparr>rand_hero := (rand_hero l)[i := Some h]\<rparr>"
  from Cons.IH [OF Cons.prems, of "Suc i" ?l s1] h show ?case
    by (cases "refresh_heroes ws g (Suc i) uuids ?l s1") (auto simp: Let_def split: prod.splits)
qed simp

lemma recruit_never_fails:
  assumes "rules_ok g"
  shows "is_ok (RecruitRequestService ws g uuids ty l s)"
proof -
  have "\<exists>l1 out s1. refresh_random_hero ws g uuids l' s = Inr (l1, out, s1)" for l'
  proof -
    obtain u1 u2 u3 where u: "uuids = (u1, u2, u3)" by (metis prod_cases3)
    from refresh_heroes_ok [OF assms, of ws 0 "[u1, u2, u3]" l' s]
    obtain l1 out hs s1 where "refresh_heroes ws g 0 [u1, u2, u3] l' s = Inr (l1, out, hs, s1)"
      unfolding is_ok_ex by (metis prod_cases4)
    then show ?thesis by (simp add: refresh_random_hero_def u del: refresh_heroes.simps)
  qed
  then have "is_ok (bind_r (refresh_random_hero ws g uuids l' s) (\<lambda>(l1, out, s1). Inr (f l1 out s1)))"
    for l' and f :: "login_worker \<Rightarrow> effect list \<Rightarrow> random_util \<Rightarrow> login_worker \<times> effect list \<times> random_util"
    by (metis (mono_tags, lifting) bind_r_simps(2) case_prod_conv is_ok_simps(2))
  then show ?thesis unfolding RecruitRequestService_def Let_def by simp
qed

lemma hero_steps_never_fail:
  assumes "rules_ok g" and "\<And>e sn. e \<in> set es \<Longrightarrow> e \<noteq> DropHero sn"
  shows "\<exists>ls' out. hero_steps ws g es ls = Inr (ls', out)"
  using assms(2)
proof (induction es arbitrary: ls)
  case (Cons e es)
  obtain l s where ls: "ls = (l, s)" by fastforce
  have "\<exists>ls1 out1. hero_step ws g e ls = Inr (ls1, out1)"
  proof (cases e)
    case (Recruit uuids ty)
    with recruit_never_fails [OF assms(1), of ws uuids ty l s] show ?thesis
      by (auto simp: hero_step_def ls is_ok_ex)
  qed (use Cons.prems [of e] in \<open>auto simp: hero_step_def ls split: prod.splits\<close>)
  then obtain ls1 out1 where "hero_step ws g e ls = Inr (ls1, out1)" by blast
  with Cons.IH [of ls1] Cons.prems show ?case by force
qed simp

subsection \<open>Examples\<close>

definition some_stock :: hero_stock where
  "some_stock = \<lparr>s_min = 1, s_min_grow = 1, s_max = 30, s_max_grow = 9, s_min_limit_max = 9, s_min_limit_grow = 4,
     s_max_limit_min = 20, s_max_limit_grow = 4, goods_space = 6, max_space = 9, stock_hp = 100, stock_mp = 50,
     stock_attack = 10, stock_defence = 5\<rparr>"

definition some_rules :: hero_rules where
  "some_rules = \<lparr>hero_update_config =
       [\<lparr>update_diamond_cost = 1, start1 = 1000, start2 = 0, start3 = 0, start4 = 0, start5 = 0\<rparr>,
        \<lparr>update_diamond_cost = 5, start1 = 0, start2 = 0, start3 = 0, start4 = 0, start5 = 1000\<rparr>,
        \<lparr>update_diamond_cost = 9, start1 = 0, start2 = 0, start3 = 0, start4 = 0, start5 = 1000\<rparr>],
     hero_base_config = replicate 5 some_stock,
     float_of = id, float_int = word_of_int, hundredth = id, trunc = (\<lambda>x. int (unat x)), fiftieth = (\<lambda>x. int (unat x) div 50)\<rparr>"

definition some_numbers :: "u32 list" where
  "some_numbers = map of_nat [3, 14, 15, 92, 65, 35, 89, 79, 32, 38, 46, 26, 43, 38, 32, 79, 50, 28, 84, 19, 71, 69, 39, 93, 75,
     10, 58, 20, 97, 49, 44, 59, 23, 7, 81, 64, 6, 28, 62, 8, 99, 86, 28, 3, 48, 25, 34, 21, 17, 6, 79, 82, 14, 80, 86, 51]"

definition beginner :: login_worker where
  "beginner = (trader ''eve'' 7)\<lparr>my_attribute := (my_attribute (trader ''eve'' 7))\<lparr>recuite_type := 3\<rparr>\<rparr>"

lemma beginner_ok: "heroes_ok beginner"
proof -
  have "my_hero beginner = replicate 6 None" "rand_hero beginner = replicate 3 None" by (simp_all add: beginner_def trader_def)
  then show ?thesis by (intro heroes_okI) (simp_all add: nth_replicate)
qed

lemma some_rules_ok: "rules_ok some_rules"
  by (simp add: rules_ok_def some_rules_def some_stock_def ranges_def wide_def)

theorem attributes_are_dealt_witness:
  "\<exists>rolls s1 h' s'. roll_all some_numbers some_rules (ranges some_stock) random_start = Inr (rolls, s1) \<and>
    get_hero_att some_numbers some_rules 2 (new_hero 1 ''a'' 2) random_start = Inr (h', s') \<and> mset (attributes_of h') = mset rolls \<and>
    1 \<le> hero_type h' \<and> hero_type h' \<le> 5 \<and> attributes_of h' ! nat (hero_type h' - 1) = hd rolls"
proof -
  have "quality_row some_rules 2 = Inr some_stock"
    by (simp add: quality_row_def some_rules_def at_def)
  moreover have "\<exists>rolls s1. roll_all some_numbers some_rules (ranges some_stock) random_start = Inr (rolls, s1)"
    by (rule roll_all_ok) (auto simp: ranges_def wide_def some_stock_def)
  ultimately show ?thesis using attributes_are_dealt by blast
qed

lemma beginner_recruits:
  assumes "ty = 1 \<or> ty = 2"
  shows "\<exists>l1 out s1. RecruitRequestService some_numbers some_rules (''a'', ''b'', ''c'') ty beginner random_start = Inr (l1, out, s1) \<and>
    recuite_type (my_attribute l1) = ty"
proof -
  obtain l1 out s1 where r: "RecruitRequestService some_numbers some_rules (''a'', ''b'', ''c'') ty beginner random_start = Inr (l1, out, s1)"
    using recruit_never_fails [OF some_rules_ok, of some_numbers "(''a'', ''b'', ''c'')" ty beginner random_start]
    by (cases "RecruitRequestService some_numbers some_rules (''a'', ''b'', ''c'') ty beginner random_start") auto
  moreover have "recuite_type (my_attribute l1) = ty"
    using r assms by (auto simp: RecruitRequestService_def Let_def bind_r_eq_Inr some_rules_def beginner_def split: if_split_asm)
  ultimately show ?thesis by blast
qed

theorem paid_type_applies_next_time_witness:
  "\<exists>l1 out1 s1 l2 out2 s2.
    RecruitRequestService some_numbers some_rules (''a'', ''b'', ''c'') 1 beginner random_start = Inr (l1, out1, s1) \<and>
    RecruitRequestService some_numbers some_rules (''a'', ''b'', ''c'') 2 beginner random_start = Inr (l2, out2, s2) \<and>
    recuite_type (my_attribute l1) = 1 \<and> recuite_type (my_attribute l2) = 2 \<and> rand_hero l1 = rand_hero l2"
proof -
  obtain l1 out1 s1 where 1: "RecruitRequestService some_numbers some_rules (''a'', ''b'', ''c'') 1 beginner random_start = Inr (l1, out1, s1)"
    "recuite_type (my_attribute l1) = 1" using beginner_recruits [of 1] by auto
  obtain l2 out2 s2 where 2: "RecruitRequestService some_numbers some_rules (''a'', ''b'', ''c'') 2 beginner random_start = Inr (l2, out2, s2)"
    "recuite_type (my_attribute l2) = 2" using beginner_recruits [of 2] by auto
  have "recuite_type (my_attribute beginner) = 3" by (simp add: beginner_def)
  with paid_type_applies_next_time [OF 1 2] 1 2 show ?thesis by simp
qed

definition some_events :: "hero_event list" where
  "some_events = [Recruit (''a'', ''b'', ''c'') 1, GetRandHero 1, GetRandHero 2, AppointHero ''a'' 4, AppointHero ''b'' 4]"

lemma some_events_run: "\<exists>ls' out. hero_steps some_numbers some_rules some_events (beginner, random_start) = Inr (ls', out)"
  by (rule hero_steps_never_fail [OF some_rules_ok]) (auto simp: some_events_def)

theorem one_hero_per_job_witness:
  "\<exists>ls' out. hero_steps some_numbers some_rules some_events (beginner, random_start) = Inr (ls', out) \<and> heroes_ok (fst ls')"
proof -
  obtain ls' out where r: "hero_steps some_numbers some_rules some_events (beginner, random_start) = Inr (ls', out)"
    using some_events_run by blast
  have "heroes_ok (fst (beginner, random_start))" by (simp add: beginner_ok)
  from one_hero_per_job [OF r this] r show ?thesis by blast
qed

theorem heroes_are_never_dropped_witness:
  "\<exists>ls' out. hero_steps some_numbers some_rules some_events (beginner, random_start) = Inr (ls', out) \<and>
    DropHeroRequestService 1 (fst ls') = Inr (fst ls', [Simple_answer DropHeroRequest_ID (-2)])"
proof -
  obtain ls' out where r: "hero_steps some_numbers some_rules some_events (beginner, random_start) = Inr (ls', out)"
    using some_events_run by blast
  have "heroes_ok (fst (beginner, random_start))" by (simp add: beginner_ok)
  from heroes_are_never_dropped [OF r this, of 1] r show ?thesis by auto
qed

end
