(* ===== verification/Chat_Redis.thy ===== *)
theory Chat_Redis
  imports Heroes
begin

section \<open>The gateway's use of Redis\<close>

text \<open>
  Models \<open>module/redis_base.cpp\<close> (one command and its reply) and the commands and readers
  of \<open>gateway_server/database/redis_chat_worker.cpp\<close>. The server is the parameter \<open>R\<close> of
  \<open>Redis_Client\<close>: a command is text, a lost connection replies with the null pointer. The
  text of a float is a parameter too.
\<close>

record float_text =
  show_float :: "float_bits \<Rightarrow> string"
  atof :: "string \<Rightarrow> float_bits"
  int_float :: "int \<Rightarrow> float_bits"

definition SimpleWriter :: "'c redis \<Rightarrow> string \<Rightarrow> ('c, unit) db" where
  "SimpleWriter R sql = (\<lambda>c. case R sql c of (None, _) \<Rightarrow> Inl NullPointer | (Some _, c') \<Rightarrow> Inr ((), c'))"

text \<open>
  A reader whose reply is an error gives the null pointer, which every caller but one reads
  without a test.
\<close>

definition SimplerReader :: "'c redis \<Rightarrow> string \<Rightarrow> ('c, reply) db" where
  "SimplerReader R sql = (\<lambda>c. case R sql c of (None, _) \<Rightarrow> Inl NullPointer
     | (Some (Reply_error _), _) \<Rightarrow> Inl NullPointer | (Some r, c') \<Rightarrow> Inr (r, c'))"

subsection \<open>Commands that write\<close>

definition set_backpack_num :: "int \<Rightarrow> u32 \<Rightarrow> string" where
  "set_backpack_num num u = ''HSET user#'' @ decimal (unat u) @ '' backpack_num '' @ gameToString num"

definition set_city_hall_sql :: "string \<Rightarrow> u32 \<Rightarrow> string" where
  "set_city_hall_sql sn u = ''HSET user#'' @ decimal (unat u) @ ''  city_hall_uuid '' @ sn"

definition set_combat_uuid_sql :: "string \<Rightarrow> u32 \<Rightarrow> string" where
  "set_combat_uuid_sql sn u = ''HSET user#'' @ decimal (unat u) @ ''  combat_union_uid '' @ sn"

definition set_material_sql :: "int \<Rightarrow> int \<Rightarrow> int \<Rightarrow> int \<Rightarrow> u32 \<Rightarrow> string" where
  "set_material_sql w st i so u = ''HMSET user#'' @ decimal (unat u) @ '' abt#wood '' @ gameToString w @
     '' abt#stone '' @ gameToString st @ '' abt#ore '' @ gameToString i @ '' abt#concrete '' @ gameToString so"

definition set_player_base :: "int \<Rightarrow> int \<Rightarrow> int \<Rightarrow> u32 \<Rightarrow> string" where
  "set_player_base race points lv u = ''HMSET user#'' @ decimal (unat u) @ ''  abt#point '' @ gameToString points @
     ''  level '' @ gameToString lv @ '' race '' @ gameToString race"

definition set_buidl_num_sql :: "int \<Rightarrow> u32 \<Rightarrow> string" where
  "set_buidl_num_sql num u = ''HMSET user#'' @ decimal (unat u) @ ''  buildingsNum '' @ gameToString num"

definition set_my_build_num_sql :: "int \<Rightarrow> int \<Rightarrow> u32 \<Rightarrow> string" where
  "set_my_build_num_sql ty num u = ''HSET buildnum#'' @ decimal (unat u) @ ''  '' @ gameToString ty @ ''  '' @ gameToString num"

definition set_build_sql :: "float_text \<Rightarrow> build_data \<Rightarrow> u32 \<Rightarrow> string" where
  "set_build_sql io b u = ''HMSET build#'' @ decimal (unat u) @ ''#'' @ build_sn b @
     ''  build_sn  '' @ build_sn b @ '' x '' @ show_float io (build_x b) @ '' y '' @ show_float io (build_y b) @
     '' big_type '' @ gameToString (big_type b) @ '' status '' @ gameToString (status b) @
     '' ctime '' @ gameToString (ctime b) @ '' time '' @ gameToString (btime b) @
     '' build_type '' @ gameToString (build_type b) @ '' build_level '' @ gameToString (build_level b) @
     '' cur_hp '' @ gameToString (cur_hp b) @ ''  build_skin '' @ gameToString (build_skin b) @
     '' cur_resource '' @ gameToString (cur_resource b)"

definition set_build_timer_sql :: "string \<Rightarrow> u32 \<Rightarrow> string" where
  "set_build_timer_sql sn u = ''HSET timer#'' @ decimal (unat u) @ '' '' @ sn @ ''  0 ''"

definition del_build_timer :: "string \<Rightarrow> u32 \<Rightarrow> string" where
  "del_build_timer sn u = ''HDEL timer#'' @ decimal (unat u) @ '' '' @ sn"

text \<open>The command of \<open>set_equip\<close>, after the empty \<open>where_uuid\<close> was filled in.\<close>

definition set_equip_sql :: "equip \<Rightarrow> u32 \<Rightarrow> string" where
  "set_equip_sql e0 u = (let e = stored_equip e0 in
     ''HMSET equip#'' @ decimal (unat u) @ ''#'' @ equip_sn e @
     '' witch_pannle '' @ gameToString (witch_pannle e) @ '' position '' @ gameToString (position e) @
     '' equip_sn '' @ equip_sn e @ '' part '' @ gameToString (part e) @ '' quality '' @ gameToString (quality e) @
     '' level '' @ gameToString (equip_level e) @ '' attr1_type '' @ gameToString (attr1_type e) @
     '' attr1_value '' @ gameToString (attr1_value e) @ '' attr2_type '' @ gameToString (attr2_type e) @
     '' attr2_value '' @ gameToString (attr2_value e) @ '' extral1_type '' @ gameToString (extral1_type e) @
     '' extral1_value '' @ gameToString (extral1_value e) @ '' extral2_type '' @ gameToString (extral2_type e) @
     '' extral2_value '' @ gameToString (extral2_value e) @ '' diamond_cost '' @ gameToString (diamond_cost e) @
     '' where_uuid '' @ where_uuid e)"

definition del_equip_sql :: "string \<Rightarrow> u32 \<Rightarrow> string" where
  "del_equip_sql sn u = ''DEL equip#'' @ decimal (unat u) @ ''#'' @ sn"

definition set_market_sql :: "market_goods \<Rightarrow> string" where
  "set_market_sql r = ''HMSET market#'' @ goods_sn r @ '' player '' @ goods_player r @
     '' remain_time '' @ gameToString (remain_time r) @ '' diamond_cost '' @ gameToString (goods_cost r) @
     '' goods_type '' @ gameToString (goods_type r) @ '' position '' @ gameToString (goods_position r) @
     '' equip_sn '' @ goods_sn r @ '' part '' @ gameToString (goods_part r) @
     '' quality '' @ gameToString (goods_quality r) @ '' level '' @ gameToString (goods_level r) @
     '' attr1_type '' @ gameToString (goods_attr1_type r) @ '' attr1_value '' @ gameToString (goods_attr1_value r) @
     '' attr2_type '' @ gameToString (goods_attr2_type r) @ '' attr2_value '' @ gameToString (goods_attr2_value r) @
     '' extral1_type '' @ gameToString (goods_extral1_type r) @ '' extral1_value '' @ gameToString (goods_extral1_value r) @
     '' extral2_type '' @ gameToString (goods_extral2_type r) @ '' extral2_value '' @ gameToString (goods_extral2_value r)"

definition del_market_sql :: "string \<Rightarrow> string" where
  "del_market_sql sn = ''DEL market#'' @ sn"

definition set_recurite_sql :: "int \<Rightarrow> int \<Rightarrow> u32 \<Rightarrow> string" where
  "set_recurite_sql ty num u = ''HMSET user#'' @ decimal (unat u) @ ''  recurite_type '' @ gameToString ty @
     ''  chance_num '' @ gameToString num"

text \<open>The fields of a hero, each with the blanks around its name.\<close>

definition hero_texts :: "float_text \<Rightarrow> hero \<Rightarrow> (string \<times> string) list" where
  "hero_texts io h = (let b = base_att h in
     [(''  hero_sn '', gameToString (hero_sn h)), (''  name '', hero_name h), (''  hero_uuid '', hero_uuid h),
      (''  quality '', gameToString (hero_quality h)), (''  level '', gameToString (hero_level h)),
      (''  leader '', show_float io (leader h)), (''  strategy '', show_float io (strategy h)),
      (''  economy '', show_float io (economy h)), (''  strength '', show_float io (strength h)),
      (''  magic_power '', show_float io (magic_power h)), (''  leader_grow '', show_float io (leader_grow h)),
      (''  strategy_grow '', show_float io (strategy_grow h)), (''  economy_grow '', show_float io (economy_grow h)),
      (''  strength_grow '', show_float io (strength_grow h)), (''  magic_power_grow '', show_float io (magic_power_grow h)),
      (''  cur_hp '', gameToString (hero_cur_hp h)), (''  max_hp '', gameToString (max_hp h)),
      (''  cur_mp '', gameToString (cur_mp h)), (''  max_mp '', gameToString (max_mp h)),
      (''  attack '', gameToString (attack h)), (''  defence '', gameToString (defence h)),
      (''  pre_skill '', gameToString (pre_skill h)), (''  study_skill '', gameToString (study_skill h)),
      (''  cur_goods_space '', gameToString (cur_goods_space h)), (''  max_goods_space '', gameToString (max_goods_space h)),
      (''  exp '', gameToString (exp_points h)), (''  type  '', gameToString (hero_type h)), (''  where '', gameToString (job h)),
      (''  base_leader  '', show_float io (base_leader b)), (''  base_strategy '', show_float io (base_strategy b)),
      (''  base_economy  '', show_float io (base_economy b)), (''  base_strength '', show_float io (base_strength b)),
      (''  base_magic_power  '', show_float io (base_magic_power b)), (''  base_hp '', show_float io (base_hp b)),
      (''  base_mp  '', show_float io (base_mp b)), (''  base_attack  '', show_float io (base_attack b)),
      (''  base_defence  '', show_float io (base_defence b))])"

definition set_hero_sql :: "float_text \<Rightarrow> hero \<Rightarrow> u32 \<Rightarrow> string" where
  "set_hero_sql io h u = ''HMSET hero#'' @ decimal (unat u) @ ''#'' @ hero_uuid h @
     concat (map (\<lambda>(name, text). name @ text) (hero_texts io h))"

definition del_hero_sql :: "string \<Rightarrow> u32 \<Rightarrow> string" where
  "del_hero_sql uuid u = ''DEL hero#'' @ decimal (unat u) @ ''#'' @ uuid"

text \<open>\<open>move_hero\<close> stops at the first place without a hero.\<close>

definition move_hero_sqls :: "hero option list \<Rightarrow> int \<Rightarrow> u32 \<Rightarrow> string list" where
  "move_hero_sqls hs start_index u =
     map (\<lambda>h. ''HSET hero#'' @ decimal (unat u) @ ''#'' @ hero_uuid (the h) @ '' hero_sn '' @ gameToString (hero_sn (the h)))
       (takeWhile (\<lambda>h. h \<noteq> None) (drop (nat start_index) hs))"

definition set_email_sale_sqls :: "email_sale \<Rightarrow> u32 \<Rightarrow> string list" where
  "set_email_sale_sqls r0 u = (let r = stored_email r0 in
     (''HMSET email_sale#'' @ decimal (unat u) @ ''#'' @ email_uuid r @ '' diamond '' @ gameToString (email_diamond r) @
      '' email_uuid  '' @ email_uuid r @ '' time '' @ gameToString (email_time r) @ '' other_name '' @ other_name r) #
     (if email_diamond r \<le> 0 then [set_equip_sql (email_equip r) u] else []))"

definition del_email_sale_sql :: "email_sale \<Rightarrow> u32 \<Rightarrow> string" where
  "del_email_sale_sql r u = ''DEL email_sale#'' @ decimal (unat u) @ ''#'' @ email_uuid r"

definition set_arm_max_level_sql :: "int \<Rightarrow> int \<Rightarrow> u32 \<Rightarrow> string" where
  "set_arm_max_level_sql ty lv u = ''HSET user#'' @ decimal (unat u) @ '' army#'' @ gameToString ty @ ''#max  '' @ gameToString lv"

text \<open>The commands of an operation, and their execution in order.\<close>

fun sqls_of :: "float_text \<Rightarrow> u32 \<Rightarrow> redis_call \<Rightarrow> string list" where
  "sqls_of io u (set_build b) = [set_build_sql io b u]"
| "sqls_of io u (set_build_timer sn) = [set_build_timer_sql sn u]"
| "sqls_of io u (set_buidl_num n) = [set_buidl_num_sql n u]"
| "sqls_of io u (set_my_build_num ty n) = [set_my_build_num_sql ty n u]"
| "sqls_of io u (set_material w st i so) = [set_material_sql w st i so u]"
| "sqls_of io u (set_arm_max_level ty lv) = [set_arm_max_level_sql ty lv u]"
| "sqls_of io u (set_equip e) = [set_equip_sql e u]"
| "sqls_of io u (del_equip sn) = [del_equip_sql sn u]"
| "sqls_of io u (set_email_sale r) = set_email_sale_sqls r u"
| "sqls_of io u (del_email_sale r) = [del_email_sale_sql r u]"
| "sqls_of io u (set_hero h) = [set_hero_sql io h u]"
| "sqls_of io u (del_hero uuid) = [del_hero_sql uuid u]"
| "sqls_of io u (move_hero hs i) = move_hero_sqls hs i u"
| "sqls_of io u (set_recurite ty n) = [set_recurite_sql ty n u]"
| "sqls_of io u (set_combat_uuid sn) = [set_combat_uuid_sql sn u]"
| "sqls_of io u (set_city_hall sn) = [set_city_hall_sql sn u]"
| "sqls_of io u (write_market g) = [set_market_sql g]"
| "sqls_of io u (delete_market sn) = [del_market_sql sn]"

text \<open>The commands among the effects of a handler.\<close>

definition sqls_out :: "float_text \<Rightarrow> effect list \<Rightarrow> string list" where
  "sqls_out io out = concat (map (\<lambda>e. case e of Redis u call \<Rightarrow> sqls_of io u call | _ \<Rightarrow> []) out)"

fun write_all :: "'c redis \<Rightarrow> string list \<Rightarrow> ('c, unit) db" where
  "write_all R [] = db_return ()"
| "write_all R (sql # sqls) = db_bind (SimpleWriter R sql) (\<lambda>_. write_all R sqls)"

subsection \<open>Readers\<close>

text \<open>A field of a reply, or its default when it is nil; the text is a C string.\<close>

definition int_or :: "int \<Rightarrow> string option \<Rightarrow> int" where
  "int_or d t = (case t of None \<Rightarrow> d | Some s \<Rightarrow> atoi (cstr s))"

definition long_or :: "int \<Rightarrow> string option \<Rightarrow> int" where
  "long_or d t = (case t of None \<Rightarrow> d | Some s \<Rightarrow> wrap_signed 64 (read_number (cstr s)))"

definition str_or :: "string \<Rightarrow> string option \<Rightarrow> string" where
  "str_or d t = (case t of None \<Rightarrow> d | Some s \<Rightarrow> cstr s)"

definition float_or :: "float_text \<Rightarrow> int \<Rightarrow> string option \<Rightarrow> float_bits" where
  "float_or io d t = (case t of None \<Rightarrow> int_float io d | Some s \<Rightarrow> atof io (cstr s))"

text \<open>A \<open>float\<close> member that is read with \<open>atoi\<close>.\<close>

definition int_as_float :: "float_text \<Rightarrow> string option \<Rightarrow> float_bits" where
  "int_as_float io t = int_float io (int_or 0 t)"

text \<open>
  A loop over the keys of a pattern: the fields of each key are read, a reply that is not an
  array is skipped.
\<close>

fun each_key :: "'c redis \<Rightarrow> (string \<Rightarrow> string) \<Rightarrow> (string option list \<Rightarrow> 's \<Rightarrow> crash + 's) \<Rightarrow> string option list \<Rightarrow> 's \<Rightarrow> ('c, 's) db" where
  "each_key R sql body [] s = db_return s"
| "each_key R sql body (k # ks) s = (case k of None \<Rightarrow> db_lift (Inl NullString)
     | Some key \<Rightarrow> db_bind (SimplerReader R (sql (cstr key))) (\<lambda>r. case r of
         Reply_array es \<Rightarrow> db_bind (db_lift (body es s)) (\<lambda>s1. each_key R sql body ks s1)
       | _ \<Rightarrow> each_key R sql body ks s))"

definition scan :: "'c redis \<Rightarrow> string \<Rightarrow> (string \<Rightarrow> string) \<Rightarrow> (string option list \<Rightarrow> 's \<Rightarrow> crash + 's) \<Rightarrow> 's \<Rightarrow> ('c, 's) db" where
  "scan R pattern sql body s = db_bind (SimplerReader R pattern) (\<lambda>r. case r of
     Reply_array ks \<Rightarrow> each_key R sql body ks s | _ \<Rightarrow> db_return s)"

text \<open>The first \<open>n\<close> fields of a reply; a shorter array is read past its end.\<close>

definition taking :: "nat \<Rightarrow> string option list \<Rightarrow> (string option list \<Rightarrow> crash + 'a) \<Rightarrow> crash + 'a" where
  "taking n es f = (if length es < n then Inl OutOfRange else f es)"

subsection \<open>The player\<close>

definition get_player :: "'c redis \<Rightarrow> u32 \<Rightarrow> attributes \<Rightarrow> ('c, attributes) db" where
  "get_player R u a = db_bind (SimplerReader R (''HMGET user#'' @ decimal (unat u) @
       '' abt#wood abt#stone abt#ore abt#concrete  abt#point  level  city_hall_uuid '' @
       '' coord#x  coord#y  race  backpack_num recurite_type chance_num  combat_union_uid '' @
       ''  groupId   group#position '')) (\<lambda>r. case r of
     Reply_array es \<Rightarrow> db_lift (taking 16 es (\<lambda>es. Inr (a\<lparr>
       wood := int_or 0 (es ! 0), stone := int_or 0 (es ! 1), iron := int_or 0 (es ! 2), soil := int_or 0 (es ! 3),
       player_record := int_or 0 (es ! 4), player_level := int_or 0 (es ! 5), city_hall_uuid := str_or ''no_uuid'' (es ! 6),
       worldmap_x := int_or (-1) (es ! 7), worldmap_y := int_or (-1) (es ! 8), player_race := int_or 0 (es ! 9),
       backpack_num := int_or 12 (es ! 10), recuite_type := int_or 0 (es ! 11), chance_num := int_or 0 (es ! 12),
       combat_uuid := str_or ''NoUUID'' (es ! 13), groupId := int_or (-1) (es ! 14), group_position := int_or (-1) (es ! 15)\<rparr>)))
   | _ \<Rightarrow> db_return a)"

definition build_of_fields :: "float_text \<Rightarrow> int \<Rightarrow> string option list \<Rightarrow> (string \<Rightarrow> build_data option) \<Rightarrow> crash + (string \<Rightarrow> build_data option)" where
  "build_of_fields io start_time es builds = bind_r (at es 0) (\<lambda>sn. case sn of None \<Rightarrow> Inr builds
     | Some sn \<Rightarrow> taking 12 es (\<lambda>es.
         let b = \<lparr>build_sn = cstr sn, big_type = int_or 0 (es ! 3), status = int_or 0 (es ! 4), ctime = long_or 0 (es ! 5),
               btime = long_or 0 (es ! 6), build_type = int_or 0 (es ! 7), build_level = int_or 0 (es ! 8), cur_hp = int_or 0 (es ! 9),
               build_skin = int_or 0 (es ! 10), cur_resource = int_or 0 (es ! 11), build_x = float_or io 0 (es ! 1),
               build_y = float_or io 0 (es ! 2)\<rparr>;
             b1 = (if big_type b = 2 \<and> status b = 0 then b\<lparr>btime := start_time - ctime b\<rparr> else b) in
         Inr (builds(build_sn b1 \<mapsto> b1))))"

definition get_build_map :: "'c redis \<Rightarrow> float_text \<Rightarrow> int \<Rightarrow> u32 \<Rightarrow> ('c, string \<Rightarrow> build_data option) db" where
  "get_build_map R io start_time u = scan R (''keys build#'' @ decimal (unat u) @ ''#* '')
     (\<lambda>key. ''HMGET '' @ key @ '' build_sn  x y big_type status ctime time build_type build_level cur_hp build_skin cur_resource'')
     (build_of_fields io start_time) Map.empty"

text \<open>Types and numbers of buildings, in pairs.\<close>

fun build_nums :: "string option list \<Rightarrow> (int \<Rightarrow> int option) \<Rightarrow> crash + (int \<Rightarrow> int option)" where
  "build_nums [] f = Inr f"
| "build_nums [t] f = Inl OutOfRange"
| "build_nums (t # n # es) f = build_nums es (f(int_or 0 t \<mapsto> int_or 0 n))"

definition get_my_build_num :: "'c redis \<Rightarrow> u32 \<Rightarrow> (int \<Rightarrow> int option) \<Rightarrow> ('c, int \<Rightarrow> int option) db" where
  "get_my_build_num R u f = db_bind (SimplerReader R (''HGETALL buildnum#'' @ decimal (unat u))) (\<lambda>r. case r of
     Reply_array es \<Rightarrow> db_lift (build_nums es f) | _ \<Rightarrow> db_return f)"

definition get_build_timer_list :: "'c redis \<Rightarrow> u32 \<Rightarrow> ('c, string list) db" where
  "get_build_timer_list R u = db_bind (SimplerReader R (''HKEYS timer#'' @ decimal (unat u) @ '' '')) (\<lambda>r. case r of
     Reply_array es \<Rightarrow> db_return (map (\<lambda>t. cstr (the t)) (filter (\<lambda>t. t \<noteq> None) es)) | _ \<Rightarrow> db_return [])"

subsection \<open>Heroes and items at login\<close>

text \<open>What \<open>get_equip_list\<close> fills in; the lists that are sent to the client are left out.\<close>

record loaded =
  l_heroes :: "hero option list"
  l_random :: "hero option list"
  l_equip :: "string \<Rightarrow> equip list option"
  l_status :: "bool list"
  l_backpack :: "equip list"
  l_letters :: "string \<Rightarrow> email_sale option"

definition hero_fields :: string where
  "hero_fields = '' hero_sn name hero_uuid quality level '' @
     '' leader strategy economy strength  magic_power  '' @
     '' leader_grow strategy_grow economy_grow strength_grow magic_power_grow '' @
     '' cur_hp max_hp cur_mp max_mp attack '' @
     '' defence pre_skill study_skill cur_goods_space max_goods_space '' @
     '' exp   type  where  base_leader base_strategy '' @
     '' base_economy   base_strength base_magic_power   base_hp base_mp'' @
     '' base_attack   base_defence ''"

definition hero_of_fields :: "float_text \<Rightarrow> string option list \<Rightarrow> hero" where
  "hero_of_fields io es = \<lparr>hero_sn = (let n = int_or 0 (es ! 0) in if 6 < n then 1 else n),
     hero_name = str_or ''NoName'' (es ! 1), hero_uuid = str_or ''NoUUID'' (es ! 2), hero_quality = int_or 1 (es ! 3),
     hero_level = int_or 1 (es ! 4), leader = float_or io 5 (es ! 5), strategy = float_or io 5 (es ! 6),
     economy = float_or io 5 (es ! 7), strength = float_or io 0 (es ! 8), magic_power = float_or io 0 (es ! 9),
     leader_grow = float_or io 0 (es ! 10), strategy_grow = float_or io 0 (es ! 11), economy_grow = float_or io 0 (es ! 12),
     strength_grow = float_or io 0 (es ! 13), magic_power_grow = float_or io 0 (es ! 14), hero_cur_hp = int_or 1 (es ! 15),
     max_hp = int_or 1 (es ! 16), cur_mp = int_or 1 (es ! 17), max_mp = int_or 1 (es ! 18), attack = int_or 1 (es ! 19),
     defence = int_or 0 (es ! 20), pre_skill = int_or 0 (es ! 21), study_skill = int_or 0 (es ! 22),
     cur_goods_space = int_or 1 (es ! 23), max_goods_space = int_or 1 (es ! 24), exp_points = int_or 0 (es ! 25),
     hero_type = int_or 0 (es ! 26), job = int_or 0 (es ! 27),
     base_att = \<lparr>base_leader = int_as_float io (es ! 28), base_strategy = int_as_float io (es ! 29),
       base_economy = int_as_float io (es ! 30), base_strength = int_as_float io (es ! 31),
       base_magic_power = int_as_float io (es ! 32), base_hp = int_as_float io (es ! 33), base_mp = int_as_float io (es ! 34),
       base_attack = int_as_float io (es ! 35), base_defence = int_as_float io (es ! 36)\<rparr>\<rparr>"

text \<open>A hero without a job is the player's, one with job 1 and a small number is on offer, others are forgotten.\<close>

definition place_hero :: "hero \<Rightarrow> loaded \<Rightarrow> crash + loaded" where
  "place_hero h d =
     (if job h \<le> 0 then
        if 1 \<le> hero_sn h \<and> hero_sn h \<le> int (length (l_heroes d))
        then Inr (d\<lparr>l_heroes := (l_heroes d)[nat (hero_sn h - 1) := Some h],
                    l_equip := (l_equip d)(hero_uuid h \<mapsto> replicate 6 no_equip)\<rparr>)
        else Inl OutOfRange
      else if job h = 1 \<and> 0 < hero_sn h \<and> hero_sn h < 4 then
        Inr (d\<lparr>l_random := (l_random d)[nat (hero_sn h - 1) := Some h]\<rparr>)
      else Inr d)"

definition load_hero :: "float_text \<Rightarrow> string option list \<Rightarrow> loaded \<Rightarrow> crash + loaded" where
  "load_hero io es d = bind_r (at es 0) (\<lambda>sn. case sn of None \<Rightarrow> Inr d
     | Some _ \<Rightarrow> taking 37 es (\<lambda>es. place_hero (hero_of_fields io es) d))"

definition get_all_hero :: "'c redis \<Rightarrow> float_text \<Rightarrow> u32 \<Rightarrow> loaded \<Rightarrow> ('c, loaded) db" where
  "get_all_hero R io u d = scan R (''keys hero#'' @ decimal (unat u) @ ''#*'') (\<lambda>key. ''HMGET '' @ key @ hero_fields) (load_hero io) d"

definition equip_fields :: string where
  "equip_fields = '' witch_pannle position equip_sn part quality '' @
     '' level attr1_type attr1_value attr2_type attr2_value '' @
     '' extral1_type extral1_value extral2_type extral2_value diamond_cost '' @ '' where_uuid ''"

definition equip_of_fields :: "string option list \<Rightarrow> equip" where
  "equip_of_fields es = \<lparr>witch_pannle = int_or 0 (es ! 0), where_uuid = str_or ''NoEquipUUID'' (es ! 15), position = int_or 0 (es ! 1),
     equip_sn = str_or ''FaliedEquip'' (es ! 2), part = int_or 0 (es ! 3), quality = int_or 0 (es ! 4),
     equip_level = int_or 0 (es ! 5), attr1_type = int_or 0 (es ! 6), attr1_value = int_or 0 (es ! 7),
     attr2_type = int_or 0 (es ! 8), attr2_value = int_or 0 (es ! 9), extral1_type = int_or 0 (es ! 10),
     extral1_value = int_or 0 (es ! 11), extral2_type = int_or 0 (es ! 12), extral2_value = int_or 0 (es ! 13),
     diamond_cost = int_or 0 (es ! 14)\<rparr>"

text \<open>
  \<open>blank\<close> is the letter that the map makes for a new key. The vector of a hero's items has
  the six places that \<open>place_hero\<close> made.
\<close>

definition place_equip :: "email_sale \<Rightarrow> equip \<Rightarrow> loaded \<Rightarrow> loaded" where
  "place_equip blank e d =
     (if witch_pannle e = 2 then
        let letter = (case l_letters d (where_uuid e) of None \<Rightarrow> blank | Some r \<Rightarrow> r) in
        d\<lparr>l_letters := (l_letters d)(where_uuid e \<mapsto> letter\<lparr>email_equip := e\<rparr>)\<rparr>
      else if witch_pannle e = 0 \<and> 0 \<le> position e \<and> position e < 64 then
        d\<lparr>l_status := (l_status d)[nat (position e) := True], l_backpack := (l_backpack d)[nat (position e) := e]\<rparr>
      else if witch_pannle e = 1 \<and> 0 \<le> position e \<and> position e < 6 then
        (case l_equip d (where_uuid e) of None \<Rightarrow> d
         | Some es \<Rightarrow> d\<lparr>l_equip := (l_equip d)(where_uuid e \<mapsto> es[nat (position e) := e])\<rparr>)
      else d)"

definition load_equip :: "email_sale \<Rightarrow> string option list \<Rightarrow> loaded \<Rightarrow> crash + loaded" where
  "load_equip blank es d = bind_r (at es 0) (\<lambda>w. case w of None \<Rightarrow> Inr d
     | Some _ \<Rightarrow> taking 16 es (\<lambda>es. Inr (place_equip blank (equip_of_fields es) d)))"

definition load_letter :: "email_sale \<Rightarrow> string option list \<Rightarrow> loaded \<Rightarrow> crash + loaded" where
  "load_letter blank es d = taking 4 es (\<lambda>es.
     let uuid = str_or ''NoUUID'' (es ! 0); letter = (case l_letters d uuid of None \<Rightarrow> blank | Some r \<Rightarrow> r) in
     Inr (d\<lparr>l_letters := (l_letters d)(uuid \<mapsto> letter\<lparr>email_uuid := uuid, email_diamond := int_or 0 (es ! 1),
        email_time := long_or 0 (es ! 2), other_name := str_or ''NoName'' (es ! 3)\<rparr>)\<rparr>))"

definition get_equip_list :: "'c redis \<Rightarrow> float_text \<Rightarrow> email_sale \<Rightarrow> u32 \<Rightarrow> loaded \<Rightarrow> ('c, loaded) db" where
  "get_equip_list R io blank u d =
     db_bind (get_all_hero R io u d) (\<lambda>d1.
     db_bind (scan R (''keys equip#'' @ decimal (unat u) @ ''#* '') (\<lambda>key. ''HMGET '' @ key @ equip_fields) (load_equip blank) d1) (\<lambda>d2.
     scan R (''keys email_sale#'' @ decimal (unat u) @ ''#*'')
       (\<lambda>key. ''HMGET '' @ key @ '' email_uuid diamond time other_name '') (load_letter blank) d2))"

subsection \<open>The market at start\<close>

definition goods_of_fields :: "int \<Rightarrow> string option list \<Rightarrow> market_goods" where
  "goods_of_fields start_time es = \<lparr>goods_player = str_or ''NoName'' (es ! 0),
     remain_time = max 0 (86400 - (start_time - long_or 0 (es ! 1))), goods_cost = int_or 1 (es ! 2), goods_type = int_or 0 (es ! 3),
     goods_position = int_or 0 (es ! 4), goods_sn = str_or [] (es ! 5), goods_part = int_or 1 (es ! 6), goods_quality = int_or 1 (es ! 7),
     goods_level = int_or 1 (es ! 8), goods_attr1_type = int_or 0 (es ! 9), goods_attr1_value = int_or 0 (es ! 10),
     goods_attr2_type = int_or 0 (es ! 11), goods_attr2_value = int_or 0 (es ! 12), goods_extral1_type = int_or 0 (es ! 13),
     goods_extral1_value = int_or 0 (es ! 14), goods_extral2_type = int_or 0 (es ! 15), goods_extral2_value = int_or 0 (es ! 16)\<rparr>"

definition load_goods :: "int \<Rightarrow> string option list \<Rightarrow> market \<Rightarrow> crash + market" where
  "load_goods start_time es m = bind_r (at es 0) (\<lambda>name. case name of None \<Rightarrow> Inr m
     | Some _ \<Rightarrow> bind_r (at es 5) (\<lambda>sn. case sn of None \<Rightarrow> Inr m
         | Some _ \<Rightarrow> taking 17 es (\<lambda>es. Inr (push_market (goods_of_fields start_time es) m))))"

definition get_market_list :: "'c redis \<Rightarrow> int \<Rightarrow> market \<Rightarrow> ('c, market) db" where
  "get_market_list R start_time m = scan R ''keys market#* '' (\<lambda>key. ''HMGET '' @ key @
     '' player remain_time diamond_cost goods_type position '' @ '' equip_sn part quality level attr1_type '' @
     '' attr1_value attr2_type attr2_value extral1_type extral1_value '' @ '' extral2_type extral2_value '')
     (load_goods start_time) m"

subsection \<open>Names\<close>

text \<open>A name may be all digits: the flag for that is never cleared.\<close>

definition check_string :: "string \<Rightarrow> bool" where
  "check_string s \<longleftrightarrow> s \<noteq> [] \<and> CHR '' '' \<notin> set s"

definition find_user_uuid :: "'c redis \<Rightarrow> string \<Rightarrow> ('c, u32 option) db" where
  "find_user_uuid R name = (if \<not> check_string name then db_return None
     else db_bind (SimplerReader R (''HGET nickname '' @ cstr name)) (\<lambda>r. case r of
       Reply_string s \<Rightarrow> db_return (Some (word_of_int (atoi (cstr s)))) | _ \<Rightarrow> db_return None))"

definition find_user_name :: "'c redis \<Rightarrow> u32 \<Rightarrow> ('c, string) db" where
  "find_user_name R u = db_bind (SimplerReader R (''HGET user#'' @ decimal (unat u) @ '' nickname '')) (\<lambda>r. case r of
     Reply_string s \<Rightarrow> db_return (cstr s) | _ \<Rightarrow> db_return ''Not Exsit Name'')"

definition exsit_user_name :: "'c redis \<Rightarrow> string \<Rightarrow> ('c, bool) db" where
  "exsit_user_name R name = (if \<not> check_string name then db_return False
     else db_bind (find_user_uuid R name) (\<lambda>u. db_return (u \<noteq> None)))"

text \<open>The two commands are written into an array of 128 characters.\<close>

definition set_user_name :: "'c redis \<Rightarrow> u32 \<Rightarrow> string \<Rightarrow> ('c, bool) db" where
  "set_user_name R u name = (if \<not> check_string name then db_return False
     else db_bind (find_user_uuid R name) (\<lambda>other.
       if other \<noteq> None then db_return False
       else
         let sql1 = ''HSET nickname '' @ cstr name @ '' '' @ gameToString (sint u);
             sql2 = ''HSET user#'' @ decimal (unat u) @ '' nickname '' @ cstr name in
         if 127 < length sql1 \<or> 127 < length sql2 then db_lift (Inl BufferOverflow)
         else db_bind (write_all R [sql1, sql2]) (\<lambda>_. db_return True)))"

definition get_random_name :: "'c redis \<Rightarrow> bool \<Rightarrow> ('c, string option) db" where
  "get_random_name R is_man = db_bind (SimplerReader R (if is_man then ''SPOP boy_name'' else ''SPOP girl_name'')) (\<lambda>r. case r of
     Reply_string s \<Rightarrow> db_return (Some (cstr s)) | _ \<Rightarrow> db_return None)"

text \<open>The name is not part of the command.\<close>

definition add_random_name :: "string \<Rightarrow> bool \<Rightarrow> string" where
  "add_random_name name is_man = (if is_man then ''SADD boy_name'' else ''SADD girl_name'')"

subsection \<open>Levels of arms\<close>

text \<open>Only here an error would be tolerated; the string of an integer reply is null.\<close>

definition get_arm_max_level :: "'c redis \<Rightarrow> int \<Rightarrow> u32 \<Rightarrow> ('c, int) db" where
  "get_arm_max_level R ty u = db_bind (SimplerReader R (''HGET user#'' @ decimal (unat u) @ '' army#'' @ gameToString ty @ ''#max''))
     (\<lambda>r. db_return (case r of Reply_string s \<Rightarrow> int_or 0 (Some s) | Reply_status s \<Rightarrow> int_or 0 (Some s) | _ \<Rightarrow> 0))"

fun arm_levels_of :: "nat list \<Rightarrow> string option list \<Rightarrow> (int \<Rightarrow> int option) \<Rightarrow> (int \<Rightarrow> int option)" where
  "arm_levels_of [] es f = f"
| "arm_levels_of (i # is) es f = (let lv = int_or 0 (es ! i) in
     arm_levels_of is es (if lv \<noteq> 0 then f(int i + 1 \<mapsto> lv) else f))"

definition get_all_arm_max_level :: "'c redis \<Rightarrow> int \<Rightarrow> u32 \<Rightarrow> ('c, int \<Rightarrow> int option) db" where
  "get_all_arm_max_level R max_arm_type u =
     db_bind (SimplerReader R (''HMGET user#'' @ decimal (unat u) @
       concat (map (\<lambda>i. '' army#'' @ gameToString i @ ''#max'') [1..max_arm_type]))) (\<lambda>r. case r of
     Reply_array es \<Rightarrow> db_lift (taking (nat max_arm_type) es (\<lambda>es. Inr (arm_levels_of [0..<nat max_arm_type] es Map.empty)))
   | _ \<Rightarrow> db_return Map.empty)"

end
