(* ===== verification/Hero_Store.thy ===== *)
theory Hero_Store
  imports Chat_Redis "HOL-Library.Sublist"
begin

section \<open>Heroes between two logins\<close>

text \<open>
  What \<open>set_hero\<close> writes and \<open>get_all_hero\<close> reads at the next login, for every server that
  does what Redis documents of hashes and patterns of keys.
\<close>

subsection \<open>The words of a command\<close>

text \<open>A command is split at blanks, of which several count as one.\<close>

fun words_from :: "string \<Rightarrow> string \<Rightarrow> string list" where
  "words_from w [] = (if w = [] then [] else [w])"
| "words_from w (c # s) = (if c = CHR '' '' then (if w = [] then [] else [w]) @ words_from [] s else words_from (w @ [c]) s)"

definition words :: "string \<Rightarrow> string list" where
  "words s = words_from [] s"

lemma words_from_text: "CHR '' '' \<notin> set v \<Longrightarrow> words_from w (v @ s) = words_from (w @ v) s"
  by (induction v arbitrary: w) auto

lemma words_from_blank: "words_from w (CHR '' '' # s) = (if w = [] then [] else [w]) @ words_from [] s"
  by simp

lemma words_from_append: "words_from w (a @ CHR '' '' # b) = words_from w (a @ [CHR '' '']) @ words_from [] b"
  by (induction a arbitrary: w) auto

lemma words_text_blank: "CHR '' '' \<notin> set v \<Longrightarrow> v \<noteq> [] \<Longrightarrow> words_from [] (v @ CHR '' '' # s) = v # words_from [] s"
  using words_from_text [of v "[]"] by simp

text \<open>A name with blanks around it.\<close>

definition spaced :: "string \<Rightarrow> bool" where
  "spaced s \<longleftrightarrow> s \<noteq> [] \<and> hd s = CHR '' '' \<and> last s = CHR '' '' \<and> length (words s) = 1"

definition name_of :: "string \<Rightarrow> string" where
  "name_of s = hd (words s)"

lemma words_spaced:
  assumes "spaced a"
  shows "words_from w (a @ s) = (if w = [] then [] else [w]) @ name_of a # words_from [] s"
proof -
  from assms obtain t where a: "a = CHR '' '' # t" by (cases a) (auto simp: spaced_def)
  have t: "words t = [name_of a]"
    using assms by (auto simp: spaced_def name_of_def words_def a length_Suc_conv)
  then have "t \<noteq> []" by (auto simp: words_def)
  then obtain b where b: "t = b @ [CHR '' '']" using assms by (metis a append_butlast_last_id last_ConsR spaced_def)
  have "words_from [] (t @ s) = words t @ words_from [] s"
    using words_from_append [of "[]" b s] by (simp add: b words_def)
  then show ?thesis by (simp add: a t)
qed

lemma words_pairs:
  assumes "list_all (\<lambda>(a, v). spaced a \<and> word v) ps" and "w \<noteq> []" and "CHR '' '' \<notin> set w"
  shows "words_from w (concat (map (\<lambda>(a, v). a @ v) ps)) = w # concat (map (\<lambda>(a, v). [name_of a, v]) ps)"
  using assms
proof (induction ps arbitrary: w)
  case (Cons p ps)
  obtain a v where p: "p = (a, v)" by fastforce
  then have a: "spaced a" and v: "v \<noteq> []" "CHR '' '' \<notin> set v" using Cons.prems(1) by (simp_all add: word_def)
  from words_from_text [OF v(2), of "[]"] Cons.IH [OF _ v] Cons.prems(1)
  show ?case by (simp add: p words_spaced [OF a] Cons.prems(2))
qed simp

subsection \<open>Hashes\<close>

text \<open>
  What Redis documents of hashes, for commands without a percent sign (which
  \<open>redisCommand\<close> would take for a format) and for keys that begin with \<open>K\<close>, under which
  nothing but hashes is kept. \<open>view c\<close> are the hashes of the server: HMSET stores the
  pairs in order, HMGET returns the fields' values and changes nothing, KEYS with a star
  at the end of plain text returns the keys with this prefix, each once.
\<close>

definition plain :: "string \<Rightarrow> bool" where
  "plain s \<longleftrightarrow> list_all (\<lambda>c. c \<notin> set ''*?[]^'' \<and> c \<noteq> CHR 0x5C) s"

definition no_format :: "string \<Rightarrow> bool" where
  "no_format s \<longleftrightarrow> CHR ''%'' \<notin> set s"

lemma no_format_simps [simp]: "no_format []" "no_format (c # s) \<longleftrightarrow> c \<noteq> CHR ''%'' \<and> no_format s"
  "no_format (s @ t) \<longleftrightarrow> no_format s \<and> no_format t"
  by (auto simp: no_format_def)

definition hashes_under :: "string \<Rightarrow> 'c redis \<Rightarrow> ('c \<Rightarrow> string \<Rightarrow> string \<Rightarrow> string option) \<Rightarrow> bool" where
  "hashes_under K R view \<longleftrightarrow>
     (\<forall>c cmd key ps. no_format cmd \<and> words cmd = ''HMSET'' # (K @ key) # concat (map (\<lambda>(f, v). [f, v]) ps) \<and> ps \<noteq> [] \<longrightarrow>
        (\<exists>s c'. R cmd c = (Some (Reply_status s), c') \<and>
           view c' = (view c)(K @ key := fold (\<lambda>(f, v) m. m(f \<mapsto> v)) ps (view c (K @ key))))) \<and>
     (\<forall>c cmd key fs. no_format cmd \<and> words cmd = ''HMGET'' # (K @ key) # fs \<and> fs \<noteq> [] \<longrightarrow>
        R cmd c = (Some (Reply_array (map (view c (K @ key)) fs)), c)) \<and>
     (\<forall>c cmd p. no_format cmd \<and> words cmd = [''keys'', K @ p @ ''*''] \<and> plain (K @ p) \<longrightarrow>
        (\<exists>ks. R cmd c = (Some (Reply_array (map Some ks)), c) \<and> distinct ks \<and>
           set ks = {k. view c k \<noteq> Map.empty \<and> prefix (K @ p) k}))"

lemma hashes_underD:
  assumes "hashes_under K R view" and "no_format cmd"
  shows "words cmd = ''HMSET'' # (K @ key) # concat (map (\<lambda>(f, v). [f, v]) ps) \<Longrightarrow> ps \<noteq> [] \<Longrightarrow>
      \<exists>s c'. R cmd c = (Some (Reply_status s), c') \<and>
        view c' = (view c)(K @ key := fold (\<lambda>(f, v) m. m(f \<mapsto> v)) ps (view c (K @ key)))"
    and "words cmd = ''HMGET'' # (K @ key) # fs \<Longrightarrow> fs \<noteq> [] \<Longrightarrow> R cmd c = (Some (Reply_array (map (view c (K @ key)) fs)), c)"
    and "words cmd = [''keys'', K @ p @ ''*''] \<Longrightarrow> plain (K @ p) \<Longrightarrow>
      \<exists>ks. R cmd c = (Some (Reply_array (map Some ks)), c) \<and> distinct ks \<and> set ks = {k. view c k \<noteq> Map.empty \<and> prefix (K @ p) k}"
  using assms unfolding hashes_under_def by blast+

lemma fold_upd_other: "f \<notin> fst ` set ps \<Longrightarrow> fold (\<lambda>(f, v) m. m(f \<mapsto> v)) ps m f = m f"
  by (induction ps arbitrary: m) auto

lemma fold_upd:
  "distinct (map fst ps) \<Longrightarrow> map (fold (\<lambda>(f, v) m. m(f \<mapsto> v)) ps m) (map fst ps) = map (\<lambda>p. Some (snd p)) ps"
proof (induction ps arbitrary: m)
  case (Cons p ps)
  obtain f v where p: "p = (f, v)" by fastforce
  with Cons.prems have "f \<notin> fst ` set ps" by simp
  with fold_upd_other [OF this, of "m(f \<mapsto> v)"] Cons p show ?case
    by (simp del: fun_upd_apply) simp
qed simp

subsection \<open>The texts of a hero\<close>

definition hero_names :: "string list" where
  "hero_names = [''hero_sn'', ''name'', ''hero_uuid'', ''quality'', ''level'', ''leader'', ''strategy'', ''economy'', ''strength'',
     ''magic_power'', ''leader_grow'', ''strategy_grow'', ''economy_grow'', ''strength_grow'', ''magic_power_grow'',
     ''cur_hp'', ''max_hp'', ''cur_mp'', ''max_mp'', ''attack'', ''defence'', ''pre_skill'', ''study_skill'', ''cur_goods_space'',
     ''max_goods_space'', ''exp'', ''type'', ''where'', ''base_leader'', ''base_strategy'', ''base_economy'', ''base_strength'',
     ''base_magic_power'', ''base_hp'', ''base_mp'', ''base_attack'', ''base_defence'']"

lemma words_hero_fields: "words hero_fields = hero_names"
  by code_simp

lemma distinct_hero_names: "distinct hero_names"
  by code_simp

text \<open>The names as \<open>set_hero\<close> writes them.\<close>

definition hero_spaces :: "string list" where
  "hero_spaces = [''  hero_sn '', ''  name '', ''  hero_uuid '', ''  quality '', ''  level '', ''  leader '',
     ''  strategy '', ''  economy '', ''  strength '', ''  magic_power '', ''  leader_grow '', ''  strategy_grow '',
     ''  economy_grow '', ''  strength_grow '', ''  magic_power_grow '', ''  cur_hp '', ''  max_hp '', ''  cur_mp '',
     ''  max_mp '', ''  attack '', ''  defence '', ''  pre_skill '', ''  study_skill '', ''  cur_goods_space '',
     ''  max_goods_space '', ''  exp '', ''  type  '', ''  where '', ''  base_leader  '', ''  base_strategy '',
     ''  base_economy  '', ''  base_strength '', ''  base_magic_power  '', ''  base_hp '', ''  base_mp  '', ''  base_attack  '',
     ''  base_defence  '']"

lemma hero_spaces: "map fst (hero_texts io h) = hero_spaces"
  by (simp add: hero_texts_def hero_spaces_def Let_def)

lemma hero_spaces_ok: "list_all spaced hero_spaces" "map name_of hero_spaces = hero_names"
  by code_simp+

text \<open>
  A hero that can be stored: his names are words, his numbers are \<open>int\<close>s, and his floats
  are printed as words, all without a percent sign.
\<close>

definition int32 :: "int \<Rightarrow> bool" where
  "int32 i \<longleftrightarrow> - (2 ^ 31) \<le> i \<and> i < 2 ^ 31"

definition storable :: "float_text \<Rightarrow> hero \<Rightarrow> bool" where
  "storable io h \<longleftrightarrow> word (hero_name h) \<and> word (hero_uuid h) \<and> no_format (hero_name h) \<and> no_format (hero_uuid h) \<and> hero_sn h \<le> 6 \<and>
     list_all int32 [hero_sn h, hero_quality h, hero_level h, hero_cur_hp h, max_hp h, cur_mp h, max_mp h, attack h, defence h,
       pre_skill h, study_skill h, cur_goods_space h, max_goods_space h, exp_points h, hero_type h, job h] \<and>
     list_all (\<lambda>x. word (show_float io x) \<and> no_format (show_float io x)) [leader h, strategy h, economy h, strength h, magic_power h, leader_grow h, strategy_grow h,
       economy_grow h, strength_grow h, magic_power_grow h, base_leader (base_att h), base_strategy (base_att h), base_economy (base_att h),
       base_strength (base_att h), base_magic_power (base_att h), base_hp (base_att h), base_mp (base_att h),
       base_attack (base_att h), base_defence (base_att h)]"

text \<open>
  What is read back of him: his floats are those that their printed texts give, the ones of
  his base as whole numbers, and the rest is as it was.
\<close>

definition reread :: "float_text \<Rightarrow> float_bits \<Rightarrow> float_bits" where
  "reread io x = atof io (show_float io x)"

definition reread_whole :: "float_text \<Rightarrow> float_bits \<Rightarrow> float_bits" where
  "reread_whole io x = int_float io (atoi (show_float io x))"

definition as_read :: "float_text \<Rightarrow> hero \<Rightarrow> hero" where
  "as_read io h = h\<lparr>leader := reread io (leader h), strategy := reread io (strategy h), economy := reread io (economy h),
     strength := reread io (strength h), magic_power := reread io (magic_power h), leader_grow := reread io (leader_grow h),
     strategy_grow := reread io (strategy_grow h), economy_grow := reread io (economy_grow h),
     strength_grow := reread io (strength_grow h), magic_power_grow := reread io (magic_power_grow h),
     base_att := \<lparr>base_leader = reread_whole io (base_leader (base_att h)), base_strategy = reread_whole io (base_strategy (base_att h)),
       base_economy = reread_whole io (base_economy (base_att h)), base_strength = reread_whole io (base_strength (base_att h)),
       base_magic_power = reread_whole io (base_magic_power (base_att h)), base_hp = reread_whole io (base_hp (base_att h)),
       base_mp = reread_whole io (base_mp (base_att h)), base_attack = reread_whole io (base_attack (base_att h)),
       base_defence = reread_whole io (base_defence (base_att h))\<rparr>\<rparr>"

lemma as_read_fields [simp]: "hero_sn (as_read io h) = hero_sn h" "job (as_read io h) = job h" "hero_uuid (as_read io h) = hero_uuid h"
  by (simp_all add: as_read_def)

lemma texts_are_words: "storable io h \<Longrightarrow> list_all (\<lambda>p. word (snd p)) (hero_texts io h)"
  by (simp add: storable_def hero_texts_def Let_def word_gameToString)

lemma atoi_text: "int32 i \<Longrightarrow> atoi (gameToString i) = i"
  by (simp add: int32_def atoi_def wrap_signed_id)

lemma hero_read_back:
  assumes "storable io h"
  shows "hero_of_fields io (map (\<lambda>p. Some (snd p)) (hero_texts io h)) = as_read io h"
proof -
  have i: "int_or d (Some (gameToString i)) = i" if "int32 i" for d i using that by (simp add: int_or_def atoi_text)
  have f: "float_or io d (Some (show_float io x)) = reread io x" if "word (show_float io x)" for d x
    using that by (simp add: float_or_def reread_def cstr_word)
  have w: "int_as_float io (Some (show_float io x)) = reread_whole io x" if "word (show_float io x)" for x
    using that by (simp add: int_as_float_def int_or_def reread_whole_def cstr_word)
  have t: "str_or d (Some s) = s" if "word s" for d s using that by (simp add: str_or_def cstr_word)
  show ?thesis using assms
    by (simp add: storable_def hero_of_fields_def hero_texts_def Let_def as_read_def i f w t nth_Cons' del: nth_Cons_numeral)
qed

lemma no_format_number: "no_format (gameToString i)" "no_format (decimal n)"
proof -
  have d: "no_format (decimal n)" for n
    using decimal_digits [of n] by (auto simp: no_format_def list_all_iff is_digit_def)
  then show "no_format (gameToString i)" "no_format (decimal n)" by (simp_all add: gameToString_def)
qed

lemma no_format_hero: "storable io h \<Longrightarrow> no_format (set_hero_sql io h u)"
  by (simp add: set_hero_sql_def hero_texts_def Let_def storable_def no_format_number)

lemma no_format_fields: "no_format hero_fields"
  by code_simp

subsection \<open>Writing and reading\<close>

definition hero_prefix :: "u32 \<Rightarrow> string" where
  "hero_prefix u = ''hero#'' @ decimal (unat u) @ ''#''"

definition hero_key :: "u32 \<Rightarrow> hero \<Rightarrow> string" where
  "hero_key u h = hero_prefix u @ hero_uuid h"

text \<open>The hashes of player \<open>u\<close>'s heroes are those of \<open>hs\<close>.\<close>

definition stores :: "float_text \<Rightarrow> u32 \<Rightarrow> hero list \<Rightarrow> (string \<Rightarrow> string \<Rightarrow> string option) \<Rightarrow> bool" where
  "stores io u hs m \<longleftrightarrow> (\<forall>k. prefix (hero_prefix u) k \<longrightarrow> m k \<noteq> Map.empty \<longrightarrow> k \<in> hero_key u ` set hs) \<and>
     (\<forall>h\<in>set hs. map (m (hero_key u h)) hero_names = map (\<lambda>p. Some (snd p)) (hero_texts io h))"

lemma set_decimal_text: "CHR '' '' \<notin> set (decimal n)" "CHR 0x00 \<notin> set (decimal n)"
  using set_gameToString [of _ "int n"] by (auto simp: gameToString_def)

lemma hero_prefix_text: "CHR '' '' \<notin> set (hero_prefix u)" "hero_prefix u \<noteq> []" "CHR 0x00 \<notin> set (hero_prefix u)"
  using set_decimal_text by (auto simp: hero_prefix_def)

lemma hero_key_text:
  assumes "word (hero_uuid h)"
  shows "CHR '' '' \<notin> set (hero_key u h)" "hero_key u h \<noteq> []" "cstr (hero_key u h) = hero_key u h"
  using assms hero_prefix_text [of u] by (auto simp: hero_key_def word_def intro!: cstr_no_nul)

lemma words_literal: "words (''HMSET '' @ s) = ''HMSET'' # words s" "words (''HMGET '' @ s) = ''HMGET'' # words s"
  "words (''keys '' @ s) = ''keys'' # words s"
  by (simp_all add: words_def)

abbreviation HERO :: string where
  "HERO \<equiv> ''hero#''"

definition hero_rest :: "u32 \<Rightarrow> hero \<Rightarrow> string" where
  "hero_rest u h = decimal (unat u) @ ''#'' @ hero_uuid h"

lemma hero_key_rest: "hero_key u h = HERO @ hero_rest u h"
  by (simp add: hero_key_def hero_prefix_def hero_rest_def)

lemma no_format_key: "no_format (hero_uuid h) \<Longrightarrow> no_format (hero_key u h)"
  by (simp add: hero_key_def hero_prefix_def no_format_number)

lemma words_set_hero:
  assumes "storable io h"
  shows "words (set_hero_sql io h u) = ''HMSET'' # hero_key u h #
    concat (map (\<lambda>(f, v). [f, v]) (map (\<lambda>p. (name_of (fst p), snd p)) (hero_texts io h)))"
proof -
  have ok: "list_all (\<lambda>(a, v). spaced a \<and> word v) (hero_texts io h)"
    using texts_are_words [OF assms] hero_spaces_ok(1) unfolding hero_spaces [symmetric, of io h]
    by (auto simp: list_all_iff)
  have "word (hero_uuid h)" using assms by (simp add: storable_def)
  note key = hero_key_text [OF this, of u]
  have "set_hero_sql io h u = ''HMSET '' @ hero_key u h @ concat (map (\<lambda>(a, v). a @ v) (hero_texts io h))"
    by (simp add: set_hero_sql_def hero_key_def hero_prefix_def)
  moreover have "words (hero_key u h @ t) = words_from (hero_key u h) t" for t
    using words_from_text [OF key(1), of "[]"] by (simp add: words_def)
  ultimately have "words (set_hero_sql io h u) = ''HMSET'' # words_from (hero_key u h) (concat (map (\<lambda>(a, v). a @ v) (hero_texts io h)))"
    by (simp only: words_literal)
  then show ?thesis
    using words_pairs [OF ok key(2,1)] by (simp add: comp_def case_prod_unfold)
qed

lemma set_hero_stores:
  assumes "hashes_under HERO R view" and "storable io h" and "SimpleWriter R (set_hero_sql io h u) c = Inr (x, c')"
  shows "map (view c' (hero_key u h)) hero_names = map (\<lambda>p. Some (snd p)) (hero_texts io h) \<and>
    (\<forall>k. k \<noteq> hero_key u h \<longrightarrow> view c' k = view c k)"
proof -
  let ?ps = "map (\<lambda>p. (name_of (fst p), snd p)) (hero_texts io h)"
  have names: "map fst ?ps = hero_names"
    using hero_spaces_ok(2) by (simp add: hero_spaces [symmetric, of io h] comp_def)
  then have "?ps \<noteq> []" by (auto simp: hero_names_def)
  from hashes_underD(1) [OF assms(1) no_format_hero [OF assms(2)] words_set_hero [OF assms(2), of u, unfolded hero_key_rest] this,
      where c = c] assms(3)
  have v: "view c' = (view c)(hero_key u h := fold (\<lambda>(f, v) m. m(f \<mapsto> v)) ?ps (view c (hero_key u h)))"
    by (auto simp: SimpleWriter_def hero_key_rest split: prod.splits option.splits)
  have "distinct (map fst ?ps)" unfolding names by (rule distinct_hero_names)
  from fold_upd [OF this, of "view c (hero_key u h)"] show ?thesis
    unfolding names by (simp add: v comp_def)
qed

text \<open>A hero that is stored replaces the one with his number.\<close>

lemma stores_set_hero:
  assumes "hashes_under HERO R view" and "storable io h" and "stores io u hs (view c)"
    and "SimpleWriter R (set_hero_sql io h u) c = Inr (x, c')"
  shows "stores io u (h # filter (\<lambda>h'. hero_uuid h' \<noteq> hero_uuid h) hs) (view c')"
proof -
  note w = set_hero_stores [OF assms(1,2,4)]
  have other: "hero_key u h' \<noteq> hero_key u h \<longleftrightarrow> hero_uuid h' \<noteq> hero_uuid h" for h' by (simp add: hero_key_def)
  have "k = hero_key u h \<or> k \<in> hero_key u ` {h' \<in> set hs. hero_uuid h' \<noteq> hero_uuid h}"
    if "prefix (hero_prefix u) k" "view c' k \<noteq> Map.empty" for k
  proof (cases "k = hero_key u h")
    case False
    then have "view c k \<noteq> Map.empty" using w that by auto
    then have "k \<in> hero_key u ` set hs" using assms(3) that(1) by (auto simp: stores_def)
    then obtain h' where "h' \<in> set hs" "k = hero_key u h'" by blast
    with False other show ?thesis by blast
  qed simp
  then show ?thesis using w assms(3) other by (auto simp: stores_def)
qed

text \<open>The heroes that are stored after \<open>hs\<close>, when those of \<open>old\<close> were before.\<close>

definition stored_after :: "hero list \<Rightarrow> hero list \<Rightarrow> hero list" where
  "stored_after hs old = foldl (\<lambda>hs h. h # filter (\<lambda>h'. hero_uuid h' \<noteq> hero_uuid h) hs) old hs"

lemma stored_after_simps [simp]: "stored_after [] old = old"
  "stored_after (h # hs) old = stored_after hs (h # filter (\<lambda>h'. hero_uuid h' \<noteq> hero_uuid h) old)"
  by (simp_all add: stored_after_def)

lemma stored_after_heroes:
  "list_all P hs \<Longrightarrow> list_all P old \<Longrightarrow> list_all P (stored_after hs old)"
  "distinct (map hero_uuid old) \<Longrightarrow> distinct (map hero_uuid (stored_after hs old))"
proof -
  have all: "list_all P hs \<Longrightarrow> list_all P old \<Longrightarrow> list_all P (stored_after hs old)" for hs old
  proof (induction hs arbitrary: old)
    case (Cons h hs)
    from Cons.prems have "list_all P (h # filter (\<lambda>h'. hero_uuid h' \<noteq> hero_uuid h) old)" by (simp add: list_all_iff)
    with Cons.IH Cons.prems(1) show ?case by simp
  qed simp
  then show "list_all P hs \<Longrightarrow> list_all P old \<Longrightarrow> list_all P (stored_after hs old)" .
  show "distinct (map hero_uuid old) \<Longrightarrow> distinct (map hero_uuid (stored_after hs old))"
  proof (induction hs arbitrary: old)
    case (Cons h hs)
    then have "distinct (map hero_uuid (h # filter (\<lambda>h'. hero_uuid h' \<noteq> hero_uuid h) old))"
      by (auto simp: distinct_map_filter)
    from Cons.IH [OF this] show ?case by simp
  qed simp
qed

lemma stores_all:
  assumes "hashes_under HERO R view" and "list_all (storable io) hs" and "stores io u old (view c)"
    and "write_all R (map (\<lambda>h. set_hero_sql io h u) hs) c = Inr (x, c')"
  shows "stores io u (stored_after hs old) (view c')"
  using assms(2-4)
proof (induction hs arbitrary: old c)
  case (Cons h hs)
  from Cons.prems(3) obtain y c1 where h: "SimpleWriter R (set_hero_sql io h u) c = Inr (y, c1)"
    and r: "write_all R (map (\<lambda>h. set_hero_sql io h u) hs) c1 = Inr (x, c')"
    by (auto simp: db_bind_eq_Inr)
  from stores_set_hero [OF assms(1) _ Cons.prems(2) h] Cons.prems(1)
  have "stores io u (h # filter (\<lambda>h'. hero_uuid h' \<noteq> hero_uuid h) old) (view c1)" by simp
  from Cons.IH [OF _ this r] Cons.prems(1) show ?case by simp
qed simp

fun place_all :: "hero list \<Rightarrow> loaded \<Rightarrow> crash + loaded" where
  "place_all [] d = Inr d"
| "place_all (h # hs) d = (case place_hero h d of Inl e \<Rightarrow> Inl e | Inr d1 \<Rightarrow> place_all hs d1)"

lemma each_key_heroes:
  assumes "hashes_under HERO R view" and "list_all (storable io) hs" and "\<forall>h\<in>set hs.
    map (view c (hero_key u h)) hero_names = map (\<lambda>p. Some (snd p)) (hero_texts io h)"
  shows "each_key R (\<lambda>key. ''HMGET '' @ key @ hero_fields) (load_hero io) (map (\<lambda>h. Some (hero_key u h)) hs) d c =
    (case place_all (map (as_read io) hs) d of Inl e \<Rightarrow> Inl e | Inr d' \<Rightarrow> Inr (d', c))"
  using assms(2,3)
proof (induction hs arbitrary: d)
  case (Cons h hs)
  then have ok: "storable io h" by simp
  then have "word (hero_uuid h)" and nf: "no_format (hero_uuid h)" by (simp_all add: storable_def)
  note key = hero_key_text [OF this(1), of u]
  have f: "hero_fields = CHR '' '' # tl hero_fields" by (simp add: hero_fields_def)
  have "words (hero_key u h @ hero_fields) = hero_key u h # words_from [] (tl hero_fields)"
    unfolding words_def by (subst f) (rule words_text_blank [OF key(1,2)])
  moreover have "words_from [] (tl hero_fields) = words hero_fields" unfolding words_def by (subst (2) f) simp
  ultimately have "words (''HMGET '' @ hero_key u h @ hero_fields) = ''HMGET'' # hero_key u h # hero_names"
    by (simp only: words_literal words_hero_fields)
  moreover have "no_format (''HMGET '' @ hero_key u h @ hero_fields)"
    using no_format_key [OF nf] no_format_fields by simp
  ultimately have "R (''HMGET '' @ hero_key u h @ hero_fields) c = (Some (Reply_array (map (view c (hero_key u h)) hero_names)), c)"
    using hashes_underD(2) [OF assms(1), where key = "hero_rest u h" and fs = hero_names] by (simp add: hero_key_rest hero_names_def)
  then have r: "SimplerReader R (''HMGET '' @ hero_key u h @ hero_fields) c =
      Inr (Reply_array (map (\<lambda>p. Some (snd p)) (hero_texts io h)), c)"
    using Cons.prems(2) by (simp add: SimplerReader_def hero_names_def)
  have "load_hero io (map (\<lambda>p. Some (snd p)) (hero_texts io h)) d = place_hero (as_read io h) d"
    using hero_read_back [OF ok] by (simp add: load_hero_def taking_def at_def) (simp add: hero_texts_def Let_def)
  with r Cons key(3) show ?case
    by (simp add: db_bind_def db_lift_def split: sum.splits)
qed simp

lemma login_places_heroes:
  assumes "hashes_under HERO R view" and "list_all (storable io) hs" and "distinct (map hero_uuid hs)" and "stores io u hs (view c)"
  shows "\<exists>hs'. mset hs' = mset hs \<and>
    get_all_hero R io u d c = (case place_all (map (as_read io) hs') d of Inl e \<Rightarrow> Inl e | Inr d' \<Rightarrow> Inr (d', c))"
proof -
  have w: "words (''keys '' @ hero_prefix u @ ''*'') = [''keys'', hero_prefix u @ ''*'']"
  proof -
    have "CHR '' '' \<notin> set (hero_prefix u @ ''*'')" using hero_prefix_text(1) [of u] by simp
    from words_from_text [OF this, of "[]" "[]"] show ?thesis by (simp add: words_literal) (simp add: words_def)
  qed
  have "plain (decimal (unat u))"
    using decimal_digits [of "unat u"] by (auto simp: plain_def list_all_iff is_digit_def)
  then have "plain (hero_prefix u)" by (simp add: hero_prefix_def plain_def)
  then have pl: "plain (HERO @ decimal (unat u) @ ''#'')" by (simp add: hero_prefix_def)
  have hp: "HERO @ (decimal (unat u) @ ''#'') = hero_prefix u" by (simp add: hero_prefix_def)
  then have cmd: "words (''keys '' @ hero_prefix u @ ''*'') = [''keys'', HERO @ (decimal (unat u) @ ''#'') @ ''*'']"
    unfolding w by (metis append_assoc)
  have "no_format (''keys '' @ hero_prefix u @ ''*'')" by (simp add: hero_prefix_def no_format_number)
  from hashes_underD(3) [OF assms(1) this cmd pl, where c = c, unfolded hp] obtain ks where
    r: "R (''keys '' @ hero_prefix u @ ''*'') c = (Some (Reply_array (map Some ks)), c)" and ks: "distinct ks"
      "set ks = {k. view c k \<noteq> Map.empty \<and> prefix (hero_prefix u) k}" by blast
  have "view c (hero_key u h) \<noteq> Map.empty" if "h \<in> set hs" for h
  proof
    assume "view c (hero_key u h) = Map.empty"
    moreover have "map (view c (hero_key u h)) hero_names = map (\<lambda>p. Some (snd p)) (hero_texts io h)"
      using assms(4) that by (simp add: stores_def)
    ultimately show False by (simp add: hero_names_def hero_texts_def Let_def)
  qed
  then have set_ks: "set ks = hero_key u ` set hs"
    using assms(4) ks(2) by (auto simp: stores_def hero_key_def)
  then have "ks \<in> lists (hero_key u ` set hs)" by auto
  then obtain hs' where hs': "ks = map (hero_key u) hs'" "set hs' \<subseteq> set hs" by (auto simp: lists_image)
  have inj: "inj_on (hero_key u) (set hs)"
    using assms(3) by (auto simp: inj_on_def hero_key_def distinct_map)
  then have "set hs' = set hs" using set_ks hs' by (metis inj_on_image_eq_iff list.set_map order_refl)
  moreover have "distinct hs'" "distinct hs" using ks(1) hs'(1) assms(3) by (simp_all add: distinct_map)
  ultimately have perm: "mset hs' = mset hs" using set_eq_iff_mset_eq_distinct by blast
  have "list_all (storable io) hs'" using assms(2) hs'(2) by (auto simp: list_all_iff)
  from each_key_heroes [OF assms(1) this, of c u] assms(4) hs'(2)
  have "each_key R (\<lambda>key. ''HMGET '' @ key @ hero_fields) (load_hero io) (map (\<lambda>h. Some (hero_key u h)) hs') d c =
      (case place_all (map (as_read io) hs') d of Inl e \<Rightarrow> Inl e | Inr d' \<Rightarrow> Inr (d', c))"
    by (auto simp: stores_def)
  moreover have "SimplerReader R (''keys hero#'' @ decimal (unat u) @ ''#*'') c = Inr (Reply_array (map (\<lambda>h. Some (hero_key u h)) hs'), c)"
    using r by (simp add: SimplerReader_def hero_prefix_def hs'(1) comp_def)
  ultimately have "get_all_hero R io u d c = (case place_all (map (as_read io) hs') d of Inl e \<Rightarrow> Inl e | Inr d' \<Rightarrow> Inr (d', c))"
    by (simp add: get_all_hero_def scan_def db_bind_def)
  with perm show ?thesis by blast
qed

text \<open>The places of the heroes without a job.\<close>

definition idle :: "hero \<Rightarrow> bool" where
  "idle h \<longleftrightarrow> job h \<le> 0"

definition place_of :: "hero \<Rightarrow> nat" where
  "place_of h = nat (hero_sn h - 1)"

definition placeable :: "hero list \<Rightarrow> bool" where
  "placeable hs \<longleftrightarrow> (\<forall>h\<in>set hs. idle h \<longrightarrow> 1 \<le> hero_sn h \<and> hero_sn h \<le> 6) \<and> distinct (map place_of (filter idle hs))"

lemma placeable_perm: "mset hs = mset hs' \<Longrightarrow> placeable hs = placeable hs'"
  unfolding placeable_def
  by (metis mset_eq_imp_distinct_iff mset_eq_setD mset_filter mset_map)

lemma place_hero_idle:
  assumes "idle h" and "1 \<le> hero_sn h" and "hero_sn h \<le> 6" and "length (l_heroes d) = 6"
  shows "\<exists>d'. place_hero h d = Inr d' \<and> l_heroes d' = (l_heroes d)[place_of h := Some h]"
  using assms by (simp add: place_hero_def idle_def place_of_def)

lemma place_hero_busy: "\<not> idle h \<Longrightarrow> \<exists>d'. place_hero h d = Inr d' \<and> l_heroes d' = l_heroes d"
  by (simp add: place_hero_def idle_def)

lemma place_all_heroes:
  assumes "placeable hs" and "length (l_heroes d) = 6"
  shows "\<exists>d'. place_all hs d = Inr d' \<and> length (l_heroes d') = 6 \<and>
    (\<forall>h\<in>set hs. idle h \<longrightarrow> l_heroes d' ! place_of h = Some h) \<and>
    (\<forall>i. i \<notin> place_of ` {h \<in> set hs. idle h} \<longrightarrow> l_heroes d' ! i = l_heroes d ! i)"
  using assms
proof (induction hs arbitrary: d)
  case (Cons h hs)
  show ?case
  proof (cases "idle h")
    case True
    then have sn: "1 \<le> hero_sn h" "hero_sn h \<le> 6" and tl: "placeable hs"
      and fresh: "place_of h \<notin> place_of ` {h \<in> set hs. idle h}"
      using Cons.prems(1) by (auto simp: placeable_def)
    from place_hero_idle [OF True sn Cons.prems(2)] obtain d1 where
      d1: "place_hero h d = Inr d1" "l_heroes d1 = (l_heroes d)[place_of h := Some h]" by blast
    then have len: "length (l_heroes d1) = 6" using Cons.prems(2) by simp
    from Cons.IH [OF tl len] obtain d' where d': "place_all hs d1 = Inr d'" "length (l_heroes d') = 6"
      "\<forall>h\<in>set hs. idle h \<longrightarrow> l_heroes d' ! place_of h = Some h"
      "\<forall>i. i \<notin> place_of ` {h \<in> set hs. idle h} \<longrightarrow> l_heroes d' ! i = l_heroes d1 ! i" by blast
    have "place_of h < 6" using sn by (simp add: place_of_def)
    then have "l_heroes d' ! place_of h = Some h" using d'(4) fresh d1(2) Cons.prems(2) by simp
    moreover have "l_heroes d' ! i = l_heroes d ! i" if "i \<notin> place_of ` {h' \<in> set (h # hs). idle h'}" for i
    proof -
      have "place_of h \<noteq> i" "i \<notin> place_of ` {h \<in> set hs. idle h}" using that True by auto
      with d'(4) d1(2) show ?thesis by simp
    qed
    ultimately show ?thesis using d1(1) d' by auto
  next
    case False
    then have tl: "placeable hs" using Cons.prems(1) by (simp add: placeable_def)
    from place_hero_busy [OF False, of d] obtain d1 where d1: "place_hero h d = Inr d1" "l_heroes d1 = l_heroes d" by blast
    then have len: "length (l_heroes d1) = 6" using Cons.prems(2) by simp
    have same: "{h' \<in> set (h # hs). idle h'} = {h \<in> set hs. idle h}" using False by auto
    from Cons.IH [OF tl len] d1 False show ?thesis unfolding same by auto
  qed
qed simp

lemma read_place [simp]: "idle (as_read io h) = idle h" "place_of (as_read io h) = place_of h"
  by (simp_all add: idle_def place_of_def)

lemma placeable_read: "placeable (map (as_read io) hs) = placeable hs"
  by (simp add: placeable_def filter_map comp_def)

text \<open>
  C25. Heroes without a job come back. Whatever heroes a player had stored, and whatever
  heroes are stored then, one after the other and as often as it happens: the next login
  succeeds; each hero that was last stored without a job is in his place, with the floats
  that their printed texts give, those of his base as whole numbers, and the rest as it
  was; and no other place is taken, so a hero with a job is lost. The heroes can be stored
  (\<open>storable\<close>), no two of those without a job have the same place, and Redis keeps
  hashes under the keys of heroes.
\<close>

theorem idle_heroes_come_back:
  assumes "hashes_under HERO R view" and "list_all (storable io) (hs @ old)" and "distinct (map hero_uuid old)"
    and "stores io u old (view c)" and "write_all R (map (\<lambda>h. set_hero_sql io h u) hs) c = Inr (x, c')"
    and "placeable (stored_after hs old)" and "l_heroes d = replicate 6 None"
  shows "\<exists>d'. get_all_hero R io u d c' = Inr (d', c') \<and>
    (\<forall>h\<in>set (stored_after hs old). idle h \<longrightarrow> l_heroes d' ! place_of h = Some (as_read io h)) \<and>
    (\<forall>i k. i < 6 \<longrightarrow> l_heroes d' ! i = Some k \<longrightarrow>
      (\<exists>h\<in>set (stored_after hs old). idle h \<and> place_of h = i \<and> k = as_read io h))"
proof -
  let ?hs = "stored_after hs old"
  have st: "list_all (storable io) ?hs" "distinct (map hero_uuid ?hs)"
    using assms(2,3) by (simp_all add: stored_after_heroes)
  have "stores io u ?hs (view c')" using stores_all [OF assms(1) _ assms(4,5)] assms(2) by simp
  from login_places_heroes [OF assms(1) st this] obtain hs' where perm: "mset hs' = mset ?hs"
    and get: "get_all_hero R io u d c' = (case place_all (map (as_read io) hs') d of Inl e \<Rightarrow> Inl e | Inr d' \<Rightarrow> Inr (d', c'))" by blast
  have set: "set hs' = set ?hs" using perm by (rule mset_eq_setD)
  have pl: "placeable (map (as_read io) hs')" using placeable_perm [OF perm] assms(6) by (simp add: placeable_read)
  have "length (l_heroes d) = 6" using assms(7) by simp
  with pl obtain d' where d': "place_all (map (as_read io) hs') d = Inr d'" "length (l_heroes d') = 6"
    "\<forall>k\<in>set (map (as_read io) hs'). idle k \<longrightarrow> l_heroes d' ! place_of k = Some k"
    "\<forall>i. i \<notin> place_of ` {k \<in> set (map (as_read io) hs'). idle k} \<longrightarrow> l_heroes d' ! i = l_heroes d ! i"
    using place_all_heroes by blast
  have "l_heroes d' ! place_of h = Some (as_read io h)" if "h \<in> set ?hs" "idle h" for h
    using d'(3) that unfolding set_map set by auto
  moreover have "\<exists>h\<in>set ?hs. idle h \<and> place_of h = i \<and> k = as_read io h" if "i < 6" "l_heroes d' ! i = Some k" for i k
  proof (cases "i \<in> place_of ` {k \<in> set (map (as_read io) hs'). idle k}")
    case True
    then obtain h where h: "h \<in> set ?hs" "idle h" "place_of h = i" using set by auto
    with calculation that(2) show ?thesis by auto
  next
    case False
    then have "l_heroes d' ! i = l_heroes d ! i" using d'(4) by blast
    with that show ?thesis by (simp add: assms(7))
  qed
  ultimately show ?thesis using get d'(1) by auto
qed

subsection \<open>A server with hashes\<close>

fun pair_up :: "'a list \<Rightarrow> ('a \<times> 'a) list" where
  "pair_up (f # v # rest) = (f, v) # pair_up rest"
| "pair_up _ = []"

definition hash_of :: "(string \<times> (string \<times> string) list) list \<Rightarrow> string \<Rightarrow> (string \<times> string) list" where
  "hash_of c key = (case map_of c key of None \<Rightarrow> [] | Some ps \<Rightarrow> ps)"

definition hash_view :: "(string \<times> (string \<times> string) list) list \<Rightarrow> string \<Rightarrow> string \<Rightarrow> string option" where
  "hash_view c key = map_of (hash_of c key)"

definition some_server :: "(string \<times> (string \<times> string) list) list redis" where
  "some_server cmd c =
     (case words cmd of
        w # key # rest \<Rightarrow>
          if w = ''HMSET'' then (Some (Reply_status ''OK''), (key, rev (pair_up rest) @ hash_of c key) # c)
          else if w = ''HMGET'' then (Some (Reply_array (map (hash_view c key) rest)), c)
          else if w = ''keys'' then
            (Some (Reply_array (map Some (filter (\<lambda>k. hash_of c k \<noteq> [] \<and> prefix (butlast key) k) (remdups (map fst c))))), c)
          else (Some (Reply_error ''unknown command''), c)
      | _ \<Rightarrow> (Some (Reply_error ''unknown command''), c))"

lemma pair_up_concat: "pair_up (concat (map (\<lambda>(f, v). [f, v]) ps)) = ps"
  by (induction ps) auto

lemma map_of_rev_append: "map_of (rev ps @ old) = fold (\<lambda>(f, v) m. m(f \<mapsto> v)) ps (map_of old)"
proof (induction ps arbitrary: old)
  case (Cons p ps)
  obtain f v where p: "p = (f, v)" by fastforce
  from Cons.IH [of "(f, v) # old"] show ?case by (simp add: p)
qed simp

lemma some_server_ok: "hashes_under K some_server hash_view"
proof -
  have set: "\<exists>s c'. some_server cmd c = (Some (Reply_status s), c') \<and>
      hash_view c' = (hash_view c)(key := fold (\<lambda>(f, v) m. m(f \<mapsto> v)) ps (hash_view c key))"
    if "words cmd = ''HMSET'' # key # concat (map (\<lambda>(f, v). [f, v]) ps)" for c cmd key ps
  proof -
    let ?c = "(key, rev ps @ hash_of c key) # c"
    have "hash_view ?c = (hash_view c)(key := map_of (rev ps @ hash_of c key))"
      by (simp add: hash_view_def hash_of_def fun_eq_iff)
    then have "hash_view ?c = (hash_view c)(key := fold (\<lambda>(f, v) m. m(f \<mapsto> v)) ps (hash_view c key))"
      by (simp only: map_of_rev_append hash_view_def)
    with that show ?thesis by (simp add: some_server_def pair_up_concat)
  qed
  have get: "some_server cmd c = (Some (Reply_array (map (hash_view c key) fs)), c)" if "words cmd = ''HMGET'' # key # fs" for c cmd key fs
    using that by (simp add: some_server_def)
  have keys: "\<exists>ks. some_server cmd c = (Some (Reply_array (map Some ks)), c) \<and> distinct ks \<and>
      set ks = {k. hash_view c k \<noteq> Map.empty \<and> prefix p k}" if "words cmd = [''keys'', p @ ''*'']" for c cmd p
  proof -
    have "hash_view c k \<noteq> Map.empty \<longleftrightarrow> hash_of c k \<noteq> []" for k by (auto simp: hash_view_def)
    moreover have "hash_of c k \<noteq> [] \<Longrightarrow> k \<in> fst ` set c" for k
      by (auto simp: hash_of_def split: option.splits dest!: map_of_SomeD intro: rev_image_eqI)
    ultimately have "set (filter (\<lambda>k. hash_of c k \<noteq> [] \<and> prefix p k) (remdups (map fst c))) =
        {k. hash_view c k \<noteq> Map.empty \<and> prefix p k}" by auto
    then show ?thesis using that
      by (intro exI [of _ "filter (\<lambda>k. hash_of c k \<noteq> [] \<and> prefix p k) (remdups (map fst c))"])
        (simp add: some_server_def)
  qed
  show ?thesis unfolding hashes_under_def
  proof (intro conjI allI impI; elim conjE)
    fix c cmd p
    assume "words cmd = [''keys'', K @ p @ ''*'']"
    then have "words cmd = [''keys'', (K @ p) @ ''*'']" by simp
    then show "\<exists>ks. some_server cmd c = (Some (Reply_array (map Some ks)), c) \<and> distinct ks \<and>
      set ks = {k. hash_view c k \<noteq> Map.empty \<and> prefix (K @ p) k}" by (rule keys)
  qed (erule set get)+
qed

lemma writes_succeed:
  assumes "hashes_under HERO R view" and "list_all (storable io) hs"
  shows "\<exists>c'. write_all R (map (\<lambda>h. set_hero_sql io h u) hs) c = Inr ((), c')"
  using assms(2)
proof (induction hs arbitrary: c)
  case (Cons h hs)
  let ?ps = "map (\<lambda>p. (name_of (fst p), snd p)) (hero_texts io h)"
  have r: "storable io h" using Cons.prems by simp
  have ne: "?ps \<noteq> []" by (simp add: hero_texts_def Let_def)
  from hashes_underD(1) [OF assms(1) no_format_hero [OF r] words_set_hero [OF r, of u, unfolded hero_key_rest] ne, where c = c]
  obtain s c1 where "R (set_hero_sql io h u) c = (Some (Reply_status s), c1)" by blast
  then have "SimpleWriter R (set_hero_sql io h u) c = Inr ((), c1)" by (simp add: SimpleWriter_def)
  with Cons.IH [of c1] Cons.prems show ?case by simp
qed simp

subsection \<open>Examples\<close>

definition whole_text :: float_text where
  "whole_text = \<lparr>show_float = (\<lambda>x. decimal (unat x)), atof = (\<lambda>s. word_of_int (read_number s)), int_float = word_of_int\<rparr>"

lemma decimal_text: "decimal n = gameToString (int n)"
  by (simp add: gameToString_def)

lemma new_hero_storable:
  "word uuid \<Longrightarrow> no_format uuid \<Longrightarrow> int32 sn \<Longrightarrow> sn \<le> 6 \<Longrightarrow> int32 stars \<Longrightarrow> storable whole_text (new_hero sn uuid stars)"
  using word_gameToString [of 0] word_def [of "''NoName''"]
  by (simp add: storable_def new_hero_def blank_base_def whole_text_def decimal_text no_format_number int32_def)

definition some_loaded :: loaded where
  "some_loaded = \<lparr>l_heroes = replicate 6 None, l_random = replicate 3 None, l_equip = Map.empty,
     l_status = replicate 64 False, l_backpack = replicate 64 no_equip, l_letters = Map.empty\<rparr>"

text \<open>A hero on offer is stored, taken by the player and stored again; another has a job.\<close>

definition offered_then_taken :: "hero list" where
  "offered_then_taken = [(new_hero 1 ''a'' 2)\<lparr>job := 1\<rparr>, new_hero 1 ''a'' 2, (new_hero 2 ''b'' 3)\<lparr>job := 4\<rparr>]"

lemma offered_storable: "list_all (storable whole_text) offered_then_taken"
  using new_hero_storable [of "''a''" 1 2] new_hero_storable [of "''b''" 2 3]
  by (simp add: offered_then_taken_def storable_def word_def int32_def)

lemma nothing_stored: "stores io u [] (hash_view [])"
  by (simp add: stores_def hash_view_def hash_of_def)

theorem idle_heroes_come_back_witness:
  "\<exists>c d'. get_all_hero some_server whole_text 7 some_loaded c = Inr (d', c) \<and>
    l_heroes d' ! 0 = Some (as_read whole_text (new_hero 1 ''a'' 2)) \<and> l_heroes d' ! 1 = None"
proof -
  obtain c where w: "write_all some_server (map (\<lambda>h. set_hero_sql whole_text h 7) offered_then_taken) [] = Inr ((), c)"
    using writes_succeed [OF some_server_ok offered_storable] by blast
  have after: "stored_after offered_then_taken [] = [(new_hero 2 ''b'' 3)\<lparr>job := 4\<rparr>, new_hero 1 ''a'' 2]"
    by (simp add: offered_then_taken_def new_hero_def)
  have pl: "placeable (stored_after offered_then_taken [])"
    by (simp add: after placeable_def idle_def new_hero_def)
  obtain d' where d': "get_all_hero some_server whole_text 7 some_loaded c = Inr (d', c)"
    "\<forall>h\<in>set (stored_after offered_then_taken []). idle h \<longrightarrow> l_heroes d' ! place_of h = Some (as_read whole_text h)"
    "\<forall>i k. i < 6 \<longrightarrow> l_heroes d' ! i = Some k \<longrightarrow>
      (\<exists>h\<in>set (stored_after offered_then_taken []). idle h \<and> place_of h = i \<and> k = as_read whole_text h)"
    using idle_heroes_come_back [OF some_server_ok _ _ nothing_stored w pl, of some_loaded] offered_storable
    by (auto simp: some_loaded_def)
  have "l_heroes d' ! 0 = Some (as_read whole_text (new_hero 1 ''a'' 2))"
    using d'(2) by (simp add: after idle_def place_of_def new_hero_def)
  moreover have "l_heroes d' ! 1 = None"
  proof (cases "l_heroes d' ! 1")
    case (Some k)
    have "(1 :: nat) < 6" by simp
    with d'(3) Some obtain h where "h \<in> set (stored_after offered_then_taken [])" "idle h" "place_of h = 1" by blast
    then show ?thesis by (auto simp: after idle_def new_hero_def place_of_def)
  qed
  ultimately show ?thesis using d'(1) by blast
qed

end
