(* ===== verification/Chat_Worker.thy ===== *)
theory Chat_Worker
  imports Chat_Redis
begin

section \<open>The chat of the gateway\<close>

text \<open>
  Models \<open>gateway_server/service/_chat_worker.cpp\<close>: the slots of the players who are online
  and the four services. A session is a number, a \<open>shared_ptr\<close> to its handler an option.
  What \<open>SendMessage\<close> sends is a list of sessions with their messages.
\<close>

definition MAX_CLIENT :: nat where
  "MAX_CLIENT = 20000"

definition CHAT_SERVICE_NUM :: nat where
  "CHAT_SERVICE_NUM = 4"

definition WorldChannelMsgRequest_ID :: int where "WorldChannelMsgRequest_ID = 1046"
definition FindFriendRequest_ID :: int where "FindFriendRequest_ID = 1049"

record Player =
  UUID :: u32
  chat_name :: string
  handerpointer :: "nat option"

record chat =
  remain_player_index :: "nat list"
  online_player_index :: "nat list"
  UUID_index_map :: "u32 \<Rightarrow> nat option"
  player :: "nat \<Rightarrow> Player"

definition no_player :: Player where
  "no_player = \<lparr>UUID = 0, chat_name = [], handerpointer = None\<rparr>"

text \<open>The constructor; the last index is taken first, so the first player gets 0.\<close>

definition ChatWorker :: chat where
  "ChatWorker = \<lparr>remain_player_index = rev [0..<MAX_CLIENT], online_player_index = [], UUID_index_map = Map.empty,
     player = (\<lambda>_. no_player)\<rparr>"

subsection \<open>Players come and go\<close>

text \<open>\<open>handler\<close> is the entry of the table of sessions: none, or a pointer that may be null.\<close>

definition OnlineNotify :: "'c redis \<Rightarrow> u32 \<Rightarrow> nat option option \<Rightarrow> chat \<Rightarrow> ('c, chat \<times> int) db" where
  "OnlineNotify R u handler w =
     (case handler of None \<Rightarrow> db_return (w, -1)
      | Some h \<Rightarrow>
          if remain_player_index w = [] then db_return (w, -1)
          else db_bind (find_user_name R u) (\<lambda>name.
            let index = last (remain_player_index w) in
            db_return (w\<lparr>remain_player_index := butlast (remain_player_index w),
                         UUID_index_map := (UUID_index_map w)(u \<mapsto> index),
                         online_player_index := online_player_index w @ [index],
                         player := (player w)(index := \<lparr>UUID = u, chat_name = name, handerpointer = h\<rparr>)\<rparr>,
                       int index)))"

definition OfflineNotify :: "u32 \<Rightarrow> chat \<Rightarrow> chat" where
  "OfflineNotify u w = (case UUID_index_map w u of None \<Rightarrow> w
     | Some i \<Rightarrow> w\<lparr>remain_player_index := remain_player_index w @ [i],
         player := (player w)(i := (player w i)\<lparr>handerpointer := None\<rparr>),
         online_player_index := filter (\<lambda>j. j \<noteq> i) (online_player_index w),
         UUID_index_map := (UUID_index_map w)(u := None)\<rparr>)"

subsection \<open>The services\<close>

datatype chat_response =
    WorldChannelMsgResponse int string string
  | PrivateChannelResponse int string string
  | FindFriendResponse int int string

text \<open>The index one past the array is let through.\<close>

definition SendMessage :: "chat_response \<Rightarrow> int \<Rightarrow> chat \<Rightarrow> crash + (nat \<times> chat_response) list" where
  "SendMessage msg index w =
     (if index < 0 \<or> int MAX_CLIENT < index then Inr []
      else if index = int MAX_CLIENT then Inl OutOfRange
      else Inr (case handerpointer (player w (nat index)) of None \<Rightarrow> [] | Some h \<Rightarrow> [(h, msg)]))"

fun send_each :: "chat_response \<Rightarrow> nat list \<Rightarrow> chat \<Rightarrow> crash + (nat \<times> chat_response) list" where
  "send_each msg [] w = Inr []"
| "send_each msg (i # is) w = (case SendMessage msg (int i) w of Inl c \<Rightarrow> Inl c
     | Inr out \<Rightarrow> (case send_each msg is w of Inl c \<Rightarrow> Inl c | Inr outs \<Rightarrow> Inr (out @ outs)))"

text \<open>The sender's slot is what his message says.\<close>

definition WorldChannelMsgRequestService :: "int \<Rightarrow> string \<Rightarrow> chat \<Rightarrow> crash + (nat \<times> chat_response) list" where
  "WorldChannelMsgRequestService my_index msg w =
     (if 0 \<le> my_index \<and> my_index < int MAX_CLIENT then
        send_each (WorldChannelMsgResponse my_index (chat_name (player w (nat my_index))) msg) (online_player_index w) w
      else Inr [])"

definition UnionChannelRequestService :: "int \<Rightarrow> string \<Rightarrow> chat \<Rightarrow> crash + (nat \<times> chat_response) list" where
  "UnionChannelRequestService my_index msg w = Inr []"

definition PrivateChannelRequestService :: "int \<Rightarrow> int \<Rightarrow> string \<Rightarrow> chat \<Rightarrow> crash + (nat \<times> chat_response) list" where
  "PrivateChannelRequestService my_index to_index msg w =
     (if my_index < 0 \<or> int MAX_CLIENT < my_index \<or> to_index < 0 \<or> int MAX_CLIENT < to_index then Inr []
      else if to_index = int MAX_CLIENT then Inl OutOfRange
      else if handerpointer (player w (nat to_index)) = None \<or> to_index = my_index then Inr []
      else if my_index = int MAX_CLIENT then Inl OutOfRange
      else SendMessage (PrivateChannelResponse my_index (chat_name (player w (nat my_index))) msg) to_index w)"

text \<open>
  A player who has a name but is not online leaves the answer as the constructor of
  \<open>FindFriendResponse\<close> left it: \<open>unset\<close>. Slot 0 cannot ask.
\<close>

definition FindFriendRequestService :: "'c redis \<Rightarrow> int \<times> int \<Rightarrow> int \<Rightarrow> string \<Rightarrow> chat \<Rightarrow> ('c, (nat \<times> chat_response) list) db" where
  "FindFriendRequestService R unset my_index name w =
     db_bind (find_user_uuid R name) (\<lambda>found.
       let res = (case found of
             Some u \<Rightarrow> if 0 < my_index \<and> my_index < int MAX_CLIENT then
                 (case UUID_index_map w u of
                    Some index \<Rightarrow> FindFriendResponse 0 (int index) (chat_name (player w index))
                  | None \<Rightarrow> FindFriendResponse (fst unset) (snd unset) [])
               else FindFriendResponse (-1) (snd unset) []
           | None \<Rightarrow> FindFriendResponse (-1) (snd unset) []) in
       db_lift (SendMessage res my_index w))"

text \<open>A request of the chat, after its text was unpacked.\<close>

datatype chat_request =
    WorldChannelMsgRequest int string
  | UnionChannelRequest int string
  | PrivateChannelRequest int int string
  | FindFriendRequest int string

definition Dispatch :: "'c redis \<Rightarrow> int \<times> int \<Rightarrow> chat_request \<Rightarrow> chat \<Rightarrow> ('c, (nat \<times> chat_response) list) db" where
  "Dispatch R unset request w = (case request of
     WorldChannelMsgRequest i msg \<Rightarrow> db_lift (WorldChannelMsgRequestService i msg w)
   | UnionChannelRequest i msg \<Rightarrow> db_lift (UnionChannelRequestService i msg w)
   | PrivateChannelRequest i j msg \<Rightarrow> db_lift (PrivateChannelRequestService i j msg w)
   | FindFriendRequest i name \<Rightarrow> FindFriendRequestService R unset i name w)"

text \<open>
  \<open>unpack index\<close> is what the text of a message gives for the service at \<open>index\<close>. The guard
  lets one index through that the array does not have.
\<close>

definition ChatProcess :: "'c redis \<Rightarrow> int \<times> int \<Rightarrow> int \<Rightarrow> (int \<Rightarrow> chat_request option) \<Rightarrow> chat \<Rightarrow> ('c, (nat \<times> chat_response) list) db" where
  "ChatProcess R unset msgid unpack w =
     (let index = msgid - WorldChannelMsgRequest_ID in
      case unpack index of None \<Rightarrow> db_return []
      | Some request \<Rightarrow>
          if index < 0 \<or> int CHAT_SERVICE_NUM < index then db_return []
          else if index = int CHAT_SERVICE_NUM then db_lift (Inl OutOfRange)
          else Dispatch R unset request w)"

subsection \<open>Slots\<close>

text \<open>
  Every slot is free or online, once; a player's slot is online and carries his number; who
  is online has a handler. A slot that is online but nobody's is stranded.
\<close>

definition chat_ok :: "chat \<Rightarrow> bool" where
  "chat_ok w \<longleftrightarrow> distinct (remain_player_index w @ online_player_index w) \<and>
     set (remain_player_index w @ online_player_index w) = {..<MAX_CLIENT} \<and>
     (\<forall>u i. UUID_index_map w u = Some i \<longrightarrow> i \<in> set (online_player_index w) \<and> UUID (player w i) = u) \<and>
     (\<forall>i \<in> set (online_player_index w). handerpointer (player w i) \<noteq> None)"

definition stranded :: "nat \<Rightarrow> chat \<Rightarrow> bool" where
  "stranded i w \<longleftrightarrow> i \<in> set (online_player_index w) \<and> (\<forall>u. UUID_index_map w u \<noteq> Some i)"

lemma chat_okD:
  assumes "chat_ok w"
  shows "distinct (remain_player_index w)" and "distinct (online_player_index w)"
    and "set (remain_player_index w) \<inter> set (online_player_index w) = {}"
    and "set (remain_player_index w) \<union> set (online_player_index w) = {..<MAX_CLIENT}"
    and "\<And>u i. UUID_index_map w u = Some i \<Longrightarrow> i \<in> set (online_player_index w) \<and> UUID (player w i) = u"
    and "\<And>i. i \<in> set (online_player_index w) \<Longrightarrow> handerpointer (player w i) \<noteq> None"
  using assms unfolding chat_ok_def by auto

lemma ChatWorker_ok: "chat_ok ChatWorker"
  by (auto simp: chat_ok_def ChatWorker_def)

lemma OfflineNotify_ok:
  assumes "chat_ok w"
  shows "chat_ok (OfflineNotify u w)"
proof (cases "UUID_index_map w u")
  case None
  with assms show ?thesis by (simp add: OfflineNotify_def)
next
  case (Some i)
  note ok = chat_okD [OF assms]
  from ok(5) [OF Some] have i: "i \<in> set (online_player_index w)" "UUID (player w i) = u" by auto
  then have "i \<notin> set (remain_player_index w)" using ok(3) by blast
  moreover have "u' = u" if "UUID_index_map w u' = Some i" for u' using ok(5) [OF that] i(2) by simp
  ultimately show ?thesis using ok i by (auto simp: chat_ok_def OfflineNotify_def Some)
qed

lemma OnlineNotify_ok:
  assumes "chat_ok w" and "OnlineNotify R u handler w c = Inr ((w', i), c')" and "handler \<noteq> Some None"
  shows "chat_ok w'"
proof (cases "w' = w")
  case False
  note ok = chat_okD [OF assms(1)]
  from False assms(2,3) obtain h name where ne: "remain_player_index w \<noteq> []"
    and w': "w' = w\<lparr>remain_player_index := butlast (remain_player_index w),
      UUID_index_map := (UUID_index_map w)(u \<mapsto> last (remain_player_index w)),
      online_player_index := online_player_index w @ [last (remain_player_index w)],
      player := (player w)(last (remain_player_index w) := \<lparr>UUID = u, chat_name = name, handerpointer = Some h\<rparr>)\<rparr>"
    by (auto simp: OnlineNotify_def db_bind_eq_Inr Let_def split: option.splits if_splits)
  from ne obtain rest n where r: "remain_player_index w = rest @ [n]" by (metis append_butlast_last_id)
  then have n: "n \<notin> set (online_player_index w)" "n \<notin> set rest" "n < MAX_CLIENT" "distinct rest"
      "set rest \<inter> set (online_player_index w) = {}" "insert n (set rest \<union> set (online_player_index w)) = {..<MAX_CLIENT}"
    using ok(1,3,4) by auto
  have "u' = u" if "UUID_index_map w u' = Some n" for u' using ok(5) [OF that] n(1) by simp
  moreover have "w' = w\<lparr>remain_player_index := rest, UUID_index_map := (UUID_index_map w)(u \<mapsto> n),
      online_player_index := online_player_index w @ [n],
      player := (player w)(n := \<lparr>UUID = u, chat_name = name, handerpointer = Some h\<rparr>)\<rparr>"
    using w' r by simp
  ultimately show ?thesis using ok(2,5,6) n unfolding chat_ok_def by auto
qed (use assms in simp)

text \<open>Logins and logouts, in the order in which the gateway makes them.\<close>

datatype chat_event =
    Online u32 nat
  | Offline u32

definition chat_step :: "'c redis \<Rightarrow> chat_event \<Rightarrow> chat \<Rightarrow> ('c, chat) db" where
  "chat_step R e w = (case e of
     Online u h \<Rightarrow> db_bind (OnlineNotify R u (Some (Some h)) w) (\<lambda>(w', i). db_return w')
   | Offline u \<Rightarrow> db_return (OfflineNotify u w))"

fun chat_run :: "'c redis \<Rightarrow> chat_event list \<Rightarrow> chat \<Rightarrow> ('c, chat) db" where
  "chat_run R [] w = db_return w"
| "chat_run R (e # es) w = db_bind (chat_step R e w) (chat_run R es)"

text \<open>What every step keeps, every run keeps.\<close>

lemma chat_run_keeps:
  assumes "\<And>e w c w' c'. P w \<Longrightarrow> chat_step R e w c = Inr (w', c') \<Longrightarrow> P w'" and "P w"
    and "chat_run R es w c = Inr (w', c')"
  shows "P w'"
  using assms(2,3)
proof (induction es arbitrary: w c)
  case (Cons e es)
  then show ?case using assms(1) by (fastforce simp: db_bind_eq_Inr)
qed simp

lemma chat_step_ok: "chat_ok w \<Longrightarrow> chat_step R e w c = Inr (w', c') \<Longrightarrow> chat_ok w'"
  by (auto simp: chat_step_def db_bind_eq_Inr split: chat_event.splits prod.splits
      dest: OnlineNotify_ok intro: OfflineNotify_ok)

lemma stranded_step:
  assumes "chat_ok w \<and> stranded i w" and "chat_step R e w c = Inr (w', c')"
  shows "chat_ok w' \<and> stranded i w'"
proof -
  have "stranded i w'"
  proof (cases e)
    case (Online u h)
    have "remain_player_index w \<noteq> [] \<Longrightarrow> last (remain_player_index w) \<noteq> i"
      using assms(1) chat_okD(3) [of w] last_in_set [of "remain_player_index w"] unfolding stranded_def by blast
    with assms Online show ?thesis
      by (auto simp: chat_step_def OnlineNotify_def db_bind_eq_Inr stranded_def Let_def split: if_splits)
  next
    case (Offline u)
    with assms show ?thesis
      by (auto simp: chat_step_def OfflineNotify_def stranded_def split: option.splits if_splits)
  qed
  moreover have "chat_ok w'" by (rule chat_step_ok [OF conjunct1 [OF assms(1)] assms(2)])
  ultimately show ?thesis by simp
qed

text \<open>
  C26. Every slot of the chat is free or online, once. After any logins and logouts the
  20000 slots are split between the two lists, a player's slot is online and carries his
  number, and who is online has a handler: a message to him is never written to a free slot.
\<close>

theorem chat_slots_are_split:
  assumes "chat_run R es ChatWorker c = Inr (w, c')"
  shows "chat_ok w"
  by (rule chat_run_keeps [of chat_ok, OF _ ChatWorker_ok assms]) (rule chat_step_ok)

lemma second_login_strands:
  assumes "chat_ok w" and "UUID_index_map w u = Some i" and "remain_player_index w \<noteq> []"
    and "chat_step R (Online u h) w c = Inr (w', c')"
  shows "chat_ok w' \<and> stranded i w'"
proof -
  note ok = chat_okD [OF assms(1)]
  have i: "i \<in> set (online_player_index w)" and one: "UUID_index_map w u' = Some i \<Longrightarrow> u' = u" for u'
    using ok(5) [OF assms(2)] ok(5) [of u' i] by auto
  have "last (remain_player_index w) \<noteq> i" using ok(3) i last_in_set [OF assms(3)] by auto
  then have "stranded i w'"
    using assms(3,4) i one
    by (auto simp: chat_step_def OnlineNotify_def db_bind_eq_Inr stranded_def Let_def split: if_splits)
  with chat_step_ok [OF assms(1,4)] show ?thesis ..
qed

text \<open>
  A second login strands a slot. When a player who is online logs in again before his
  logout was notified, his first slot stays in the list of the online ones whatever is
  notified afterwards: it is never free again, and keeps getting what is said to the world.
\<close>

theorem second_login_strands_slot:
  assumes "chat_ok w" and "UUID_index_map w u = Some i" and "remain_player_index w \<noteq> []"
    and "chat_run R (Online u h # es) w c = Inr (w', c')"
  shows "i \<in> set (online_player_index w') \<and> i \<notin> set (remain_player_index w') \<and> (\<forall>v. UUID_index_map w' v \<noteq> Some i)"
proof -
  from assms(4) obtain w1 c1 where s: "chat_step R (Online u h) w c = Inr (w1, c1)"
    and r: "chat_run R es w1 c1 = Inr (w', c')" by (auto simp: db_bind_eq_Inr)
  have "chat_ok w' \<and> stranded i w'"
    by (rule chat_run_keeps [of "\<lambda>w. chat_ok w \<and> stranded i w", OF _ second_login_strands [OF assms(1-3) s] r])
      (rule stranded_step)
  then show ?thesis using chat_okD(3) [of w'] by (auto simp: stranded_def)
qed

subsection \<open>What is said to the world\<close>

lemma send_each_all:
  assumes "\<forall>i\<in>set is. i < MAX_CLIENT \<and> handerpointer (player w i) \<noteq> None"
  shows "send_each msg is w = Inr (map (\<lambda>i. (the (handerpointer (player w i)), msg)) is)"
  using assms by (induction "is") (auto simp: SendMessage_def)

text \<open>
  Everybody hears the world. A message to the world goes to the handler of every slot
  that is online, once, in the order of the list, and none is out of the array.
\<close>

theorem world_hears_everyone:
  assumes "chat_ok w" and "0 \<le> my_index" and "my_index < int MAX_CLIENT"
  shows "WorldChannelMsgRequestService my_index msg w =
    Inr (map (\<lambda>i. (the (handerpointer (player w i)), WorldChannelMsgResponse my_index (chat_name (player w (nat my_index))) msg))
      (online_player_index w))"
proof -
  have "\<forall>i\<in>set (online_player_index w). i < MAX_CLIENT \<and> handerpointer (player w i) \<noteq> None"
    using chat_okD(4,6) [OF assms(1)] by auto
  with assms(2,3) show ?thesis by (simp add: WorldChannelMsgRequestService_def send_each_all)
qed

subsection \<open>Examples\<close>

text \<open>A server on which every player has the same name.\<close>

definition name_server :: "unit redis" where
  "name_server cmd c = (Some (Reply_string ''eve''), c)"

lemma name_server_name: "find_user_name name_server u () = Inr (cstr ''eve'', ())"
  by (simp add: find_user_name_def SimplerReader_def name_server_def db_bind_def)

lemma remain_start: "remain_player_index ChatWorker = rev [2..<MAX_CLIENT] @ [1, 0]"
proof -
  have "0 < MAX_CLIENT" "Suc 0 < MAX_CLIENT" by (simp_all add: MAX_CLIENT_def)
  then have "[0..<MAX_CLIENT] = 0 # Suc 0 # [Suc (Suc 0)..<MAX_CLIENT]" by (simp only: upt_conv_Cons)
  then have "[0..<MAX_CLIENT] = 0 # 1 # [2..<MAX_CLIENT]" by (simp only: One_nat_def numeral_2_eq_2)
  then show ?thesis by (simp add: ChatWorker_def)
qed

lemma online_step:
  assumes "remain_player_index w = rest @ [i]"
  shows "chat_step name_server (Online u h) w () = Inr (w\<lparr>remain_player_index := rest,
     UUID_index_map := (UUID_index_map w)(u \<mapsto> i), online_player_index := online_player_index w @ [i],
     player := (player w)(i := \<lparr>UUID = u, chat_name = cstr ''eve'', handerpointer = Some h\<rparr>)\<rparr>, ())"
  using assms by (simp add: chat_step_def OnlineNotify_def name_server_name Let_def)

definition one_online :: chat where
  "one_online = ChatWorker\<lparr>remain_player_index := rev [2..<MAX_CLIENT] @ [1], UUID_index_map := [7 \<mapsto> 0],
     online_player_index := [0], player := (\<lambda>_. no_player)(0 := \<lparr>UUID = 7, chat_name = cstr ''eve'', handerpointer = Some 10\<rparr>)\<rparr>"

lemma one_online_run: "chat_run name_server [Online 7 10] ChatWorker () = Inr (one_online, ())"
  using online_step [of ChatWorker "rev [2..<MAX_CLIENT] @ [1]" 0 7 10]
  by (simp add: remain_start one_online_def) (simp add: ChatWorker_def)

theorem chat_slots_are_split_witness: "chat_ok one_online \<and> online_player_index one_online = [0]"
  using chat_slots_are_split [OF one_online_run] by (simp add: one_online_def)

theorem second_login_strands_slot_witness:
  "\<exists>w. chat_run name_server [Online 7 11, Offline 7] one_online () = Inr (w, ()) \<and> 0 \<in> set (online_player_index w)"
proof -
  have s: "\<exists>w. chat_run name_server [Online 7 11, Offline 7] one_online () = Inr (w, ())"
    using online_step [of one_online "rev [2..<MAX_CLIENT]" 1 7 11]
    by (simp add: one_online_def) (simp add: chat_step_def)
  then obtain w where w: "chat_run name_server [Online 7 11, Offline 7] one_online () = Inr (w, ())" ..
  have "chat_ok one_online" by (rule chat_run_keeps [of chat_ok, OF _ ChatWorker_ok one_online_run]) (rule chat_step_ok)
  from second_login_strands_slot [OF this _ _ w, of 0] w show ?thesis by (auto simp: one_online_def)
qed

theorem world_hears_everyone_witness:
  "WorldChannelMsgRequestService 3 ''hello'' one_online = Inr [(10, WorldChannelMsgResponse 3 [] ''hello'')]"
proof -
  have ok: "chat_ok one_online" by (rule chat_run_keeps [of chat_ok, OF _ ChatWorker_ok one_online_run]) (rule chat_step_ok)
  have "(3 :: int) < int MAX_CLIENT" by (simp add: MAX_CLIENT_def)
  from world_hears_everyone [OF ok _ this, of "''hello''"]
  show ?thesis by (simp add: one_online_def ChatWorker_def no_player_def)
qed

end
