(* ===== verification/Mysql_Login.thy ===== *)
theory Mysql_Login
  imports Chat_Redis
begin

section \<open>Accounts in MySQL\<close>

text \<open>
  Models \<open>gateway_server/database/mysql_login_worker.cpp\<close>. A statement is text; \<open>M\<close> gives
  the first row of its result, whose fields may be null, and the state of the connection
  after it. The driver takes the statement up to its first null byte. The state is shared with Redis, so that a handler can use both.
\<close>

type_synonym 'c mysql = "string \<Rightarrow> 'c \<Rightarrow> string option list option \<times> 'c"

definition first_row :: "'c mysql \<Rightarrow> string \<Rightarrow> ('c, string option list option) db" where
  "first_row M sql = (\<lambda>c. case M (cstr sql) c of (r, c') \<Rightarrow> Inr (r, c'))"

definition Writer :: "'c mysql \<Rightarrow> string \<Rightarrow> ('c, unit) db" where
  "Writer M sql = (\<lambda>c. Inr ((), snd (M (cstr sql) c)))"

text \<open>The first field as text; \<open>atoi\<close> and \<open>string\<close> of a null pointer end the program.\<close>

definition field0 :: "string option list \<Rightarrow> crash + string" where
  "field0 row = bind_r (at row 0) (\<lambda>f. case f of None \<Rightarrow> Inl NullString | Some s \<Rightarrow> Inr (cstr s))"

definition quote :: char where
  "quote = CHR 0x27"

definition check_string_space :: "string \<Rightarrow> bool" where
  "check_string_space s \<longleftrightarrow> list_all (\<lambda>c. c \<noteq> CHR '' '' \<and> c \<noteq> quote \<and> c \<noteq> CHR ''='' \<and> c \<noteq> CHR '';'') s"

subsection \<open>Statements\<close>

definition verify_sql :: "string \<Rightarrow> string \<Rightarrow> string" where
  "verify_sql account passwd = ''select id from user_info where username = '' @ [quote] @ account @ [quote] @
     '' and password = '' @ [quote] @ passwd @ [quote] @ '';''"

definition balance_sql :: "string \<Rightarrow> string" where
  "balance_sql key = ''select balance from account_info where user_id = '' @ [quote] @ key @ [quote] @ '';''"

definition update_diamond_sql :: "int \<Rightarrow> u32 \<Rightarrow> string" where
  "update_diamond_sql n u = ''update account_info set balance ='' @ [quote] @ gameToString n @ [quote] @
     '' where user_id = '' @ [quote] @ decimal (unat u) @ [quote] @ '';''"

definition verify_user :: "'c mysql \<Rightarrow> string \<Rightarrow> string \<Rightarrow> ('c, (u32 \<times> int option) option) db" where
  "verify_user M account passwd =
     (if \<not> check_string_space account \<or> \<not> check_string_space passwd then db_return None
      else db_bind (first_row M (verify_sql account passwd)) (\<lambda>row. case row of None \<Rightarrow> db_return None
        | Some row \<Rightarrow> db_bind (db_lift (field0 row)) (\<lambda>key.
            db_bind (first_row M (balance_sql key)) (\<lambda>row2. case row2 of
                None \<Rightarrow> db_return (Some (word_of_int (atoi key), None))
              | Some row2 \<Rightarrow> db_bind (db_lift (field0 row2)) (\<lambda>n. db_return (Some (word_of_int (atoi key), Some (atoi n))))))))"

definition bind_user_email :: "'c mysql \<Rightarrow> string \<Rightarrow> string \<Rightarrow> u32 \<Rightarrow> ('c, bool) db" where
  "bind_user_email M email passwd u =
     (if \<not> check_string_space email \<or> \<not> check_string_space passwd then db_return False
      else db_bind (first_row M (''select * from user_info where username = '' @ [quote] @ email @ [quote] @ '';'')) (\<lambda>row.
        if row \<noteq> None then db_return False
        else db_bind (Writer M (''update user_info set username ='' @ [quote] @ email @ [quote] @ '', password = '' @
               [quote] @ passwd @ [quote] @ '' where id = '' @ [quote] @ decimal (unat u) @ [quote] @ '';'')) (\<lambda>_. db_return True)))"

definition get_diamond :: "'c mysql \<Rightarrow> u32 \<Rightarrow> ('c, int) db" where
  "get_diamond M u = db_bind (first_row M (balance_sql (decimal (unat u)))) (\<lambda>row. case row of
     None \<Rightarrow> db_return 0 | Some row \<Rightarrow> db_bind (db_lift (field0 row)) (\<lambda>n. db_return (atoi n)))"

definition uuid_sql :: string where
  "uuid_sql = ''select replace(uuid(),'' @ [quote] @ ''-'' @ [quote] @ '','' @ [quote, quote] @ '');''"

text \<open>
  \<open>memcpy\<close> of 32 characters of the account and of 9 of the password, from a place that the
  time gives. An account, a password and a number stay as they were when a query fails.
\<close>

definition copy_text :: "nat \<Rightarrow> nat \<Rightarrow> string \<Rightarrow> crash + string" where
  "copy_text from n s = (if length s < from + n then Inl OutOfRange else Inr (cstr (take n (drop from s))))"

definition user_register :: "'c mysql \<Rightarrow> nat \<Rightarrow> string \<times> string \<times> u32 \<Rightarrow> ('c, string \<times> string \<times> u32) db" where
  "user_register M now old = (case old of (account0, passwd0, u0) \<Rightarrow>
     db_bind (first_row M uuid_sql) (\<lambda>row. case row of None \<Rightarrow> db_return old | Some row \<Rightarrow>
     db_bind (db_lift (bind_r (field0 row) (copy_text 0 32))) (\<lambda>account.
     db_bind (first_row M uuid_sql) (\<lambda>row. case row of None \<Rightarrow> db_return (account, passwd0, u0) | Some row \<Rightarrow>
     db_bind (db_lift (bind_r (field0 row) (copy_text (now mod 20) 9))) (\<lambda>passwd.
     db_bind (Writer M (''insert user_info(username,password,uuid) values('' @ [quote] @ account @ [quote] @ '','' @
       [quote] @ passwd @ [quote] @ '','' @ [quote] @ account @ [quote] @ '');'')) (\<lambda>_.
     db_bind (first_row M (''select id from user_info where username = '' @ [quote] @ account @ [quote] @ '';'')) (\<lambda>row.
       case row of None \<Rightarrow> db_return (account, passwd, u0) | Some row \<Rightarrow>
     db_bind (db_lift (at row 0)) (\<lambda>f.
       let key = (case f of None \<Rightarrow> [] | Some s \<Rightarrow> cstr s);
           u = (case f of None \<Rightarrow> u0 | Some s \<Rightarrow> word_of_int (atoi (cstr s))) in
     db_bind (Writer M (''insert account_info(user_id,region,balance) values('' @ [quote] @ key @ [quote] @ '',0,20000);'')) (\<lambda>_.
     db_return (account, passwd, u))))))))))"

subsection \<open>Binding and balance\<close>

text \<open>
  A login that is refused by the test changes nothing and asks nothing; so does the binding
  of an address.
\<close>

lemma refused_asks_nothing:
  assumes "\<not> check_string_space account \<or> \<not> check_string_space passwd"
  shows "verify_user M account passwd c = Inr (None, c)" and "bind_user_email M account passwd u c = Inr (False, c)"
  using assms by (auto simp: verify_user_def bind_user_email_def)

end
