(* ===== verification/Login_Worker.thy ===== *)
theory Login_Worker
  imports Buildings Hero_Store Chat_Worker Mysql_Login
begin

section \<open>A connection of the gateway\<close>

text \<open>
  Models \<open>gateway_server/service/_login_worker.cpp\<close> and \<open>_login_worker_msg.cpp\<close>: the table that
  says which worker serves a request, what a connection does with a message, the buildings
  of a new player, and what happens when a player logs in, registers and leaves.
\<close>

subsection \<open>Which worker serves a request\<close>

definition ServerChallengeRequest_ID :: int where "ServerChallengeRequest_ID = 1000"
definition msgStartAttack_ID :: int where "msgStartAttack_ID = 1056"
definition SearchGroupRequest_ID :: int where "SearchGroupRequest_ID = 1069"
definition GetTop50UserResquest_ID :: int where "GetTop50UserResquest_ID = 1081"
definition MAX_REQ_NUM :: int where "MAX_REQ_NUM = 82"
definition LOGIN_SERVICE_NUM :: int where "LOGIN_SERVICE_NUM = 33"

lemmas routing_ids = ServerChallengeRequest_ID_def msgStartAttack_ID_def msgAtkerStopBattleRequest_ID_def SearchGroupRequest_ID_def
  GetTop50UserResquest_ID_def MAX_REQ_NUM_def LOGIN_SERVICE_NUM_def

text \<open>\<open>has_process\<close>: the pointer to the function is not null; only the chat has one.\<close>

record worker_status =
  is_local :: bool
  worker_name :: string
  has_process :: bool

definition no_worker :: worker_status where
  "no_worker = \<lparr>is_local = False, worker_name = [], has_process = False\<rparr>"

fun register_from :: "worker_status \<Rightarrow> int \<Rightarrow> nat \<Rightarrow> worker_status list \<Rightarrow> crash + worker_status list" where
  "register_from s i 0 table = Inr table"
| "register_from s i (Suc n) table = (case at table i of Inl c \<Rightarrow> Inl c
     | Inr _ \<Rightarrow> register_from s (i + 1) n (table[nat i := s]))"

definition register_worker ::
  "bool \<Rightarrow> string \<Rightarrow> bool \<Rightarrow> int \<Rightarrow> int \<Rightarrow> worker_status list \<Rightarrow> crash + worker_status list" where
  "register_worker is_loc workername process start_id end_id table =
     (if end_id < start_id \<or> start_id \<le> ServerChallengeRequest_ID \<or> ServerChallengeRequest_ID + MAX_REQ_NUM < end_id then Inr table
      else register_from \<lparr>is_local = is_loc, worker_name = workername, has_process = process\<rparr>
             (start_id - ServerChallengeRequest_ID) (nat (end_id - start_id + 1)) table)"

definition initBeforeStart :: "crash + worker_status list" where
  "initBeforeStart =
     bind_r (register_worker False ''worldmap'' False WorldMapNearByRequest_ID LeaveWordMapRequest_ID (replicate 82 no_worker)) (\<lambda>t1.
     bind_r (register_worker False ''logic'' False SoldierInfoRequest_ID CompleteAtOnceRequest_ID t1) (\<lambda>t2.
     bind_r (register_worker False ''pvpServer'' False msgStartAttack_ID msgAtkerStopBattleRequest_ID t2) (\<lambda>t3.
     bind_r (register_worker False ''python_service'' False SearchGroupRequest_ID GetTop50UserResquest_ID t3) (\<lambda>t4.
     register_worker True ''chatworker'' True WorldChannelMsgRequest_ID FindFriendRequest_ID t4))))"

definition worker_table :: "worker_status list" where
  "worker_table = replicate 33 no_worker @ replicate 13 \<lparr>is_local = False, worker_name = ''worldmap'', has_process = False\<rparr> @
     replicate 4 \<lparr>is_local = True, worker_name = ''chatworker'', has_process = True\<rparr> @ replicate 3 no_worker @
     replicate 3 \<lparr>is_local = False, worker_name = ''logic'', has_process = False\<rparr> @
     replicate 13 \<lparr>is_local = False, worker_name = ''pvpServer'', has_process = False\<rparr> @
     replicate 13 \<lparr>is_local = False, worker_name = ''python_service'', has_process = False\<rparr>"

lemma initBeforeStart_table: "initBeforeStart = Inr worker_table"
  by code_simp

text \<open>The guard of \<open>register_worker\<close> lets one id through that the table has no entry for.\<close>

lemma register_worker_past_the_end:
  "register_worker False ''w'' False 1082 1082 worker_table = Inl OutOfRange"
  by code_simp

subsection \<open>A message of the client\<close>

text \<open>
  Where a message goes: nowhere, to one of the connection's own services with the text to
  unpack, to the chat, or to a worker as a body. \<open>stale\<close> is what the message's buffer holds
  behind the message; the id is read from the buffer, however short the message is.
\<close>

datatype routed =
    Dropped
  | Own_service nat string
  | Local_process string u32
  | To_worker string string

definition OnMessage :: "worker_status list \<Rightarrow> string \<Rightarrow> string \<Rightarrow> login_worker \<Rightarrow> crash + routed" where
  "OnMessage table stale message l =
     (let index = uint (ucast (u16_le (message @ stale)) - word_of_int ServerChallengeRequest_ID :: u32) in
      if MAX_REQ_NUM - 1 < index then Inr Dropped
      else if index < LOGIN_SERVICE_NUM then
        (if length message = 2 then Inr Dropped
         else if length message < 2 then Inl OutOfRange
         else Inr (Own_service (nat index) (drop 2 message)))
      else bind_r (at table index) (\<lambda>s.
        if is_local s \<and> login_status l then
          Inr (if has_process s then Local_process message (player_UUID l) else Dropped)
        else if \<not> login_status l then Inr Dropped
        else if worker_name s \<noteq> [] \<and> worker_name s \<noteq> '' '' then
          Inr (To_worker (worker_name s) (request_body (player_UUID l) message))
        else Inr Dropped))"

lemma index_of_message:
  assumes "1000 \<le> i" and "i < 32768"
  shows "uint (ucast (u16_le (le_short i @ packed)) - word_of_int ServerChallengeRequest_ID :: u32) = i - 1000"
proof -
  have u: "uint (u16_le (le_short i @ packed)) = i"
    using assms by (simp add: le_short_def uint_word_of_int take_bit_int_eq_self)
  have "take_bit 32 i = i" using assms by (simp add: take_bit_int_eq_self)
  with u have "uint (ucast (u16_le (le_short i @ packed)) :: u32) = i"
    by (simp add: unsigned_ucast_eq)
  then show ?thesis using assms by (simp add: uint_word_ariths routing_ids)
qed

definition worker_of :: "nat \<Rightarrow> worker_status" where
  "worker_of n =
     (if n < 46 then \<lparr>is_local = False, worker_name = ''worldmap'', has_process = False\<rparr>
      else if n < 50 then \<lparr>is_local = True, worker_name = ''chatworker'', has_process = True\<rparr>
      else if n < 53 then no_worker
      else if n < 56 then \<lparr>is_local = False, worker_name = ''logic'', has_process = False\<rparr>
      else if n < 69 then \<lparr>is_local = False, worker_name = ''pvpServer'', has_process = False\<rparr>
      else \<lparr>is_local = False, worker_name = ''python_service'', has_process = False\<rparr>)"

lemma worker_at:
  assumes "33 \<le> k" and "k < 82"
  shows "at worker_table k = Inr (worker_of (nat k))"
proof -
  have "list_all (\<lambda>n. worker_table ! n = worker_of n) [33..<82]" "length worker_table = 82" by code_simp+
  moreover have "nat k \<in> set [33..<82]" using assms by (simp only: set_upt atLeastLessThan_iff) arith
  ultimately have "worker_table ! nat k = worker_of (nat k)" "length worker_table = 82" unfolding list_all_iff by blast+
  then show ?thesis using assms by (simp add: at_def)
qed

text \<open>
  C33. Requests find their worker. A message of a player who has logged in, whose id is not
  one of the connection's own, goes unchanged, with his number, to the worker that has the
  id: the map, the chat, the barracks, the battles or the groups; the three ids of unions
  belong to nobody and are dropped.
\<close>

theorem requests_find_their_worker:
  assumes "login_status l" and "LogoutRequest_ID < i" and "i \<le> GetTop50UserResquest_ID"
  shows "OnMessage worker_table stale (le_short i @ packed) l = Inr (
    if i \<le> LeaveWordMapRequest_ID then To_worker ''worldmap'' (request_body (player_UUID l) (le_short i @ packed))
    else if i \<le> FindFriendRequest_ID then Local_process (le_short i @ packed) (player_UUID l)
    else if i \<le> AddUnionRequest_ID then Dropped
    else if i \<le> CompleteAtOnceRequest_ID then To_worker ''logic'' (request_body (player_UUID l) (le_short i @ packed))
    else if i \<le> msgAtkerStopBattleRequest_ID then To_worker ''pvpServer'' (request_body (player_UUID l) (le_short i @ packed))
    else To_worker ''python_service'' (request_body (player_UUID l) (le_short i @ packed)))"
proof -
  have i: "1033 \<le> i" "i \<le> 1081" using assms(2,3) by (simp_all add: routing_ids request_ids)
  then have x: "uint (ucast (u16_le ((le_short i @ packed) @ stale)) - word_of_int ServerChallengeRequest_ID :: u32) = i - 1000"
    using index_of_message [of i "packed @ stale"] by simp
  from i have k: "33 \<le> i - 1000" "i - 1000 < 82" by simp_all
  show ?thesis
    unfolding OnMessage_def Let_def x worker_at [OF k] bind_r_simps
    using i assms(1)
    by (auto simp: worker_of_def routing_ids request_ids FindFriendRequest_ID_def no_worker_def)
qed

text \<open>
  A stranger reaches no worker. Before the login nothing a client sends is handed to a
  worker or to the chat; what he can reach are the 33 services of his own connection.
\<close>

theorem strangers_reach_no_worker:
  assumes "\<not> login_status l" and "OnMessage table stale message l = Inr r"
  shows "r = Dropped \<or> (\<exists>k. k < 33 \<and> r = Own_service k (drop 2 message))"
proof -
  define index where "index = uint (ucast (u16_le (message @ stale)) - word_of_int ServerChallengeRequest_ID :: u32)"
  have "0 \<le> index" by (simp add: index_def)
  then show ?thesis using assms unfolding OnMessage_def Let_def index_def [symmetric]
    by (auto simp: bind_r_eq_Inr routing_ids split: if_splits)
qed

subsection \<open>The buildings of a new player\<close>

text \<open>
  Kind, type, level, the type that is counted, and the place of each of the buildings that
  \<open>init_new_player\<close> gives a new player. \<open>uuid\<close> gives the random numbers of the buildings.
\<close>

definition starting_buildings :: "(int \<times> int \<times> int \<times> int \<times> int \<times> int) list" where
  "starting_buildings =
     [(0, 1, 3, 1, 48, 90), (0, 4, 1, 4, -400, 90), (1, 19, 1, 19, 412, 195), (0, 7, 1, 7, 76, -255),
      (3, 12, 1, 12, -232, 90), (4, 16, 1, 16, 272, -78), (3, 14, 1, 11, -148, -15), (0, 6, 1, 6, -92, -141),
      (2, 8, 1, 8, 496, -36), (1, 17, 1, 17, 412, -225), (0, 3, 1, 3, -232, -246), (3, 13, 1, 13, 244, -309),
      (2, 9, 1, 9, 328, 90), (2, 10, 1, 10, 160, 216), (2, 11, 1, 11, 20, -99), (3, 15, 1, 15, -512, -36),
      (1, 18, 1, 18, -92, 153), (0, 2, 1, 2, -316, -99)]"

definition new_building_calls :: "float_text \<Rightarrow> int \<Rightarrow> (nat \<Rightarrow> string) \<Rightarrow> redis_call list" where
  "new_building_calls io start_time uuid =
     concat (map (\<lambda>(n, big, ty, lv, counted, x, y).
         [set_my_build_num counted 1,
          set_build \<lparr>build_sn = uuid n, big_type = big, status = 0, ctime = start_time, btime = 0, build_type = ty,
            build_level = lv, cur_hp = 1000, build_skin = 0, cur_resource = 0, build_x = int_float io x, build_y = int_float io y\<rparr>] @
         (if n = 0 then [set_city_hall (uuid n)] else if n = 1 then [set_combat_uuid (uuid n)] else []))
       (enumerate 0 starting_buildings))"

definition init_new_player ::
  "'c redis \<Rightarrow> 'c mysql \<Rightarrow> float_text \<Rightarrow> int \<Rightarrow> (nat \<Rightarrow> string) \<Rightarrow> u32 \<Rightarrow> string \<Rightarrow> int \<Rightarrow> ('c, unit) db" where
  "init_new_player R M io start_time uuid u name race0 =
     db_bind (set_user_name R u name) (\<lambda>_.
     db_bind (Writer M (update_diamond_sql 20000 u)) (\<lambda>_.
     let race = (if race0 < 0 \<or> 2 < race0 then 0 else race0) in
     write_all R (concat (map (sqls_of io u) [set_material 50000000 50000000 50000000 50000000]) @
       [set_player_base race 0 1 u, set_backpack_num 12 u] @ sqls_of io u (set_buidl_num 10) @
       concat (map (sqls_of io u) (new_building_calls io start_time uuid)))))"

text \<open>The buildings that a list of writes stores, and the numbers of buildings it records.\<close>

definition builds_in :: "redis_call list \<Rightarrow> build_data list" where
  "builds_in calls = concat (map (\<lambda>c. case c of set_build b \<Rightarrow> [b] | _ \<Rightarrow> []) calls)"

definition recorded :: "redis_call list \<Rightarrow> int \<Rightarrow> int" where
  "recorded calls = foldl (\<lambda>f c. case c of set_my_build_num ty n \<Rightarrow> f(ty := n) | _ \<Rightarrow> f) (\<lambda>_. 0) calls"

text \<open>
  A new player's buildings are counted, but for one. What is recorded for a type is how
  many buildings of the type he gets, except for type 14: he has one and none is recorded,
  as its number was written for type 11. So he may build one more than the limit of it.
\<close>

theorem new_player_is_miscounted:
  "recorded (new_building_calls io start_time uuid) ty =
     (if ty = 14 then 0
      else int (length (filter (\<lambda>b. build_type b = ty) (builds_in (new_building_calls io start_time uuid))))) \<and>
   length (filter (\<lambda>b. build_type b = 14) (builds_in (new_building_calls io start_time uuid))) = 1"
  by (simp add: recorded_def new_building_calls_def builds_in_def starting_buildings_def)

subsection \<open>Constructions go on at login\<close>

text \<open>
  The loop of \<open>login_handle2\<close> over the constructions that Redis lists: what is due is
  finished, what ends soon gets a timer. The time that is left is a \<open>long\<close>.
\<close>

abbreviation to_long :: "int \<Rightarrow> int" where
  "to_long \<equiv> wrap_signed 64"

definition resume_one :: "game \<Rightarrow> int \<Rightarrow> string \<Rightarrow> login_worker \<Rightarrow> crash + login_worker \<times> effect list" where
  "resume_one g start_time sn l =
     (case my_build (my_attribute l) sn of None \<Rightarrow> Inr (l, [])
      | Some b0 \<Rightarrow>
          if status b0 = 1 then
            let b = b0\<lparr>btime := to_long (btime b0 - (start_time - ctime b0)), ctime := start_time\<rparr>; l1 = put_build sn b l in
            if btime b \<le> 0 then build_timer_handle g start_time sn l1
            else if btime b \<le> 1100 then Inr (en_timer sn l1, [Redis (player_UUID l) (set_build b)])
            else Inr (l1, [Redis (player_UUID l) (set_build b)])
          else Inr (l, []))"

fun resume_buildings :: "game \<Rightarrow> int \<Rightarrow> string list \<Rightarrow> login_worker \<Rightarrow> crash + login_worker \<times> effect list" where
  "resume_buildings g start_time [] l = Inr (l, [])"
| "resume_buildings g start_time (sn # sns) l = (case resume_one g start_time sn l of Inl c \<Rightarrow> Inl c
     | Inr (l1, out1) \<Rightarrow> (case resume_buildings g start_time sns l1 of Inl c \<Rightarrow> Inl c
         | Inr (l2, out2) \<Rightarrow> Inr (l2, out1 @ out2)))"

text \<open>
  What holds while the loop runs, when \<open>todo\<close> is still to be visited: a construction that
  is not in \<open>todo\<close> has a timer just when it is short, and none is overdue.
\<close>

definition resuming :: "int \<Rightarrow> string list \<Rightarrow> login_worker \<Rightarrow> bool" where
  "resuming start_time todo l \<longleftrightarrow>
     (\<forall>sn. building_timer l sn \<noteq> None \<longrightarrow> (\<exists>b. my_build (my_attribute l) sn = Some b \<and> status b = 1 \<and> 0 < btime b \<and> btime b \<le> 1100 \<and> ctime b = start_time)) \<and>
     (\<forall>sn. under_construction l sn \<longrightarrow> sn \<in> set (building l)) \<and>
     (\<forall>sn b. my_build (my_attribute l) sn = Some b \<longrightarrow> build_sn b = sn) \<and>
     (\<forall>sn b. my_build (my_attribute l) sn = Some b \<longrightarrow> status b = 1 \<longrightarrow> sn \<notin> set todo \<longrightarrow>
        0 < btime b \<and> ctime b = start_time \<and> (btime b \<le> 1100 \<longrightarrow> building_timer l sn \<noteq> None))"

lemma resumingD:
  assumes "resuming start_time todo l"
  shows "building_timer l sn \<noteq> None \<Longrightarrow>
      \<exists>b. my_build (my_attribute l) sn = Some b \<and> status b = 1 \<and> 0 < btime b \<and> btime b \<le> 1100 \<and> ctime b = start_time"
    and "under_construction l sn \<Longrightarrow> sn \<in> set (building l)"
    and "my_build (my_attribute l) sn = Some b \<Longrightarrow> build_sn b = sn"
    and "my_build (my_attribute l) sn = Some b \<Longrightarrow> status b = 1 \<Longrightarrow> sn \<notin> set todo \<Longrightarrow>
      0 < btime b \<and> ctime b = start_time \<and> (btime b \<le> 1100 \<longrightarrow> building_timer l sn \<noteq> None)"
  using assms unfolding resuming_def by blast+

lemma build_timer_handle_fields:
  assumes "build_timer_handle g now sn l = Inr (l1, out)" and "my_build (my_attribute l) sn = Some b"
  obtains c where "my_build (my_attribute l1) = (my_build (my_attribute l))(sn \<mapsto> finished now c b)"
    and "building_timer l1 = (building_timer l)(sn := None)" and "building l1 = filter (\<lambda>s. s \<noteq> sn) (building l)"
    and "player_UUID l1 = player_UUID l"
proof -
  from assms obtain c where r: "l1 = (if building_timer l sn \<noteq> None
      then (put_build sn (finished now c b) l)\<lparr>building_timer := (building_timer l)(sn := None)\<rparr>
      else put_build sn (finished now c b) l)\<lparr>building := filter (\<lambda>s. s \<noteq> sn) (building l)\<rparr>"
    by (auto simp: build_timer_handle_def bind_r_eq_Inr Let_def split: if_splits prod.splits)
  show ?thesis by (rule that [of c]) (auto simp: r fun_eq_iff)
qed

lemma resume_one_resuming:
  assumes "resume_one g start_time sn l = Inr (l1, out)" and "resuming start_time (sn # sns) l"
  shows "resuming start_time sns l1"
proof (cases "under_construction l sn")
  case False
  then have l1: "l1 = l" and no: "\<And>b. my_build (my_attribute l) sn = Some b \<Longrightarrow> status b \<noteq> 1"
    using assms(1) by (auto simp: resume_one_def under_construction_def split: option.splits if_splits)
  have "0 < btime b \<and> ctime b = start_time \<and> (btime b \<le> 1100 \<longrightarrow> building_timer l x \<noteq> None)"
    if x: "my_build (my_attribute l) x = Some b" "status b = 1" "x \<notin> set sns" for x b
  proof (rule resumingD(4) [OF assms(2) x(1,2)])
    show "x \<notin> set (sn # sns)" using x no by auto
  qed
  with resumingD(1,2,3) [OF assms(2)] show ?thesis unfolding l1 resuming_def by blast
next
  case True
  then obtain b0 where b0: "my_build (my_attribute l) sn = Some b0" "status b0 = 1"
    by (auto simp: under_construction_def split: option.splits)
  define b where "b = b0\<lparr>btime := to_long (btime b0 - (start_time - ctime b0)), ctime := start_time\<rparr>"
  have b: "status b = 1" "build_sn b = sn" "ctime b = start_time" "sn \<in> set (building l)"
    using b0 assms(2) True by (auto simp: b_def resuming_def)
  have timed: "b = b0 \<and> btime b \<le> 1100" if "building_timer l sn \<noteq> None"
  proof -
    have "0 < btime b0" "btime b0 \<le> 1100" "ctime b0 = start_time"
      using resumingD(1) [OF assms(2) that] b0 by simp_all
    moreover from this have "to_long (btime b0) = btime b0" by (intro wrap_signed_id) simp_all
    ultimately show ?thesis by (simp add: b_def)
  qed
  let ?l = "put_build sn b l"
  consider (due) "btime b \<le> 0" "build_timer_handle g start_time sn ?l = Inr (l1, out)"
    | (short) "0 < btime b" "btime b \<le> 1100" "l1 = en_timer sn ?l"
    | (long) "1100 < btime b" "l1 = ?l"
    using assms(1) b0 by (fastforce simp: resume_one_def Let_def b_def [symmetric] split: if_splits)
  then show ?thesis
  proof cases
    case due
    from due(2) obtain c where "my_build (my_attribute l1) = (my_build (my_attribute ?l))(sn \<mapsto> finished start_time c b)"
      "building_timer l1 = (building_timer ?l)(sn := None)" "building l1 = filter (\<lambda>s. s \<noteq> sn) (building ?l)"
      by (rule build_timer_handle_fields) simp
    with assms(2) b show ?thesis
      by (auto simp: resuming_def under_construction_def split: if_splits)
  next
    case short
    with assms(2) b timed show ?thesis
      by (auto simp: resuming_def under_construction_def en_timer_def split: if_splits)
  next
    case long
    have "building_timer l sn = None" using timed long(1) by fastforce
    with long assms(2) b show ?thesis
      by (auto simp: resuming_def under_construction_def split: if_splits)
  qed
qed

lemma resume_buildings_resuming:
  "resume_buildings g start_time todo l = Inr (l1, out) \<Longrightarrow> resuming start_time todo l \<Longrightarrow> resuming start_time [] l1"
proof (induction todo arbitrary: l out)
  case (Cons sn sns)
  then show ?case using resume_one_resuming [of g start_time sn l _ _ sns]
    by (auto split: sum.splits prod.splits)
qed simp

text \<open>
  C30. Constructions go on at login. A connection that has no timers, as at its first login,
  whose list of constructions from Redis is complete and whose buildings have their own
  numbers: after the loop the invariant of the buildings holds: just the constructions of at
  most 1100 seconds have a timer, none is overdue, and what was due is finished. So
  whatever the player does next starts from what \<open>timers_follow_constructions\<close> needs.
  (A second registration over the same connection comes here with the timers of the player
  before: its guard is commented out.)
\<close>

theorem constructions_go_on_at_login:
  assumes "resume_buildings g start_time (building l) l = Inr (l1, out)" and "building_timer l = Map.empty"
    and "\<And>sn b. my_build (my_attribute l) sn = Some b \<Longrightarrow> build_sn b = sn"
    and "\<And>sn. under_construction l sn \<Longrightarrow> sn \<in> set (building l)"
  shows "buildings_ok l1 \<and> (\<forall>sn b. my_build (my_attribute l1) sn = Some b \<longrightarrow> status b = 1 \<longrightarrow> 0 < btime b \<and> ctime b = start_time)"
proof -
  have "resuming start_time (building l) l"
    using assms(2-4) by (auto simp: resuming_def under_construction_def)
  then have r: "resuming start_time [] l1" by (rule resume_buildings_resuming [OF assms(1)])
  have "building_timer l1 sn \<noteq> None \<longleftrightarrow> short_construction l1 sn" for sn
  proof (cases "my_build (my_attribute l1) sn")
    case None
    then show ?thesis using resumingD(1) [OF r, of sn] by (fastforce simp: short_construction_def)
  next
    case (Some b)
    have "status b = 1 \<and> btime b \<le> 1100" if "building_timer l1 sn \<noteq> None"
      using resumingD(1) [OF r that] Some by simp
    moreover have "building_timer l1 sn \<noteq> None" if "status b = 1" "btime b \<le> 1100"
      using resumingD(4) [OF r Some that(1)] that(2) by simp
    ultimately show ?thesis unfolding short_construction_def Some option.case by blast
  qed
  moreover have "\<And>sn. under_construction l1 sn \<Longrightarrow> sn \<in> set (building l1)" by (rule resumingD(2) [OF r])
  moreover have "\<And>sn b. my_build (my_attribute l1) sn = Some b \<Longrightarrow> build_sn b = sn" by (rule resumingD(3) [OF r])
  ultimately have "buildings_ok l1" unfolding buildings_ok_def by (intro conjI allI impI) assumption+
  moreover have "0 < btime b \<and> ctime b = start_time" if "my_build (my_attribute l1) sn = Some b" "status b = 1" for sn b
    using resumingD(4) [OF r that] by simp
  ultimately show ?thesis by blast
qed

definition building_player :: login_worker where
  "building_player = put_build ''house'' (house\<lparr>status := 1, ctime := 100, btime := 60\<rparr>) example_player"

theorem constructions_go_on_at_login_witness:
  "\<exists>l1 out. resume_buildings example_game 130 [''house''] building_player = Inr (l1, out) \<and> buildings_ok l1 \<and>
     building_timer l1 ''house'' = Some 30000"
proof -
  have b: "my_build (my_attribute building_player) = [''hall'' \<mapsto> hall, ''house'' \<mapsto> house\<lparr>status := 1, ctime := 100, btime := 60\<rparr>]"
    "building building_player = [''house'']" "building_timer building_player = Map.empty"
    by (auto simp: building_player_def example_player_def)
  then obtain l1 out where r: "resume_buildings example_game 130 (building building_player) building_player = Inr (l1, out)"
    and t: "building_timer l1 ''house'' = Some 30000"
    by (simp add: resume_one_def en_timer_def Let_def wrap_signed_def)
  have sn: "build_sn x = sn" if "my_build (my_attribute building_player) sn = Some x" for sn x
    using that unfolding b(1) by (auto simp: hall_def house_def split: if_splits)
  have listed: "sn \<in> set (building building_player)" if "under_construction building_player sn" for sn
    using that unfolding under_construction_def b(1,2) by (auto simp: hall_def split: if_splits)
  have "buildings_ok l1" using constructions_go_on_at_login [OF r b(3) sn listed] by (rule conjunct1)
  then show ?thesis using r t b(2) by auto
qed

theorem requests_find_their_worker_witness:
  "OnMessage worker_table [] (le_short 1046 @ ''hi'') example_player = Inr (Local_process (le_short 1046 @ ''hi'') 7)"
proof -
  have "login_status example_player" "player_UUID example_player = 7" by (simp_all add: example_player_def)
  with requests_find_their_worker [of example_player 1046 "[]" "''hi''"] show ?thesis
    by (simp add: routing_ids request_ids FindFriendRequest_ID_def)
qed

theorem strangers_reach_no_worker_witness:
  "\<exists>r. OnMessage worker_table [] (le_short 1046 @ ''hi'') (example_player\<lparr>login_status := False\<rparr>) = Inr r \<and>
     (r = Dropped \<or> (\<exists>k. k < 33 \<and> r = Own_service k (drop 2 (le_short 1046 @ ''hi''))))"
proof -
  have x: "uint (ucast (u16_le ((le_short 1046 @ ''hi'') @ [])) - word_of_int ServerChallengeRequest_ID :: u32) = 46"
    using index_of_message [of 1046 "''hi''"] by simp
  have "OnMessage worker_table [] (le_short 1046 @ ''hi'') (example_player\<lparr>login_status := False\<rparr>) = Inr Dropped"
    unfolding OnMessage_def Let_def x using worker_at [of 46] by (simp add: routing_ids bind_r_def del: at_eq_Inr)
  from this strangers_reach_no_worker [OF _ this] show ?thesis by simp
qed

end
