(* ===== verification/Gateway.thy ===== *)
theory Gateway
  imports Login_Worker
begin

section \<open>The gateway's connections together\<close>

text \<open>
  Models the login, the registration and the end of a connection of \<open>LoginWorker\<close>
  (\<open>_login_worker_msg.cpp\<close>, \<open>_login_worker.cpp\<close>) with the state they share: the table of the
  players' connections, the chat, and what is sent to the workers. A connection is a number.
  The services outside (Redis, MySQL, texts of floats, the configuration) are one record.
\<close>

record 'c outside =
  redis :: "'c redis"
  mysql_of :: "'c mysql"
  texts :: float_text
  blank_letter :: email_sale
  config :: game

record connection =
  client :: login_worker
  challenge_number :: int
  last_time :: int
  is_client_off :: bool
  offline_handler :: "(nat \<times> int) option"
  is_get_random_name :: bool
  last_rand_name :: string
  is_man :: bool
  closing :: bool
  closed :: bool

record server =
  gate :: gateway
  connections :: "nat \<Rightarrow> connection"
  chat_worker :: chat
  to_workers :: "(string \<times> string) list"

definition set_client :: "nat \<Rightarrow> login_worker \<Rightarrow> server \<Rightarrow> server" where
  "set_client n l s = s\<lparr>connections := (connections s)(n := (connections s n)\<lparr>client := l\<rparr>)\<rparr>"

definition set_handler :: "u32 \<Rightarrow> nat option option \<Rightarrow> server \<Rightarrow> server" where
  "set_handler u h s = s\<lparr>gate := (gate s)\<lparr>UuidHandlerPoitiner := (UuidHandlerPoitiner (gate s))(u := h)\<rparr>\<rparr>"

text \<open>Answers that only this part sends; the lists of items, heroes and letters are left out.\<close>

datatype login_answer =
    ServerChallengeResponse int
  | VersionInforResponse
  | AccountInfoResponse string string
  | RandNameResponse string
  | MyAttruibuteResponse attributes
  | MyArmpsLevelResponse "int \<Rightarrow> int option"
  | Other_effect effect

abbreviation simple_answer :: "int \<Rightarrow> int \<Rightarrow> int \<Rightarrow> login_answer" where
  "simple_answer msgid sn result \<equiv> Other_effect (Answer (SimpleResponse msgid sn result))"

subsection \<open>The workers are told\<close>

definition OnlineNotifyWorker :: "'c outside \<Rightarrow> u32 \<Rightarrow> server \<Rightarrow> ('c, server \<times> int) db" where
  "OnlineNotifyWorker X u s =
     db_bind (OnlineNotify (redis X) u (UuidHandlerPoitiner (gate s) u) (chat_worker s)) (\<lambda>(w, index).
     let body = request_body u (le_short LoginRequest_ID) in
     db_return (s\<lparr>chat_worker := w, to_workers := to_workers s @ [(''logic'', body), (''pvpServer'', body)]\<rparr>, index))"

definition OffLineNotifyWorker :: "u32 \<Rightarrow> server \<Rightarrow> server" where
  "OffLineNotifyWorker u s =
     (let body = request_body u (le_short LogoutRequest_ID) in
      s\<lparr>chat_worker := OfflineNotify u (chat_worker s),
        to_workers := to_workers s @ [(''logic'', body), (''worldmap'', body), (''pvpServer'', body)]\<rparr>)"

subsection \<open>Login\<close>

text \<open>What \<open>login_handle2\<close> reads for a player.\<close>

definition load_player :: "'c outside \<Rightarrow> int \<Rightarrow> int \<Rightarrow> login_worker \<Rightarrow> ('c, login_worker) db" where
  "load_player X now diamonds l =
     (let R = redis X; u = player_UUID l in
     db_bind (find_user_name R u) (\<lambda>name.
     db_bind (get_build_map R (texts X) now u) (\<lambda>builds.
     db_bind (get_player R u ((my_attribute l)\<lparr>player_nick := name, diamond := diamonds, my_build := builds\<rparr>)) (\<lambda>a.
     db_bind (get_my_build_num R u (build_num a)) (\<lambda>nums.
     db_bind (get_build_timer_list R u) (\<lambda>timers.
     db_bind (get_equip_list R (texts X) (blank_letter X) u \<lparr>l_heroes = my_hero l, l_random = rand_hero l, l_equip = hero_equip l,
         l_status = backpack_status l, l_backpack = my_backpack l, l_letters = email_sale_list l\<rparr>) (\<lambda>d.
     db_return (l\<lparr>login_status := True, my_attribute := a\<lparr>build_num := nums\<rparr>, building := timers, my_hero := l_heroes d,
       rand_hero := l_random d, hero_equip := l_equip d, backpack_status := l_status d, my_backpack := l_backpack d,
       email_sale_list := l_letters d\<rparr>))))))))"

definition login_handle2 :: "'c outside \<Rightarrow> int \<Rightarrow> nat \<Rightarrow> int \<Rightarrow> server \<Rightarrow> ('c, server \<times> (nat \<times> login_answer) list) db" where
  "login_handle2 X now n diamonds s0 =
     (let u = player_UUID (client (connections s0 n)); s1 = set_handler u (Some (Some n)) s0 in
      db_bind (OnlineNotifyWorker X u s1) (\<lambda>(s2, index).
      let l0 = client (connections s2 n) in
      db_bind (load_player X now diamonds (l0\<lparr>my_attribute := (my_attribute l0)\<lparr>player_index := index\<rparr>\<rparr>)) (\<lambda>l1.
      db_bind (db_lift (resume_buildings (config X) now (building l1) l1)) (\<lambda>(l2, out).
      db_bind (write_all (redis X) (sqls_out (texts X) out)) (\<lambda>_.
      db_bind (get_all_arm_max_level (redis X) (int (length (arm_levels (config X))) - 1) u) (\<lambda>arms.
      db_return (set_client n l2 s2,
        map (\<lambda>e. (n, Other_effect e)) out @ [(n, MyAttruibuteResponse (my_attribute l2)), (n, MyArmpsLevelResponse arms)])))))))"

text \<open>
  The player's other connection, when there is one, is told to close and to run the rest of
  this login when it has; its entry is erased at once. \<open>unset\<close> is a field no one sets.
\<close>

definition close_other :: "nat \<Rightarrow> int \<Rightarrow> nat \<Rightarrow> server \<Rightarrow> server" where
  "close_other n diamonds old s = s\<lparr>connections := (connections s)(old := (connections s old)
     \<lparr>is_client_off := False, offline_handler := Some (n, diamonds), closing := True\<rparr>)\<rparr>"

definition login_handle ::
  "'c outside \<Rightarrow> int \<Rightarrow> int \<Rightarrow> nat \<Rightarrow> int \<Rightarrow> bool \<Rightarrow> server \<Rightarrow> ('c, server \<times> (nat \<times> login_answer) list) db" where
  "login_handle X now unset n diamonds handlemodel s =
     (let u = player_UUID (client (connections s n)); hello = (n, simple_answer LoginRequest_ID unset 0) in
      if handlemodel then
        (case UuidHandlerPoitiner (gate s) u of
           Some (Some old) \<Rightarrow> db_return (set_handler u None (close_other n diamonds old s), [hello])
         | _ \<Rightarrow> db_bind (login_handle2 X now n diamonds s) (\<lambda>(s1, out). db_return (s1, hello # out)))
      else login_handle2 X now n diamonds s)"

definition LoginRequestService ::
  "'c outside \<Rightarrow> int \<Rightarrow> int \<Rightarrow> nat \<Rightarrow> string \<Rightarrow> string \<Rightarrow> server \<Rightarrow> ('c, server \<times> (nat \<times> login_answer) list) db" where
  "LoginRequestService X now unset n account passwd s =
     (let l = client (connections s n) in
      if login_status l then db_return (s, [])
      else db_bind (verify_user (mysql_of X) account passwd) (\<lambda>found. case found of
          None \<Rightarrow> db_return (s, [(n, simple_answer LoginRequest_ID 0 (-1))])
        | Some (u, d) \<Rightarrow> login_handle X now unset n (case d of None \<Rightarrow> 0 | Some d \<Rightarrow> d) True
            (set_client n (l\<lparr>player_UUID := u, login_status := True\<rparr>) s)))"

definition RegisterRequestService ::
  "'c outside \<Rightarrow> int \<Rightarrow> int \<Rightarrow> (nat \<Rightarrow> string) \<Rightarrow> nat \<Rightarrow> string \<Rightarrow> int \<Rightarrow> server \<Rightarrow> ('c, server \<times> (nat \<times> login_answer) list) db" where
  "RegisterRequestService X now unset uuid n name race s =
     (let l = client (connections s n) in
      db_bind (exsit_user_name (redis X) name) (\<lambda>found.
      if found then db_return (s, [(n, simple_answer RegisterRequest_ID 0 (-5))])
      else db_bind (user_register (mysql_of X) (nat now) ([], [], player_UUID l)) (\<lambda>(account, passwd, u).
        db_bind (init_new_player (redis X) (mysql_of X) (texts X) now uuid u name race) (\<lambda>_.
        db_bind (login_handle X now unset n 20000 False (set_client n (l\<lparr>player_UUID := u, login_status := True\<rparr>) s)) (\<lambda>(s1, out).
        db_return (s1, (n, AccountInfoResponse account passwd) # out))))))"

subsection \<open>The end of a connection\<close>

text \<open>A connection that closed and that neither the table nor a slot of the chat points to is freed.\<close>

definition gone :: "server \<Rightarrow> nat \<Rightarrow> bool" where
  "gone s n \<longleftrightarrow> closed (connections s n) \<and> (\<forall>u. UuidHandlerPoitiner (gate s) u \<noteq> Some (Some n)) \<and>
     (\<forall>i < MAX_CLIENT. handerpointer (player (chat_worker s) i) \<noteq> Some n)"

definition OnClose :: "'c outside \<Rightarrow> int \<Rightarrow> nat \<Rightarrow> server \<Rightarrow> ('c, server \<times> (nat \<times> login_answer) list) db" where
  "OnClose X now n s0 =
     (let k = connections s0 n; l = client k; u = player_UUID l in
      db_bind (if \<not> login_status l \<and> is_get_random_name k then write_all (redis X) [add_random_name (last_rand_name k) (is_man k)]
               else db_return ()) (\<lambda>_.
      let s1 = (case UuidHandlerPoitiner (gate s0) u of None \<Rightarrow> s0
                | Some _ \<Rightarrow> let s = OffLineNotifyWorker u s0 in if is_client_off k then set_handler u None s else s);
          k1 = k\<lparr>client := l\<lparr>building_timer := Map.empty\<rparr>, offline_handler := None, closed := True\<rparr>;
          s2 = s1\<lparr>connections := (connections s1)(n := k1)\<rparr> in
      case offline_handler k of
        None \<Rightarrow> db_return (s2, [])
      | Some (waiting, diamonds) \<Rightarrow>
          if gone s1 waiting then db_lift (Inl UseAfterFree) else login_handle2 X now waiting diamonds s2))"

subsection \<open>The other services of a connection\<close>

definition OnConnect :: "int \<Rightarrow> nat \<Rightarrow> server \<Rightarrow> server \<times> (nat \<times> login_answer) list" where
  "OnConnect now n s = (let number = now mod 100000 in
     (s\<lparr>connections := (connections s)(n := (connections s n)\<lparr>challenge_number := number + 1\<rparr>)\<rparr>,
      [(n, ServerChallengeResponse number)]))"

definition ServerChallengeResponseService :: "int \<Rightarrow> nat \<Rightarrow> server \<Rightarrow> server \<times> (nat \<times> login_answer) list" where
  "ServerChallengeResponseService number n s =
     (if number = challenge_number (connections s n) then (s, [(n, VersionInforResponse)])
      else (s\<lparr>connections := (connections s)(n := (connections s n)\<lparr>closing := True\<rparr>)\<rparr>, []))"

definition HeartBeatRequestService :: "int \<Rightarrow> nat \<Rightarrow> server \<Rightarrow> server" where
  "HeartBeatRequestService now n s = s\<lparr>connections := (connections s)(n := (connections s n)\<lparr>last_time := now\<rparr>)\<rparr>"

text \<open>The name is written before the login is tested.\<close>

definition SetNameRequestService :: "'c outside \<Rightarrow> nat \<Rightarrow> string \<Rightarrow> server \<Rightarrow> ('c, (nat \<times> login_answer) list) db" where
  "SetNameRequestService X n name s =
     (let l = client (connections s n) in
      db_bind (set_user_name (redis X) (player_UUID l) name) (\<lambda>ok.
      db_return [(n, simple_answer SetNameRequest_ID 0 (if ok \<and> login_status l then 0 else -1))]))"

definition GetRandNameRequestService :: "'c outside \<Rightarrow> int \<Rightarrow> nat \<Rightarrow> int \<Rightarrow> server \<Rightarrow> ('c, server \<times> (nat \<times> login_answer) list) db" where
  "GetRandNameRequestService X unset n sex s =
     (let k = connections s n; man = (sex \<noteq> 1); put = (\<lambda>k. s\<lparr>connections := (connections s)(n := k)\<rparr>) in
      db_bind (if is_get_random_name k then write_all (redis X) [add_random_name (last_rand_name k) (is_man k)] else db_return ()) (\<lambda>_.
      db_bind (get_random_name (redis X) man) (\<lambda>found. db_return (case found of
          Some name \<Rightarrow> (put (k\<lparr>is_man := man, last_rand_name := name, is_get_random_name := True\<rparr>), [(n, RandNameResponse name)])
        | None \<Rightarrow> (put (k\<lparr>is_man := man\<rparr>), [(n, simple_answer GetRandNameRequest_ID (-1) unset)])))))"

definition BindEmailRequestService :: "'c outside \<Rightarrow> nat \<Rightarrow> string \<Rightarrow> string \<Rightarrow> server \<Rightarrow> ('c, (nat \<times> login_answer) list) db" where
  "BindEmailRequestService X n email passwd s =
     (let l = client (connections s n) in
      db_bind (bind_user_email (mysql_of X) email passwd (player_UUID l)) (\<lambda>ok.
      db_return [(n, simple_answer BindEmailRequest_ID (-1) (if ok \<and> login_status l then 0 else -3))]))"

subsection \<open>What a login changes\<close>

lemma build_timer_handle_keeps:
  "build_timer_handle g now sn l = Inr (l1, out) \<Longrightarrow> login_status l1 = login_status l \<and> player_UUID l1 = player_UUID l"
  by (auto simp: build_timer_handle_def bind_r_eq_Inr Let_def put_build_def split: option.splits if_splits)

lemma resume_one_keeps:
  "resume_one g t sn l = Inr (l1, out) \<Longrightarrow> login_status l1 = login_status l \<and> player_UUID l1 = player_UUID l"
  by (auto simp: resume_one_def Let_def en_timer_def put_build_def dest: build_timer_handle_keeps
      split: option.splits if_splits)

lemma resume_buildings_keeps:
  "resume_buildings g t sns l = Inr (l1, out) \<Longrightarrow> login_status l1 = login_status l \<and> player_UUID l1 = player_UUID l"
proof (induction sns arbitrary: l out)
  case (Cons sn sns)
  then show ?case by (fastforce dest: resume_one_keeps split: sum.splits prod.splits)
qed simp

lemma load_player_keeps:
  assumes "load_player X now d l c = Inr (l1, c')"
  shows "login_status l1 \<and> player_UUID l1 = player_UUID l"
  using assms by (auto simp: load_player_def Let_def db_bind_eq_Inr)

lemma login_handle2_cases:
  assumes "login_handle2 X now n d s c = Inr ((s', out), c')" and "player_UUID (client (connections s n)) = u"
  obtains w index c1 l where "OnlineNotify (redis X) u (Some (Some n)) (chat_worker s) c = Inr ((w, index), c1)"
    and "login_status l" and "player_UUID l = u"
    and "s' = set_client n l (set_handler u (Some (Some n)) s)
      \<lparr>chat_worker := w, to_workers := to_workers s @ [(''logic'', request_body u (le_short LoginRequest_ID)),
         (''pvpServer'', request_body u (le_short LoginRequest_ID))]\<rparr>"
proof -
  let ?s1 = "set_handler u (Some (Some n)) s"
  from assms obtain s2 index c1 l1 c2 l2 out2 where on: "OnlineNotifyWorker X u ?s1 c = Inr ((s2, index), c1)"
    and lo: "load_player X now d ((client (connections s2 n))\<lparr>my_attribute :=
        (my_attribute (client (connections s2 n)))\<lparr>player_index := index\<rparr>\<rparr>) c1 = Inr (l1, c2)"
    and re: "resume_buildings (config X) now (building l1) l1 = Inr (l2, out2)" and s': "s' = set_client n l2 s2"
    by (auto simp: login_handle2_def Let_def db_bind_eq_Inr)
  from on obtain w where w: "OnlineNotify (redis X) u (Some (Some n)) (chat_worker s) c = Inr ((w, index), c1)"
    and s2: "s2 = ?s1\<lparr>chat_worker := w, to_workers := to_workers s @ [(''logic'', request_body u (le_short LoginRequest_ID)),
         (''pvpServer'', request_body u (le_short LoginRequest_ID))]\<rparr>"
    by (auto simp: OnlineNotifyWorker_def Let_def db_bind_eq_Inr set_handler_def)
  have "login_status l2" "player_UUID l2 = u"
    using load_player_keeps [OF lo] resume_buildings_keeps [OF re] assms(2) s2 by (simp_all add: set_handler_def)
  then show ?thesis by (rule that [OF w]) (simp add: s' s2 set_client_def set_handler_def)
qed

subsection \<open>Whom the workers reach\<close>

definition server_ok :: "server \<Rightarrow> bool" where
  "server_ok s \<longleftrightarrow> chat_ok (chat_worker s) \<and>
     (\<forall>u h. UuidHandlerPoitiner (gate s) u = Some (Some h) \<longrightarrow> login_status (client (connections s h)))"

lemma server_okI:
  assumes "server_ok s" and "chat_ok (chat_worker s')"
    and "\<And>u h. UuidHandlerPoitiner (gate s') u = Some (Some h) \<Longrightarrow>
      UuidHandlerPoitiner (gate s) u = Some (Some h) \<or> login_status (client (connections s' h))"
    and "\<And>h. login_status (client (connections s h)) \<Longrightarrow> login_status (client (connections s' h))"
  shows "server_ok s'"
  using assms unfolding server_ok_def by blast

lemma login_handle2_ok:
  assumes "login_handle2 X now n d s c = Inr ((s', out), c')" and "server_ok s"
  shows "server_ok s'"
proof -
  define u where "u = player_UUID (client (connections s n))"
  from assms(1) u_def [symmetric] obtain w index c1 l where o: "OnlineNotify (redis X) u (Some (Some n)) (chat_worker s) c = Inr ((w, index), c1)"
    and l: "login_status l" and s': "s' = set_client n l (set_handler u (Some (Some n)) s)
      \<lparr>chat_worker := w, to_workers := to_workers s @ [(''logic'', request_body u (le_short LoginRequest_ID)),
         (''pvpServer'', request_body u (le_short LoginRequest_ID))]\<rparr>"
    by (rule login_handle2_cases)
  have "chat_ok w" using OnlineNotify_ok [OF _ o] assms(2) by (simp add: server_ok_def)
  then show ?thesis
    using l by (intro server_okI [OF assms(2)]) (auto simp: s' set_client_def set_handler_def split: if_splits)
qed

lemma login_handle_ok:
  assumes "login_handle X now unset n d model s c = Inr ((s', out), c')" and "server_ok s"
  shows "server_ok s'"
proof (cases "login_handle2 X now n d s c")
  case (Inr r)
  then show ?thesis using assms login_handle2_ok [of X now n d s c]
    by (auto simp: login_handle_def Let_def db_bind_eq_Inr server_ok_def set_handler_def close_other_def
        split: if_splits option.splits)
next
  case (Inl e)
  then show ?thesis using assms
    by (auto simp: login_handle_def Let_def db_bind_eq_Inr server_ok_def set_handler_def close_other_def
        split: if_splits option.splits)
qed

lemma set_client_ok:
  "server_ok s \<Longrightarrow> login_status l \<or> login_status l = login_status (client (connections s n)) \<Longrightarrow> server_ok (set_client n l s)"
  by (auto simp: server_ok_def set_client_def)

lemma LoginRequestService_ok:
  assumes "LoginRequestService X now unset n account passwd s c = Inr ((s', out), c')" and "server_ok s"
  shows "server_ok s'"
proof (cases "login_status (client (connections s n))")
  case True
  with assms show ?thesis by (simp add: LoginRequestService_def)
next
  case False
  with assms(1) obtain found c1 where r: "(case found of None \<Rightarrow> db_return (s, [(n, simple_answer LoginRequest_ID 0 (-1))])
        | Some (u, d) \<Rightarrow> login_handle X now unset n (case d of None \<Rightarrow> 0 | Some d \<Rightarrow> d) True
            (set_client n ((client (connections s n))\<lparr>player_UUID := u, login_status := True\<rparr>) s)) c1 = Inr ((s', out), c')"
    by (auto simp: LoginRequestService_def Let_def db_bind_eq_Inr)
  show ?thesis
  proof (cases found)
    case None
    with r assms(2) show ?thesis by simp
  next
    case (Some ud)
    then obtain u d where ud: "found = Some (u, d)" by (cases ud) simp
    have "server_ok (set_client n ((client (connections s n))\<lparr>player_UUID := u, login_status := True\<rparr>) s)"
      by (rule set_client_ok [OF assms(2)]) simp
    with r show ?thesis unfolding ud by (auto elim: login_handle_ok)
  qed
qed

lemma RegisterRequestService_ok:
  assumes "RegisterRequestService X now unset uuid n name race s c = Inr ((s', out), c')" and "server_ok s"
  shows "server_ok s'"
  using assms
  by (auto simp: RegisterRequestService_def Let_def db_bind_eq_Inr split: if_splits option.splits
      elim!: login_handle_ok intro!: set_client_ok)

lemma OnClose_ok:
  assumes "OnClose X now n s c = Inr ((s', out), c')" and "server_ok s"
  shows "server_ok s'"
proof -
  define k where "k = connections s n"
  define u where "u = player_UUID (client k)"
  define s1 where "s1 = (case UuidHandlerPoitiner (gate s) u of None \<Rightarrow> s
    | Some _ \<Rightarrow> if is_client_off k then set_handler u None (OffLineNotifyWorker u s) else OffLineNotifyWorker u s)"
  define s2 where "s2 = s1\<lparr>connections := (connections s1)(n := k\<lparr>client := (client k)\<lparr>building_timer := Map.empty\<rparr>,
      offline_handler := None, closed := True\<rparr>)\<rparr>"
  have "server_ok s1"
    using assms(2) OfflineNotify_ok
    by (auto simp: s1_def server_ok_def OffLineNotifyWorker_def Let_def set_handler_def split: option.splits if_splits)
  moreover have "connections s1 = connections s"
    by (simp add: s1_def OffLineNotifyWorker_def Let_def set_handler_def split: option.splits)
  ultimately have ok: "server_ok s2" by (auto simp: s2_def k_def server_ok_def)
  from assms(1) consider "s' = s2" | waiting diamonds c1 out where "login_handle2 X now waiting diamonds s2 c1 = Inr ((s', out), c')"
    unfolding OnClose_def Let_def k_def [symmetric] u_def [symmetric] s1_def [symmetric] s2_def [symmetric]
    by (fastforce simp: db_bind_eq_Inr split: option.splits if_splits)
  then show ?thesis by cases (use ok login_handle2_ok in auto)
qed

lemma send_to_player_table:
  "UuidHandlerPoitiner (fold (send_to_player m) uuids g) u = Some (Some h) \<Longrightarrow> UuidHandlerPoitiner g u = Some (Some h)"
proof (induction uuids arbitrary: g)
  case (Cons v uuids)
  then have "UuidHandlerPoitiner (send_to_player m v g) u = Some (Some h)" by simp
  then show ?case by (auto simp: send_to_player_def split: option.splits if_splits)
qed simp

lemma handler_in_gateway_table:
  "handler_in_gateway data g = Inr g' \<Longrightarrow> UuidHandlerPoitiner g' u = Some (Some h) \<Longrightarrow> UuidHandlerPoitiner g u = Some (Some h)"
  by (auto simp: handler_in_gateway_def Let_def split: if_splits dest: send_to_player_table)

text \<open>What happens at the gateway, in the order in which its thread does it.\<close>

inductive gateway_step :: "'c outside \<Rightarrow> server \<times> 'c \<Rightarrow> server \<times> 'c \<Rightarrow> bool" for X where
  connects: "gateway_step X (s, c) (fst (OnConnect now n s), c)"
| challenged: "gateway_step X (s, c) (fst (ServerChallengeResponseService number n s), c)"
| beats: "gateway_step X (s, c) (HeartBeatRequestService now n s, c)"
| logs_in: "LoginRequestService X now unset n account passwd s c = Inr ((s', out), c') \<Longrightarrow> gateway_step X (s, c) (s', c')"
| registers: "RegisterRequestService X now unset uuid n name race s c = Inr ((s', out), c') \<Longrightarrow> gateway_step X (s, c) (s', c')"
| names: "SetNameRequestService X n name s c = Inr (out, c') \<Longrightarrow> gateway_step X (s, c) (s, c')"
| asks_name: "GetRandNameRequestService X unset n sex s c = Inr ((s', out), c') \<Longrightarrow> gateway_step X (s, c) (s', c')"
| binds: "BindEmailRequestService X n email passwd s c = Inr (out, c') \<Longrightarrow> gateway_step X (s, c) (s, c')"
| closes: "OnClose X now n s c = Inr ((s', out), c') \<Longrightarrow> gateway_step X (s, c) (s', c')"
| worker_answers: "handler_in_gateway data (gate s) = Inr g \<Longrightarrow> gateway_step X (s, c) (s\<lparr>gate := g\<rparr>, c)"

inductive_cases gateway_stepE: "gateway_step X a b"

lemma GetRandNameRequestService_ok:
  "GetRandNameRequestService X unset n sex s c = Inr ((s', out), c') \<Longrightarrow> server_ok s \<Longrightarrow> server_ok s'"
  by (auto simp: GetRandNameRequestService_def Let_def db_bind_eq_Inr server_ok_def split: option.splits if_splits)

lemma set_connection_ok:
  "server_ok s \<Longrightarrow> client k = client (connections s n) \<Longrightarrow> server_ok (s\<lparr>connections := (connections s)(n := k)\<rparr>)"
  by (auto simp: server_ok_def)

lemma gateway_step_ok: "gateway_step X a b \<Longrightarrow> server_ok (fst a) \<Longrightarrow> server_ok (fst b)"
proof (induction rule: gateway_step.induct)
  case (worker_answers data s g c)
  then show ?case using handler_in_gateway_table [OF worker_answers(1)] by (auto simp: server_ok_def)
qed (auto simp: OnConnect_def ServerChallengeResponseService_def HeartBeatRequestService_def Let_def
    intro: set_connection_ok dest: LoginRequestService_ok RegisterRequestService_ok GetRandNameRequestService_ok OnClose_ok)

definition start_server :: "connection \<Rightarrow> server" where
  "start_server k = \<lparr>gate = \<lparr>UuidHandlerPoitiner = Map.empty, gateway_sent = []\<rparr>, connections = (\<lambda>_. k),
     chat_worker = ChatWorker, to_workers = []\<rparr>"

lemma reached_ok:
  assumes "rtranclp (gateway_step X) (start_server k, c0) (s, c)"
  shows "server_ok s"
proof -
  have "server_ok (fst b)" if "rtranclp (gateway_step X) (start_server k, c0) b" for b
    using that
  proof (induction rule: rtranclp_induct)
    case base
    show ?case by (simp add: server_ok_def start_server_def ChatWorker_ok)
  next
    case (step y z)
    then show ?case using gateway_step_ok by blast
  qed
  from this [OF assms] show ?thesis by simp
qed

text \<open>
  C8. Workers reach only players who have logged in. Whatever connections do, register, log
  in, take over and close, in any order, a message of a worker is handed only to connections
  that have logged in or registered, and every slot of the chat stays free or online, once.
\<close>

theorem workers_reach_logged_in_players:
  assumes "rtranclp (gateway_step X) (start_server k, c0) (s, c)" and "(h, m) \<in> set (delivered text uuids (gate s))"
  shows "login_status (client (connections s h)) \<and> chat_ok (chat_worker s)"
proof -
  from assms(2) obtain u where "UuidHandlerPoitiner (gate s) u = Some (Some h)"
    by (auto simp: delivered_def map_filter_def split: option.splits)
  with reached_ok [OF assms(1)] show ?thesis by (auto simp: server_ok_def)
qed

subsection \<open>Login and logout\<close>

text \<open>
  C13. Leaving undoes a login. When a player who was not online logs in and his connection
  closes, the table of players, the lists of the chat's slots and the numbers of their
  players are as before, and the workers were told both, in this order.
\<close>

theorem leaving_undoes_login:
  assumes "login_handle X now unset n d True s c = Inr ((s1, out), c1)" and "OnClose X later n s1 c1 = Inr ((s2, out2), c2)"
    and "player_UUID (client (connections s n)) = u" and "UuidHandlerPoitiner (gate s) u = None"
    and "UUID_index_map (chat_worker s) u = None" and "chat_ok (chat_worker s)" and "remain_player_index (chat_worker s) \<noteq> []"
    and "is_client_off (connections s n)" and "offline_handler (connections s n) = None"
  shows "gate s2 = gate s \<and> remain_player_index (chat_worker s2) = remain_player_index (chat_worker s) \<and>
    online_player_index (chat_worker s2) = online_player_index (chat_worker s) \<and>
    UUID_index_map (chat_worker s2) = UUID_index_map (chat_worker s) \<and>
    (let hello = request_body u (le_short LoginRequest_ID); bye = request_body u (le_short LogoutRequest_ID) in
     to_workers s2 = to_workers s @ [(''logic'', hello), (''pvpServer'', hello), (''logic'', bye), (''worldmap'', bye), (''pvpServer'', bye)])"
proof -
  from assms(1,3,4) obtain out' where "login_handle2 X now n d s c = Inr ((s1, out'), c1)"
    by (auto simp: login_handle_def Let_def db_bind_eq_Inr)
  then obtain w index c0 l where o: "OnlineNotify (redis X) u (Some (Some n)) (chat_worker s) c = Inr ((w, index), c0)"
    and l: "login_status l" "player_UUID l = u" and s1: "s1 = set_client n l (set_handler u (Some (Some n)) s)
      \<lparr>chat_worker := w, to_workers := to_workers s @ [(''logic'', request_body u (le_short LoginRequest_ID)),
         (''pvpServer'', request_body u (le_short LoginRequest_ID))]\<rparr>"
    using assms(3) by (rule login_handle2_cases)
  let ?j = "last (remain_player_index (chat_worker s))"
  from o assms(7) have w: "remain_player_index w = butlast (remain_player_index (chat_worker s))"
    "online_player_index w = online_player_index (chat_worker s) @ [?j]"
    "UUID_index_map w = (UUID_index_map (chat_worker s))(u \<mapsto> ?j)"
    by (auto simp: OnlineNotify_def db_bind_eq_Inr Let_def)
  have "?j \<notin> set (online_player_index (chat_worker s))"
    using chat_okD(3) [OF assms(6)] last_in_set [OF assms(7)] by auto
  then have "filter (\<lambda>j. j \<noteq> ?j) (online_player_index (chat_worker s)) = online_player_index (chat_worker s)"
    by (simp add: filter_id_conv) metis
  moreover have "gate s2 = gate s \<and> chat_worker s2 = OfflineNotify u w \<and>
      to_workers s2 = to_workers s1 @ [(''logic'', request_body u (le_short LogoutRequest_ID)),
        (''worldmap'', request_body u (le_short LogoutRequest_ID)), (''pvpServer'', request_body u (le_short LogoutRequest_ID))]"
    using assms(2,4,8,9) l
    by (auto simp: OnClose_def Let_def db_bind_eq_Inr s1 set_client_def set_handler_def OffLineNotifyWorker_def fun_upd_idem)
  ultimately show ?thesis using w assms(5,7) by (simp add: OfflineNotify_def Let_def s1 fun_upd_idem)
qed

text \<open>
  A second device strands the first one's slot. When a player who is online logs in on
  another connection and the first one has closed, he is in the table with the new one, but
  nobody was told that he left: the workers hear of a second login, and his slot of the chat
  stays in the list of the online ones and is nobody's.
\<close>

theorem second_device_strands_slot:
  assumes "login_handle X now unset n d True s c = Inr ((s1, out), c1)" and "OnClose X later old s1 c1 = Inr ((s2, out2), c2)"
    and "player_UUID (client (connections s n)) = u" and "player_UUID (client (connections s old)) = u" and "old \<noteq> n"
    and "UuidHandlerPoitiner (gate s) u = Some (Some old)" and "UUID_index_map (chat_worker s) u = Some i"
    and "chat_ok (chat_worker s)" and "remain_player_index (chat_worker s) \<noteq> []"
  shows "chat_ok (chat_worker s2) \<and> stranded i (chat_worker s2) \<and> UuidHandlerPoitiner (gate s2) u = Some (Some n) \<and>
    to_workers s2 = to_workers s @ [(''logic'', request_body u (le_short LoginRequest_ID)), (''pvpServer'', request_body u (le_short LoginRequest_ID))]"
proof -
  from assms(1,3,6) have s1: "s1 = set_handler u None (close_other n d old s)"
    by (simp add: login_handle_def Let_def)
  then have c: "connections s1 old = (connections s old)\<lparr>is_client_off := False, offline_handler := Some (n, d), closing := True\<rparr>"
    "UuidHandlerPoitiner (gate s1) u = None" "chat_worker s1 = chat_worker s" "to_workers s1 = to_workers s"
    by (simp_all add: set_handler_def close_other_def)
  define s1' where "s1' = s1\<lparr>connections := (connections s1)(old := (connections s1 old)\<lparr>client := (client (connections s1 old))
      \<lparr>building_timer := Map.empty\<rparr>, offline_handler := None, closed := True\<rparr>)\<rparr>"
  from assms(2) obtain c1' where "login_handle2 X later n d s1' c1' = Inr ((s2, out2), c2)"
    using c(1,2) assms(4) by (auto simp: OnClose_def Let_def db_bind_eq_Inr s1'_def split: if_splits)
  moreover have "player_UUID (client (connections s1' n)) = u"
    using assms(3,5) by (simp add: s1'_def s1 set_handler_def close_other_def)
  ultimately obtain w index c3 l where o: "OnlineNotify (redis X) u (Some (Some n)) (chat_worker s1') c1' = Inr ((w, index), c3)"
    and s2: "s2 = set_client n l (set_handler u (Some (Some n)) s1')
      \<lparr>chat_worker := w, to_workers := to_workers s1' @ [(''logic'', request_body u (le_short LoginRequest_ID)),
         (''pvpServer'', request_body u (le_short LoginRequest_ID))]\<rparr>"
    by (rule login_handle2_cases)
  from o have "chat_step (redis X) (Online u n) (chat_worker s) c1' = Inr (w, c3)"
    by (simp add: chat_step_def s1'_def c)
  from second_login_strands [OF assms(8,7,9) this] show ?thesis
    by (simp add: s2 set_client_def set_handler_def s1'_def c)
qed

text \<open>
  Registering twice leaves a ghost. When a connection on which a player is online
  registers another account and closes, its first player stays in the table, with a
  connection that has closed, and online in the chat: he is told nothing and never freed.
\<close>

theorem registering_twice_leaves_a_ghost:
  assumes "RegisterRequestService X now unset uuid n name race s c = Inr ((s1, out), c1)"
    and "OnClose X later n s1 c1 = Inr ((s2, out2), c2)"
    and "player_UUID (client (connections s1 n)) \<noteq> u"
    and "UuidHandlerPoitiner (gate s) u = Some (Some n)" and "UUID_index_map (chat_worker s) u = Some i"
    and "offline_handler (connections s n) = None" and "player_UUID (client (connections s n)) = u"
  shows "UuidHandlerPoitiner (gate s2) u = Some (Some n) \<and> closed (connections s2 n) \<and>
    UUID_index_map (chat_worker s2) u = Some i"
proof -
  from assms(1,3,7) obtain v k s0 c0 out0 where k: "player_UUID k = v"
    and h: "login_handle2 X now n 20000 (set_client n k s) c0 = Inr ((s1, out0), c1)"
    by (fastforce simp: RegisterRequestService_def Let_def db_bind_eq_Inr login_handle_def split: if_splits)
  have "player_UUID (client (connections (set_client n k s) n)) = v" using k by (simp add: set_client_def)
  with h obtain w index c3 l where o: "OnlineNotify (redis X) v (Some (Some n)) (chat_worker (set_client n k s)) c0 = Inr ((w, index), c3)"
    and l: "login_status l" "player_UUID l = v"
    and s1: "s1 = set_client n l (set_handler v (Some (Some n)) (set_client n k s))
      \<lparr>chat_worker := w, to_workers := to_workers (set_client n k s) @ [(''logic'', request_body v (le_short LoginRequest_ID)),
         (''pvpServer'', request_body v (le_short LoginRequest_ID))]\<rparr>"
    by (rule login_handle2_cases)
  have v: "v \<noteq> u" using assms(3) l(2) by (simp add: s1 set_client_def)
  then have "UUID_index_map w u = Some i"
    using o assms(5) by (auto simp: OnlineNotify_def db_bind_eq_Inr Let_def set_client_def split: if_splits)
  moreover have "chat_worker s2 = OfflineNotify v w \<and> UuidHandlerPoitiner (gate s2) u = Some (Some n) \<and> closed (connections s2 n)"
    using assms(2,4,6) l v
    by (auto simp: OnClose_def Let_def db_bind_eq_Inr s1 set_client_def set_handler_def OffLineNotifyWorker_def)
  ultimately show ?thesis using v by (auto simp: OfflineNotify_def split: option.splits)
qed

subsection \<open>Examples\<close>

text \<open>
  A Redis that has nothing, a MySQL whose only row is one number, and a connection of player \<open>u\<close>.
\<close>

definition empty_redis :: "unit redis" where
  "empty_redis cmd c = (Some Reply_nil, c)"

definition seven_mysql :: "unit mysql" where
  "seven_mysql sql c = (Some [Some ''00000000000000000000000000000099''], c)"

definition some_outside :: "unit outside" where
  "some_outside = \<lparr>redis = empty_redis, mysql_of = seven_mysql, texts = whole_text,
     blank_letter = \<lparr>email_uuid = [], email_diamond = 0, email_time = 0, other_name = [], email_equip = no_equip\<rparr>,
     config = example_game\<rparr>"

definition some_connection :: "u32 \<Rightarrow> connection" where
  "some_connection u = \<lparr>client = example_player\<lparr>player_UUID := u, login_status := False\<rparr>, challenge_number = 1, last_time = 0, is_client_off = True,
     offline_handler = None, is_get_random_name = False, last_rand_name = [], is_man = True, closing = False, closed = False\<rparr>"

lemma empty_reader [simp]: "SimplerReader empty_redis sql c = Inr (Reply_nil, c)"
  by (simp add: SimplerReader_def empty_redis_def)

lemma empty_writer [simp]: "write_all empty_redis sqls c = Inr ((), c)"
  by (induction sqls) (simp_all add: SimpleWriter_def empty_redis_def db_bind_def)

lemma empty_login:
  "\<exists>s1 out. login_handle2 some_outside now n d s () = Inr ((s1, out), ())"
  by (simp add: login_handle2_def Let_def OnlineNotifyWorker_def OnlineNotify_def load_player_def some_outside_def db_bind_def
      find_user_name_def get_build_map_def scan_def get_player_def get_my_build_num_def get_build_timer_list_def
      get_equip_list_def get_all_hero_def get_all_arm_max_level_def set_handler_def)

lemma empty_login_handler:
  assumes "login_handle2 X now n d s c = Inr ((s1, out), c1)"
  shows "offline_handler (connections s1 k) = offline_handler (connections s k) \<and>
    is_get_random_name (connections s1 k) = is_get_random_name (connections s k)"
  by (rule login_handle2_cases [OF assms refl]) (simp add: set_client_def set_handler_def)

lemma empty_close:
  assumes "offline_handler (connections s n) = None" and "\<not> is_get_random_name (connections s n)"
  shows "\<exists>s2. OnClose some_outside now n s () = Inr ((s2, []), ())"
  using assms by (simp add: OnClose_def Let_def)

definition first_server :: server where
  "first_server = start_server (some_connection 7)"

definition online_server :: server where
  "online_server = set_handler 7 (Some (Some 0)) (first_server\<lparr>chat_worker := one_online\<rparr>)"

lemma one_online_ok: "chat_ok one_online"
  by (rule chat_run_keeps [of chat_ok, OF _ ChatWorker_ok one_online_run]) (rule chat_step_ok)

lemma first_server_fields [simp]:
  "connections first_server n = some_connection 7" "UuidHandlerPoitiner (gate first_server) = Map.empty"
  "chat_worker first_server = ChatWorker" "to_workers first_server = []"
  by (simp_all add: first_server_def start_server_def)

lemma online_server_fields [simp]:
  "connections online_server n = some_connection 7" "UuidHandlerPoitiner (gate online_server) = [7 \<mapsto> Some 0]"
  "chat_worker online_server = one_online" "to_workers online_server = []"
  by (simp_all add: online_server_def set_handler_def)

lemma some_connection_fields [simp]:
  "player_UUID (client (some_connection u)) = u" "login_status (client (some_connection u)) = False"
  "is_client_off (some_connection u)" "offline_handler (some_connection u) = None"
  "is_get_random_name (some_connection u) = False"
  by (simp_all add: some_connection_def)

theorem leaving_undoes_login_witness:
  "\<exists>s1 s2 out. login_handle some_outside 5 0 0 20 True first_server () = Inr ((s1, out), ()) \<and>
     OnClose some_outside 9 0 s1 () = Inr ((s2, []), ()) \<and> gate s2 = gate first_server \<and>
     remain_player_index (chat_worker s2) = remain_player_index ChatWorker \<and> length (to_workers s2) = 5"
proof -
  obtain s1 out where l: "login_handle2 some_outside 5 0 20 first_server () = Inr ((s1, out), ())" using empty_login by blast
  have h: "login_handle some_outside 5 0 0 20 True first_server () =
      Inr ((s1, (0, simple_answer LoginRequest_ID 0 0) # out), ())"
    using l by (simp add: login_handle_def)
  obtain s2 where c: "OnClose some_outside 9 0 s1 () = Inr ((s2, []), ())"
    using empty_close [of s1 0 9] empty_login_handler [OF l, of 0] by auto
  have "UUID_index_map ChatWorker = Map.empty" by (simp add: ChatWorker_def)
  from leaving_undoes_login [OF h c refl] this remain_start ChatWorker_ok h c show ?thesis by (auto simp: Let_def)
qed

theorem second_device_strands_slot_witness:
  "\<exists>s1 s2 out out2. login_handle some_outside 5 0 1 20 True online_server () = Inr ((s1, out), ()) \<and>
     OnClose some_outside 9 0 s1 () = Inr ((s2, out2), ()) \<and> stranded 0 (chat_worker s2) \<and> length (to_workers s2) = 2"
proof -
  let ?s1 = "set_handler 7 None (close_other 1 20 0 online_server)"
  have h: "login_handle some_outside 5 0 1 20 True online_server () = Inr ((?s1, [(1, simple_answer LoginRequest_ID 0 0)]), ())"
    by (simp add: login_handle_def)
  have "\<not> gone ?s1 1" by (simp add: gone_def set_handler_def close_other_def some_connection_def)
  then have "\<exists>s2 out2. OnClose some_outside 9 0 ?s1 () = Inr ((s2, out2), ())"
    using empty_login by (simp add: OnClose_def Let_def set_handler_def close_other_def)
  then obtain s2 out2 where c: "OnClose some_outside 9 0 ?s1 () = Inr ((s2, out2), ())" by blast
  have "UUID_index_map one_online 7 = Some 0" "remain_player_index one_online \<noteq> []" by (simp_all add: one_online_def)
  from second_device_strands_slot [OF h c, of 7 0] this one_online_ok h c show ?thesis by auto
qed

theorem registering_twice_leaves_a_ghost_witness:
  "\<exists>s1 s2 out. RegisterRequestService some_outside 5 0 (\<lambda>_. ''b'') 0 ''bob'' 1 online_server () = Inr ((s1, out), ()) \<and>
     OnClose some_outside 9 0 s1 () = Inr ((s2, []), ()) \<and> closed (connections s2 0) \<and>
     UuidHandlerPoitiner (gate s2) 7 = Some (Some 0)"
proof -
  have e: "exsit_user_name empty_redis ''bob'' () = Inr (False, ())"
    by (simp add: exsit_user_name_def check_string_def find_user_uuid_def db_bind_def)
  have u: "user_register seven_mysql 5 ([], [], 7) () =
      Inr ((''00000000000000000000000000000099'', ''000000000'', 99), ())"
    by code_simp
  have n: "set_user_name empty_redis 99 ''bob'' () = Inr (True, ())" by code_simp
  have w: "Writer seven_mysql sql () = Inr ((), ())" for sql by (simp add: Writer_def)
  have i: "init_new_player empty_redis seven_mysql whole_text 5 (\<lambda>_. ''b'') 99 ''bob'' 1 () = Inr ((), ())"
    by (simp only: init_new_player_def Let_def db_bind_def n w empty_writer sum.case prod.case)
  obtain s1 out where l: "login_handle2 some_outside 5 0 20000
      (set_client 0 ((client (some_connection 7))\<lparr>player_UUID := 99, login_status := True\<rparr>) online_server) () =
      Inr ((s1, out), ())" using empty_login by blast
  then have r: "RegisterRequestService some_outside 5 0 (\<lambda>_. ''b'') 0 ''bob'' 1 online_server () =
      Inr ((s1, (0, AccountInfoResponse ''00000000000000000000000000000099'' ''000000000'') # out), ())"
    using e u i by (simp add: RegisterRequestService_def Let_def login_handle_def db_bind_def some_outside_def)
  obtain s2 where c: "OnClose some_outside 9 0 s1 () = Inr ((s2, []), ())"
    using empty_close [of s1 0 9] empty_login_handler [OF l, of 0] by (auto simp: set_client_def)
  have "player_UUID (client (connections s1 0)) = 99"
    using l by (rule login_handle2_cases [where u = 99]) (simp_all add: set_client_def)
  moreover have "UUID_index_map one_online 7 = Some 0" by (simp add: one_online_def)
  ultimately show ?thesis using registering_twice_leaves_a_ghost [OF r c, of 7 0] r c by auto
qed

theorem workers_reach_logged_in_players_witness:
  "\<exists>s u. rtranclp (gateway_step some_outside) (first_server, ()) (s, ()) \<and>
     (0, ''hi'') \<in> set (delivered ''hi'' [u] (gate s)) \<and> login_status (client (connections s 0))"
proof -
  have v: "verify_user seven_mysql ''eve'' ''pw'' () = Inr (Some (99, Some 99), ())" by code_simp
  let ?s = "set_client 0 ((client (some_connection 7))\<lparr>player_UUID := 99, login_status := True\<rparr>) first_server"
  obtain s1 out where l: "login_handle2 some_outside 5 0 99 ?s () = Inr ((s1, out), ())" using empty_login by blast
  then have "LoginRequestService some_outside 5 0 0 ''eve'' ''pw'' first_server () =
      Inr ((s1, (0, simple_answer LoginRequest_ID 0 0) # out), ())"
    using v by (simp add: LoginRequestService_def Let_def db_bind_def login_handle_def some_outside_def set_client_def)
  then have r: "rtranclp (gateway_step some_outside) (start_server (some_connection 7), ()) (s1, ())"
    by (intro r_into_rtranclp logs_in) (simp add: first_server_def)
  have "UuidHandlerPoitiner (gate s1) 99 = Some (Some 0)"
    using l by (rule login_handle2_cases [where u = 99]) (simp_all add: set_client_def set_handler_def)
  then have d: "(0, ''hi'') \<in> set (delivered ''hi'' [99] (gate s1))" by (simp add: delivered_def map_filter_def)
  from workers_reach_logged_in_players [OF r d] r d show ?thesis unfolding first_server_def by blast
qed

end
