(* ===== verification/Battle.thy ===== *)
theory Battle
  imports Redis_Client Worker_Frames
begin

section \<open>Battles between players\<close>

text \<open>
  Models \<open>workers/pvp_worker\<close>: \<open>BattleMap\<close>, the battles by defender (\<open>BattleMapManager\<close>), who is
  online (\<open>PlayerManager\<close>), the messages of the two sides (\<open>GameHandler::handleMsg\<close>) and one
  turn of the server's loop (\<open>pvpServer.cpp\<close>) with its timer. A \<open>std::map\<close> is a list sorted
  by key. Floats are copied and kept as their bits; unpacking by msgpack is a parameter.
\<close>

subsection \<open>One battle\<close>

definition SERVER_TICK_TIME :: nat where "SERVER_TICK_TIME = 100"
definition THREE_STAR_REWARD :: int where "THREE_STAR_REWARD = 6"
definition SECONDS_PER_BATTLE :: nat where "SECONDS_PER_BATTLE = 300"

record battle_map =
  mTicks :: u32
  attackerID :: u32
  defenderID :: u32
  mBuildingNum :: u32
  mDiedBuildingNum :: u32
  mTownhallIsDied :: bool
  mStarNum :: nat
  mAtkerPoint :: int
  mDfderPoint :: int
  mIsStart :: bool
  mWoodLoot :: int
  mStoneLoot :: int
  mOreLoot :: int
  mConcreteLoot :: int

definition number_read :: "string option \<Rightarrow> int" where
  "number_read r = gameToInt (case r of None \<Rightarrow> [] | Some s \<Rightarrow> s)"

text \<open>The number of buildings is read and replaced by 50; both points are the attacker's.\<close>

definition BattleMap :: "'c redis \<Rightarrow> u32 \<Rightarrow> u32 \<Rightarrow> ('c, battle_map) db" where
  "BattleMap R aID dID =
     db_bind (getBuildingNumByID R (sint dID)) (\<lambda>_.
     db_bind (getPlayerPointsByID R (sint aID)) (\<lambda>atkerPoint.
     db_bind (getPlayerPointsByID R (sint aID)) (\<lambda>dfderPoint.
     db_return \<lparr>mTicks = 0, attackerID = aID, defenderID = dID, mBuildingNum = 50, mDiedBuildingNum = 0, mTownhallIsDied = False,
       mStarNum = 0, mAtkerPoint = number_read atkerPoint, mDfderPoint = number_read dfderPoint, mIsStart = True,
       mWoodLoot = 0, mStoneLoot = 0, mOreLoot = 0, mConcreteLoot = 0\<rparr>)))"

definition getCurTick :: "battle_map \<Rightarrow> nat" where
  "getCurTick b = unat (mTicks b) mod 2 ^ 16"

text \<open>The quotient is one of unsigned numbers, so the ratio is whole.\<close>

definition plusDiedBuildingNum :: "battle_map \<Rightarrow> crash + battle_map" where
  "plusDiedBuildingNum b =
     (let b1 = (if mDiedBuildingNum b < mBuildingNum b then b\<lparr>mDiedBuildingNum := mDiedBuildingNum b + 1\<rparr> else b) in
      if mBuildingNum b1 = 0 then Inl DivisionByZero
      else let ratio = mDiedBuildingNum b1 div mBuildingNum b1 in
        Inr (if 1 \<le> 2 * uint ratio \<and> uint ratio < 1 then b1\<lparr>mStarNum := if mTownhallIsDied b1 then 2 else 1\<rparr>
             else if 1 \<le> uint ratio then b1\<lparr>mStarNum := 3\<rparr> else b1))"

text \<open>What the two sides win, as computed when the time is over, on a logout and on a stop.\<close>

definition getted_points :: "battle_map \<Rightarrow> int \<times> int" where
  "getted_points b =
     (let star = int (mStarNum b); diff = mAtkerPoint b - mDfderPoint b in
      if 0 < star then
        let atker = (30 - c_div diff 10) * (star div 3) + (if star = 3 then THREE_STAR_REWARD else 0) in (atker, 0 - atker)
      else let dfder = 20 + c_div diff 20 in (0 - dfder, dfder))"

subsection \<open>Battles and players\<close>

text \<open>\<open>battleMaps\<close> by the defender, in the order of the keys; \<open>playerPairs\<close> from attacker to defender.\<close>

record pvp =
  onlinePlayers :: "u32 \<Rightarrow> int option"
  battleMaps :: "(u32 \<times> battle_map) list"
  playerPairs :: "u32 \<Rightarrow> u32 option"

definition isOnline :: "u32 \<Rightarrow> pvp \<Rightarrow> bool" where
  "isOnline u s \<longleftrightarrow> onlinePlayers s u \<noteq> None"

definition userLogin :: "int \<Rightarrow> u32 \<Rightarrow> pvp \<Rightarrow> pvp" where
  "userLogin now u s = s\<lparr>onlinePlayers := (onlinePlayers s)(u \<mapsto> now)\<rparr>"

definition userLogout :: "u32 \<Rightarrow> pvp \<Rightarrow> pvp" where
  "userLogout u s = s\<lparr>onlinePlayers := (onlinePlayers s)(u := None)\<rparr>"

definition getBattleMap :: "u32 \<Rightarrow> pvp \<Rightarrow> battle_map option" where
  "getBattleMap u s = map_of (battleMaps s) u"

definition isAttackerOrDefender :: "u32 \<Rightarrow> pvp \<Rightarrow> nat" where
  "isAttackerOrDefender u s =
     (case getBattleMap u s of None \<Rightarrow> (if playerPairs s u \<noteq> None then 2 else 0) | Some _ \<Rightarrow> 1)"

definition getPeerUid :: "u32 \<Rightarrow> pvp \<Rightarrow> u32" where
  "getPeerUid u s = (case getBattleMap u s of
     None \<Rightarrow> (case playerPairs s u of None \<Rightarrow> 0 | Some d \<Rightarrow> d) | Some b \<Rightarrow> attackerID b)"

definition deinitializeBattleMap :: "u32 \<Rightarrow> pvp \<Rightarrow> pvp" where
  "deinitializeBattleMap u s = s\<lparr>battleMaps := filter (\<lambda>(k, b). k \<noteq> u) (battleMaps s)\<rparr>"

fun insert_battle :: "u32 \<Rightarrow> battle_map \<Rightarrow> (u32 \<times> battle_map) list \<Rightarrow> (u32 \<times> battle_map) list" where
  "insert_battle u b [] = [(u, b)]"
| "insert_battle u b ((k, x) # xs) = (if u < k then (u, b) # (k, x) # xs else (k, x) # insert_battle u b xs)"

definition insertBattleMap :: "u32 \<Rightarrow> battle_map \<Rightarrow> pvp \<Rightarrow> bool \<times> pvp" where
  "insertBattleMap u b s = (case getBattleMap u s of
     Some _ \<Rightarrow> (False, s)
   | None \<Rightarrow> (True, s\<lparr>battleMaps := insert_battle u b (battleMaps s), playerPairs := (playerPairs s)(attackerID b \<mapsto> u)\<rparr>))"

definition change_battle :: "u32 \<Rightarrow> (battle_map \<Rightarrow> battle_map) \<Rightarrow> pvp \<Rightarrow> pvp" where
  "change_battle u f s = s\<lparr>battleMaps := map (\<lambda>(k, b). (k, if k = u then f b else b)) (battleMaps s)\<rparr>"

subsection \<open>Messages\<close>

record battleSoldier =
  bs_sid :: string
  bs_x :: u32
  bs_y :: u32
  bs_tgtIsBuilding :: bool
  bs_targetID :: string
  bs_curHP :: int
  bs_category :: int
  bs_level :: int

record battleBuilding =
  bb_bid :: string
  bb_curHP :: int
  bb_curRes :: int
  bb_category :: int
  bb_level :: int
  bb_x :: u32
  bb_y :: u32

record stateSoldier =
  ss_sid :: string
  ss_x :: u32
  ss_y :: u32
  ss_tgtIsBuilding :: bool
  ss_targetID :: string
  ss_curHP :: int
  ss_curState :: int

text \<open>The fields that the handler reads.\<close>

datatype pvp_request =
    msgStartAttack string "string list" int u32 u32
  | msgHeroCastSkillRequest int bool "string list" int
  | msgObjectDieRequest string bool bool
  | msgHeroMoveRequest int u32 u32
  | msgCurBattleInfoRequest "battleSoldier list" "battleSoldier list" "battleBuilding list"
  | msgDfderIsreadyRequest bool
  | msgReportCurStateRequest "stateSoldier list"
  | msgSetRallypointRequest u32 u32 string bool
  | msgAtkerStopBattleRequest bool

text \<open>The fields that the handler sets; of a result without loot the loot is not set.\<close>

datatype pvp_response =
    msgBeingAtkResponse u32 string
  | msgDfderLoginResponse u32 string
  | msgDfderLogoutResponse bool
  | msgAtkerLogoutResponse bool
  | msgReportBattleResultToAtkerResponse nat int "(int \<times> int \<times> int \<times> int) option"
  | msgReportBattleResultToDfderResponse nat int "(int \<times> int \<times> int \<times> int) option"
  | msgStartAtkToDfderResponse "soldier list" int u32 u32
  | msgStartAtkToAtkerResponse "soldier list" int bool
  | msgRequestAckResponse int
  | msgHeroCastSkillResponse int bool "string list" int
  | msgObjectDieResponse string bool
  | msgHeroMoveResponse int u32 u32
  | msgCurBattleInfoResponse "battleSoldier list" "battleSoldier list" "battleBuilding list"
  | msgDfderIsreadyResponse bool
  | msgReportCurStateResponse "stateSoldier list"
  | msgSetRallypointResponse u32 u32 string bool
  | msgAtkerStopBattleToDfderResponse bool
  | msgAskCurStateResponse bool

type_synonym sends = "(pvp_response \<times> u32) list"

definition msgHeroCastSkillRequest_ID :: int where "msgHeroCastSkillRequest_ID = 1057"
definition msgObjectDieRequest_ID :: int where "msgObjectDieRequest_ID = 1058"
definition msgHeroMoveRequest_ID :: int where "msgHeroMoveRequest_ID = 1059"
definition msgSetRallypointRequest_ID :: int where "msgSetRallypointRequest_ID = 1067"

definition results :: "battle_map \<Rightarrow> (int \<times> int \<times> int \<times> int) option \<Rightarrow> u32 \<Rightarrow> u32 \<Rightarrow> sends" where
  "results b loot atker dfder = (case getted_points b of (a, d) \<Rightarrow>
     [(msgReportBattleResultToAtkerResponse (mStarNum b) a loot, atker), (msgReportBattleResultToDfderResponse (mStarNum b) d loot, dfder)])"

subsection \<open>The handler\<close>

text \<open>
  What a message of a player does: whether the loop over the messages is left, the new state
  and what is sent to whom. \<open>junk\<close> is the value of the variable \<open>peerUid\<close> that nobody set.
\<close>

definition on_login :: "'c redis \<Rightarrow> u32 \<Rightarrow> int \<Rightarrow> u32 \<Rightarrow> pvp \<Rightarrow> ('c, pvp \<times> sends) db" where
  "on_login R junk now u s =
     (let s1 = userLogin now u s in
      case getBattleMap u s1 of
        None \<Rightarrow> db_return (s1, [])
      | Some b \<Rightarrow>
          db_bind (getUsernameByID R (sint junk)) (\<lambda>atkerUname.
          db_bind (getUsernameByID R (sint u)) (\<lambda>dfderUname.
          db_return (change_battle u (\<lambda>b. b\<lparr>mIsStart := False\<rparr>) s1,
            [(msgBeingAtkResponse junk (case atkerUname of None \<Rightarrow> [] | Some n \<Rightarrow> n), u),
             (msgDfderLoginResponse u (case dfderUname of None \<Rightarrow> [] | Some n \<Rightarrow> n), attackerID b)]))))"

definition on_logout :: "u32 \<Rightarrow> pvp \<Rightarrow> bool \<times> pvp \<times> sends" where
  "on_logout u s =
     (let s1 = userLogout u s; ret = isAttackerOrDefender u s1; peer = getPeerUid u s1 in
      if ret = 1 then (False, s1, [(msgDfderLogoutResponse True, peer)])
      else if ret = 2 then
        (case getBattleMap peer s1 of
           None \<Rightarrow> (True, s1, [(msgAtkerLogoutResponse True, peer)])
         | Some b \<Rightarrow> (False, deinitializeBattleMap peer s1, (msgAtkerLogoutResponse True, peer) # results b None u peer))
      else (False, s1, []))"

definition on_start :: "'c redis \<Rightarrow> u32 \<Rightarrow> u32 \<Rightarrow> string \<Rightarrow> string list \<Rightarrow> int \<Rightarrow> u32 \<Rightarrow> u32 \<Rightarrow> pvp \<Rightarrow> ('c, pvp \<times> sends) db" where
  "on_start R junk u defenderUname sidList heroID x y s =
     db_bind (getPlayerIDByUname R defenderUname) (\<lambda>found.
       let peer = (case found of None \<Rightarrow> junk | Some i \<Rightarrow> word_of_int i) in
       if getBattleMap peer s \<noteq> None then db_return (s, [])
       else db_bind (BattleMap R u peer) (\<lambda>item.
         let s1 = snd (insertBattleMap peer item s) in
         db_bind (getSoldierInfoByIDs R (sint u) sidList) (\<lambda>atkSoldiers.
         db_bind (getDefenderSoldiers R (sint peer)) (\<lambda>(_, dfderSoldiers).
         db_return (s1, [(msgStartAtkToDfderResponse (case atkSoldiers of None \<Rightarrow> [] | Some ss \<Rightarrow> ss) heroID x y, peer),
           (msgStartAtkToAtkerResponse dfderSoldiers 2 (isOnline peer s1), u)])))))"

definition loot_of :: "int \<Rightarrow> int \<Rightarrow> battle_map \<Rightarrow> battle_map" where
  "loot_of buildingType n b =
     (if buildingType = 1 then b\<lparr>mWoodLoot := to_int32 (mWoodLoot b + n)\<rparr>
      else if buildingType = 2 then b\<lparr>mStoneLoot := to_int32 (mStoneLoot b + n)\<rparr>
      else if buildingType = 3 then b\<lparr>mOreLoot := to_int32 (mOreLoot b + n)\<rparr>
      else if buildingType = 4 then b\<lparr>mConcreteLoot := to_int32 (mConcreteLoot b + n)\<rparr> else b)"

definition building_loot :: "'c redis \<Rightarrow> u32 \<Rightarrow> string \<Rightarrow> battle_map \<Rightarrow> ('c, battle_map) db" where
  "building_loot R peer objectID b =
     db_bind (getBuildingType R (sint peer) objectID) (\<lambda>ty. case ty of
       None \<Rightarrow> db_return b
     | Some ty \<Rightarrow> if ty \<in> {1, 2, 3, 4}
         then db_bind (getBuildingCurRes R (sint peer) objectID) (\<lambda>res.
              db_return (case res of None \<Rightarrow> b | Some n \<Rightarrow> loot_of ty n b))
         else db_return b)"

text \<open>The battle is looked up by the peer and used without a test.\<close>

definition on_die :: "'c redis \<Rightarrow> u32 \<Rightarrow> string \<Rightarrow> bool \<Rightarrow> bool \<Rightarrow> pvp \<Rightarrow> ('c, pvp \<times> sends) db" where
  "on_die R u objectID isBuilding isTownhall s =
     (let peer = getPeerUid u s;
          out = [(msgObjectDieResponse objectID isBuilding, peer), (msgRequestAckResponse msgObjectDieRequest_ID, u)] in
      if peer = 0 then db_return (s, [])
      else db_bind (setSoldierDie R (sint peer) objectID) (\<lambda>_.
        if isAttackerOrDefender u s = 2 \<and> isBuilding then
          (case getBattleMap peer s of
             None \<Rightarrow> db_lift (Inl NullPointer)
           | Some b \<Rightarrow>
               db_bind (db_lift (plusDiedBuildingNum (if isTownhall then b\<lparr>mTownhallIsDied := True\<rparr> else b))) (\<lambda>b1.
               db_bind (building_loot R peer objectID b1) (\<lambda>b2. db_return (change_battle peer (\<lambda>_. b2) s, out))))
        else db_return (s, out)))"

definition on_stop :: "u32 \<Rightarrow> bool \<Rightarrow> pvp \<Rightarrow> pvp \<times> sends" where
  "on_stop u isStop s =
     (let peer = getPeerUid u s;
          out = [(msgAtkerStopBattleToDfderResponse isStop, peer), (msgRequestAckResponse msgAtkerStopBattleRequest_ID, u)] in
      case getBattleMap peer s of
        None \<Rightarrow> (s, out)
      | Some b \<Rightarrow> (deinitializeBattleMap peer s,
          out @ results b (Some (mWoodLoot b, mStoneLoot b, mOreLoot b, mConcreteLoot b)) u peer))"

definition on_request :: "'c redis \<Rightarrow> u32 \<Rightarrow> u32 \<Rightarrow> pvp_request \<Rightarrow> pvp \<Rightarrow> ('c, pvp \<times> sends) db" where
  "on_request R junk u r s =
     (let peer = getPeerUid u s in
      case r of
        msgStartAttack name sids hero x y \<Rightarrow> on_start R junk u name sids hero x y s
      | msgHeroCastSkillRequest hero isAtk targets skill \<Rightarrow>
          db_return (s, [(msgRequestAckResponse msgHeroCastSkillRequest_ID, u), (msgHeroCastSkillResponse hero isAtk targets skill, peer)])
      | msgObjectDieRequest obj isBuilding isTownhall \<Rightarrow> on_die R u obj isBuilding isTownhall s
      | msgHeroMoveRequest hero x y \<Rightarrow>
          db_return (s, if peer = 0 then [] else [(msgRequestAckResponse msgHeroMoveRequest_ID, u), (msgHeroMoveResponse hero x y, peer)])
      | msgCurBattleInfoRequest as ds bs \<Rightarrow>
          db_return (s, if peer = 0 then [] else [(msgCurBattleInfoResponse as ds bs, peer)])
      | msgDfderIsreadyRequest ready \<Rightarrow>
          db_return (if peer = 0 \<or> getBattleMap u s = None then (s, [])
            else (change_battle u (\<lambda>b. b\<lparr>mIsStart := True\<rparr>) s, [(msgDfderIsreadyResponse ready, peer)]))
      | msgReportCurStateRequest ss \<Rightarrow> db_return (s, if peer = 0 then [] else [(msgReportCurStateResponse ss, peer)])
      | msgSetRallypointRequest x y target isBuilding \<Rightarrow>
          db_return (s, [(msgRequestAckResponse msgSetRallypointRequest_ID, u), (msgSetRallypointResponse x y target isBuilding, peer)])
      | msgAtkerStopBattleRequest isStop \<Rightarrow> db_return (on_stop u isStop s))"

text \<open>
  One message: the player's number, the id and the text, as the gateway sent them. A text
  that cannot be unpacked is ignored.
\<close>

definition on_message ::
  "'c redis \<Rightarrow> (int \<Rightarrow> string \<Rightarrow> pvp_request option) \<Rightarrow> u32 \<Rightarrow> int \<Rightarrow> string \<Rightarrow> pvp \<Rightarrow> ('c, bool \<times> pvp \<times> sends) db" where
  "on_message R unpack junk now data s =
     db_bind (db_lift (parse_request data)) (\<lambda>(u, msgID, packed).
       if msgID = LoginRequest_ID then db_bind (on_login R junk now u s) (\<lambda>r. db_return (False, r))
       else if msgID = LogoutRequest_ID then db_return (on_logout u s)
       else (case unpack msgID packed of None \<Rightarrow> db_return (False, s, [])
         | Some r \<Rightarrow> db_bind (on_request R junk u r s) (\<lambda>r. db_return (False, r))))"

text \<open>The messages that are in the queue; what is left of them when the loop is left early.\<close>

fun handleMsg ::
  "'c redis \<Rightarrow> (int \<Rightarrow> string \<Rightarrow> pvp_request option) \<Rightarrow> u32 \<Rightarrow> int \<Rightarrow> string list \<Rightarrow> pvp \<Rightarrow> ('c, string list \<times> pvp \<times> sends) db" where
  "handleMsg R unpack junk now [] s = db_return ([], s, [])"
| "handleMsg R unpack junk now (m # ms) s = db_bind (on_message R unpack junk now m s) (\<lambda>(stop, s1, out1).
     if stop then db_return (ms, s1, out1)
     else db_bind (handleMsg R unpack junk now ms s1) (\<lambda>(left, s2, out2). db_return (left, s2, out1 @ out2)))"

subsection \<open>A turn of the clock\<close>

text \<open>One battle: it waits, goes on, or is over; then the points are written.\<close>

definition tick_battle :: "'c redis \<Rightarrow> battle_map \<Rightarrow> ('c, battle_map option \<times> sends) db" where
  "tick_battle R b =
     (if \<not> mIsStart b then db_return (Some b, [])
      else
        let b1 = b\<lparr>mTicks := mTicks b + 1\<rparr>; atker = attackerID b1; dfder = defenderID b1;
            asks = (if getCurTick b1 mod (2000 div SERVER_TICK_TIME) = 0
                    then [(msgAskCurStateResponse True, atker), (msgAskCurStateResponse True, dfder)] else []) in
        if (1000 div SERVER_TICK_TIME) * SECONDS_PER_BATTLE \<le> getCurTick b1 then
          db_bind (plusPlayerPoint R (sint atker) (fst (getted_points b1))) (\<lambda>_.
          db_bind (plusPlayerPoint R (sint dfder) (snd (getted_points b1))) (\<lambda>_.
          db_return (None, asks @ results b1 None atker dfder)))
        else db_return (Some b1, asks))"

fun tick_battles :: "'c redis \<Rightarrow> (u32 \<times> battle_map) list \<Rightarrow> ('c, (u32 \<times> battle_map) list \<times> sends) db" where
  "tick_battles R [] = db_return ([], [])"
| "tick_battles R ((k, b) # bs) = db_bind (tick_battle R b) (\<lambda>(b1, out1).
     db_bind (tick_battles R bs) (\<lambda>(bs1, out2).
     db_return ((case b1 of None \<Rightarrow> bs1 | Some b1 \<Rightarrow> (k, b1) # bs1), out1 @ out2)))"

definition updateBattleMaps :: "'c redis \<Rightarrow> pvp \<Rightarrow> ('c, pvp \<times> sends) db" where
  "updateBattleMaps R s = db_bind (tick_battles R (battleMaps s)) (\<lambda>(bs, out). db_return (s\<lparr>battleMaps := bs\<rparr>, out))"

subsection \<open>What holds of every battle\<close>

text \<open>
  A HGET changes nothing at the server. A battle has no stars until all of its 50 buildings
  are down, then three; its clock is below 3000 turns; both sides have the same points.
\<close>

definition reads_keep :: "'c redis \<Rightarrow> bool" where
  "reads_keep R \<longleftrightarrow> (\<forall>key c. snd (R (''HGET '' @ key) c) = c)"

definition battle_ok :: "u32 \<Rightarrow> battle_map \<Rightarrow> bool" where
  "battle_ok k b \<longleftrightarrow> defenderID b = k \<and> mBuildingNum b = 50 \<and> unat (mDiedBuildingNum b) \<le> 50 \<and>
     mStarNum b = (if mDiedBuildingNum b = 50 then 3 else 0) \<and> unat (mTicks b) < 3000 \<and> mAtkerPoint b = mDfderPoint b"

definition battles_ok :: "pvp \<Rightarrow> bool" where
  "battles_ok s \<longleftrightarrow> sorted_wrt (<) (map fst (battleMaps s)) \<and> (\<forall>(k, b) \<in> set (battleMaps s). battle_ok k b)"

lemma BattleMap_ok:
  assumes "reads_keep R" and "BattleMap R a d c = Inr (b, c')"
  shows "battle_ok d b \<and> attackerID b = a \<and> mIsStart b"
proof -
  have k: "snd (R (''HGET '' @ key) c) = c" for key c using assms(1) by (simp add: reads_keep_def)
  have same: "p1 = p2" if "strReadExec R (''HGET '' @ key) c1 = Inr (p1, c2)" "strReadExec R (''HGET '' @ key) c2 = Inr (p2, c3)"
    for key c1 c2 c3 p1 p2
    using that k [of key c1] by (auto simp: strReadExec_def split: prod.splits option.splits)
  from assms(2) obtain p1 p2 c1 c2 c3 where "getPlayerPointsByID R (sint a) c1 = Inr (p1, c2)" "getPlayerPointsByID R (sint a) c2 = Inr (p2, c3)"
    and b: "b = \<lparr>mTicks = 0, attackerID = a, defenderID = d, mBuildingNum = 50, mDiedBuildingNum = 0, mTownhallIsDied = False,
       mStarNum = 0, mAtkerPoint = number_read p1, mDfderPoint = number_read p2, mIsStart = True,
       mWoodLoot = 0, mStoneLoot = 0, mOreLoot = 0, mConcreteLoot = 0\<rparr>"
    by (auto simp: BattleMap_def db_bind_eq_Inr)
  then have "p1 = p2" using same [of "''user#'' @ gameToString (sint a) @ '' abt#point''"] by (simp add: getPlayerPointsByID_def)
  then show ?thesis by (simp add: battle_ok_def b)
qed

lemma plusDied_ok:
  assumes "battle_ok k b"
  shows "\<exists>b1. plusDiedBuildingNum b = Inr b1 \<and> battle_ok k b1 \<and> attackerID b1 = attackerID b"
proof -
  let ?d = "mDiedBuildingNum b"
  define b1 where "b1 = (if ?d < 50 then b\<lparr>mDiedBuildingNum := ?d + 1\<rparr> else b)"
  from assms have ok: "mBuildingNum b = 50" "unat ?d \<le> 50" "mStarNum b = (if ?d = 50 then 3 else 0)" by (auto simp: battle_ok_def)
  have fifty: "?d = 50 \<longleftrightarrow> unat ?d = 50" "?d < 50 \<longleftrightarrow> unat ?d < 50"
    by (simp_all add: word_less_nat_alt word_unat_eq_iff)
  have d1: "unat (mDiedBuildingNum b1) = (if unat ?d < 50 then unat ?d + 1 else unat ?d)"
    using fifty by (auto simp: b1_def unat_word_ariths)
  then have le: "unat (mDiedBuildingNum b1) \<le> 50" using ok(2) by simp
  have r: "unat (mDiedBuildingNum b1 div 50) = unat (mDiedBuildingNum b1) div 50" by (simp add: unat_div)
  have e: "mDiedBuildingNum b1 = 50 \<longleftrightarrow> unat (mDiedBuildingNum b1) = 50" by (simp add: word_unat_eq_iff)
  have step: "plusDiedBuildingNum b = Inr (if unat (mDiedBuildingNum b1) = 50 then b1\<lparr>mStarNum := 3\<rparr> else b1)"
  proof (cases "unat (mDiedBuildingNum b1) = 50")
    case True
    then have "uint (mDiedBuildingNum b1 div 50) = 1" using r by (simp add: uint_nat)
    then show ?thesis using True ok(1) by (auto simp: plusDiedBuildingNum_def Let_def b1_def)
  next
    case False
    then have "uint (mDiedBuildingNum b1 div 50) = 0" using r le by (simp add: uint_nat)
    then show ?thesis using False ok(1) by (auto simp: plusDiedBuildingNum_def Let_def b1_def)
  qed
  show ?thesis
    using assms ok le d1 e fifty by (auto simp: step battle_ok_def b1_def split: if_splits)
qed

lemma result_points:
  assumes "battle_ok k b"
  shows "getted_points b = (if mDiedBuildingNum b = 50 then (36, -36) else (-20, 20))"
  using assms by (simp add: getted_points_def battle_ok_def c_div_def THREE_STAR_REWARD_def)

lemma set_insert_battle: "set (insert_battle u b xs) = insert (u, b) (set xs)"
  by (induction u b xs rule: insert_battle.induct) (auto split: if_splits)

lemma sorted_insert_battle:
  "sorted_wrt (<) (map fst xs) \<Longrightarrow> u \<notin> fst ` set xs \<Longrightarrow> sorted_wrt (<) (map fst (insert_battle u b xs))"
  by (induction u b xs rule: insert_battle.induct) (auto simp: set_insert_battle dest: order_less_trans split: if_splits)

lemma battles_okI:
  "sorted_wrt (<) (map fst (battleMaps s)) \<Longrightarrow> (\<And>k b. (k, b) \<in> set (battleMaps s) \<Longrightarrow> battle_ok k b) \<Longrightarrow> battles_ok s"
  by (auto simp: battles_ok_def)

lemma battles_okD:
  assumes "battles_ok s"
  shows "sorted_wrt (<) (map fst (battleMaps s))" and "(k, b) \<in> set (battleMaps s) \<Longrightarrow> battle_ok k b"
    and "getBattleMap k s = Some b \<Longrightarrow> battle_ok k b" and "distinct (map fst (battleMaps s))"
  using assms strict_sorted_iff [of "map fst (battleMaps s)"] by (auto simp: battles_ok_def getBattleMap_def dest: map_of_SomeD)

lemma same_battles_ok: "battleMaps s' = battleMaps s \<Longrightarrow> battles_ok s' = battles_ok s"
  by (simp add: battles_ok_def)

lemma change_battle_ok:
  assumes "battles_ok s" and "\<And>b. getBattleMap u s = Some b \<Longrightarrow> battle_ok u (f b)"
  shows "battles_ok (change_battle u f s)"
proof (rule battles_okI)
  have "map fst (battleMaps (change_battle u f s)) = map fst (battleMaps s)" by (auto simp: change_battle_def)
  then show "sorted_wrt (<) (map fst (battleMaps (change_battle u f s)))" using battles_okD(1) [OF assms(1)] by simp
next
  fix k b assume "(k, b) \<in> set (battleMaps (change_battle u f s))"
  then obtain b0 where b0: "(k, b0) \<in> set (battleMaps s)" "b = (if k = u then f b0 else b0)" by (auto simp: change_battle_def)
  have "getBattleMap k s = Some b0"
    using map_of_is_SomeI [OF battles_okD(4) [OF assms(1)] b0(1)] by (simp add: getBattleMap_def)
  then show "battle_ok k b" using b0 assms(2) battles_okD(2) [OF assms(1) b0(1)] by auto
qed

lemma deinitialize_ok: "battles_ok s \<Longrightarrow> battles_ok (deinitializeBattleMap u s)"
  by (rule battles_okI) (auto simp: deinitializeBattleMap_def battles_ok_def sorted_wrt_map intro!: sorted_wrt_filter)

lemma insertBattleMap_ok:
  assumes "battles_ok s" and "battle_ok u b"
  shows "battles_ok (snd (insertBattleMap u b s))"
proof (cases "getBattleMap u s")
  case None
  then have "u \<notin> fst ` set (battleMaps s)" by (simp add: getBattleMap_def map_of_eq_None_iff)
  then show ?thesis using assms None sorted_insert_battle [OF battles_okD(1) [OF assms(1)]]
    by (intro battles_okI) (auto simp: insertBattleMap_def set_insert_battle dest: battles_okD(2) [OF assms(1)])
qed (simp add: insertBattleMap_def assms)

text \<open>What is sent to the attacker as a result: nothing won, or everything.\<close>

definition fair_sends :: "sends \<Rightarrow> bool" where
  "fair_sends out \<longleftrightarrow> (\<forall>(m, u) \<in> set out. case m of
     msgReportBattleResultToAtkerResponse star p loot \<Rightarrow> (star = 0 \<and> p = -20) \<or> (star = 3 \<and> p = 36)
   | msgReportBattleResultToDfderResponse star p loot \<Rightarrow> (star = 0 \<and> p = 20) \<or> (star = 3 \<and> p = -36)
   | _ \<Rightarrow> True)"

lemma fair_sends_simps [simp]:
  "fair_sends []" "fair_sends (a @ b) \<longleftrightarrow> fair_sends a \<and> fair_sends b"
  by (auto simp: fair_sends_def)

lemma fair_results: "battle_ok k b \<Longrightarrow> fair_sends (results b loot a d)"
  using result_points [of k b] by (auto simp: results_def fair_sends_def battle_ok_def split: if_splits)

lemma on_login_ok:
  assumes "on_login R junk now u s c = Inr ((s', out), c')" and "battles_ok s"
  shows "battles_ok s' \<and> fair_sends out"
proof -
  have ok: "battles_ok (userLogin now u s)" using assms(2) by (simp add: userLogin_def battles_ok_def)
  have "battles_ok (change_battle u (\<lambda>b. b\<lparr>mIsStart := False\<rparr>) (userLogin now u s))"
    using battles_okD(3) [OF ok] by (intro change_battle_ok [OF ok]) (auto simp: battle_ok_def)
  with assms(1) ok show ?thesis
    by (auto simp: on_login_def Let_def db_bind_eq_Inr fair_sends_def split: option.splits)
qed

lemma on_logout_ok:
  assumes "on_logout u s = (stop, s', out)" and "battles_ok s"
  shows "battles_ok s' \<and> fair_sends out"
proof -
  have ok: "battles_ok (userLogout u s)" using assms(2) by (simp add: userLogout_def battles_ok_def)
  have m: "fair_sends ((msgAtkerLogoutResponse x, v) # rest) \<longleftrightarrow> fair_sends rest"
    "fair_sends ((msgDfderLogoutResponse x, v) # rest) \<longleftrightarrow> fair_sends rest" for x v rest
    by (auto simp: fair_sends_def)
  show ?thesis using assms(1) ok deinitialize_ok [OF ok] fair_results [OF battles_okD(3) [OF ok]]
    by (auto simp: on_logout_def Let_def m split: if_splits option.splits)
qed

lemma on_start_ok:
  assumes "on_start R junk u name sids hero x y s c = Inr ((s', out), c')" and "battles_ok s" and "reads_keep R"
  shows "battles_ok s' \<and> fair_sends out"
  using assms(1,2) BattleMap_ok [OF assms(3)] insertBattleMap_ok [OF assms(2)]
  by (fastforce simp: on_start_def Let_def db_bind_eq_Inr fair_sends_def split: if_splits)

lemma loot_of_ok: "battle_ok k (loot_of ty n b) = battle_ok k b"
  by (simp add: loot_of_def battle_ok_def)

lemma building_loot_ok:
  "building_loot R peer obj b c = Inr (b1, c') \<Longrightarrow> battle_ok k b1 = battle_ok k b"
proof -
  assume "building_loot R peer obj b c = Inr (b1, c')"
  then obtain ty c1 where "(case ty of None \<Rightarrow> db_return b
     | Some ty \<Rightarrow> if ty \<in> {1, 2, 3, 4}
         then db_bind (getBuildingCurRes R (sint peer) obj) (\<lambda>res.
              db_return (case res of None \<Rightarrow> b | Some n \<Rightarrow> loot_of ty n b))
         else db_return b) c1 = Inr (b1, c')"
    unfolding building_loot_def db_bind_eq_Inr [of "getBuildingType R (sint peer) obj"] by blast
  then show ?thesis
    by (cases ty) (auto simp: db_bind_eq_Inr loot_of_ok split: if_split_asm option.splits)
qed

lemma on_die_ok:
  assumes "on_die R u obj isBuilding isTownhall s c = Inr ((s', out), c')" and "battles_ok s"
  shows "battles_ok s' \<and> fair_sends out"
proof -
  let ?p = "getPeerUid u s" and ?out = "[(msgObjectDieResponse obj isBuilding, getPeerUid u s), (msgRequestAckResponse msgObjectDieRequest_ID, u)]"
  have fair: "fair_sends ?out" by (simp add: fair_sends_def)
  show ?thesis
  proof (cases "?p \<noteq> 0 \<and> isAttackerOrDefender u s = 2 \<and> isBuilding")
    case False
    with assms fair show ?thesis by (auto simp: on_die_def Let_def db_bind_eq_Inr split: if_splits)
  next
    case True
    let ?b = "\<lambda>b. if isTownhall then b\<lparr>mTownhallIsDied := True\<rparr> else b"
    from True assms(1) obtain b b1 b2 c1 c2 where b: "getBattleMap ?p s = Some b" "plusDiedBuildingNum (?b b) = Inr b1"
      "building_loot R ?p obj b1 c1 = Inr (b2, c2)" and s': "s' = change_battle ?p (\<lambda>_. b2) s" "out = ?out"
      by (auto simp: on_die_def Let_def db_bind_eq_Inr split: option.splits)
    have "battle_ok ?p (?b b)" using battles_okD(3) [OF assms(2) b(1)] by (simp add: battle_ok_def)
    from plusDied_ok [OF this] b(2) building_loot_ok [OF b(3)] have "battle_ok ?p b2" by auto
    with s' fair change_battle_ok [OF assms(2)] show ?thesis by auto
  qed
qed

lemma on_stop_ok:
  assumes "on_stop u isStop s = (s', out)" and "battles_ok s"
  shows "battles_ok s' \<and> fair_sends out"
proof -
  have m: "fair_sends ((msgAtkerStopBattleToDfderResponse x, v) # rest) \<longleftrightarrow> fair_sends rest"
    "fair_sends ((msgRequestAckResponse i, v) # rest) \<longleftrightarrow> fair_sends rest" for x v i rest
    by (auto simp: fair_sends_def)
  show ?thesis using assms deinitialize_ok [OF assms(2)] fair_results [OF battles_okD(3) [OF assms(2)]]
    by (auto simp: on_stop_def Let_def m split: option.splits)
qed

lemma on_request_ok:
  assumes "on_request R junk u r s c = Inr ((s', out), c')" and "battles_ok s" and "reads_keep R"
  shows "battles_ok s' \<and> fair_sends out"
proof (cases r)
  case (msgStartAttack name sids hero x y)
  with assms(1) have "on_start R junk u name sids hero x y s c = Inr ((s', out), c')" by (simp add: on_request_def)
  then show ?thesis by (rule on_start_ok [OF _ assms(2,3)])
next
  case (msgObjectDieRequest obj isBuilding isTownhall)
  with assms(1) have "on_die R u obj isBuilding isTownhall s c = Inr ((s', out), c')" by (simp add: on_request_def)
  then show ?thesis by (rule on_die_ok [OF _ assms(2)])
next
  case (msgAtkerStopBattleRequest isStop)
  with assms(1) have "on_stop u isStop s = (s', out)" by (simp add: on_request_def)
  then show ?thesis by (rule on_stop_ok [OF _ assms(2)])
next
  case (msgDfderIsreadyRequest ready)
  have "battles_ok (change_battle u (\<lambda>b. b\<lparr>mIsStart := True\<rparr>) s)"
    using battles_okD(3) [OF assms(2)] by (intro change_battle_ok [OF assms(2)]) (auto simp: battle_ok_def)
  with assms msgDfderIsreadyRequest show ?thesis
    by (auto simp: on_request_def Let_def fair_sends_def split: if_splits)
qed (use assms in \<open>auto simp: on_request_def Let_def fair_sends_def split: if_splits\<close>)

lemma on_message_ok:
  assumes "on_message R unpack junk now data s c = Inr ((stop, s', out), c')" and "battles_ok s" and "reads_keep R"
  shows "battles_ok s' \<and> fair_sends out"
proof -
  from assms(1) obtain u i packed where
    "(if i = LoginRequest_ID then db_bind (on_login R junk now u s) (\<lambda>r. db_return (False, r))
       else if i = LogoutRequest_ID then db_return (on_logout u s)
       else (case unpack i packed of None \<Rightarrow> db_return (False, s, [])
         | Some r \<Rightarrow> db_bind (on_request R junk u r s) (\<lambda>r. db_return (False, r)))) c = Inr ((stop, s', out), c')"
    unfolding on_message_def by (auto simp: db_bind_eq_Inr simp del: if_split_asm)
  then consider c1 where "on_login R junk now u s c1 = Inr ((s', out), c')" | "on_logout u s = (stop, s', out)"
    | "s' = s" "out = []" | r c1 where "on_request R junk u r s c1 = Inr ((s', out), c')"
    by (auto simp: db_bind_eq_Inr split: if_splits option.splits)
  then show ?thesis
    by cases (use on_login_ok [OF _ assms(2)] on_logout_ok [OF _ assms(2)] on_request_ok [OF _ assms(2,3)] assms(2) in simp_all)
qed

lemma handleMsg_ok:
  assumes "handleMsg R unpack junk now ms s c = Inr ((left, s', out), c')" and "battles_ok s" and "reads_keep R"
  shows "battles_ok s' \<and> fair_sends out"
  using assms(1,2)
proof (induction ms arbitrary: s c out)
  case (Cons m ms)
  from Cons.prems(1) obtain stop s1 out1 c1 where m: "on_message R unpack junk now m s c = Inr ((stop, s1, out1), c1)"
    and r: "(if stop then db_return (ms, s1, out1)
      else db_bind (handleMsg R unpack junk now ms s1) (\<lambda>(left, s2, out2). db_return (left, s2, out1 @ out2))) c1 = Inr ((left, s', out), c')"
    by (auto simp: db_bind_eq_Inr simp del: if_split_asm)
  note ok = on_message_ok [OF m Cons.prems(2) assms(3)]
  show ?case
  proof (cases stop)
    case True
    with r ok show ?thesis by simp
  next
    case False
    with r obtain out2 where "handleMsg R unpack junk now ms s1 c1 = Inr ((left, s', out2), c')" "out = out1 @ out2"
      by (auto simp: db_bind_eq_Inr)
    with Cons.IH ok show ?thesis by auto
  qed
qed simp

lemma curTick:
  assumes "unat t < 3000"
  shows "unat (t + 1 :: u32) = unat t + 1" and "unat (t + 1 :: u32) mod 65536 = unat t + 1"
proof -
  show u: "unat (t + 1 :: u32) = unat t + 1" using assms by (simp add: unat_word_ariths)
  show "unat (t + 1 :: u32) mod 65536 = unat t + 1" using assms by (simp add: u)
qed

lemma tick_limits: "1000 div SERVER_TICK_TIME * SECONDS_PER_BATTLE = 3000" "2000 div SERVER_TICK_TIME = 20"
  by (simp_all add: SERVER_TICK_TIME_def SECONDS_PER_BATTLE_def)

lemma tick_battle_ok:
  assumes "tick_battle R b c = Inr ((b1, out), c')" and "battle_ok k b"
  shows "(\<forall>x. b1 = Some x \<longrightarrow> battle_ok k x) \<and> fair_sends out"
proof (cases "mIsStart b")
  case False
  with assms show ?thesis by (auto simp: tick_battle_def)
next
  case True
  let ?b = "b\<lparr>mTicks := mTicks b + 1\<rparr>"
  let ?asks = "if getCurTick ?b mod (2000 div SERVER_TICK_TIME) = 0
    then [(msgAskCurStateResponse True, attackerID b), (msgAskCurStateResponse True, defenderID b)] else []"
  have t: "unat (mTicks b) < 3000" using assms(2) by (simp add: battle_ok_def)
  have asks: "fair_sends ?asks" by (auto simp: fair_sends_def)
  have "fair_sends (results ?b loot x y)" for loot x y
    using fair_results [OF assms(2), of loot x y] by (simp add: results_def getted_points_def)
  moreover from True assms(1) have "b1 = None \<and> out = ?asks @ results ?b None (attackerID b) (defenderID b) \<or>
      b1 = Some ?b \<and> out = ?asks \<and> getCurTick ?b < 3000"
    by (auto simp: tick_battle_def Let_def db_bind_eq_Inr tick_limits split: if_splits)
  ultimately show ?thesis
    using asks assms(2) curTick [OF t] by (auto simp: battle_ok_def getCurTick_def)
qed

lemma tick_battles_ok:
  assumes "tick_battles R bs c = Inr ((bs1, out), c')" and "\<And>k b. (k, b) \<in> set bs \<Longrightarrow> battle_ok k b"
    and "sorted_wrt (<) (map fst bs)"
  shows "(\<forall>(k, b) \<in> set bs1. battle_ok k b) \<and> sorted_wrt (<) (map fst bs1) \<and> fst ` set bs1 \<subseteq> fst ` set bs \<and> fair_sends out"
  using assms
proof (induction bs arbitrary: c bs1 out)
  case (Cons kb bs)
  obtain k b where kb: "kb = (k, b)" by (cases kb)
  from Cons.prems(1) obtain b1 out1 c1 bs2 out2 where t: "tick_battle R b c = Inr ((b1, out1), c1)"
    and r: "tick_battles R bs c1 = Inr ((bs2, out2), c')"
    and e: "bs1 = (case b1 of None \<Rightarrow> bs2 | Some b1 \<Rightarrow> (k, b1) # bs2)" "out = out1 @ out2"
    by (auto simp: kb db_bind_eq_Inr)
  have ih: "(\<forall>(k, b) \<in> set bs2. battle_ok k b) \<and> sorted_wrt (<) (map fst bs2) \<and> fst ` set bs2 \<subseteq> fst ` set bs \<and> fair_sends out2"
    using Cons.prems by (intro Cons.IH [OF r]) auto
  have "battle_ok k b" using Cons.prems(2) by (simp add: kb)
  note tk = tick_battle_ok [OF t this]
  have less: "k < x" if "x \<in> fst ` set bs2" for x
  proof -
    have "x \<in> fst ` set bs" using that ih by blast
    then show ?thesis using Cons.prems(3) by (auto simp: kb)
  qed
  show ?case
  proof (cases b1)
    case None
    with e tk ih show ?thesis by (auto simp: kb)
  next
    case (Some b2)
    with e tk ih less show ?thesis by (auto simp: kb)
  qed
qed simp

lemma updateBattleMaps_ok:
  assumes "updateBattleMaps R s c = Inr ((s', out), c')" and "battles_ok s"
  shows "battles_ok s' \<and> fair_sends out"
proof -
  from assms(1) obtain bs where t: "tick_battles R (battleMaps s) c = Inr ((bs, out), c')" and s': "s' = s\<lparr>battleMaps := bs\<rparr>"
    by (auto simp: updateBattleMaps_def db_bind_eq_Inr)
  have "(\<forall>(k, b) \<in> set bs. battle_ok k b) \<and> sorted_wrt (<) (map fst bs) \<and> fst ` set bs \<subseteq> fst ` set (battleMaps s) \<and> fair_sends out"
    by (rule tick_battles_ok [OF t]) (use battles_okD [OF assms(2)] in auto)
  then show ?thesis by (auto simp: s' battles_ok_def)
qed

text \<open>A turn of the server's loop: the messages that wait, then the battles.\<close>

inductive pvp_turn :: "'c redis \<Rightarrow> (int \<Rightarrow> string \<Rightarrow> pvp_request option) \<Rightarrow> sends \<Rightarrow> pvp \<times> 'c \<Rightarrow> pvp \<times> 'c \<Rightarrow> bool" for R unpack where
  turn: "handleMsg R unpack junk now ms s c = Inr ((left, s1, out1), c1) \<Longrightarrow> updateBattleMaps R s1 c1 = Inr ((s2, out2), c2) \<Longrightarrow>
    pvp_turn R unpack (out1 @ out2) (s, c) (s2, c2)"

inductive pvp_runs :: "'c redis \<Rightarrow> (int \<Rightarrow> string \<Rightarrow> pvp_request option) \<Rightarrow> pvp \<times> 'c \<Rightarrow> sends \<Rightarrow> pvp \<times> 'c \<Rightarrow> bool" for R unpack a where
  start: "pvp_runs R unpack a [] a"
| step: "pvp_runs R unpack a out1 b \<Longrightarrow> pvp_turn R unpack out2 b d \<Longrightarrow> pvp_runs R unpack a (out1 @ out2) d"

definition no_battles :: pvp where
  "no_battles = \<lparr>onlinePlayers = Map.empty, battleMaps = [], playerPairs = Map.empty\<rparr>"

lemma pvp_turn_ok:
  "pvp_turn R unpack out a b \<Longrightarrow> reads_keep R \<Longrightarrow> battles_ok (fst a) \<Longrightarrow> battles_ok (fst b) \<and> fair_sends out"
  by (induction rule: pvp_turn.induct) (auto dest: handleMsg_ok updateBattleMaps_ok)

lemma pvp_runs_ok:
  "pvp_runs R unpack a out b \<Longrightarrow> reads_keep R \<Longrightarrow> battles_ok (fst a) \<Longrightarrow> battles_ok (fst b) \<and> fair_sends out"
  by (induction rule: pvp_runs.induct) (auto dest: pvp_turn_ok)

text \<open>
  Battles end in nothing or in three stars. Whatever the two sides send and however long
  it takes, every result that is sent gives the attacker either no star and 20 points less,
  or three stars and 36 points more, and the defender the opposite: the points the players
  have make no difference, and one or two stars are never given.
\<close>

theorem battle_results_are_fixed:
  assumes "pvp_runs R unpack (no_battles, c) out (s, c')" and "reads_keep R"
    and "(m, u) \<in> set out" and "m = msgReportBattleResultToAtkerResponse star points loot"
  shows "(star = 0 \<and> points = -20) \<or> (star = 3 \<and> points = 36)"
proof -
  have "battles_ok no_battles" by (simp add: battles_ok_def no_battles_def)
  with pvp_runs_ok [OF assms(1,2)] have "fair_sends out" by simp
  with assms(3,4) show ?thesis by (auto simp: fair_sends_def)
qed

text \<open>
  Battles are kept by defender. After any turns the battles are sorted by their
  defenders, each once; a battle that goes on is not older than 2999 turns, and its stars
  are those of its fallen buildings.
\<close>

theorem battles_invariant:
  assumes "pvp_runs R unpack (no_battles, c) out (s, c')" and "reads_keep R"
  shows "battles_ok s"
proof -
  have "battles_ok no_battles" by (simp add: battles_ok_def no_battles_def)
  with pvp_runs_ok [OF assms] show ?thesis by simp
qed

subsection \<open>A battle comes to an end\<close>

text \<open>Redis replies to every command.\<close>

definition redis_replies :: "'c redis \<Rightarrow> bool" where
  "redis_replies R \<longleftrightarrow> (\<forall>cmd c. fst (R cmd c) \<noteq> None)"

fun ticks :: "'c redis \<Rightarrow> nat \<Rightarrow> pvp \<Rightarrow> ('c, pvp \<times> sends) db" where
  "ticks R 0 s = db_return (s, [])"
| "ticks R (Suc n) s = db_bind (updateBattleMaps R s) (\<lambda>(s1, out1).
     db_bind (ticks R n s1) (\<lambda>(s2, out2). db_return (s2, out1 @ out2)))"

text \<open>What a turn leaves of a battle.\<close>

definition turned :: "battle_map \<Rightarrow> battle_map option" where
  "turned b = (if \<not> mIsStart b then Some b else if 2999 \<le> unat (mTicks b) then None else Some (b\<lparr>mTicks := mTicks b + 1\<rparr>))"

lemma strWrite_returns: "redis_replies R \<Longrightarrow> \<exists>r c'. strWriteExec R cmd c = Inr (r, c')"
  by (cases "R cmd c") (auto simp: strWriteExec_def redis_replies_def dest: spec [of _ cmd] split: option.splits, metis fst_conv)

lemma strRead_returns: "redis_replies R \<Longrightarrow> \<exists>r c'. strReadExec R cmd c = Inr (r, c')"
  by (cases "R cmd c") (auto simp: strReadExec_def redis_replies_def dest: spec [of _ cmd] split: option.splits, metis fst_conv)

lemma tick_battle_turned:
  assumes "redis_replies R" and "battle_ok k b"
  shows "\<exists>out c'. tick_battle R b c = Inr ((turned b, out), c') \<and>
    (turned b = None \<longrightarrow> (msgReportBattleResultToAtkerResponse (mStarNum b) (fst (getted_points b)) None, attackerID b) \<in> set out)"
proof (cases "mIsStart b")
  case False
  then show ?thesis by (simp add: tick_battle_def turned_def)
next
  case True
  let ?b = "b\<lparr>mTicks := mTicks b + 1\<rparr>"
  have t: "unat (mTicks b) < 3000" using assms(2) by (simp add: battle_ok_def)
  have tick: "getCurTick ?b = unat (mTicks b) + 1" using curTick [OF t] by (simp add: getCurTick_def)
  have p: "getted_points ?b = getted_points b" by (simp add: getted_points_def)
  obtain r1 c1 where "plusPlayerPoint R (sint (attackerID b)) (fst (getted_points b)) c = Inr (r1, c1)"
    using strWrite_returns [OF assms(1)] unfolding plusPlayerPoint_def by blast
  moreover obtain r2 c2 where "plusPlayerPoint R (sint (defenderID b)) (snd (getted_points b)) c1 = Inr (r2, c2)"
    using strWrite_returns [OF assms(1)] unfolding plusPlayerPoint_def by blast
  ultimately show ?thesis
    using True by (cases "getted_points b") (auto simp: tick_battle_def Let_def turned_def tick_limits tick p results_def)
qed

lemma tick_battles_turned:
  assumes "redis_replies R" and "\<And>k b. (k, b) \<in> set bs \<Longrightarrow> battle_ok k b" and "distinct (map fst bs)"
  shows "\<exists>bs1 out c'. tick_battles R bs c = Inr ((bs1, out), c') \<and> fst ` set bs1 \<subseteq> fst ` set bs \<and>
    (\<forall>k b. map_of bs k = Some b \<longrightarrow> map_of bs1 k = turned b \<and>
      (turned b = None \<longrightarrow> (msgReportBattleResultToAtkerResponse (mStarNum b) (fst (getted_points b)) None, attackerID b) \<in> set out))"
  using assms(2,3)
proof (induction bs arbitrary: c)
  case (Cons kb bs)
  obtain k b where kb: "kb = (k, b)" by (cases kb)
  have "battle_ok k b" using Cons.prems(1) by (simp add: kb)
  from tick_battle_turned [OF assms(1) this] obtain out1 c1 where t: "tick_battle R b c = Inr ((turned b, out1), c1)"
    and o1: "turned b = None \<Longrightarrow> (msgReportBattleResultToAtkerResponse (mStarNum b) (fst (getted_points b)) None, attackerID b) \<in> set out1"
    by blast
  have "\<exists>bs1 out c'. tick_battles R bs c1 = Inr ((bs1, out), c') \<and> fst ` set bs1 \<subseteq> fst ` set bs \<and>
    (\<forall>k b. map_of bs k = Some b \<longrightarrow> map_of bs1 k = turned b \<and>
      (turned b = None \<longrightarrow> (msgReportBattleResultToAtkerResponse (mStarNum b) (fst (getted_points b)) None, attackerID b) \<in> set out))"
    using Cons.prems by (intro Cons.IH) auto
  then obtain bs1 out2 c2 where r: "tick_battles R bs c1 = Inr ((bs1, out2), c2)" and sub: "fst ` set bs1 \<subseteq> fst ` set bs"
    and ih: "\<And>k b. map_of bs k = Some b \<Longrightarrow> map_of bs1 k = turned b \<and>
      (turned b = None \<longrightarrow> (msgReportBattleResultToAtkerResponse (mStarNum b) (fst (getted_points b)) None, attackerID b) \<in> set out2)"
    by blast
  let ?bs = "case turned b of None \<Rightarrow> bs1 | Some b1 \<Rightarrow> (k, b1) # bs1"
  have "tick_battles R (kb # bs) c = Inr ((?bs, out1 @ out2), c2)" by (simp add: kb t r)
  moreover have "k \<notin> fst ` set bs1" using sub Cons.prems(2) by (auto simp: kb)
  then have "map_of bs1 k = None" by (simp add: map_of_eq_None_iff)
  moreover have "fst ` set ?bs \<subseteq> fst ` set (kb # bs)" using sub by (auto simp: kb split: option.splits)
  moreover have "map_of ?bs x = turned y \<and>
      (turned y = None \<longrightarrow> (msgReportBattleResultToAtkerResponse (mStarNum y) (fst (getted_points y)) None, attackerID y) \<in> set (out1 @ out2))"
    if xy: "map_of (kb # bs) x = Some y" for x y
  proof (cases "x = k")
    case True
    then have "y = b" using xy by (simp add: kb)
    then show ?thesis using True o1 \<open>map_of bs1 k = None\<close> by (cases "turned b") auto
  next
    case False
    then have "map_of ?bs x = map_of bs1 x" by (cases "turned b") auto
    moreover have "map_of bs x = Some y" using False xy by (simp add: kb)
    ultimately show ?thesis using ih [of x y] by auto
  qed
  ultimately show ?case by blast
qed simp

lemma updateBattleMaps_turned:
  assumes "redis_replies R" and "battles_ok s" and "getBattleMap k s = Some b"
  shows "\<exists>s1 out c'. updateBattleMaps R s c = Inr ((s1, out), c') \<and> battles_ok s1 \<and> getBattleMap k s1 = turned b \<and>
    (turned b = None \<longrightarrow> (msgReportBattleResultToAtkerResponse (mStarNum b) (fst (getted_points b)) None, attackerID b) \<in> set out)"
proof -
  have b: "map_of (battleMaps s) k = Some b" using assms(3) by (simp add: getBattleMap_def)
  have "\<exists>bs1 out c'. tick_battles R (battleMaps s) c = Inr ((bs1, out), c') \<and> fst ` set bs1 \<subseteq> fst ` set (battleMaps s) \<and>
    (\<forall>k b. map_of (battleMaps s) k = Some b \<longrightarrow> map_of bs1 k = turned b \<and>
      (turned b = None \<longrightarrow> (msgReportBattleResultToAtkerResponse (mStarNum b) (fst (getted_points b)) None, attackerID b) \<in> set out))"
    by (rule tick_battles_turned [OF assms(1) battles_okD(2) [OF assms(2)] battles_okD(4) [OF assms(2)]])
  then obtain bs1 out c' where t: "tick_battles R (battleMaps s) c = Inr ((bs1, out), c')"
    and all: "\<forall>k b. map_of (battleMaps s) k = Some b \<longrightarrow> map_of bs1 k = turned b \<and>
      (turned b = None \<longrightarrow> (msgReportBattleResultToAtkerResponse (mStarNum b) (fst (getted_points b)) None, attackerID b) \<in> set out)"
    by (elim exE conjE)
  have m: "map_of bs1 k = turned b \<and>
      (turned b = None \<longrightarrow> (msgReportBattleResultToAtkerResponse (mStarNum b) (fst (getted_points b)) None, attackerID b) \<in> set out)"
    by (rule all [rule_format, OF b])
  from t have u: "updateBattleMaps R s c = Inr ((s\<lparr>battleMaps := bs1\<rparr>, out), c')" by (simp add: updateBattleMaps_def)
  show ?thesis
    using updateBattleMaps_ok [OF u assms(2)] m u by (auto simp: getBattleMap_def)
qed

text \<open>
  A battle ends in time. When Redis replies, a battle that has started is over after as
  many turns as are left of its 3000: the turns return, the battle is gone, and its attacker
  was sent the result.
\<close>

theorem battle_ends_in_time:
  assumes "redis_replies R" and "battles_ok s" and "getBattleMap k s = Some b" and "mIsStart b" and "n = 3000 - unat (mTicks b)"
  shows "\<exists>s' out c'. ticks R n s c = Inr ((s', out), c') \<and> getBattleMap k s' = None \<and>
    (msgReportBattleResultToAtkerResponse (mStarNum b) (fst (getted_points b)) None, attackerID b) \<in> set out"
  using assms(2-5)
proof (induction n arbitrary: s b c)
  case 0
  then show ?case using battles_okD(3) [OF 0(1,2)] by (simp add: battle_ok_def)
next
  case (Suc n)
  note ok = battles_okD(3) [OF Suc.prems(1,2)]
  from updateBattleMaps_turned [OF assms(1) Suc.prems(1,2)] obtain s1 out1 c1 where u: "updateBattleMaps R s c = Inr ((s1, out1), c1)"
    and s1: "battles_ok s1" "getBattleMap k s1 = turned b"
    and o1: "turned b = None \<Longrightarrow> (msgReportBattleResultToAtkerResponse (mStarNum b) (fst (getted_points b)) None, attackerID b) \<in> set out1"
    by blast
  show ?case
  proof (cases "unat (mTicks b) = 2999")
    case True
    then have "turned b = None" "n = 0" using Suc.prems(3,4) by (simp_all add: turned_def)
    with u s1 o1 show ?thesis by auto
  next
    case False
    let ?b = "b\<lparr>mTicks := mTicks b + 1\<rparr>"
    have t: "unat (mTicks b) < 3000" "unat (mTicks b) < 2999" using ok False by (auto simp: battle_ok_def)
    then have "turned b = Some ?b" using Suc.prems(3) by (simp add: turned_def)
    moreover have "n = 3000 - unat (mTicks ?b)" using curTick(1) [OF t(1)] Suc.prems(4) by simp
    moreover have "getted_points ?b = getted_points b" by (simp add: getted_points_def)
    ultimately obtain s2 out2 c2 where "ticks R n s1 c1 = Inr ((s2, out2), c2)" "getBattleMap k s2 = None"
      "(msgReportBattleResultToAtkerResponse (mStarNum b) (fst (getted_points b)) None, attackerID b) \<in> set out2"
      using Suc.IH [of s1 ?b c1] s1 Suc.prems(3) by auto
    with u show ?thesis by (intro exI [of _ s2] exI [of _ "out1 @ out2"] exI [of _ c2]) simp
  qed
qed

lemma map_of_without: "map_of (filter (\<lambda>(k, b). k \<noteq> d) xs) v = (if v = d then None else map_of xs v)"
  by (induction xs) auto

lemma setSoldierDie_returns:
  assumes "redis_replies R"
  shows "\<exists>r c'. setSoldierDie R uid obj c = Inr (r, c')"
proof -
  obtain ty c1 where r: "strReadExec R (''LINDEX army#'' @ gameToString uid @ '' '' @ obj) c = Inr (ty, c1)"
    using strRead_returns [OF assms] by blast
  show ?thesis
  proof (cases ty)
    case None
    with r have "setSoldierDie R uid obj c = Inr (False, c1)" by (simp add: setSoldierDie_def Let_def)
    then show ?thesis by blast
  next
    case (Some t)
    obtain ok c2 where w: "strWriteExec R (''LSET army#'' @ gameToString uid @ '' '' @ obj @ '' #'') c1 = Inr (ok, c2)"
      using strWrite_returns [OF assms] by blast
    obtain ok2 c3 where "strWriteExec R (''HINCRBY user#'' @ gameToString uid @ '' '' @ t @ '' -1'') c2 = Inr (ok2, c3)"
      using strWrite_returns [OF assms] by blast
    with r w Some show ?thesis by (auto simp: setSoldierDie_def Let_def)
  qed
qed

text \<open>
  A late report ends the worker. An attacker who has stopped his battle stays in the
  table of pairs; when he reports the fall of a building after that, the battle that the
  handler looks up is the null pointer, and it is written to.
\<close>

theorem late_report_ends_the_worker:
  assumes "redis_replies R" and "playerPairs s u = Some d" and "getBattleMap u s = None" and "d \<noteq> 0"
  shows "on_request R junk u (msgObjectDieRequest obj True townhall) (fst (on_stop u isStop s)) c = Inl NullPointer"
proof -
  let ?s = "fst (on_stop u isStop s)"
  have p: "getPeerUid u s = d" using assms(2,3) by (simp add: getPeerUid_def)
  have none: "getBattleMap v ?s = (if v = d then None else getBattleMap v s)" for v
    by (auto simp: on_stop_def Let_def p getBattleMap_def deinitializeBattleMap_def map_of_without split: option.splits)
  have pairs: "playerPairs ?s = playerPairs s"
    by (simp add: on_stop_def Let_def deinitializeBattleMap_def split: option.splits)
  have peer: "getPeerUid u ?s = d" "isAttackerOrDefender u ?s = 2" "getBattleMap d ?s = None"
    unfolding getPeerUid_def isAttackerOrDefender_def none pairs using assms(2,3) by auto
  obtain r c1 where "setSoldierDie R (sint d) obj c = Inr (r, c1)" using setSoldierDie_returns [OF assms(1)] by blast
  then show ?thesis using assms(4) by (simp add: on_request_def on_die_def Let_def peer)
qed

subsection \<open>The clock of the server\<close>

text \<open>
  \<open>utils::Timer\<close>: how many intervals passed since the last pulse; \<open>interval\<close> is positive. The
  times are far below 64 bits of milliseconds, so nothing wraps around.
\<close>

record pulse_timer =
  pulse_interval :: nat
  lastpulse :: nat
  pulse_active :: bool

definition pulse_start :: "nat \<Rightarrow> pulse_timer \<Rightarrow> pulse_timer" where
  "pulse_start now t = t\<lparr>pulse_active := True, lastpulse := now\<rparr>"

definition poll :: "nat \<Rightarrow> pulse_timer \<Rightarrow> nat \<times> pulse_timer" where
  "poll now t =
     (if \<not> pulse_active t then (0, t)
      else if lastpulse t < now then
        let elapsed = (now - lastpulse t) div pulse_interval t in
        (elapsed, t\<lparr>lastpulse := lastpulse t + pulse_interval t * elapsed\<rparr>)
      else (0, t\<lparr>lastpulse := now\<rparr>))"

definition sleep_time :: "nat \<Rightarrow> pulse_timer \<Rightarrow> nat" where
  "sleep_time now t = (if \<not> pulse_active t \<or> pulse_interval t \<le> now - lastpulse t then 0 else pulse_interval t - (now - lastpulse t))"

fun polls :: "nat list \<Rightarrow> pulse_timer \<Rightarrow> nat \<times> pulse_timer" where
  "polls [] t = (0, t)"
| "polls (now # ts) t = (case poll now t of (n, t1) \<Rightarrow> (case polls ts t1 of (m, t2) \<Rightarrow> (n + m, t2)))"

lemma poll_step:
  assumes "pulse_active t" and "0 < pulse_interval t" and "lastpulse t \<le> now" and "poll now t = (n, t1)"
  shows "lastpulse t1 = lastpulse t + pulse_interval t * n" and "n = (now - lastpulse t) div pulse_interval t"
    and "lastpulse t1 \<le> now" and "pulse_active t1" and "pulse_interval t1 = pulse_interval t"
proof -
  let ?e = "(now - lastpulse t) div pulse_interval t"
  have "poll now t = (?e, t\<lparr>lastpulse := lastpulse t + pulse_interval t * ?e\<rparr>)"
    using assms(1,3) by (auto simp: poll_def Let_def)
  with assms(4) have n: "n = ?e" and t1: "t1 = t\<lparr>lastpulse := lastpulse t + pulse_interval t * n\<rparr>" by auto
  have "pulse_interval t * ?e \<le> now - lastpulse t" by simp
  then have "lastpulse t + pulse_interval t * n \<le> now" unfolding n using assms(3) by linarith
  then show "lastpulse t1 = lastpulse t + pulse_interval t * n" "n = ?e" "lastpulse t1 \<le> now" "pulse_active t1"
    "pulse_interval t1 = pulse_interval t" using assms(1) n by (simp_all add: t1)
qed

text \<open>
  No turn of the clock is lost. However often and whenever a running timer is polled,
  as long as the time does not go back, the turns that it counts are the whole intervals
  since it was started: what is left over is kept for the next poll.
\<close>

theorem polls_count_intervals:
  assumes "sorted (lastpulse t # ts @ [now])" and "pulse_active t" and "0 < pulse_interval t"
  shows "fst (polls (ts @ [now]) t) = (now - lastpulse t) div pulse_interval t"
  using assms
proof (induction ts arbitrary: t)
  case Nil
  obtain n t1 where p: "poll now t = (n, t1)" by (cases "poll now t")
  with Nil poll_step(2) [OF Nil(2,3) _ p] show ?case by simp
next
  case (Cons x ts)
  obtain n t1 where p: "poll x t = (n, t1)" by (cases "poll x t")
  have le: "lastpulse t \<le> x" using Cons.prems(1) by simp
  note st = poll_step [OF Cons.prems(2,3) le p]
  obtain m t2 where q: "polls (ts @ [now]) t1 = (m, t2)" by (cases "polls (ts @ [now]) t1")
  have "sorted (lastpulse t1 # ts @ [now])" using Cons.prems(1) st(3) by auto
  from Cons.IH [OF this st(4)] Cons.prems(3) q have m: "m = (now - lastpulse t1) div pulse_interval t" by (simp add: st(5))
  have "lastpulse t1 \<le> now" using st(3) Cons.prems(1) by auto
  then have "now - lastpulse t = (now - lastpulse t1) + pulse_interval t * n" using st(1) by simp
  then have "(now - lastpulse t) div pulse_interval t = (now - lastpulse t1) div pulse_interval t + n"
    using Cons.prems(3) by simp
  then show ?case by (simp add: p q m)
qed

subsection \<open>Examples\<close>

definition quiet_redis :: "unit redis" where
  "quiet_redis cmd c = (Some Reply_nil, c)"

lemma quiet_ok: "reads_keep quiet_redis" "redis_replies quiet_redis"
  by (simp_all add: reads_keep_def redis_replies_def quiet_redis_def)

lemma quiet_reads [simp]: "strReadExec quiet_redis cmd c = Inr (None, c)" "strWriteExec quiet_redis cmd c = Inr (False, c)"
  "multiReadExec quiet_redis cmd c = Inr (None, c)"
  by (simp_all add: strReadExec_def strWriteExec_def multiReadExec_def quiet_redis_def)

text \<open>Two texts: an attack on a player who is not found, and the end of the battle.\<close>

definition two_requests :: "int \<Rightarrow> string \<Rightarrow> pvp_request option" where
  "two_requests i packed = (if i = 1056 then Some (msgStartAttack ''eve'' [] 1 0 0) else Some (msgAtkerStopBattleRequest True))"

definition some_battle :: battle_map where
  "some_battle = \<lparr>mTicks = 2990, attackerID = 7, defenderID = 9, mBuildingNum = 50, mDiedBuildingNum = 3, mTownhallIsDied = True,
     mStarNum = 0, mAtkerPoint = 100, mDfderPoint = 100, mIsStart = True, mWoodLoot = 5, mStoneLoot = 0, mOreLoot = 0, mConcreteLoot = 0\<rparr>"

definition one_battle :: pvp where
  "one_battle = \<lparr>onlinePlayers = Map.empty, battleMaps = [(9, some_battle)], playerPairs = [7 \<mapsto> 9]\<rparr>"

lemma one_battle_ok: "battles_ok one_battle"
  by (simp add: battles_ok_def one_battle_def battle_ok_def some_battle_def)

lemma stop_run:
  "\<exists>out s. pvp_runs quiet_redis two_requests (no_battles, ()) out (s, ()) \<and>
     (msgReportBattleResultToAtkerResponse 0 (-20) (Some (0, 0, 0, 0)), 7) \<in> set out"
proof -
  have i: "to_short 1056 = 1056" "to_short 1068 = 1068" by (simp_all add: to_short_id)
  have g: "number_read None = 0" by code_simp
  let ?ms = "[request_body 7 (le_short 1056 @ ''a''), request_body 7 (le_short 1068 @ ''a'')]"
  have "\<exists>s1 out. handleMsg quiet_redis two_requests 9 5 ?ms no_battles () = Inr (([], s1, out), ()) \<and> battleMaps s1 = [] \<and>
      (msgReportBattleResultToAtkerResponse 0 (-20) (Some (0, 0, 0, 0)), 7) \<in> set out"
    by (simp add: on_message_def parse_request_body i request_ids two_requests_def on_request_def on_start_def getPlayerIDByUname_def
        getBattleMap_def no_battles_def BattleMap_def getBuildingNumByID_def getPlayerPointsByID_def getSoldierInfoByIDs_def
        getDefenderSoldiers_def insertBattleMap_def on_stop_def getPeerUid_def results_def getted_points_def g Let_def
        deinitializeBattleMap_def db_bind_def c_div_def)
  then obtain s1 out where h: "handleMsg quiet_redis two_requests 9 5 ?ms no_battles () = Inr (([], s1, out), ())" "battleMaps s1 = []"
    "(msgReportBattleResultToAtkerResponse 0 (-20) (Some (0, 0, 0, 0)), 7) \<in> set out" by blast
  have "updateBattleMaps quiet_redis s1 () = Inr ((s1, []), ())" using h(2) by (simp add: updateBattleMaps_def)
  from pvp_runs.step [OF pvp_runs.start turn [OF h(1) this]] h(3) show ?thesis by auto
qed

theorem battle_results_are_fixed_witness:
  "\<exists>out s. pvp_runs quiet_redis two_requests (no_battles, ()) out (s, ()) \<and>
     (\<exists>star points loot. (msgReportBattleResultToAtkerResponse star points loot, 7) \<in> set out \<and>
        (star = 0 \<and> points = -20 \<or> star = 3 \<and> points = 36))"
  using stop_run battle_results_are_fixed [OF _ quiet_ok(1) _ refl] by blast

theorem battles_invariant_witness:
  "\<exists>out s. pvp_runs quiet_redis two_requests (no_battles, ()) out (s, ()) \<and> out \<noteq> [] \<and> battles_ok s"
proof -
  from stop_run obtain out s where r: "pvp_runs quiet_redis two_requests (no_battles, ()) out (s, ())" "out \<noteq> []" by fastforce
  from battles_invariant [OF r(1) quiet_ok(1)] r show ?thesis by blast
qed

theorem battle_ends_in_time_witness:
  "\<exists>s' out. ticks quiet_redis 10 one_battle () = Inr ((s', out), ()) \<and> getBattleMap 9 s' = None \<and>
     (msgReportBattleResultToAtkerResponse 0 (-20) None, 7) \<in> set out"
proof -
  have b: "getBattleMap 9 one_battle = Some some_battle" by (simp add: getBattleMap_def one_battle_def)
  from battle_ends_in_time [OF quiet_ok(2) one_battle_ok b, of 10 "()"] show ?thesis
    by (simp add: some_battle_def getted_points_def c_div_def)
qed

theorem late_report_ends_the_worker_witness:
  "on_request quiet_redis 0 7 (msgObjectDieRequest ''4'' True False) (fst (on_stop 7 True one_battle)) () = Inl NullPointer"
  by (rule late_report_ends_the_worker [OF quiet_ok(2), of one_battle 7 9]) (simp_all add: one_battle_def getBattleMap_def)

theorem polls_count_intervals_witness:
  "fst (polls ([30, 170] @ [420]) \<lparr>pulse_interval = 100, lastpulse = 0, pulse_active = True\<rparr>) = 4"
  using polls_count_intervals [of "\<lparr>pulse_interval = 100, lastpulse = 0, pulse_active = True\<rparr>" "[30, 170]" 420] by simp

end
