(* ===== verification/Config_Tables.thy ===== *)
theory Config_Tables
  imports Chat_Redis
begin

section \<open>The game's tables\<close>

text \<open>
  Models \<open>module/mysql_game_configbuff.cpp\<close>: at start the server reads its tables (arms,
  buildings, skills, limits, heroes) from MySQL and packs those that a client asks for into
  lists of about 6500 bytes. \<open>Q\<close> gives the rows of a statement, whose fields may be null; a
  statement that fails has no row. What msgpack makes of a row and of a list are parameters,
  and so is what uninitialised members hold (\<open>junk\<close>).
\<close>

type_synonym row = "string option list"
type_synonym rows_of = "string \<Rightarrow> row list"

subsection \<open>Rows\<close>

text \<open>\<open>row[i]\<close> as text; \<open>atoi\<close> and \<open>string\<close> of a null pointer end the program.\<close>

definition text_at :: "row \<Rightarrow> nat \<Rightarrow> crash + string" where
  "text_at r i = bind_r (at r (int i)) (\<lambda>f. case f of None \<Rightarrow> Inl NullString | Some s \<Rightarrow> Inr (cstr s))"

fun texts_at :: "row \<Rightarrow> nat list \<Rightarrow> crash + string list" where
  "texts_at r [] = Inr []"
| "texts_at r (i # is) = bind_r (text_at r i) (\<lambda>s. bind_r (texts_at r is) (\<lambda>ss. Inr (s # ss)))"

definition text_or :: "string \<Rightarrow> row \<Rightarrow> nat \<Rightarrow> crash + string" where
  "text_or d r i = bind_r (at r (int i)) (\<lambda>f. case f of None \<Rightarrow> Inr d | Some s \<Rightarrow> Inr (cstr s))"

text \<open>The first field of the first row as a number: the largest type of a table.\<close>

definition max_type :: "rows_of \<Rightarrow> string \<Rightarrow> crash + int option" where
  "max_type Q sql = (case Q sql of [] \<Rightarrow> Inr None | r # _ \<Rightarrow> bind_r (text_at r 0) (\<lambda>s. Inr (Some (atoi s))))"

subsection \<open>Filling a table and packing its lists\<close>

record 'a packer =
  pack_row :: "'a \<Rightarrow> string"
  pack_list :: "int \<times> 'a list \<Rightarrow> string"

record 'a reading =
  cells :: "'a list list"
  packed_size :: int
  list_flags :: int
  pending :: "'a list"
  list_buffers :: "string list"

text \<open>
  \<open>global_arms[a.type][a.level] = a\<close>, after the levels up to \<open>a.level\<close> were appended. The
  level is compared with the unsigned size: a negative one is larger, appends nothing and is
  written outside the vector.
\<close>

definition store_row :: "('a \<Rightarrow> int) \<Rightarrow> ('a \<Rightarrow> int) \<Rightarrow> 'a \<Rightarrow> 'a \<Rightarrow> 'a list list \<Rightarrow> crash + 'a list list" where
  "store_row ty lv blank a t =
     (let levels = t ! nat (ty a);
          grown = (if lv a < 0 \<or> int (length levels) \<le> lv a
                   then levels @ replicate (nat (lv a + 1) - length levels) blank else levels) in
      if lv a < 0 then Inl OutOfRange else Inr (t[nat (ty a) := grown[nat (lv a) := a]]))"

definition pack_limit :: int where
  "pack_limit = 6500"

definition add_row :: "'a packer \<Rightarrow> 'a \<Rightarrow> 'a reading \<Rightarrow> 'a reading" where
  "add_row pk a r =
     (let n = int (length (pack_row pk a)); sum = to_int32 (packed_size r + n) in
      if pack_limit < sum
      then r\<lparr>list_buffers := list_buffers r @ [pack_list pk (list_flags r, pending r)],
             pending := [a], packed_size := to_int32 n, list_flags := 1\<rparr>
      else r\<lparr>packed_size := sum, pending := pending r @ [a]\<rparr>)"

text \<open>The type too is compared with the unsigned size.\<close>

definition known_type :: "int \<Rightarrow> 'a reading \<Rightarrow> bool" where
  "known_type ty r \<longleftrightarrow> ty < int (length (cells r)) \<and> 0 < ty"

definition read_row :: "('a \<Rightarrow> int) \<Rightarrow> ('a \<Rightarrow> int) \<Rightarrow> 'a \<Rightarrow> 'a packer \<Rightarrow> 'a \<Rightarrow> 'a reading \<Rightarrow> crash + 'a reading" where
  "read_row ty lv blank pk a r =
     (if known_type (ty a) r
      then bind_r (store_row ty lv blank a (cells r)) (\<lambda>t. Inr (add_row pk a (r\<lparr>cells := t\<rparr>)))
      else Inr r)"

fun read_rows :: "(row \<Rightarrow> crash + 'a) \<Rightarrow> ('a \<Rightarrow> int) \<Rightarrow> ('a \<Rightarrow> int) \<Rightarrow> 'a \<Rightarrow> 'a packer \<Rightarrow> row list \<Rightarrow>
    'a reading \<Rightarrow> crash + 'a reading" where
  "read_rows parse ty lv blank pk [] r = Inr r"
| "read_rows parse ty lv blank pk (x # xs) r =
     (case parse x of Inl e \<Rightarrow> Inl e | Inr a \<Rightarrow>
      (case read_row ty lv blank pk a r of Inl e \<Rightarrow> Inl e | Inr r1 \<Rightarrow> read_rows parse ty lv blank pk xs r1))"

definition end_list :: "'a packer \<Rightarrow> 'a reading \<Rightarrow> string list" where
  "end_list pk r =
     (if pending r = [] then list_buffers r
      else list_buffers r @ [pack_list pk (if list_flags r = 0 then 3 else 2, pending r)])"

text \<open>
  The lists of the types are pushed into the table before their first, empty element is
  added: the table gets copies without it.
\<close>

definition start_reading :: "int \<Rightarrow> 'a reading" where
  "start_reading n = \<lparr>cells = replicate (nat (n + 1)) [], packed_size = 0, list_flags = 0, pending = [], list_buffers = []\<rparr>"

text \<open>
  One reader: the table is cleared, and without a row for the largest type nothing else is
  done. \<open>None\<close> are buffers that stay as they are.
\<close>

definition read_table :: "rows_of \<Rightarrow> string \<Rightarrow> string \<Rightarrow> (row \<Rightarrow> crash + 'a) \<Rightarrow> ('a \<Rightarrow> int) \<Rightarrow> ('a \<Rightarrow> int) \<Rightarrow> 'a \<Rightarrow>
    'a packer \<Rightarrow> crash + 'a list list \<times> string list option" where
  "read_table Q max_sql sql parse ty lv blank pk = bind_r (max_type Q max_sql) (\<lambda>m. case m of
       None \<Rightarrow> Inr ([], None)
     | Some n \<Rightarrow> bind_r (read_rows parse ty lv blank pk (Q sql) (start_reading n)) (\<lambda>r. Inr (cells r, Some (end_list pk r))))"

definition buffers_or :: "string list \<Rightarrow> string list option \<Rightarrow> string list" where
  "buffers_or old bs = (case bs of None \<Rightarrow> old | Some new \<Rightarrow> new)"

subsection \<open>Arms\<close>

record arms_response =
  a_type :: int
  a_level :: int
  a_hp :: int
  a_defense :: int
  a_attack :: int
  a_move_speed :: float_bits
  a_fire_rate :: float_bits
  a_wood :: int
  a_stone :: int
  a_iron :: int
  a_soil :: int
  a_population :: int
  a_build_time :: int
  a_available :: int
  a_magic_skill :: string
  a_name :: string
  a_attack_type :: int
  a_attack_range :: float_bits
  a_keep_time :: float_bits
  a_defense_type :: int

definition blank_arms :: arms_response where
  "blank_arms = \<lparr>a_type = 0, a_level = 0, a_hp = 0, a_defense = 0, a_attack = 0, a_move_speed = 0, a_fire_rate = 0,
     a_wood = 0, a_stone = 0, a_iron = 0, a_soil = 0, a_population = 0, a_build_time = 0, a_available = 0,
     a_magic_skill = [], a_name = [], a_attack_type = 0, a_attack_range = 0, a_keep_time = 0, a_defense_type = 0\<rparr>"

text \<open>The last four members are not read: they are packed with what the stack holds.\<close>

definition arms_of :: "float_text \<Rightarrow> (row \<Rightarrow> arms_response) \<Rightarrow> row \<Rightarrow> crash + arms_response" where
  "arms_of io junk r = bind_r (texts_at r [0..<16]) (\<lambda>t. Inr ((junk r)\<lparr>
     a_type := to_short (atoi (t ! 0)), a_level := atoi (t ! 1), a_hp := atoi (t ! 2), a_defense := atoi (t ! 3),
     a_attack := atoi (t ! 4), a_move_speed := atof io (t ! 5), a_fire_rate := atof io (t ! 6),
     a_wood := atoi (t ! 7), a_stone := atoi (t ! 8), a_iron := atoi (t ! 9), a_soil := atoi (t ! 10),
     a_population := atoi (t ! 11), a_build_time := atoi (t ! 12), a_available := atoi (t ! 13),
     a_magic_skill := t ! 14, a_name := t ! 15\<rparr>))"

definition max_arms_sql :: string where
  "max_arms_sql = ''select max(type) from _global_arms''"

definition arms_sql :: string where
  "arms_sql = ''select type,level,hp,defense,attack,move_speed,fire_rate,need_wood,need_stone,need_iron,need_soil,'' @
     ''population,build_time,available,magic_skill,name  from _global_arms order by id asc;''"

subsection \<open>Buildings\<close>

record build_response =
  b_name :: string
  b_big_type :: int
  b_type :: int
  b_level :: int
  b_wood :: int
  b_stone :: int
  b_iron :: int
  b_soil :: int
  b_diamond :: int
  b_build_time :: int
  b_output :: int
  b_space :: int
  b_max_hp :: int
  b_attack :: int
  b_defense :: int
  b_fire_rate :: float_bits
  b_attack_speed :: float_bits
  b_attack_effect :: string
  b_describe :: string

definition blank_build :: build_response where
  "blank_build = \<lparr>b_name = [], b_big_type = 0, b_type = 0, b_level = 0, b_wood = 0, b_stone = 0, b_iron = 0, b_soil = 0,
     b_diamond = 0, b_build_time = 0, b_output = 0, b_space = 0, b_max_hp = 0, b_attack = 0, b_defense = 0,
     b_fire_rate = 0, b_attack_speed = 0, b_attack_effect = [], b_describe = []\<rparr>"

definition build_of :: "float_text \<Rightarrow> row \<Rightarrow> crash + build_response" where
  "build_of io r = bind_r (texts_at r [0..<17]) (\<lambda>t.
     bind_r (text_or ''0'' r 17) (\<lambda>effect. bind_r (text_or ''No Describe'' r 18) (\<lambda>describe. Inr \<lparr>
     b_name = t ! 0, b_big_type = to_short (atoi (t ! 1)), b_type = to_short (atoi (t ! 2)),
     b_level = to_short (atoi (t ! 3)), b_wood = atoi (t ! 4), b_stone = atoi (t ! 5), b_iron = atoi (t ! 6),
     b_soil = atoi (t ! 7), b_diamond = atoi (t ! 8), b_build_time = atoi (t ! 9), b_output = atoi (t ! 10),
     b_space = atoi (t ! 11), b_max_hp = atoi (t ! 12), b_attack = atoi (t ! 13), b_defense = atoi (t ! 14),
     b_fire_rate = atof io (t ! 15), b_attack_speed = atof io (t ! 16),
     b_attack_effect = effect, b_describe = describe\<rparr>)))"

definition max_build_sql :: string where
  "max_build_sql = ''select max(type) from _global_build''"

definition build_sql :: string where
  "build_sql = ''select name,big_type,type,level,need_wood,need_stone,need_iron,need_soil,need_diamond,build_time,'' @
     ''output,space,max_hp,attack,defense,fire_rate,attack_speed,attack_effect,build_describe '' @
     ''from _global_build order by id asc;''"

subsection \<open>Skills\<close>

record skill_data =
  k_name :: string
  k_level :: int
  k_type :: int
  k_attack_type :: int
  k_value :: int
  k_range :: float_bits
  k_keep_time :: float_bits
  k_cold_time :: float_bits
  k_need_mp :: int
  k_magic_union_level :: int
  k_need_soil :: int

definition blank_skill :: skill_data where
  "blank_skill = \<lparr>k_name = [], k_level = 0, k_type = 0, k_attack_type = 0, k_value = 0, k_range = 0, k_keep_time = 0,
     k_cold_time = 0, k_need_mp = 0, k_magic_union_level = 0, k_need_soil = 0\<rparr>"

definition skill_of :: "float_text \<Rightarrow> row \<Rightarrow> crash + skill_data" where
  "skill_of io r = bind_r (texts_at r [0..<11]) (\<lambda>t. Inr \<lparr>
     k_name = t ! 0, k_level = atoi (t ! 1), k_type = atoi (t ! 2), k_attack_type = atoi (t ! 3),
     k_value = atoi (t ! 4), k_range = atof io (t ! 5), k_keep_time = atof io (t ! 6), k_cold_time = atof io (t ! 7),
     k_need_mp = atoi (t ! 8), k_magic_union_level = atoi (t ! 9), k_need_soil = atoi (t ! 10)\<rparr>)"

definition max_skill_sql :: string where
  "max_skill_sql = ''select max(type) from __skill_config''"

definition skill_sql :: string where
  "skill_sql = ''select name,level,type,attack_type,attack_value,attack_range,keep_time,cold_time,need_mp,'' @
     ''magic_union_level,need_soil from __skill_config order by ID asc;''"

subsection \<open>Everything that is read\<close>

record city_limit_row =
  l_city_level :: int
  l_build_type :: int
  l_max_level :: int
  l_max_num :: int

record version =
  build_version :: string
  arms_version :: string
  client_version :: string
  update_URL :: string
  skill_version :: string

text \<open>
  \<open>city_limit\<close> has 11 vectors and \<open>combat_union_limit\<close> 6, by the level of the city and of
  the combat union; the first of each is not used.
\<close>

record tables =
  game_version :: version
  all_arms :: "arms_response list list"
  all_builds :: "build_response list list"
  all_skills :: "skill_data list list"
  arms_list_buffer :: "string list"
  build_list_buffer :: "string list"
  skill_config_buffer :: "string list"
  all_limits :: "city_limit_row list list"
  city_config :: string
  combat_limits :: "int list list"
  recruit_table :: "hero_update list"
  hero_table :: "hero_stock list"

record reader =
  rows_of :: rows_of
  io_of :: float_text
  junk_arms :: "row \<Rightarrow> arms_response"
  junk_limit :: "nat \<Rightarrow> nat \<Rightarrow> city_limit_row"
  junk_int :: "nat \<Rightarrow> nat \<Rightarrow> int"
  arms_packer :: "arms_response packer"
  build_packer :: "build_response packer"
  skill_packer :: "skill_data packer"
  pack_limits :: "city_limit_row list \<Rightarrow> string"

definition no_tables :: tables where
  "no_tables = \<lparr>game_version = \<lparr>build_version = [], arms_version = [], client_version = [], update_URL = [], skill_version = []\<rparr>,
     all_arms = [], all_builds = [], all_skills = [], arms_list_buffer = [], build_list_buffer = [],
     skill_config_buffer = [], all_limits = replicate 11 [], city_config = [], combat_limits = replicate 6 [],
     recruit_table = [], hero_table = []\<rparr>"

fun read_versions :: "row list \<Rightarrow> version \<Rightarrow> crash + version" where
  "read_versions [] g = Inr g"
| "read_versions (r # rs) g =
     (case text_at r 0 of Inl e \<Rightarrow> Inl e | Inr k \<Rightarrow>
      if k = ''arms_version'' then (case text_at r 1 of Inl e \<Rightarrow> Inl e | Inr v \<Rightarrow> read_versions rs (g\<lparr>arms_version := v\<rparr>))
      else if k = ''build_version'' then (case text_at r 1 of Inl e \<Rightarrow> Inl e | Inr v \<Rightarrow> read_versions rs (g\<lparr>build_version := v\<rparr>))
      else if k = ''client_version'' then (case text_at r 1 of Inl e \<Rightarrow> Inl e | Inr v \<Rightarrow> read_versions rs (g\<lparr>client_version := v\<rparr>))
      else if k = ''update_URL'' then (case text_at r 1 of Inl e \<Rightarrow> Inl e | Inr v \<Rightarrow> read_versions rs (g\<lparr>update_URL := v\<rparr>))
      else if k = ''update_URL'' then (case text_at r 1 of Inl e \<Rightarrow> Inl e | Inr v \<Rightarrow> read_versions rs (g\<lparr>skill_version := v\<rparr>))
      else read_versions rs g)"

definition ReadGameVersion :: "reader \<Rightarrow> tables \<Rightarrow> crash + tables" where
  "ReadGameVersion X c =
     bind_r (read_versions (rows_of X ''select version_option,version from _global_version'') (game_version c))
       (\<lambda>g. Inr (c\<lparr>game_version := g\<rparr>))"

definition ReadArmsData :: "reader \<Rightarrow> tables \<Rightarrow> crash + tables" where
  "ReadArmsData X c =
     bind_r (read_table (rows_of X) max_arms_sql arms_sql (arms_of (io_of X) (junk_arms X)) a_type a_level blank_arms (arms_packer X))
       (\<lambda>(t, bs). Inr (c\<lparr>all_arms := t, arms_list_buffer := buffers_or (arms_list_buffer c) bs\<rparr>))"

definition ReadBuildData :: "reader \<Rightarrow> tables \<Rightarrow> crash + tables" where
  "ReadBuildData X c =
     bind_r (read_table (rows_of X) max_build_sql build_sql (build_of (io_of X)) b_type b_level blank_build (build_packer X))
       (\<lambda>(t, bs). Inr (c\<lparr>all_builds := t, build_list_buffer := buffers_or (build_list_buffer c) bs\<rparr>))"

definition ReadSkillConfig :: "reader \<Rightarrow> tables \<Rightarrow> crash + tables" where
  "ReadSkillConfig X c =
     bind_r (read_table (rows_of X) max_skill_sql skill_sql (skill_of (io_of X)) k_type k_level blank_skill (skill_packer X))
       (\<lambda>(t, bs). Inr (c\<lparr>all_skills := t, skill_config_buffer := buffers_or (skill_config_buffer c) bs\<rparr>))"

fun set_limits :: "row \<Rightarrow> int \<Rightarrow> nat list \<Rightarrow> city_limit_row list list \<times> city_limit_row list \<Rightarrow>
    crash + city_limit_row list list \<times> city_limit_row list" where
  "set_limits r ty [] s = Inr s"
| "set_limits r ty (i # is) s =
     (case text_at r (i + 3) of Inl e \<Rightarrow> Inl e | Inr lv \<Rightarrow>
      (case text_at r (i + 13) of Inl e \<Rightarrow> Inl e | Inr num \<Rightarrow>
       let l = \<lparr>l_city_level = int i, l_build_type = ty, l_max_level = atoi lv, l_max_num = atoi num\<rparr> in
       set_limits r ty is ((fst s)[i := (fst s ! i)[nat ty := l]], snd s @ [l])))"

text \<open>A type that the vectors have no place for ends the function: the result says if it came to its end.\<close>

fun read_limits :: "row list \<Rightarrow> city_limit_row list list \<times> city_limit_row list \<Rightarrow>
    crash + bool \<times> city_limit_row list list \<times> city_limit_row list" where
  "read_limits [] s = Inr (True, s)"
| "read_limits (r # rs) s =
     (case text_at r 2 of Inl e \<Rightarrow> Inl e | Inr t \<Rightarrow>
      if atoi t < 0 \<or> int (length (fst s ! 1)) \<le> atoi t then Inr (False, s)
      else (case set_limits r (atoi t) [1..<11] s of Inl e \<Rightarrow> Inl e | Inr s1 \<Rightarrow> read_limits rs s1))"

definition max_limit_sql :: string where
  "max_limit_sql = ''select max(build_type) from city_limit''"

definition limit_sql :: string where
  "limit_sql = ''select * from city_limit''"

definition ReadCityLimit :: "reader \<Rightarrow> tables \<Rightarrow> crash + tables" where
  "ReadCityLimit X c = bind_r (max_type (rows_of X) max_limit_sql) (\<lambda>m. case m of
       None \<Rightarrow> Inr c
     | Some n \<Rightarrow>
         let t = map (\<lambda>j. all_limits c ! j @ map (junk_limit X j) [0..<nat (n + 1)]) [0..<11] in
         bind_r (read_limits (rows_of X limit_sql) (t, [])) (\<lambda>(ended, t1, res).
           Inr (c\<lparr>all_limits := t1, city_config := (if ended then pack_limits X res else city_config c)\<rparr>)))"

fun set_combat :: "row \<Rightarrow> int \<Rightarrow> nat list \<Rightarrow> int list list \<Rightarrow> crash + int list list" where
  "set_combat r ty [] t = Inr t"
| "set_combat r ty (i # is) t =
     (case text_at r (i + 2) of Inl e \<Rightarrow> Inl e | Inr s \<Rightarrow> set_combat r ty is (t[i := (t ! i)[nat ty := atoi s]]))"

fun read_combat :: "row list \<Rightarrow> int list list \<Rightarrow> crash + int list list" where
  "read_combat [] t = Inr t"
| "read_combat (r # rs) t =
     (case text_at r 2 of Inl e \<Rightarrow> Inl e | Inr s \<Rightarrow>
      if atoi s < 0 \<or> int (length (t ! 1)) \<le> atoi s then Inr t
      else (case set_combat r (atoi s) [1..<6] t of Inl e \<Rightarrow> Inl e | Inr t1 \<Rightarrow> read_combat rs t1))"

definition ReadCombatLimit :: "reader \<Rightarrow> tables \<Rightarrow> crash + tables" where
  "ReadCombatLimit X c = bind_r (max_type (rows_of X) ''select max(arms_type) from combat_union_limit'') (\<lambda>m. case m of
       None \<Rightarrow> Inr c
     | Some n \<Rightarrow>
         let t = map (\<lambda>j. combat_limits c ! j @ map (junk_int X j) [0..<nat (n + 1)]) [0..<6] in
         bind_r (read_combat (rows_of X ''select * from combat_union_limit'') t) (\<lambda>t1.
           Inr (c\<lparr>combat_limits := t1\<rparr>)))"

text \<open>Of the heroes' tables the members that the gateway reads are kept.\<close>

definition hero_update_of :: "row \<Rightarrow> crash + hero_update" where
  "hero_update_of r = bind_r (texts_at r [0..<9]) (\<lambda>t. Inr \<lparr>
     update_diamond_cost = atoi (t ! 1), start1 = atoi (t ! 4), start2 = atoi (t ! 5), start3 = atoi (t ! 6),
     start4 = atoi (t ! 7), start5 = atoi (t ! 8)\<rparr>)"

definition hero_stock_of :: "row \<Rightarrow> crash + hero_stock" where
  "hero_stock_of r = bind_r (texts_at r [0..<20]) (\<lambda>t. Inr \<lparr>
     s_min = atoi (t ! 3), s_min_grow = atoi (t ! 4), s_max = atoi (t ! 5), s_max_grow = atoi (t ! 6),
     s_min_limit_max = atoi (t ! 7), s_min_limit_grow = atoi (t ! 8), s_max_limit_min = atoi (t ! 9),
     s_max_limit_grow = atoi (t ! 10), goods_space = atoi (t ! 11), max_space = atoi (t ! 12),
     stock_hp = atoi (t ! 16), stock_mp = atoi (t ! 17), stock_attack = atoi (t ! 18), stock_defence = atoi (t ! 19)\<rparr>)"

fun read_all :: "(row \<Rightarrow> crash + 'a) \<Rightarrow> row list \<Rightarrow> 'a list \<Rightarrow> crash + 'a list" where
  "read_all parse [] xs = Inr xs"
| "read_all parse (r # rs) xs = (case parse r of Inl e \<Rightarrow> Inl e | Inr a \<Rightarrow> read_all parse rs (xs @ [a]))"

definition recruit_sql :: string where
  "recruit_sql = ''select type,diamond,hero_num,cool_time,start1,start2,start3,start4,start5 from   _global_recruit order by id asc''"

definition hero_sql :: string where
  "hero_sql = ''select quality,all_min,all_max,s_min,s_min_grow,s_max,s_max_grow,s_min_limit_max,s_min_limit_grow,'' @
     ''s_max_limit_min,s_max_limit_grow,goods_space,max_space,pre_skill,study_skill,special_name,'' @
     ''base_hp,base_mp,base_attack,base_defence   from _global_hero order by id asc''"

definition ReadHeroUpdateConfig :: "reader \<Rightarrow> tables \<Rightarrow> crash + tables" where
  "ReadHeroUpdateConfig X c =
     bind_r (read_all hero_update_of (rows_of X recruit_sql) (recruit_table c)) (\<lambda>xs. Inr (c\<lparr>recruit_table := xs\<rparr>))"

definition ReadHeroBaseConfig :: "reader \<Rightarrow> tables \<Rightarrow> crash + tables" where
  "ReadHeroBaseConfig X c =
     bind_r (read_all hero_stock_of (rows_of X hero_sql) (hero_table c)) (\<lambda>xs. Inr (c\<lparr>hero_table := xs\<rparr>))"

definition InitGlobalData :: "reader \<Rightarrow> tables \<Rightarrow> crash + tables" where
  "InitGlobalData X c =
     bind_r (ReadGameVersion X c) (\<lambda>c. bind_r (ReadArmsData X c) (\<lambda>c. bind_r (ReadBuildData X c) (\<lambda>c.
     bind_r (ReadCityLimit X c) (\<lambda>c. bind_r (ReadCombatLimit X c) (\<lambda>c. bind_r (ReadHeroUpdateConfig X c) (\<lambda>c.
     bind_r (ReadHeroBaseConfig X c) (ReadSkillConfig X)))))))"

subsection \<open>What clients are sent and handlers look up\<close>

definition ArmsListResponse_ID :: int where "ArmsListResponse_ID = 1002"
definition BuildListResponse_ID :: int where "BuildListResponse_ID = 1003"
definition SkillConfigResponse_ID :: int where "SkillConfigResponse_ID = 1004"
definition CityLimitListResponse_ID :: int where "CityLimitListResponse_ID = 1021"

definition SendSbuffer :: "string \<Rightarrow> int \<Rightarrow> string" where
  "SendSbuffer buffer msgID = le_short msgID @ buffer"

definition ArmsConfigRequestService :: "tables \<Rightarrow> string list" where
  "ArmsConfigRequestService c = map (\<lambda>b. SendSbuffer b ArmsListResponse_ID) (arms_list_buffer c)"

definition BuildConfigRequestService :: "tables \<Rightarrow> string list" where
  "BuildConfigRequestService c =
     map (\<lambda>b. SendSbuffer b BuildListResponse_ID) (build_list_buffer c) @ [SendSbuffer (city_config c) CityLimitListResponse_ID]"

definition SkillConfigRequestService :: "tables \<Rightarrow> string list" where
  "SkillConfigRequestService c = map (\<lambda>b. SendSbuffer b SkillConfigResponse_ID) (skill_config_buffer c)"

text \<open>The handlers of \<open>Buildings\<close> see the tables through the record \<open>game\<close>.\<close>

definition build_config_of :: "build_response \<Rightarrow> build_config" where
  "build_config_of b = \<lparr>config_big_type = b_big_type b, need_wood = b_wood b, need_stone = b_stone b,
     need_iron = b_iron b, need_soil = b_soil b, need_diamond = b_diamond b, config_time = b_build_time b,
     output_per_hour = b_output b, space = b_space b, config_hp = b_max_hp b\<rparr>"

definition limit_entry :: "city_limit_row \<Rightarrow> limit" where
  "limit_entry l = \<lparr>max_level = l_max_level l, max_num = l_max_num l\<rparr>"

definition game_with :: "tables \<Rightarrow> game \<Rightarrow> game" where
  "game_with c g = g\<lparr>global_build := map (map build_config_of) (all_builds c),
     city_limit := map (map limit_entry) (all_limits c), arm_levels := map length (all_arms c)\<rparr>"

subsection \<open>Tables and lists hold the rows that were read\<close>

text \<open>The rows whose type the table has, in the order they were read.\<close>

abbreviation of_types :: "('a \<Rightarrow> int) \<Rightarrow> nat \<Rightarrow> 'a list \<Rightarrow> 'a list" where
  "of_types ty n \<equiv> filter (\<lambda>a. 0 < ty a \<and> ty a < int n)"

lemma store_row_length: "store_row ty lv blank a t = Inr t1 \<Longrightarrow> length t1 = length t"
  by (auto simp: store_row_def Let_def split: if_splits)

lemma add_row_cells [simp]: "cells (add_row pk a r) = cells r"
  by (simp add: add_row_def Let_def)

lemma read_row_cells: "read_row ty lv blank pk a r = Inr r1 \<Longrightarrow> length (cells r1) = length (cells r)"
  by (auto simp: read_row_def bind_r_eq_Inr dest: store_row_length split: if_splits)

lemma read_rows_length: "read_rows parse ty lv blank pk rows r = Inr r1 \<Longrightarrow> length (cells r1) = length (cells r)"
proof (induction rows arbitrary: r)
  case (Cons x xs)
  then show ?case by (auto dest!: read_row_cells split: sum.splits)
qed simp

lemma read_rows_parsed: "read_rows parse ty lv blank pk rows r = Inr r1 \<Longrightarrow> map parse rows = map Inr (map (projr \<circ> parse) rows)"
proof (induction rows arbitrary: r)
  case (Cons x xs)
  then show ?case by (auto split: sum.splits)
qed simp

text \<open>An invariant of the rows read so far is kept when each row keeps it.\<close>

lemma read_rows_induct:
  assumes "read_rows parse ty lv blank pk rows r = Inr r1" and "I as r" and "n = length (cells r)"
    and step: "\<And>as a r. I as r \<Longrightarrow> length (cells r) = n \<Longrightarrow> 0 < ty a \<Longrightarrow> ty a < int n \<Longrightarrow> 0 \<le> lv a \<Longrightarrow> good a \<Longrightarrow>
      I (as @ [a]) (add_row pk a (r\<lparr>cells := (cells r)[nat (ty a) := (let l = cells r ! nat (ty a) in
        (l @ replicate (nat (lv a + 1) - length l) blank)[nat (lv a) := a])]\<rparr>))"
    and "\<And>a. a \<in> set (of_types ty n (map (projr \<circ> parse) rows)) \<Longrightarrow> good a"
  shows "I (as @ of_types ty n (map (projr \<circ> parse) rows)) r1"
  using assms(1-3,5)
proof (induction rows arbitrary: r as)
  case (Cons x xs)
  obtain a where a: "parse x = Inr a" using Cons.prems(1) by (auto split: sum.splits)
  obtain r2 where r2: "read_row ty lv blank pk a r = Inr r2" and rest: "read_rows parse ty lv blank pk xs r2 = Inr r1"
    using Cons.prems(1) a by (auto split: sum.splits)
  have len: "n = length (cells r2)" using read_row_cells [OF r2] Cons.prems(3) by simp
  have goods: "\<And>b. b \<in> set (of_types ty n (map (projr \<circ> parse) xs)) \<Longrightarrow> good b" using Cons.prems(4) by auto
  show ?case
  proof (cases "known_type (ty a) r")
    case False
    then have "r2 = r" using r2 by (simp add: read_row_def)
    then show ?thesis using Cons.IH [OF rest _ len goods] Cons.prems(2) False a Cons.prems(3) by (auto simp: known_type_def)
  next
    case True
    then have ty: "0 < ty a" "ty a < int n" by (auto simp: known_type_def Cons.prems(3))
    have g: "good a" using Cons.prems(4) [of a] a ty by simp
    from True r2 have lv: "0 \<le> lv a" by (auto simp: read_row_def store_row_def Let_def split: if_splits)
    have "I (as @ [a]) r2"
      using step [OF Cons.prems(2) Cons.prems(3) [symmetric] ty lv g] True r2 lv
      by (auto simp: read_row_def store_row_def Let_def split: if_splits)
    from Cons.IH [OF rest this len goods] show ?thesis using a ty by simp
  qed
qed simp

text \<open>The flags of the lists of a table: 3 for the only one, else 0 for the first and 2 for the last.\<close>

fun flags_of :: "nat \<Rightarrow> int list" where
  "flags_of 0 = []"
| "flags_of (Suc 0) = [3]"
| "flags_of (Suc (Suc k)) = 0 # replicate k 1 @ [2]"

definition rows_size :: "'a packer \<Rightarrow> 'a list \<Rightarrow> int" where
  "rows_size pk as = (\<Sum>a\<leftarrow>as. int (length (pack_row pk a)))"

lemma rows_size_simps [simp]: "rows_size pk [] = 0" "rows_size pk (as @ [a]) = rows_size pk as + int (length (pack_row pk a))"
  by (simp_all add: rows_size_def)

definition short_list :: "'a packer \<Rightarrow> 'a list \<Rightarrow> bool" where
  "short_list pk as \<longleftrightarrow> rows_size pk as \<le> pack_limit \<or> length as \<le> 1"

definition packing :: "'a packer \<Rightarrow> 'a list \<Rightarrow> (int \<times> 'a list) list \<Rightarrow> 'a reading \<Rightarrow> bool" where
  "packing pk as ls r \<longleftrightarrow> list_buffers r = map (pack_list pk) ls \<and> concat (map snd ls) @ pending r = as \<and>
     map fst ls = (if ls = [] then [] else 0 # replicate (length ls - 1) 1) \<and>
     list_flags r = (if ls = [] then 0 else 1) \<and> (pending r = [] \<longrightarrow> ls = []) \<and>
     packed_size r = rows_size pk (pending r) \<and> packed_size r < 2 ^ 30 \<and> 0 \<le> packed_size r \<and>
     short_list pk (pending r) \<and> list_all (short_list pk \<circ> snd) ls"

lemma to_int32_small: "0 \<le> i \<Longrightarrow> i < 2 ^ 31 \<Longrightarrow> to_int32 i = i"
  by (rule wrap_signed_id) simp_all

lemma packing_add:
  assumes "packing pk as ls r" and "int (length (pack_row pk a)) < 2 ^ 30"
  shows "\<exists>ls. packing pk (as @ [a]) ls (add_row pk a r)"
proof -
  let ?n = "int (length (pack_row pk a))"
  have w: "to_int32 (packed_size r + ?n) = packed_size r + ?n" "to_int32 ?n = ?n"
    using assms by (auto simp: packing_def intro!: to_int32_small)
  show ?thesis
  proof (cases "pack_limit < packed_size r + ?n")
    case True
    have "map fst (ls @ [(list_flags r, pending r)]) = 0 # replicate (length ls) 1"
      using assms(1) by (cases ls) (auto simp: packing_def replicate_append_same)
    then have "packing pk (as @ [a]) (ls @ [(list_flags r, pending r)]) (add_row pk a r)"
      using assms True w by (auto simp: packing_def add_row_def Let_def short_list_def rows_size_def)
    then show ?thesis ..
  next
    case False
    then have "packing pk (as @ [a]) ls (add_row pk a r)"
      using assms w False by (simp add: packing_def add_row_def Let_def short_list_def) (simp add: pack_limit_def)
    then show ?thesis ..
  qed
qed

definition complete_lists :: "'a packer \<Rightarrow> 'a list \<Rightarrow> (int \<times> 'a list) list \<Rightarrow> bool" where
  "complete_lists pk as ls \<longleftrightarrow> concat (map snd ls) = as \<and> map fst ls = flags_of (length ls) \<and>
     list_all (short_list pk \<circ> snd) ls"

lemma end_list_complete:
  assumes "packing pk as ls r"
  shows "\<exists>ls. end_list pk r = map (pack_list pk) ls \<and> complete_lists pk as ls"
proof (cases "pending r = []")
  case True
  then have "end_list pk r = map (pack_list pk) [] \<and> complete_lists pk as []"
    using assms by (auto simp: packing_def end_list_def complete_lists_def)
  then show ?thesis ..
next
  case False
  define l where "l = ls @ [(if list_flags r = 0 then 3 else 2, pending r)]"
  have "map fst l = flags_of (length l)"
  proof (cases ls)
    case Nil
    then show ?thesis using assms by (simp add: l_def packing_def)
  next
    case (Cons x xs)
    then have "map fst ls = 0 # replicate (length xs) 1" "list_flags r = 1" using assms by (simp_all add: packing_def)
    then show ?thesis using Cons by (simp add: l_def)
  qed
  then have "end_list pk r = map (pack_list pk) l \<and> complete_lists pk as l"
    using assms False by (auto simp: packing_def end_list_def complete_lists_def l_def)
  then show ?thesis ..
qed

lemma lists_are_complete:
  assumes "read_rows parse ty lv blank pk rows (start_reading n) = Inr r"
    and "\<And>a. a \<in> set (of_types ty (nat (n + 1)) (map (projr \<circ> parse) rows)) \<Longrightarrow> int (length (pack_row pk a)) < 2 ^ 30"
  shows "\<exists>ls. end_list pk r = map (pack_list pk) ls \<and>
    complete_lists pk (of_types ty (nat (n + 1)) (map (projr \<circ> parse) rows)) ls"
proof -
  let ?as = "of_types ty (nat (n + 1)) (map (projr \<circ> parse) rows)"
  have "\<exists>ls. packing pk ([] @ ?as) ls r"
  proof (rule read_rows_induct [where I = "\<lambda>as r. \<exists>ls. packing pk as ls r" and good = "\<lambda>a. int (length (pack_row pk a)) < 2 ^ 30", OF assms(1)])
    show "\<exists>ls. packing pk [] ls (start_reading n)"
      by (rule exI [of _ "[]"]) (simp add: packing_def start_reading_def short_list_def)
  next
    fix as a and r :: "'a reading" and c
    assume "\<exists>ls. packing pk as ls r" and g: "int (length (pack_row pk a)) < 2 ^ 30"
    then obtain ls where "packing pk as ls r" by blast
    then have "packing pk as ls (r\<lparr>cells := (cells r)[nat (ty a) := (let l = cells r ! nat (ty a) in
        (l @ replicate (nat (lv a + 1) - length l) blank)[nat (lv a) := a])]\<rparr>)" by (simp add: packing_def)
    from packing_add [OF this g] show "\<exists>ls. packing pk (as @ [a]) ls (add_row pk a (r\<lparr>cells := (cells r)[nat (ty a) := (let l = cells r ! nat (ty a) in
        (l @ replicate (nat (lv a + 1) - length l) blank)[nat (lv a) := a])]\<rparr>))" .
  next
    show "nat (n + 1) = length (cells (start_reading n :: 'a reading))" by (simp add: start_reading_def)
  qed (rule assms(2))
  then obtain ls where "packing pk ?as ls r" by auto
  then show ?thesis by (rule end_list_complete)
qed

text \<open>A table as a function of the rows read: the last row of a type and level, of the levels up to the largest.\<close>

definition rows_at :: "('a \<Rightarrow> int) \<Rightarrow> ('a \<Rightarrow> int) \<Rightarrow> 'a list \<Rightarrow> int \<Rightarrow> int \<Rightarrow> 'a list" where
  "rows_at ty lv as t l = filter (\<lambda>a. ty a = t \<and> lv a = l) as"

definition content :: "('a \<Rightarrow> int) \<Rightarrow> ('a \<Rightarrow> int) \<Rightarrow> 'a \<Rightarrow> 'a list \<Rightarrow> int \<Rightarrow> int \<Rightarrow> 'a" where
  "content ty lv blank as t l = (let bs = rows_at ty lv as t l in if bs = [] then blank else last bs)"

definition has_level :: "('a \<Rightarrow> int) \<Rightarrow> ('a \<Rightarrow> int) \<Rightarrow> 'a list \<Rightarrow> int \<Rightarrow> int \<Rightarrow> bool" where
  "has_level ty lv as t l \<longleftrightarrow> 0 \<le> l \<and> list_ex (\<lambda>a. ty a = t \<and> l \<le> lv a) as"

definition cell :: "'a list list \<Rightarrow> int \<Rightarrow> int \<Rightarrow> crash + 'a" where
  "cell t i j = bind_r (at t i) (\<lambda>levels. at levels j)"

definition cell_spec :: "('a \<Rightarrow> int) \<Rightarrow> ('a \<Rightarrow> int) \<Rightarrow> 'a \<Rightarrow> 'a list \<Rightarrow> int \<Rightarrow> int \<Rightarrow> crash + 'a" where
  "cell_spec ty lv blank as t l = (if has_level ty lv as t l then Inr (content ty lv blank as t l) else Inl OutOfRange)"

definition table_holds :: "('a \<Rightarrow> int) \<Rightarrow> ('a \<Rightarrow> int) \<Rightarrow> 'a \<Rightarrow> 'a list \<Rightarrow> 'a list list \<Rightarrow> bool" where
  "table_holds ty lv blank as t \<longleftrightarrow> (\<forall>i j. i < length t \<longrightarrow>
     (j < length (t ! i) \<longleftrightarrow> has_level ty lv as (int i) (int j)) \<and>
     (j < length (t ! i) \<longrightarrow> t ! i ! j = content ty lv blank as (int i) (int j)))"

lemma table_holdsD:
  "table_holds ty lv blank as t \<Longrightarrow> i < length t \<Longrightarrow> j < length (t ! i) \<longleftrightarrow> has_level ty lv as (int i) (int j)"
  "table_holds ty lv blank as t \<Longrightarrow> i < length t \<Longrightarrow> j < length (t ! i) \<Longrightarrow> t ! i ! j = content ty lv blank as (int i) (int j)"
  by (simp_all add: table_holds_def)

lemma has_level_snoc: "has_level ty lv (as @ [a]) t l \<longleftrightarrow> has_level ty lv as t l \<or> 0 \<le> l \<and> ty a = t \<and> l \<le> lv a"
  by (auto simp: has_level_def)

lemma content_snoc: "content ty lv blank (as @ [a]) t l = (if ty a = t \<and> lv a = l then a else content ty lv blank as t l)"
  by (simp add: content_def rows_at_def)

lemma content_none: "\<not> has_level ty lv as t l \<Longrightarrow> 0 \<le> l \<Longrightarrow> content ty lv blank as t l = blank"
  by (auto simp: content_def rows_at_def has_level_def list_ex_iff filter_empty_conv Let_def)

lemma table_holds_put:
  assumes t: "table_holds ty lv blank as t" and ty: "0 < ty a" "ty a < int (length t)" and lv: "0 \<le> lv a"
  shows "table_holds ty lv blank (as @ [a]) (t[nat (ty a) := (let l = t ! nat (ty a) in
        (l @ replicate (nat (lv a + 1) - length l) blank)[nat (lv a) := a])])"
proof -
  define k where "k = nat (ty a)"
  define m where "m = nat (lv a)"
  have k: "k < length t" "ty a = int k" using ty by (simp_all add: k_def)
  have m: "lv a = int m" using lv by (simp add: m_def)
  have n: "nat (lv a + 1) = Suc m" by (simp add: m)
  define new where "new = (t ! k @ replicate (Suc m - length (t ! k)) blank)[m := a]"
  have "(j < length (t[k := new] ! i) \<longleftrightarrow> has_level ty lv (as @ [a]) (int i) (int j)) \<and>
     (j < length (t[k := new] ! i) \<longrightarrow> t[k := new] ! i ! j = content ty lv blank (as @ [a]) (int i) (int j))"
    if i: "i < length t" for i j
  proof (cases "i = k")
    case False
    then show ?thesis using table_holdsD [OF t i] k by (simp add: has_level_snoc content_snoc)
  next
    case True
    note old = table_holdsD [OF t k(1), of j]
    have 1: "j < length new \<longleftrightarrow> has_level ty lv (as @ [a]) (int k) (int j)"
      using old(1) by (auto simp: new_def has_level_snoc k m)
    have 2: "new ! j = content ty lv blank (as @ [a]) (int k) (int j)" if "j < length new"
    proof (cases "j = m")
      case True
      then show ?thesis using that by (simp add: new_def content_snoc k m)
    next
      case jm: False
      show ?thesis
      proof (cases "j < length (t ! k)")
        case True
        then show ?thesis using old jm by (simp add: new_def content_snoc nth_append m)
      next
        case False
        then show ?thesis using old(1) jm that content_none [of ty lv as "int k" "int j" blank]
          by (simp add: new_def content_snoc nth_append m)
      qed
    qed
    show ?thesis using True k 1 2 by simp
  qed
  then show ?thesis unfolding table_holds_def Let_def by (simp add: new_def k_def m_def n [unfolded m_def])
qed

lemma table_is_its_rows:
  assumes "read_rows parse ty lv blank pk rows (start_reading n) = Inr r"
  shows "cell (cells r) t l = cell_spec ty lv blank (of_types ty (nat (n + 1)) (map (projr \<circ> parse) rows)) t l"
proof -
  let ?as = "of_types ty (nat (n + 1)) (map (projr \<circ> parse) rows)"
  have len: "length (cells r) = nat (n + 1)" using read_rows_length [OF assms] by (simp add: start_reading_def)
  have "table_holds ty lv blank ([] @ ?as) (cells r)"
  proof (rule read_rows_induct [where I = "\<lambda>as r. table_holds ty lv blank as (cells r)" and good = "\<lambda>_. True", OF assms])
    show "table_holds ty lv blank [] (cells (start_reading n))"
      by (simp add: table_holds_def start_reading_def has_level_def)
  next
    show "nat (n + 1) = length (cells (start_reading n :: 'a reading))" by (simp add: start_reading_def)
  next
    fix as a and r :: "'a reading"
    assume "table_holds ty lv blank as (cells r)" "length (cells r) = nat (n + 1)" "0 < ty a" "ty a < int (nat (n + 1))" "0 \<le> lv a"
    then show "table_holds ty lv blank (as @ [a]) (cells (add_row pk a (r\<lparr>cells := (cells r)[nat (ty a) := (let l = cells r ! nat (ty a) in
        (l @ replicate (nat (lv a + 1) - length l) blank)[nat (lv a) := a])]\<rparr>)))"
      by (simp add: table_holds_put)
  qed simp
  then have h: "table_holds ty lv blank ?as (cells r)" by simp
  show ?thesis
  proof (cases "0 \<le> t \<and> t < int (length (cells r)) \<and> 0 \<le> l")
    case True
    then obtain i j where ij: "t = int i" "l = int j" "i < length (cells r)" by (metis nonneg_int_cases of_nat_less_iff)
    then show ?thesis using table_holdsD [OF h ij(3), of j] by (auto simp: cell_def at_def cell_spec_def)
  next
    case False
    then have "\<not> has_level ty lv ?as t l" using len by (auto simp: has_level_def list_ex_iff)
    moreover have "cell (cells r) t l = Inl OutOfRange" using False by (auto simp: cell_def at_def)
    ultimately show ?thesis by (simp add: cell_spec_def)
  qed
qed


definition rows_read :: "rows_of \<Rightarrow> string \<Rightarrow> string \<Rightarrow> (row \<Rightarrow> crash + 'a) \<Rightarrow> ('a \<Rightarrow> int) \<Rightarrow> 'a list" where
  "rows_read Q max_sql sql parse ty = (case max_type Q max_sql of
       Inr (Some n) \<Rightarrow> of_types ty (nat (n + 1)) (map (projr \<circ> parse) (Q sql)) | _ \<Rightarrow> [])"

definition small_rows :: "'a packer \<Rightarrow> 'a list \<Rightarrow> bool" where
  "small_rows pk as \<longleftrightarrow> list_all (\<lambda>a. int (length (pack_row pk a)) < 2 ^ 30) as"

lemma read_table_cells:
  assumes "read_table Q max_sql sql parse ty lv blank pk = Inr (t, bs)"
  shows "cell t i j = cell_spec ty lv blank (rows_read Q max_sql sql parse ty) i j"
proof -
  obtain m where m: "max_type Q max_sql = Inr m" using assms by (auto simp: read_table_def bind_r_eq_Inr)
  show ?thesis
  proof (cases m)
    case None
    then show ?thesis using assms m by (auto simp: read_table_def cell_def at_def cell_spec_def rows_read_def has_level_def)
  next
    case (Some n)
    then obtain r where r: "read_rows parse ty lv blank pk (Q sql) (start_reading n) = Inr r" and t: "t = cells r"
      using assms m by (auto simp: read_table_def bind_r_eq_Inr)
    show ?thesis using table_is_its_rows [OF r, of i j] m Some by (simp add: t rows_read_def)
  qed
qed

lemma read_table_lists:
  assumes "read_table Q max_sql sql parse ty lv blank pk = Inr (t, bs)"
    and "small_rows pk (rows_read Q max_sql sql parse ty)"
  shows "\<exists>ls. buffers_or [] bs = map (pack_list pk) ls \<and> complete_lists pk (rows_read Q max_sql sql parse ty) ls"
proof -
  obtain m where m: "max_type Q max_sql = Inr m" using assms by (auto simp: read_table_def bind_r_eq_Inr)
  show ?thesis
  proof (cases m)
    case None
    then show ?thesis using assms m
      by (intro exI [of _ "[]"]) (simp add: read_table_def rows_read_def complete_lists_def buffers_or_def)
  next
    case (Some n)
    then obtain r where r: "read_rows parse ty lv blank pk (Q sql) (start_reading n) = Inr r" and b: "bs = Some (end_list pk r)"
      using assms(1) m by (auto simp: read_table_def bind_r_eq_Inr)
    have "\<And>a. a \<in> set (of_types ty (nat (n + 1)) (map (projr \<circ> parse) (Q sql))) \<Longrightarrow> int (length (pack_row pk a)) < 2 ^ 30"
      using assms(2) m Some by (simp add: small_rows_def rows_read_def list_all_iff)
    from lists_are_complete [OF r this] show ?thesis using m Some by (simp add: rows_read_def b buffers_or_def)
  qed
qed

subsection \<open>What a start leaves in the tables\<close>

abbreviation arms_rows :: "reader \<Rightarrow> arms_response list" where
  "arms_rows X \<equiv> rows_read (rows_of X) max_arms_sql arms_sql (arms_of (io_of X) (junk_arms X)) a_type"

abbreviation build_rows :: "reader \<Rightarrow> build_response list" where
  "build_rows X \<equiv> rows_read (rows_of X) max_build_sql build_sql (build_of (io_of X)) b_type"

abbreviation skill_rows :: "reader \<Rightarrow> skill_data list" where
  "skill_rows X \<equiv> rows_read (rows_of X) max_skill_sql skill_sql (skill_of (io_of X)) k_type"

lemma ReadCityLimit_frame:
  assumes "ReadCityLimit X c = Inr c1"
  shows "all_arms c1 = all_arms c" "arms_list_buffer c1 = arms_list_buffer c" "all_builds c1 = all_builds c"
    "build_list_buffer c1 = build_list_buffer c" "skill_config_buffer c1 = skill_config_buffer c"
  using assms by (auto simp: ReadCityLimit_def bind_r_eq_Inr Let_def split: option.splits)

lemma ReadCombatLimit_frame:
  assumes "ReadCombatLimit X c = Inr c1"
  shows "all_arms c1 = all_arms c" "arms_list_buffer c1 = arms_list_buffer c" "all_builds c1 = all_builds c"
    "build_list_buffer c1 = build_list_buffer c" "skill_config_buffer c1 = skill_config_buffer c"
    "all_limits c1 = all_limits c" "city_config c1 = city_config c"
  using assms by (auto simp: ReadCombatLimit_def bind_r_eq_Inr Let_def split: option.splits)

lemma init_parts:
  assumes "InitGlobalData X no_tables = Inr c"
  obtains ta ba tb bb tk bk c4 where
    "read_table (rows_of X) max_arms_sql arms_sql (arms_of (io_of X) (junk_arms X)) a_type a_level blank_arms (arms_packer X) = Inr (ta, ba)"
    "all_arms c = ta" "arms_list_buffer c = buffers_or [] ba"
    "read_table (rows_of X) max_build_sql build_sql (build_of (io_of X)) b_type b_level blank_build (build_packer X) = Inr (tb, bb)"
    "all_builds c = tb" "build_list_buffer c = buffers_or [] bb"
    "read_table (rows_of X) max_skill_sql skill_sql (skill_of (io_of X)) k_type k_level blank_skill (skill_packer X) = Inr (tk, bk)"
    "all_skills c = tk" "skill_config_buffer c = buffers_or [] bk"
    "\<exists>c3. all_limits c3 = replicate 11 [] \<and> ReadCityLimit X c3 = Inr c4" "all_limits c = all_limits c4" "city_config c = city_config c4"
proof -
  obtain c1 c2 c3 c4 c5 c6 c7 where
    s: "ReadGameVersion X no_tables = Inr c1" "ReadArmsData X c1 = Inr c2" "ReadBuildData X c2 = Inr c3"
      "ReadCityLimit X c3 = Inr c4" "ReadCombatLimit X c4 = Inr c5" "ReadHeroUpdateConfig X c5 = Inr c6"
      "ReadHeroBaseConfig X c6 = Inr c7" "ReadSkillConfig X c7 = Inr c"
    using assms by (auto simp: InitGlobalData_def bind_r_eq_Inr)
  obtain v where c1: "c1 = no_tables\<lparr>game_version := v\<rparr>" using s(1) by (auto simp: ReadGameVersion_def bind_r_eq_Inr)
  obtain ta ba where a: "read_table (rows_of X) max_arms_sql arms_sql (arms_of (io_of X) (junk_arms X)) a_type a_level blank_arms (arms_packer X) = Inr (ta, ba)"
    and c2: "c2 = c1\<lparr>all_arms := ta, arms_list_buffer := buffers_or [] ba\<rparr>"
    using s(2) by (auto simp: ReadArmsData_def bind_r_eq_Inr c1 no_tables_def)
  obtain tb bb where b: "read_table (rows_of X) max_build_sql build_sql (build_of (io_of X)) b_type b_level blank_build (build_packer X) = Inr (tb, bb)"
    and c3: "c3 = c2\<lparr>all_builds := tb, build_list_buffer := buffers_or [] bb\<rparr>"
    using s(3) by (auto simp: ReadBuildData_def bind_r_eq_Inr c1 c2 no_tables_def)
  note c4 = ReadCityLimit_frame [OF s(4)]
  note c5 = ReadCombatLimit_frame [OF s(5)]
  obtain h6 where c6: "c6 = c5\<lparr>recruit_table := h6\<rparr>" using s(6) by (auto simp: ReadHeroUpdateConfig_def bind_r_eq_Inr)
  obtain h7 where c7: "c7 = c6\<lparr>hero_table := h7\<rparr>" using s(7) by (auto simp: ReadHeroBaseConfig_def bind_r_eq_Inr)
  obtain tk bk where k: "read_table (rows_of X) max_skill_sql skill_sql (skill_of (io_of X)) k_type k_level blank_skill (skill_packer X) = Inr (tk, bk)"
    and c: "c = c7\<lparr>all_skills := tk, skill_config_buffer := buffers_or [] bk\<rparr>"
    using s(8) by (auto simp: ReadSkillConfig_def bind_r_eq_Inr c7 c6 c5 c4 c3 c2 c1 no_tables_def)
  have 4: "all_limits c3 = replicate 11 []" by (simp add: c3 c2 c1 no_tables_def)
  have "\<exists>c3. all_limits c3 = replicate 11 [] \<and> ReadCityLimit X c3 = Inr c4" using s(4) 4 by blast
  then show ?thesis by (rule that [OF a _ _ b _ _ k, rotated -3]) (simp_all add: c c7 c6 c5 c4 c3 c2)
qed

text \<open>A field as a number, and the limits that a row has for a level of the city.\<close>

definition number_at :: "row \<Rightarrow> nat \<Rightarrow> int" where
  "number_at r i = (case text_at r i of Inl _ \<Rightarrow> 0 | Inr s \<Rightarrow> atoi s)"

definition row_limit :: "row \<Rightarrow> int \<Rightarrow> nat \<Rightarrow> city_limit_row" where
  "row_limit r ty i = \<lparr>l_city_level = int i, l_build_type = ty, l_max_level = number_at r (i + 3), l_max_num = number_at r (i + 13)\<rparr>"

lemma set_limits_facts:
  "set_limits r ty is s = Inr s1 \<Longrightarrow> distinct is \<Longrightarrow>
    length (fst s1) = length (fst s) \<and> snd s1 = snd s @ map (row_limit r ty) is \<and>
    (\<forall>i < length (fst s). fst s1 ! i = (if i \<in> set is then (fst s ! i)[nat ty := row_limit r ty i] else fst s ! i))"
proof (induction "is" arbitrary: s)
  case (Cons i "is")
  obtain lv num where t: "text_at r (i + 3) = Inr lv" "text_at r (i + 13) = Inr num"
    and rest: "set_limits r ty is ((fst s)[i := (fst s ! i)[nat ty := row_limit r ty i]], snd s @ [row_limit r ty i]) = Inr s1"
    using Cons.prems(1) by (auto simp: Let_def row_limit_def number_at_def split: sum.splits)
  have d: "distinct is" and i: "i \<notin> set is" using Cons.prems(2) by auto
  note IH = Cons.IH [OF rest d]
  have "fst s1 ! j = (if j \<in> set (i # is) then (fst s ! j)[nat ty := row_limit r ty j] else fst s ! j)"
    if "j < length (fst s)" for j
    using IH that i by (cases "j = i") auto
  then show ?case using IH by simp
qed simp

definition types_in :: "nat \<Rightarrow> row list \<Rightarrow> bool" where
  "types_in n rs \<longleftrightarrow> list_all (\<lambda>r. 0 \<le> number_at r 2 \<and> number_at r 2 < int n) rs"

definition limits_of_rows :: "row list \<Rightarrow> city_limit_row list" where
  "limits_of_rows rs = concat (map (\<lambda>r. map (row_limit r (number_at r 2)) [1..<11]) rs)"

definition limit_at :: "row list \<Rightarrow> city_limit_row list list \<Rightarrow> nat \<Rightarrow> nat \<Rightarrow> city_limit_row" where
  "limit_at rs t i j = (let mine = filter (\<lambda>r. number_at r 2 = int j) rs in
     if mine = [] then t ! i ! j else row_limit (last mine) (int j) i)"

lemma read_limits_facts:
  assumes "read_limits rs s = Inr (ended, s1)" and "types_in n rs" and "length (fst s) = 11"
    and "\<And>i. i < 11 \<Longrightarrow> length (fst s ! i) = n"
  shows "ended \<and> snd s1 = snd s @ limits_of_rows rs \<and> length (fst s1) = 11 \<and>
    (\<forall>i < 11. length (fst s1 ! i) = n) \<and> (\<forall>i j. 1 \<le> i \<and> i < 11 \<and> j < n \<longrightarrow> fst s1 ! i ! j = limit_at rs (fst s) i j)"
  using assms
proof (induction rs arbitrary: s)
  case Nil
  then show ?case by (auto simp: limits_of_rows_def limit_at_def)
next
  case (Cons r rs)
  define ty where "ty = number_at r 2"
  have ty: "0 \<le> ty" "ty < int n" and rs: "types_in n rs" using Cons.prems(2) by (simp_all add: types_in_def ty_def)
  obtain t where t: "text_at r 2 = Inr t" using Cons.prems(1) by (auto split: sum.splits)
  have a: "atoi t = ty" by (simp add: ty_def number_at_def t)
  have "length (fst s ! 1) = n" using Cons.prems(4) by simp
  then obtain s2 where s2: "set_limits r ty [1..<11] s = Inr s2" and rest: "read_limits rs s2 = Inr (ended, s1)"
    using Cons.prems(1) t ty by (auto simp: a simp del: upt_rec_numeral split: sum.splits)
  note f = set_limits_facts [OF s2 distinct_upt]
  have at2: "fst s2 ! i = (if 1 \<le> i then (fst s ! i)[nat ty := row_limit r ty i] else fst s ! i)" if "i < 11" for i
    using f that Cons.prems(3) by auto
  have l2: "length (fst s2) = 11" using f Cons.prems(3) by simp
  have n2: "length (fst s2 ! i) = n" if "i < 11" for i using at2 [OF that] Cons.prems(4) [OF that] by simp
  note IH = Cons.IH [OF rest rs l2 n2]
  have "limit_at rs (fst s2) i j = limit_at (r # rs) (fst s) i j" if ij: "1 \<le> i" "i < 11" "j < n" for i j
  proof (cases "ty = int j")
    case True
    then show ?thesis using at2 [OF ij(2)] ij Cons.prems(4) [OF ij(2)]
      by (auto simp: limit_at_def Let_def ty_def [symmetric])
  next
    case False
    then have "nat ty \<noteq> j" using ty by auto
    then show ?thesis using at2 [OF ij(2)] ij False by (simp add: limit_at_def Let_def ty_def [symmetric])
  qed
  then show ?case using IH f by (simp add: limits_of_rows_def ty_def [symmetric] del: upt_rec_numeral)
qed

lemma city_limits_read:
  assumes "ReadCityLimit X c3 = Inr c4" and "all_limits c3 = replicate 11 []"
    and "max_type (rows_of X) max_limit_sql = Inr (Some n)" and "types_in (nat (n + 1)) (rows_of X limit_sql)"
  shows "city_config c4 = pack_limits X (limits_of_rows (rows_of X limit_sql))" and "length (all_limits c4) = 11"
    and "i < 11 \<Longrightarrow> length (all_limits c4 ! i) = nat (n + 1)"
    and "1 \<le> i \<Longrightarrow> i < 11 \<Longrightarrow> j < nat (n + 1) \<Longrightarrow> filter (\<lambda>r. number_at r 2 = int j) (rows_of X limit_sql) \<noteq> [] \<Longrightarrow>
      all_limits c4 ! i ! j = row_limit (last (filter (\<lambda>r. number_at r 2 = int j) (rows_of X limit_sql))) (int j) i"
proof -
  define t where "t = map (\<lambda>j. all_limits c3 ! j @ map (junk_limit X j) [0..<nat (n + 1)]) [0..<11]"
  obtain ended s1 where r: "read_limits (rows_of X limit_sql) (t, []) = Inr (ended, s1)"
    and c4: "c4 = c3\<lparr>all_limits := fst s1, city_config := (if ended then pack_limits X (snd s1) else city_config c3)\<rparr>"
    using assms(1,3) by (auto simp: ReadCityLimit_def bind_r_eq_Inr t_def Let_def)
  have "length (fst (t, []) ! i) = nat (n + 1)" if "i < 11" for i using that by (simp add: t_def assms(2) del: upt_rec_numeral)
  note f = read_limits_facts [OF r assms(4) _ this]
  have l: "length (fst (t, [] :: city_limit_row list)) = 11" by (simp add: t_def)
  note f = f [OF l]
  show "city_config c4 = pack_limits X (limits_of_rows (rows_of X limit_sql))" "length (all_limits c4) = 11"
    using f by (simp_all add: c4)
  show "i < 11 \<Longrightarrow> length (all_limits c4 ! i) = nat (n + 1)" using f by (simp add: c4)
  show "all_limits c4 ! i ! j = row_limit (last (filter (\<lambda>r. number_at r 2 = int j) (rows_of X limit_sql))) (int j) i"
    if "1 \<le> i" "i < 11" "j < nat (n + 1)" "filter (\<lambda>r. number_at r 2 = int j) (rows_of X limit_sql) \<noteq> []"
  proof -
    have "fst s1 ! i ! j = limit_at (rows_of X limit_sql) t i j" using f that by auto
    then show ?thesis using that(4) by (simp add: c4 limit_at_def Let_def)
  qed
qed

lemma config_of_map:
  "config_of (g\<lparr>global_build := map (map f) t, city_limit := l, arm_levels := n\<rparr>) i j =
     bind_r (cell t i j) (\<lambda>b. Inr (f b))"
proof (cases "0 \<le> i \<and> i < int (length t)")
  case True
  then have "nat i < length t" by (simp add: nat_less_iff)
  then show ?thesis using True by (auto simp: config_of_def cell_def at_def)
next
  case False
  then have "at t i = Inl OutOfRange" "at (map (map f) t) i = Inl OutOfRange" by (auto simp: at_def)
  then show ?thesis by (simp add: config_of_def cell_def)
qed

subsection \<open>Properties\<close>

text \<open>
  C16. Clients are sent all of the game's tables. After a start, the answers to the requests
  for arms, buildings and skills are lists that hold, one after the other, exactly the rows
  read from the database whose type the table has, in their order; the flags say which list
  is the first, the last or the only one, and a list has more than one row only while its rows
  are at most 6500 bytes. The limits of the city follow the buildings. No row is as large as a
  gigabyte.
\<close>

theorem configuration_is_sent_completely:
  assumes "InitGlobalData X no_tables = Inr c"
    and "small_rows (arms_packer X) (arms_rows X)" and "small_rows (build_packer X) (build_rows X)"
    and "small_rows (skill_packer X) (skill_rows X)"
  shows "\<exists>arms builds skills.
    complete_lists (arms_packer X) (arms_rows X) arms \<and>
    ArmsConfigRequestService c = map (\<lambda>l. SendSbuffer (pack_list (arms_packer X) l) ArmsListResponse_ID) arms \<and>
    complete_lists (build_packer X) (build_rows X) builds \<and>
    BuildConfigRequestService c = map (\<lambda>l. SendSbuffer (pack_list (build_packer X) l) BuildListResponse_ID) builds @
      [SendSbuffer (city_config c) CityLimitListResponse_ID] \<and>
    complete_lists (skill_packer X) (skill_rows X) skills \<and>
    SkillConfigRequestService c = map (\<lambda>l. SendSbuffer (pack_list (skill_packer X) l) SkillConfigResponse_ID) skills"
proof (rule init_parts [OF assms(1)])
  fix ta ba tb bb tk bk
  assume a: "read_table (rows_of X) max_arms_sql arms_sql (arms_of (io_of X) (junk_arms X)) a_type a_level blank_arms (arms_packer X) = Inr (ta, ba)"
    and b: "read_table (rows_of X) max_build_sql build_sql (build_of (io_of X)) b_type b_level blank_build (build_packer X) = Inr (tb, bb)"
    and k: "read_table (rows_of X) max_skill_sql skill_sql (skill_of (io_of X)) k_type k_level blank_skill (skill_packer X) = Inr (tk, bk)"
    and c: "arms_list_buffer c = buffers_or [] ba" "build_list_buffer c = buffers_or [] bb" "skill_config_buffer c = buffers_or [] bk"
  obtain arms where 1: "buffers_or [] ba = map (pack_list (arms_packer X)) arms" "complete_lists (arms_packer X) (arms_rows X) arms"
    using read_table_lists [OF a assms(2)] by blast
  obtain builds where 2: "buffers_or [] bb = map (pack_list (build_packer X)) builds" "complete_lists (build_packer X) (build_rows X) builds"
    using read_table_lists [OF b assms(3)] by blast
  obtain skills where 3: "buffers_or [] bk = map (pack_list (skill_packer X)) skills" "complete_lists (skill_packer X) (skill_rows X) skills"
    using read_table_lists [OF k assms(4)] by blast
  show ?thesis
    by (rule exI [of _ arms], rule exI [of _ builds], rule exI [of _ skills])
      (simp add: 1 2 3 c ArmsConfigRequestService_def BuildConfigRequestService_def SkillConfigRequestService_def)
qed

text \<open>
  C17. What the handlers look up of a building is its row in the database. After a start, the
  entry of a type and a level is made of the last row with both; a level below one that was
  read is blank, and any other lookup is outside the table.
\<close>

theorem buildings_are_looked_up:
  assumes "InitGlobalData X no_tables = Inr c"
  shows "config_of (game_with c g) ty lv =
    (let rs = filter (\<lambda>b. b_type b = ty \<and> b_level b = lv) (build_rows X) in
     if lv < 0 \<or> \<not> list_ex (\<lambda>b. b_type b = ty \<and> lv \<le> b_level b) (build_rows X) then Inl OutOfRange
     else Inr (build_config_of (if rs = [] then blank_build else last rs)))"
proof (rule init_parts [OF assms])
  fix ta ba tb bb
  assume b: "read_table (rows_of X) max_build_sql build_sql (build_of (io_of X)) b_type b_level blank_build (build_packer X) = Inr (tb, bb)"
    and t: "all_builds c = tb"
  show ?thesis
    using read_table_cells [OF b, of ty lv]
    by (simp add: game_with_def config_of_map t cell_spec_def has_level_def content_def rows_at_def Let_def not_le del: list_ex_iff)
qed

text \<open>
  C39. The limits of the city are those of the database. When the rows have no type above the
  largest one that was asked for, the limits that a handler looks up for a level of the city
  from 1 to 10 and a type that has a row are the fields of the last such row for that level,
  and clients are sent the limits of all rows, in their order.
\<close>

theorem city_limits_are_looked_up:
  assumes "InitGlobalData X no_tables = Inr c"
    and "max_type (rows_of X) max_limit_sql = Inr (Some n)"
    and "types_in (nat (n + 1)) (rows_of X limit_sql)"
    and "1 \<le> city_level" and "city_level \<le> 10" and "r \<in> set (rows_of X limit_sql)"
  shows "limit_of (game_with c g) city_level (number_at r 2) =
      (let last_row = last (filter (\<lambda>r1. number_at r1 2 = number_at r 2) (rows_of X limit_sql)) in
       Inr \<lparr>max_level = number_at last_row (nat city_level + 3), max_num = number_at last_row (nat city_level + 13)\<rparr>) \<and>
    last (BuildConfigRequestService c) = SendSbuffer (pack_limits X (limits_of_rows (rows_of X limit_sql))) CityLimitListResponse_ID"
proof (rule init_parts [OF assms(1)])
  fix c4
  assume "\<exists>c3. all_limits c3 = replicate 11 [] \<and> ReadCityLimit X c3 = Inr c4"
    and c: "all_limits c = all_limits c4" "city_config c = city_config c4"
  then obtain c3 where c3: "ReadCityLimit X c3 = Inr c4" "all_limits c3 = replicate 11 []" by blast
  define j where "j = nat (number_at r 2)"
  have row: "0 \<le> number_at r 2" "number_at r 2 < int (nat (n + 1))"
    using assms(3,6) unfolding types_in_def list_all_iff by blast+
  have j1: "number_at r 2 = int j" using row(1) by (simp add: j_def)
  have j2: "j < nat (n + 1)" using row(2) unfolding j1 by (simp only: of_nat_less_iff)
  note j = j1 j2
  define i where "i = nat city_level"
  have i: "city_level = int i" "1 \<le> i" "i < 11" using assms(4,5) by (auto simp: i_def)
  have ne: "filter (\<lambda>r1. number_at r1 2 = int j) (rows_of X limit_sql) \<noteq> []" using assms(6) j(1) by (auto simp: filter_empty_conv)
  note f = city_limits_read [OF c3 assms(2,3)]
  note cell = f(4) [OF i(2,3) j(2) ne]
  show ?thesis using f(1,2) f(3) [OF i(3)] i j cell
    by (simp add: limit_of_def game_with_def at_def c BuildConfigRequestService_def limit_entry_def row_limit_def Let_def)
qed

subsection \<open>What the readers get wrong\<close>

text \<open>The fifth case of \<open>ReadGameVersion\<close> asks for the fourth name again.\<close>

lemma skill_version_is_never_read: "ReadGameVersion X c = Inr c1 \<Longrightarrow> skill_version (game_version c1) = skill_version (game_version c)"
proof -
  have "read_versions rs g = Inr g1 \<Longrightarrow> skill_version g1 = skill_version g" for rs g g1
    by (induction rs arbitrary: g) (auto split: sum.splits if_splits)
  then show "ReadGameVersion X c = Inr c1 \<Longrightarrow> ?thesis" by (auto simp: ReadGameVersion_def bind_r_eq_Inr)
qed

text \<open>The largest type of an empty table is null.\<close>

lemma empty_table_ends_the_start: "rows_of X max_arms_sql = [[None]] \<Longrightarrow> ReadArmsData X c = Inl NullString"
  by (simp add: ReadArmsData_def read_table_def max_type_def text_at_def at_def)

text \<open>The entries for level 0 that the readers make for every type are not in the table.\<close>

lemma type_without_rows_has_no_levels:
  assumes "InitGlobalData X no_tables = Inr c" and "\<not> list_ex (\<lambda>b. b_type b = ty) (build_rows X)"
  shows "config_of (game_with c g) ty lv = Inl OutOfRange"
  by (rule init_parts [OF assms(1)])
    (use assms(2) in \<open>auto simp: config_of_map cell_spec_def has_level_def game_with_def list_ex_iff dest!: read_table_cells [where i = ty and j = lv]\<close>)

subsection \<open>The properties at concrete tables\<close>

definition example_rows :: rows_of where
  "example_rows sql =
     (if sql = max_arms_sql \<or> sql = max_build_sql \<or> sql = max_skill_sql \<or> sql = max_limit_sql then [[Some ''1'']]
      else if sql = arms_sql then [replicate 16 (Some ''1'')]
      else if sql = build_sql then [[Some ''hall'', Some ''1'', Some ''1'', Some ''2''] @ replicate 13 (Some ''7'') @ [None, None]]
      else if sql = skill_sql then [replicate 11 (Some ''1'')]
      else if sql = limit_sql then [replicate 24 (Some ''1'')]
      else [])"

definition example_reader :: reader where
  "example_reader = \<lparr>rows_of = example_rows, io_of = \<lparr>show_float = \<lambda>_. [], atof = \<lambda>_. 0, int_float = \<lambda>_. 0\<rparr>,
     junk_arms = \<lambda>_. blank_arms, junk_limit = \<lambda>_ _. \<lparr>l_city_level = 0, l_build_type = 0, l_max_level = 0, l_max_num = 0\<rparr>,
     junk_int = \<lambda>_ _. 0, arms_packer = \<lparr>pack_row = a_name, pack_list = \<lambda>l. concat (map a_name (snd l))\<rparr>,
     build_packer = \<lparr>pack_row = b_name, pack_list = \<lambda>l. concat (map b_name (snd l))\<rparr>,
     skill_packer = \<lparr>pack_row = k_name, pack_list = \<lambda>l. concat (map k_name (snd l))\<rparr>,
     pack_limits = \<lambda>ls. replicate (length ls) CHR ''l''\<rparr>"

lemma example_numbers: "atoi ''1'' = 1" "atoi ''2'' = 2" "atoi ''7'' = 7"
  by code_simp+

lemma example_max:
  "max_type example_rows max_arms_sql = Inr (Some 1)" "max_type example_rows max_build_sql = Inr (Some 1)"
  "max_type example_rows max_skill_sql = Inr (Some 1)" "max_type example_rows max_limit_sql = Inr (Some 1)"
  by (simp_all add: max_type_def example_rows_def text_at_def at_def cstr_def example_numbers)

lemma example_starts: "is_ok (InitGlobalData example_reader no_tables)"
  by code_simp

lemma example_small:
  "small_rows (arms_packer example_reader) (arms_rows example_reader)"
  "small_rows (build_packer example_reader) (build_rows example_reader)"
  "small_rows (skill_packer example_reader) (skill_rows example_reader)"
  by code_simp+

theorem configuration_is_sent_completely_witness:
  "\<exists>c builds. InitGlobalData example_reader no_tables = Inr c \<and>
     complete_lists (build_packer example_reader) (build_rows example_reader) builds \<and>
     BuildConfigRequestService c =
       map (\<lambda>l. SendSbuffer (pack_list (build_packer example_reader) l) BuildListResponse_ID) builds @
       [SendSbuffer (city_config c) CityLimitListResponse_ID]"
proof -
  obtain c where c: "InitGlobalData example_reader no_tables = Inr c" using example_starts by (auto simp: is_ok_ex)
  show ?thesis using configuration_is_sent_completely [OF c example_small] c by blast
qed

theorem buildings_are_looked_up_witness:
  "\<exists>c. InitGlobalData example_reader no_tables = Inr c \<and>
     (\<forall>g. is_ok (config_of (game_with c g) 1 2) \<and> config_of (game_with c g) 1 3 = Inl OutOfRange)"
proof -
  obtain c where c: "InitGlobalData example_reader no_tables = Inr c" using example_starts by (auto simp: is_ok_ex)
  have "list_ex (\<lambda>b. b_type b = 1 \<and> 2 \<le> b_level b) (build_rows example_reader)"
    "\<not> list_ex (\<lambda>b. b_type b = 1 \<and> 3 \<le> b_level b) (build_rows example_reader)" by code_simp+
  then have "is_ok (config_of (game_with c g) 1 2)" "config_of (game_with c g) 1 3 = Inl OutOfRange" for g
    unfolding buildings_are_looked_up [OF c] Let_def by simp_all
  with c show ?thesis by blast
qed

theorem city_limits_are_looked_up_witness:
  "\<exists>c. InitGlobalData example_reader no_tables = Inr c \<and>
     (\<forall>g. limit_of (game_with c g) 10 1 = Inr \<lparr>max_level = 1, max_num = 1\<rparr>)"
proof -
  obtain c where c: "InitGlobalData example_reader no_tables = Inr c" using example_starts by (auto simp: is_ok_ex)
  let ?r = "replicate 24 (Some ''1'')"
  have rows: "rows_of example_reader limit_sql = [?r]" by code_simp
  have n: "number_at ?r 2 = 1" "number_at ?r 13 = 1" "number_at ?r 23 = 1" by code_simp+
  have max: "max_type (rows_of example_reader) max_limit_sql = Inr (Some 1)"
    by (simp add: example_reader_def example_max)
  have "types_in (nat (1 + 1)) (rows_of example_reader limit_sql)" by code_simp
  from city_limits_are_looked_up [OF c max this, of 10 ?r] rows n
  have "limit_of (game_with c g) 10 1 = Inr \<lparr>max_level = 1, max_num = 1\<rparr>" for g by simp
  with c show ?thesis by blast
qed

end
