(* ===== verification/Mysql_Manager.thy ===== *)
theory Mysql_Manager
  imports Army_Queue Config_Tables
begin

section \<open>Accounts through Poco, and the tables of the camps' worker\<close>

text \<open>
  Models \<open>module/MysqlManager.cpp\<close>, with which the worker of the camps takes diamonds. A
  statement is its text with the values bound to its question marks; \<open>P\<close> is Poco with the
  server behind it: a statement throws or gives what \<open>execute\<close> returns and its first row. A
  column that no row gives leaves the variable as it is. At the end the record \<open>small_map\<close> of
  \<open>Army_Queue\<close> is filled from these functions and the tables of \<open>Config_Tables\<close>.
\<close>

datatype bound = Bound_text string | Bound_number u32

datatype poco_reply = Data_exception | Executed u32 "bound list"

type_synonym 'c poco = "string \<Rightarrow> bound list \<Rightarrow> 'c \<Rightarrow> poco_reply \<times> 'c"

definition DB_INTERACTICE_SUCCESS :: int where "DB_INTERACTICE_SUCCESS = 1"
definition DB_INTERACTICE_FAILED :: int where "DB_INTERACTICE_FAILED = 0"
definition DB_INTERACTICE_USER_EXIST :: int where "DB_INTERACTICE_USER_EXIST = -1"
definition DB_INTERACTICE_USER_NOT_EXIST :: int where "DB_INTERACTICE_USER_NOT_EXIST = -2"
definition DB_INTERACTICE_ORI_PSW_ERROR :: int where "DB_INTERACTICE_ORI_PSW_ERROR = -3"

definition try_statement :: "'c poco \<Rightarrow> string \<Rightarrow> bound list \<Rightarrow> ('c, (u32 \<times> bound list) option) db" where
  "try_statement P sql args = (\<lambda>c. case P sql args c of
     (Data_exception, c1) \<Rightarrow> Inr (None, c1) | (Executed n r, c1) \<Rightarrow> Inr (Some (n, r), c1))"

definition run_statement :: "'c poco \<Rightarrow> string \<Rightarrow> bound list \<Rightarrow> ('c, u32 \<times> bound list) db" where
  "run_statement P sql args = db_bind (try_statement P sql args) (\<lambda>r. case r of
     None \<Rightarrow> db_lift (Inl UncaughtException) | Some x \<Rightarrow> db_return x)"

fun into_number :: "u32 \<Rightarrow> bound list \<Rightarrow> u32" where
  "into_number old (Bound_number n # _) = n"
| "into_number old _ = old"

fun into_text :: "bound list \<Rightarrow> string" where
  "into_text (Bound_text s # _) = s"
| "into_text _ = []"

text \<open>\<open>uuid\<close> is the text that the generator made.\<close>

definition regUser :: "'c poco \<Rightarrow> string \<Rightarrow> string \<Rightarrow> string \<Rightarrow> ('c, int) db" where
  "regUser P uuid email psw =
     db_bind (try_statement P ''INSERT INTO user_info(username, password, uuid) VALUES (?, ?, ?)''
                [Bound_text email, Bound_text psw, Bound_text uuid]) (\<lambda>r. case r of
       None \<Rightarrow> db_return DB_INTERACTICE_USER_EXIST
     | Some (ret, _) \<Rightarrow>
         if ret \<noteq> 0 then db_return DB_INTERACTICE_FAILED
         else db_bind (run_statement P ''SELECT LAST_INSERT_ID()'' []) (\<lambda>(_, row).
           let uid = into_number 0 row in
           db_return (if uid = 0 then DB_INTERACTICE_FAILED else sint uid)))"

definition changePsw :: "'c poco \<Rightarrow> u32 \<Rightarrow> string \<Rightarrow> string \<Rightarrow> ('c, int) db" where
  "changePsw P uid oldPsw newPsw =
     db_bind (run_statement P ''SELECT password FROM user_info WHERE id=?'' [Bound_number uid]) (\<lambda>(_, row).
       if into_text row \<noteq> oldPsw then db_return DB_INTERACTICE_ORI_PSW_ERROR
       else db_bind (run_statement P ''UPDATE user_info SET password=? WHERE id=? '' [Bound_text newPsw, Bound_number uid])
         (\<lambda>(ret, _). db_return (if ret \<noteq> 0 then DB_INTERACTICE_FAILED else DB_INTERACTICE_SUCCESS)))"

definition verifyUserPsw :: "'c poco \<Rightarrow> string \<Rightarrow> string \<Rightarrow> ('c, int) db" where
  "verifyUserPsw P email psw =
     db_bind (try_statement P ''SELECT id,password FROM user_info WHERE username=?'' [Bound_text email]) (\<lambda>r. case r of
       None \<Rightarrow> db_return DB_INTERACTICE_FAILED
     | Some (_, row) \<Rightarrow>
         let uid = into_number 0 row; password = into_text (drop 1 row) in
         db_return (if uid = 0 then DB_INTERACTICE_USER_NOT_EXIST
                    else if password = psw then sint uid else DB_INTERACTICE_FAILED))"

definition balance_query :: string where
  "balance_query = ''SELECT balance FROM account_info WHERE user_id=?''"

definition balance_update :: string where
  "balance_update = ''UPDATE account_info SET balance=? WHERE user_id=? ''"

text \<open>The balance is unsigned: the diamonds to take are compared and subtracted as an unsigned number.\<close>

definition sub_diamond :: "'c poco \<Rightarrow> u32 \<Rightarrow> int \<Rightarrow> ('c, bool) db" where
  "sub_diamond P uid diamond_to_sub =
     db_bind (run_statement P balance_query [Bound_number uid]) (\<lambda>(_, row).
       let diamond_num = into_number 0 row in
       if diamond_num < word_of_int diamond_to_sub then db_return False
       else db_bind (run_statement P balance_update [Bound_number (diamond_num - word_of_int diamond_to_sub), Bound_number uid])
         (\<lambda>(ret, _). db_return (ret = 0)))"

subsection \<open>The worker of the camps\<close>

definition arms_entry :: "arms_response \<Rightarrow> arms" where
  "arms_entry a = \<lparr>arms.need_wood = a_wood a, arms.need_stone = a_stone a, arms.need_iron = a_iron a,
     arms.need_soil = a_soil a, arms.population = a_population a, arms.build_time = a_build_time a\<rparr>"

definition worker_with :: "'c poco \<Rightarrow> tables \<Rightarrow> 'c small_map \<Rightarrow> 'c small_map" where
  "worker_with P c sm = sm\<lparr>arms_table := map (map arms_entry) (all_arms c), combat_union_limit := combat_limits c,
     subDiamond := \<lambda>u cost. sub_diamond P (word_of_int u) cost\<rparr>"

subsection \<open>What is taken and looked up\<close>

text \<open>
  What the database documents of the two statements: a query gives the balance of an account
  that exists and changes nothing, an update sets it. \<open>n\<close> is what \<open>execute\<close>
  returns for an update: it may depend on the database, the user and the new balance.
\<close>

definition keeps_accounts :: "'c poco \<Rightarrow> ('c \<Rightarrow> u32 \<Rightarrow> u32 option) \<Rightarrow> ('c \<Rightarrow> u32 \<Rightarrow> u32 \<Rightarrow> u32) \<Rightarrow> bool" where
  "keeps_accounts P balance n \<longleftrightarrow>
     (\<forall>u c. \<exists>k. P balance_query [Bound_number u] c = (Executed k (case balance c u of None \<Rightarrow> [] | Some b \<Rightarrow> [Bound_number b]), c)) \<and>
     (\<forall>u b c. \<exists>r c1. P balance_update [Bound_number b, Bound_number u] c = (Executed (n c u b) r, c1) \<and>
        balance c1 = (case balance c u of None \<Rightarrow> balance c | Some _ \<Rightarrow> (balance c)(u \<mapsto> b)))"

definition has_diamonds :: "('c \<Rightarrow> u32 \<Rightarrow> u32 option) \<Rightarrow> 'c \<Rightarrow> u32 \<Rightarrow> u32" where
  "has_diamonds balance c u = (case balance c u of None \<Rightarrow> 0 | Some b \<Rightarrow> b)"

lemma run_statement_simp: "P sql args c = (Executed n r, c1) \<Longrightarrow> run_statement P sql args c = Inr ((n, r), c1)"
  by (simp add: run_statement_def try_statement_def db_bind_def)

text \<open>
  C18. Diamonds are taken exactly. The cost, an \<open>int\<close>, is read as an unsigned number
  \<open>d\<close>: itself when it is not negative, 2^32 more when it is. A purchase for which the
  player has fewer than \<open>d\<close> diamonds changes nothing and is refused; else just
  \<open>d\<close> are taken, no balance wraps around, and no other account changes. The purchase is
  then accepted exactly when \<open>execute\<close> returned 0 for the update. The statements are
  those of a database that answers both of them, and gives and sets balances.
\<close>

theorem diamonds_are_taken_exactly:
  fixes P :: "'c poco" and cost :: int
  assumes "keeps_accounts P balance n"
  defines "d \<equiv> cost mod 2 ^ 32"
  shows "\<exists>ok c1. sub_diamond P u cost c = Inr (ok, c1) \<and>
    (if uint (has_diamonds balance c u) < d then \<not> ok \<and> c1 = c
     else (ok \<longleftrightarrow> n c u (has_diamonds balance c u - word_of_int cost) = 0) \<and>
       uint (has_diamonds balance c1 u) = uint (has_diamonds balance c u) - d \<and>
       (\<forall>v. v \<noteq> u \<longrightarrow> balance c1 v = balance c v))"
proof -
  let ?b = "has_diamonds balance c u" and ?d = "word_of_int cost :: u32"
  have d: "uint ?d = d" by (simp add: uint_word_of_int d_def)
  obtain k where q: "P balance_query [Bound_number u] c = (Executed k (case balance c u of None \<Rightarrow> [] | Some b \<Rightarrow> [Bound_number b]), c)"
    using assms(1) unfolding keeps_accounts_def by blast
  note q1 = run_statement_simp [where P = P and sql = balance_query, OF q]
  have row: "into_number 0 (case balance c u of None \<Rightarrow> [] | Some b \<Rightarrow> [Bound_number b]) = ?b"
    by (simp add: has_diamonds_def split: option.splits)
  show ?thesis
  proof (cases "?b < ?d")
    case True
    then have "uint ?b < d" using d by (simp add: word_less_def)
    moreover have "sub_diamond P u cost c = Inr (False, c)"
      using True by (simp add: sub_diamond_def db_bind_def q1 row)
    ultimately show ?thesis by auto
  next
    case False
    then have le: "d \<le> uint ?b" using d by (simp add: word_less_def)
    let ?n = "n c u (?b - ?d)"
    obtain r c1 where up: "P balance_update [Bound_number (?b - ?d), Bound_number u] c = (Executed ?n r, c1)"
      and b: "balance c1 = (case balance c u of None \<Rightarrow> balance c | Some _ \<Rightarrow> (balance c)(u \<mapsto> ?b - ?d))"
      using assms(1) unfolding keeps_accounts_def by blast
    have left: "uint (?b - ?d) = uint ?b - d" using le d by (simp add: uint_sub_if')
    have "0 \<le> d" using d uint_ge_0 [of ?d] by linarith
    have "sub_diamond P u cost c = Inr (?n = 0, c1)"
      using False by (simp add: sub_diamond_def db_bind_def q1 row run_statement_simp [where P = P and sql = balance_update, OF up])
    moreover have "uint (has_diamonds balance c1 u) = uint ?b - d"
      using b left le \<open>0 \<le> d\<close> by (cases "balance c u") (simp_all add: has_diamonds_def)
    moreover have "balance c1 v = balance c v" if "v \<noteq> u" for v using b that by (simp split: option.splits)
    ultimately show ?thesis using le by auto
  qed
qed

text \<open>An arm of the worker is the last row of its type and level.\<close>

lemma arms_are_looked_up:
  assumes "InitGlobalData X no_tables = Inr c"
  shows "arms_index (worker_with P c sm) ty lv = bind_r (cell_spec a_type a_level blank_arms (arms_rows X) ty lv) (\<lambda>a. Inr (arms_entry a))"
proof (rule init_parts [OF assms])
  fix ta ba
  assume a: "read_table (rows_of X) max_arms_sql arms_sql (arms_of (io_of X) (junk_arms X)) a_type a_level blank_arms (arms_packer X) = Inr (ta, ba)"
    and t: "all_arms c = ta"
  show ?thesis unfolding read_table_cells [OF a, symmetric]
    by (auto simp: arms_index_def arms_at_def worker_with_def t cell_def at_def Let_def nat_less_iff)
qed

text \<open>One account; \<open>execute\<close> returns 0 for it and 1 for others.\<close>

fun one_account :: "u32 poco" where
  "one_account sql args c =
     (if sql = balance_query then (Executed 1 (if args = [Bound_number 7] then [Bound_number c] else []), c)
      else case args of
          [Bound_number b, Bound_number u] \<Rightarrow> (Executed (if u = 7 then 0 else 1) [], if u = 7 then b else c)
        | _ \<Rightarrow> (Executed 0 [], c))"

lemma one_account_ok: "keeps_accounts one_account (\<lambda>c. [7 \<mapsto> c]) (\<lambda>c u b. if u = 7 then 0 else 1)"
  by (auto simp: keeps_accounts_def balance_query_def balance_update_def)

theorem diamonds_are_taken_exactly_witness:
  "(\<exists>ok c1. sub_diamond one_account 7 30 100 = Inr (ok, c1) \<and> ok \<and> uint (has_diamonds (\<lambda>c. [7 \<mapsto> c]) c1 7) = 70) \<and>
   (\<exists>ok c1. sub_diamond one_account 7 (-30) 100 = Inr (ok, c1) \<and> \<not> ok \<and> c1 = 100)"
proof -
  have b: "uint (has_diamonds (\<lambda>c. [7 \<mapsto> c]) (100 :: u32) 7) = 100" by (simp add: has_diamonds_def)
  have "\<exists>ok c1. sub_diamond one_account 7 30 100 = Inr (ok, c1) \<and> ok \<and> uint (has_diamonds (\<lambda>c. [7 \<mapsto> c]) c1 7) = 70"
    using diamonds_are_taken_exactly [OF one_account_ok, of 7 30 100] b by auto
  moreover have "\<exists>ok c1. sub_diamond one_account 7 (-30) 100 = Inr (ok, c1) \<and> \<not> ok \<and> c1 = 100"
    using diamonds_are_taken_exactly [OF one_account_ok, of 7 "-30" 100] b by auto
  ultimately show ?thesis by blast
qed

end
