(* ===== verification/Spec2Isabelle.thy ===== *)
theory Spec2Isabelle
  imports Tcp_Manager Broker_Peers Army_Build Small_Map World_Map Mysql_Pool Gateway Battle Mysql_Manager
begin

text \<open>
  A verification library for the online game server of this repository, as it is under
  \<open>src/icebridge_svn/trunk\<close>; paths below are relative to it.

  \<^bold>\<open>The program.\<close> Clients of the game keep one TCP connection to the \<^emph>\<open>gateway\<close>
  (\<open>gateway_server\<close>). Its network layer (\<open>sdk\<close>) frames and encrypts messages and gives each
  connection a session on one of several threads. A session's handler is a \<open>LoginWorker\<close>
  (\<open>service\<close>): it serves the requests for buildings, items and heroes itself, over Redis and
  MySQL (\<open>database\<close>, \<open>module\<close>), and sends the other requests as multipart messages through the
  \<^emph>\<open>broker\<close> (\<open>router\<close>) to the \<^emph>\<open>workers\<close> (\<open>workers\<close>): the camps where armies are built, the
  map of the world, battles between players. A worker answers with a list of players and a
  message, which comes back through the broker and is handed to their connections.

  \<^bold>\<open>Conventions.\<close> A function of the code is a definition with the code's name. A handler maps the
  state (a record) to the new state and what it sends, in the order of the code; a step that
  can end the program gives a value of \<open>crash + 'a\<close> (\<open>Prelude\<close>), an operation on a database has
  the type \<open>('c, 'a) db\<close> (\<open>Redis_Client\<close>). Integers that can wrap are words or go through
  \<open>to_short\<close> and \<open>to_int32\<close>, text is a list of characters, a \<open>float\<close> that is only moved is its
  bits, uninitialised memory is an argument. Times, random numbers and what a database replies are
  arguments. A \<open>std::map\<close> is a list in the order of its keys where the order matters.

  \<^bold>\<open>The network layer\<close> (\<open>gateway_server/sdk\<close>).
  \<^item> \<open>Net_Message\<close>: \<open>net_message.h/.cc\<close>, byte buffers that share their storage. Any program over
    them computes what it would compute over byte strings.
  \<^item> \<open>Container_Device\<close>: \<open>container_device.h\<close> over the interface \<open>seq_container\<close>, interpreted by
    \<open>Net_Message\<close>; a stream is read back as it was written.
  \<^item> \<open>Cipher\<close>: \<open>AESSBox\<close>, \<open>TeaAlgorithm.cpp\<close>; the box is a permutation, so decrypting restores.
  \<^item> \<open>Random_Util\<close>: \<open>module/RandomUtil.cpp\<close>, the table of random numbers and its indices.
  \<^item> \<open>Message_Filter\<close>: \<open>my_filter.h\<close>; what one filter frames and encrypts another one recovers.
  \<^item> \<open>Tcp_Session\<close>: \<open>tcp_session.h/.cc\<close> over the interface \<open>message_filter\<close>, interpreted by
    \<open>Message_Filter\<close>, with the relation \<open>session_run\<close> of handlers, completions and posts: the
    count of outstanding handlers, the order of the bytes sent and of the messages received.
  \<^item> \<open>Id_Generator\<close>: \<open>id_generator.h\<close>, the interface \<open>id_source\<close> and its interpretation.
  \<^item> \<open>Tcp_Manager\<close>: session queues, handlers, \<open>tcp_io_thread_manager\<close>, \<open>SessionFilter.cpp\<close> and
    \<open>PlayersManager.cpp\<close>; its sessions come from \<open>id_source\<close>.

  \<^bold>\<open>The broker and its peers\<close> (\<open>router\<close>, \<open>module/zmsg.hpp\<close>, \<open>module/mdp.h\<close>).
  \<^item> \<open>Zmsg\<close>: multipart messages, and identities as text.
  \<^item> \<open>Broker_Service\<close>: \<open>service.hpp\<close>, \<open>worker.hpp\<close> and the dispatch loop over the interface
    \<open>worker_policy\<close>, interpreted by both policies and by the virtual function.
  \<^item> \<open>Broker\<close>: \<open>mdbroker.cpp\<close>; the invariant of all reachable states and a request with its reply.
  \<^item> \<open>Broker_Peers\<close>: the worker's thread (\<open>workers/worker_common/mdwrkapi\<close>) and the gateway's client
    (\<open>gateway_server/logic_server/mdcliapi2\<close>); bodies travel unchanged from end to end, requests
    go to the live brokers in turn, and when the thread does not return.
  \<^item> \<open>Worker_Frames\<close>: the bodies of requests and answers (\<open>worker_common/base_function.hpp\<close>,
    \<open>handler_in_gateway\<close> of \<open>service/__server.cpp\<close>) and the identifiers of messages.

  \<^bold>\<open>Data.\<close>
  \<^item> \<open>Redis_Client\<close>: \<open>module/RedisClient.cpp\<close>, \<open>GameUtils.cpp\<close>. \<open>Chat_Redis\<close>: \<open>module/redis_base.cpp\<close>
    and \<open>gateway_server/database/redis_chat_worker.cpp\<close>. The server behind hiredis is a function
    from a command and its state to a reply and the new state.
  \<^item> \<open>Hero_Store\<close>: what is stored of the heroes, any number of times, and what the next login reads
    of them, for a server that keeps hashes under their keys as Redis documents them.
  \<^item> \<open>Mysql_Pool\<close>, \<open>Mysql_Login\<close>, \<open>Mysql_Manager\<close>: the pool of connections (\<open>module/mysql_base\<close>),
    accounts (\<open>database/mysql_login_worker.cpp\<close>) and diamonds (\<open>module/MysqlManager.cpp\<close>).
  \<^item> \<open>Config_Tables\<close>: \<open>module/mysql_game_configbuff.cpp\<close>, which reads the game's tables at the start;
    what clients are sent of them and what handlers look up in them. \<open>game_with\<close> and, in
    \<open>Mysql_Manager\<close>, \<open>worker_with\<close> fill the records that the handlers' theories leave open.

  \<^bold>\<open>The gateway's service\<close> (\<open>gateway_server/service\<close>).
  \<^item> \<open>Player_Data\<close>: a player as the gateway keeps him, and the effects of a handler.
  \<^item> \<open>Buildings\<close>, \<open>Backpack\<close>, \<open>Heroes\<close>: \<open>_login_worker_logicworker.cpp\<close>. Timers belong exactly to the
    short constructions, also when the buildings are reloaded from Redis, items are conserved, no two heroes have the same job.
  \<^item> \<open>Market\<close>: the market's two tables, which interpret the interface \<open>map_contract\<close>.
  \<^item> \<open>Chat_Worker\<close>: \<open>_chat_worker.cpp\<close>, the slots of the players who are online.
  \<^item> \<open>Login_Worker\<close>, \<open>Gateway\<close>: \<open>_login_worker.cpp\<close>, \<open>_login_worker_msg.cpp\<close>; which worker serves a
    request, new players, and all connections together with the chat (\<open>gateway_step\<close>).

  \<^bold>\<open>The workers\<close> (\<open>workers\<close>).
  \<^item> \<open>Army_Queue\<close>, \<open>Army_Build\<close>, \<open>Small_Map\<close>: \<open>small_map_worker\<close>, the orders of the camps with their
    timers; when a timer is due, how orders are built to their end, each soldier in its time, and
    when camps come back unchanged after a logout.
  \<^item> \<open>World_Positions\<close>, \<open>World_Map\<close>: \<open>simple_worker\<close>, free places and players on the map.
  \<^item> \<open>Battle\<close>: \<open>pvp_worker\<close>, battles between two players: what both sides send, the turns and the results.

  \<^bold>\<open>How the theorems are built.\<close> Each component has its invariant, kept by every operation
  (collection \<open>inv_intros\<close> where it is shared), the fields its operations do not touch
  (\<open>frame_simps\<close>), and the results of its operations on every branch. Runs of a component
  (\<open>session_run\<close>, \<open>manager_run\<close>, \<open>broker_run\<close>, \<open>army_run\<close>, \<open>small_run\<close>, \<open>world_run\<close>, \<open>gateway_step\<close>,
  \<open>pvp_runs\<close>) are inductive relations over any events in any order, and the invariants are
  proved by induction over them. Interfaces are locales; every one is interpreted on the
  model's own definitions, and its facts are used through the interpretation. The numbered
  properties stand at the top level of their theories and are followed, at the end, by
  applications at concrete states.

  \<^bold>\<open>Bounds.\<close> A message has at most 65534 bytes; the chat has 20000 slots; at most 20000 queries
  overlap; a battle lasts 3000 turns of 100 ms; the random table has 1000000 numbers; a list of
  configuration has about 6500 bytes. Where a theorem needs a bound it is an assumption of the
  theorem. Loops are recursive functions that end; the two that need not (\<open>send_queue\<close>, and the
  reduction of \<open>Cipher\<close> for a modulus of the wrong degree) say so: \<open>None\<close> is a loop that never
  ends, and theorems say when that is.

  \<^bold>\<open>Not modelled\<close>: the event loops, sockets and timers of boost and ZeroMQ and the drivers of
  Redis, MySQL and Poco, which call the handlers or answer them (parameters where a handler
  uses a result); what msgpack makes of a message (a parameter); \<open>LockingQueue.h\<close>, \<open>zmq.hpp\<close> and
  \<open>zhelpers.hpp\<close>, which are other people's; logging and the reading of the configuration file; the
  workers written in Python; the copies of these sources in \<open>EddyServer\<close>, \<open>icebridge_svn/personal\<close>
  and elsewhere.
\<close>

end
